(* ===== verification/Prelude.thy ===== *)
theory Prelude
  imports Main "HOL-Library.AList" "HOL-Library.List_Lexorder" "HOL-Library.Product_Lexorder"
    "HOL-Library.Word" "HOL-Library.Multiset"
begin

text \<open>
  Shared vocabulary of the development: bytes, bounded unsigned arithmetic with the overflow
  written out, the worklist loop that every graph walk of the program is an instance of,
  collections with the duplicate-free insertion of a hash set, and the contract of a memoised
  function.  The lemmas here are generic; the components instantiate the two locales
  \<open>search_space\<close> and \<open>memo_fn\<close>.
\<close>

section \<open>Bytes and machine integers\<close>

type_synonym byte = "8 word"

text \<open>
  Unsigned machine integers are natural numbers; each operation that can leave the width of its
  type is written with the width as an argument, so that overflow is a branch of the model:
  \<open>checked_add\<close>, \<open>checked_mul\<close> and \<open>checked_sub\<close> are the methods of the same name of
  \<open>u64\<close> and \<open>u128\<close>, and \<open>try_fold_add\<close> is \<open>try_fold(0, checked_add)\<close>.
\<close>

definition checked_add :: "nat \<Rightarrow> nat \<Rightarrow> nat \<Rightarrow> nat option" where
  "checked_add w a b = (if a + b < 2 ^ w then Some (a + b) else None)"

definition checked_mul :: "nat \<Rightarrow> nat \<Rightarrow> nat \<Rightarrow> nat option" where
  "checked_mul w a b = (if a * b < 2 ^ w then Some (a * b) else None)"

definition checked_sub :: "nat \<Rightarrow> nat \<Rightarrow> nat option" where
  "checked_sub a b = (if b \<le> a then Some (a - b) else None)"

text \<open>
  \<open>+\<close> and \<open>*\<close> on a machine integer of width \<open>w\<close> wrap.
\<close>

definition wrapping_add :: "nat \<Rightarrow> nat \<Rightarrow> nat \<Rightarrow> nat" where
  "wrapping_add w a b = (a + b) mod 2 ^ w"

definition wrapping_mul :: "nat \<Rightarrow> nat \<Rightarrow> nat \<Rightarrow> nat" where
  "wrapping_mul w a b = a * b mod 2 ^ w"

fun try_fold_add :: "nat \<Rightarrow> nat \<Rightarrow> nat list \<Rightarrow> nat option" where
  "try_fold_add w acc [] = Some acc"
| "try_fold_add w acc (x # xs) =
     (case checked_add w acc x of None \<Rightarrow> None | Some acc' \<Rightarrow> try_fold_add w acc' xs)"

section \<open>Collections\<close>

text \<open>
  A hash set or hash map of the program is a list: the list's order is the collection's iteration
  order, which the program does not control, so every theorem below holds for every order.
  \<open>dedup_by f\<close> is \<open>collect\<close> into a hash set whose elements are compared by \<open>f\<close>: of
  several elements that compare equal the first is kept.
\<close>

fun dedup_by :: "('a \<Rightarrow> 'b) \<Rightarrow> 'a list \<Rightarrow> 'a list" where
  "dedup_by f [] = []"
| "dedup_by f (x # xs) = x # filter (\<lambda>y. f y \<noteq> f x) (dedup_by f xs)"

text \<open>\<open>bt_insert\<close> is insertion into a sorted map: a list sorted strictly by key.\<close>

fun bt_insert :: "'k::linorder \<Rightarrow> 'v \<Rightarrow> ('k \<times> 'v) list \<Rightarrow> ('k \<times> 'v) list" where
  "bt_insert k v [] = [(k, v)]"
| "bt_insert k v ((k', v') # m) =
     (if k < k' then (k, v) # (k', v') # m
      else if k = k' then (k, v) # m
      else (k', v') # bt_insert k v m)"

lemma Diff_Un_eq: "A - (B \<union> C) = A - B - C"
  by auto

section \<open>The worklist loop\<close>

text \<open>
  Every walk over the block graph is the same loop: pop an element, look at its successors one by
  one, and push each successor that was not yet in the visited set.  A queue (\<open>VecDeque\<close>,
  \<open>push_back\<close> and \<open>pop_front\<close>) is \<open>Fifo\<close>; a stack (\<open>Vec\<close>, \<open>push\<close> and
  \<open>pop\<close>) is \<open>Lifo\<close>, with its top first.  The universe argument only bounds the loop: the
  callers' successors lie in it.
\<close>

datatype discipline = Fifo | Lifo

definition push_all :: "discipline \<Rightarrow> 'a list \<Rightarrow> 'a list \<Rightarrow> 'a list" where
  "push_all d q new = (case d of Fifo \<Rightarrow> q @ new | Lifo \<Rightarrow> rev new @ q)"

fun fresh :: "'a list \<Rightarrow> 'a list \<Rightarrow> 'a list \<Rightarrow> 'a list" where
  "fresh universe [] visited = []"
| "fresh universe (p # ps) visited =
     (if p \<in> set universe \<and> p \<notin> set visited then p # fresh universe ps (visited @ [p])
      else fresh universe ps visited)"

lemma set_fresh [simp]: "set (fresh universe ps visited) = set ps \<inter> set universe - set visited"
  by (induction universe ps visited rule: fresh.induct) auto

lemma distinct_fresh [simp]: "distinct (fresh universe ps visited)"
  by (induction universe ps visited rule: fresh.induct) auto

lemma set_push_all [simp]: "set (push_all d q new) = set q \<union> set new"
  by (cases d) (auto simp: push_all_def)

lemma length_push_all [simp]: "length (push_all d q new) = length q + length new"
  by (cases d) (auto simp: push_all_def)

lemma card_fresh:
  "card (set universe - (set visited \<union> set (fresh universe ps visited))) + length (fresh universe ps visited)
     = card (set universe - set visited)"
proof -
  let ?new = "fresh universe ps visited"
  have sub: "set ?new \<subseteq> set universe - set visited" by auto
  have "card (set universe - set visited - set ?new) = card (set universe - set visited) - card (set ?new)"
    by (rule card_Diff_subset) (use sub in auto)
  moreover have "card (set ?new) = length ?new" by (rule distinct_card) simp
  moreover have "card (set ?new) \<le> card (set universe - set visited)"
    by (rule card_mono) (use sub in auto)
  moreover have split: "set universe - (set visited \<union> set ?new) = set universe - set visited - set ?new"
    by (rule Diff_Un_eq)
  ultimately show ?thesis unfolding split by linarith
qed

function worklist ::
  "discipline \<Rightarrow> 'a list \<Rightarrow> ('a \<Rightarrow> 'a list) \<Rightarrow> 'a list \<Rightarrow> 'a list \<Rightarrow> 'a list" where
  "worklist d universe succs [] visited = visited"
| "worklist d universe succs (c # q) visited =
     (let new = fresh universe (succs c) visited
      in worklist d universe succs (push_all d q new) (visited @ new))"
  by pat_completeness auto
termination
proof (relation "measure (\<lambda>(d, universe, succs, q, visited).
    length q + 2 * card (set universe - set visited))", goal_cases)
  case 1
  show ?case by simp
next
  case (2 d universe succs c q visited new)
  have "card (set universe - (set visited \<union> set new)) + length new = card (set universe - set visited)"
    using card_fresh [of universe visited "succs c"] 2 by simp
  then show ?case by simp
qed

declare worklist.simps [simp del]

section \<open>Memoised filtering\<close>

text \<open>\<open>filter_st\<close> filters with a predicate that reads and updates a memo table.\<close>

fun filter_st :: "('a \<Rightarrow> 's \<Rightarrow> bool \<times> 's) \<Rightarrow> 'a list \<Rightarrow> 's \<Rightarrow> 'a list \<times> 's" where
  "filter_st p [] s = ([], s)"
| "filter_st p (x # xs) s =
     (let (b, s1) = p x s; (ys, s2) = filter_st p xs s1 in (if b then x # ys else ys, s2))"

section \<open>Scans\<close>

text \<open>
  A loop that returns at the first element with an answer, plain and over a state; and grouping
  values under a key, \<open>entry(k).or_default().push(v)\<close>.
\<close>

fun first_some :: "('a \<Rightarrow> 'b option) \<Rightarrow> 'a list \<Rightarrow> 'b option" where
  "first_some p [] = None"
| "first_some p (x # xs) = (case p x of Some y \<Rightarrow> Some y | None \<Rightarrow> first_some p xs)"

fun first_some_st :: "('a \<Rightarrow> 's \<Rightarrow> 'b option \<times> 's) \<Rightarrow> 'a list \<Rightarrow> 's \<Rightarrow> 'b option \<times> 's" where
  "first_some_st p [] s = (None, s)"
| "first_some_st p (x # xs) s =
     (let (r, s') = p x s in case r of Some y \<Rightarrow> (Some y, s') | None \<Rightarrow> first_some_st p xs s')"

definition push_entry :: "'k \<Rightarrow> 'v \<Rightarrow> ('k \<times> 'v list) list \<Rightarrow> ('k \<times> 'v list) list" where
  "push_entry k v m = AList.update k ((case map_of m k of None \<Rightarrow> [] | Some vs \<Rightarrow> vs) @ [v]) m"

section \<open>Lemmas on bounded arithmetic\<close>

named_theorems checked_defs \<open>the definitions of the checked operations\<close>

declare checked_add_def [checked_defs] checked_mul_def [checked_defs] checked_sub_def [checked_defs]

text \<open>Bounds are evaluated by halving, so that kernel evaluation never builds \<open>2 ^ w\<close>.\<close>

fun fits_width :: "nat \<Rightarrow> nat \<Rightarrow> bool" where
  "fits_width 0 n = (n = 0)"
| "fits_width (Suc w) n = (n = 0 \<or> fits_width w (n div 2))"

lemma fits_width_iff: "fits_width w n \<longleftrightarrow> n < 2 ^ w"
proof (induction w n rule: fits_width.induct)
  case (2 w n)
  have "n div 2 < 2 ^ w \<longleftrightarrow> n < 2 ^ Suc w" by (simp add: div_less_iff_less_mult mult.commute)
  with 2 show ?case by auto
qed simp

lemma checked_add_code [code]: "checked_add w a b = (if fits_width w (a + b) then Some (a + b) else None)"
  by (simp add: checked_add_def fits_width_iff)

lemma checked_mul_code [code]: "checked_mul w a b = (if fits_width w (a * b) then Some (a * b) else None)"
  by (simp add: checked_mul_def fits_width_iff)

lemma wrapping_add_code [code]:
  "wrapping_add w a b = (if fits_width w (a + b) then a + b else (a + b) mod 2 ^ w)"
  by (simp add: wrapping_add_def fits_width_iff)

lemma wrapping_mul_code [code]:
  "wrapping_mul w a b = (if fits_width w (a * b) then a * b else a * b mod 2 ^ w)"
  by (simp add: wrapping_mul_def fits_width_iff)

lemma wrapping_add_fits: "a + b < 2 ^ w \<Longrightarrow> wrapping_add w a b = a + b"
  by (simp add: wrapping_add_def)

lemma try_fold_add_eq:
  "acc < 2 ^ w \<Longrightarrow> try_fold_add w acc xs =
     (if acc + sum_list xs < 2 ^ w then Some (acc + sum_list xs) else None)"
  by (induction w acc xs rule: try_fold_add.induct) (auto simp: checked_defs)

lemma try_fold_add_Some:
  assumes "try_fold_add w 0 xs = Some s"
  shows "s = sum_list xs" and "s < 2 ^ w"
  using assms try_fold_add_eq [of 0 w xs] by (auto split: if_splits)

section \<open>Lemmas on collections\<close>

lemma dedup_by_subset: "set (dedup_by f xs) \<subseteq> set xs"
  by (induction xs) auto

lemma image_dedup_by [simp]: "f ` set (dedup_by f xs) = f ` set xs"
proof (induction xs)
  case Nil
  then show ?case by simp
next
  case (Cons x xs)
  have "insert (f x) (f ` {y \<in> A. f y \<noteq> f x}) = insert (f x) (f ` A)" for A by auto
  with Cons show ?case by simp
qed

lemma distinct_map_filter: "distinct (map f xs) \<Longrightarrow> distinct (map f (filter P xs))"
  by (induction xs) auto

lemma distinct_dedup_by [simp]: "distinct (map f (dedup_by f xs))"
  by (induction xs) (auto intro: distinct_map_filter)

lemma distinct_dedup_by_list [simp]: "distinct (dedup_by f xs)"
  using distinct_dedup_by distinct_map by blast

lemma set_dedup_by: "inj_on f (set xs) \<Longrightarrow> set (dedup_by f xs) = set xs"
  by (induction xs) (auto simp: inj_on_def)

lemma dedup_by_id: "distinct (map f xs) \<Longrightarrow> dedup_by f xs = xs"
proof (induction xs)
  case Nil
  then show ?case by simp
next
  case (Cons x xs)
  then have "filter (\<lambda>y. f y \<noteq> f x) xs = xs"
    by (intro filter_True) (auto dest: rev_image_eqI)
  with Cons show ?case by simp
qed

lemma set_map_filter [simp]: "set (List.map_filter f xs) = {y. \<exists>x \<in> set xs. f x = Some y}"
  by (auto simp: List.map_filter_def intro!: image_eqI)

lemma map_fst_AList_update:
  "map fst (AList.update k v m) = (if k \<in> set (map fst m) then map fst m else map fst m @ [k])"
  by (induction m) auto

lemma set_AList_update:
  "distinct (map fst m) \<Longrightarrow>
     set (AList.update k v m) = {(k, v)} \<union> {e \<in> set m. fst e \<noteq> k}"
  by (induction m) (auto simp: rev_image_eqI)

lemma sort_Nil_iff: "sort_key f xs = [] \<longleftrightarrow> xs = []"
  by (metis length_0_conv length_sort)

lemma distinct_set_singleton: "set xs = {x} \<Longrightarrow> distinct xs \<Longrightarrow> xs = [x]"
  by (cases xs) (auto, metis distinct.simps(2) insertE list.set_intros(1) neq_Nil_conv singletonD subset_singletonD set_empty)

lemma sorted_wrt_neq_distinct: "sorted_wrt (\<lambda>x y. x \<noteq> y \<and> Q x y) xs \<Longrightarrow> distinct xs"
  by (induction xs) auto

lemma sorted_wrt_comparable:
  "sorted_wrt P xs \<Longrightarrow> x \<in> set xs \<Longrightarrow> y \<in> set xs \<Longrightarrow> x = y \<or> P x y \<or> P y x"
  by (induction xs) auto

lemma acyclic_add_source:
  assumes "acyclic R" and sub: "R' \<subseteq> R \<union> {n} \<times> A" and "n \<notin> A" and "n \<notin> Range R"
  shows "acyclic R'"
proof -
  have path: "(x, y) \<in> R\<^sup>+" if "(x, y) \<in> R'\<^sup>+" "x \<noteq> n" for x y
    using that
  proof (induction rule: trancl_induct)
    case (base y)
    then show ?case using sub by auto
  next
    case (step y z)
    have "y \<noteq> n"
      using step(3,4) assms(4) by (auto dest: tranclD2)
    with step sub show ?case by (auto intro: trancl_into_trancl)
  qed
  have "n \<notin> Range R'" using sub assms(3,4) by auto
  then have "(n, n) \<notin> R'\<^sup>+" by (auto dest: tranclD2)
  with path assms(1) show ?thesis by (auto simp: acyclic_def)
qed

lemma acyclic_range_restrict:
  assumes "acyclic S" "\<And>x y z. (x, y) \<in> R \<Longrightarrow> (y, z) \<in> R \<Longrightarrow> (y, z) \<in> S" 
  shows "acyclic R"
proof -
  have path: "(y, z) \<in> S\<^sup>+" if "(y, z) \<in> R\<^sup>+" "(x, y) \<in> R" for x y z
    using that
  proof (induction rule: trancl_induct)
    case (base z)
    then show ?case using assms(2) by blast
  next
    case (step u v)
    obtain w where "(w, u) \<in> R" using step(1) by (meson tranclD2)
    then show ?case using step assms(2) by (meson trancl_into_trancl)
  qed
  have False if xx: "(x, x) \<in> R\<^sup>+" for x
  proof -
    obtain w where "(w, x) \<in> R" using xx by (meson tranclD2)
    with path xx assms(1) show False by (meson acyclic_def)
  qed
  then show ?thesis by (auto simp: acyclic_def)
qed

lemma finite_no_ascent:
  assumes "finite A" "x \<in> A" "acyclic R" "\<And>x. x \<in> A \<Longrightarrow> \<exists>y \<in> A. (x, y) \<in> R"
  shows False
proof -
  let ?S = "R\<inverse> \<inter> A \<times> A"
  have "finite ?S" using assms(1) by simp
  moreover have "acyclic ?S" using assms(3) by (meson acyclic_converse acyclic_subset inf_le1)
  ultimately have "wf ?S" by (rule finite_acyclic_wf)
  then obtain z where "z \<in> A" "\<And>y. (y, z) \<in> ?S \<Longrightarrow> y \<notin> A" using assms(2) by (rule wfE_min) blast
  with assms(4) show False by blast
qed

lemma sorted_wrt_symmetric_iff:
  assumes "distinct xs" "\<And>a b. R a b \<Longrightarrow> R b a"
  shows "sorted_wrt R xs \<longleftrightarrow> (\<forall>a \<in> set xs. \<forall>b \<in> set xs. a \<noteq> b \<longrightarrow> R a b)"
  using assms(1) by (induction xs) (auto intro: assms(2))

text \<open>A graph on positions that is the image of a graph on names has the same paths.\<close>

lemma trancl_positions:
  assumes "(i, j) \<in> E\<^sup>+" "\<And>i j. (i, j) \<in> E \<Longrightarrow> (f i, f j) \<in> R"
  shows "(f i, f j) \<in> R\<^sup>+"
  using assms(1) by (induction rule: trancl_induct) (auto intro: assms(2) trancl_into_trancl)

lemma acyclic_positions:
  assumes "acyclic R" "\<And>i j. (i, j) \<in> E \<Longrightarrow> (f i, f j) \<in> R"
  shows "acyclic E"
  using trancl_positions [of _ _ E f R] assms unfolding acyclic_def by blast

lemma rtrancl_positions:
  assumes edges: "\<And>i j. (i, j) \<in> E \<longleftrightarrow> i < n \<and> j < n \<and> (f i, f j) \<in> R"
    and inj: "inj_on f {..<n}" and closed: "\<And>x y. (x, y) \<in> R \<Longrightarrow> y \<in> f ` {..<n}"
    and ij: "i < n" "j < n"
  shows "(i, j) \<in> E\<^sup>* \<longleftrightarrow> (f i, f j) \<in> R\<^sup>*"
proof
  assume "(i, j) \<in> E\<^sup>*"
  then show "(f i, f j) \<in> R\<^sup>*"
    by (induction rule: rtrancl_induct) (auto simp: edges intro: rtrancl_into_rtrancl)
next
  have "\<forall>k < n. y = f k \<longrightarrow> (i, k) \<in> E\<^sup>*" if "(f i, y) \<in> R\<^sup>*" for y
    using that
  proof (induction rule: rtrancl_induct)
    case base
    then show ?case using inj ij by (auto simp: inj_on_def)
  next
    case (step y z)
    show ?case
    proof (intro allI impI)
      fix k assume k: "k < n" "z = f k"
      have "y \<in> f ` {..<n}" using step(1) closed ij by (cases rule: rtranclE) auto
      then obtain m where m: "m < n" "y = f m" by auto
      with step k have "(i, m) \<in> E\<^sup>*" "(m, k) \<in> E" by (auto simp: edges)
      then show "(i, k) \<in> E\<^sup>*" by (rule rtrancl_into_rtrancl)
    qed
  qed
  then show "(f i, f j) \<in> R\<^sup>* \<Longrightarrow> (i, j) \<in> E\<^sup>*" using ij by blast
qed

lemma filter_via_positions: "filter P ks = map ((!) ks) (filter (\<lambda>i. P (ks ! i)) [0..<length ks])"
  using filter_map [of P "(!) ks" "[0..<length ks]"] by (simp add: map_nth comp_def)

lemma map_of_fold_update:
  assumes "\<And>k v. (k, v) \<in> set xs \<Longrightarrow> v = F k"
  shows "map_of (fold (\<lambda>(a, v) m. AList.update a v m) xs m) k =
    (if k \<in> fst ` set xs then Some (F k) else map_of m k)"
  using assms by (induction xs arbitrary: m) (auto simp: update_conv')

text \<open>Grouping by key, and the scans.\<close>

lemma map_of_push_entries:
  "map_of (fold (\<lambda>(k, v) m. push_entry k v m) kvs []) k =
     (case map snd (filter (\<lambda>e. fst e = k) kvs) of [] \<Rightarrow> None | vs \<Rightarrow> Some vs)"
proof (induction kvs rule: rev_induct)
  case Nil
  then show ?case by simp
next
  case (snoc e kvs)
  then show ?case
    by (cases e) (auto simp: push_entry_def update_conv' split: option.splits list.splits)
qed

lemma distinct_push_entries: "distinct (map fst (fold (\<lambda>(k, v) m. push_entry k v m) kvs []))"
proof (induction kvs rule: rev_induct)
  case (snoc e kvs)
  then show ?case by (cases e) (simp add: push_entry_def distinct_update)
qed simp

lemma first_some_Some:
  "first_some p xs = Some y \<Longrightarrow> \<exists>x \<in> set xs. p x = Some y"
  by (induction xs) (auto split: option.splits)

lemma first_some_None: "first_some p xs = None \<longleftrightarrow> (\<forall>x \<in> set xs. p x = None)"
  by (induction xs) (auto split: option.splits)

lemma first_some_cong [fundef_cong]:
  "xs = ys \<Longrightarrow> (\<And>x. x \<in> set ys \<Longrightarrow> p x = q x) \<Longrightarrow> first_some p xs = first_some q ys"
  by (induction xs arbitrary: ys) (auto split: option.splits)

section \<open>Graph search\<close>

text \<open>
  The contract between a graph and the walks over it: the successors of every node lie in a
  finite universe.  Under it the loop computes exactly the reachable nodes, whatever the
  discipline of the worklist.
\<close>

locale search_space =
  fixes universe :: "'a list" and succs :: "'a \<Rightarrow> 'a list"
  assumes succs_in_universe: "set (succs x) \<subseteq> set universe"
begin

definition edge :: "('a \<times> 'a) set" where
  "edge = {(x, y). y \<in> set (succs x)}"

lemma edge_iff [simp]: "(x, y) \<in> edge \<longleftrightarrow> y \<in> set (succs x)"
  by (simp add: edge_def)

lemma worklist_mono: "set visited \<subseteq> set (worklist d universe succs q visited)"
proof (induction "length q + 2 * card (set universe - set visited)"
    arbitrary: q visited rule: less_induct)
  case less
  show ?case
  proof (cases q)
    case Nil
    then show ?thesis by (simp add: worklist.simps)
  next
    case (Cons c r)
    let ?new = "fresh universe (succs c) visited"
    have "length (push_all d r ?new) + 2 * card (set universe - set (visited @ ?new))
        < length q + 2 * card (set universe - set visited)"
      using card_fresh [of universe visited "succs c"] Cons by simp
    from less [OF this] have "set (visited @ ?new) \<subseteq>
        set (worklist d universe succs (push_all d r ?new) (visited @ ?new))" .
    with Cons show ?thesis by (simp add: Let_def worklist.simps)
  qed
qed

lemma worklist_sound:
  "set (worklist d universe succs q visited) \<subseteq> set visited \<union> edge\<^sup>+ `` set q"
proof (induction "length q + 2 * card (set universe - set visited)"
    arbitrary: q visited rule: less_induct)
  case less
  show ?case
  proof (cases q)
    case Nil
    then show ?thesis by (simp add: worklist.simps)
  next
    case (Cons c r)
    let ?new = "fresh universe (succs c) visited"
    have "length (push_all d r ?new) + 2 * card (set universe - set (visited @ ?new))
        < length q + 2 * card (set universe - set visited)"
      using card_fresh [of universe visited "succs c"] Cons by simp
    from less [OF this]
    have "set (worklist d universe succs q visited)
        \<subseteq> set visited \<union> set ?new \<union> edge\<^sup>+ `` (set r \<union> set ?new)"
      using Cons by (simp add: Let_def worklist.simps)
    moreover have "set ?new \<subseteq> edge `` {c}" by auto
    then have "set ?new \<union> edge\<^sup>+ `` set ?new \<subseteq> edge\<^sup>+ `` {c}"
      by (auto intro: trancl_into_trancl2)
    moreover have "edge\<^sup>+ `` set q = edge\<^sup>+ `` {c} \<union> edge\<^sup>+ `` set r" using Cons by auto
    ultimately show ?thesis unfolding Image_Un by blast
  qed
qed

lemma worklist_closed:
  assumes "\<forall>x \<in> (set visited \<union> Z) - set q. set (succs x) \<subseteq> set visited"
  shows "\<forall>x \<in> set (worklist d universe succs q visited) \<union> Z.
           set (succs x) \<subseteq> set (worklist d universe succs q visited)"
  using assms
proof (induction "length q + 2 * card (set universe - set visited)"
    arbitrary: q visited rule: less_induct)
  case less
  show ?case
  proof (cases q)
    case Nil
    with less.prems show ?thesis by (auto simp: worklist.simps)
  next
    case (Cons c r)
    let ?new = "fresh universe (succs c) visited"
    have "length (push_all d r ?new) + 2 * card (set universe - set (visited @ ?new))
        < length q + 2 * card (set universe - set visited)"
      using card_fresh [of universe visited "succs c"] Cons by simp
    moreover have "\<forall>x \<in> (set (visited @ ?new) \<union> Z) - set (push_all d r ?new).
        set (succs x) \<subseteq> set (visited @ ?new)"
      using less.prems Cons succs_in_universe by fastforce
    ultimately show ?thesis using less.hyps Cons by (simp add: Let_def worklist.simps)
  qed
qed

lemma closed_Image_trancl:
  assumes "\<forall>x \<in> insert s A. set (succs x) \<subseteq> A"
  shows "edge\<^sup>+ `` {s} \<subseteq> A"
proof -
  have "y \<in> A" if "(s, y) \<in> edge\<^sup>+" for y
    using that by (induction rule: trancl_induct) (use assms in auto)
  then show ?thesis by auto
qed

lemma worklist_distinct: "distinct visited \<Longrightarrow> distinct (worklist d universe succs q visited)"
proof (induction "length q + 2 * card (set universe - set visited)"
    arbitrary: q visited rule: less_induct)
  case less
  show ?case
  proof (cases q)
    case Nil
    with less.prems show ?thesis by (simp add: worklist.simps)
  next
    case (Cons c r)
    let ?new = "fresh universe (succs c) visited"
    have "length (push_all d r ?new) + 2 * card (set universe - set (visited @ ?new))
        < length q + 2 * card (set universe - set visited)"
      using card_fresh [of universe visited "succs c"] Cons by simp
    moreover have "distinct (visited @ ?new)" using less.prems by auto
    ultimately show ?thesis using less.hyps Cons by (simp add: Let_def worklist.simps)
  qed
qed

lemma worklist_trancl: "set (worklist d universe succs [s] []) = edge\<^sup>+ `` {s}"
proof
  show "set (worklist d universe succs [s] []) \<subseteq> edge\<^sup>+ `` {s}"
    using worklist_sound [of d "[s]" "[]"] by simp
  show "edge\<^sup>+ `` {s} \<subseteq> set (worklist d universe succs [s] [])"
    using worklist_closed [of "[]" "{s}" "[s]" d] by (intro closed_Image_trancl) auto
qed

lemma worklist_rtrancl: "set (worklist d universe succs [s] [s]) = edge\<^sup>* `` {s}"
proof -
  have mono: "s \<in> set (worklist d universe succs [s] [s])"
    using worklist_mono [of "[s]" d "[s]"] by simp
  have "edge\<^sup>+ `` {s} \<subseteq> set (worklist d universe succs [s] [s])"
    using worklist_closed [of "[s]" "{}" "[s]" d] mono by (intro closed_Image_trancl) auto
  moreover have "set (worklist d universe succs [s] [s]) \<subseteq> {s} \<union> edge\<^sup>+ `` {s}"
    using worklist_sound [of d "[s]" "[s]"] by simp
  ultimately show ?thesis using mono by (auto simp: rtrancl_eq_or_trancl)
qed

end

section \<open>The memo contract\<close>

text \<open>
  A memoised query reads a table and may extend it.  The contract: on a valid table the answer is
  the unmemoised one, and the table stays valid.
\<close>

locale memo_fn =
  fixes run :: "'a \<Rightarrow> 's \<Rightarrow> 'b \<times> 's" and valid :: "'s \<Rightarrow> bool" and spec :: "'a \<Rightarrow> 'b"
  assumes run_spec: "valid s \<Longrightarrow> fst (run x s) = spec x"
    and run_valid: "valid s \<Longrightarrow> valid (snd (run x s))"

text \<open>A scan with a memo answers like the plain scan.\<close>

locale memo_scan = memo_fn run valid spec
  for run :: "'a \<Rightarrow> 's \<Rightarrow> 'b option \<times> 's" and valid and spec
begin

lemma first_some_st_spec:
  "valid s \<Longrightarrow> fst (first_some_st run xs s) = first_some spec xs \<and> valid (snd (first_some_st run xs s))"
proof (induction xs arbitrary: s)
  case Nil
  then show ?case by simp
next
  case (Cons x xs)
  obtain b s1 where r: "run x s = (b, s1)" by fastforce
  have b: "b = spec x" and v: "valid s1"
    using run_spec [OF Cons.prems, of x] run_valid [OF Cons.prems, of x] r by auto
  from Cons.IH [OF v] v show ?case by (cases "spec x") (simp_all add: r b)
qed

end

locale memo_pred = memo_fn run valid spec
  for run :: "'a \<Rightarrow> 's \<Rightarrow> bool \<times> 's" and valid and spec
begin

lemma filter_st_spec:
  "valid s \<Longrightarrow> fst (filter_st run xs s) = filter spec xs \<and> valid (snd (filter_st run xs s))"
proof (induction xs arbitrary: s)
  case Nil
  then show ?case by simp
next
  case (Cons x xs)
  obtain b s1 where r: "run x s = (b, s1)" by fastforce
  have b: "b = spec x" and v: "valid s1"
    using run_spec [OF Cons.prems, of x] run_valid [OF Cons.prems, of x] r by auto
  from Cons.IH [OF v] show ?case by (simp add: r b split_beta Let_def)
qed

end

lemma find_SomeD: "List.find P xs = Some x \<Longrightarrow> x \<in> set xs \<and> P x"
  by (induction xs) (auto split: if_splits)

end
