(* ===== verification/Block_Types.thy ===== *)
theory Block_Types
  imports Prelude
begin

text \<open>
  The data of a block: \<open>types/node_id.rs\<close>, \<open>types/identity_id.rs\<close>,
  \<open>types/content_id.rs\<close> and \<open>block.rs\<close>.  Identities and node ids carry the derived
  lexicographic order of their fields (\<open>linorder\<close> instances), which every deterministic sort
  of the program uses.  A block's predecessor set is a list, its iteration order.
\<close>

section \<open>Data\<close>

datatype node_id = NodeId (node_bytes: "byte list")

datatype block_identity =
  BlockIdentity (content_hash: "byte list") (creator: node_id) (signature: "byte list")

record block_content =
  payload :: "byte list"
  predecessors :: "block_identity list"

record block =
  identity :: block_identity
  content :: block_content

instantiation node_id :: linorder
begin

definition less_eq_node_id :: "node_id \<Rightarrow> node_id \<Rightarrow> bool" where
  "less_eq_node_id a b \<longleftrightarrow> node_bytes a \<le> node_bytes b"

definition less_node_id :: "node_id \<Rightarrow> node_id \<Rightarrow> bool" where
  "less_node_id a b \<longleftrightarrow> node_bytes a < node_bytes b"

instance
  by standard (auto simp: less_eq_node_id_def less_node_id_def node_id.expand)

end

text \<open>The order of identities: content hash, then creator, then signature.\<close>

definition identity_key :: "block_identity \<Rightarrow> byte list \<times> node_id \<times> byte list" where
  "identity_key i = (content_hash i, creator i, signature i)"

lemma identity_key_inject [simp]: "identity_key i = identity_key j \<longleftrightarrow> i = j"
  by (cases i; cases j) (auto simp: identity_key_def)

instantiation block_identity :: linorder
begin

definition less_eq_block_identity :: "block_identity \<Rightarrow> block_identity \<Rightarrow> bool" where
  "less_eq_block_identity a b \<longleftrightarrow> identity_key a \<le> identity_key b"

definition less_block_identity :: "block_identity \<Rightarrow> block_identity \<Rightarrow> bool" where
  "less_block_identity a b \<longleftrightarrow> identity_key a < identity_key b"

instance
  by standard (auto simp: less_eq_block_identity_def less_block_identity_def order_less_le)

end

section \<open>Operations on identities and blocks\<close>

definition same_consensus_identity :: "block_identity \<Rightarrow> block_identity \<Rightarrow> bool" where
  "same_consensus_identity i j \<longleftrightarrow> content_hash i = content_hash j \<and> creator i = creator j"

definition consensus_identity :: "block_identity \<Rightarrow> block_identity" where
  "consensus_identity i = BlockIdentity (content_hash i) (creator i) []"

definition is_initial :: "block \<Rightarrow> bool" where
  "is_initial b \<longleftrightarrow> predecessors (content b) = []"

definition node :: "block \<Rightarrow> node_id" where
  "node b = creator (identity b)"

definition is_pointed_from :: "block \<Rightarrow> block \<Rightarrow> bool" where
  "is_pointed_from b other \<longleftrightarrow> identity b \<in> set (predecessors (content other))"

text \<open>Blocks are equal when their identities are; a hash set of blocks is compared so.\<close>

definition block_eq :: "block \<Rightarrow> block \<Rightarrow> bool" where
  "block_eq a b \<longleftrightarrow> identity a = identity b"

abbreviation collect_blocks :: "block list \<Rightarrow> block list" where
  "collect_blocks \<equiv> dedup_by identity"

definition nodes :: "block list \<Rightarrow> node_id list" where
  "nodes bs = remdups (map node bs)"

definition ids :: "block list \<Rightarrow> block_identity list" where
  "ids bs = remdups (map identity bs)"

section \<open>Lemmas\<close>

lemma consensus_identity_sel [simp]:
  "content_hash (consensus_identity i) = content_hash i"
  "creator (consensus_identity i) = creator i"
  "signature (consensus_identity i) = []"
  by (simp_all add: consensus_identity_def)

lemma consensus_identity_idem [simp]:
  "consensus_identity (consensus_identity i) = consensus_identity i"
  by (simp add: consensus_identity_def)

lemma same_consensus_identity_iff:
  "same_consensus_identity i j \<longleftrightarrow> consensus_identity i = consensus_identity j"
  by (auto simp: same_consensus_identity_def consensus_identity_def)

lemma consensus_identity_unsigned: "signature i = [] \<Longrightarrow> consensus_identity i = i"
  by (cases i) (simp add: consensus_identity_def)

lemma consensus_identity_eqI:
  "content_hash i = content_hash j \<Longrightarrow> creator i = creator j \<Longrightarrow>
     consensus_identity i = consensus_identity j"
  by (simp add: consensus_identity_def)

lemma consensus_identity_eq_iff:
  "consensus_identity i = consensus_identity j \<longleftrightarrow>
     content_hash i = content_hash j \<and> creator i = creator j"
  by (auto simp: consensus_identity_def)

end
