(* ===== verification/Closure_Matrix.thy ===== *)
theory Closure_Matrix
  imports Prelude
begin

unbundle bit_operations_syntax

text \<open>
  The pure part of \<open>ancestor_index.rs\<close>: a bit matrix whose row \<open>i\<close> is the set of nodes
  that node \<open>i\<close> observes, built by an iterative depth-first search with three colours, and the
  two scans that find the incomparable members of a group.  The theory proves that on an acyclic
  graph the matrix is the reflexive transitive closure, and that the scans decide comparability.
\<close>

section \<open>Definitions\<close>

record closure =
  words :: nat
  bits :: "64 word list"

definition children :: "nat list list \<Rightarrow> bool list \<Rightarrow> nat \<Rightarrow> nat list" where
  "children preds stop nd = (if stop ! nd then [] else preds ! nd)"

definition or_row :: "nat \<Rightarrow> nat \<Rightarrow> nat \<Rightarrow> 64 word list \<Rightarrow> 64 word list" where
  "or_row ws row child bs =
     fold (\<lambda>w acc. acc[row + w := (acc ! (row + w)) OR (acc ! (child * ws + w))]) [0..<ws] bs"

definition finish_row ::
  "nat \<Rightarrow> nat \<Rightarrow> nat list \<Rightarrow> nat list \<Rightarrow> 64 word list \<Rightarrow> 64 word list" where
  "finish_row ws nd cs state bs =
     fold (\<lambda>child acc. if state ! child = 2 \<and> child \<noteq> nd then or_row ws (nd * ws) child acc else acc)
       cs
       (bs[nd * ws + nd div 64 :=
          (bs ! (nd * ws + nd div 64)) OR push_bit (nd mod 64) 1])"

text \<open>
  The while loop over the stack.  The colours are 0 (unvisited), 1 (on the stack) and 2 (row
  complete).  The bound on the child stands for the slice's own bounds check, which cannot fail:
  the caller's lists hold positions of the same graph.
\<close>

function build_loop ::
  "nat list list \<Rightarrow> bool list \<Rightarrow> nat \<Rightarrow> (nat \<times> nat) list \<Rightarrow> nat list \<Rightarrow> 64 word list
     \<Rightarrow> nat list \<times> 64 word list" where
  "build_loop preds stop ws [] state bs = (state, bs)"
| "build_loop preds stop ws ((nd, k) # stack) state bs =
     (let cs = children preds stop nd in
      if k < length cs then
        let child = cs ! k in
        if child < length state \<and> state ! child = 0
        then build_loop preds stop ws ((child, 0) # (nd, Suc k) # stack) (state[child := 1]) bs
        else build_loop preds stop ws ((nd, Suc k) # stack) state bs
      else build_loop preds stop ws stack (state[nd := 2]) (finish_row ws nd cs state bs))"
  by pat_completeness auto

definition unvisited :: "nat list \<Rightarrow> nat set" where
  "unvisited state = {i. i < length state \<and> state ! i = 0}"

definition stack_work :: "nat list list \<Rightarrow> bool list \<Rightarrow> (nat \<times> nat) list \<Rightarrow> nat" where
  "stack_work preds stop stack =
     sum_list (map (\<lambda>(nd, k). Suc (length (children preds stop nd) - k)) stack)"

lemma finite_unvisited [simp]: "finite (unvisited state)"
  by (simp add: unvisited_def)

lemma card_unvisited_visit:
  "i < length state \<Longrightarrow> state ! i = 0 \<Longrightarrow>
     card (unvisited (state[i := Suc 0])) < card (unvisited state)"
  by (rule psubset_card_mono) (auto simp: unvisited_def nth_list_update split: if_splits)

lemma card_unvisited_finish:
  "card (unvisited (state[i := 2])) \<le> card (unvisited state)"
  by (cases "i < length state")
    (auto simp: unvisited_def nth_list_update intro!: card_mono split: if_splits)

termination build_loop
proof (relation "measures [\<lambda>(preds, stop, ws, stack, state, bs). card (unvisited state),
    \<lambda>(preds, stop, ws, stack, state, bs). stack_work preds stop stack]", goal_cases)
  case 1
  show ?case by simp
next
  case 2
  then show ?case by (simp add: card_unvisited_visit)
next
  case 3
  then show ?case by (simp add: stack_work_def)
next
  case (4 preds stop ws nd k stack state bs cs)
  then show ?case using card_unvisited_finish [of state nd] by (auto simp: stack_work_def le_less)
qed

declare build_loop.simps(2) [simp del]

fun build_roots ::
  "nat list list \<Rightarrow> bool list \<Rightarrow> nat \<Rightarrow> nat list \<Rightarrow> nat list \<times> 64 word list
     \<Rightarrow> nat list \<times> 64 word list" where
  "build_roots preds stop ws [] (state, bs) = (state, bs)"
| "build_roots preds stop ws (root # roots) (state, bs) =
     (if state ! root \<noteq> 0 then build_roots preds stop ws roots (state, bs)
      else build_roots preds stop ws roots
             (build_loop preds stop ws [(root, 0)] (state[root := 1]) bs))"

definition build_closure :: "nat list list \<Rightarrow> bool list \<Rightarrow> closure" where
  "build_closure preds stop =
     (let n = length preds; ws = max ((n + 63) div 64) 1
      in \<lparr>words = ws,
          bits = snd (build_roots preds stop ws [0..<n] (replicate n 0, replicate (n * ws) 0))\<rparr>)"

definition observes :: "closure \<Rightarrow> nat \<Rightarrow> nat \<Rightarrow> bool" where
  "observes c a b \<longleftrightarrow> drop_bit (b mod 64) (bits c ! (a * words c + b div 64)) AND 1 = 1"

definition count_ones :: "64 word \<Rightarrow> nat" where
  "count_ones w = length (filter (bit w) [0..<64])"

definition count_row :: "closure \<Rightarrow> nat \<Rightarrow> nat" where
  "count_row c a = sum_list (map count_ones (take (words c) (drop (a * words c) (bits c))))"

fun chain_windows :: "closure \<Rightarrow> nat list \<Rightarrow> bool" where
  "chain_windows c (x # y # zs) = (x \<noteq> y \<and> observes c y x \<and> chain_windows c (y # zs))"
| "chain_windows c _ = True"

text \<open>\<open>is_chain\<close> sorts its argument in place; the caller goes on with the sorted slice.\<close>

abbreviation sort_members :: "closure \<Rightarrow> nat list \<Rightarrow> nat list" where
  "sort_members c members \<equiv> sort_key (\<lambda>m. (count_row c m, m)) members"

definition is_chain :: "closure \<Rightarrow> nat list \<Rightarrow> bool" where
  "is_chain c members = chain_windows c (sort_members c members)"

definition incomparable_pairs :: "closure \<Rightarrow> nat list \<Rightarrow> (nat \<times> nat list) list" where
  "incomparable_pairs c members =
     filter (\<lambda>(a, conflicts). conflicts \<noteq> [])
       (map (\<lambda>a. (a, filter (\<lambda>b. b \<noteq> a \<and> \<not> observes c a b \<and> \<not> observes c b a) members)) members)"

section \<open>Bit-level lemmas\<close>

definition obs :: "nat \<Rightarrow> 64 word list \<Rightarrow> nat \<Rightarrow> nat \<Rightarrow> bool" where
  "obs ws bs a b \<longleftrightarrow> bit (bs ! (a * ws + b div 64)) (b mod 64)"

lemma observes_obs: "observes c a b \<longleftrightarrow> obs (words c) (bits c) a b"
  by (simp add: observes_def obs_def bit_iff_odd_drop_bit and_one_eq odd_iff_mod_2_eq_one)

lemma row_index_iff:
  fixes a nd q ws :: nat
  assumes "q < ws"
  shows "nd * ws \<le> a * ws + q \<and> a * ws + q < nd * ws + ws \<longleftrightarrow> a = nd"
proof
  assume "nd * ws \<le> a * ws + q \<and> a * ws + q < nd * ws + ws"
  then have lo: "nd * ws \<le> a * ws + q" and hi: "a * ws + q < (nd + 1) * ws" by auto
  have "(a * ws + q) div ws = a" using assms by simp
  moreover have "(a * ws + q) div ws = nd"
    by (rule div_nat_eqI) (use lo hi in \<open>simp_all add: algebra_simps\<close>)
  ultimately show "a = nd" by simp
qed (use assms in auto)

lemma row_index_less:
  fixes a n q ws :: nat
  assumes "a < n" "q < ws"
  shows "a * ws + q < n * ws"
proof -
  have "a * ws + q < (a + 1) * ws" using assms by simp
  also have "\<dots> \<le> n * ws" using assms by (intro mult_le_mono1) simp
  finally show ?thesis .
qed

lemma or_row_aux:
  assumes "row + m \<le> length bs" "m \<le> ws"
    and "\<forall>w < ws. child * ws + w < row \<or> row + ws \<le> child * ws + w"
    and "\<forall>w < ws. child * ws + w < length bs"
  defines "r \<equiv> fold (\<lambda>w acc. acc[row + w := (acc ! (row + w)) OR (acc ! (child * ws + w))]) [0..<m] bs"
  shows "length r = length bs \<and> (\<forall>i < length bs. r ! i =
     (if row \<le> i \<and> i < row + m then (bs ! i) OR (bs ! (child * ws + (i - row))) else bs ! i))"
  using assms(1,2) unfolding r_def
proof (induction m)
  case 0
  then show ?case by auto
next
  case (Suc m)
  let ?f = "\<lambda>w acc. acc[row + w := (acc ! (row + w)) OR (acc ! (child * ws + w))]"
  let ?p = "fold ?f [0..<m] bs"
  have IH: "length ?p = length bs" "\<forall>i < length bs. ?p ! i =
     (if row \<le> i \<and> i < row + m then (bs ! i) OR (bs ! (child * ws + (i - row))) else bs ! i)"
    using Suc by auto
  have step: "fold ?f [0..<Suc m] bs = ?p[row + m := (?p ! (row + m)) OR (?p ! (child * ws + m))]"
    by simp
  have out: "child * ws + m < row \<or> row + ws \<le> child * ws + m"
    using assms(3) Suc.prems by simp
  have src: "?p ! (child * ws + m) = bs ! (child * ws + m)"
    using IH(2) out assms(4) Suc.prems by auto
  show ?case
    unfolding step using IH src Suc.prems by (auto simp: nth_list_update less_Suc_eq)
qed

lemma or_row_rows:
  fixes child nd n ws :: nat
  assumes "nd < n" "child \<noteq> nd" "length bs = n * ws" "child < n"
  shows "length (or_row ws (nd * ws) child bs) = length bs"
    and "a < n \<Longrightarrow> b < 64 * ws \<Longrightarrow>
      obs ws (or_row ws (nd * ws) child bs) a b \<longleftrightarrow> obs ws bs a b \<or> a = nd \<and> obs ws bs child b"
proof -
  have fits: "nd * ws + ws \<le> length bs"
  proof -
    have "(nd + 1) * ws \<le> n * ws" using assms(1) by (intro mult_le_mono1) simp
    with assms(3) show ?thesis by simp
  qed
  have out: "\<forall>w < ws. child * ws + w < nd * ws \<or> nd * ws + ws \<le> child * ws + w"
    using row_index_iff [of _ ws nd child] assms(2) by (meson not_le)
  have src: "\<forall>w < ws. child * ws + w < length bs"
    using row_index_less [OF assms(4)] assms(3) by simp
  note aux = or_row_aux [where m = ws, OF fits order_refl out src, folded or_row_def]
  show "length (or_row ws (nd * ws) child bs) = length bs" using aux by simp
  assume a: "a < n" and b: "b < 64 * ws"
  have q: "b div 64 < ws" using b by (simp add: div_less_iff_less_mult mult.commute)
  have i: "a * ws + b div 64 < length bs" using row_index_less [OF a q] assms(3) by simp
  show "obs ws (or_row ws (nd * ws) child bs) a b \<longleftrightarrow> obs ws bs a b \<or> a = nd \<and> obs ws bs child b"
    using conjunct2 [OF aux, rule_format, OF i] row_index_iff [OF q, of nd a]
    by (auto simp: obs_def bit_or_iff)
qed

lemma finish_children:
  fixes nd n ws :: nat and state :: "nat list"
  assumes "nd < n" "length bs = n * ws" "set cs \<subseteq> {..<n}"
  defines "r \<equiv> \<lambda>cs bs. fold (\<lambda>child acc. if state ! child = 2 \<and> child \<noteq> nd
      then or_row ws (nd * ws) child acc else acc) cs bs"
  shows "length (r cs bs) = length bs \<and> (\<forall>a < n. \<forall>b < 64 * ws.
     obs ws (r cs bs) a b \<longleftrightarrow> obs ws bs a b \<or>
       a = nd \<and> (\<exists>c \<in> set cs. state ! c = 2 \<and> c \<noteq> nd \<and> obs ws bs c b))"
  using assms(2,3) unfolding r_def
proof (induction cs arbitrary: bs)
  case Nil
  then show ?case by simp
next
  case (Cons c cs)
  let ?f = "\<lambda>child acc. if state ! child = 2 \<and> child \<noteq> nd then or_row ws (nd * ws) child acc else acc"
  have c: "c < n" using Cons.prems by simp
  have len: "length (?f c bs) = length bs"
    using or_row_rows(1) [OF assms(1) _ Cons.prems(1) c] by simp
  have ob: "a < n \<Longrightarrow> b < 64 * ws \<Longrightarrow>
      obs ws (?f c bs) a b \<longleftrightarrow> obs ws bs a b \<or> a = nd \<and> state ! c = 2 \<and> c \<noteq> nd \<and> obs ws bs c b" for a b
    using or_row_rows(2) [OF assms(1) _ Cons.prems(1) c] by auto
  have other: "obs ws (?f c bs) c' b = obs ws bs c' b" if "c' < n" "b < 64 * ws" "c' \<noteq> nd" for c' b
    using ob [OF that(1,2)] that(3) by auto
  have IH: "length (fold ?f cs (?f c bs)) = length bs"
    "\<forall>a < n. \<forall>b < 64 * ws. obs ws (fold ?f cs (?f c bs)) a b \<longleftrightarrow> obs ws (?f c bs) a b \<or>
       a = nd \<and> (\<exists>c' \<in> set cs. state ! c' = 2 \<and> c' \<noteq> nd \<and> obs ws (?f c bs) c' b)"
    using Cons.IH [of "?f c bs"] Cons.prems len by auto
  have "obs ws (fold ?f (c # cs) bs) a b \<longleftrightarrow> obs ws bs a b \<or>
       a = nd \<and> (\<exists>c' \<in> set (c # cs). state ! c' = 2 \<and> c' \<noteq> nd \<and> obs ws bs c' b)"
    if ab: "a < n" "b < 64 * ws" for a b
  proof -
    have "(\<exists>c' \<in> set cs. state ! c' = 2 \<and> c' \<noteq> nd \<and> obs ws (?f c bs) c' b) \<longleftrightarrow>
        (\<exists>c' \<in> set cs. state ! c' = 2 \<and> c' \<noteq> nd \<and> obs ws bs c' b)"
      using Cons.prems(2) ab(2) by (intro bex_cong refl conj_cong other) auto
    with IH(2) [rule_format, OF ab] ob [OF ab] show ?thesis
      unfolding fold_simps list.set bex_simps by blast
  qed
  with IH(1) show ?case by simp
qed

lemma obs_finish_row:
  fixes nd n ws :: nat
  assumes "nd < n" "n \<le> 64 * ws" "length bs = n * ws" "set cs \<subseteq> {..<n}"
  shows "length (finish_row ws nd cs state bs) = length bs"
    and "a < n \<Longrightarrow> b < 64 * ws \<Longrightarrow> obs ws (finish_row ws nd cs state bs) a b \<longleftrightarrow>
      obs ws bs a b \<or> a = nd \<and> (b = nd \<or> (\<exists>c \<in> set cs. state ! c = 2 \<and> c \<noteq> nd \<and> obs ws bs c b))"
proof -
  let ?bs = "bs[nd * ws + nd div 64 := (bs ! (nd * ws + nd div 64)) OR push_bit (nd mod 64) 1]"
  have q: "nd div 64 < ws" using assms(1,2) by (simp add: div_less_iff_less_mult mult.commute)
  have i: "nd * ws + nd div 64 < length bs" using row_index_less [OF assms(1) q] assms(3) by simp
  have ob: "obs ws ?bs a b \<longleftrightarrow> obs ws bs a b \<or> a = nd \<and> b = nd" if "b < 64 * ws" for a b
  proof -
    have qb: "b div 64 < ws" using that by (simp add: div_less_iff_less_mult mult.commute)
    have "a * ws + b div 64 = nd * ws + nd div 64 \<longleftrightarrow> a = nd \<and> b div 64 = nd div 64"
      using row_index_iff [OF qb, of nd a] q by auto
    moreover have "b = nd \<longleftrightarrow> b div 64 = nd div 64 \<and> b mod 64 = nd mod 64"
      by (metis div_mult_mod_eq)
    moreover have "bit (push_bit (nd mod 64) 1 :: 64 word) (b mod 64) \<longleftrightarrow> b mod 64 = nd mod 64"
      by (auto simp: bit_exp_iff)
    ultimately show ?thesis
      using i unfolding obs_def
      by (cases "a = nd \<and> b div 64 = nd div 64") (simp add: bit_or_iff, auto)
  qed
  have len: "length ?bs = n * ws" using assms(3) by simp
  note fin = finish_children [OF assms(1) len assms(4), of state, folded finish_row_def]
  show "length (finish_row ws nd cs state bs) = length bs" using fin by simp
  assume a: "a < n" and b: "b < 64 * ws"
  have other: "obs ws ?bs c b = obs ws bs c b" if "c \<noteq> nd" for c using ob [OF b] that by simp
  show "obs ws (finish_row ws nd cs state bs) a b \<longleftrightarrow>
      obs ws bs a b \<or> a = nd \<and> (b = nd \<or> (\<exists>c \<in> set cs. state ! c = 2 \<and> c \<noteq> nd \<and> obs ws bs c b))"
    using conjunct2 [OF fin, rule_format, OF a b] ob [OF b] other by auto
qed

section \<open>The matrix is the closure of an acyclic graph\<close>

definition child_edges :: "nat list list \<Rightarrow> bool list \<Rightarrow> (nat \<times> nat) set" where
  "child_edges preds stop = {(i, j). i < length preds \<and> j \<in> set (children preds stop i)}"

definition graph_ok :: "nat list list \<Rightarrow> bool list \<Rightarrow> bool" where
  "graph_ok preds stop \<longleftrightarrow> length stop = length preds \<and>
     (\<forall>i < length preds. set (preds ! i) \<subseteq> {..<length preds}) \<and> acyclic (child_edges preds stop)"

fun stack_ok ::
  "nat list list \<Rightarrow> bool list \<Rightarrow> nat list \<Rightarrow> nat option \<Rightarrow> (nat \<times> nat) list \<Rightarrow> bool" where
  "stack_ok preds stop state upper [] = True"
| "stack_ok preds stop state upper ((nd, k) # stack) =
     (let cs = children preds stop nd in
      k \<le> length cs \<and>
      (\<forall>j < k. state ! (cs ! j) = 2 \<or> upper = Some (cs ! j)) \<and>
      (case upper of None \<Rightarrow> True | Some a \<Rightarrow> a \<in> set cs) \<and>
      stack_ok preds stop state (Some nd) stack)"

definition rows_ok :: "nat list list \<Rightarrow> bool list \<Rightarrow> nat \<Rightarrow> nat list \<Rightarrow> 64 word list \<Rightarrow> bool" where
  "rows_ok preds stop ws state bs \<longleftrightarrow>
     (\<forall>i < length preds. \<forall>b < 64 * ws.
        obs ws bs i b \<longleftrightarrow> state ! i = 2 \<and> (i, b) \<in> (child_edges preds stop)\<^sup>*) \<and>
     (\<forall>i < length preds. state ! i = 2 \<longrightarrow> (\<forall>c \<in> set (children preds stop i). state ! c = 2))"

definition loop_inv ::
  "nat list list \<Rightarrow> bool list \<Rightarrow> nat \<Rightarrow> (nat \<times> nat) list \<Rightarrow> nat list \<Rightarrow> 64 word list \<Rightarrow> bool" where
  "loop_inv preds stop ws stack state bs \<longleftrightarrow>
     length state = length preds \<and> length bs = length preds * ws \<and> length preds \<le> 64 * ws \<and>
     (\<forall>i < length preds. state ! i \<in> {0, 1, 2} \<and> (state ! i = 1 \<longleftrightarrow> i \<in> fst ` set stack)) \<and>
     distinct (map fst stack) \<and> fst ` set stack \<subseteq> {..<length preds} \<and>
     stack_ok preds stop state None stack \<and> rows_ok preds stop ws state bs"

lemma children_less:
  "graph_ok preds stop \<Longrightarrow> i < length preds \<Longrightarrow> set (children preds stop i) \<subseteq> {..<length preds}"
  by (simp add: graph_ok_def children_def)

lemma stack_ok_mono:
  "stack_ok preds stop state ab stack \<Longrightarrow> (\<And>i. state ! i = 2 \<Longrightarrow> state' ! i = 2) \<Longrightarrow>
     stack_ok preds stop state' ab stack"
  by (induction preds stop state ab stack rule: stack_ok.induct) (auto simp: Let_def)

lemma stack_ok_pop:
  "stack_ok preds stop state (Some nd) stack \<Longrightarrow> state' ! nd = 2 \<Longrightarrow>
     (\<And>i. state ! i = 2 \<Longrightarrow> state' ! i = 2) \<Longrightarrow> stack_ok preds stop state' None stack"
proof (cases stack)
  case Nil
  then show ?thesis by simp
next
  case (Cons e rest)
  obtain m k where e: "e = (m, k)" by fastforce
  assume ok: "stack_ok preds stop state (Some nd) stack" and nd: "state' ! nd = 2"
    and keep: "\<And>i. state ! i = 2 \<Longrightarrow> state' ! i = 2"
  have "stack_ok preds stop state' (Some m) rest"
    by (rule stack_ok_mono [of _ _ state]) (use ok keep in \<open>auto simp: Cons e Let_def\<close>)
  then show ?thesis using ok nd keep by (fastforce simp: Cons e Let_def)
qed

lemma stack_ok_path:
  assumes "stack_ok preds stop state (Some nd) stack" "fst ` set stack \<subseteq> {..<length preds}"
    and "x \<in> fst ` set stack"
  shows "(x, nd) \<in> (child_edges preds stop)\<^sup>+"
  using assms
proof (induction stack arbitrary: nd)
  case Nil
  then show ?case by simp
next
  case (Cons e stack)
  obtain m k where e: "e = (m, k)" by fastforce
  have edge: "(m, nd) \<in> child_edges preds stop"
    using Cons.prems(1,2) by (simp add: e Let_def child_edges_def)
  show ?case
  proof (cases "x = m")
    case True
    with edge show ?thesis by simp
  next
    case False
    then have "(x, m) \<in> (child_edges preds stop)\<^sup>+"
      using Cons.prems by (intro Cons.IH) (auto simp: e Let_def)
    with edge show ?thesis by simp
  qed
qed

lemma loop_inv_push:
  assumes inv: "loop_inv preds stop ws ((nd, k) # stack) state bs"
    and k: "k < length (children preds stop nd)" and child: "child = children preds stop nd ! k"
    and c: "child < length state" "state ! child = 0"
  shows "loop_inv preds stop ws ((child, 0) # (nd, Suc k) # stack) (state[child := 1]) bs"
proof -
  have two: "state ! i = 2 \<longleftrightarrow> state[child := 1] ! i = 2" for i
    using c by (cases "i = child") auto
  have new: "child \<notin> fst ` set ((nd, k) # stack)"
    using inv c by (auto simp: loop_inv_def)
  have "stack_ok preds stop (state[child := 1]) None ((child, 0) # (nd, Suc k) # stack)"
    using inv k child two stack_ok_mono [of preds stop state "Some nd" stack "state[child := 1]"]
    by (auto simp: loop_inv_def Let_def less_Suc_eq)
  moreover have "rows_ok preds stop ws (state[child := 1]) bs"
    using inv two by (simp add: loop_inv_def rows_ok_def)
  moreover have "\<forall>i < length preds. state[child := 1] ! i \<in> {0, 1, 2} \<and>
      (state[child := 1] ! i = 1 \<longleftrightarrow> i \<in> fst ` set ((child, 0) # (nd, Suc k) # stack))"
    using inv c by (auto simp: loop_inv_def nth_list_update)
  ultimately show ?thesis using inv c new by (auto simp: loop_inv_def)
qed

lemma loop_inv_skip:
  assumes ok: "graph_ok preds stop" and inv: "loop_inv preds stop ws ((nd, k) # stack) state bs"
    and k: "k < length (children preds stop nd)" and child: "child = children preds stop nd ! k"
    and c: "\<not> (child < length state \<and> state ! child = 0)"
  shows "loop_inv preds stop ws ((nd, Suc k) # stack) state bs"
proof -
  have nd: "nd < length preds" using inv by (simp add: loop_inv_def)
  have less: "child < length preds" using children_less [OF ok nd] k child nth_mem by blast
  have edge: "(nd, child) \<in> child_edges preds stop"
    using nd k child by (simp add: child_edges_def)
  have "child \<notin> fst ` set stack"
  proof
    assume "child \<in> fst ` set stack"
    then have "(child, nd) \<in> (child_edges preds stop)\<^sup>+"
      using inv by (intro stack_ok_path) (auto simp: loop_inv_def Let_def)
    then have "(child, child) \<in> (child_edges preds stop)\<^sup>+" using edge by simp
    then show False using ok by (auto simp: graph_ok_def acyclic_def)
  qed
  moreover have "child \<noteq> nd" using edge ok by (auto simp: graph_ok_def acyclic_def)
  ultimately have "state ! child \<noteq> 1" using inv less by (auto simp: loop_inv_def)
  then have "state ! child = 2" using inv less c by (auto simp: loop_inv_def)
  then have "stack_ok preds stop state None ((nd, Suc k) # stack)"
    using inv k child by (auto simp: loop_inv_def Let_def less_Suc_eq)
  then show ?thesis using inv unfolding loop_inv_def list.map list.set image_insert fst_conv by blast
qed

lemma loop_inv_finish:
  assumes ok: "graph_ok preds stop" and inv: "loop_inv preds stop ws ((nd, k) # stack) state bs"
    and k: "\<not> k < length (children preds stop nd)"
  shows "loop_inv preds stop ws stack (state[nd := 2])
           (finish_row ws nd (children preds stop nd) state bs)"
proof -
  let ?cs = "children preds stop nd" and ?E = "child_edges preds stop"
  let ?bs = "finish_row ws nd ?cs state bs" and ?st = "state[nd := 2]"
  have nd: "nd < length preds" and len: "length state = length preds"
    and lb: "length bs = length preds * ws" and le: "length preds \<le> 64 * ws"
    using inv by (auto simp: loop_inv_def)
  have fin: "\<forall>c \<in> set ?cs. state ! c = 2"
    using inv k by (auto simp: loop_inv_def Let_def in_set_conv_nth)
  have one: "state ! nd = 1" using inv nd by (simp add: loop_inv_def)
  have rows: "\<forall>i < length preds. \<forall>b < 64 * ws. obs ws bs i b \<longleftrightarrow> state ! i = 2 \<and> (i, b) \<in> ?E\<^sup>*"
    using inv by (simp add: loop_inv_def rows_ok_def)
  have less: "set ?cs \<subseteq> {..<length preds}" using children_less [OF ok nd] .
  have self: "c \<noteq> nd" if "c \<in> set ?cs" for c using fin one that by auto
  have reach: "(nd, b) \<in> ?E\<^sup>* \<longleftrightarrow> b = nd \<or> (\<exists>c \<in> set ?cs. (c, b) \<in> ?E\<^sup>*)" for b
    using nd by (auto simp: child_edges_def elim: converse_rtranclE
        intro: converse_rtrancl_into_rtrancl)
  have "obs ws ?bs i b \<longleftrightarrow> ?st ! i = 2 \<and> (i, b) \<in> ?E\<^sup>*"
    if i: "i < length preds" and b: "b < 64 * ws" for i b
  proof (cases "i = nd")
    case True
    have "\<not> obs ws bs nd b" using rows nd b one by simp
    moreover have "(\<exists>c \<in> set ?cs. state ! c = 2 \<and> c \<noteq> nd \<and> obs ws bs c b) \<longleftrightarrow>
        (\<exists>c \<in> set ?cs. (c, b) \<in> ?E\<^sup>*)"
      using rows b less fin self by (intro bex_cong) auto
    ultimately show ?thesis
      using obs_finish_row(2) [OF nd le lb less nd b] True nd len by (simp add: reach)
  next
    case False
    then show ?thesis using obs_finish_row(2) [OF nd le lb less i b] rows i b by simp
  qed
  moreover have "?st ! c = 2" if "i < length preds" "?st ! i = 2" "c \<in> set (children preds stop i)"
    for i c
  proof -
    have "state ! c = 2"
    proof (cases "i = nd")
      case True
      with that fin show ?thesis by simp
    next
      case False
      with that inv show ?thesis by (simp add: loop_inv_def rows_ok_def)
    qed
    then show ?thesis by (cases "c = nd") (use nd len in simp_all)
  qed
  ultimately have "rows_ok preds stop ws ?st ?bs" by (simp add: rows_ok_def)
  moreover have "stack_ok preds stop ?st None stack"
    by (rule stack_ok_pop [of _ _ state nd])
      (use inv nd len in \<open>auto simp: loop_inv_def Let_def nth_list_update\<close>)
  moreover have "\<forall>i < length preds. ?st ! i \<in> {0, 1, 2} \<and> (?st ! i = 1 \<longleftrightarrow> i \<in> fst ` set stack)"
    using inv len by (auto simp: loop_inv_def nth_list_update)
  ultimately show ?thesis
    using inv obs_finish_row(1) [OF nd le lb less] by (auto simp: loop_inv_def)
qed

lemma build_loop_inv:
  assumes "graph_ok preds stop" "loop_inv preds stop ws stack state bs"
    and "build_loop preds stop ws stack state bs = (state', bs')"
  shows "loop_inv preds stop ws [] state' bs' \<and> (\<forall>i. state ! i = 2 \<longrightarrow> state' ! i = 2)
           \<and> (\<forall>i \<in> fst ` set stack. state' ! i = 2)"
  using assms
proof (induction preds stop ws stack state bs rule: build_loop.induct)
  case (1 preds stop ws state bs)
  then show ?case by simp
next
  case (2 preds stop ws nd k stack state bs)
  let ?cs = "children preds stop nd"
  consider (push) "k < length ?cs" "?cs ! k < length state" "state ! (?cs ! k) = 0"
    | (skip) "k < length ?cs" "\<not> (?cs ! k < length state \<and> state ! (?cs ! k) = 0)"
    | (finish) "\<not> k < length ?cs" by (cases "k < length ?cs") auto
  then show ?case
  proof cases
    case push
    have keep: "state[?cs ! k := 1] ! i = 2" if "state ! i = 2" for i
      using that push by (cases "i = ?cs ! k") auto
    have eq: "build_loop preds stop ws ((nd, k) # stack) state bs
        = build_loop preds stop ws ((?cs ! k, 0) # (nd, Suc k) # stack) (state[?cs ! k := 1]) bs"
      by (simp add: build_loop.simps(2) [of _ _ _ nd k] Let_def push)
    show ?thesis
      using 2(1) [OF refl push(1) refl conjI [OF push(2,3)] 2(4)
          loop_inv_push [OF 2(5) push(1) refl push(2,3)] 2(6) [unfolded eq]] keep by simp
  next
    case skip
    have eq: "build_loop preds stop ws ((nd, k) # stack) state bs
        = build_loop preds stop ws ((nd, Suc k) # stack) state bs"
      unfolding build_loop.simps(2) [of _ _ _ nd k] Let_def using skip by (simp only: if_True if_False)
    show ?thesis
      using 2(2) [OF refl skip(1) refl skip(2) 2(4) loop_inv_skip [OF 2(4,5) skip(1) refl skip(2)]
          2(6) [unfolded eq]] by simp
  next
    case finish
    have nd: "nd < length state" using 2(5) by (simp add: loop_inv_def)
    have keep: "state[nd := 2] ! i = 2" if "state ! i = 2 \<or> i = nd" for i
      using that nd by (cases "i = nd") auto
    have eq: "build_loop preds stop ws ((nd, k) # stack) state bs
        = build_loop preds stop ws stack (state[nd := 2]) (finish_row ws nd ?cs state bs)"
      by (simp add: build_loop.simps(2) [of _ _ _ nd k] Let_def finish)
    show ?thesis
      using 2(3) [OF refl finish 2(4) loop_inv_finish [OF 2(4,5) finish] 2(6) [unfolded eq]] keep
      by simp
  qed
qed

lemma loop_inv_root:
  assumes "loop_inv preds stop ws [] state bs" "root < length preds" "state ! root = 0"
  shows "loop_inv preds stop ws [(root, 0)] (state[root := 1]) bs"
proof -
  have two: "state[root := 1] ! i = 2 \<longleftrightarrow> state ! i = 2" for i
    using assms by (cases "i = root") (auto simp: loop_inv_def)
  have "rows_ok preds stop ws (state[root := 1]) bs"
    using assms(1) unfolding loop_inv_def rows_ok_def two by blast
  then show ?thesis using assms by (auto simp: loop_inv_def nth_list_update Let_def)
qed

lemma build_roots_inv:
  assumes "graph_ok preds stop" "loop_inv preds stop ws [] state bs" "set roots \<subseteq> {..<length preds}"
    and "build_roots preds stop ws roots (state, bs) = (state', bs')"
  shows "loop_inv preds stop ws [] state' bs' \<and> (\<forall>i. state ! i = 2 \<longrightarrow> state' ! i = 2)
           \<and> (\<forall>i \<in> set roots. state' ! i = 2)"
  using assms(2-4)
proof (induction roots arbitrary: state bs)
  case Nil
  then show ?case by simp
next
  case (Cons r roots)
  show ?case
  proof (cases "state ! r = 0")
    case True
    obtain st1 bs1 where l: "build_loop preds stop ws [(r, 0)] (state[r := 1]) bs = (st1, bs1)"
      by fastforce
    have r: "r < length preds" "r < length state" using Cons.prems by (auto simp: loop_inv_def)
    note one = build_loop_inv [OF assms(1) loop_inv_root [OF Cons.prems(1) r(1) True] l]
    have "state ! i = 2 \<Longrightarrow> st1 ! i = 2" for i
      using one r True by (cases "i = r") auto
    with one Cons.IH [of st1 bs1] Cons.prems True l show ?thesis by auto
  next
    case False
    then have "state ! r = 2" using Cons.prems by (auto simp: loop_inv_def)
    with Cons.IH [of state bs] Cons.prems False show ?thesis by auto
  qed
qed

lemma loop_inv_init:
  assumes "n = length preds" "n \<le> 64 * ws"
  shows "loop_inv preds stop ws [] (replicate n 0) (replicate (n * ws) 0)"
proof -
  have "\<not> obs ws (replicate (n * ws) 0) i b" if "i < n" "b < 64 * ws" for i b
  proof -
    have "b div 64 < ws" using that(2) by (simp add: div_less_iff_less_mult mult.commute)
    then show ?thesis using row_index_less [OF that(1), of "b div 64" ws] by (simp add: obs_def)
  qed
  then show ?thesis using assms by (simp add: loop_inv_def rows_ok_def)
qed

lemma words_enough: "n \<le> 64 * max ((n + 63) div 64) (1::nat)"
  by (simp add: max_def) presburger

lemma build_closure_rows:
  assumes ok: "graph_ok preds stop"
  defines "c \<equiv> build_closure preds stop"
  shows "length (bits c) = length preds * words c" "length preds \<le> 64 * words c"
    and "\<forall>a < length preds. \<forall>b < 64 * words c.
      observes c a b \<longleftrightarrow> (a, b) \<in> (child_edges preds stop)\<^sup>*"
proof -
  let ?n = "length preds"
  let ?ws = "max ((?n + 63) div 64) 1"
  obtain st bs where r: "build_roots preds stop ?ws [0..<?n] (replicate ?n 0, replicate (?n * ?ws) 0)
      = (st, bs)" by fastforce
  have c: "c = \<lparr>words = ?ws, bits = bs\<rparr>" unfolding c_def build_closure_def Let_def r snd_conv ..
  have roots: "set [0..<?n] \<subseteq> {..<?n}" by auto
  note inv = build_roots_inv [OF ok loop_inv_init [OF refl words_enough] roots r]
  have "loop_inv preds stop ?ws [] st bs" using inv by blast
  moreover have two: "\<forall>i < ?n. st ! i = 2" using inv by simp
  ultimately have *: "length bs = ?n * ?ws" "?n \<le> 64 * ?ws" "rows_ok preds stop ?ws st bs"
    by (auto simp only: loop_inv_def)
  from *(1,2) show "length (bits c) = length preds * words c" "length preds \<le> 64 * words c"
    by (simp_all add: c)
  show "\<forall>a < length preds. \<forall>b < 64 * words c.
      observes c a b \<longleftrightarrow> (a, b) \<in> (child_edges preds stop)\<^sup>*"
    using *(3) two by (simp add: c observes_obs rows_ok_def)
qed

section \<open>Counting rows and recognising chains\<close>

lemma count_ones_card: "count_ones w = card {i. i < 64 \<and> bit w i}"
proof -
  have "card (set (filter (bit w) [0..<64])) = length (filter (bit w) [0..<64])"
    by (rule distinct_card) simp
  moreover have "set (filter (bit w) [0..<64]) = {i. i < 64 \<and> bit w i}" by auto
  ultimately show ?thesis by (simp add: count_ones_def)
qed

lemma sum_count_ones:
  "(\<Sum>w \<leftarrow> [0..<m]. count_ones (f w)) = card {b. b < 64 * m \<and> bit (f (b div 64)) (b mod 64)}"
proof (induction m)
  case 0
  then show ?case by simp
next
  case (Suc m)
  let ?A = "{b. b < 64 * m \<and> bit (f (b div 64)) (b mod 64)}"
  let ?B = "(\<lambda>i. 64 * m + i) ` {i. i < 64 \<and> bit (f m) i}"
  have split: "{b. b < 64 * Suc m \<and> bit (f (b div 64)) (b mod 64)} = ?A \<union> ?B"
  proof (intro set_eqI iffI)
    fix b assume b: "b \<in> {b. b < 64 * Suc m \<and> bit (f (b div 64)) (b mod 64)}"
    show "b \<in> ?A \<union> ?B"
    proof (cases "b < 64 * m")
      case True
      with b show ?thesis by simp
    next
      case False
      with b have "b div 64 = m" by (intro div_nat_eqI) auto
      moreover from this have "b = 64 * m + b mod 64" by (metis mult_div_mod_eq)
      ultimately show ?thesis using b by auto
    qed
  qed auto
  have "card (?A \<union> ?B) = card ?A + card ?B" by (rule card_Un_disjoint) auto
  moreover have "card ?B = count_ones (f m)" by (simp add: card_image inj_on_def count_ones_card)
  ultimately have "card (?A \<union> ?B) = (\<Sum>w \<leftarrow> [0..<Suc m]. count_ones (f w))" using Suc by simp
  then show ?case unfolding split by (rule sym)
qed

lemma count_row_card:
  assumes "length (bits c) = n * words c" "a < n"
  shows "count_row c a = card {b. b < 64 * words c \<and> observes c a b}"
proof -
  have fits: "a * words c + words c \<le> length (bits c)"
  proof -
    have "(a + 1) * words c \<le> n * words c" using assms(2) by (intro mult_le_mono1) simp
    with assms(1) show ?thesis by simp
  qed
  have "take (words c) (drop (a * words c) (bits c)) = map (\<lambda>w. bits c ! (a * words c + w)) [0..<words c]"
    using fits by (auto intro!: nth_equalityI)
  then show ?thesis
    by (simp add: count_row_def comp_def sum_count_ones observes_obs obs_def)
qed

lemma observes_order:
  assumes ok: "graph_ok preds stop"
  defines "c \<equiv> build_closure preds stop" and "n \<equiv> length preds"
  shows "x < n \<Longrightarrow> observes c x x"
    and "\<lbrakk>x < n; y < n; z < n; observes c x y; observes c y z\<rbrakk> \<Longrightarrow> observes c x z"
    and "\<lbrakk>x < n; y < n; observes c x y; observes c y x\<rbrakk> \<Longrightarrow> x = y"
    and "\<lbrakk>x < n; y < n; observes c x y; x \<noteq> y\<rbrakk> \<Longrightarrow> count_row c y < count_row c x"
proof -
  let ?E = "child_edges preds stop"
  note rows = build_closure_rows [OF ok, folded c_def n_def]
  have iff: "observes c a b \<longleftrightarrow> (a, b) \<in> ?E\<^sup>*" if "a < n" "b < 64 * words c" for a b
    using rows(3) that by simp
  have le: "a < n \<Longrightarrow> a < 64 * words c" for a using rows(2) by simp
  show "x < n \<Longrightarrow> observes c x x" for x by (simp add: iff le)
  show "\<lbrakk>x < n; y < n; z < n; observes c x y; observes c y z\<rbrakk> \<Longrightarrow> observes c x z" for x y z
    by (auto simp: iff le)
  have anti: "(x, y) \<in> ?E\<^sup>* \<Longrightarrow> (y, x) \<in> ?E\<^sup>* \<Longrightarrow> x = y" for x y
    using ok by (auto simp: graph_ok_def acyclic_def dest!: rtranclD)
      (meson trancl_trans)
  then show "\<lbrakk>x < n; y < n; observes c x y; observes c y x\<rbrakk> \<Longrightarrow> x = y" for x y
    by (simp add: iff le)
  assume xy: "x < n" "y < n" "observes c x y" "x \<noteq> y"
  then have r: "(x, y) \<in> ?E\<^sup>*" by (simp add: iff le)
  have "{b. b < 64 * words c \<and> observes c y b} \<subset> {b. b < 64 * words c \<and> observes c x b}"
  proof
    show "{b. b < 64 * words c \<and> observes c y b} \<subseteq> {b. b < 64 * words c \<and> observes c x b}"
      using r xy by (auto simp: iff)
    have "x \<notin> {b. b < 64 * words c \<and> observes c y b}" using r anti xy by (auto simp: iff)
    moreover have "x \<in> {b. b < 64 * words c \<and> observes c x b}" using xy le by (auto simp: iff)
    ultimately show "{b. b < 64 * words c \<and> observes c y b} \<noteq> {b. b < 64 * words c \<and> observes c x b}"
      by blast
  qed
  then have "card {b. b < 64 * words c \<and> observes c y b} < card {b. b < 64 * words c \<and> observes c x b}"
    by (rule psubset_card_mono [rotated]) simp
  then show "count_row c y < count_row c x" using count_row_card [OF rows(1)] xy by simp
qed

lemma chain_windows_sorted_wrt:
  assumes "graph_ok preds stop" "set xs \<subseteq> {..<length preds}"
  defines "c \<equiv> build_closure preds stop"
  shows "chain_windows c xs \<longleftrightarrow> sorted_wrt (\<lambda>x y. x \<noteq> y \<and> observes c y x) xs"
  using assms(2)
proof (induction xs rule: induct_list012)
  case (3 x y zs)
  let ?P = "\<lambda>x y. x \<noteq> y \<and> observes c y x"
  have less: "x < length preds" "y < length preds" "\<forall>z \<in> set zs. z < length preds"
    using 3(3) by auto
  define S where "S = sorted_wrt ?P (y # zs)"
  have all: "?P x z" if P: "?P x y" and S: S and z: "z \<in> set zs" for z
  proof -
    have P': "?P y z" using S z by (simp add: S_def)
    have "z < length preds" using less(3) z by blast
    note ord = observes_order(2,3) [OF assms(1), folded c_def]
    show ?thesis using ord(1) [OF \<open>z < _\<close> less(2,1)] ord(2) [OF less(1,2)] P P' by auto
  qed
  have IH: "chain_windows c (y # zs) \<longleftrightarrow> S"
    unfolding S_def by (rule "3.IH"(2)) (use 3(3) in simp)
  have "chain_windows c (x # y # zs) \<longleftrightarrow> ?P x y \<and> S"
    unfolding chain_windows.simps(1) IH by (rule conj_assoc [symmetric])
  also have "\<dots> \<longleftrightarrow> (\<forall>z \<in> set (y # zs). ?P x z) \<and> S"
    unfolding list.set ball_simps(7) using all by blast
  also have "\<dots> \<longleftrightarrow> sorted_wrt ?P (x # y # zs)"
    unfolding S_def sorted_wrt.simps(2) [of ?P x "y # zs"] ..
  finally show ?case .
qed simp_all

lemma is_chain_iff:
  assumes ok: "graph_ok preds stop" and members: "set members \<subseteq> {..<length preds}"
  defines "c \<equiv> build_closure preds stop"
  shows "is_chain c members \<longleftrightarrow> distinct members \<and>
     (\<forall>x \<in> set members. \<forall>y \<in> set members. observes c x y \<or> observes c y x)"
proof -
  let ?P = "\<lambda>x y. x \<noteq> y \<and> observes c y x"
  let ?k = "\<lambda>m. (count_row c m, m)"
  let ?xs = "sort_key ?k members"
  have chain: "is_chain c members \<longleftrightarrow> sorted_wrt ?P ?xs"
    using chain_windows_sorted_wrt [OF ok, of ?xs] members by (simp add: is_chain_def c_def)
  have refl: "observes c x x" if "x \<in> set members" for x
    using observes_order(1) [OF ok, folded c_def, of x] members that by auto
  show ?thesis
  proof
    assume "is_chain c members"
    then have s: "sorted_wrt ?P ?xs" by (simp add: chain)
    have "distinct ?xs" by (rule sorted_wrt_neq_distinct [OF s])
    moreover have "observes c x y \<or> observes c y x" if xy: "x \<in> set ?xs" "y \<in> set ?xs" for x y
      using sorted_wrt_comparable [OF s xy] refl xy by auto
    ultimately show "distinct members \<and>
        (\<forall>x \<in> set members. \<forall>y \<in> set members. observes c x y \<or> observes c y x)" by auto
  next
    assume r: "distinct members \<and>
        (\<forall>x \<in> set members. \<forall>y \<in> set members. observes c x y \<or> observes c y x)"
    have "?P (?xs ! i) (?xs ! j)" if ij: "i < j" "j < length ?xs" for i j
    proof -
      let ?x = "?xs ! i" and ?y = "?xs ! j"
      have mem: "?x \<in> set members" "?y \<in> set members"
        using ij nth_mem [of i ?xs] nth_mem [of j ?xs] by auto
      have neq: "?x \<noteq> ?y" using r ij by (simp add: nth_eq_iff_index_eq)
      have "sorted (map ?k ?xs)" by (rule sorted_sort_key)
      then have "?k ?x \<le> ?k ?y" using ij sorted_nth_mono [of "map ?k ?xs" i j] by simp
      then have "\<not> count_row c ?y < count_row c ?x" by auto
      then have "\<not> observes c ?x ?y"
        using observes_order(4) [OF ok, folded c_def, of ?x ?y] mem members neq by auto
      with r mem neq show ?thesis by auto
    qed
    then show "is_chain c members" by (simp add: chain sorted_wrt_iff_nth_less)
  qed
qed

end
