(* ===== verification/Blocklace.thy ===== *)
theory Blocklace
  imports Block_Types Closure_Matrix
begin

text \<open>
  The blocklace of \<open>blocklace.rs\<close>: the store of blocks with its trusted boundary, its
  checkpoint and its mutation counter, the three ways a block enters it, and the queries over the
  predecessor graph.  The hash maps are association lists (any order).  The theory shows that the
  admission paths keep the store well formed, closed and acyclic, and that the graph walks compute
  reachability.
\<close>

section \<open>State\<close>

text \<open>The cached ancestor index is built in the theory \<open>Ancestor_Index\<close>; its slot is here.\<close>

record ancestor_index =
  idx_generation :: nat
  pos :: "(block_identity \<times> nat) list"
  idx_closure :: closure
  conflicts :: "(nat \<times> nat list) list"

record blocklace =
  blocks :: "(block_identity \<times> block_content) list"
  trusted_boundary :: "(block_identity \<times> block_identity list) list"
  checkpoint :: "block_identity option"
  checkpoint_depth :: "nat option"
  checkpoint_order_prefix :: "block_identity list"
  checkpoint_weighted_order_prefix :: "block_identity list"
  generation :: nat
  cache_identity :: nat
  index_slot :: "ancestor_index option"

definition new_blocklace :: "nat \<Rightarrow> blocklace" where
  "new_blocklace cid = \<lparr>blocks = [], trusted_boundary = [], checkpoint = None, checkpoint_depth = None,
     checkpoint_order_prefix = [], checkpoint_weighted_order_prefix = [], generation = 0,
     cache_identity = cid, index_slot = None\<rparr>"

section \<open>Identity resolution and map views\<close>

abbreviation block_ids :: "blocklace \<Rightarrow> block_identity list" where
  "block_ids bl \<equiv> map fst (blocks bl)"

definition resolve_identity_in ::
  "(block_identity \<times> block_content) list \<Rightarrow> block_identity \<Rightarrow> block_identity option" where
  "resolve_identity_in blks i =
     (if i \<in> set (map fst blks) then Some i
      else if signature i \<noteq> [] then None
      else case filter (\<lambda>c. content_hash c = content_hash i \<and> creator c = creator i) (map fst blks) of
             [] \<Rightarrow> None
           | resolved # rest \<Rightarrow> (if rest \<noteq> [] then None else Some resolved))"

definition resolve_identity :: "blocklace \<Rightarrow> block_identity \<Rightarrow> block_identity option" where
  "resolve_identity bl i = resolve_identity_in (blocks bl) i"

definition content_of :: "blocklace \<Rightarrow> block_identity \<Rightarrow> block_content option" where
  "content_of bl i =
     (case resolve_identity bl i of None \<Rightarrow> None | Some r \<Rightarrow> map_of (blocks bl) r)"

definition get_block :: "blocklace \<Rightarrow> block_identity \<Rightarrow> block option" where
  "get_block bl i =
     (case resolve_identity bl i of None \<Rightarrow> None
      | Some r \<Rightarrow> map_option (\<lambda>c. \<lparr>identity = r, content = c\<rparr>) (map_of (blocks bl) r))"

definition conflicting_identity_variant :: "blocklace \<Rightarrow> block_identity \<Rightarrow> block_identity option" where
  "conflicting_identity_variant bl i =
     (if i \<in> set (block_ids bl) then None
      else List.find (\<lambda>c. content_hash c = content_hash i \<and> creator c = creator i) (block_ids bl))"

definition get_set :: "blocklace \<Rightarrow> block_identity list \<Rightarrow> block list" where
  "get_set bl is = collect_blocks (List.map_filter (get_block bl) is)"

definition dom_lace :: "blocklace \<Rightarrow> block_identity list" where
  "dom_lace bl = block_ids bl"

definition is_checkpoint_boundary :: "blocklace \<Rightarrow> block_identity \<Rightarrow> bool" where
  "is_checkpoint_boundary bl i \<longleftrightarrow> checkpoint bl = Some i"

definition trusted_boundary_predecessors ::
  "blocklace \<Rightarrow> block_identity \<Rightarrow> block_identity list option" where
  "trusted_boundary_predecessors bl i = map_of (trusted_boundary bl) i"

definition has_trusted_boundaries :: "blocklace \<Rightarrow> bool" where
  "has_trusted_boundaries bl \<longleftrightarrow> trusted_boundary bl \<noteq> []"

section \<open>Structural mutation\<close>

definition commit_validated ::
  "blocklace \<Rightarrow> block_identity \<Rightarrow> block_content \<Rightarrow> block_identity + blocklace" where
  "commit_validated bl i c =
     (case conflicting_identity_variant bl i of
        Some conflicting \<Rightarrow> Inl conflicting
      | None \<Rightarrow>
          let tb0 = AList.delete i (trusted_boundary bl);
              blks = AList.update i c (blocks bl);
              tb1 = map (\<lambda>(k, boundary).
                      (k, filter (\<lambda>p. resolve_identity_in blks p = None) boundary)) tb0;
              tb2 = filter (\<lambda>(k, boundary). boundary \<noteq> []) tb1
          in Inr (bl\<lparr>blocks := blks, trusted_boundary := tb2, generation := generation bl + 1\<rparr>))"

definition forget_block :: "blocklace \<Rightarrow> block_identity \<Rightarrow> bool \<times> blocklace" where
  "forget_block bl i =
     (if i \<in> set (block_ids bl)
      then (True, bl\<lparr>blocks := AList.delete i (blocks bl),
                     trusted_boundary := AList.delete i (trusted_boundary bl),
                     generation := generation bl + 1\<rparr>)
      else (False, bl))"

definition set_checkpoint_state ::
  "blocklace \<Rightarrow> block_identity \<Rightarrow> nat \<Rightarrow> block_identity list \<Rightarrow> block_identity list \<Rightarrow> blocklace" where
  "set_checkpoint_state bl cp d order_prefix weighted_order_prefix =
     bl\<lparr>checkpoint := Some cp, checkpoint_depth := Some d,
        checkpoint_order_prefix := order_prefix,
        checkpoint_weighted_order_prefix := weighted_order_prefix,
        generation := generation bl + 1\<rparr>"

section \<open>Insertion and the closure axiom\<close>

text \<open>
  The signature verifier is a parameter: \<open>Inr ()\<close> accepts.  The error strings of the source
  are the constructors of \<open>insert_error\<close>.
\<close>

type_synonym 'e block_verifier = "block_content \<Rightarrow> byte list \<Rightarrow> node_id \<Rightarrow> 'e + unit"

datatype 'e insert_error =
    InvalidSignature 'e
  | ClosureViolation block_identity
  | IdentityConflict block_identity

definition missing_preds :: "blocklace \<Rightarrow> block_content \<Rightarrow> block_identity list" where
  "missing_preds bl c = filter (\<lambda>p. resolve_identity bl p = None) (predecessors c)"

definition insert_block ::
  "blocklace \<Rightarrow> block \<Rightarrow> 'e block_verifier \<Rightarrow> 'e insert_error + blocklace" where
  "insert_block bl b verify =
     (case verify (content b) (signature (identity b)) (creator (identity b)) of
        Inl e \<Rightarrow> Inl (InvalidSignature e)
      | Inr _ \<Rightarrow>
          (case missing_preds bl (content b) of
             m # _ \<Rightarrow> Inl (ClosureViolation m)
           | [] \<Rightarrow>
               (case commit_validated bl (identity b) (content b) of
                  Inl conflicting \<Rightarrow> Inl (IdentityConflict conflicting)
                | Inr bl' \<Rightarrow> Inr bl')))"

definition insert_with_trusted_boundary ::
  "blocklace \<Rightarrow> block \<Rightarrow> 'e block_verifier
     \<Rightarrow> 'e insert_error + (block_identity list \<times> blocklace)" where
  "insert_with_trusted_boundary bl b verify =
     (case verify (content b) (signature (identity b)) (creator (identity b)) of
        Inl e \<Rightarrow> Inl (InvalidSignature e)
      | Inr _ \<Rightarrow>
          let missing = missing_preds bl (content b) in
          (case commit_validated bl (identity b) (content b) of
             Inl conflicting \<Rightarrow> Inl (IdentityConflict conflicting)
           | Inr bl' \<Rightarrow>
               Inr (missing,
                 if missing \<noteq> []
                 then bl'\<lparr>trusted_boundary := AList.update (identity b) missing (trusted_boundary bl')\<rparr>
                 else bl')))"

definition is_closed :: "blocklace \<Rightarrow> bool" where
  "is_closed bl \<longleftrightarrow> (\<forall>(i, c) \<in> set (blocks bl).
     is_checkpoint_boundary bl i \<or> (\<forall>p \<in> set (predecessors c). resolve_identity bl p \<noteq> None))"

definition predecessors_of :: "blocklace \<Rightarrow> block_identity \<Rightarrow> block list" where
  "predecessors_of bl i =
     (case content_of bl i of None \<Rightarrow> [] | Some c \<Rightarrow> get_set bl (predecessors c))"

section \<open>Walks over the predecessor graph\<close>

definition expand_preds :: "blocklace \<Rightarrow> block_identity \<Rightarrow> block_identity list" where
  "expand_preds bl i =
     (if is_checkpoint_boundary bl i then []
      else case content_of bl i of None \<Rightarrow> []
           | Some c \<Rightarrow> List.map_filter (resolve_identity bl) (predecessors c))"

definition ancestors :: "blocklace \<Rightarrow> block_identity \<Rightarrow> block list" where
  "ancestors bl i =
     collect_blocks (List.map_filter (get_block bl)
       (worklist Lifo (block_ids bl) (expand_preds bl) [i] []))"

definition observe :: "blocklace \<Rightarrow> block_identity \<Rightarrow> block_identity list" where
  "observe bl i =
     (case resolve_identity bl i of None \<Rightarrow> []
      | Some r \<Rightarrow> sort (worklist Fifo (block_ids bl) (expand_preds bl) [r] [r]))"

definition ancestors_inclusive :: "blocklace \<Rightarrow> block_identity \<Rightarrow> block list" where
  "ancestors_inclusive bl i =
     (case get_block bl i of None \<Rightarrow> ancestors bl i
      | Some b \<Rightarrow> collect_blocks (ancestors bl i @ [b]))"

definition ancestors_of_set :: "blocklace \<Rightarrow> block_identity list \<Rightarrow> block list" where
  "ancestors_of_set bl is = collect_blocks (concat (map (ancestors bl) is))"

definition precedes :: "blocklace \<Rightarrow> block_identity \<Rightarrow> block_identity \<Rightarrow> bool" where
  "precedes bl a b =
     (case resolve_identity bl a of None \<Rightarrow> False
      | Some a' \<Rightarrow> list_ex (\<lambda>blk. identity blk = a') (ancestors bl b))"

definition preceedes_or_equals :: "blocklace \<Rightarrow> block_identity \<Rightarrow> block_identity \<Rightarrow> bool" where
  "preceedes_or_equals bl a b =
     (case (resolve_identity bl a, resolve_identity bl b) of
        (Some a', Some b') \<Rightarrow> a' = b' \<or> precedes bl a' b'
      | _ \<Rightarrow> False)"

section \<open>Virtual chains\<close>

definition blocks_by :: "blocklace \<Rightarrow> node_id \<Rightarrow> block list" where
  "blocks_by bl nd = map (\<lambda>(i, c). \<lparr>identity = i, content = c\<rparr>)
     (filter (\<lambda>(i, c). creator i = nd) (blocks bl))"

fun chain_pairs :: "blocklace \<Rightarrow> block list \<Rightarrow> bool" where
  "chain_pairs bl [] = True"
| "chain_pairs bl (a # bs) =
     (list_all (\<lambda>b. precedes bl (identity a) (identity b) \<or> precedes bl (identity b) (identity a)) bs
      \<and> chain_pairs bl bs)"

definition satisfies_chain_axiom :: "blocklace \<Rightarrow> node_id \<Rightarrow> bool" where
  "satisfies_chain_axiom bl nd = chain_pairs bl (blocks_by bl nd)"

definition all_nodes :: "blocklace \<Rightarrow> node_id list" where
  "all_nodes bl = remdups (map creator (block_ids bl))"

definition satisfies_chain_axiom_all :: "blocklace \<Rightarrow> bool" where
  "satisfies_chain_axiom_all bl = list_all (satisfies_chain_axiom bl) (all_nodes bl)"

definition find_equivacators :: "blocklace \<Rightarrow> node_id list" where
  "find_equivacators bl = filter (\<lambda>nd. \<not> satisfies_chain_axiom bl nd) (all_nodes bl)"

definition tip_of :: "blocklace \<Rightarrow> node_id \<Rightarrow> block option" where
  "tip_of bl nd =
     (let p_blocks = blocks_by bl nd in
      List.find (\<lambda>candidate. \<not> list_ex (\<lambda>other. identity other \<noteq> identity candidate \<and>
        precedes bl (identity candidate) (identity other)) p_blocks) p_blocks)"

section \<open>Invariants\<close>

text \<open>
  \<open>wf_lace\<close>: keys are distinct and no two stored identities name the same consensus block.
  \<open>points\<close> is the predecessor relation the walks follow.
\<close>

definition wf_lace :: "blocklace \<Rightarrow> bool" where
  "wf_lace bl \<longleftrightarrow> distinct (block_ids bl) \<and> inj_on consensus_identity (set (block_ids bl))"

definition points :: "blocklace \<Rightarrow> (block_identity \<times> block_identity) set" where
  "points bl = {(b, p). p \<in> set (expand_preds bl b)}"

definition acyclic_lace :: "blocklace \<Rightarrow> bool" where
  "acyclic_lace bl \<longleftrightarrow> acyclic (points bl)"

definition verified_lace :: "'e block_verifier \<Rightarrow> blocklace \<Rightarrow> bool" where
  "verified_lace verify bl \<longleftrightarrow>
     (\<forall>(i, c) \<in> set (blocks bl). verify c (signature i) (creator i) = Inr ())"

text \<open>
  What the program relies on of its hash and signature scheme: one signature by one creator
  accepts one payload and one set of predecessor names.  Predecessor signatures are not part of
  the hash, so nothing more is assumed.
\<close>

definition signature_binding :: "'e block_verifier \<Rightarrow> bool" where
  "signature_binding verify \<longleftrightarrow> (\<forall>c c' s p. verify c s p = Inr () \<longrightarrow> verify c' s p = Inr () \<longrightarrow>
     payload c = payload c' \<and>
     consensus_identity ` set (predecessors c) = consensus_identity ` set (predecessors c'))"

section \<open>Resolution\<close>

lemma resolve_stored [simp]: "i \<in> set (block_ids bl) \<Longrightarrow> resolve_identity bl i = Some i"
  by (simp add: resolve_identity_def resolve_identity_in_def)

lemma only_match:
  "(case m of [] \<Rightarrow> None | r # rest \<Rightarrow> if rest \<noteq> [] then None else Some r) = Some x \<longleftrightarrow> m = [x]"
  by (auto split: list.splits)

lemma resolve_Some_cases:
  "resolve_identity bl i = Some r \<longleftrightarrow> (i \<in> set (block_ids bl) \<and> r = i) \<or>
     (i \<notin> set (block_ids bl) \<and> signature i = [] \<and>
      filter (\<lambda>c. content_hash c = content_hash i \<and> creator c = creator i) (block_ids bl) = [r])"
  unfolding resolve_identity_def resolve_identity_in_def only_match [symmetric] by auto

lemma resolve_SomeD:
  assumes "resolve_identity bl i = Some r"
  shows "r \<in> set (block_ids bl)" and "consensus_identity r = consensus_identity i"
    and "r \<noteq> i \<Longrightarrow> signature i = []"
proof -
  have "r \<in> set (block_ids bl) \<and> consensus_identity r = consensus_identity i \<and> (r \<noteq> i \<longrightarrow> signature i = [])"
  proof (cases "i \<in> set (block_ids bl)")
    case True
    with assms show ?thesis by simp
  next
    case False
    with assms have sig: "signature i = []" and
      m: "filter (\<lambda>c. content_hash c = content_hash i \<and> creator c = creator i) (block_ids bl) = [r]"
      unfolding resolve_Some_cases by blast+
    from arg_cong [OF m, of set]
    have "r \<in> {x \<in> set (block_ids bl). content_hash x = content_hash i \<and> creator x = creator i}"
      unfolding set_filter by auto
    then show ?thesis using sig by (auto intro: consensus_identity_eqI)
  qed
  then show "r \<in> set (block_ids bl)" and "consensus_identity r = consensus_identity i"
    and "r \<noteq> i \<Longrightarrow> signature i = []" by auto
qed

lemma resolve_resolved: "resolve_identity bl i = Some r \<Longrightarrow> resolve_identity bl r = Some r"
  by (rule resolve_stored) (rule resolve_SomeD)

lemma wf_resolve_iff:
  assumes "wf_lace bl"
  shows "resolve_identity bl i = Some r \<longleftrightarrow> r \<in> set (block_ids bl) \<and>
     (r = i \<or> signature i = [] \<and> consensus_identity r = consensus_identity i)"
proof
  assume "resolve_identity bl i = Some r"
  then show "r \<in> set (block_ids bl) \<and>
     (r = i \<or> signature i = [] \<and> consensus_identity r = consensus_identity i)"
    using resolve_SomeD by metis
next
  assume r: "r \<in> set (block_ids bl) \<and>
     (r = i \<or> signature i = [] \<and> consensus_identity r = consensus_identity i)"
  show "resolve_identity bl i = Some r"
  proof (cases "i \<in> set (block_ids bl)")
    case True
    with r assms have "r = i" by (auto simp: wf_lace_def inj_on_def)
    with True show ?thesis by simp
  next
    case False
    let ?m = "filter (\<lambda>c. content_hash c = content_hash i \<and> creator c = creator i) (block_ids bl)"
    from False r have r': "r \<in> set (block_ids bl)" "signature i = []"
      "consensus_identity r = consensus_identity i" by auto
    have "set ?m = {r}"
      using r' assms by (auto simp: consensus_identity_eq_iff wf_lace_def inj_on_def)
    moreover have "distinct ?m" using assms by (simp add: wf_lace_def)
    ultimately have "?m = [r]" by (rule distinct_set_singleton)
    with False r' show ?thesis unfolding resolve_Some_cases by blast
  qed
qed

lemma resolve_consensus_unique:
  assumes "wf_lace bl" "resolve_identity bl i = Some r" "resolve_identity bl j = Some s"
    and "consensus_identity i = consensus_identity j"
  shows "r = s"
proof (rule inj_onD)
  show "inj_on consensus_identity (set (block_ids bl))" using assms(1) by (simp add: wf_lace_def)
  show "consensus_identity r = consensus_identity s"
    using resolve_SomeD(2) [OF assms(2)] resolve_SomeD(2) [OF assms(3)] assms(4) by simp
qed (rule resolve_SomeD(1) [OF assms(2)], rule resolve_SomeD(1) [OF assms(3)])

lemma map_of_stored:
  "wf_lace bl \<Longrightarrow> map_of (blocks bl) i = Some c \<longleftrightarrow> (i, c) \<in> set (blocks bl)"
  by (simp add: wf_lace_def)

lemma get_block_Some:
  assumes "get_block bl i = Some b"
  shows "resolve_identity bl i = Some (identity b)" "identity b \<in> set (block_ids bl)"
    "(identity b, content b) \<in> set (blocks bl)"
  using assms resolve_SomeD(1)
  by (auto simp: get_block_def split: option.splits dest: map_of_SomeD)

lemma get_block_resolves:
  assumes "resolve_identity bl i = Some r"
  shows "\<exists>b. get_block bl i = Some b \<and> identity b = r"
proof -
  have "r \<in> fst ` set (blocks bl)" using resolve_SomeD(1) [OF assms] by simp
  then have "\<exists>c. map_of (blocks bl) r = Some c"
    by (meson domIff map_of_eq_None_iff not_None_eq)
  with assms show ?thesis by (auto simp: get_block_def)
qed

lemma get_block_stored:
  "i \<in> set (block_ids bl) \<Longrightarrow> \<exists>c. get_block bl i = Some \<lparr>identity = i, content = c\<rparr> \<and> (i, c) \<in> set (blocks bl)"
  using get_block_resolves [of bl i i] get_block_Some [of bl i]
  by (metis (full_types) block.surjective old.unit.exhaust resolve_stored)

lemma get_block_None_iff: "get_block bl i = None \<longleftrightarrow> resolve_identity bl i = None"
  using get_block_resolves get_block_Some(1) by (metis not_None_eq)

lemma content_of_None_iff: "content_of bl i = None \<longleftrightarrow> resolve_identity bl i = None"
proof -
  have "content_of bl i = map_option content (get_block bl i)"
    by (simp add: content_of_def get_block_def option.map_comp comp_def option.map_ident
        split: option.splits)
  then show ?thesis by (simp add: get_block_None_iff)
qed

lemma conflicting_None_iff:
  "conflicting_identity_variant bl i = None \<longleftrightarrow>
     i \<in> set (block_ids bl) \<or> (\<forall>k \<in> set (block_ids bl). consensus_identity k \<noteq> consensus_identity i)"
  by (auto simp: conflicting_identity_variant_def find_None_iff consensus_identity_eq_iff)

section \<open>Admission keeps the store well formed and closed\<close>

lemma commit_InrD:
  assumes "commit_validated bl i c = Inr bl'"
  shows "conflicting_identity_variant bl i = None" "blocks bl' = AList.update i c (blocks bl)"
    "checkpoint bl' = checkpoint bl" "checkpoint_depth bl' = checkpoint_depth bl"
    "generation bl' = generation bl + 1" "index_slot bl' = index_slot bl"
    "cache_identity bl' = cache_identity bl"
    "checkpoint_order_prefix bl' = checkpoint_order_prefix bl"
    "checkpoint_weighted_order_prefix bl' = checkpoint_weighted_order_prefix bl"
  using assms by (auto simp: commit_validated_def Let_def split: option.splits)

lemma commit_ids:
  "commit_validated bl i c = Inr bl' \<Longrightarrow> set (block_ids bl') = insert i (set (block_ids bl))"
  by (drule commit_InrD(2)) (auto simp: map_fst_AList_update simp del: set_map)

lemma wf_commit:
  assumes "wf_lace bl" "commit_validated bl i c = Inr bl'"
  shows "wf_lace bl'"
proof -
  note i = commit_InrD(1) [OF assms(2), unfolded conflicting_None_iff]
  have "distinct (block_ids bl')"
    using assms(1) by (simp add: wf_lace_def commit_InrD(2) [OF assms(2)] map_fst_AList_update)
  moreover have "inj_on consensus_identity (set (block_ids bl'))"
    unfolding commit_ids [OF assms(2)]
    using i assms(1)
    by (cases "i \<in> set (block_ids bl)")
      (auto simp: wf_lace_def insert_absorb simp del: set_map)
  ultimately show ?thesis by (simp add: wf_lace_def)
qed

lemma conflicting_SomeD:
  assumes "conflicting_identity_variant bl i = Some k"
  shows "k \<in> set (block_ids bl) \<and> k \<noteq> i \<and> same_consensus_identity k i"
proof -
  have "i \<notin> set (block_ids bl)"
    and "List.find (\<lambda>c. content_hash c = content_hash i \<and> creator c = creator i) (block_ids bl) = Some k"
    using assms by (auto simp: conflicting_identity_variant_def simp del: set_map split: if_splits)
  then show ?thesis by (auto dest!: find_SomeD simp: same_consensus_identity_def simp del: set_map)
qed

lemma conflicting_wf_iff:
  assumes "wf_lace bl"
  shows "conflicting_identity_variant bl i = None \<longleftrightarrow>
    \<not> (\<exists>k \<in> set (block_ids bl). k \<noteq> i \<and> same_consensus_identity k i)"
proof (cases "i \<in> set (block_ids bl)")
  case True
  have "inj_on consensus_identity (set (block_ids bl))" using assms by (simp add: wf_lace_def)
  then have "k = i" if "k \<in> set (block_ids bl)" "consensus_identity k = consensus_identity i" for k
    using that True by (simp add: inj_onD del: set_map)
  then show ?thesis
    using True by (auto simp: conflicting_None_iff same_consensus_identity_iff simp del: set_map)
next
  case False
  then show ?thesis
    by (auto simp: conflicting_None_iff same_consensus_identity_iff simp del: set_map)
qed

lemma commit_effect:
  assumes "conflicting_identity_variant bl (identity b) = None"
  shows "\<exists>bl'. commit_validated bl (identity b) (content b) = Inr bl' \<and> generation bl' = generation bl + 1 \<and>
    get_block bl' (identity b) = Some b \<and>
    (\<forall>j. j \<noteq> identity b \<longrightarrow> map_of (blocks bl') j = map_of (blocks bl) j)"
proof -
  obtain bl' where c: "commit_validated bl (identity b) (content b) = Inr bl'"
    using assms by (simp add: commit_validated_def Let_def)
  have "blocks bl' = AList.update (identity b) (content b) (blocks bl)" by (rule commit_InrD(2) [OF c])
  moreover have "identity b \<in> set (block_ids bl')" using commit_ids [OF c] by simp
  ultimately show ?thesis
    using c commit_InrD(5) [OF c] by (simp add: update_conv' get_block_def del: set_map)
qed

lemma resolve_commit_mono:
  assumes "wf_lace bl" "commit_validated bl i c = Inr bl'" "resolve_identity bl r = Some x"
  shows "resolve_identity bl' r = Some x"
  using assms(3) unfolding wf_resolve_iff [OF assms(1)] wf_resolve_iff [OF wf_commit [OF assms(1,2)]]
  by (auto simp: commit_ids [OF assms(2)] simp del: set_map)

lemma stored_commit:
  assumes "wf_lace bl" "commit_validated bl i c = Inr bl'"
  shows "(j, d) \<in> set (blocks bl') \<longleftrightarrow> (if j = i then d = c else (j, d) \<in> set (blocks bl))"
  using assms(1) by (auto simp: commit_InrD(2) [OF assms(2)] wf_lace_def set_AList_update)

lemma insert_InrD:
  assumes "insert_block bl b verify = Inr bl'"
  shows "verify (content b) (signature (identity b)) (creator (identity b)) = Inr ()"
    and "\<forall>p \<in> set (predecessors (content b)). resolve_identity bl p \<noteq> None"
    and "commit_validated bl (identity b) (content b) = Inr bl'"
  using assms
  by (auto simp: insert_block_def missing_preds_def filter_empty_conv split: sum.splits list.splits)

lemma insert_closed:
  assumes "wf_lace bl" "is_closed bl" "insert_block bl b verify = Inr bl'"
  shows "is_closed bl'"
proof -
  note ins = insert_InrD [OF assms(3)]
  have keep: "resolve_identity bl p \<noteq> None \<Longrightarrow> resolve_identity bl' p \<noteq> None" for p
    using resolve_commit_mono [OF assms(1) ins(3), of p] by auto
  have "resolve_identity bl' p \<noteq> None"
    if jd: "(j, d) \<in> set (blocks bl')" and nb: "\<not> is_checkpoint_boundary bl' j"
      and p: "p \<in> set (predecessors d)" for j d p
  proof -
    have nb': "\<not> is_checkpoint_boundary bl j"
      using nb commit_InrD(3) [OF ins(3)] by (simp add: is_checkpoint_boundary_def)
    have "resolve_identity bl p \<noteq> None"
    proof (cases "j = identity b")
      case True
      then show ?thesis using jd p ins(2) stored_commit [OF assms(1) ins(3)] by simp
    next
      case False
      then have "(j, d) \<in> set (blocks bl)" using jd stored_commit [OF assms(1) ins(3)] by simp
      then show ?thesis using assms(2) p nb' by (auto simp: is_closed_def)
    qed
    with keep show ?thesis by blast
  qed
  then show ?thesis unfolding is_closed_def by blast
qed

section \<open>Graph searches over the lace\<close>

lemma expand_in_lace: "set (expand_preds bl i) \<subseteq> set (block_ids bl)"
  by (auto simp: expand_preds_def simp del: set_map split: option.splits intro: resolve_SomeD(1))

interpretation lace: search_space "block_ids bl" "expand_preds bl"
  rewrites "search_space.edge (expand_preds bl) = points bl"
  for bl
proof -
  show "search_space (block_ids bl) (expand_preds bl)"
    by standard (rule expand_in_lace)
  then show "search_space.edge (expand_preds bl) = points bl"
    by (simp add: search_space.edge_def points_def)
qed

declare lace.edge_iff [simp del]

lemma points_stored: "(b, p) \<in> points bl \<Longrightarrow> p \<in> set (block_ids bl)"
  using expand_in_lace by (auto simp: points_def)

lemma points_trancl_stored: "(b, p) \<in> (points bl)\<^sup>+ \<Longrightarrow> p \<in> set (block_ids bl)"
  by (drule tranclD2, erule exE, erule conjE, erule points_stored)

lemma set_observe:
  "set (observe bl i) =
     (case resolve_identity bl i of None \<Rightarrow> {} | Some r \<Rightarrow> (points bl)\<^sup>* `` {r})"
  by (auto simp: observe_def lace.worklist_rtrancl split: option.split)

lemma observe_stored: "set (observe bl i) \<subseteq> set (block_ids bl)"
  by (auto simp: set_observe rtrancl_eq_or_trancl resolve_SomeD(1) split: option.splits
      dest: points_trancl_stored resolve_SomeD(1) simp del: set_map)

lemma distinct_observe [simp]: "distinct (observe bl i)"
  by (simp add: observe_def lace.worklist_distinct split: option.split)

lemma identity_ancestors: "identity ` set (ancestors bl i) = (points bl)\<^sup>+ `` {i}"
proof -
  let ?w = "worklist Lifo (block_ids bl) (expand_preds bl) [i] []"
  have "identity ` set (ancestors bl i) = identity ` {b. \<exists>j \<in> set ?w. get_block bl j = Some b}"
    by (simp add: ancestors_def)
  also have "\<dots> = set ?w"
  proof (intro set_eqI iffI)
    fix j assume "j \<in> set ?w"
    then have "j \<in> set (block_ids bl)" using lace.worklist_trancl points_trancl_stored by fastforce
    then show "j \<in> identity ` {b. \<exists>j \<in> set ?w. get_block bl j = Some b}"
      using \<open>j \<in> set ?w\<close> get_block_stored [of j bl] by force
  next
    fix j assume "j \<in> identity ` {b. \<exists>j \<in> set ?w. get_block bl j = Some b}"
    then obtain k b where k: "k \<in> set ?w" "get_block bl k = Some b" "j = identity b" by auto
    then have "k \<in> set (block_ids bl)" using lace.worklist_trancl points_trancl_stored by fastforce
    with k get_block_Some(1) [OF k(2)] show "j \<in> set ?w" by simp
  qed
  finally show ?thesis by (simp add: lace.worklist_trancl)
qed

lemma precedes_iff:
  "precedes bl a b \<longleftrightarrow> (\<exists>r. resolve_identity bl a = Some r \<and> (b, r) \<in> (points bl)\<^sup>+)"
proof -
  have "list_ex (\<lambda>blk. identity blk = r) (ancestors bl b) \<longleftrightarrow> r \<in> identity ` set (ancestors bl b)" for r
    by (auto simp: list_ex_iff)
  then show ?thesis by (simp add: precedes_def identity_ancestors split: option.split)
qed

lemma preceedes_or_equals_iff:
  "preceedes_or_equals bl a b \<longleftrightarrow>
     (\<exists>r s. resolve_identity bl a = Some r \<and> resolve_identity bl b = Some s \<and> (s, r) \<in> (points bl)\<^sup>*)"
  by (auto simp: preceedes_or_equals_def precedes_iff rtrancl_eq_or_trancl resolve_resolved
      split: option.splits)

lemma observe_iff:
  "r \<in> set (observe bl b) \<longleftrightarrow> (\<exists>s. resolve_identity bl b = Some s \<and> (s, r) \<in> (points bl)\<^sup>*)"
  by (simp add: set_observe split: option.split)

section \<open>Admission keeps the graph acyclic and verified\<close>

lemma content_of_Some:
  assumes "wf_lace bl"
  shows "content_of bl j = Some c \<longleftrightarrow>
    (\<exists>r. resolve_identity bl j = Some r \<and> (r, c) \<in> set (blocks bl))"
  by (simp add: content_of_def map_of_stored [OF assms] split: option.split)

lemma expand_iff:
  assumes "wf_lace bl"
  shows "(j, p) \<in> points bl \<longleftrightarrow> \<not> is_checkpoint_boundary bl j \<and>
    (\<exists>r c q. resolve_identity bl j = Some r \<and> (r, c) \<in> set (blocks bl) \<and>
       q \<in> set (predecessors c) \<and> resolve_identity bl q = Some p)"
proof -
  have "(j, p) \<in> points bl \<longleftrightarrow> \<not> is_checkpoint_boundary bl j \<and>
      (\<exists>c. content_of bl j = Some c \<and> (\<exists>q \<in> set (predecessors c). resolve_identity bl q = Some p))"
    by (cases "content_of bl j") (auto simp: points_def expand_preds_def)
  then show ?thesis unfolding content_of_Some [OF assms] by blast
qed

lemma points_stored_iff:
  assumes "wf_lace bl" "j \<in> set (block_ids bl)"
  shows "(j, p) \<in> points bl \<longleftrightarrow> \<not> is_checkpoint_boundary bl j \<and>
    (\<exists>c q. (j, c) \<in> set (blocks bl) \<and> q \<in> set (predecessors c) \<and> resolve_identity bl q = Some p)"
  unfolding expand_iff [OF assms(1)] resolve_stored [OF assms(2)] by blast

definition stored_points :: "blocklace \<Rightarrow> (block_identity \<times> block_identity) set" where
  "stored_points bl = {(j, p) \<in> points bl. j \<in> set (block_ids bl)}"

lemma stored_points_iff:
  "(j, p) \<in> stored_points bl \<longleftrightarrow> (j, p) \<in> points bl \<and> j \<in> set (block_ids bl)"
  by (simp add: stored_points_def)

lemma stored_pointsI:
  assumes "wf_lace bl" "(j, c) \<in> set (blocks bl)" "\<not> is_checkpoint_boundary bl j"
    "q \<in> set (predecessors c)" "resolve_identity bl q = Some p"
  shows "(j, p) \<in> stored_points bl"
proof -
  have "j \<in> set (block_ids bl)" using assms(2) by force
  then show ?thesis
    unfolding stored_points_iff using points_stored_iff [OF assms(1)] assms(2-) by blast
qed

lemma acyclic_lace_iff: "acyclic_lace bl \<longleftrightarrow> acyclic (stored_points bl)"
proof
  assume "acyclic_lace bl"
  then show "acyclic (stored_points bl)"
    unfolding acyclic_lace_def by (rule acyclic_subset) (auto simp: stored_points_def)
next
  assume "acyclic (stored_points bl)"
  then show "acyclic_lace bl"
    unfolding acyclic_lace_def
    by (rule acyclic_range_restrict) (auto simp: stored_points_iff simp del: set_map intro: points_stored)
qed

lemma stored_points_insert:
  assumes wf: "wf_lace bl" and closed: "is_closed bl" and ins: "insert_block bl b verify = Inr bl'"
    and old: "identity b \<in> set (block_ids bl) \<Longrightarrow> (identity b, c0) \<in> set (blocks bl) \<and>
      consensus_identity ` set (predecessors c0) = consensus_identity ` set (predecessors (content b))"
  shows "stored_points bl' \<subseteq> stored_points bl \<union>
    (if identity b \<in> set (block_ids bl) then {} else {identity b} \<times> set (block_ids bl))"
proof (intro subrelI)
  fix j p assume jp: "(j, p) \<in> stored_points bl'"
  note d = insert_InrD [OF ins] and wf' = wf_commit [OF wf insert_InrD(3) [OF ins]]
  have nb: "\<not> is_checkpoint_boundary bl j"
    using jp expand_iff [OF wf', of j p] commit_InrD(3) [OF d(3)]
    by (simp add: stored_points_iff is_checkpoint_boundary_def)
  obtain c q where c: "(j, c) \<in> set (blocks bl')" "q \<in> set (predecessors c)"
    "resolve_identity bl' q = Some p"
    using jp points_stored_iff [OF wf', of j p] unfolding stored_points_iff by blast
  have resolved: "resolve_identity bl q = Some p" if "resolve_identity bl q \<noteq> None"
    using that c(3) resolve_commit_mono [OF wf d(3), of q] by fastforce
  show "(j, p) \<in> stored_points bl \<union>
    (if identity b \<in> set (block_ids bl) then {} else {identity b} \<times> set (block_ids bl))"
  proof (cases "j = identity b")
    case False
    then have jc: "(j, c) \<in> set (blocks bl)" using c(1) stored_commit [OF wf d(3)] by simp
    then have "resolve_identity bl q \<noteq> None" using closed nb c(2) by (auto simp: is_closed_def)
    then have "(j, p) \<in> stored_points bl"
      using stored_pointsI [OF wf jc nb c(2)] resolved by simp
    then show ?thesis by simp
  next
    case True
    then have "c = content b" using c(1) stored_commit [OF wf d(3)] by simp
    then have qp: "resolve_identity bl q = Some p" using c(2) d(2) resolved by blast
    show ?thesis
    proof (cases "j \<in> set (block_ids bl)")
      case False
      with True qp show ?thesis using resolve_SomeD(1) [OF qp] by simp
    next
      case stored: True
      obtain q0 where q0: "q0 \<in> set (predecessors c0)" "consensus_identity q0 = consensus_identity q"
        using old stored True c(2) \<open>c = content b\<close> by (metis imageE image_eqI)
      then have "resolve_identity bl q0 \<noteq> None"
        using closed nb old stored True by (auto simp: is_closed_def)
      then have "resolve_identity bl q0 = Some p"
        using resolve_consensus_unique [OF wf _ qp] q0(2) by fastforce
      then have "(j, p) \<in> stored_points bl"
        using stored_pointsI [OF wf _ nb q0(1)] old stored True by simp
      then show ?thesis by simp
    qed
  qed
qed

lemma verified_insert:
  assumes "wf_lace bl" "verified_lace verify bl" "insert_block bl b verify = Inr bl'"
  shows "verified_lace verify bl'"
  using assms(2) insert_InrD(1) [OF assms(3)] stored_commit [OF assms(1) insert_InrD(3) [OF assms(3)]]
  unfolding verified_lace_def by (metis (mono_tags, lifting) case_prodI2 case_prodD)

lemma acyclic_insert:
  assumes wf: "wf_lace bl" and "is_closed bl" and ver: "verified_lace verify bl"
    and bind: "signature_binding verify" and acyc: "acyclic_lace bl"
    and ins: "insert_block bl b verify = Inr bl'"
  shows "acyclic_lace bl'"
proof (cases "identity b \<in> set (block_ids bl)")
  case True
  then obtain c0 where c0: "(identity b, c0) \<in> set (blocks bl)" by auto
  then have "verify c0 (signature (identity b)) (creator (identity b)) = Inr ()"
    using ver by (auto simp: verified_lace_def)
  then have "consensus_identity ` set (predecessors c0) = consensus_identity ` set (predecessors (content b))"
    using bind insert_InrD(1) [OF ins] unfolding signature_binding_def by blast
  with c0 stored_points_insert [OF assms(1,2) ins, of c0] True
  have "stored_points bl' \<subseteq> stored_points bl" by simp
  with acyc show ?thesis unfolding acyclic_lace_iff by (rule acyclic_subset)
next
  case False
  with stored_points_insert [OF assms(1,2) ins]
  have "stored_points bl' \<subseteq> stored_points bl \<union> {identity b} \<times> set (block_ids bl)" by simp
  moreover have "identity b \<notin> Range (stored_points bl)"
    using False points_stored unfolding stored_points_def by blast
  ultimately show ?thesis
    unfolding acyclic_lace_iff
    by (rule acyclic_add_source [OF acyc [unfolded acyclic_lace_iff] _ False])
qed

section \<open>Virtual chains\<close>

lemma chain_pairs_iff:
  "chain_pairs bl bs \<longleftrightarrow> sorted_wrt (\<lambda>a b. precedes bl (identity a) (identity b) \<or>
     precedes bl (identity b) (identity a)) bs"
  by (induction bs) (auto simp: list_all_iff)

lemma identity_blocks_by: "map identity (blocks_by bl nd) = filter (\<lambda>i. creator i = nd) (block_ids bl)"
  by (simp add: blocks_by_def filter_map comp_def case_prod_unfold)

lemma set_identity_blocks_by:
  "identity ` set (blocks_by bl nd) = {i \<in> set (block_ids bl). creator i = nd}"
  using arg_cong [OF identity_blocks_by, of set] by simp

lemma precedes_stored:
  "a \<in> set (block_ids bl) \<Longrightarrow> precedes bl a b \<longleftrightarrow> (b, a) \<in> (points bl)\<^sup>+"
  by (simp add: precedes_iff del: set_map)

lemma chain_axiom_iff:
  assumes "wf_lace bl"
  shows "satisfies_chain_axiom bl nd \<longleftrightarrow>
    (\<forall>a \<in> set (block_ids bl). \<forall>b \<in> set (block_ids bl). creator a = nd \<longrightarrow> creator b = nd \<longrightarrow>
       a \<noteq> b \<longrightarrow> (a, b) \<in> (points bl)\<^sup>+ \<or> (b, a) \<in> (points bl)\<^sup>+)"
proof -
  let ?R = "\<lambda>a b. precedes bl a b \<or> precedes bl b a"
  let ?ks = "filter (\<lambda>i. creator i = nd) (block_ids bl)"
  have "satisfies_chain_axiom bl nd \<longleftrightarrow> sorted_wrt ?R (map identity (blocks_by bl nd))"
    by (simp add: satisfies_chain_axiom_def chain_pairs_iff sorted_wrt_map)
  also have "\<dots> \<longleftrightarrow> sorted_wrt ?R ?ks" unfolding identity_blocks_by ..
  also have "\<dots> \<longleftrightarrow> (\<forall>a \<in> set ?ks. \<forall>b \<in> set ?ks. a \<noteq> b \<longrightarrow> ?R a b)"
    by (rule sorted_wrt_symmetric_iff) (use assms in \<open>auto simp: wf_lace_def\<close>)
  finally show ?thesis by (auto simp: precedes_stored simp del: set_map)
qed

lemma tip_of_Some:
  assumes "tip_of bl nd = Some b"
  shows "identity b \<in> set (block_ids bl)" "creator (identity b) = nd"
    "\<And>x. x \<in> set (block_ids bl) \<Longrightarrow> creator x = nd \<Longrightarrow> (x, identity b) \<notin> (points bl)\<^sup>+ \<or> x = identity b"
proof -
  from assms have b: "b \<in> set (blocks_by bl nd)" and
    mx: "\<not> (\<exists>x \<in> set (blocks_by bl nd). identity x \<noteq> identity b \<and> precedes bl (identity b) (identity x))"
    by (auto simp: tip_of_def find_Some_iff list_ex_iff Let_def)
  have mem: "identity b \<in> {i \<in> set (block_ids bl). creator i = nd}"
    using b unfolding set_identity_blocks_by [symmetric] by (rule imageI)
  then show ids: "identity b \<in> set (block_ids bl)" "creator (identity b) = nd" by auto
  show "(x, identity b) \<notin> (points bl)\<^sup>+ \<or> x = identity b"
    if "x \<in> set (block_ids bl)" "creator x = nd" for x
  proof -
    have "x \<in> identity ` set (blocks_by bl nd)" using that by (simp add: set_identity_blocks_by del: set_map)
    then show ?thesis using mx precedes_stored [OF ids(1)] by auto
  qed
qed

lemma tip_of_exists:
  assumes "acyclic_lace bl" "i \<in> set (block_ids bl)" "creator i = nd"
  shows "tip_of bl nd \<noteq> None"
proof
  assume none: "tip_of bl nd = None"
  let ?A = "{i \<in> set (block_ids bl). creator i = nd}"
  have step: "\<exists>y \<in> ?A. (x, y) \<in> ((points bl)\<^sup>+)\<inverse>" if x: "x \<in> ?A" for x
  proof -
    obtain b where b: "b \<in> set (blocks_by bl nd)" "identity b = x"
      using x unfolding set_identity_blocks_by [symmetric] by auto
    then obtain o' where o': "o' \<in> set (blocks_by bl nd)" "precedes bl x (identity o')"
      using none by (auto simp: tip_of_def find_None_iff list_ex_iff Let_def)
    have "identity o' \<in> ?A" using o'(1) unfolding set_identity_blocks_by [symmetric] by (rule imageI)
    with o'(2) x show ?thesis by (auto simp: precedes_stored simp del: set_map)
  qed
  show False
    by (rule finite_no_ascent [of ?A i "((points bl)\<^sup>+)\<inverse>"])
      (use assms step in \<open>auto simp: acyclic_lace_def acyclic_converse acyclic_def simp del: set_map\<close>)
qed

end
