(* ===== verification/Ancestor_Index.thy ===== *)
theory Ancestor_Index
  imports Blocklace
begin

text \<open>
  The ancestor index of \<open>ancestor_index.rs\<close> over a blocklace: positions, unique resolution of
  unsigned references, the closure matrix, the equivocating siblings of every block, and the
  generation-stamped slot of \<open>blocklace.rs\<close> that caches it.  The theory proves that approval
  read from the index is Definition 18, that the slot is never stale, and that the invariants of
  the store hold in every state the admission path and the queries can reach.
\<close>

section \<open>Definitions\<close>

definition enumerate_ids :: "block_identity list \<Rightarrow> (block_identity \<times> nat) list" where
  "enumerate_ids ks = zip ks [0..<length ks]"

definition by_unsigned ::
  "block_identity list \<Rightarrow> ((byte list \<times> node_id) \<times> nat option) list" where
  "by_unsigned ks = fold (\<lambda>(k, i) m.
     (case map_of m (content_hash k, creator k) of
        Some _ \<Rightarrow> AList.update (content_hash k, creator k) None m
      | None \<Rightarrow> AList.update (content_hash k, creator k) (Some i) m)) (enumerate_ids ks) []"

definition resolve_position :: "block_identity list \<Rightarrow> block_identity \<Rightarrow> nat option" where
  "resolve_position ks reference =
     (case map_of (enumerate_ids ks) reference of
        Some i \<Rightarrow> Some i
      | None \<Rightarrow>
          if signature reference \<noteq> [] then None
          else case map_of (by_unsigned ks) (content_hash reference, creator reference) of
                 None \<Rightarrow> None
               | Some slot \<Rightarrow> slot)"

definition by_creator :: "block_identity list \<Rightarrow> (node_id \<times> nat list) list" where
  "by_creator ks = fold (\<lambda>(k, i) m.
     AList.update (creator k)
       ((case map_of m (creator k) of None \<Rightarrow> [] | Some is \<Rightarrow> is) @ [i]) m) (enumerate_ids ks) []"

definition index_preds :: "blocklace \<Rightarrow> nat list list" where
  "index_preds bl =
     map (\<lambda>(i, c). List.map_filter (resolve_position (block_ids bl)) (predecessors c)) (blocks bl)"

definition index_stop :: "blocklace \<Rightarrow> bool list" where
  "index_stop bl = map (is_checkpoint_boundary bl) (block_ids bl)"

definition creator_conflicts :: "closure \<Rightarrow> nat list \<Rightarrow> (nat \<times> nat list) list" where
  "creator_conflicts c members =
     (if 1 < length members \<and> \<not> is_chain c members
      then incomparable_pairs c (sort_members c members) else [])"

definition build_index :: "blocklace \<Rightarrow> ancestor_index" where
  "build_index bl =
     (let ks = block_ids bl;
          c = build_closure (index_preds bl) (index_stop bl)
      in \<lparr>idx_generation = generation bl, pos = enumerate_ids ks, idx_closure = c,
          conflicts = fold (\<lambda>(a, cs) m. AList.update a cs m)
            (concat (map (\<lambda>(nd, members). creator_conflicts c members) (by_creator ks))) []\<rparr>)"

definition index_of :: "ancestor_index \<Rightarrow> block_identity \<Rightarrow> nat option" where
  "index_of ix i = map_of (pos ix) i"

definition index_approves :: "ancestor_index \<Rightarrow> nat \<Rightarrow> nat \<Rightarrow> bool" where
  "index_approves ix observer target =
     (if \<not> observes (idx_closure ix) observer target then False
      else case map_of (conflicts ix) target of
             None \<Rightarrow> True
           | Some siblings \<Rightarrow> \<not> list_ex (observes (idx_closure ix) observer) siblings)"

text \<open>
  The cached index: the slot is served when its stamp is the store's generation, else the index
  is built and stored.  The second component is the store with its slot filled.
\<close>

definition ancestor_index :: "blocklace \<Rightarrow> ancestor_index \<times> blocklace" where
  "ancestor_index bl =
     (case index_slot bl of
        Some ix \<Rightarrow>
          if idx_generation ix = generation bl then (ix, bl)
          else let ix' = build_index bl in (ix', bl\<lparr>index_slot := Some ix'\<rparr>)
      | None \<Rightarrow> let ix' = build_index bl in (ix', bl\<lparr>index_slot := Some ix'\<rparr>))"

section \<open>Positions\<close>

lemma enumerate_ids_snoc: "enumerate_ids (ks @ [k]) = enumerate_ids ks @ [(k, length ks)]"
  by (simp add: enumerate_ids_def)

lemma position_iff:
  "distinct ks \<Longrightarrow> map_of (enumerate_ids ks) k = Some i \<longleftrightarrow> i < length ks \<and> ks ! i = k"
  by (auto simp: enumerate_ids_def map_of_eq_Some_iff in_set_zip)

lemma position_None: "map_of (enumerate_ids ks) k = None \<longleftrightarrow> k \<notin> set ks"
  using set_map [of fst "enumerate_ids ks"] by (simp add: enumerate_ids_def map_of_eq_None_iff del: set_map)

lemma filter_positions_snoc:
  "filter (\<lambda>i. P ((ks @ [k]) ! i)) [0..<length (ks @ [k])] =
     filter (\<lambda>i. P (ks ! i)) [0..<length ks] @ (if P k then [length ks] else [])"
proof -
  have "filter (\<lambda>i. P ((ks @ [k]) ! i)) [0..<length ks] = filter (\<lambda>i. P (ks ! i)) [0..<length ks]"
    by (rule filter_cong) (auto simp: nth_append)
  then show ?thesis by simp
qed

lemma map_of_by_unsigned:
  "map_of (by_unsigned ks) h =
     (case filter (\<lambda>i. (content_hash (ks ! i), creator (ks ! i)) = h) [0..<length ks] of
        [] \<Rightarrow> None
      | i # rest \<Rightarrow> Some (if rest = [] then Some i else None))"
proof (induction ks rule: rev_induct)
  case Nil
  then show ?case by (simp add: by_unsigned_def enumerate_ids_def)
next
  case (snoc k ks)
  have "by_unsigned (ks @ [k]) =
    (case map_of (by_unsigned ks) (content_hash k, creator k) of
        Some _ \<Rightarrow> AList.update (content_hash k, creator k) None (by_unsigned ks)
      | None \<Rightarrow> AList.update (content_hash k, creator k) (Some (length ks)) (by_unsigned ks))"
    unfolding by_unsigned_def enumerate_ids_snoc by simp
  then show ?case
    unfolding filter_positions_snoc [of "\<lambda>x. (content_hash x, creator x) = h"]
    using snoc by (auto simp: update_conv' split: option.splits list.splits)
qed

lemma map_of_by_creator:
  "map_of (by_creator ks) nd =
     (case filter (\<lambda>i. creator (ks ! i) = nd) [0..<length ks] of [] \<Rightarrow> None | is \<Rightarrow> Some is)"
proof (induction ks rule: rev_induct)
  case Nil
  then show ?case by (simp add: by_creator_def enumerate_ids_def)
next
  case (snoc k ks)
  have "by_creator (ks @ [k]) = AList.update (creator k)
     ((case map_of (by_creator ks) (creator k) of None \<Rightarrow> [] | Some is \<Rightarrow> is) @ [length ks]) (by_creator ks)"
    unfolding by_creator_def enumerate_ids_snoc by simp
  then show ?case
    unfolding filter_positions_snoc [of "\<lambda>x. creator x = nd"]
    using snoc by (auto simp: update_conv' split: option.splits list.splits)
qed

lemma distinct_by_creator: "distinct (map fst (by_creator ks))"
proof (induction ks rule: rev_induct)
  case Nil
  then show ?case by (simp add: by_creator_def enumerate_ids_def)
next
  case (snoc k ks)
  then show ?case by (simp add: by_creator_def enumerate_ids_snoc distinct_update)
qed

lemma mem_by_creator:
  "(nd, ms) \<in> set (by_creator ks) \<longleftrightarrow>
     ms = filter (\<lambda>i. creator (ks ! i) = nd) [0..<length ks] \<and> ms \<noteq> []"
  using map_of_eq_Some_iff [OF distinct_by_creator, of ks nd ms]
  by (auto simp: map_of_by_creator split: list.splits)

lemma resolve_position_iff:
  assumes "distinct (block_ids bl)"
  shows "resolve_position (block_ids bl) r = Some i \<longleftrightarrow>
    i < length (blocks bl) \<and> resolve_identity bl r = Some (block_ids bl ! i)"
proof (cases "r \<in> set (block_ids bl)")
  case True
  then obtain j where j: "map_of (enumerate_ids (block_ids bl)) r = Some j"
    using position_None [of "block_ids bl" r] by blast
  then have "resolve_position (block_ids bl) r = Some i \<longleftrightarrow> map_of (enumerate_ids (block_ids bl)) r = Some i"
    by (simp add: resolve_position_def)
  also have "\<dots> \<longleftrightarrow> i < length (block_ids bl) \<and> block_ids bl ! i = r" by (rule position_iff [OF assms])
  finally show ?thesis using resolve_stored [OF True] by (auto simp: eq_commute)
next
  case False
  let ?P = "\<lambda>c. content_hash c = content_hash r \<and> creator c = creator r"
  let ?m = "filter (\<lambda>i. ?P (block_ids bl ! i)) [0..<length (block_ids bl)]"
  have pos: "resolve_position (block_ids bl) r =
    (if signature r \<noteq> [] then None else case ?m of [] \<Rightarrow> None | i # rest \<Rightarrow> if rest = [] then Some i else None)"
    using False position_None [of "block_ids bl" r] map_of_by_unsigned [of "block_ids bl" "(content_hash r, creator r)"]
    by (simp add: resolve_position_def del: set_map split: list.split)
  have "(case ?m of [] \<Rightarrow> None | i # rest \<Rightarrow> if rest = [] then Some i else None) = Some i \<longleftrightarrow> ?m = [i]"
    by (simp split: list.split)
  moreover have "?m = [i] \<longleftrightarrow> i < length (blocks bl) \<and> filter ?P (block_ids bl) = [block_ids bl ! i]"
  proof
    assume m: "?m = [i]"
    from arg_cong [OF m, of set] have "i < length (blocks bl)" by auto
    with m show "i < length (blocks bl) \<and> filter ?P (block_ids bl) = [block_ids bl ! i]"
      using filter_via_positions [of ?P "block_ids bl"] by simp
  next
    assume f: "i < length (blocks bl) \<and> filter ?P (block_ids bl) = [block_ids bl ! i]"
    then have "map ((!) (block_ids bl)) ?m = [block_ids bl ! i]"
      using filter_via_positions [of ?P "block_ids bl"] by argo
    then obtain j where j: "?m = [j]" "block_ids bl ! j = block_ids bl ! i" by auto
    from arg_cong [OF j(1), of set] have "j < length (block_ids bl)" by auto
    with j f assms have "j = i" using nth_eq_iff_index_eq [OF assms, of j i] by simp
    with j show "?m = [i]" by simp
  qed
  ultimately show ?thesis
    unfolding pos resolve_Some_cases using False by (auto simp del: set_map)
qed

section \<open>The index is the observation relation\<close>

abbreviation index_edges :: "blocklace \<Rightarrow> (nat \<times> nat) set" where
  "index_edges bl \<equiv> child_edges (index_preds bl) (index_stop bl)"

lemma length_index [simp]: "length (index_preds bl) = length (blocks bl)"
  "length (index_stop bl) = length (blocks bl)"
  by (simp_all add: index_preds_def index_stop_def)

lemma index_edges_iff:
  assumes "wf_lace bl"
  shows "(i, j) \<in> index_edges bl \<longleftrightarrow>
    i < length (blocks bl) \<and> j < length (blocks bl) \<and> (block_ids bl ! i, block_ids bl ! j) \<in> points bl"
proof (cases "i < length (blocks bl)")
  case True
  obtain k c where b: "blocks bl ! i = (k, c)" by fastforce
  have mem: "(k, c) \<in> set (blocks bl)" using nth_mem [OF True] b by simp
  have uniq: "(k, d) \<in> set (blocks bl) \<longleftrightarrow> d = c" for d
    using assms mem map_of_stored [OF assms, of k] by (metis option.inject)
  have k: "block_ids bl ! i = k" using True b by simp
  have "k \<in> set (block_ids bl)" using True k nth_mem [of i "block_ids bl"] by simp
  note pts = points_stored_iff [OF assms this, unfolded uniq]
  have "set (children (index_preds bl) (index_stop bl) i) =
    (if is_checkpoint_boundary bl k then {}
     else {j. \<exists>q \<in> set (predecessors c). resolve_position (block_ids bl) q = Some j})"
    using True b by (simp add: children_def index_preds_def index_stop_def)
  moreover have "distinct (block_ids bl)" using assms by (simp add: wf_lace_def)
  ultimately show ?thesis
    unfolding child_edges_def k pts using True resolve_position_iff [of bl] by auto
qed (simp add: child_edges_def)

lemma inj_positions: "wf_lace bl \<Longrightarrow> inj_on ((!) (block_ids bl)) {..<length (blocks bl)}"
  by (rule inj_on_nth) (auto simp: wf_lace_def)

lemma index_paths:
  assumes "wf_lace bl" "i < length (blocks bl)" "j < length (blocks bl)"
  shows "(i, j) \<in> (index_edges bl)\<^sup>* \<longleftrightarrow> (block_ids bl ! i, block_ids bl ! j) \<in> (points bl)\<^sup>*"
proof (rule rtrancl_positions [OF index_edges_iff [OF assms(1)] inj_positions [OF assms(1)] _ assms(2,3)])
  fix x y assume "(x, y) \<in> points bl"
  then have "y \<in> set (block_ids bl)" by (rule points_stored)
  then show "y \<in> (!) (block_ids bl) ` {..<length (blocks bl)}" by (metis imageI in_set_conv_nth length_map lessThan_iff)
qed

lemma index_graph_ok:
  assumes "wf_lace bl" "acyclic_lace bl"
  shows "graph_ok (index_preds bl) (index_stop bl)"
proof -
  have "j < length (blocks bl)" if "i < length (blocks bl)" "j \<in> set (index_preds bl ! i)" for i j
    using that assms(1) resolve_position_iff [of bl] by (auto simp: index_preds_def wf_lace_def split_beta)
  moreover have "acyclic (index_edges bl)"
    by (rule acyclic_positions [of "points bl" _ "(!) (block_ids bl)"])
      (use assms in \<open>auto simp: acyclic_lace_def index_edges_iff\<close>)
  ultimately show ?thesis by (auto simp: graph_ok_def)
qed

lemma index_observes:
  assumes "wf_lace bl" "acyclic_lace bl" "i < length (blocks bl)" "j < length (blocks bl)"
  shows "observes (idx_closure (build_index bl)) i j \<longleftrightarrow>
    (block_ids bl ! i, block_ids bl ! j) \<in> (points bl)\<^sup>*"
proof -
  note rows = build_closure_rows [OF index_graph_ok [OF assms(1,2)]]
  have "observes (idx_closure (build_index bl)) i j \<longleftrightarrow> (i, j) \<in> (index_edges bl)\<^sup>*"
    using rows(2,3) assms(3,4) by (simp add: build_index_def Let_def)
  then show ?thesis using index_paths assms by simp
qed

section \<open>Approval from the index is Definition 18\<close>

text \<open>
  The specification: \<open>s\<close> is an equivocating sibling of \<open>t\<close> when both are stored blocks of
  one creator and neither observes the other; a stored block approves \<open>t\<close> when it observes
  \<open>t\<close> and none of its equivocating siblings.
\<close>

definition incomparable :: "blocklace \<Rightarrow> block_identity \<Rightarrow> block_identity \<Rightarrow> bool" where
  "incomparable bl s t \<longleftrightarrow> (s, t) \<notin> (points bl)\<^sup>* \<and> (t, s) \<notin> (points bl)\<^sup>*"

definition equivocating_sibling :: "blocklace \<Rightarrow> block_identity \<Rightarrow> block_identity \<Rightarrow> bool" where
  "equivocating_sibling bl t s \<longleftrightarrow>
     s \<in> set (block_ids bl) \<and> creator s = creator t \<and> s \<noteq> t \<and> incomparable bl s t"

definition approves_spec :: "blocklace \<Rightarrow> block_identity \<Rightarrow> block_identity \<Rightarrow> bool" where
  "approves_spec bl a t \<longleftrightarrow> t \<in> set (observe bl a) \<and>
     \<not> (\<exists>s. equivocating_sibling bl t s \<and> s \<in> set (observe bl a))"

lemma incomparable_sym: "incomparable bl s t \<longleftrightarrow> incomparable bl t s"
  by (auto simp: incomparable_def)

lemma not_incomparable_refl [simp]: "\<not> incomparable bl s s"
  by (simp add: incomparable_def)

abbreviation same_creator_positions :: "blocklace \<Rightarrow> nat \<Rightarrow> nat list" where
  "same_creator_positions bl t \<equiv>
     filter (\<lambda>i. creator (block_ids bl ! i) = creator (block_ids bl ! t)) [0..<length (blocks bl)]"

definition rivals :: "closure \<Rightarrow> nat list \<Rightarrow> nat \<Rightarrow> nat list" where
  "rivals c members a =
     filter (\<lambda>b. b \<noteq> a \<and> \<not> observes c a b \<and> \<not> observes c b a) (sort_members c members)"

lemma set_creator_conflicts:
  assumes "graph_ok preds stop" "c = build_closure preds stop" "set members \<subseteq> {..<length preds}"
    "distinct members"
  shows "set (creator_conflicts c members) =
    {(a, rivals c members a) | a. a \<in> set members \<and> rivals c members a \<noteq> []}"
proof (cases "1 < length members \<and> \<not> is_chain c members")
  case True
  then show ?thesis by (auto simp: creator_conflicts_def incomparable_pairs_def rivals_def)
next
  case False
  have "rivals c members a = []" if a: "a \<in> set members" for a
  proof (cases "is_chain c members")
    case True
    then show ?thesis
      using is_chain_iff [OF assms(1,3)] a assms(2) by (auto simp: rivals_def filter_empty_conv)
  next
    case not_chain: False
    with False have "length members \<le> 1" by simp
    then obtain x where "set members \<subseteq> {x}" by (cases members) auto
    with a show ?thesis by (auto simp: rivals_def filter_empty_conv)
  qed
  moreover have "creator_conflicts c members = []"
    unfolding creator_conflicts_def using False by (rule if_not_P)
  ultimately show ?thesis by auto
qed

lemma map_of_conflicts:
  assumes "wf_lace bl" "acyclic_lace bl" "t < length (blocks bl)"
  defines "c \<equiv> idx_closure (build_index bl)"
  defines "rs \<equiv> rivals c (same_creator_positions bl t) t"
  shows "map_of (conflicts (build_index bl)) t = (if rs = [] then None else Some rs)"
proof -
  let ?all = "concat (map (\<lambda>(nd, members). creator_conflicts c members) (by_creator (block_ids bl)))"
  let ?F = "\<lambda>a. rivals c (same_creator_positions bl a) a"
  have c: "c = build_closure (index_preds bl) (index_stop bl)"
    by (simp add: c_def build_index_def Let_def)
  have cc: "set (creator_conflicts c ms) = {(a, rivals c ms a) | a. a \<in> set ms \<and> rivals c ms a \<noteq> []}"
    if "(nd, ms) \<in> set (by_creator (block_ids bl))" for nd ms
    using that
    by (intro set_creator_conflicts [OF index_graph_ok [OF assms(1,2)] c]) (auto simp: mem_by_creator)
  have grp: "(nd, ms) \<in> set (by_creator (block_ids bl)) \<Longrightarrow> a \<in> set ms \<Longrightarrow> ms = same_creator_positions bl a"
    for nd ms a by (auto simp: mem_by_creator)
  have own: "(creator (block_ids bl ! a), same_creator_positions bl a) \<in> set (by_creator (block_ids bl))"
    if "a < length (blocks bl)" for a
    using that by (auto simp: mem_by_creator filter_empty_conv)
  have all: "set ?all = {(a, ?F a) | a. a < length (blocks bl) \<and> ?F a \<noteq> []}"
  proof (intro set_eqI iffI)
    fix e assume "e \<in> set ?all"
    then obtain nd ms where g: "(nd, ms) \<in> set (by_creator (block_ids bl))"
      and e: "e \<in> set (creator_conflicts c ms)" by auto
    from e obtain a where a: "e = (a, rivals c ms a)" "a \<in> set ms" "rivals c ms a \<noteq> []"
      unfolding cc [OF g] by blast
    have ms: "ms = same_creator_positions bl a" by (rule grp [OF g a(2)])
    have "a < length (blocks bl)" using a(2) unfolding ms by simp
    then show "e \<in> {(a, ?F a) | a. a < length (blocks bl) \<and> ?F a \<noteq> []}" using a ms by blast
  next
    fix e assume "e \<in> {(a, ?F a) | a. a < length (blocks bl) \<and> ?F a \<noteq> []}"
    then obtain a where a: "e = (a, ?F a)" "a < length (blocks bl)" "?F a \<noteq> []" by blast
    have "e \<in> set (creator_conflicts c (same_creator_positions bl a))"
      unfolding cc [OF own [OF a(2)]] using a by auto
    then show "e \<in> set ?all" using own [OF a(2)] by force
  qed
  have "map_of (conflicts (build_index bl)) t = (if t \<in> fst ` set ?all then Some (?F t) else map_of [] t)"
    unfolding build_index_def Let_def ancestor_index.simps c [symmetric]
  proof (rule map_of_fold_update)
    fix k v assume "(k, v) \<in> set ?all"
    then show "v = ?F k" unfolding all by blast
  qed
  also have "t \<in> fst ` set ?all \<longleftrightarrow> rs \<noteq> []" unfolding all rs_def using assms(3) by force
  finally show ?thesis by (simp add: rs_def)
qed

lemma index_approves_iff:
  assumes "wf_lace bl" "acyclic_lace bl" "i < length (blocks bl)" "t < length (blocks bl)"
  shows "index_approves (build_index bl) i t \<longleftrightarrow> approves_spec bl (block_ids bl ! i) (block_ids bl ! t)"
proof -
  let ?c = "idx_closure (build_index bl)" and ?ids = "block_ids bl"
  let ?rs = "rivals ?c (same_creator_positions bl t) t"
  have stored: "j < length (blocks bl) \<Longrightarrow> ?ids ! j \<in> set ?ids" for j
    using nth_mem [of j ?ids] by simp
  have obs: "?ids ! j \<in> set (observe bl (?ids ! i)) \<longleftrightarrow> observes ?c i j" if "j < length (blocks bl)" for j
    using that assms index_observes observe_iff resolve_stored [OF stored [OF assms(3)]] by simp
  have neq: "?ids ! j = ?ids ! t \<longleftrightarrow> j = t" if "j < length (blocks bl)" for j
    using inj_onD [OF inj_positions [OF assms(1)], of j t] that assms(4) by auto
  have rs: "set ?rs = {j. j < length (blocks bl) \<and> equivocating_sibling bl (?ids ! t) (?ids ! j)}"
    using assms stored neq index_observes [OF assms(1,2)]
    by (auto simp: rivals_def equivocating_sibling_def incomparable_def simp del: set_map nth_map)
  have "(\<exists>s. equivocating_sibling bl (?ids ! t) s \<and> s \<in> set (observe bl (?ids ! i))) \<longleftrightarrow>
      (\<exists>j < length (blocks bl). equivocating_sibling bl (?ids ! t) (?ids ! j) \<and> ?ids ! j \<in> set (observe bl (?ids ! i)))"
    by (metis equivocating_sibling_def in_set_conv_nth length_map)
  also have "\<dots> \<longleftrightarrow> (\<exists>j \<in> set ?rs. observes ?c i j)" unfolding rs using obs by blast
  finally show ?thesis
    unfolding approves_spec_def index_approves_def map_of_conflicts [OF assms(1,2,4)] obs [OF assms(4)]
    by (auto simp: list_ex_iff)
qed

section \<open>The cached slot\<close>

text \<open>
  Every mutation bumps the generation, so a slot whose stamp is the current generation holds the
  index of the current contents; stamps never run ahead of the counter.
\<close>

definition slot_ok :: "blocklace \<Rightarrow> bool" where
  "slot_ok bl \<longleftrightarrow> (case index_slot bl of None \<Rightarrow> True
     | Some ix \<Rightarrow> idx_generation ix \<le> generation bl \<and>
         (idx_generation ix = generation bl \<longrightarrow> ix = build_index bl))"

lemma slot_irrelevant [simp]:
  "is_checkpoint_boundary (bl\<lparr>index_slot := s\<rparr>) = is_checkpoint_boundary bl"
  "resolve_identity (bl\<lparr>index_slot := s\<rparr>) = resolve_identity bl"
  "wf_lace (bl\<lparr>index_slot := s\<rparr>) \<longleftrightarrow> wf_lace bl"
  "is_closed (bl\<lparr>index_slot := s\<rparr>) \<longleftrightarrow> is_closed bl"
  "verified_lace verify (bl\<lparr>index_slot := s\<rparr>) \<longleftrightarrow> verified_lace verify bl"
  by (auto simp: fun_eq_iff is_checkpoint_boundary_def resolve_identity_def wf_lace_def is_closed_def
      verified_lace_def)

lemma content_of_slot [simp]: "content_of (bl\<lparr>index_slot := s\<rparr>) = content_of bl"
  by (auto simp: content_of_def fun_eq_iff split: option.split)

lemma points_slot [simp]: "points (bl\<lparr>index_slot := s\<rparr>) = points bl"
  by (auto simp: points_def expand_preds_def split: option.splits)

lemma build_index_slot [simp]: "build_index (bl\<lparr>index_slot := s\<rparr>) = build_index bl"
  by (simp add: build_index_def index_preds_def index_stop_def)

lemma idx_generation_build [simp]: "idx_generation (build_index bl) = generation bl"
  by (simp add: build_index_def Let_def)

lemma ancestor_index_fst: "slot_ok bl \<Longrightarrow> fst (ancestor_index bl) = build_index bl"
  by (auto simp: ancestor_index_def slot_ok_def Let_def split: option.splits)

lemma ancestor_index_snd:
  "slot_ok bl \<Longrightarrow> snd (ancestor_index bl) = bl\<lparr>index_slot := Some (build_index bl)\<rparr>"
  by (auto simp: ancestor_index_def slot_ok_def Let_def split: option.splits)

lemma slot_ok_mutation:
  assumes "slot_ok bl" "index_slot bl' = index_slot bl" "generation bl' = generation bl + 1"
  shows "slot_ok bl'"
  using assms by (auto simp: slot_ok_def split: option.splits)

section \<open>Reachable stores\<close>

text \<open>
  The states of a store whose owner admits blocks with \<open>insert\<close> (which may fail and leave it
  unchanged) and answers queries through the cached index, in any order.
\<close>

inductive lace_reachable :: "'e block_verifier \<Rightarrow> blocklace \<Rightarrow> bool" for verify where
  fresh_lace: "lace_reachable verify (new_blocklace cid)"
| admit: "lace_reachable verify bl \<Longrightarrow> insert_block bl b verify = Inr bl' \<Longrightarrow> lace_reachable verify bl'"
| query: "lace_reachable verify bl \<Longrightarrow> lace_reachable verify (snd (ancestor_index bl))"

definition lace_inv :: "'e block_verifier \<Rightarrow> blocklace \<Rightarrow> bool" where
  "lace_inv verify bl \<longleftrightarrow> wf_lace bl \<and> is_closed bl \<and> verified_lace verify bl \<and> acyclic_lace bl \<and> slot_ok bl"

lemma lace_inv_new: "lace_inv verify (new_blocklace cid)"
proof -
  have "points (new_blocklace cid) = {}"
    by (auto simp: points_def new_blocklace_def expand_preds_def content_of_def resolve_identity_def
        resolve_identity_in_def split: if_splits)
  then show ?thesis
    by (simp add: lace_inv_def wf_lace_def is_closed_def verified_lace_def acyclic_lace_def slot_ok_def
        new_blocklace_def acyclic_def)
qed

lemma lace_inv_insert:
  assumes "signature_binding verify" "lace_inv verify bl" "insert_block bl b verify = Inr bl'"
  shows "lace_inv verify bl'"
proof -
  note c = insert_InrD(3) [OF assms(3)]
  from assms(2) have i: "wf_lace bl" "is_closed bl" "verified_lace verify bl" "acyclic_lace bl" "slot_ok bl"
    by (auto simp: lace_inv_def)
  show ?thesis
    unfolding lace_inv_def
    using wf_commit [OF i(1) c] insert_closed [OF i(1,2) assms(3)] verified_insert [OF i(1,3) assms(3)]
      acyclic_insert [OF i(1-3) assms(1) i(4) assms(3)] slot_ok_mutation [OF i(5) commit_InrD(6,5) [OF c]]
    by blast
qed

lemma lace_inv_query:
  assumes "lace_inv verify bl"
  shows "lace_inv verify (snd (ancestor_index bl))"
proof -
  have ok: "slot_ok bl" using assms by (simp add: lace_inv_def)
  show ?thesis
    using assms unfolding ancestor_index_snd [OF ok]
    by (simp add: lace_inv_def acyclic_lace_def slot_ok_def)
qed

lemma reachable_inv:
  "lace_reachable verify bl \<Longrightarrow> signature_binding verify \<Longrightarrow> lace_inv verify bl"
  by (induction rule: lace_reachable.induct) (auto intro: lace_inv_new lace_inv_insert lace_inv_query)

end
