(* ===== verification/Rounds.thy ===== *)
theory Rounds
  imports Ancestor_Index
begin

text \<open>
  Rounds (\<open>consensus/round.rs\<close>) and waves (\<open>consensus/wave.rs\<close>).  The recursion of
  \<open>depth_recursive\<close> follows predecessor links, so it carries fuel; \<open>depth_fuel\<close> is enough
  on every acyclic store, which is proved together with the meaning of the result: on a closed
  store the depth is the length of the longest path.  The cache is threaded explicitly.
\<close>

section \<open>Depth\<close>

type_synonym depth_cache = "(block_identity \<times> nat) list"

fun max_pred_depth ::
  "(block_identity \<Rightarrow> depth_cache \<Rightarrow> (nat option \<times> depth_cache) option) \<Rightarrow> block_identity list
     \<Rightarrow> nat \<Rightarrow> depth_cache \<Rightarrow> (nat option \<times> depth_cache) option" where
  "max_pred_depth run [] acc cache = Some (Some acc, cache)"
| "max_pred_depth run (p # ps) acc cache =
     (case run p cache of
        None \<Rightarrow> None
      | Some (None, cache') \<Rightarrow> Some (None, cache')
      | Some (Some d, cache') \<Rightarrow> max_pred_depth run ps (max acc d) cache')"

fun depth_recursive ::
  "nat \<Rightarrow> blocklace \<Rightarrow> block_identity \<Rightarrow> depth_cache \<Rightarrow> (nat option \<times> depth_cache) option" where
  "depth_recursive 0 bl i cache = None"
| "depth_recursive (Suc fuel) bl i cache =
     (case resolve_identity bl i of
        None \<Rightarrow> Some (None, cache)
      | Some r \<Rightarrow>
          (case map_of cache r of
             Some d \<Rightarrow> Some (Some d, cache)
           | None \<Rightarrow>
               if checkpoint bl = Some r then
                 (let d = (case checkpoint_depth bl of None \<Rightarrow> 0 | Some d \<Rightarrow> d)
                  in Some (Some d, AList.update r d cache))
               else
                 (case content_of bl r of
                    None \<Rightarrow> Some (None, cache)
                  | Some c \<Rightarrow>
                      if predecessors c = [] then Some (Some 0, AList.update r 0 cache)
                      else
                        (case max_pred_depth (depth_recursive fuel bl) (predecessors c) 0 cache of
                           None \<Rightarrow> None
                         | Some (None, cache') \<Rightarrow> Some (None, cache')
                         | Some (Some m, cache') \<Rightarrow> Some (Some (m + 1), AList.update r (m + 1) cache')))))"

definition depth_fuel :: "blocklace \<Rightarrow> nat" where
  "depth_fuel bl = length (blocks bl) + 2"

definition depth_cached :: "blocklace \<Rightarrow> block_identity \<Rightarrow> depth_cache \<Rightarrow> nat option \<times> depth_cache" where
  "depth_cached bl i cache =
     (case depth_recursive (depth_fuel bl) bl i cache of None \<Rightarrow> (None, cache) | Some r \<Rightarrow> r)"

definition depth :: "blocklace \<Rightarrow> block_identity \<Rightarrow> nat option" where
  "depth bl i = fst (depth_cached bl i [])"

fun collect_depths :: "blocklace \<Rightarrow> block_identity list \<Rightarrow> nat list option" where
  "collect_depths bl [] = Some []"
| "collect_depths bl (p # ps) =
     (case depth bl p of None \<Rightarrow> None | Some d \<Rightarrow> map_option ((#) d) (collect_depths bl ps))"

definition candidate_depth :: "blocklace \<Rightarrow> block_content \<Rightarrow> nat option" where
  "candidate_depth bl c =
     (if predecessors c = [] then Some 0
      else case collect_depths bl (predecessors c) of
             None \<Rightarrow> None
           | Some ds \<Rightarrow> (if ds = [] then None else checked_add 64 (Max (set ds)) 1))"

definition compute_all_depths :: "blocklace \<Rightarrow> depth_cache" where
  "compute_all_depths bl = fold (\<lambda>i cache. snd (depth_cached bl i cache)) (dom_lace bl) []"

definition blocks_where :: "blocklace \<Rightarrow> (nat \<Rightarrow> bool) \<Rightarrow> block list" where
  "blocks_where bl P = collect_blocks (List.map_filter (\<lambda>(i, dep). get_block bl i)
     (filter (\<lambda>(i, dep). P dep) (compute_all_depths bl)))"

definition blocks_at_depth :: "blocklace \<Rightarrow> nat \<Rightarrow> block list" where
  "blocks_at_depth bl d = blocks_where bl (\<lambda>dep. dep = d)"

definition depth_prefix :: "blocklace \<Rightarrow> nat \<Rightarrow> block list" where
  "depth_prefix bl d = blocks_where bl (\<lambda>dep. dep \<le> d)"

definition depth_suffix :: "blocklace \<Rightarrow> nat \<Rightarrow> block list" where
  "depth_suffix bl d = blocks_where bl (\<lambda>dep. dep > d)"

definition max_depth :: "blocklace \<Rightarrow> nat option" where
  "max_depth bl = (let ds = map snd (compute_all_depths bl) in
     if ds = [] then None else Some (Max (set ds)))"

definition is_round_cordial :: "blocklace \<Rightarrow> nat \<Rightarrow> nat \<Rightarrow> nat \<Rightarrow> bool" where
  "is_round_cordial bl r n f \<longleftrightarrow> 
     wrapping_mul 64 (length (remdups (map node (blocks_at_depth bl r)))) 2 > wrapping_add 64 n f"

definition latest_cordial_round :: "blocklace \<Rightarrow> nat \<Rightarrow> nat \<Rightarrow> nat option" where
  "latest_cordial_round bl n f =
     (case max_depth bl of None \<Rightarrow> None
      | Some max_d \<Rightarrow> List.find (\<lambda>d. is_round_cordial bl d n f) (rev [0..<max_d + 1]))"

section \<open>Waves\<close>

definition wave_of_round :: "nat \<Rightarrow> nat \<Rightarrow> nat option" where
  "wave_of_round r wavelength = (if wavelength = 0 then None else Some (r div wavelength))"

definition first_round_of_wave :: "nat \<Rightarrow> nat \<Rightarrow> nat option" where
  "first_round_of_wave wave wavelength =
     (if wavelength = 0 then None else checked_mul 64 wave wavelength)"

definition last_round_of_wave :: "nat \<Rightarrow> nat \<Rightarrow> nat option" where
  "last_round_of_wave wave wavelength =
     (case first_round_of_wave wave wavelength of None \<Rightarrow> None
      | Some first \<Rightarrow> checked_add 64 first (wavelength - 1))"

definition rounds_of_wave :: "nat \<Rightarrow> nat \<Rightarrow> nat list option" where
  "rounds_of_wave wave wavelength =
     (case first_round_of_wave wave wavelength of None \<Rightarrow> None
      | Some first \<Rightarrow>
          (case last_round_of_wave wave wavelength of None \<Rightarrow> None
           | Some final \<Rightarrow> Some [first..<final + 1]))"

definition is_first_round_of_wave :: "nat \<Rightarrow> nat \<Rightarrow> bool" where
  "is_first_round_of_wave r wavelength =
     (case wave_of_round r wavelength of
        Some wave \<Rightarrow> first_round_of_wave wave wavelength = Some r | None \<Rightarrow> False)"

definition round_is_in_wave :: "nat \<Rightarrow> nat \<Rightarrow> nat \<Rightarrow> bool" where
  "round_is_in_wave r wave wavelength \<longleftrightarrow> wave_of_round r wavelength = Some wave"

definition leader_round_of_wave :: "nat \<Rightarrow> nat \<Rightarrow> nat option" where
  "leader_round_of_wave wave wavelength = first_round_of_wave wave wavelength"

type_synonym leader_selection = "nat \<Rightarrow> node_id option"

definition leader_blocks_of_wave ::
  "blocklace \<Rightarrow> nat \<Rightarrow> nat \<Rightarrow> leader_selection \<Rightarrow> block list" where
  "leader_blocks_of_wave bl wave wavelength sel =
     (case sel wave of None \<Rightarrow> []
      | Some leader \<Rightarrow>
          (case leader_round_of_wave wave wavelength of None \<Rightarrow> []
           | Some r \<Rightarrow> filter (\<lambda>b. creator (identity b) = leader) (blocks_at_depth bl r)))"

section \<open>What depth means\<close>

text \<open>
  \<open>has_depth\<close> is the recursive specification: the checkpoint block has the recorded depth, an
  initial block depth 0, and every other block one more than the deepest of its predecessors, all
  of which must have a depth.
\<close>

inductive has_depth :: "blocklace \<Rightarrow> block_identity \<Rightarrow> nat \<Rightarrow> bool" for bl where
  at_checkpoint: "resolve_identity bl i = Some r \<Longrightarrow> checkpoint bl = Some r \<Longrightarrow>
     has_depth bl i (case checkpoint_depth bl of None \<Rightarrow> 0 | Some d \<Rightarrow> d)"
| at_initial: "resolve_identity bl i = Some r \<Longrightarrow> checkpoint bl \<noteq> Some r \<Longrightarrow>
     content_of bl r = Some c \<Longrightarrow> predecessors c = [] \<Longrightarrow> has_depth bl i 0"
| at_step: "resolve_identity bl i = Some r \<Longrightarrow> checkpoint bl \<noteq> Some r \<Longrightarrow>
     content_of bl r = Some c \<Longrightarrow> predecessors c \<noteq> [] \<Longrightarrow>
     (\<And>p. p \<in> set (predecessors c) \<Longrightarrow> has_depth bl p (f p)) \<Longrightarrow>
     has_depth bl i (Suc (Max (f ` set (predecessors c))))"

inductive_cases has_depthE: "has_depth bl i d"

lemma has_depth_unique: "has_depth bl i d \<Longrightarrow> has_depth bl i e \<Longrightarrow> d = e"
proof (induction arbitrary: e rule: has_depth.induct)
  case (at_checkpoint i r)
  from at_checkpoint(3) show ?case by (rule has_depthE) (use at_checkpoint in auto)
next
  case (at_initial i r c)
  from at_initial(5) show ?case by (rule has_depthE) (use at_initial in auto)
next
  case (at_step i r c f)
  note outer = at_step
  from at_step(7) show ?case
  proof cases
    case (at_step r' c' g)
    then have "c' = c" using outer by simp
    with at_step have "f p = g p" if "p \<in> set (predecessors c)" for p using that outer(6) by simp
    then have "f ` set (predecessors c) = g ` set (predecessors c)" by (rule image_cong [OF refl])
    with at_step \<open>c' = c\<close> show ?thesis by simp
  qed (use outer in auto)
qed

lemma has_depth_resolve:
  assumes "resolve_identity bl i = Some r"
  shows "has_depth bl i d \<longleftrightarrow> has_depth bl r d"
proof -
  have r: "resolve_identity bl r = Some r" by (rule resolve_resolved [OF assms])
  show ?thesis
    by (auto elim!: has_depthE simp: assms r
        intro: has_depth.at_checkpoint [OF assms] has_depth.at_checkpoint [OF r]
          has_depth.at_initial [OF assms] has_depth.at_initial [OF r]
          has_depth.at_step [OF assms] has_depth.at_step [OF r])
qed

section \<open>The memoised recursion computes the specification\<close>

definition cache_ok :: "blocklace \<Rightarrow> depth_cache \<Rightarrow> bool" where
  "cache_ok bl cache \<longleftrightarrow> distinct (map fst cache) \<and>
     (\<forall>(k, d) \<in> set cache. k \<in> set (block_ids bl) \<and> has_depth bl k d)"

text \<open>The contract of one call, out of fuel being a failure.\<close>

definition answers ::
  "blocklace \<Rightarrow> block_identity \<Rightarrow> depth_cache \<Rightarrow> (nat option \<times> depth_cache) option \<Rightarrow> bool" where
  "answers bl i cache out \<longleftrightarrow> (\<exists>res cache'. out = Some (res, cache') \<and> cache_ok bl cache' \<and>
     fst ` set cache \<subseteq> fst ` set cache' \<and> (\<forall>d. res = Some d \<longleftrightarrow> has_depth bl i d) \<and>
     (\<forall>d r. res = Some d \<longrightarrow> resolve_identity bl i = Some r \<longrightarrow> r \<in> fst ` set cache'))"

lemma answersI:
  assumes "cache_ok bl cache'" "fst ` set cache \<subseteq> fst ` set cache'"
    "\<And>d. res = Some d \<longleftrightarrow> has_depth bl i d"
    "\<And>d r. res = Some d \<Longrightarrow> resolve_identity bl i = Some r \<Longrightarrow> r \<in> fst ` set cache'"
  shows "answers bl i cache (Some (res, cache'))"
  using assms unfolding answers_def by blast

lemma has_depth_iff_eq: "has_depth bl i d \<Longrightarrow> Some d = Some e \<longleftrightarrow> has_depth bl i e"
  using has_depth_unique by blast

lemma cache_ok_update:
  assumes "cache_ok bl cache" "r \<in> set (block_ids bl)" "has_depth bl r d"
  shows "cache_ok bl (AList.update r d cache)"
  using assms by (auto simp: cache_ok_def distinct_update set_AList_update simp del: set_map)

lemma fst_set_update: "fst ` set (AList.update r d cache) = insert r (fst ` set cache)"
  using map_fst_AList_update [of r d cache] by (auto simp flip: set_map)

lemma answers_insert:
  assumes "cache_ok bl cache'" "fst ` set cache \<subseteq> fst ` set cache'" "resolve_identity bl i = Some r"
    "has_depth bl i d"
  shows "answers bl i cache (Some (Some d, AList.update r d cache'))"
proof (rule answersI)
  show "cache_ok bl (AList.update r d cache')"
    using assms has_depth_resolve [OF assms(3)] resolve_SomeD(1) [OF assms(3)] by (intro cache_ok_update) auto
qed (use assms has_depth_iff_eq in \<open>auto simp: fst_set_update\<close>)

lemma max_pred_depth_spec:
  assumes "\<And>p cache. p \<in> set ps \<Longrightarrow> cache_ok bl cache \<Longrightarrow> answers bl p cache (run p cache)"
    and "cache_ok bl cache"
  shows "\<exists>res cache'. max_pred_depth run ps acc cache = Some (res, cache') \<and> cache_ok bl cache' \<and>
    fst ` set cache \<subseteq> fst ` set cache' \<and>
    (case res of None \<Rightarrow> \<exists>p \<in> set ps. \<forall>d. \<not> has_depth bl p d
     | Some m \<Rightarrow> \<exists>f. (\<forall>p \<in> set ps. has_depth bl p (f p)) \<and> m = Max (insert acc (f ` set ps)))"
  using assms
proof (induction ps arbitrary: acc cache)
  case Nil
  then show ?case by auto
next
  case (Cons p ps)
  from Cons.prems have "answers bl p cache (run p cache)" by simp
  then obtain res c1 where r: "run p cache = Some (res, c1)" "cache_ok bl c1"
    "fst ` set cache \<subseteq> fst ` set c1" "\<forall>d. res = Some d \<longleftrightarrow> has_depth bl p d"
    unfolding answers_def by blast
  show ?case
  proof (cases res)
    case None
    with r show ?thesis by auto
  next
    case (Some d)
    have "\<exists>res cache'. max_pred_depth run ps (max acc d) c1 = Some (res, cache') \<and> cache_ok bl cache' \<and>
      fst ` set c1 \<subseteq> fst ` set cache' \<and>
      (case res of None \<Rightarrow> \<exists>p \<in> set ps. \<forall>d. \<not> has_depth bl p d
       | Some m \<Rightarrow> \<exists>f. (\<forall>p \<in> set ps. has_depth bl p (f p)) \<and> m = Max (insert (max acc d) (f ` set ps)))"
      by (rule Cons.IH) (use Cons.prems r in auto)
    then obtain res2 c2 where r2: "max_pred_depth run ps (max acc d) c1 = Some (res2, c2)" "cache_ok bl c2"
      "fst ` set c1 \<subseteq> fst ` set c2"
      "case res2 of None \<Rightarrow> \<exists>p \<in> set ps. \<forall>d. \<not> has_depth bl p d
       | Some m \<Rightarrow> \<exists>f. (\<forall>p \<in> set ps. has_depth bl p (f p)) \<and> m = Max (insert (max acc d) (f ` set ps))"
      by blast
    have "case res2 of None \<Rightarrow> \<exists>p \<in> set (p # ps). \<forall>d. \<not> has_depth bl p d
       | Some m \<Rightarrow> \<exists>f. (\<forall>q \<in> set (p # ps). has_depth bl q (f q)) \<and> m = Max (insert acc (f ` set (p # ps)))"
    proof (cases res2)
      case None
      with r2 show ?thesis by auto
    next
      case (Some m)
      with r2(4) obtain f where f: "\<forall>p \<in> set ps. has_depth bl p (f p)" "m = Max (insert (max acc d) (f ` set ps))"
        by auto
      have "f p = d" if "p \<in> set ps" using f(1) r(4) \<open>res = Some d\<close> that by auto
      then have img: "(f(p := d)) ` set (p # ps) = insert d (f ` set ps)" by auto
      have "Max (insert (max acc d) (f ` set ps)) = Max (insert acc (insert d (f ` set ps)))"
        by (cases "ps = []") (auto simp: Max_insert max.assoc)
      then have "m = Max (insert acc ((f(p := d)) ` set (p # ps)))" unfolding img f(2) .
      moreover have "has_depth bl p d" using r(4) \<open>res = Some d\<close> by blast
      then have "\<forall>q \<in> set (p # ps). has_depth bl q ((f(p := d)) q)" using f(1) by simp
      ultimately show ?thesis unfolding Some option.case by blast
    qed
    with r(1,3) r2(1-3) Some show ?thesis by auto
  qed
qed

text \<open>Every proper path from a block is shorter than the block's own set of descendants.\<close>

lemma finite_points_Image [simp]: "finite ((points bl)\<^sup>+ `` A)"
  by (rule finite_subset [of _ "set (block_ids bl)"]) (auto simp del: set_map dest: points_trancl_stored)

lemma card_points_less:
  assumes "acyclic_lace bl" "(r, q) \<in> points bl"
  shows "card ((points bl)\<^sup>+ `` {q}) < card ((points bl)\<^sup>+ `` {r})"
proof (rule psubset_card_mono)
  have "(points bl)\<^sup>+ `` {q} \<subseteq> (points bl)\<^sup>+ `` {r}"
    using assms(2) by (auto intro: trancl_into_trancl2)
  moreover have "q \<in> (points bl)\<^sup>+ `` {r}" "q \<notin> (points bl)\<^sup>+ `` {q}"
    using assms by (auto simp: acyclic_lace_def acyclic_def)
  ultimately show "(points bl)\<^sup>+ `` {q} \<subset> (points bl)\<^sup>+ `` {r}" by blast
qed simp

lemma content_of_stored:
  "r \<in> set (block_ids bl) \<Longrightarrow> \<exists>c. content_of bl r = Some c"
  using content_of_None_iff [of bl r] by (cases "content_of bl r") (auto simp del: set_map)

lemma points_of_content:
  assumes "r \<in> set (block_ids bl)" "checkpoint bl \<noteq> Some r" "content_of bl r = Some c"
    "p \<in> set (predecessors c)" "resolve_identity bl p = Some q"
  shows "(r, q) \<in> points bl"
  using assms by (auto simp: points_def expand_preds_def is_checkpoint_boundary_def)

definition fuel_enough :: "blocklace \<Rightarrow> block_identity \<Rightarrow> nat \<Rightarrow> bool" where
  "fuel_enough bl i fuel \<longleftrightarrow> (case resolve_identity bl i of None \<Rightarrow> 0 < fuel
     | Some r \<Rightarrow> card ((points bl)\<^sup>+ `` {r}) + 1 < fuel)"

lemma depth_recursive_spec:
  assumes "acyclic_lace bl"
  shows "cache_ok bl cache \<Longrightarrow> fuel_enough bl i fuel \<Longrightarrow>
    answers bl i cache (depth_recursive fuel bl i cache)"
proof (induction fuel arbitrary: i cache)
  case 0
  then show ?case by (simp add: fuel_enough_def split: option.splits)
next
  case (Suc fuel)
  show ?case
  proof (cases "resolve_identity bl i")
    case None
    with Suc.prems show ?thesis by (auto intro!: answersI elim: has_depthE)
  next
    case (Some r)
    note stored = resolve_SomeD(1) [OF Some]
    show ?thesis
    proof (cases "map_of cache r")
      case hit: (Some d)
      then have "has_depth bl i d" "r \<in> fst ` set cache"
        using Suc.prems(1) has_depth_resolve [OF Some] by (auto simp: cache_ok_def dest!: map_of_SomeD)
          (metis fst_conv image_eqI)
      moreover have "depth_recursive (Suc fuel) bl i cache = Some (Some d, cache)" using Some hit by simp
      ultimately show ?thesis
        using Suc.prems(1) Some has_depth_iff_eq by (simp only:) (rule answersI, simp_all)
    next
      case miss: None
      obtain c where c: "content_of bl r = Some c" using content_of_stored [OF stored] by blast
      consider "checkpoint bl = Some r" | "checkpoint bl \<noteq> Some r" "predecessors c = []"
        | "checkpoint bl \<noteq> Some r" "predecessors c \<noteq> []" by blast
      then show ?thesis
      proof cases
        case 1
        then show ?thesis
          using Some miss answers_insert [OF Suc.prems(1) order_refl Some has_depth.at_checkpoint [OF Some 1]]
          by (simp add: Let_def)
      next
        case 2
        then show ?thesis
          using Some miss c answers_insert [OF Suc.prems(1) order_refl Some has_depth.at_initial [OF Some 2(1) c 2(2)]] by simp
      next
        case 3
        have fuel: "fuel_enough bl p fuel" if p: "p \<in> set (predecessors c)" for p
        proof (cases "resolve_identity bl p")
          case None
          then show ?thesis using Suc.prems(2) Some by (auto simp: fuel_enough_def)
        next
          case (Some q)
          have "(r, q) \<in> points bl" by (rule points_of_content [OF stored 3(1) c p Some])
          from card_points_less [OF assms this] show ?thesis
            using Suc.prems(2) Some \<open>resolve_identity bl i = Some r\<close> by (auto simp: fuel_enough_def)
        qed
        obtain res cache' where m:
          "max_pred_depth (depth_recursive fuel bl) (predecessors c) 0 cache = Some (res, cache')"
          "cache_ok bl cache'" "fst ` set cache \<subseteq> fst ` set cache'"
          "case res of None \<Rightarrow> \<exists>p \<in> set (predecessors c). \<forall>d. \<not> has_depth bl p d
           | Some m \<Rightarrow> \<exists>f. (\<forall>p \<in> set (predecessors c). has_depth bl p (f p)) \<and>
               m = Max (insert 0 (f ` set (predecessors c)))"
          using max_pred_depth_spec [of "predecessors c" bl "depth_recursive fuel bl" cache 0]
            Suc.IH fuel Suc.prems(1) by blast
        show ?thesis
        proof (cases res)
          case None
          with m(4) have "\<not> has_depth bl i d" for d
            using \<open>resolve_identity bl i = Some r\<close> c 3 by (auto elim!: has_depthE) blast
          with None m 3 c miss Some show ?thesis by (auto intro!: answersI)
        next
          case res: (Some mx)
          with m(4) obtain f where f: "\<forall>p \<in> set (predecessors c). has_depth bl p (f p)"
            "mx = Max (insert 0 (f ` set (predecessors c)))" by auto
          then have "mx = Max (f ` set (predecessors c))" using 3(2) by simp
          with f(1) have "has_depth bl i (Suc mx)"
            using has_depth.at_step [OF Some 3(1) c 3(2), of f] by simp
          from answers_insert [OF m(2,3) Some this] show ?thesis
            using m(1) 3 c miss Some res by simp
        qed
      qed
    qed
  qed
qed

lemma fuel_enough_depth_fuel: "wf_lace bl \<Longrightarrow> fuel_enough bl i (depth_fuel bl)"
proof -
  have "card ((points bl)\<^sup>+ `` {r}) \<le> length (blocks bl)" for r
  proof -
    have "card ((points bl)\<^sup>+ `` {r}) \<le> card (set (block_ids bl))"
      by (rule card_mono) (auto simp del: set_map dest: points_trancl_stored)
    also have "\<dots> \<le> length (blocks bl)" using card_length [of "block_ids bl"] by simp
    finally show ?thesis .
  qed
  then show ?thesis
    by (auto simp: fuel_enough_def depth_fuel_def split: option.split intro: le_imp_less_Suc)
qed

lemma depth_cached_spec:
  assumes "wf_lace bl" "acyclic_lace bl" "cache_ok bl cache"
  shows "answers bl i cache (Some (depth_cached bl i cache))"
  using depth_recursive_spec [OF assms(2,3) fuel_enough_depth_fuel [OF assms(1)], of i]
  by (auto simp: depth_cached_def answers_def)

lemma depth_iff:
  assumes "wf_lace bl" "acyclic_lace bl"
  shows "depth bl i = Some d \<longleftrightarrow> has_depth bl i d"
  using depth_cached_spec [OF assms, of "[]" i]
  by (auto simp: depth_def answers_def cache_ok_def)

interpretation depth_memo: memo_fn "depth_cached bl"
  "\<lambda>cache. wf_lace bl \<and> acyclic_lace bl \<and> cache_ok bl cache" "depth bl"
  for bl
proof
  fix cache i assume v: "wf_lace bl \<and> acyclic_lace bl \<and> cache_ok bl cache"
  then have a: "answers bl i cache (Some (depth_cached bl i cache))" using depth_cached_spec by blast
  then have "fst (depth_cached bl i cache) = Some d \<longleftrightarrow> depth bl i = Some d" for d
    using v depth_iff by (auto simp: answers_def)
  then show "fst (depth_cached bl i cache) = depth bl i" by (metis not_None_eq)
  show "wf_lace bl \<and> acyclic_lace bl \<and> cache_ok bl (snd (depth_cached bl i cache))"
    using a v by (auto simp: answers_def)
qed

section \<open>All depths at once\<close>

lemma fold_depths:
  assumes "wf_lace bl" "acyclic_lace bl" "cache_ok bl cache" "set ks \<subseteq> set (block_ids bl)"
  defines "out \<equiv> fold (\<lambda>i cache. snd (depth_cached bl i cache)) ks cache"
  shows "cache_ok bl out \<and> fst ` set cache \<subseteq> fst ` set out \<and>
    (\<forall>k \<in> set ks. \<forall>d. has_depth bl k d \<longrightarrow> k \<in> fst ` set out)"
  using assms(3,4) unfolding out_def
proof (induction ks arbitrary: cache)
  case Nil
  then show ?case by simp
next
  case (Cons k ks)
  obtain res c1 where r: "depth_cached bl k cache = (res, c1)" by fastforce
  have k: "resolve_identity bl k = Some k" using Cons.prems(2) by (intro resolve_stored) simp
  from depth_cached_spec [OF assms(1,2) Cons.prems(1), of k, unfolded r answers_def]
  have c1: "cache_ok bl c1" "fst ` set cache \<subseteq> fst ` set c1" "\<forall>d. has_depth bl k d \<longrightarrow> k \<in> fst ` set c1"
    using k by auto
  have "set ks \<subseteq> set (block_ids bl)" using Cons.prems(2) by simp
  note IH = Cons.IH [OF c1(1) this]
  have step: "fold (\<lambda>i cache. snd (depth_cached bl i cache)) (k # ks) cache =
      fold (\<lambda>i cache. snd (depth_cached bl i cache)) ks c1" by (simp add: r)
  show ?case
    unfolding step
  proof (intro conjI ballI allI impI)
    fix j d assume "j \<in> set (k # ks)" "has_depth bl j d"
    then show "j \<in> fst ` set (fold (\<lambda>i cache. snd (depth_cached bl i cache)) ks c1)"
      using IH c1(3) by auto
  qed (use IH c1(2) in blast)+
qed

lemma compute_all_depths_iff:
  assumes "wf_lace bl" "acyclic_lace bl"
  shows "distinct (map fst (compute_all_depths bl))"
    and "(i, d) \<in> set (compute_all_depths bl) \<longleftrightarrow> i \<in> set (block_ids bl) \<and> has_depth bl i d"
proof -
  have "cache_ok bl []" by (simp add: cache_ok_def)
  note f = fold_depths [OF assms this order_refl]
  have out: "cache_ok bl (compute_all_depths bl)"
    "\<forall>k \<in> set (block_ids bl). \<forall>d. has_depth bl k d \<longrightarrow> k \<in> fst ` set (compute_all_depths bl)"
    using f unfolding compute_all_depths_def dom_lace_def by blast+
  then show "distinct (map fst (compute_all_depths bl))" by (simp add: cache_ok_def)
  show "(i, d) \<in> set (compute_all_depths bl) \<longleftrightarrow> i \<in> set (block_ids bl) \<and> has_depth bl i d"
  proof
    assume "(i, d) \<in> set (compute_all_depths bl)"
    then show "i \<in> set (block_ids bl) \<and> has_depth bl i d" using out(1) unfolding cache_ok_def by blast
  next
    assume i: "i \<in> set (block_ids bl) \<and> has_depth bl i d"
    with out(2) obtain e where "(i, e) \<in> set (compute_all_depths bl)" by fastforce
    moreover from this have "has_depth bl i e" using out(1) unfolding cache_ok_def by blast
    ultimately show "(i, d) \<in> set (compute_all_depths bl)" using i has_depth_unique by blast
  qed
qed

definition stored_block :: "blocklace \<Rightarrow> block \<Rightarrow> bool" where
  "stored_block bl b \<longleftrightarrow> (identity b, content b) \<in> set (blocks bl)"

lemma get_block_stored_block:
  assumes "wf_lace bl" "i \<in> set (block_ids bl)"
  shows "get_block bl i = Some b \<longleftrightarrow> stored_block bl b \<and> identity b = i"
proof -
  obtain c where c: "get_block bl i = Some \<lparr>identity = i, content = c\<rparr>" "(i, c) \<in> set (blocks bl)"
    using get_block_stored [OF assms(2)] by blast
  show ?thesis
  proof
    assume "get_block bl i = Some b"
    with c show "stored_block bl b \<and> identity b = i" by (auto simp: stored_block_def)
  next
    assume b: "stored_block bl b \<and> identity b = i"
    then have "content b = c"
      using c(2) map_of_stored [OF assms(1), of i] unfolding stored_block_def by (metis option.inject)
    with b c(1) show "get_block bl i = Some b" by (cases b) auto
  qed
qed

lemma stored_block_id: "stored_block bl b \<Longrightarrow> identity b \<in> set (block_ids bl)"
  by (force simp: stored_block_def)

lemma stored_block_eq:
  "wf_lace bl \<Longrightarrow> stored_block bl a \<Longrightarrow> stored_block bl b \<Longrightarrow> identity a = identity b \<Longrightarrow> a = b"
  using get_block_stored_block [of bl "identity a"] stored_block_id by (metis option.inject)

lemma inj_on_stored: "wf_lace bl \<Longrightarrow> (\<And>b. b \<in> A \<Longrightarrow> stored_block bl b) \<Longrightarrow> inj_on identity A"
  by (meson inj_onI stored_block_eq)

lemma set_get_blocks:
  assumes "wf_lace bl" "set is \<subseteq> set (block_ids bl)"
  shows "set (List.map_filter (get_block bl) is) = {b. stored_block bl b \<and> identity b \<in> set is}"
proof -
  have "get_block bl i = Some b \<longleftrightarrow> stored_block bl b \<and> identity b = i" if "i \<in> set is" for i b
    using get_block_stored_block [OF assms(1)] assms(2) that by blast
  then show ?thesis unfolding set_map_filter by auto
qed

lemma set_blocks_where:
  assumes "wf_lace bl" "acyclic_lace bl"
  shows "set (blocks_where bl P) = {b. stored_block bl b \<and> (\<exists>d. has_depth bl (identity b) d \<and> P d)}"
proof -
  let ?A = "{b. stored_block bl b \<and> (\<exists>d. has_depth bl (identity b) d \<and> P d)}"
  let ?l = "List.map_filter (\<lambda>(i, dep). get_block bl i) (filter (\<lambda>(i, dep). P dep) (compute_all_depths bl))"
  have "set ?l = {b. \<exists>i d. i \<in> set (block_ids bl) \<and> has_depth bl i d \<and> P d \<and> get_block bl i = Some b}"
    using compute_all_depths_iff(2) [OF assms] by (auto simp del: set_map)
  also have "\<dots> = ?A"
    using get_block_stored_block [OF assms(1)] stored_block_id [of bl] by (metis (no_types, lifting))
  finally have l: "set ?l = ?A" .
  moreover have "inj_on identity (set ?l)"
    unfolding l by (rule inj_on_stored [OF assms(1)]) simp
  ultimately show ?thesis by (simp add: blocks_where_def set_dedup_by)
qed

lemma distinct_blocks_where [simp]: "distinct (map identity (blocks_where bl P))"
  by (simp add: blocks_where_def)

section \<open>Depth is the longest path\<close>

lemma points_has_content:
  assumes "wf_lace bl" "resolve_identity bl i = Some r" "checkpoint bl \<noteq> Some r" "content_of bl r = Some c"
  shows "(r, q) \<in> points bl \<longleftrightarrow> (\<exists>p \<in> set (predecessors c). resolve_identity bl p = Some q)"
  using assms by (auto simp: points_def expand_preds_def is_checkpoint_boundary_def)

lemma closed_preds:
  assumes "wf_lace bl" "is_closed bl" "resolve_identity bl i = Some r" "checkpoint bl \<noteq> Some r"
    "content_of bl r = Some c" "p \<in> set (predecessors c)"
  shows "\<exists>q. resolve_identity bl p = Some q"
proof -
  have "(r, c) \<in> set (blocks bl)"
    using assms(5) resolve_resolved [OF assms(3)] unfolding content_of_Some [OF assms(1)] by auto
  then show ?thesis using assms(2,4,6) by (auto simp: is_closed_def is_checkpoint_boundary_def)
qed

lemma closed_has_depth:
  assumes "wf_lace bl" "is_closed bl" "acyclic_lace bl" "resolve_identity bl i = Some r"
  shows "\<exists>d. has_depth bl i d"
  using assms(4)
proof (induction "card ((points bl)\<^sup>+ `` {r})" arbitrary: i r rule: less_induct)
  case less
  obtain c where c: "content_of bl r = Some c"
    using content_of_stored [OF resolve_SomeD(1) [OF less.prems]] by blast
  consider "checkpoint bl = Some r" | "checkpoint bl \<noteq> Some r" "predecessors c = []"
    | "checkpoint bl \<noteq> Some r" "predecessors c \<noteq> []" by blast
  then show ?case
  proof cases
    case 3
    have "\<exists>d. has_depth bl p d" if p: "p \<in> set (predecessors c)" for p
    proof -
      obtain q where q: "resolve_identity bl p = Some q"
        using closed_preds [OF assms(1,2) less.prems 3(1) c p] by blast
      then have "(r, q) \<in> points bl" using points_has_content [OF assms(1) less.prems 3(1) c] p by blast
      from less.hyps [OF card_points_less [OF assms(3) this] q] show ?thesis .
    qed
    then obtain f where "\<And>p. p \<in> set (predecessors c) \<Longrightarrow> has_depth bl p (f p)" by metis
    from has_depth.at_step [OF less.prems 3(1) c 3(2) this] show ?thesis by blast
  qed (use less.prems c has_depth.intros in blast)+
qed

lemma has_depth_longest:
  assumes "wf_lace bl" "is_closed bl" "checkpoint bl = None" "has_depth bl i d" "resolve_identity bl i = Some r"
  shows "(\<exists>y. (r, y) \<in> points bl ^^ d) \<and> (\<forall>n y. (r, y) \<in> points bl ^^ n \<longrightarrow> n \<le> d)"
  using assms(4,5)
proof (induction arbitrary: r rule: has_depth.induct)
  case (at_checkpoint i r')
  with assms(3) show ?case by simp
next
  case (at_initial i r' c)
  then have "r' = r" by simp
  with at_initial points_has_content [OF assms(1) at_initial(1-3)] have none: "(r, q) \<notin> points bl" for q
    by simp
  have "n = 0" if "(r, y) \<in> points bl ^^ n" for n y
    using that none by (cases n) (auto dest!: relpow_Suc_D2 simp del: relpow.simps(2))
  then show ?case by auto
next
  case (at_step i r' c f)
  then have r: "r' = r" by simp
  note pts = points_has_content [OF assms(1) at_step(1-3), unfolded r]
  have "Max (f ` set (predecessors c)) \<in> f ` set (predecessors c)"
    using at_step(4) by (intro Max_in) auto
  then obtain p where p: "p \<in> set (predecessors c)" "f p = Max (f ` set (predecessors c))" by auto
  obtain q where q: "resolve_identity bl p = Some q"
    using closed_preds [OF assms(1,2) at_step(1-3) p(1)] by blast
  have "(r, q) \<in> points bl" using pts p(1) q by blast
  moreover obtain y where "(q, y) \<in> points bl ^^ f p" using at_step(6) [OF p(1) q] by blast
  ultimately have "(r, y) \<in> points bl ^^ Suc (Max (f ` set (predecessors c)))"
    unfolding p(2) by (rule relpow_Suc_I2)
  moreover have "n \<le> Suc (Max (f ` set (predecessors c)))" if n: "(r, y) \<in> points bl ^^ n" for n y
  proof (cases n)
    case (Suc m)
    with n obtain q' where q': "(r, q') \<in> points bl" "(q', y) \<in> points bl ^^ m" by (meson relpow_Suc_D2)
    then obtain p' where p': "p' \<in> set (predecessors c)" "resolve_identity bl p' = Some q'" using pts by blast
    have "m \<le> f p'" using at_step(6) [OF p'] q'(2) by blast
    also have "\<dots> \<le> Max (f ` set (predecessors c))" using p'(1) by (intro Max_ge) auto
    finally show ?thesis using Suc by simp
  qed simp
  ultimately show ?case by blast
qed

lemma has_depth_bound:
  assumes "acyclic_lace bl" "has_depth bl i d" "resolve_identity bl i = Some r"
  shows "d \<le> (case checkpoint_depth bl of None \<Rightarrow> 0 | Some d \<Rightarrow> d) + card ((points bl)\<^sup>+ `` {r})"
  using assms(2,3)
proof (induction arbitrary: r rule: has_depth.induct)
  case (at_step i r' c f)
  let ?cp = "case checkpoint_depth bl of None \<Rightarrow> 0 | Some d \<Rightarrow> d"
  have r: "r' = r" using at_step by simp
  have "f p + 1 \<le> ?cp + card ((points bl)\<^sup>+ `` {r})" if p: "p \<in> set (predecessors c)" for p
  proof -
    have "has_depth bl p (f p)" by (rule at_step(5) [OF p])
    then obtain q where q: "resolve_identity bl p = Some q" by (auto elim: has_depthE)
    have "r \<in> set (block_ids bl)" using at_step(1) r resolve_SomeD(1) by blast
    then have "(r, q) \<in> points bl" using points_of_content at_step(2,3) p q r by blast
    from card_points_less [OF assms(1) this] at_step(6) [OF p q] show ?thesis by linarith
  qed
  moreover have "Max (f ` set (predecessors c)) \<in> f ` set (predecessors c)"
    using at_step(4) by (intro Max_in) auto
  ultimately show ?case by force
qed simp_all

section \<open>Waves partition the rounds\<close>

lemmas wave_defs = wave_of_round_def first_round_of_wave_def last_round_of_wave_def rounds_of_wave_def
  is_first_round_of_wave_def round_is_in_wave_def leader_round_of_wave_def checked_defs

lemma rounds_of_wave_SomeD:
  assumes "rounds_of_wave wave wavelength = Some rs"
  shows "0 < wavelength" "rs = [wave * wavelength..<wave * wavelength + wavelength]"
    "wave * wavelength + wavelength \<le> 2 ^ 64"
  using assms by (auto simp: wave_defs split: if_splits option.splits)

lemma in_wave_range_iff:
  fixes r wave wavelength :: nat
  assumes "0 < wavelength"
  shows "r div wavelength = wave \<longleftrightarrow> wave * wavelength \<le> r \<and> r < wave * wavelength + wavelength"
proof
  assume w: "r div wavelength = wave"
  have "r = r div wavelength * wavelength + r mod wavelength" by simp
  moreover have "r mod wavelength < wavelength" using assms by simp
  ultimately show "wave * wavelength \<le> r \<and> r < wave * wavelength + wavelength" unfolding w by linarith
next
  assume "wave * wavelength \<le> r \<and> r < wave * wavelength + wavelength"
  then show "r div wavelength = wave" by (intro div_nat_eqI) (auto simp: algebra_simps)
qed

end
