(* ===== verification/Weights.thy ===== *)
theory Weights
  imports Block_Types
begin

unbundle bit_operations_syntax

text \<open>
  The bonded weight table (\<open>consensus/weight_snapshot.rs\<close>) with its canonical fingerprint
  (the hash helpers of \<open>trace.rs\<close>), threshold certificates (\<open>consensus/certificate.rs\<close>) and
  the quorum predicates of \<open>consensus/cordiality.rs\<close>.  Strings are lists of ASCII bytes.  The
  interface \<open>quorum_system\<close> states what consensus needs of a quorum: two of them share a
  validator outside every tolerable set of faulty ones.  Both predicates of the program, by
  count and by stake, are interpretations of it.
\<close>

section \<open>Canonical text and the fingerprint\<close>

type_synonym ascii = "byte list"

definition hex_digit :: "nat \<Rightarrow> byte" where
  "hex_digit n = of_nat (if n < 10 then 48 + n else 87 + n)"

definition hex :: "byte list \<Rightarrow> ascii" where
  "hex bs = concat (map (\<lambda>b. [hex_digit (unat b div 16), hex_digit (unat b mod 16)]) bs)"

fun decimal :: "nat \<Rightarrow> ascii" where
  "decimal n = (if n < 10 then [of_nat (48 + n)] else decimal (n div 10) @ [of_nat (48 + n mod 10)])"

declare decimal.simps [simp del]

definition hex16 :: "64 word \<Rightarrow> ascii" where
  "hex16 h = map (\<lambda>k. hex_digit (unat (drop_bit (4 * k) h) mod 16)) (rev [0..<16])"

definition fnv_step :: "byte \<Rightarrow> 64 word \<Rightarrow> 64 word" where
  "fnv_step b h = (h XOR ucast b) * 0x100000001b3"

definition fnv1a :: "byte list \<Rightarrow> 64 word" where
  "fnv1a bs = fold fnv_step bs 0xcbf29ce484222325"

definition weight_row :: "node_id \<times> nat \<Rightarrow> ascii" where
  "weight_row e = hex (node_bytes (fst e)) @ [58] @ decimal (snd e) @ [10]"

definition weight_table_hash_sorted :: "(node_id \<times> nat) list \<Rightarrow> ascii" where
  "weight_table_hash_sorted entries = hex16 (fnv1a (concat (map weight_row entries)))"

definition weight_table_hash :: "(node_id \<times> nat) list \<Rightarrow> ascii" where
  "weight_table_hash bonds = weight_table_hash_sorted (sort_key fst bonds)"

definition certificate_id_of :: "ascii \<Rightarrow> ascii \<Rightarrow> ascii option \<Rightarrow> ascii" where
  "certificate_id_of kind leader_hash ratifier_hash =
     hex16 (fnv1a (kind @ [255] @ leader_hash @ [255] @
       (case ratifier_hash of None \<Rightarrow> [] | Some h \<Rightarrow> h)))"

definition output_prefix_hash :: "ascii list \<Rightarrow> ascii" where
  "output_prefix_hash hs = hex16 (fnv1a (concat (map (\<lambda>h. h @ [255]) hs)))"

definition sorted_block_hashes :: "block_identity list \<Rightarrow> ascii list" where
  "sorted_block_hashes is = sort (map (\<lambda>i. hex (content_hash i)) is)"

section \<open>Weight snapshots\<close>

record weight_snapshot =
  ws_id :: ascii
  ws_bonds :: "(node_id \<times> nat) list"

definition btree_of :: "('k::linorder \<times> 'v) list \<Rightarrow> ('k \<times> 'v) list" where
  "btree_of kvs = fold (\<lambda>(k, v) m. bt_insert k v m) kvs []"

definition of_bonds :: "(node_id \<times> nat) list \<Rightarrow> ascii" where
  "of_bonds bonds = weight_table_hash bonds"

definition from_sorted :: "(node_id \<times> nat) list \<Rightarrow> weight_snapshot" where
  "from_sorted bonds = \<lparr>ws_id = weight_table_hash_sorted bonds, ws_bonds = bonds\<rparr>"

definition from_bonds :: "(node_id \<times> nat) list \<Rightarrow> weight_snapshot" where
  "from_bonds bonds = from_sorted (btree_of bonds)"

definition weight_of :: "weight_snapshot \<Rightarrow> node_id \<Rightarrow> nat" where
  "weight_of ws nd = (case map_of (ws_bonds ws) nd of None \<Rightarrow> 0 | Some w \<Rightarrow> w)"

definition ws_contains :: "weight_snapshot \<Rightarrow> node_id \<Rightarrow> bool" where
  "ws_contains ws nd \<longleftrightarrow> nd \<in> set (map fst (ws_bonds ws))"

definition total :: "weight_snapshot \<Rightarrow> nat option" where
  "total ws = try_fold_add 128 0 (map snd (ws_bonds ws))"

section \<open>Quorum predicates\<close>

definition checked_bond_weight :: "nat list \<Rightarrow> nat option" where
  "checked_bond_weight ws = try_fold_add 128 0 ws"

definition strict_two_thirds :: "nat \<Rightarrow> nat \<Rightarrow> bool" where
  "strict_two_thirds support_weight total_weight =
     (case checked_mul 128 support_weight 3 of None \<Rightarrow> False
      | Some weighted_support \<Rightarrow>
          (case checked_mul 128 total_weight 2 of None \<Rightarrow> False
           | Some threshold \<Rightarrow> weighted_support > threshold))"

definition is_weighted_supermajority_snapshot :: "node_id list \<Rightarrow> weight_snapshot \<Rightarrow> bool" where
  "is_weighted_supermajority_snapshot creators ws =
     (case total ws of None \<Rightarrow> False
      | Some total_weight \<Rightarrow>
          if total_weight = 0 then False
          else case checked_bond_weight (map (weight_of ws) creators) of
                 None \<Rightarrow> False
               | Some support_weight \<Rightarrow> strict_two_thirds support_weight total_weight)"

definition is_weighted_supermajority :: "node_id list \<Rightarrow> (node_id \<times> nat) list \<Rightarrow> bool" where
  "is_weighted_supermajority creators bonds =
     is_weighted_supermajority_snapshot creators (from_bonds bonds)"

definition is_supermajority :: "block list \<Rightarrow> nat \<Rightarrow> nat \<Rightarrow> bool" where
  "is_supermajority bs n f \<longleftrightarrow> length (remdups (map node bs)) > wrapping_add 64 n f div 2"

section \<open>Threshold certificates\<close>

datatype certificate_kind = Ratification | SuperRatification

definition kind_str :: "certificate_kind \<Rightarrow> ascii" where
  "kind_str k = map of_char (case k of Ratification \<Rightarrow> ''ratification''
     | SuperRatification \<Rightarrow> ''super_ratification'')"

record threshold_certificate =
  kind :: certificate_kind
  leader :: block_identity
  ratifier :: "block_identity option"
  certificate_id :: ascii
  approver_blocks :: "block_identity list"
  approvers :: "node_id list"
  approver_weight :: nat
  total_weight :: nat
  cert_snapshot :: ascii

definition new_certificate ::
  "certificate_kind \<Rightarrow> block_identity \<Rightarrow> block_identity option \<Rightarrow> block_identity list \<Rightarrow> node_id list
     \<Rightarrow> weight_snapshot \<Rightarrow> threshold_certificate" where
  "new_certificate k ldr rat blks apps ws =
     (let blks' = sort blks; apps' = sort apps;
          leader_hash = hex (content_hash ldr);
          ratifier_hash = map_option (\<lambda>i. hex (content_hash i)) rat
      in \<lparr>kind = k, leader = ldr, ratifier = rat,
          certificate_id = certificate_id_of (kind_str k) leader_hash ratifier_hash,
          approver_blocks = blks', approvers = apps',
          approver_weight =
            (case try_fold_add 128 0 (map (weight_of ws) apps') of None \<Rightarrow> 0 | Some w \<Rightarrow> w),
          total_weight = (case total ws of None \<Rightarrow> 0 | Some w \<Rightarrow> w),
          cert_snapshot = ws_id ws\<rparr>)"

definition approver_count :: "threshold_certificate \<Rightarrow> nat" where
  "approver_count cert = length (approvers cert)"

definition satisfies_threshold :: "threshold_certificate \<Rightarrow> bool" where
  "satisfies_threshold cert =
     (case (checked_mul 128 (approver_weight cert) 3, checked_mul 128 (total_weight cert) 2) of
        (Some support, Some threshold) \<Rightarrow> total_weight cert > 0 \<and> support > threshold
      | _ \<Rightarrow> False)"

definition verify_quorum_against :: "threshold_certificate \<Rightarrow> weight_snapshot \<Rightarrow> bool" where
  "verify_quorum_against cert ws =
     (if ws_id ws \<noteq> cert_snapshot cert then False
      else if length (remdups (approvers cert)) \<noteq> length (approvers cert) then False
      else case try_fold_add 128 0 (map (weight_of ws) (approvers cert)) of
             None \<Rightarrow> False
           | Some support \<Rightarrow>
               support = approver_weight cert \<and> total ws = Some (total_weight cert) \<and>
               satisfies_threshold cert)"

section \<open>The sorted map\<close>

lemma map_of_bt_insert: "sorted_wrt (<) (map fst m) \<Longrightarrow> map_of (bt_insert k v m) = (map_of m)(k \<mapsto> v)"
  by (induction k v m rule: bt_insert.induct) (auto simp: fun_eq_iff)

lemma fst_set_bt_insert: "fst ` set (bt_insert k v m) = insert k (fst ` set m)"
  by (induction k v m rule: bt_insert.induct) auto

lemma sorted_bt_insert: "sorted_wrt (<) (map fst m) \<Longrightarrow> sorted_wrt (<) (map fst (bt_insert k v m))"
proof (induction k v m rule: bt_insert.induct)
  case (2 k v k' v' m)
  have "\<forall>x \<in> fst ` set (bt_insert k v m). k' < x" if "\<not> k < k'" "k \<noteq> k'"
    using 2(2) that by (auto simp: fst_set_bt_insert)
  with 2 show ?case by auto
qed simp

lemma btree_of_fold:
  assumes "sorted_wrt (<) (map fst m)"
  shows "sorted_wrt (<) (map fst (fold (\<lambda>(k, v) m. bt_insert k v m) kvs m)) \<and>
    map_of (fold (\<lambda>(k, v) m. bt_insert k v m) kvs m) = map_of m ++ map_of (rev kvs)"
  using assms
proof (induction kvs arbitrary: m)
  case (Cons e kvs)
  obtain k v where e: "e = (k, v)" by fastforce
  have "map_of (bt_insert k v m) ++ map_of (rev kvs) = map_of m ++ map_of (rev (e # kvs))"
    using Cons.prems by (simp add: map_of_bt_insert e)
  with Cons.IH [OF sorted_bt_insert [OF Cons.prems, of k v]] show ?case by (simp add: e)
qed simp

lemma sorted_btree_of: "sorted_wrt (<) (map fst (btree_of kvs))"
  using btree_of_fold [of "[]" kvs] by (simp add: btree_of_def)

lemma distinct_btree_of [simp]: "distinct (map fst (btree_of kvs))"
  using sorted_btree_of [of kvs] by (simp add: strict_sorted_iff)

lemma map_of_btree_of: "distinct (map fst kvs) \<Longrightarrow> map_of (btree_of kvs) = map_of kvs"
proof -
  assume d: "distinct (map fst kvs)"
  have "map_of (rev kvs) = map_of kvs"
    by (rule map_of_inject_set [THEN iffD2]) (use d in \<open>simp_all add: rev_map [symmetric]\<close>)
  then show ?thesis using btree_of_fold [of "[]" kvs] by (simp add: btree_of_def)
qed

lemma set_btree_of: "distinct (map fst kvs) \<Longrightarrow> set (btree_of kvs) = set kvs"
  using map_of_btree_of [of kvs] map_of_inject_set [OF distinct_btree_of, of kvs kvs] by simp

lemma btree_of_sort_key:
  assumes "distinct (map fst kvs)"
  shows "btree_of kvs = sort_key fst kvs"
proof (rule map_sorted_distinct_set_unique [of fst])
  show "inj_on fst (set (btree_of kvs) \<union> set (sort_key fst kvs))"
    using assms by (simp add: set_btree_of distinct_map)
  show "sorted (map fst (btree_of kvs))" "distinct (map fst (btree_of kvs))"
    using sorted_btree_of [of kvs] by (simp_all add: strict_sorted_iff)
  show "distinct (map fst (sort_key fst kvs))" using assms by (simp add: distinct_map)
qed (use assms in \<open>simp_all add: set_btree_of\<close>)

lemma from_bonds_order_irrelevant:
  assumes "distinct (map fst bonds)" "distinct (map fst bonds')" "set bonds = set bonds'"
  shows "from_bonds bonds = from_bonds bonds'"
proof -
  have "sort_key fst bonds = sort_key fst bonds'"
    by (rule map_sorted_distinct_set_unique [of fst]) (use assms in \<open>simp_all add: distinct_map\<close>)
  with assms show ?thesis by (simp add: from_bonds_def btree_of_sort_key)
qed

lemma weight_of_from_bonds:
  "distinct (map fst bonds) \<Longrightarrow>
     weight_of (from_bonds bonds) nd = (case map_of bonds nd of None \<Rightarrow> 0 | Some w \<Rightarrow> w)"
  by (simp add: weight_of_def from_bonds_def from_sorted_def map_of_btree_of)

section \<open>Quorum intersection\<close>

text \<open>
  What agreement needs of quorums, and the argument made once: values supported by two quorums
  are equal when no validator outside the faulty set supports two different values.
\<close>

locale quorum_system =
  fixes quorum :: "'n set \<Rightarrow> bool" and tolerable :: "'n set \<Rightarrow> bool"
  assumes quorums_meet: "quorum A \<Longrightarrow> quorum B \<Longrightarrow> tolerable F \<Longrightarrow> \<exists>p \<in> A \<inter> B. p \<notin> F"
begin

lemma agreement:
  assumes "quorum A" "quorum B" "tolerable F"
    and "\<And>p. p \<in> A \<Longrightarrow> p \<notin> F \<Longrightarrow> supports p x" and "\<And>p. p \<in> B \<Longrightarrow> p \<notin> F \<Longrightarrow> supports p y"
    and single: "\<And>p. p \<notin> F \<Longrightarrow> supports p x \<Longrightarrow> supports p y \<Longrightarrow> \<not> conflict x y"
  shows "\<not> conflict x y"
proof -
  obtain p where "p \<in> A" "p \<in> B" "p \<notin> F" using quorums_meet [OF assms(1-3)] by blast
  with assms(4-) show ?thesis by blast
qed

lemma quorum_nonempty: "quorum A \<Longrightarrow> tolerable F \<Longrightarrow> \<exists>p \<in> A. p \<notin> F"
  using quorums_meet [of A A F] by blast

end

definition count_quorum :: "node_id set \<Rightarrow> nat \<Rightarrow> nat \<Rightarrow> node_id set \<Rightarrow> bool" where
  "count_quorum U n f A \<longleftrightarrow> finite U \<and> card U \<le> n \<and> A \<subseteq> U \<and> card A > (n + f) div 2"

definition count_tolerable :: "nat \<Rightarrow> node_id set \<Rightarrow> bool" where
  "count_tolerable f F \<longleftrightarrow> finite F \<and> card F \<le> f"

interpretation count: quorum_system "count_quorum U n f" "count_tolerable f"
  for U n f
proof
  fix A B F assume q: "count_quorum U n f A" "count_quorum U n f B" "count_tolerable f F"
  then have fin: "finite A" "finite B" "finite U" "finite F"
    by (auto simp: count_quorum_def count_tolerable_def intro: finite_subset)
  have "card A + card B = card (A \<union> B) + card (A \<inter> B)" by (rule card_Un_Int) (use fin in auto)
  moreover have "card (A \<union> B) \<le> card U" using q fin by (intro card_mono) (auto simp: count_quorum_def)
  ultimately have "f < card (A \<inter> B)" using q by (auto simp: count_quorum_def)
  then have "\<not> A \<inter> B \<subseteq> F"
    using q(3) card_mono [OF fin(4), of "A \<inter> B"] by (auto simp: count_tolerable_def)
  then show "\<exists>p \<in> A \<inter> B. p \<notin> F" by blast
qed

definition stake :: "weight_snapshot \<Rightarrow> node_id set \<Rightarrow> nat" where
  "stake ws A = (\<Sum>nd \<in> A. weight_of ws nd)"

definition bonded :: "weight_snapshot \<Rightarrow> node_id set" where
  "bonded ws = fst ` set (ws_bonds ws)"

definition stake_quorum :: "weight_snapshot \<Rightarrow> node_id set \<Rightarrow> bool" where
  "stake_quorum ws A \<longleftrightarrow> finite A \<and> 3 * stake ws A > 2 * stake ws (bonded ws)"

definition stake_tolerable :: "weight_snapshot \<Rightarrow> node_id set \<Rightarrow> bool" where
  "stake_tolerable ws F \<longleftrightarrow> finite F \<and> 3 * stake ws F \<le> stake ws (bonded ws)"

lemma finite_bonded [simp]: "finite (bonded ws)"
  by (simp add: bonded_def)

lemma weight_of_unbonded: "nd \<notin> bonded ws \<Longrightarrow> weight_of ws nd = 0"
  by (simp add: weight_of_def bonded_def map_of_eq_None_iff [symmetric] split: option.split)

lemma stake_bonded: "finite A \<Longrightarrow> stake ws A = stake ws (A \<inter> bonded ws)"
  unfolding stake_def by (rule sum.mono_neutral_right) (auto simp: weight_of_unbonded)

lemma stake_mono: "finite B \<Longrightarrow> A \<subseteq> B \<Longrightarrow> stake ws A \<le> stake ws B"
  unfolding stake_def by (rule sum_mono2) auto

interpretation stake: quorum_system "stake_quorum ws" "stake_tolerable ws"
  for ws
proof
  fix A B F assume q: "stake_quorum ws A" "stake_quorum ws B" "stake_tolerable ws F"
  then have fin: "finite A" "finite B" "finite F" by (auto simp: stake_quorum_def stake_tolerable_def)
  have "stake ws (A \<union> B) + stake ws (A \<inter> B) = stake ws A + stake ws B"
    unfolding stake_def by (rule sum.union_inter) (use fin in auto)
  moreover have "stake ws (A \<union> B) \<le> stake ws (bonded ws)"
    using stake_bonded [of "A \<union> B" ws] stake_mono [of "bonded ws" "(A \<union> B) \<inter> bonded ws" ws] fin by simp
  ultimately have "stake ws (bonded ws) < 3 * stake ws (A \<inter> B)"
    using q by (auto simp: stake_quorum_def)
  then have "\<not> A \<inter> B \<subseteq> F"
    using q(3) stake_mono [OF fin(3), of "A \<inter> B" ws] by (auto simp: stake_tolerable_def)
  then show "\<exists>p \<in> A \<inter> B. p \<notin> F" by blast
qed

section \<open>The quorum predicates meet the interface\<close>

definition wf_snapshot :: "weight_snapshot \<Rightarrow> bool" where
  "wf_snapshot ws \<longleftrightarrow> distinct (map fst (ws_bonds ws))"

lemma wf_from_bonds [simp]: "wf_snapshot (from_bonds bonds)"
  by (simp add: wf_snapshot_def from_bonds_def from_sorted_def)

lemma sum_list_distinct: "distinct xs \<Longrightarrow> sum_list (map g xs) = (\<Sum>x \<in> set xs. g x)"
  by (simp add: sum_list_distinct_conv_sum_set)

lemma total_stake:
  assumes "wf_snapshot ws" "total ws = Some t"
  shows "t = stake ws (bonded ws)"
proof -
  have d: "distinct (map fst (ws_bonds ws))" using assms(1) by (simp add: wf_snapshot_def)
  have "map snd (ws_bonds ws) = map (weight_of ws) (map fst (ws_bonds ws))"
    using d by (auto simp: weight_of_def)
  moreover have "t = sum_list (map snd (ws_bonds ws))"
    using try_fold_add_Some(1) assms(2) by (auto simp: total_def)
  ultimately have "t = sum_list (map (weight_of ws) (map fst (ws_bonds ws)))" by (simp only:)
  also have "\<dots> = (\<Sum>x \<in> set (map fst (ws_bonds ws)). weight_of ws x)" by (rule sum_list_distinct [OF d])
  finally show ?thesis by (simp add: stake_def bonded_def)
qed

lemma strict_two_thirds_iff:
  "strict_two_thirds s t \<longleftrightarrow> s * 3 < 2 ^ 128 \<and> t * 2 < 2 ^ 128 \<and> t * 2 < s * 3"
  by (auto simp: strict_two_thirds_def checked_mul_def)

lemma weighted_supermajority_stake:
  assumes "wf_snapshot ws" "distinct creators" "is_weighted_supermajority_snapshot creators ws"
  shows "stake_quorum ws (set creators)"
proof -
  obtain t s where t: "total ws = Some t" and s: "try_fold_add 128 0 (map (weight_of ws) creators) = Some s"
    and two: "strict_two_thirds s t"
    using assms(3)
    by (auto simp: is_weighted_supermajority_snapshot_def checked_bond_weight_def split: option.splits if_splits)
  have "s = stake ws (set creators)"
    using try_fold_add_Some(1) [OF s] assms(2) by (simp add: stake_def sum_list_distinct)
  with two total_stake [OF assms(1) t] show ?thesis
    by (simp add: stake_quorum_def strict_two_thirds_iff mult.commute)
qed

lemma supermajority_count:
  assumes "is_supermajority bs n f" "n + f < 2 ^ 64" "finite U" "card U \<le> n" "node ` set bs \<subseteq> U"
  shows "count_quorum U n f (node ` set bs)"
  using assms by (simp add: is_supermajority_def wrapping_add_fits count_quorum_def length_remdups_card_conv)

lemma distinct_length_remdups: "length (remdups xs) = length xs \<longleftrightarrow> distinct xs"
  by (metis distinct_remdups distinct_remdups_id length_remdups_eq)

lemma verify_quorum_iff:
  "verify_quorum_against cert ws \<longleftrightarrow> ws_id ws = cert_snapshot cert \<and> distinct (approvers cert) \<and>
     try_fold_add 128 0 (map (weight_of ws) (approvers cert)) = Some (approver_weight cert) \<and>
     total ws = Some (total_weight cert) \<and>
     is_weighted_supermajority_snapshot (approvers cert) ws"
  by (auto simp: verify_quorum_against_def distinct_length_remdups satisfies_threshold_def
      is_weighted_supermajority_snapshot_def checked_bond_weight_def strict_two_thirds_def
      split: option.splits if_splits)

lemma new_certificate_sel [simp]:
  "kind (new_certificate k l r bs as ws) = k" "leader (new_certificate k l r bs as ws) = l"
  "ratifier (new_certificate k l r bs as ws) = r"
  "approver_blocks (new_certificate k l r bs as ws) = sort bs"
  "approvers (new_certificate k l r bs as ws) = sort as"
  "cert_snapshot (new_certificate k l r bs as ws) = ws_id ws"
  by (simp_all add: new_certificate_def Let_def)

lemma sum_list_map_sort: "sum_list (map g (sort xs)) = sum_list (map (g :: 'a::linorder \<Rightarrow> nat) xs)"
  by (metis mset_map mset_sort sum_mset_sum_list)

lemma weighted_supermajority_sort:
  "is_weighted_supermajority_snapshot (sort as) ws = is_weighted_supermajority_snapshot as ws"
proof -
  have "checked_bond_weight (map (weight_of ws) (sort as)) = checked_bond_weight (map (weight_of ws) as)"
    by (simp add: checked_bond_weight_def try_fold_add_eq sum_list_map_sort)
  then show ?thesis unfolding is_weighted_supermajority_snapshot_def by (simp only:)
qed

lemma new_certificate_verifies:
  assumes "distinct as" "is_weighted_supermajority_snapshot as ws"
  shows "verify_quorum_against (new_certificate k l r bs as ws) ws"
  using assms weighted_supermajority_sort [of as ws] unfolding verify_quorum_iff
  by (auto simp: new_certificate_def Let_def is_weighted_supermajority_snapshot_def checked_bond_weight_def
      split: option.splits if_splits)

section \<open>The canonical encoding of a weight table\<close>

lemma unat_hex_digit: "n < 16 \<Longrightarrow> unat (hex_digit n) = (if n < 10 then 48 + n else 87 + n)"
  unfolding hex_digit_def unat_of_nat by simp

lemma hex_digit_inject: "m < 16 \<Longrightarrow> n < 16 \<Longrightarrow> hex_digit m = hex_digit n \<longleftrightarrow> m = n"
  by (auto dest!: arg_cong [where f = unat] simp: unat_hex_digit split: if_splits)

lemma hex_digit_not_colon: "n < 16 \<Longrightarrow> hex_digit n \<noteq> 58"
  by (auto dest!: arg_cong [where f = unat] simp: unat_hex_digit split: if_splits)

lemma byte_div_less: "unat (b :: byte) div 16 < 16"
  using unsigned_less [of b] by (simp add: div_less_iff_less_mult)

lemma hex_inject: "hex as = hex bs \<longleftrightarrow> as = bs"
proof (induction as arbitrary: bs)
  case Nil
  then show ?case by (cases bs) (auto simp: hex_def)
next
  case (Cons a as)
  have byte: "a = b" if "unat a div 16 = unat b div 16" "unat a mod 16 = unat b mod 16" for b
    using that by (metis div_mult_mod_eq word_eq_iff_unsigned)
  show ?case
  proof (cases bs)
    case (Cons b bs')
    have "hex (a # as) = hex (b # bs') \<longleftrightarrow> a = b \<and> hex as = hex bs'"
      using byte [of b] by (auto simp: hex_def hex_digit_inject byte_div_less)
    then show ?thesis using Cons.IH Cons by simp
  qed (simp add: hex_def)
qed

lemma colon_notin_hex: "58 \<notin> set (hex bs)"
  using hex_digit_not_colon byte_div_less by (fastforce simp: hex_def)

lemma unat_decimal_digit: "d < 10 \<Longrightarrow> unat (of_nat (48 + d) :: byte) = 48 + d"
  unfolding unat_of_nat by simp

lemma decimal_digits: "b \<in> set (decimal n) \<Longrightarrow> 48 \<le> unat b"
proof (induction n rule: decimal.induct)
  case (1 n)
  show ?case
  proof (cases "n < 10")
    case True
    with 1(2) show ?thesis by (subst (asm) decimal.simps) (simp add: unat_decimal_digit del: of_nat_add)
  next
    case False
    with 1(2) have "b \<in> set (decimal (n div 10)) \<or> b = of_nat (48 + n mod 10)"
      by (subst (asm) decimal.simps) auto
    with 1(1) [OF False] show ?thesis by (auto simp: unat_decimal_digit simp del: of_nat_add)
  qed
qed

lemma decimal_nonempty: "decimal n \<noteq> []"
  by (subst decimal.simps) simp

lemma decimal_digit_inject:
  "d < 10 \<Longrightarrow> e < 10 \<Longrightarrow> (of_nat (48 + d) :: byte) = of_nat (48 + e) \<longleftrightarrow> d = e"
  by (metis add_left_cancel unat_decimal_digit)

lemma decimal_inject: "decimal m = decimal n \<longleftrightarrow> m = n"
proof
  show "decimal m = decimal n \<Longrightarrow> m = n"
  proof (induction m arbitrary: n rule: decimal.induct)
    case (1 m)
    consider "m < 10" "n < 10" | "m < 10" "\<not> n < 10" | "\<not> m < 10" "n < 10" | "\<not> m < 10" "\<not> n < 10" by blast
    then show ?case
    proof cases
      case 1
      then have "(of_nat (48 + m) :: byte) = of_nat (48 + n)"
        using "1.prems" decimal.simps [of m] decimal.simps [of n] by (simp del: of_nat_add)
      with 1 show ?thesis using decimal_digit_inject by blast
    next
      case 4
      then have e: "decimal (m div 10) = decimal (n div 10)"
        and d: "(of_nat (48 + m mod 10) :: byte) = of_nat (48 + n mod 10)"
        using "1.prems" decimal.simps [of m] decimal.simps [of n] by (simp_all del: of_nat_add)
      have "m div 10 = n div 10" by (rule "1.IH" [OF 4(1) e])
      moreover have "m mod 10 = n mod 10" using d decimal_digit_inject by simp
      ultimately show ?thesis by (metis div_mult_mod_eq)
    qed (use "1.prems" decimal.simps [of m] decimal.simps [of n] decimal_nonempty decimal_nonempty [THEN not_sym] in auto)
  qed
qed simp

lemma split_at_separator:
  assumes "sep \<notin> set xs" "sep \<notin> set xs'" "xs @ [sep] @ ys = xs' @ [sep] @ ys'"
  shows "xs = xs' \<and> ys = ys'"
  using assms
proof (induction xs arbitrary: xs')
  case Nil
  then show ?case by (cases xs') auto
next
  case (Cons x xs)
  then show ?case by (cases xs') auto
qed

lemma newline_notin_decimal: "10 \<notin> set (decimal n)"
  using decimal_digits [of 10 n] by auto

lemma weight_rows_inject:
  "concat (map weight_row es) = concat (map weight_row es') \<longleftrightarrow> es = es'"
proof
  show "concat (map weight_row es) = concat (map weight_row es') \<Longrightarrow> es = es'"
  proof (induction es arbitrary: es')
    case Nil
    then show ?case by (cases es') (auto simp: weight_row_def)
  next
    case (Cons e es)
    then obtain e' es'' where es': "es' = e' # es''" by (cases es') (auto simp: weight_row_def)
    have "hex (node_bytes (fst e)) @ [58] @ (decimal (snd e) @ [10] @ concat (map weight_row es)) =
      hex (node_bytes (fst e')) @ [58] @ (decimal (snd e') @ [10] @ concat (map weight_row es''))"
      using Cons.prems unfolding es' weight_row_def by simp
    from split_at_separator [OF colon_notin_hex colon_notin_hex this]
    have h: "hex (node_bytes (fst e)) = hex (node_bytes (fst e'))"
      and d: "decimal (snd e) @ [10] @ concat (map weight_row es) = decimal (snd e') @ [10] @ concat (map weight_row es'')"
      by auto
    from split_at_separator [OF newline_notin_decimal newline_notin_decimal d]
    have "snd e = snd e'" "es = es''" using Cons.IH decimal_inject by auto
    moreover have "fst e = fst e'" using h by (simp add: hex_inject node_id.expand)
    ultimately show ?case unfolding es' by (simp add: prod_eq_iff)
  qed
qed simp

end
