(* ===== verification/Cordiality.thy ===== *)
theory Cordiality
  imports Rounds Weights
begin

text \<open>
  Approval (\<open>consensus/approval.rs\<close>), equivocation, cordiality, ratification and
  super-ratification by count and by stake, with the certificates and the memo tables
  (\<open>consensus/cordiality.rs\<close>).  Trace events are not modelled; where the two builds differ
  only in the order a hash set is scanned, the model takes the build without tracing.  The theory
  shows that the memoised queries answer like the plain ones, that approval is Definition 18, and
  that two equivocating blocks are never both ratified while the equivocators stay below the
  bound, for both quorum systems.
\<close>

section \<open>Approval\<close>

record approval_memo =
  observe_cache :: "(block_identity \<times> block_identity list) list"
  approves_cache :: "((block_identity \<times> block_identity) \<times> bool) list"

definition empty_approval_memo :: approval_memo where
  "empty_approval_memo = \<lparr>observe_cache = [], approves_cache = []\<rparr>"

definition approves_uncached :: "blocklace \<Rightarrow> block_identity \<Rightarrow> block_identity \<Rightarrow> bool" where
  "approves_uncached bl approver target =
     (case resolve_identity bl approver of
        None \<Rightarrow> False
      | Some resolved_approver \<Rightarrow>
          let ix = fst (ancestor_index bl) in
          (case (index_of ix resolved_approver, index_of ix target) of
             (Some observer, Some observed) \<Rightarrow> index_approves ix observer observed
           | _ \<Rightarrow> False))"

definition approves_with_memo ::
  "blocklace \<Rightarrow> block_identity \<Rightarrow> block_identity \<Rightarrow> approval_memo \<Rightarrow> bool \<times> approval_memo" where
  "approves_with_memo bl approver target memo =
     (case map_of (approves_cache memo) (approver, target) of
        Some r \<Rightarrow> (r, memo)
      | None \<Rightarrow>
          let r = approves_uncached bl approver target
          in (r, memo\<lparr>approves_cache := AList.update (approver, target) r (approves_cache memo)\<rparr>))"

definition approves :: "blocklace \<Rightarrow> block_identity \<Rightarrow> block_identity \<Rightarrow> bool" where
  "approves bl approver target = fst (approves_with_memo bl approver target empty_approval_memo)"

definition approving_blocks :: "blocklace \<Rightarrow> block_identity \<Rightarrow> block list" where
  "approving_blocks bl target =
     collect_blocks (filter (\<lambda>b. approves bl (identity b) target)
       (List.map_filter (get_block bl) (dom_lace bl)))"

definition weighted_approving_creators_with_memo ::
  "blocklace \<Rightarrow> block list \<Rightarrow> block_identity \<Rightarrow> weight_snapshot \<Rightarrow> approval_memo
     \<Rightarrow> node_id list \<times> approval_memo" where
  "weighted_approving_creators_with_memo bl bs target ws memo =
     (let (approving, memo') = filter_st (\<lambda>b. approves_with_memo bl (identity b) target) bs memo
      in (remdups (List.map_filter (\<lambda>b. if weight_of ws (creator (identity b)) > 0
                                        then Some (creator (identity b)) else None) approving), memo'))"

definition weighted_approving_creators ::
  "blocklace \<Rightarrow> block list \<Rightarrow> block_identity \<Rightarrow> (node_id \<times> nat) list \<Rightarrow> node_id list" where
  "weighted_approving_creators bl bs target bonds =
     fst (weighted_approving_creators_with_memo bl bs target (from_bonds bonds) empty_approval_memo)"

section \<open>Equivocation and cordiality\<close>

record equivocation =
  eq_creator :: node_id
  eq_round :: nat
  eq_blocks :: "block_identity list"

record hidden_equivocation =
  hid_creator :: node_id
  hid_round :: nat
  hidden :: "block_identity list"

definition creator_blocks_at_round :: "blocklace \<Rightarrow> node_id \<Rightarrow> nat \<Rightarrow> block list" where
  "creator_blocks_at_round bl nd r = filter (\<lambda>b. creator (identity b) = nd) (blocks_at_depth bl r)"

definition equivocation_blocks_at_round :: "blocklace \<Rightarrow> node_id \<Rightarrow> nat \<Rightarrow> block list" where
  "equivocation_blocks_at_round bl nd r =
     (let bs = creator_blocks_at_round bl nd r in if length bs \<ge> 2 then bs else [])"

definition all_equivocations_with_observer :: "blocklace \<Rightarrow> node_id option \<Rightarrow> equivocation list" where
  "all_equivocations_with_observer bl observer =
     (let ds = List.map_filter (depth bl) (dom_lace bl) in
      if ds = [] then []
      else
        concat (map (\<lambda>nd. List.map_filter (\<lambda>r.
            let bs = map identity (equivocation_blocks_at_round bl nd r) in
            if length bs \<ge> 2 then Some \<lparr>eq_creator = nd, eq_round = r, eq_blocks = bs\<rparr> else None)
          [0..<Max (set ds) + 1])
        (sort (remdups (map creator (dom_lace bl))))))"

definition all_equivocations :: "blocklace \<Rightarrow> equivocation list" where
  "all_equivocations bl = all_equivocations_with_observer bl None"

definition all_equivocations_for_observer :: "blocklace \<Rightarrow> node_id \<Rightarrow> equivocation list" where
  "all_equivocations_for_observer bl observer = all_equivocations_with_observer bl (Some observer)"

definition observed_block_ids :: "blocklace \<Rightarrow> block \<Rightarrow> block_identity list" where
  "observed_block_ids bl b = remdups (concat (map (observe bl) (predecessors (content b))))"

definition acknowledges_equivocation :: "blocklace \<Rightarrow> block \<Rightarrow> node_id \<Rightarrow> nat \<Rightarrow> bool" where
  "acknowledges_equivocation bl b nd r =
     (let eqs = equivocation_blocks_at_round bl nd r in
      if eqs = [] then True
      else list_all (\<lambda>e. identity e \<in> set (observed_block_ids bl b)) eqs)"

definition hidden_equivocations :: "blocklace \<Rightarrow> block \<Rightarrow> hidden_equivocation list" where
  "hidden_equivocations bl b =
     (let observed = observed_block_ids bl b in
      List.map_filter (\<lambda>e.
        let hid = filter (\<lambda>i. i \<notin> set observed) (eq_blocks e) in
        if hid = [] then None
        else Some \<lparr>hid_creator = eq_creator e, hid_round = eq_round e, hidden = hid\<rparr>)
      (all_equivocations bl))"

definition missing_known_tips :: "block \<Rightarrow> (node_id \<times> block_identity) list \<Rightarrow> block_identity list" where
  "missing_known_tips b known_tips =
     sort (filter (\<lambda>tip. \<not> same_consensus_identity (identity b) tip \<and>
        \<not> list_ex (\<lambda>p. same_consensus_identity p tip) (predecessors (content b))) (map snd known_tips))"

definition is_cordial_block :: "blocklace \<Rightarrow> block \<Rightarrow> (node_id \<times> block_identity) list \<Rightarrow> bool" where
  "is_cordial_block bl b known_tips \<longleftrightarrow>
     missing_known_tips b known_tips = [] \<and> hidden_equivocations bl b = []"

section \<open>Ratification by count\<close>

definition ratifies :: "blocklace \<Rightarrow> block \<Rightarrow> block \<Rightarrow> nat \<Rightarrow> nat \<Rightarrow> bool" where
  "ratifies bl rat target n f =
     (let observed_ids = observe bl (identity rat);
          approving = collect_blocks (filter (\<lambda>b. approves bl (identity b) (identity target))
            (List.map_filter (get_block bl) observed_ids))
      in is_supermajority approving n f)"

definition super_ratifies :: "blocklace \<Rightarrow> block list \<Rightarrow> block \<Rightarrow> nat \<Rightarrow> nat \<Rightarrow> bool" where
  "super_ratifies bl bs target n f =
     is_supermajority (filter (\<lambda>b. ratifies bl b target n f) bs) n f"

section \<open>Ratification by stake\<close>

record weighted_ratification_memo =
  approval_memo :: approval_memo
  weighted_ratifies_cache :: "((block_identity \<times> block_identity) \<times> bool) list"

definition empty_ratification_memo :: weighted_ratification_memo where
  "empty_ratification_memo = \<lparr>approval_memo = empty_approval_memo, weighted_ratifies_cache = []\<rparr>"

definition observe_entry ::
  "blocklace \<Rightarrow> block_identity \<Rightarrow> approval_memo \<Rightarrow> block_identity list \<times> approval_memo" where
  "observe_entry bl i memo =
     (case map_of (observe_cache memo) i of
        Some seen \<Rightarrow> (seen, memo)
      | None \<Rightarrow> let seen = observe bl i
                in (seen, memo\<lparr>observe_cache := AList.update i seen (observe_cache memo)\<rparr>))"

definition weighted_ratification_outcome ::
  "blocklace \<Rightarrow> block \<Rightarrow> block \<Rightarrow> weight_snapshot \<Rightarrow> weighted_ratification_memo
     \<Rightarrow> threshold_certificate option \<times> weighted_ratification_memo" where
  "weighted_ratification_outcome bl rat target ws memo =
     (if get_block bl (identity rat) = None \<or> get_block bl (identity target) = None then (None, memo)
      else
        let (observed_ids, am1) = observe_entry bl (identity rat) (approval_memo memo);
            observed_blocks = collect_blocks (List.map_filter (get_block bl) observed_ids);
            (approving_creators, am2) =
              weighted_approving_creators_with_memo bl observed_blocks (identity target) ws am1
        in
        if \<not> is_weighted_supermajority_snapshot approving_creators ws
        then (None, memo\<lparr>approval_memo := am2\<rparr>)
        else
          let (approving, am3) =
                filter_st (\<lambda>b. approves_with_memo bl (identity b) (identity target)) observed_blocks am2;
              approver_ids = map identity (filter (\<lambda>b. weight_of ws (creator (identity b)) > 0) approving)
          in (Some (new_certificate Ratification (identity target) (Some (identity rat))
                approver_ids approving_creators ws),
              memo\<lparr>approval_memo := am3\<rparr>))"

definition weighted_ratification_certificate_with_memo ::
  "blocklace \<Rightarrow> block \<Rightarrow> block \<Rightarrow> weight_snapshot \<Rightarrow> weighted_ratification_memo
     \<Rightarrow> threshold_certificate option \<times> weighted_ratification_memo" where
  "weighted_ratification_certificate_with_memo bl rat target ws memo =
     weighted_ratification_outcome bl rat target ws memo"

definition weighted_ratifies_with_memo ::
  "blocklace \<Rightarrow> block \<Rightarrow> weight_snapshot \<Rightarrow> block \<Rightarrow> weighted_ratification_memo
     \<Rightarrow> bool \<times> weighted_ratification_memo" where
  "weighted_ratifies_with_memo bl target ws rat memo =
     (case map_of (weighted_ratifies_cache memo) (identity rat, identity target) of
        Some r \<Rightarrow> (r, memo)
      | None \<Rightarrow>
          let (cert, memo1) = weighted_ratification_certificate_with_memo bl rat target ws memo;
              r = (cert \<noteq> None)
          in (r, memo1\<lparr>weighted_ratifies_cache :=
                AList.update (identity rat, identity target) r (weighted_ratifies_cache memo1)\<rparr>))"

definition weighted_ratifies :: "blocklace \<Rightarrow> block \<Rightarrow> block \<Rightarrow> (node_id \<times> nat) list \<Rightarrow> bool" where
  "weighted_ratifies bl rat target bonds =
     fst (weighted_ratifies_with_memo bl target (from_bonds bonds) rat empty_ratification_memo)"

definition weighted_ratifies_certificate ::
  "blocklace \<Rightarrow> block \<Rightarrow> block \<Rightarrow> (node_id \<times> nat) list \<Rightarrow> threshold_certificate option" where
  "weighted_ratifies_certificate bl rat target bonds =
     fst (weighted_ratification_certificate_with_memo bl rat target (from_bonds bonds)
       empty_ratification_memo)"

definition weighted_super_ratification_outcome ::
  "blocklace \<Rightarrow> block list \<Rightarrow> block \<Rightarrow> weight_snapshot \<Rightarrow> weighted_ratification_memo
     \<Rightarrow> threshold_certificate option \<times> weighted_ratification_memo" where
  "weighted_super_ratification_outcome bl bs target ws memo =
     (let ordered = sort_key identity bs;
          (ratifying0, memo') = filter_st (weighted_ratifies_with_memo bl target ws) ordered memo;
          ratifying = filter (\<lambda>b. weight_of ws (creator (identity b)) > 0) ratifying0;
          ratifying_creators = remdups (map (\<lambda>b. creator (identity b)) ratifying)
      in
      if \<not> is_weighted_supermajority_snapshot ratifying_creators ws then (None, memo')
      else (Some (new_certificate SuperRatification (identity target) None
              (map identity ratifying) ratifying_creators ws), memo'))"

definition weighted_super_ratification_certificate_with_memo ::
  "blocklace \<Rightarrow> block list \<Rightarrow> block \<Rightarrow> weight_snapshot \<Rightarrow> weighted_ratification_memo
     \<Rightarrow> threshold_certificate option \<times> weighted_ratification_memo" where
  "weighted_super_ratification_certificate_with_memo bl bs target ws memo =
     weighted_super_ratification_outcome bl bs target ws memo"

definition weighted_super_ratifies_with_memo ::
  "blocklace \<Rightarrow> block list \<Rightarrow> block \<Rightarrow> weight_snapshot \<Rightarrow> weighted_ratification_memo
     \<Rightarrow> bool \<times> weighted_ratification_memo" where
  "weighted_super_ratifies_with_memo bl bs target ws memo =
     (let (cert, memo') = weighted_super_ratification_certificate_with_memo bl bs target ws memo
      in (cert \<noteq> None, memo'))"

definition weighted_super_ratifies_with_snapshot ::
  "blocklace \<Rightarrow> block list \<Rightarrow> block \<Rightarrow> weight_snapshot \<Rightarrow> bool" where
  "weighted_super_ratifies_with_snapshot bl bs target ws =
     fst (weighted_super_ratifies_with_memo bl bs target ws empty_ratification_memo)"

definition weighted_super_ratifies ::
  "blocklace \<Rightarrow> block list \<Rightarrow> block \<Rightarrow> (node_id \<times> nat) list \<Rightarrow> bool" where
  "weighted_super_ratifies bl bs target bonds =
     weighted_super_ratifies_with_snapshot bl bs target (from_bonds bonds)"

definition weighted_super_ratifies_certificate_with_snapshot ::
  "blocklace \<Rightarrow> block list \<Rightarrow> block \<Rightarrow> weight_snapshot \<Rightarrow> threshold_certificate option" where
  "weighted_super_ratifies_certificate_with_snapshot bl bs target ws =
     fst (weighted_super_ratification_certificate_with_memo bl bs target ws empty_ratification_memo)"

definition weighted_super_ratifies_certificate ::
  "blocklace \<Rightarrow> block list \<Rightarrow> block \<Rightarrow> (node_id \<times> nat) list \<Rightarrow> threshold_certificate option" where
  "weighted_super_ratifies_certificate bl bs target bonds =
     weighted_super_ratifies_certificate_with_snapshot bl bs target (from_bonds bonds)"

section \<open>Approval is Definition 18\<close>

lemma approves_eq_uncached: "approves bl a t = approves_uncached bl a t"
  by (simp add: approves_def approves_with_memo_def empty_approval_memo_def Let_def)

lemma observe_resolved: "resolve_identity bl i = Some r \<Longrightarrow> observe bl i = observe bl r"
  by (simp add: observe_def resolve_resolved)

lemma approves_iff:
  assumes "wf_lace bl" "acyclic_lace bl" "slot_ok bl"
  shows "approves bl a t \<longleftrightarrow> approves_spec bl a t"
proof (cases "resolve_identity bl a")
  case None
  then have "observe bl a = []" by (simp add: observe_def)
  with None show ?thesis by (simp add: approves_eq_uncached approves_uncached_def approves_spec_def)
next
  case (Some r)
  have d: "distinct (block_ids bl)" using assms(1) by (simp add: wf_lace_def)
  have pos: "index_of (build_index bl) i = map_of (enumerate_ids (block_ids bl)) i" for i
    by (simp add: index_of_def build_index_def Let_def)
  have "r \<in> set (block_ids bl)" by (rule resolve_SomeD(1) [OF Some])
  then obtain ri where ri: "map_of (enumerate_ids (block_ids bl)) r = Some ri"
    using position_None [of "block_ids bl" r] by blast
  note ri' = ri [unfolded position_iff [OF d]]
  show ?thesis
  proof (cases "t \<in> set (block_ids bl)")
    case True
    then obtain ti where ti: "map_of (enumerate_ids (block_ids bl)) t = Some ti"
      using position_None [of "block_ids bl" t] by blast
    note ti' = ti [unfolded position_iff [OF d]]
    have "approves bl a t \<longleftrightarrow> index_approves (build_index bl) ri ti"
      using Some ri ti by (simp add: approves_eq_uncached approves_uncached_def ancestor_index_fst [OF assms(3)] pos)
    also have "\<dots> \<longleftrightarrow> approves_spec bl r t"
      using index_approves_iff [OF assms(1,2), of ri ti] ri' ti' by (simp del: nth_map)
    finally show ?thesis by (simp add: approves_spec_def observe_resolved [OF Some])
  next
    case False
    then have "map_of (enumerate_ids (block_ids bl)) t = None" by (simp add: position_None del: set_map)
    then have "\<not> approves bl a t"
      using Some ri by (simp add: approves_eq_uncached approves_uncached_def ancestor_index_fst [OF assms(3)] pos)
    moreover have "t \<notin> set (observe bl a)" using False observe_stored by blast
    ultimately show ?thesis by (simp add: approves_spec_def)
  qed
qed

section \<open>The memo tables\<close>

definition approval_memo_ok :: "blocklace \<Rightarrow> approval_memo \<Rightarrow> bool" where
  "approval_memo_ok bl memo \<longleftrightarrow>
     (\<forall>a t r. map_of (approves_cache memo) (a, t) = Some r \<longrightarrow> r = approves bl a t) \<and>
     (\<forall>i seen. map_of (observe_cache memo) i = Some seen \<longrightarrow> seen = observe bl i)"

lemma approval_memo_ok_empty [simp]: "approval_memo_ok bl empty_approval_memo"
  by (simp add: approval_memo_ok_def empty_approval_memo_def)

interpretation approval: memo_pred "\<lambda>b. approves_with_memo bl (identity b) t" "approval_memo_ok bl"
  "\<lambda>b. approves bl (identity b) t"
  for bl t
  by standard
    (auto simp: approves_with_memo_def approval_memo_ok_def approves_eq_uncached update_conv' Let_def
      split: option.splits if_splits)

definition bonded_creators :: "weight_snapshot \<Rightarrow> block list \<Rightarrow> node_id list" where
  "bonded_creators ws bs = remdups (List.map_filter (\<lambda>b. if weight_of ws (creator (identity b)) > 0
     then Some (creator (identity b)) else None) bs)"

lemma set_bonded_creators:
  "set (bonded_creators ws bs) = {creator (identity b) | b. b \<in> set bs \<and> weight_of ws (creator (identity b)) > 0}"
  by (auto simp: bonded_creators_def split: if_splits)

lemma distinct_bonded_creators [simp]: "distinct (bonded_creators ws bs)"
  by (simp add: bonded_creators_def)

lemma weighted_approving_creators_spec:
  assumes "approval_memo_ok bl memo"
  shows "fst (weighted_approving_creators_with_memo bl bs t ws memo) =
      bonded_creators ws (filter (\<lambda>b. approves bl (identity b) t) bs)"
    and "approval_memo_ok bl (snd (weighted_approving_creators_with_memo bl bs t ws memo))"
  using approval.filter_st_spec [OF assms, of t bs]
  by (auto simp: weighted_approving_creators_with_memo_def bonded_creators_def split_beta Let_def)

lemma observe_entry_spec:
  assumes "approval_memo_ok bl memo"
  shows "fst (observe_entry bl i memo) = observe bl i" "approval_memo_ok bl (snd (observe_entry bl i memo))"
  using assms by (auto simp: observe_entry_def approval_memo_ok_def update_conv' Let_def split: option.splits)

text \<open>The blocks of a ratifier's view that approve a target, and the unmemoised decision.\<close>

definition view_blocks :: "blocklace \<Rightarrow> block_identity \<Rightarrow> block list" where
  "view_blocks bl i = collect_blocks (List.map_filter (get_block bl) (observe bl i))"

definition approving_in_view :: "blocklace \<Rightarrow> block_identity \<Rightarrow> block_identity \<Rightarrow> block list" where
  "approving_in_view bl i t = filter (\<lambda>b. approves bl (identity b) t) (view_blocks bl i)"

definition ratification_certificate ::
  "blocklace \<Rightarrow> weight_snapshot \<Rightarrow> block_identity \<Rightarrow> block_identity \<Rightarrow> threshold_certificate option" where
  "ratification_certificate bl ws t i =
     (let approving = approving_in_view bl i t; creators = bonded_creators ws approving in
      if get_block bl i = None \<or> get_block bl t = None \<or> \<not> is_weighted_supermajority_snapshot creators ws
      then None
      else Some (new_certificate Ratification t (Some i)
        (map identity (filter (\<lambda>b. weight_of ws (creator (identity b)) > 0) approving)) creators ws))"

definition ratification_memo_ok :: "blocklace \<Rightarrow> weight_snapshot \<Rightarrow> weighted_ratification_memo \<Rightarrow> bool" where
  "ratification_memo_ok bl ws memo \<longleftrightarrow> approval_memo_ok bl (approval_memo memo) \<and>
     (\<forall>i t r. map_of (weighted_ratifies_cache memo) (i, t) = Some r \<longrightarrow>
        r = (ratification_certificate bl ws t i \<noteq> None))"

lemma ratification_memo_ok_empty [simp]: "ratification_memo_ok bl ws empty_ratification_memo"
  by (simp add: ratification_memo_ok_def empty_ratification_memo_def)

lemma outcome_spec:
  assumes "ratification_memo_ok bl ws memo"
  shows "fst (weighted_ratification_outcome bl rat target ws memo) =
      ratification_certificate bl ws (identity target) (identity rat)"
    and "ratification_memo_ok bl ws (snd (weighted_ratification_outcome bl rat target ws memo))"
    and "weighted_ratifies_cache (snd (weighted_ratification_outcome bl rat target ws memo)) =
      weighted_ratifies_cache memo"
proof -
  have ok: "approval_memo_ok bl (approval_memo memo)" using assms by (simp add: ratification_memo_ok_def)
  obtain am1 where 1: "observe_entry bl (identity rat) (approval_memo memo) = (observe bl (identity rat), am1)"
    "approval_memo_ok bl am1"
    using observe_entry_spec [OF ok, of "identity rat"] by (metis prod.collapse)
  let ?view = "view_blocks bl (identity rat)"
  let ?app = "approving_in_view bl (identity rat) (identity target)"
  obtain am2 where 2: "weighted_approving_creators_with_memo bl ?view (identity target) ws am1 =
      (bonded_creators ws ?app, am2)" "approval_memo_ok bl am2"
    using weighted_approving_creators_spec [OF 1(2), of ?view "identity target" ws]
    unfolding approving_in_view_def by (metis prod.collapse)
  obtain am3 where 3: "filter_st (\<lambda>b. approves_with_memo bl (identity b) (identity target)) ?view am2 = (?app, am3)"
    "approval_memo_ok bl am3"
    using approval.filter_st_spec [OF 2(2), of "identity target" ?view]
    unfolding approving_in_view_def by (metis prod.collapse)
  note eqs = weighted_ratification_outcome_def 1 2 3 view_blocks_def [symmetric]
    ratification_certificate_def Let_def
  show "fst (weighted_ratification_outcome bl rat target ws memo) =
      ratification_certificate bl ws (identity target) (identity rat)" by (simp add: eqs)
  show "ratification_memo_ok bl ws (snd (weighted_ratification_outcome bl rat target ws memo))"
    using assms 2(2) 3(2) by (simp add: weighted_ratification_outcome_def 1 2 3 view_blocks_def [symmetric]
        ratification_memo_ok_def Let_def)
  show "weighted_ratifies_cache (snd (weighted_ratification_outcome bl rat target ws memo)) =
      weighted_ratifies_cache memo" by (simp add: eqs)
qed

interpretation ratification: memo_pred "weighted_ratifies_with_memo bl target ws"
  "ratification_memo_ok bl ws" "\<lambda>b. ratification_certificate bl ws (identity target) (identity b) \<noteq> None"
  for bl target ws
proof
  fix memo rat assume ok: "ratification_memo_ok bl ws memo"
  obtain c m where o: "weighted_ratification_outcome bl rat target ws memo = (c, m)" by fastforce
  note spec = outcome_spec [OF ok, of rat target, unfolded o fst_conv snd_conv]
  show "fst (weighted_ratifies_with_memo bl target ws rat memo) =
      (ratification_certificate bl ws (identity target) (identity rat) \<noteq> None)"
    using ok spec(1) by (auto simp: weighted_ratifies_with_memo_def weighted_ratification_certificate_with_memo_def
        o ratification_memo_ok_def Let_def split: option.splits)
  show "ratification_memo_ok bl ws (snd (weighted_ratifies_with_memo bl target ws rat memo))"
    using ok spec by (auto simp: weighted_ratifies_with_memo_def weighted_ratification_certificate_with_memo_def
        o ratification_memo_ok_def update_conv' Let_def split: option.splits)
qed

text \<open>The unmemoised super-ratification decision.\<close>

definition ratifying_blocks :: "blocklace \<Rightarrow> weight_snapshot \<Rightarrow> block_identity \<Rightarrow> block list \<Rightarrow> block list" where
  "ratifying_blocks bl ws t bs =
     filter (\<lambda>b. ratification_certificate bl ws t (identity b) \<noteq> None \<and> weight_of ws (creator (identity b)) > 0)
       (sort_key identity bs)"

definition super_certificate ::
  "blocklace \<Rightarrow> weight_snapshot \<Rightarrow> block_identity \<Rightarrow> block list \<Rightarrow> threshold_certificate option" where
  "super_certificate bl ws t bs =
     (let ratifying = ratifying_blocks bl ws t bs;
          creators = remdups (map (\<lambda>b. creator (identity b)) ratifying) in
      if \<not> is_weighted_supermajority_snapshot creators ws then None
      else Some (new_certificate SuperRatification t None (map identity ratifying) creators ws))"

lemma ratification_certificate_iff:
  "ratification_certificate bl ws t i \<noteq> None \<longleftrightarrow> get_block bl i \<noteq> None \<and> get_block bl t \<noteq> None \<and>
     is_weighted_supermajority_snapshot (bonded_creators ws (approving_in_view bl i t)) ws"
  by (auto simp: ratification_certificate_def Let_def)

lemma super_certificate_iff:
  "super_certificate bl ws t bs \<noteq> None \<longleftrightarrow>
     is_weighted_supermajority_snapshot (remdups (map (\<lambda>b. creator (identity b)) (ratifying_blocks bl ws t bs))) ws"
  by (simp add: super_certificate_def Let_def)

lemma super_outcome_spec:
  assumes "ratification_memo_ok bl ws memo"
  shows "fst (weighted_super_ratification_outcome bl bs target ws memo) =
      super_certificate bl ws (identity target) bs"
    and "ratification_memo_ok bl ws (snd (weighted_super_ratification_outcome bl bs target ws memo))"
proof -
  let ?P = "\<lambda>b. ratification_certificate bl ws (identity target) (identity b) \<noteq> None"
  obtain m where m: "filter_st (weighted_ratifies_with_memo bl target ws) (sort_key identity bs) memo =
      (filter ?P (sort_key identity bs), m)" "ratification_memo_ok bl ws m"
    using ratification.filter_st_spec [OF assms, of target "sort_key identity bs"] by (metis prod.collapse)
  show "fst (weighted_super_ratification_outcome bl bs target ws memo) =
      super_certificate bl ws (identity target) bs"
    by (simp add: weighted_super_ratification_outcome_def m super_certificate_def ratifying_blocks_def
        Let_def conj_commute cong: conj_cong filter_cong)
  show "ratification_memo_ok bl ws (snd (weighted_super_ratification_outcome bl bs target ws memo))"
    using m(2) by (simp add: weighted_super_ratification_outcome_def m(1) Let_def)
qed

interpretation super_memo: memo_fn "\<lambda>(bs, target). weighted_super_ratifies_with_memo bl bs target ws"
  "ratification_memo_ok bl ws" "\<lambda>(bs, target). super_certificate bl ws (identity target) bs \<noteq> None"
  for bl ws
  using super_outcome_spec
  by unfold_locales
    (auto simp: weighted_super_ratifies_with_memo_def weighted_super_ratification_certificate_with_memo_def
      split_beta Let_def split: prod.splits)

section \<open>Views\<close>

lemma view_blocks_iff:
  assumes "wf_lace bl"
  shows "b \<in> set (view_blocks bl i) \<longleftrightarrow> stored_block bl b \<and> identity b \<in> set (observe bl i)"
proof -
  let ?l = "List.map_filter (get_block bl) (observe bl i)"
  have l: "set ?l = {b. stored_block bl b \<and> identity b \<in> set (observe bl i)}"
    by (rule set_get_blocks [OF assms observe_stored])
  have "inj_on identity (set ?l)" unfolding l by (rule inj_on_stored [OF assms]) simp
  then show ?thesis using l by (simp add: view_blocks_def set_dedup_by)
qed

lemma approving_in_view_iff:
  assumes "wf_lace bl"
  shows "b \<in> set (approving_in_view bl i t) \<longleftrightarrow>
    stored_block bl b \<and> identity b \<in> set (observe bl i) \<and> approves bl (identity b) t"
  using view_blocks_iff [OF assms] by (auto simp: approving_in_view_def)

lemma dedup_filter_id: "dedup_by g (filter P (dedup_by g xs)) = filter P (dedup_by g xs)"
  by (rule dedup_by_id) (rule distinct_map_filter, rule distinct_dedup_by)

lemma node_ratifies_view:
  assumes "wf_lace bl"
  shows "ratifies bl rat target n f \<longleftrightarrow>
    is_supermajority (approving_in_view bl (identity rat) (identity target)) n f"
proof -
  let ?l = "List.map_filter (get_block bl) (observe bl (identity rat))"
  let ?P = "\<lambda>b. approves bl (identity b) (identity target)"
  have "inj_on identity (set ?l)"
    unfolding set_get_blocks [OF assms observe_stored] by (rule inj_on_stored [OF assms]) simp
  moreover from this have "inj_on identity (set (filter ?P ?l))" by (rule inj_on_subset) auto
  ultimately have "set (collect_blocks (filter ?P ?l)) = set (filter ?P ?l)" "set (collect_blocks ?l) = set ?l"
    using set_dedup_by by blast+
  then have "set (collect_blocks (filter ?P ?l)) = set (approving_in_view bl (identity rat) (identity target))"
    by (simp add: approving_in_view_def view_blocks_def)
  then show ?thesis
    by (simp add: ratifies_def Let_def is_supermajority_def length_remdups_card_conv)
qed

section \<open>No two equivocating blocks are ratified\<close>

text \<open>A validator whose blocks form a chain never approves two equivocating siblings.\<close>

lemma chain_supports_one:
  assumes wf: "wf_lace bl" and chain: "satisfies_chain_axiom bl p"
    and a: "a \<in> set (block_ids bl)" "creator a = p" "approves_spec bl a t"
    and b: "b \<in> set (block_ids bl)" "creator b = p" "approves_spec bl b u"
    and stored: "t \<in> set (block_ids bl)"
  shows "\<not> equivocating_sibling bl t u"
proof
  assume eq: "equivocating_sibling bl t u"
  then have eq': "equivocating_sibling bl u t"
    using stored incomparable_sym by (auto simp: equivocating_sibling_def)
  have sub: "set (observe bl y) \<subseteq> set (observe bl x)"
    if "x \<in> set (block_ids bl)" "y \<in> set (block_ids bl)" "(x, y) \<in> (points bl)\<^sup>*" for x y
    using that by (auto simp: set_observe simp del: set_map)
  have "(a, b) \<in> (points bl)\<^sup>* \<or> (b, a) \<in> (points bl)\<^sup>*"
    using chain [unfolded chain_axiom_iff [OF wf]] a(1,2) b(1,2) trancl_into_rtrancl by (metis rtrancl.rtrancl_refl)
  then show False
  proof
    assume "(a, b) \<in> (points bl)\<^sup>*"
    then have "u \<in> set (observe bl a)" using sub [OF a(1) b(1)] b(3) by (auto simp: approves_spec_def)
    with a(3) eq show False by (auto simp: approves_spec_def)
  next
    assume "(b, a) \<in> (points bl)\<^sup>*"
    then have "t \<in> set (observe bl b)" using sub [OF b(1) a(1)] a(3) by (auto simp: approves_spec_def)
    with b(3) eq' show False by (auto simp: approves_spec_def)
  qed
qed

lemma set_all_nodes: "set (all_nodes bl) = creator ` set (block_ids bl)"
  by (auto simp: all_nodes_def)

lemma set_find_equivacators:
  "set (find_equivacators bl) = {nd \<in> creator ` set (block_ids bl). \<not> satisfies_chain_axiom bl nd}"
  by (simp add: find_equivacators_def set_all_nodes)

definition supports :: "blocklace \<Rightarrow> node_id \<Rightarrow> block_identity \<Rightarrow> bool" where
  "supports bl p t \<longleftrightarrow> (\<exists>a \<in> set (block_ids bl). creator a = p \<and> approves_spec bl a t)"

lemma supports_stored: "supports bl p t \<Longrightarrow> t \<in> set (block_ids bl)"
  using observe_stored by (auto simp: supports_def approves_spec_def)

lemma honest_supports_one:
  assumes "wf_lace bl" "p \<notin> set (find_equivacators bl)" "supports bl p t" "supports bl p u"
  shows "\<not> equivocating_sibling bl t u"
proof -
  obtain a b where ab: "a \<in> set (block_ids bl)" "creator a = p" "approves_spec bl a t"
    "b \<in> set (block_ids bl)" "creator b = p" "approves_spec bl b u"
    using assms(3,4) unfolding supports_def by blast
  have "satisfies_chain_axiom bl p" using assms(2) ab(1,2) unfolding set_find_equivacators by blast
  from chain_supports_one [OF assms(1) this ab supports_stored [OF assms(3)]] show ?thesis .
qed

lemma approver_supports:
  assumes "wf_lace bl" "acyclic_lace bl" "slot_ok bl" "b \<in> set (approving_in_view bl i t)"
  shows "supports bl (creator (identity b)) t"
  using assms(4) unfolding approving_in_view_iff [OF assms(1)] approves_iff [OF assms(1-3)] supports_def
  by (auto dest: stored_block_id simp del: set_map)

lemma count_safety:
  assumes ok: "wf_lace bl" "acyclic_lace bl" "slot_ok bl"
    and "card (set (all_nodes bl)) \<le> n" "card (set (find_equivacators bl)) \<le> f" and fits: "n + f < 2 ^ 64"
    and r1: "ratifies bl b1 t1 n f" and r2: "ratifies bl b2 t2 n f"
  shows "\<not> equivocating_sibling bl (identity t1) (identity t2)"
proof -
  let ?A = "\<lambda>b t. node ` set (approving_in_view bl (identity b) (identity t))"
  have q: "count_quorum (set (all_nodes bl)) n f (?A b t)" if "ratifies bl b t n f" for b t
  proof (rule supermajority_count)
    show "is_supermajority (approving_in_view bl (identity b) (identity t)) n f"
      using that node_ratifies_view [OF ok(1)] by blast
    show "?A b t \<subseteq> set (all_nodes bl)"
      by (auto simp: approving_in_view_iff [OF ok(1)] set_all_nodes node_def simp del: set_map
          intro!: imageI stored_block_id)
  qed (use assms(4) fits in auto)
  have sup: "supports bl p (identity t)" if "p \<in> ?A b t" for p b t
    using that approver_supports [OF ok, of _ "identity b" "identity t"] by (auto simp: node_def)
  have F: "count_tolerable f (set (find_equivacators bl))" using assms(5) by (simp add: count_tolerable_def)
  show ?thesis
    using count.agreement [OF q [OF r1] q [OF r2] F, of "supports bl" "identity t1" "identity t2"
        "equivocating_sibling bl"] sup honest_supports_one [OF ok(1)] by blast
qed

lemma ratification_certificate_Some:
  assumes "ratification_certificate bl ws t i = Some cert"
  shows "is_weighted_supermajority_snapshot (bonded_creators ws (approving_in_view bl i t)) ws"
    and "cert = new_certificate Ratification t (Some i)
      (map identity (filter (\<lambda>b. weight_of ws (creator (identity b)) > 0) (approving_in_view bl i t)))
      (bonded_creators ws (approving_in_view bl i t)) ws"
  using assms by (auto simp: ratification_certificate_def Let_def split: if_splits)

lemma stake_safety:
  assumes ok: "wf_lace bl" "acyclic_lace bl" "slot_ok bl" "wf_snapshot ws"
    and F: "stake_tolerable ws (set (find_equivacators bl))"
    and r: "ratification_certificate bl ws t1 b1 \<noteq> None" "ratification_certificate bl ws t2 b2 \<noteq> None"
  shows "\<not> equivocating_sibling bl t1 t2"
proof -
  let ?A = "\<lambda>b t. set (bonded_creators ws (approving_in_view bl b t))"
  have q: "stake_quorum ws (?A b t)" if "ratification_certificate bl ws t b \<noteq> None" for b t
    using that ratification_certificate_Some(1) [of bl ws t b]
    by (intro weighted_supermajority_stake [OF ok(4)]) auto
  have sup: "supports bl p t" if "p \<in> ?A b t" for p b t
    using that approver_supports [OF ok(1-3)] by (auto simp: set_bonded_creators)
  show ?thesis
    using stake.agreement [OF q [OF r(1)] q [OF r(2)] F, of "supports bl" t1 t2 "equivocating_sibling bl"]
      sup honest_supports_one [OF ok(1)] by blast
qed

lemma super_certificate_ratifier:
  assumes "super_certificate bl ws t bs = Some cert"
  shows "\<exists>b \<in> set bs. ratification_certificate bl ws t (identity b) \<noteq> None"
proof -
  let ?c = "remdups (map (\<lambda>b. creator (identity b)) (ratifying_blocks bl ws t bs))"
  have "is_weighted_supermajority_snapshot ?c ws"
    using assms by (auto simp: super_certificate_def Let_def split: if_splits)
  then have "ratifying_blocks bl ws t bs \<noteq> []"
    by (auto simp: is_weighted_supermajority_snapshot_def checked_bond_weight_def strict_two_thirds_def
        checked_mul_def split: option.splits if_splits)
  then show ?thesis by (auto simp: ratifying_blocks_def filter_empty_conv)
qed

end
