(* ===== verification/Finality.thy ===== *)
theory Finality
  imports Cordiality
begin

text \<open>
  Final leaders (\<open>consensus/finality.rs\<close>), by count and by stake: the per-wave predicates and
  the two backward scans over an index of rounds, one of them with a shared memo.  The theory
  shows that the scans agree with the per-wave predicates and that two equivocating leader blocks
  are never both final.
\<close>

section \<open>Per-wave predicates\<close>

definition leader_block_for_wave ::
  "blocklace \<Rightarrow> nat \<Rightarrow> nat \<Rightarrow> leader_selection \<Rightarrow> block_identity option" where
  "leader_block_for_wave bl wave wavelength sel =
     (let leader_blocks = map identity (leader_blocks_of_wave bl wave wavelength sel) in
      if length leader_blocks \<noteq> 1 then None else Some (last leader_blocks))"

definition wave_witnesses :: "blocklace \<Rightarrow> nat \<Rightarrow> nat \<Rightarrow> block list" where
  "wave_witnesses bl candidate_round last_round =
     collect_blocks (concat (map (blocks_at_depth bl) [candidate_round..<last_round + 1]))"

definition is_final_leader ::
  "blocklace \<Rightarrow> block_identity \<Rightarrow> nat \<Rightarrow> nat \<Rightarrow> nat \<Rightarrow> leader_selection \<Rightarrow> bool" where
  "is_final_leader bl candidate wavelength n f sel =
     (case get_block bl candidate of None \<Rightarrow> False
      | Some candidate_block \<Rightarrow>
     (case depth bl candidate of None \<Rightarrow> False
      | Some candidate_round \<Rightarrow>
     (case wave_of_round candidate_round wavelength of None \<Rightarrow> False
      | Some wave \<Rightarrow>
          if \<not> list_ex (\<lambda>b. identity b = candidate) (leader_blocks_of_wave bl wave wavelength sel)
          then False
          else
     (case last_round_of_wave wave wavelength of None \<Rightarrow> False
      | Some last_round \<Rightarrow>
          super_ratifies bl (wave_witnesses bl candidate_round last_round) candidate_block n f))))"

definition final_leader_for_wave ::
  "blocklace \<Rightarrow> nat \<Rightarrow> nat \<Rightarrow> nat \<Rightarrow> nat \<Rightarrow> leader_selection \<Rightarrow> block_identity option" where
  "final_leader_for_wave bl wave wavelength n f sel =
     (case leader_block_for_wave bl wave wavelength sel of None \<Rightarrow> None
      | Some ldr \<Rightarrow> if is_final_leader bl ldr wavelength n f sel then Some ldr else None)"

definition weighted_final_leader_certificate ::
  "blocklace \<Rightarrow> block_identity \<Rightarrow> nat \<Rightarrow> (node_id \<times> nat) list \<Rightarrow> leader_selection
     \<Rightarrow> threshold_certificate option" where
  "weighted_final_leader_certificate bl candidate wavelength bonds sel =
     (case get_block bl candidate of None \<Rightarrow> None
      | Some candidate_block \<Rightarrow>
     (case depth bl candidate of None \<Rightarrow> None
      | Some candidate_round \<Rightarrow>
     (case wave_of_round candidate_round wavelength of None \<Rightarrow> None
      | Some wave \<Rightarrow>
          if \<not> list_ex (\<lambda>b. identity b = candidate) (leader_blocks_of_wave bl wave wavelength sel)
          then None
          else
     (case last_round_of_wave wave wavelength of None \<Rightarrow> None
      | Some last_round \<Rightarrow>
          weighted_super_ratifies_certificate_with_snapshot bl
            (wave_witnesses bl candidate_round last_round) candidate_block (from_bonds bonds)))))"

definition is_weighted_final_leader ::
  "blocklace \<Rightarrow> block_identity \<Rightarrow> nat \<Rightarrow> (node_id \<times> nat) list \<Rightarrow> leader_selection \<Rightarrow> bool" where
  "is_weighted_final_leader bl candidate wavelength bonds sel \<longleftrightarrow>
     weighted_final_leader_certificate bl candidate wavelength bonds sel \<noteq> None"

definition weighted_final_leader_for_wave ::
  "blocklace \<Rightarrow> nat \<Rightarrow> nat \<Rightarrow> (node_id \<times> nat) list \<Rightarrow> leader_selection \<Rightarrow> block_identity option" where
  "weighted_final_leader_for_wave bl wave wavelength bonds sel =
     (case leader_block_for_wave bl wave wavelength sel of None \<Rightarrow> None
      | Some ldr \<Rightarrow> if is_weighted_final_leader bl ldr wavelength bonds sel then Some ldr else None)"

section \<open>The scans over the round index\<close>

type_synonym round_index = "(nat \<times> block list) list"

definition build_round_index :: "blocklace \<Rightarrow> depth_cache \<Rightarrow> round_index" where
  "build_round_index bl depths =
     fold (\<lambda>(r, b) m. push_entry r b m)
       (List.map_filter (\<lambda>(i, r). map_option (\<lambda>b. (r, b)) (get_block bl i)) depths) []"

definition unique_leader_block_from_index ::
  "round_index \<Rightarrow> nat \<Rightarrow> nat \<Rightarrow> leader_selection \<Rightarrow> block option" where
  "unique_leader_block_from_index rounds wave wavelength sel =
     (case sel wave of None \<Rightarrow> None
      | Some ldr \<Rightarrow>
     (case checked_mul 64 wave wavelength of None \<Rightarrow> None
      | Some leader_round \<Rightarrow>
     (case map_of rounds leader_round of None \<Rightarrow> None
      | Some bs \<Rightarrow>
     (case filter (\<lambda>b. creator (identity b) = ldr) bs of
        [] \<Rightarrow> None
      | first # others \<Rightarrow> if others \<noteq> [] then None else Some first))))"

definition witness_blocks_from_index :: "round_index \<Rightarrow> nat \<Rightarrow> nat \<Rightarrow> block list" where
  "witness_blocks_from_index rounds start_round end_round =
     collect_blocks (concat (map (\<lambda>r. case map_of rounds r of None \<Rightarrow> [] | Some bs \<Rightarrow> bs)
       [start_round..<end_round + 1]))"

definition scan_wave ::
  "blocklace \<Rightarrow> depth_cache \<Rightarrow> round_index \<Rightarrow> nat \<Rightarrow> nat \<Rightarrow> nat \<Rightarrow> leader_selection \<Rightarrow> nat
     \<Rightarrow> block_identity option" where
  "scan_wave bl depths rounds wavelength n f sel wave =
     (case unique_leader_block_from_index rounds wave wavelength sel of None \<Rightarrow> None
      | Some ldr \<Rightarrow>
          if checkpoint bl = Some (identity ldr) then Some (identity ldr)
          else
     (case map_of depths (identity ldr) of None \<Rightarrow> None
      | Some candidate_round \<Rightarrow>
     (case last_round_of_wave wave wavelength of None \<Rightarrow> None
      | Some last_round \<Rightarrow>
          if super_ratifies bl (witness_blocks_from_index rounds candidate_round last_round) ldr n f
          then Some (identity ldr) else None)))"

definition latest_final_leader ::
  "blocklace \<Rightarrow> nat \<Rightarrow> nat \<Rightarrow> nat \<Rightarrow> leader_selection \<Rightarrow> block_identity option" where
  "latest_final_leader bl wavelength n f sel =
     (if wavelength = 0 \<or> dom_lace bl = [] then None
      else
        let depths = compute_all_depths bl in
        if depths = [] then None
        else
          let max_round = Max (set (map snd depths));
              rounds = build_round_index bl depths in
          (case wave_of_round max_round wavelength of None \<Rightarrow> None
           | Some latest_wave \<Rightarrow>
               first_some (scan_wave bl depths rounds wavelength n f sel) (rev [0..<latest_wave + 1])))"

definition weighted_scan_wave ::
  "blocklace \<Rightarrow> depth_cache \<Rightarrow> round_index \<Rightarrow> nat \<Rightarrow> weight_snapshot \<Rightarrow> leader_selection \<Rightarrow> nat
     \<Rightarrow> weighted_ratification_memo \<Rightarrow> block_identity option \<times> weighted_ratification_memo" where
  "weighted_scan_wave bl depths rounds wavelength ws sel wave memo =
     (case unique_leader_block_from_index rounds wave wavelength sel of None \<Rightarrow> (None, memo)
      | Some ldr \<Rightarrow>
          if checkpoint bl = Some (identity ldr) then (Some (identity ldr), memo)
          else
     (case map_of depths (identity ldr) of None \<Rightarrow> (None, memo)
      | Some candidate_round \<Rightarrow>
     (case last_round_of_wave wave wavelength of None \<Rightarrow> (None, memo)
      | Some last_round \<Rightarrow>
          let (cert, memo') = weighted_super_ratification_certificate_with_memo bl
                (witness_blocks_from_index rounds candidate_round last_round) ldr ws memo
          in (if cert \<noteq> None then Some (identity ldr) else None, memo'))))"

definition latest_weighted_final_leader ::
  "blocklace \<Rightarrow> nat \<Rightarrow> (node_id \<times> nat) list \<Rightarrow> leader_selection \<Rightarrow> block_identity option" where
  "latest_weighted_final_leader bl wavelength bonds sel =
     (if wavelength = 0 \<or> dom_lace bl = [] then None
      else
        let depths = compute_all_depths bl in
        if depths = [] then None
        else
          let max_round = Max (set (map snd depths));
              rounds = build_round_index bl depths in
          (case wave_of_round max_round wavelength of None \<Rightarrow> None
           | Some latest_wave \<Rightarrow>
               fst (first_some_st
                 (weighted_scan_wave bl depths rounds wavelength (from_bonds bonds) sel)
                 (rev [0..<latest_wave + 1]) empty_ratification_memo)))"

section \<open>The index holds the rounds\<close>

lemma map_filter_Cons: "List.map_filter f (x # xs) =
    (case f x of None \<Rightarrow> List.map_filter f xs | Some y \<Rightarrow> y # List.map_filter f xs)"
  by (simp add: List.map_filter_def split: option.split)

lemma map_filter_Nil: "List.map_filter f [] = []"
  by (simp add: List.map_filter_def)

lemma group_filter:
  "map snd (filter (\<lambda>e. fst e = r) (List.map_filter (\<lambda>(i, r). map_option (\<lambda>b. (r, b)) (g i)) ds)) =
     List.map_filter (\<lambda>(i, dep). g i) (filter (\<lambda>(i, dep). dep = r) ds)"
  by (induction ds) (auto simp: map_filter_Cons map_filter_Nil split: option.split)

lemma identity_get_blocks:
  assumes "wf_lace bl" "\<forall>(i, d) \<in> set ds. i \<in> set (block_ids bl)"
  shows "map identity (List.map_filter (\<lambda>(i, d). get_block bl i) ds) = map fst ds"
  using assms(2)
proof (induction ds)
  case (Cons e ds)
  obtain i d where e: "e = (i, d)" by fastforce
  have "i \<in> set (block_ids bl)" using Cons.prems e by simp
  from get_block_stored [OF this] Cons e show ?case by (auto simp: map_filter_Cons)
qed (simp add: map_filter_Nil)

lemma round_blocks_eq:
  assumes "wf_lace bl" "acyclic_lace bl"
  defines "rounds \<equiv> build_round_index bl (compute_all_depths bl)"
  shows "(case map_of rounds r of None \<Rightarrow> [] | Some bs \<Rightarrow> bs) = blocks_at_depth bl r"
proof -
  let ?ds = "filter (\<lambda>(i, dep). dep = r) (compute_all_depths bl)"
  let ?bs = "List.map_filter (\<lambda>(i, dep). get_block bl i) ?ds"
  have "map identity ?bs = map fst ?ds"
    by (rule identity_get_blocks [OF assms(1)])
      (use compute_all_depths_iff(2) [OF assms(1,2)] in \<open>auto simp del: set_map\<close>)
  moreover have "distinct (map fst ?ds)"
    by (rule distinct_map_filter) (rule compute_all_depths_iff(1) [OF assms(1,2)])
  ultimately have "blocks_at_depth bl r = ?bs"
    unfolding blocks_at_depth_def blocks_where_def by (intro dedup_by_id) (simp only:)
  moreover have "map_of rounds r = (case ?bs of [] \<Rightarrow> None | vs \<Rightarrow> Some vs)"
    unfolding rounds_def build_round_index_def map_of_push_entries group_filter ..
  ultimately show ?thesis by (simp split: list.split)
qed

lemma witness_blocks_eq:
  assumes "wf_lace bl" "acyclic_lace bl"
  shows "witness_blocks_from_index (build_round_index bl (compute_all_depths bl)) a b = wave_witnesses bl a b"
  by (simp add: witness_blocks_from_index_def wave_witnesses_def round_blocks_eq [OF assms])

lemma unique_leader_eq:
  assumes "wf_lace bl" "acyclic_lace bl" "wavelength \<noteq> 0"
  shows "unique_leader_block_from_index (build_round_index bl (compute_all_depths bl)) wave wavelength sel =
    (case leader_blocks_of_wave bl wave wavelength sel of [b] \<Rightarrow> Some b | _ \<Rightarrow> None)"
proof (cases "sel wave")
  case (Some ldr)
  show ?thesis
  proof (cases "checked_mul 64 wave wavelength")
    case None
    with assms(3) show ?thesis
      by (simp add: unique_leader_block_from_index_def leader_blocks_of_wave_def leader_round_of_wave_def
          first_round_of_wave_def split: option.split)
  next
    case r: (Some r)
    let ?rounds = "build_round_index bl (compute_all_depths bl)"
    have lb: "leader_blocks_of_wave bl wave wavelength sel =
        filter (\<lambda>b. creator (identity b) = ldr) (blocks_at_depth bl r)"
      using Some r assms(3)
      by (simp add: leader_blocks_of_wave_def leader_round_of_wave_def first_round_of_wave_def)
    show ?thesis
    proof (cases "map_of ?rounds r")
      case None
      then have "blocks_at_depth bl r = []" using round_blocks_eq [OF assms(1,2), of r] by simp
      with None Some r lb show ?thesis by (simp add: unique_leader_block_from_index_def)
    next
      case bs: (Some bs)
      then have "blocks_at_depth bl r = bs" using round_blocks_eq [OF assms(1,2), of r] by simp
      with bs Some r lb show ?thesis
        by (auto simp: unique_leader_block_from_index_def split: list.split)
    qed
  qed
qed (simp add: unique_leader_block_from_index_def leader_blocks_of_wave_def)

lemma leader_block_for_wave_Some:
  "leader_block_for_wave bl wave wavelength sel = Some i \<longleftrightarrow>
     (\<exists>b. leader_blocks_of_wave bl wave wavelength sel = [b] \<and> identity b = i)"
  by (auto simp: leader_block_for_wave_def Let_def length_Suc_conv)

lemma leader_blocks_mem:
  assumes "wf_lace bl" "acyclic_lace bl" "b \<in> set (leader_blocks_of_wave bl wave wavelength sel)"
  shows "stored_block bl b" "has_depth bl (identity b) (wave * wavelength)" "0 < wavelength"
    "sel wave = Some (creator (identity b))" "wave * wavelength < 2 ^ 64"
  using assms(3)
  by (auto simp: leader_blocks_of_wave_def wave_defs blocks_at_depth_def set_blocks_where [OF assms(1,2)]
      split: option.splits if_splits)

text \<open>What the structural checks of the finality predicates see of a leader block.\<close>

lemma leader_checks:
  assumes "wf_lace bl" "acyclic_lace bl" "b \<in> set (leader_blocks_of_wave bl wave wavelength sel)"
  shows "get_block bl (identity b) = Some b" "depth bl (identity b) = Some (wave * wavelength)"
    "wave_of_round (wave * wavelength) wavelength = Some wave"
    "map_of (compute_all_depths bl) (identity b) = Some (wave * wavelength)"
proof -
  note m = leader_blocks_mem [OF assms]
  have i: "identity b \<in> set (block_ids bl)" by (rule stored_block_id [OF m(1)])
  show "get_block bl (identity b) = Some b" using get_block_stored_block [OF assms(1) i] m(1) by blast
  show "depth bl (identity b) = Some (wave * wavelength)" using depth_iff [OF assms(1,2)] m(2) by blast
  show "wave_of_round (wave * wavelength) wavelength = Some wave" using m(3) by (simp add: wave_of_round_def)
  show "map_of (compute_all_depths bl) (identity b) = Some (wave * wavelength)"
    using compute_all_depths_iff [OF assms(1,2)] i m(2) by (simp add: map_of_eq_Some_iff del: set_map)
qed

lemma is_final_leader_leader:
  assumes "wf_lace bl" "acyclic_lace bl" "b \<in> set (leader_blocks_of_wave bl wave wavelength sel)"
  shows "is_final_leader bl (identity b) wavelength n f sel =
    (case last_round_of_wave wave wavelength of None \<Rightarrow> False
     | Some last_round \<Rightarrow> super_ratifies bl (wave_witnesses bl (wave * wavelength) last_round) b n f)"
proof -
  have "list_ex (\<lambda>c. identity c = identity b) (leader_blocks_of_wave bl wave wavelength sel)"
    using assms(3) by (auto simp: list_ex_iff)
  then show ?thesis by (simp add: is_final_leader_def leader_checks [OF assms])
qed

lemma weighted_final_leader_leader:
  assumes "wf_lace bl" "acyclic_lace bl" "b \<in> set (leader_blocks_of_wave bl wave wavelength sel)"
  shows "weighted_final_leader_certificate bl (identity b) wavelength bonds sel =
    (case last_round_of_wave wave wavelength of None \<Rightarrow> None
     | Some last_round \<Rightarrow> super_certificate bl (from_bonds bonds) (identity b)
         (wave_witnesses bl (wave * wavelength) last_round))"
proof -
  have "list_ex (\<lambda>c. identity c = identity b) (leader_blocks_of_wave bl wave wavelength sel)"
    using assms(3) by (auto simp: list_ex_iff)
  then show ?thesis
    by (simp add: weighted_final_leader_certificate_def leader_checks [OF assms] super_outcome_spec(1)
        weighted_super_ratifies_certificate_with_snapshot_def
        weighted_super_ratification_certificate_with_memo_def split: option.split)
qed

section \<open>The scans agree with the per-wave predicates\<close>

lemma scan_wave_eq:
  assumes "wf_lace bl" "acyclic_lace bl" "wavelength \<noteq> 0" "checkpoint bl = None"
  shows "scan_wave bl (compute_all_depths bl) (build_round_index bl (compute_all_depths bl)) wavelength n f sel wave
    = final_leader_for_wave bl wave wavelength n f sel"
proof (cases "leader_block_for_wave bl wave wavelength sel")
  case None
  then have "\<nexists>b. leader_blocks_of_wave bl wave wavelength sel = [b]"
    using leader_block_for_wave_Some [of bl wave wavelength sel] by auto
  with None show ?thesis
    by (auto simp: scan_wave_def final_leader_for_wave_def unique_leader_eq [OF assms(1-3)] split: list.split)
next
  case (Some i)
  then obtain b where b: "leader_blocks_of_wave bl wave wavelength sel = [b]" "identity b = i"
    unfolding leader_block_for_wave_Some by blast
  have mem: "b \<in> set (leader_blocks_of_wave bl wave wavelength sel)" using b(1) by simp
  have "scan_wave bl (compute_all_depths bl) (build_round_index bl (compute_all_depths bl)) wavelength n f sel wave =
    (case last_round_of_wave wave wavelength of None \<Rightarrow> None | Some last_round \<Rightarrow>
       if super_ratifies bl (wave_witnesses bl (wave * wavelength) last_round) b n f then Some i else None)"
    using b assms(4) leader_checks(4) [OF assms(1,2) mem]
    by (simp add: scan_wave_def unique_leader_eq [OF assms(1-3)] witness_blocks_eq [OF assms(1,2)]
        split: option.split)
  also have "\<dots> = final_leader_for_wave bl wave wavelength n f sel"
    using is_final_leader_leader [OF assms(1,2) mem, of n f] b(2)
    by (simp add: final_leader_for_wave_def Some split: option.split)
  finally show ?thesis .
qed

interpretation weighted_scan: memo_scan
  "weighted_scan_wave bl depths rounds wavelength ws sel" "ratification_memo_ok bl ws"
  "\<lambda>wave. fst (weighted_scan_wave bl depths rounds wavelength ws sel wave empty_ratification_memo)"
  for bl depths rounds wavelength ws sel
proof
  fix memo wave assume ok: "ratification_memo_ok bl ws memo"
  note s = super_outcome_spec [OF ok] super_outcome_spec [OF ratification_memo_ok_empty]
  show "fst (weighted_scan_wave bl depths rounds wavelength ws sel wave memo) =
      fst (weighted_scan_wave bl depths rounds wavelength ws sel wave empty_ratification_memo)"
    by (simp add: weighted_scan_wave_def weighted_super_ratification_certificate_with_memo_def
        split_beta Let_def s split: option.split)
  show "ratification_memo_ok bl ws (snd (weighted_scan_wave bl depths rounds wavelength ws sel wave memo))"
    using ok by (simp add: weighted_scan_wave_def weighted_super_ratification_certificate_with_memo_def
        split_beta Let_def s split: option.split)
qed

lemma weighted_scan_wave_eq:
  assumes "wf_lace bl" "acyclic_lace bl" "wavelength \<noteq> 0" "checkpoint bl = None"
  shows "fst (weighted_scan_wave bl (compute_all_depths bl) (build_round_index bl (compute_all_depths bl))
      wavelength (from_bonds bonds) sel wave empty_ratification_memo)
    = weighted_final_leader_for_wave bl wave wavelength bonds sel"
proof (cases "leader_block_for_wave bl wave wavelength sel")
  case None
  then have "\<nexists>b. leader_blocks_of_wave bl wave wavelength sel = [b]"
    using leader_block_for_wave_Some [of bl wave wavelength sel] by auto
  with None show ?thesis
    by (auto simp: weighted_scan_wave_def weighted_final_leader_for_wave_def unique_leader_eq [OF assms(1-3)]
        split: list.split)
next
  case (Some i)
  then obtain b where b: "leader_blocks_of_wave bl wave wavelength sel = [b]" "identity b = i"
    unfolding leader_block_for_wave_Some by blast
  have mem: "b \<in> set (leader_blocks_of_wave bl wave wavelength sel)" using b(1) by simp
  have "fst (weighted_scan_wave bl (compute_all_depths bl) (build_round_index bl (compute_all_depths bl))
      wavelength (from_bonds bonds) sel wave empty_ratification_memo) =
    (case last_round_of_wave wave wavelength of None \<Rightarrow> None | Some last_round \<Rightarrow>
       if super_certificate bl (from_bonds bonds) i (wave_witnesses bl (wave * wavelength) last_round) \<noteq> None
       then Some i else None)"
    using b assms(4) leader_checks(4) [OF assms(1,2) mem]
    by (simp add: weighted_scan_wave_def unique_leader_eq [OF assms(1-3)] witness_blocks_eq [OF assms(1,2)]
        weighted_super_ratification_certificate_with_memo_def super_outcome_spec(1) split_beta Let_def
        split: option.split)
  also have "\<dots> = weighted_final_leader_for_wave bl wave wavelength bonds sel"
    using weighted_final_leader_leader [OF assms(1,2) mem, of bonds] b(2)
    by (simp add: weighted_final_leader_for_wave_def is_weighted_final_leader_def Some split: option.split)
  finally show ?thesis .
qed

definition latest_wave_of :: "blocklace \<Rightarrow> nat \<Rightarrow> nat list" where
  "latest_wave_of bl wavelength = (case max_depth bl of None \<Rightarrow> [] | Some d \<Rightarrow> rev [0..<d div wavelength + 1])"

lemma latest_final_leader_eq:
  assumes "wf_lace bl" "acyclic_lace bl" "wavelength \<noteq> 0" "checkpoint bl = None"
  shows "latest_final_leader bl wavelength n f sel =
    first_some (\<lambda>wave. final_leader_for_wave bl wave wavelength n f sel) (latest_wave_of bl wavelength)"
proof -
  have none: "compute_all_depths bl = []" if "dom_lace bl = []"
    using that by (simp add: compute_all_depths_def)
  have scan: "scan_wave bl (compute_all_depths bl) (build_round_index bl (compute_all_depths bl)) wavelength n f sel
      = (\<lambda>wave. final_leader_for_wave bl wave wavelength n f sel)"
    by (rule ext) (rule scan_wave_eq [OF assms])
  show ?thesis
    using assms(3) none
    by (auto simp: latest_final_leader_def latest_wave_of_def max_depth_def scan Let_def wave_of_round_def
        simp del: upt_Suc)
qed

lemma latest_weighted_final_leader_eq:
  assumes "wf_lace bl" "acyclic_lace bl" "wavelength \<noteq> 0" "checkpoint bl = None"
  shows "latest_weighted_final_leader bl wavelength bonds sel =
    first_some (\<lambda>wave. weighted_final_leader_for_wave bl wave wavelength bonds sel) (latest_wave_of bl wavelength)"
proof -
  have none: "compute_all_depths bl = []" if "dom_lace bl = []"
    using that by (simp add: compute_all_depths_def)
  have scan: "fst (first_some_st (weighted_scan_wave bl (compute_all_depths bl)
        (build_round_index bl (compute_all_depths bl)) wavelength (from_bonds bonds) sel) ws empty_ratification_memo)
      = first_some (\<lambda>wave. weighted_final_leader_for_wave bl wave wavelength bonds sel) ws" for ws
    using weighted_scan.first_some_st_spec [OF ratification_memo_ok_empty]
    by (simp add: weighted_scan_wave_eq [OF assms])
  show ?thesis
    using assms(3) none
    by (auto simp: latest_weighted_final_leader_def latest_wave_of_def max_depth_def scan Let_def
        wave_of_round_def simp del: upt_Suc)
qed

section \<open>Soundness and agreement of finality\<close>

lemma super_ratifies_ratifier:
  "super_ratifies bl bs t n f \<Longrightarrow> \<exists>b \<in> set bs. ratifies bl b t n f"
proof -
  assume "super_ratifies bl bs t n f"
  then have "filter (\<lambda>b. ratifies bl b t n f) bs \<noteq> []"
    by (auto simp: super_ratifies_def is_supermajority_def)
  then show ?thesis by (auto simp: filter_empty_conv)
qed

lemma list_ex_identity: "list_ex (\<lambda>b. identity b = c) bs \<longleftrightarrow> c \<in> identity ` set bs"
  by (auto simp: list_ex_iff)

lemma certificate_with_snapshot_eq:
  "weighted_super_ratifies_certificate_with_snapshot bl bs b ws = super_certificate bl ws (identity b) bs"
  by (simp add: weighted_super_ratifies_certificate_with_snapshot_def
      weighted_super_ratification_certificate_with_memo_def super_outcome_spec(1))

lemma is_final_leaderD:
  assumes "is_final_leader bl c wavelength n f sel"
  obtains b r wave last_round where "get_block bl c = Some b" "depth bl c = Some r"
    "wave_of_round r wavelength = Some wave" "last_round_of_wave wave wavelength = Some last_round"
    "c \<in> identity ` set (leader_blocks_of_wave bl wave wavelength sel)"
    "super_ratifies bl (wave_witnesses bl r last_round) b n f"
  using assms
  by (auto simp only: is_final_leader_def list_ex_identity split: option.splits if_splits)

lemma weighted_final_leaderD:
  assumes "weighted_final_leader_certificate bl c wavelength bonds sel = Some cert"
  obtains b r wave last_round where "get_block bl c = Some b" "depth bl c = Some r"
    "wave_of_round r wavelength = Some wave" "last_round_of_wave wave wavelength = Some last_round"
    "c \<in> identity ` set (leader_blocks_of_wave bl wave wavelength sel)"
    "super_certificate bl (from_bonds bonds) (identity b) (wave_witnesses bl r last_round) = Some cert"
  using assms
  by (auto simp only: weighted_final_leader_certificate_def list_ex_identity certificate_with_snapshot_eq
      split: option.splits if_splits)

lemma leader_stored_self:
  assumes "wf_lace bl" "acyclic_lace bl" "get_block bl c = Some b"
    "c \<in> identity ` set (leader_blocks_of_wave bl wave wavelength sel)"
  shows "identity b = c"
proof -
  obtain l where l: "l \<in> set (leader_blocks_of_wave bl wave wavelength sel)" "identity l = c"
    using assms(4) by auto
  have "c \<in> set (block_ids bl)" using stored_block_id [OF leader_blocks_mem(1) [OF assms(1,2) l(1)]] l(2) by simp
  then show ?thesis using get_block_stored_block [OF assms(1)] assms(3) by blast
qed

lemma super_certificate_sound:
  assumes "wf_lace bl" "wf_snapshot ws" "super_certificate bl ws t bs = Some cert"
  shows "verify_quorum_against cert ws" "leader cert = t" "kind cert = SuperRatification"
    and "\<forall>i \<in> set (approver_blocks cert). ratification_certificate bl ws t i \<noteq> None"
    and "set (approvers cert) = creator ` set (approver_blocks cert)"
proof -
  let ?r = "ratifying_blocks bl ws t bs"
  let ?c = "remdups (map (\<lambda>b. creator (identity b)) ?r)"
  have q: "is_weighted_supermajority_snapshot ?c ws"
    and cert: "cert = new_certificate SuperRatification t None (map identity ?r) ?c ws"
    using assms(3) by (auto simp: super_certificate_def Let_def split: if_splits)
  show "verify_quorum_against cert ws" unfolding cert by (rule new_certificate_verifies [OF _ q]) simp
  show "leader cert = t" "kind cert = SuperRatification" by (simp_all add: cert)
  show "\<forall>i \<in> set (approver_blocks cert). ratification_certificate bl ws t i \<noteq> None"
    by (auto simp: cert ratifying_blocks_def)
  show "set (approvers cert) = creator ` set (approver_blocks cert)" by (auto simp: cert)
qed

end
