(* ===== verification/Xsort.thy ===== *)
theory Xsort
  imports Finality
begin

text \<open>
  The deterministic topological sort \<open>xsort\<close> of \<open>consensus/ordering.rs\<close>: edges within the
  supplied set, in-degrees, and the loop that pops the ready block with the least consensus
  identity.  The theory characterises its result as the greedy sequence over the set and its
  edges, and derives that the result is a topological order of the whole set when the set is
  acyclic, an error otherwise, and independent of every iteration order.
\<close>

section \<open>Definitions\<close>

datatype ordering_error = CycleDetected

type_synonym dependents = "(block_identity \<times> block_identity list) list"
type_synonym indegrees = "(block_identity \<times> nat) list"
type_synonym ready_map = "(block_identity \<times> block_identity) list"

definition unsigned_identity_index ::
  "block_identity list \<Rightarrow> ((byte list \<times> node_id) \<times> block_identity option) list" where
  "unsigned_identity_index ks = fold (\<lambda>k m.
     (case map_of m (content_hash k, creator k) of
        Some _ \<Rightarrow> AList.update (content_hash k, creator k) None m
      | None \<Rightarrow> AList.update (content_hash k, creator k) (Some k) m)) ks []"

definition resolve_in_set :: "block_identity list \<Rightarrow> block_identity \<Rightarrow> block_identity option" where
  "resolve_in_set ks reference =
     (if reference \<in> set ks then Some reference
      else if signature reference = [] then
        (case map_of (unsigned_identity_index ks) (content_hash reference, creator reference) of
           Some (Some resolved) \<Rightarrow> Some resolved
         | _ \<Rightarrow> None)
      else None)"

definition link_pred ::
  "block_identity list \<Rightarrow> block_identity \<Rightarrow> block_identity \<Rightarrow> dependents \<times> indegrees
     \<Rightarrow> dependents \<times> indegrees" where
  "link_pred ks i reference st =
     (case resolve_in_set ks reference of
        None \<Rightarrow> st
      | Some p \<Rightarrow>
          (push_entry p i (fst st),
           AList.update i ((case map_of (snd st) i of None \<Rightarrow> 0 | Some d \<Rightarrow> d) + 1) (snd st)))"

definition link_block :: "block_identity list \<Rightarrow> block \<Rightarrow> dependents \<times> indegrees \<Rightarrow> dependents \<times> indegrees" where
  "link_block ks b st =
     (let i = identity b;
          indegree = (case map_of (snd st) i of None \<Rightarrow> AList.update i 0 (snd st) | Some _ \<Rightarrow> snd st)
      in fold (link_pred ks i) (predecessors (content b)) (fst st, indegree))"

definition initial_ready :: "indegrees \<Rightarrow> ready_map" where
  "initial_ready indegree = fold (\<lambda>(i, degree) m.
     if degree = 0 then bt_insert (consensus_identity i) i m else m) indegree []"

text \<open>
  One popped block releases its dependents.  The branch for a degree that is already zero is the
  underflow of the source's subtraction, which no run reaches.
\<close>

fun release :: "block_identity list \<Rightarrow> indegrees \<times> ready_map \<Rightarrow> indegrees \<times> ready_map" where
  "release [] st = st"
| "release (child # kids) (indegree, ready) =
     (case map_of indegree child of
        None \<Rightarrow> release kids (indegree, ready)
      | Some 0 \<Rightarrow> release kids (indegree, ready)
      | Some (Suc d) \<Rightarrow>
          release kids (AList.update child d indegree,
            if d = 0 then bt_insert (consensus_identity child) child ready else ready))"

definition dependents_of :: "dependents \<Rightarrow> block_identity \<Rightarrow> block_identity list" where
  "dependents_of deps i = (case map_of deps i of None \<Rightarrow> [] | Some cs \<Rightarrow> cs)"

lemma length_bt_insert: "length (bt_insert k v m) \<le> Suc (length m)"
  by (induction k v m rule: bt_insert.induct) auto

lemma sum_update_lower:
  "map_of m k = Some (Suc d) \<Longrightarrow> sum_list (map snd (AList.update k d m)) + 1 = sum_list (map snd m)"
  by (induction m) (auto split: if_splits)

lemma release_measure:
  "length (snd (release cs st)) + sum_list (map snd (fst (release cs st)))
     \<le> length (snd st) + sum_list (map snd (fst st))"
proof (induction cs st rule: release.induct)
  case (2 child kids indegree ready)
  show ?case
  proof (cases "map_of indegree child")
    case (Some n)
    show ?thesis
    proof (cases n)
      case (Suc d)
      show ?thesis
        using 2(3) [OF Some Suc] sum_update_lower [of indegree child d] Some Suc
          length_bt_insert [of "consensus_identity child" child ready]
        by (auto split: if_splits)
    qed (use 2 Some in simp)
  qed (use 2 in simp)
qed simp

function pop_loop :: "dependents \<Rightarrow> indegrees \<Rightarrow> ready_map \<Rightarrow> block_identity list \<Rightarrow> block_identity list" where
  "pop_loop deps indegree [] ordered = ordered"
| "pop_loop deps indegree ((k, i) # ready) ordered =
     (let st = release (dependents_of deps i) (indegree, ready)
      in pop_loop deps (fst st) (snd st) (ordered @ [consensus_identity i]))"
  by pat_completeness auto
termination
proof (relation "measure (\<lambda>(deps, indegree, ready, ordered). length ready + sum_list (map snd indegree))",
    goal_cases)
  case (2 deps indegree k i ready ordered st)
  have "length (snd st) + sum_list (map snd (fst st)) \<le> length ready + sum_list (map snd indegree)"
    using release_measure [of "dependents_of deps i" "(indegree, ready)"] 2 by simp
  then show ?case by simp
qed simp

definition xsort :: "block list \<Rightarrow> ordering_error + block_identity list" where
  "xsort bs =
     (let ks = map identity bs;
          (deps, indegree) = fold (link_block ks) bs ([], []);
          ordered = pop_loop deps indegree (initial_ready indegree) []
      in if length ordered \<noteq> length bs then Inl CycleDetected else Inr ordered)"

section \<open>Greedy sequences\<close>

text \<open>
  \<open>avail\<close> is the set of blocks that may come next after a prefix; a greedy sequence always
  takes the one with the least consensus identity.
\<close>

definition avail :: "block_identity set \<Rightarrow> (block_identity \<times> block_identity) set \<Rightarrow> block_identity set
    \<Rightarrow> block_identity set" where
  "avail V E D = {x \<in> V. x \<notin> D \<and> (\<forall>p. (x, p) \<in> E \<longrightarrow> p \<in> D)}"

inductive greedy :: "block_identity set \<Rightarrow> (block_identity \<times> block_identity) set \<Rightarrow> block_identity list \<Rightarrow> bool"
  for V E where
  greedy_Nil: "greedy V E []"
| greedy_snoc: "greedy V E xs \<Longrightarrow> x \<in> avail V E (set xs) \<Longrightarrow>
     (\<And>y. y \<in> avail V E (set xs) \<Longrightarrow> consensus_identity x \<le> consensus_identity y) \<Longrightarrow> greedy V E (xs @ [x])"

lemma greedy_snocD:
  assumes "greedy V E (xs @ [x])"
  shows "greedy V E xs" "x \<in> avail V E (set xs)"
    "\<And>y. y \<in> avail V E (set xs) \<Longrightarrow> consensus_identity x \<le> consensus_identity y"
  using assms by (auto elim: greedy.cases)

lemma greedy_distinct: "greedy V E xs \<Longrightarrow> distinct xs \<and> set xs \<subseteq> V"
  by (induction rule: greedy.induct) (auto simp: avail_def)

lemma greedy_topological:
  "greedy V E xs \<Longrightarrow> sorted_wrt (\<lambda>x y. (x, y) \<notin> E) xs \<and> (\<forall>x \<in> set xs. \<forall>p. (x, p) \<in> E \<longrightarrow> p \<in> set xs)"
proof (induction rule: greedy.induct)
  case (greedy_snoc xs x)
  have "(y, x) \<notin> E" if "y \<in> set xs" for y using greedy_snoc that by (auto simp: avail_def)
  with greedy_snoc show ?case by (auto simp: sorted_wrt_append avail_def)
qed simp

lemma greedy_take: "greedy V E xs \<Longrightarrow> greedy V E (take n xs)"
proof (induction arbitrary: n rule: greedy.induct)
  case (greedy_snoc xs x)
  then show ?case
    by (cases "n \<le> length xs") (auto intro: greedy.greedy_snoc)
qed (simp add: greedy_Nil)

lemma greedy_prefix_unique:
  assumes "inj_on consensus_identity V"
  shows "greedy V E xs \<Longrightarrow> greedy V E ys \<Longrightarrow> length xs = length ys \<Longrightarrow> xs = ys"
proof (induction arbitrary: ys rule: greedy.induct)
  case greedy_Nil
  then show ?case by simp
next
  case (greedy_snoc xs x)
  have "ys \<noteq> []" using greedy_snoc.prems(2) by auto
  then obtain zs z where ys: "ys = zs @ [z]" by (cases ys rule: rev_cases) simp_all
  note z = greedy_snocD [OF greedy_snoc.prems(1) [unfolded ys]]
  have xs: "xs = zs" using greedy_snoc.IH [OF z(1)] greedy_snoc.prems(2) ys by simp
  have "consensus_identity x \<le> consensus_identity z" "consensus_identity z \<le> consensus_identity x"
    using greedy_snoc.hyps(3) z(2) z(3) greedy_snoc.hyps(2) unfolding xs by blast+
  then have "consensus_identity x = consensus_identity z" by (rule antisym)
  moreover have "x \<in> V" "z \<in> V" using z(2) greedy_snoc.hyps(2) unfolding avail_def by blast+
  ultimately have "x = z" using inj_onD [OF assms] by blast
  then show ?case using ys xs by simp
qed

lemma greedy_unique:
  assumes "inj_on consensus_identity V" "greedy V E xs" "avail V E (set xs) = {}"
    "greedy V E ys" "avail V E (set ys) = {}"
  shows "xs = ys"
proof -
  have le: "length as \<le> length bs"
    if "greedy V E as" "greedy V E bs" "avail V E (set bs) = {}" for as bs
  proof (rule ccontr)
    assume "\<not> length as \<le> length bs"
    then have n: "length bs < length as" by simp
    have "take (length bs) as = bs"
      by (rule greedy_prefix_unique [OF assms(1) greedy_take [OF that(1)] that(2)]) (use n in simp)
    moreover have "greedy V E (take (Suc (length bs)) as)" by (rule greedy_take [OF that(1)])
    moreover have "take (Suc (length bs)) as = take (length bs) as @ [as ! length bs]"
      by (rule take_Suc_conv_app_nth [OF n])
    ultimately have "as ! length bs \<in> avail V E (set bs)" using greedy_snocD(2) by metis
    with that(3) show False by simp
  qed
  have "length xs = length ys"
    using le [OF assms(2,4,5)] le [OF assms(4,2,3)] by (rule antisym)
  from greedy_prefix_unique [OF assms(1,2,4) this] show ?thesis .
qed

lemma greedy_complete_acyclic:
  assumes "greedy V E xs" "set xs = V" "E \<subseteq> V \<times> V"
  shows "acyclic E"
proof -
  have less: "\<exists>i j. i < j \<and> j < length xs \<and> xs ! i = p \<and> xs ! j = x" if "(x, p) \<in> E\<^sup>+" for x p
    using that
  proof (induction rule: trancl_induct)
    case (base p)
    obtain i j where ij: "i < length xs" "xs ! i = p" "j < length xs" "xs ! j = x"
      using assms(2,3) base by (metis SigmaE2 in_set_conv_nth subsetD)
    have "\<not> j < i" using greedy_topological [OF assms(1)] ij base sorted_wrt_nth_less by blast
    moreover have "i \<noteq> j"
    proof
      assume "i = j"
      with ij base have "(x, x) \<in> E" by simp
      moreover have "x \<in> avail V E (set (take j xs))"
        using greedy_take [OF assms(1), of "Suc j"] ij(3,4) greedy_snocD(2)
        by (metis take_Suc_conv_app_nth)
      ultimately show False by (auto simp: avail_def)
    qed
    ultimately have "i < j" by simp
    then show ?case using ij by blast
  next
    case (step p q)
    obtain i j where ij: "i < j" "j < length xs" "xs ! i = p" "xs ! j = x" using step.IH by blast
    obtain k where k: "k < length xs" "xs ! k = q" using assms(2,3) step(2) by (metis SigmaE2 in_set_conv_nth subsetD)
    have "p \<in> avail V E (set (take i xs))"
      using greedy_take [OF assms(1), of "Suc i"] ij greedy_snocD(2)
      by (metis order.strict_trans take_Suc_conv_app_nth)
    then have "q \<in> set (take i xs)" using step(2) by (auto simp: avail_def)
    then obtain l where "l < i" "xs ! l = q" by (auto simp: in_set_conv_nth)
    moreover from this have "l < j" using ij by simp
    ultimately show ?case using ij by blast
  qed
  have "distinct xs" using greedy_distinct [OF assms(1)] by blast
  then show ?thesis
    using less by (metis acyclicI nth_eq_iff_index_eq order.strict_trans less_irrefl)
qed

lemma acyclic_greedy_complete:
  assumes "greedy V E xs" "avail V E (set xs) = {}" "acyclic E" "E \<subseteq> V \<times> V" "finite V"
  shows "set xs = V"
proof (rule ccontr)
  assume "set xs \<noteq> V"
  then obtain x where x: "x \<in> V - set xs" using greedy_distinct [OF assms(1)] by blast
  show False
  proof (rule finite_no_ascent [OF _ x assms(3)])
    show "finite (V - set xs)" using assms(5) by simp
    show "\<exists>y \<in> V - set xs. (z, y) \<in> E" if "z \<in> V - set xs" for z
      using that assms(2,4) by (auto simp: avail_def)
  qed
qed

section \<open>The linking phase\<close>

text \<open>The references that resolve inside the set, one pair per reference, and the edge relation.\<close>

definition link_list :: "block list \<Rightarrow> (block_identity \<times> block_identity) list" where
  "link_list bs = concat (map (\<lambda>b. map (\<lambda>p. (p, identity b))
     (List.map_filter (resolve_in_set (map identity bs)) (predecessors (content b)))) bs)"

definition set_edges :: "block list \<Rightarrow> (block_identity \<times> block_identity) set" where
  "set_edges bs = {(x, p). (p, x) \<in> set (link_list bs)}"

lemma map_of_unsigned_identity_index:
  "map_of (unsigned_identity_index ks) h =
     (case filter (\<lambda>k. (content_hash k, creator k) = h) ks of
        [] \<Rightarrow> None
      | k # rest \<Rightarrow> Some (if rest = [] then Some k else None))"
proof (induction ks rule: rev_induct)
  case Nil
  then show ?case by (simp add: unsigned_identity_index_def)
next
  case (snoc k ks)
  have "unsigned_identity_index (ks @ [k]) =
    (case map_of (unsigned_identity_index ks) (content_hash k, creator k) of
        Some _ \<Rightarrow> AList.update (content_hash k, creator k) None (unsigned_identity_index ks)
      | None \<Rightarrow> AList.update (content_hash k, creator k) (Some k) (unsigned_identity_index ks))"
    unfolding unsigned_identity_index_def by simp
  then show ?case
    using snoc by (auto simp: update_conv' split: option.splits list.splits)
qed

lemma resolve_in_set_Some:
  "resolve_in_set ks r = Some p \<longleftrightarrow> (r \<in> set ks \<and> p = r) \<or>
     (r \<notin> set ks \<and> signature r = [] \<and>
      filter (\<lambda>k. content_hash k = content_hash r \<and> creator k = creator r) ks = [p])"
  by (auto simp: resolve_in_set_def map_of_unsigned_identity_index split: list.split option.splits)

lemma resolve_in_set_mem: "resolve_in_set ks r = Some p \<Longrightarrow> p \<in> set ks"
  unfolding resolve_in_set_Some by (auto dest!: arg_cong [where f = set])

lemma resolve_in_set_iff:
  assumes "inj_on consensus_identity (set ks)" "distinct ks"
  shows "resolve_in_set ks r = Some p \<longleftrightarrow> p \<in> set ks \<and>
    (p = r \<or> signature r = [] \<and> consensus_identity p = consensus_identity r)"
proof -
  let ?P = "\<lambda>k. content_hash k = content_hash r \<and> creator k = creator r"
  have uniq: "filter ?P ks = [p]" if "p \<in> set ks" "consensus_identity p = consensus_identity r"
  proof (rule distinct_set_singleton)
    show "set (filter ?P ks) = {p}"
      using that assms(1) by (auto simp: consensus_identity_eq_iff inj_on_def)
  qed (use assms(2) in simp)
  have memP: "p \<in> set ks \<and> consensus_identity p = consensus_identity r" if "filter ?P ks = [p]"
    using arg_cong [OF that, of set] by (auto simp: consensus_identity_eq_iff)
  have inj: "p = r" if "p \<in> set ks" "r \<in> set ks" "consensus_identity p = consensus_identity r"
    using inj_onD [OF assms(1)] that by blast
  show ?thesis unfolding resolve_in_set_Some using uniq memP inj by blast
qed

lemma link_preds:
  fixes ks :: "block_identity list"
  defines "f \<equiv> \<lambda>ps. List.map_filter (resolve_in_set ks) ps"
  shows "map_of ind i = Some d \<Longrightarrow>
    fst (fold (link_pred ks i) ps (dep, ind)) = fold (\<lambda>(p, x) m. push_entry p x m) (map (\<lambda>p. (p, i)) (f ps)) dep \<and>
    map_of (snd (fold (link_pred ks i) ps (dep, ind))) = (map_of ind)(i \<mapsto> d + length (f ps))"
proof (induction ps arbitrary: dep ind d)
  case Nil
  then show ?case by (auto simp: f_def map_filter_Nil)
next
  case (Cons r ps)
  show ?case
  proof (cases "resolve_in_set ks r")
    case None
    with Cons show ?thesis by (simp add: link_pred_def f_def map_filter_Cons)
  next
    case (Some p)
    have upd: "map_of (AList.update i (d + 1) ind) i = Some (d + 1)" by (simp add: update_conv')
    show ?thesis
      using Cons.IH [OF upd, of "push_entry p i dep"] Some Cons.prems
      by (auto simp: link_pred_def f_def map_filter_Cons update_conv' fun_eq_iff)
  qed
qed

lemma link_blocks:
  fixes ks :: "block_identity list"
  defines "L \<equiv> \<lambda>bs. concat (map (\<lambda>b. map (\<lambda>p. (p, identity b))
      (List.map_filter (resolve_in_set ks) (predecessors (content b)))) bs)"
  assumes "distinct (map identity bs)" "\<And>b. b \<in> set bs \<Longrightarrow> map_of ind (identity b) = None"
  shows "fst (fold (link_block ks) bs (dep, ind)) = fold (\<lambda>(p, x) m. push_entry p x m) (L bs) dep \<and>
    (\<forall>x. map_of (snd (fold (link_block ks) bs (dep, ind))) x =
      (if x \<in> identity ` set bs then Some (length (filter (\<lambda>e. snd e = x) (L bs))) else map_of ind x))"
  using assms(2,3)
proof (induction bs arbitrary: dep ind)
  case Nil
  then show ?case by (simp add: L_def)
next
  case (Cons b bs)
  let ?i = "identity b"
  let ?ps = "predecessors (content b)"
  let ?f = "List.map_filter (resolve_in_set ks) ?ps"
  have none: "map_of ind ?i = None" using Cons.prems(2) by simp
  have start: "map_of (AList.update ?i 0 ind) ?i = Some 0" by (simp add: update_conv')
  define st where "st = fold (link_pred ks ?i) ?ps (dep, AList.update ?i 0 ind)"
  have st: "fst st = fold (\<lambda>(p, x) m. push_entry p x m) (map (\<lambda>p. (p, ?i)) ?f) dep"
    "map_of (snd st) = (map_of ind)(?i \<mapsto> length ?f)"
    using link_preds [OF start, of ks ?ps dep] by (simp_all add: st_def update_conv')
  have LCons: "L (b # bs) = map (\<lambda>p. (p, ?i)) ?f @ L bs" by (simp add: L_def)
  have other: "filter (\<lambda>e. snd e = x) (L bs) = []" if "x \<notin> identity ` set bs" for x
    using that by (auto simp: L_def filter_empty_conv)
  have fresh: "?i \<notin> identity ` set bs" using Cons.prems(1) by simp
  have rest: "map_of (snd st) (identity c) = None" if "c \<in> set bs" for c
    using Cons.prems(2) [of c] that fresh by (auto simp: st(2) image_iff)
  have fold1: "fold (link_block ks) (b # bs) (dep, ind) = fold (link_block ks) bs (fst st, snd st)"
    using none by (simp add: link_block_def st_def Let_def)
  have "distinct (map identity bs)" using Cons.prems(1) by simp
  note IH = Cons.IH [OF this rest, of "fst st"]
  have "map_of (snd (fold (link_block ks) (b # bs) (dep, ind))) x =
      (if x \<in> identity ` set (b # bs) then Some (length (filter (\<lambda>e. snd e = x) (L (b # bs)))) else map_of ind x)" for x
  proof (cases "x = ?i")
    case True
    then show ?thesis using IH fresh other [OF fresh] unfolding fold1 by (simp add: LCons st(2))
  next
    case False
    then show ?thesis using IH unfolding fold1 by (auto simp: LCons st(2))
  qed
  moreover have "fst (fold (link_block ks) (b # bs) (dep, ind)) = fold (\<lambda>(p, x) m. push_entry p x m) (L (b # bs)) dep"
    using IH unfolding fold1 by (simp add: LCons st(1))
  ultimately show ?case by blast
qed

section \<open>The loop\<close>

definition keyed :: "block_identity set \<Rightarrow> ready_map \<Rightarrow> bool" where
  "keyed V m \<longleftrightarrow> sorted_wrt (<) (map fst m) \<and> (\<forall>(k, v) \<in> set m. k = consensus_identity v \<and> v \<in> V)"

lemma set_bt_insert:
  "sorted_wrt (<) (map fst m) \<Longrightarrow> set (bt_insert k v m) = insert (k, v) {e \<in> set m. fst e \<noteq> k}"
  by (induction k v m rule: bt_insert.induct) auto

lemma keyed_bt_insert:
  assumes "inj_on consensus_identity V" "keyed V m" "v \<in> V"
  shows "keyed V (bt_insert (consensus_identity v) v m)"
    and "snd ` set (bt_insert (consensus_identity v) v m) = insert v (snd ` set m)"
proof -
  have s: "sorted_wrt (<) (map fst m)" using assms(2) by (simp add: keyed_def)
  show "keyed V (bt_insert (consensus_identity v) v m)"
    using assms sorted_bt_insert [OF s] by (auto simp: keyed_def set_bt_insert [OF s])
  have "snd e = v" if "e \<in> set m" "fst e = consensus_identity v" for e
    using that assms inj_onD [OF assms(1)] by (auto simp: keyed_def split_beta)
  then show "snd ` set (bt_insert (consensus_identity v) v m) = insert v (snd ` set m)"
    by (auto simp: set_bt_insert [OF s] image_iff)
qed

lemma release_spec:
  assumes inj: "inj_on consensus_identity V"
  shows "keyed V ready \<Longrightarrow> set cs \<subseteq> V \<Longrightarrow>
    (\<And>x. x \<in> set cs \<Longrightarrow> \<exists>d. map_of ind x = Some d \<and> count_list cs x \<le> d) \<Longrightarrow>
    keyed V (snd (release cs (ind, ready))) \<and>
    (\<forall>x. map_of (fst (release cs (ind, ready))) x = map_option (\<lambda>d. d - count_list cs x) (map_of ind x)) \<and>
    snd ` set (snd (release cs (ind, ready))) =
      snd ` set ready \<union> {x \<in> set cs. map_of ind x = Some (count_list cs x)}"
proof (induction cs arbitrary: ind ready)
  case Nil
  then show ?case by (auto simp: option.map_ident)
next
  case (Cons c cs)
  obtain d where d: "map_of ind c = Some (Suc d)" "count_list cs c \<le> d"
  proof -
    obtain e where "map_of ind c = Some e" "Suc (count_list cs c) \<le> e" using Cons.prems(3) [of c] by auto
    then show thesis using that by (cases e) auto
  qed
  define ind1 where "ind1 = AList.update c d ind"
  define ready1 where "ready1 = (if d = 0 then bt_insert (consensus_identity c) c ready else ready)"
  have step: "release (c # cs) (ind, ready) = release cs (ind1, ready1)"
    by (simp add: d(1) ind1_def ready1_def)
  have ind1: "map_of ind1 x = (if x = c then Some d else map_of ind x)" for x
    by (simp add: ind1_def update_conv')
  have c: "c \<in> V" using Cons.prems(2) by simp
  have ready1: "keyed V ready1" "snd ` set ready1 = snd ` set ready \<union> (if d = 0 then {c} else {})"
    using keyed_bt_insert [OF inj Cons.prems(1) c] Cons.prems(1) by (auto simp: ready1_def)
  have cnt: "\<exists>e. map_of ind1 x = Some e \<and> count_list cs x \<le> e" if "x \<in> set cs" for x
    using Cons.prems(3) [of x] that d(2) by (cases "x = c") (auto simp: ind1)
  have "set cs \<subseteq> V" using Cons.prems(2) by simp
  note IH = Cons.IH [OF ready1(1) this cnt]
  show ?case
    unfolding step
  proof (intro conjI allI)
    show "keyed V (snd (release cs (ind1, ready1)))" using IH by blast
    show "map_of (fst (release cs (ind1, ready1))) x = map_option (\<lambda>d. d - count_list (c # cs) x) (map_of ind x)" for x
      using IH d(1) by (simp add: ind1)
    have "count_list cs c = 0 \<longleftrightarrow> c \<notin> set cs" by (rule count_list_0_iff)
    then show "snd ` set (snd (release cs (ind1, ready1))) =
        snd ` set ready \<union> {x \<in> set (c # cs). map_of ind x = Some (count_list (c # cs) x)}"
      using IH ready1(2) d by (auto simp: ind1)
  qed
qed

definition remaining :: "(block_identity \<times> block_identity) list \<Rightarrow> block_identity list \<Rightarrow> block_identity \<Rightarrow> nat" where
  "remaining L xs x = length (filter (\<lambda>e. snd e = x \<and> fst e \<notin> set xs) L)"

definition pop_inv ::
  "block_identity set \<Rightarrow> (block_identity \<times> block_identity) list \<Rightarrow> indegrees \<Rightarrow> ready_map
     \<Rightarrow> block_identity list \<Rightarrow> bool" where
  "pop_inv V L ind ready xs \<longleftrightarrow> greedy V {(x, p). (p, x) \<in> set L} xs \<and> keyed V ready \<and>
     snd ` set ready = avail V {(x, p). (p, x) \<in> set L} (set xs) \<and>
     (\<forall>x \<in> V. x \<notin> set xs \<longrightarrow> map_of ind x = Some (remaining L xs x))"

lemma remaining_0_iff: "remaining L xs x = 0 \<longleftrightarrow> (\<forall>p. (p, x) \<in> set L \<longrightarrow> p \<in> set xs)"
  by (auto simp: remaining_def filter_empty_conv)

lemma remaining_snoc:
  assumes "p \<notin> set xs"
  shows "remaining L xs x = remaining L (xs @ [p]) x + count_list (map snd (filter (\<lambda>e. fst e = p) L)) x"
  unfolding remaining_def using assms by (induction L) auto

lemma pop_inv_step:
  assumes inj: "inj_on consensus_identity V" and L: "snd ` set L \<subseteq> V"
    and inv: "pop_inv V L ind ((k, i) # ready) xs"
  defines "cs \<equiv> map snd (filter (\<lambda>e. fst e = i) L)"
  shows "pop_inv V L (fst (release cs (ind, ready))) (snd (release cs (ind, ready))) (xs @ [i])"
proof -
  let ?E = "{(x, p). (p, x) \<in> set L}"
  have gr: "greedy V ?E xs" and ky: "keyed V ((k, i) # ready)"
    and av: "insert i (snd ` set ready) = avail V ?E (set xs)"
    and ind: "\<And>x. x \<in> V \<Longrightarrow> x \<notin> set xs \<Longrightarrow> map_of ind x = Some (remaining L xs x)"
    using inv by (auto simp: pop_inv_def)
  have i: "i \<in> avail V ?E (set xs)" using av by blast
  then have i': "i \<in> V" "i \<notin> set xs" "(i, i) \<notin> ?E" by (auto simp: avail_def)
  have least: "consensus_identity i \<le> consensus_identity y" if "y \<in> avail V ?E (set xs)" for y
    using that ky unfolding av [symmetric] by (fastforce simp: keyed_def intro: less_imp_le)
  have notin: "i \<notin> snd ` set ready" using ky by (fastforce simp: keyed_def)
  have closed: "(p, x) \<in> set L \<Longrightarrow> x \<in> set xs \<Longrightarrow> p \<in> set xs" for p x
    using greedy_topological [OF gr] by blast
  have cs: "set cs \<subseteq> V" using L by (auto simp: cs_def)
  have outside: "x \<notin> set xs \<and> x \<noteq> i" if "x \<in> set cs" for x
    using that i' closed by (auto simp: cs_def)
  have rem: "remaining L xs x = remaining L (xs @ [i]) x + count_list cs x" for x
    unfolding cs_def by (rule remaining_snoc [OF i'(2)])
  have cnt: "\<exists>d. map_of ind x = Some d \<and> count_list cs x \<le> d" if "x \<in> set cs" for x
    using ind [of x] outside [OF that] cs that rem [of x] by auto
  have kr: "keyed V ready" using ky by (simp add: keyed_def)
  note rel = release_spec [OF inj kr cs cnt]
  have "snd ` set (snd (release cs (ind, ready))) = avail V ?E (set (xs @ [i]))"
  proof -
    have "{x \<in> set cs. map_of ind x = Some (count_list cs x)} = {x \<in> set cs. remaining L (xs @ [i]) x = 0}"
      using ind outside cs rem by auto
    moreover have "snd ` set ready = avail V ?E (set xs) - {i}" using av notin by blast
    moreover have "avail V ?E (set (xs @ [i])) =
        (avail V ?E (set xs) - {i}) \<union> {x \<in> set cs. remaining L (xs @ [i]) x = 0}"
    proof -
      have "x \<in> set cs" if "x \<in> avail V ?E (set (xs @ [i]))" "x \<notin> avail V ?E (set xs)" for x
        using that by (force simp: avail_def cs_def)
      moreover have "x \<in> avail V ?E (set (xs @ [i]))"
        if "x \<in> set cs" "remaining L (xs @ [i]) x = 0" for x
        using that outside cs unfolding remaining_0_iff by (auto simp: avail_def)
      moreover have "remaining L (xs @ [i]) x = 0" if "x \<in> avail V ?E (set (xs @ [i]))" for x
        using that unfolding remaining_0_iff by (auto simp: avail_def)
      moreover have "avail V ?E (set xs) - {i} \<subseteq> avail V ?E (set (xs @ [i]))" by (auto simp: avail_def)
      moreover have "i \<notin> avail V ?E (set (xs @ [i]))" by (auto simp: avail_def)
      ultimately show ?thesis by blast
    qed
    ultimately show ?thesis using rel by simp
  qed
  moreover have "map_of (fst (release cs (ind, ready))) x = Some (remaining L (xs @ [i]) x)"
    if "x \<in> V" "x \<notin> set (xs @ [i])" for x
    using rel ind [of x] rem [of x] that by simp
  moreover have "greedy V ?E (xs @ [i])" by (rule greedy.greedy_snoc [OF gr i least])
  ultimately show ?thesis using rel by (simp add: pop_inv_def)
qed

lemma pop_loop_spec:
  assumes "inj_on consensus_identity V" "snd ` set L \<subseteq> V"
    and "\<And>i. dependents_of deps i = map snd (filter (\<lambda>e. fst e = i) L)"
    and "pop_inv V L ind ready xs"
  shows "\<exists>ys. greedy V {(x, p). (p, x) \<in> set L} ys \<and> avail V {(x, p). (p, x) \<in> set L} (set ys) = {} \<and>
    pop_loop deps ind ready (map consensus_identity xs) = map consensus_identity ys"
  using assms(3,4)
proof (induction deps ind ready "map consensus_identity xs" arbitrary: xs rule: pop_loop.induct)
  case (1 deps ind)
  then show ?case by (auto simp: pop_inv_def intro!: exI [of _ xs])
next
  case (2 deps ind k i ready)
  let ?st = "release (dependents_of deps i) (ind, ready)"
  have inv: "pop_inv V L (fst ?st) (snd ?st) (xs @ [i])"
    using pop_inv_step [OF assms(1,2) 2(3)] 2(2) by simp
  show ?case using 2(1) [OF refl _ 2(2) inv] by (simp add: Let_def)
qed

lemma fold_ready:
  assumes "inj_on consensus_identity V"
  shows "keyed V m \<Longrightarrow> fst ` set ind \<subseteq> V \<Longrightarrow>
    keyed V (fold (\<lambda>(i, degree) m. if degree = 0 then bt_insert (consensus_identity i) i m else m) ind m) \<and>
    snd ` set (fold (\<lambda>(i, degree) m. if degree = 0 then bt_insert (consensus_identity i) i m else m) ind m) =
      snd ` set m \<union> {i. (i, 0 :: nat) \<in> set ind}"
proof (induction ind arbitrary: m)
  case Nil
  then show ?case by simp
next
  case (Cons e ind)
  obtain i d where e: "e = (i, d)" by fastforce
  show ?case
  proof (cases "d = 0")
    case True
    have "i \<in> V" using Cons.prems(2) e by simp
    note ins = keyed_bt_insert [OF assms Cons.prems(1) this]
    show ?thesis using Cons.IH [OF ins(1)] ins(2) Cons.prems(2) True e by auto
  next
    case False
    then show ?thesis using Cons e by auto
  qed
qed

lemma distinct_link_pred:
  "distinct (map fst (snd st)) \<Longrightarrow> distinct (map fst (snd (link_pred ks i r st)))"
  by (simp add: link_pred_def distinct_update split: option.split)

lemma distinct_link_block:
  "distinct (map fst (snd st)) \<Longrightarrow> distinct (map fst (snd (link_block ks b st)))"
proof -
  have "distinct (map fst (snd s)) \<Longrightarrow> distinct (map fst (snd (fold (link_pred ks i) ps s)))" for i ps s
    by (induction ps arbitrary: s) (simp_all add: distinct_link_pred)
  then show "distinct (map fst (snd st)) \<Longrightarrow> ?thesis"
    by (simp add: link_block_def distinct_update Let_def split: option.split)
qed

lemma distinct_link_blocks:
  "distinct (map fst (snd st)) \<Longrightarrow> distinct (map fst (snd (fold (link_block ks) bs st)))"
  by (induction bs arbitrary: st) (simp_all add: distinct_link_block)

definition sortable :: "block list \<Rightarrow> bool" where
  "sortable bs \<longleftrightarrow> distinct (map identity bs) \<and> inj_on consensus_identity (identity ` set bs)"

lemma link_list_sub: "(p, x) \<in> set (link_list bs) \<Longrightarrow> p \<in> identity ` set bs \<and> x \<in> identity ` set bs"
  by (auto simp: link_list_def dest: resolve_in_set_mem)

lemma set_edges_sub: "set_edges bs \<subseteq> identity ` set bs \<times> identity ` set bs"
  using link_list_sub by (auto simp: set_edges_def)

lemma xsort_greedy:
  assumes "sortable bs"
  shows "\<exists>ys. greedy (identity ` set bs) (set_edges bs) ys \<and> avail (identity ` set bs) (set_edges bs) (set ys) = {} \<and>
    xsort bs = (if length ys = length bs then Inr (map consensus_identity ys) else Inl CycleDetected)"
proof -
  let ?V = "identity ` set bs" and ?L = "link_list bs" and ?ks = "map identity bs"
  obtain deps ind where f: "fold (link_block ?ks) bs ([], []) = (deps, ind)" by fastforce
  have d: "distinct (map identity bs)" and inj: "inj_on consensus_identity ?V"
    using assms by (auto simp: sortable_def)
  note lb = link_blocks [OF d, of "[]" ?ks "[]", unfolded f fst_conv snd_conv, folded link_list_def]
  have deps: "dependents_of deps i = map snd (filter (\<lambda>e. fst e = i) ?L)" for i
    using lb map_of_push_entries [of ?L i] by (simp add: dependents_of_def split: list.split)
  have ind: "map_of ind x = (if x \<in> ?V then Some (length (filter (\<lambda>e. snd e = x) ?L)) else None)" for x
    using lb by simp
  have dist: "distinct (map fst ind)" using distinct_link_blocks [of "([], [])" ?ks bs] f by simp
  have keys: "fst ` set ind \<subseteq> ?V"
    using ind map_of_eq_None_iff [of ind] by (metis option.distinct(1) subsetI)
  have zero: "(x, 0) \<in> set ind \<longleftrightarrow> x \<in> ?V \<and> remaining ?L [] x = 0" for x
    using ind [of x] map_of_eq_Some_iff [OF dist, of x 0] by (auto simp: remaining_def split: if_splits)
  have "keyed ?V []" by (simp add: keyed_def)
  note ready = fold_ready [OF inj this keys, folded initial_ready_def]
  have "pop_inv ?V ?L ind (initial_ready ind) []"
    unfolding pop_inv_def
  proof (intro conjI ballI impI)
    show "snd ` set (initial_ready ind) = avail ?V {(x, p). (p, x) \<in> set ?L} (set [])"
      using ready zero unfolding remaining_0_iff by (auto simp: avail_def)
  qed (use ready ind in \<open>auto simp: greedy_Nil remaining_def\<close>)
  from pop_loop_spec [OF inj _ deps this] obtain ys where ys:
    "greedy ?V {(x, p). (p, x) \<in> set ?L} ys" "avail ?V {(x, p). (p, x) \<in> set ?L} (set ys) = {}"
    "pop_loop deps ind (initial_ready ind) [] = map consensus_identity ys"
    using link_list_sub by fastforce
  then show ?thesis
    by (intro exI [of _ ys]) (simp add: set_edges_def xsort_def f Let_def)
qed

section \<open>Correctness of the sort\<close>

lemma sortable_card: "sortable bs \<Longrightarrow> card (identity ` set bs) = length bs"
  by (metis distinct_card length_map set_map sortable_def)

lemma greedy_length_complete:
  assumes "sortable bs" "greedy (identity ` set bs) E ys"
  shows "length ys = length bs \<longleftrightarrow> set ys = identity ` set bs"
proof -
  have ys: "distinct ys" "set ys \<subseteq> identity ` set bs" using greedy_distinct [OF assms(2)] by auto
  have "card (set ys) = length ys" using ys(1) by (rule distinct_card)
  then show ?thesis
    using sortable_card [OF assms(1)] ys(2) by (metis card_subset_eq finite_imageI finite_set)
qed

lemma xsort_acyclic:
  assumes "sortable bs" "acyclic (set_edges bs)"
  shows "\<exists>ys. xsort bs = Inr (map consensus_identity ys) \<and> distinct ys \<and> set ys = identity ` set bs \<and>
    sorted_wrt (\<lambda>x y. (x, y) \<notin> set_edges bs) ys"
proof -
  obtain ys where ys: "greedy (identity ` set bs) (set_edges bs) ys"
    "avail (identity ` set bs) (set_edges bs) (set ys) = {}"
    "xsort bs = (if length ys = length bs then Inr (map consensus_identity ys) else Inl CycleDetected)"
    using xsort_greedy [OF assms(1)] by blast
  have all: "set ys = identity ` set bs"
    by (rule acyclic_greedy_complete [OF ys(1,2) assms(2) set_edges_sub]) simp
  then have "length ys = length bs" using greedy_length_complete [OF assms(1) ys(1)] by blast
  then show ?thesis
    using ys(3) all greedy_distinct [OF ys(1)] greedy_topological [OF ys(1)] by auto
qed

lemma xsort_cyclic:
  assumes "sortable bs" "\<not> acyclic (set_edges bs)"
  shows "xsort bs = Inl CycleDetected"
proof -
  obtain ys where ys: "greedy (identity ` set bs) (set_edges bs) ys"
    "xsort bs = (if length ys = length bs then Inr (map consensus_identity ys) else Inl CycleDetected)"
    using xsort_greedy [OF assms(1)] by blast
  have "length ys \<noteq> length bs"
    using greedy_complete_acyclic [OF ys(1) _ set_edges_sub] greedy_length_complete [OF assms(1) ys(1)] assms(2)
    by blast
  with ys(2) show ?thesis by simp
qed

lemma mem_set_edges:
  assumes "sortable bs"
  shows "(x, p) \<in> set_edges bs \<longleftrightarrow> (\<exists>b \<in> set bs. identity b = x \<and>
    (\<exists>r \<in> set (predecessors (content b)). p \<in> identity ` set bs \<and>
       (p = r \<or> signature r = [] \<and> consensus_identity p = consensus_identity r)))"
  using assms resolve_in_set_iff [of "map identity bs"]
  by (auto simp: set_edges_def link_list_def sortable_def)

text \<open>
  Two listings of one set of blocks: the same identities, and the same predecessor references
  under each.
\<close>

definition same_blocks :: "block list \<Rightarrow> block list \<Rightarrow> bool" where
  "same_blocks bs cs \<longleftrightarrow> (\<lambda>b. (identity b, set (predecessors (content b)))) ` set bs =
     (\<lambda>b. (identity b, set (predecessors (content b)))) ` set cs"

lemma same_blocks_ids: "same_blocks bs cs \<Longrightarrow> identity ` set bs = identity ` set cs"
  unfolding same_blocks_def by (drule arg_cong [where f = "image fst"]) (simp add: image_image)

lemma same_blocks_edges:
  assumes "sortable bs" "sortable cs" "same_blocks bs cs"
  shows "set_edges bs = set_edges cs"
proof -
  have "\<exists>c \<in> set ys. identity c = identity b \<and> set (predecessors (content c)) = set (predecessors (content b))"
    if "same_blocks xs ys" "b \<in> set xs" for xs ys :: "block list" and b
  proof -
    have "(identity b, set (predecessors (content b))) \<in> (\<lambda>b. (identity b, set (predecessors (content b)))) ` set ys"
      using that unfolding same_blocks_def by blast
    then show ?thesis by auto
  qed
  note * = this
  have sym: "same_blocks cs bs" using assms(3) by (simp add: same_blocks_def)
  show ?thesis
    using * [OF assms(3)] * [OF sym] same_blocks_ids [OF assms(3)]
    by (auto simp: mem_set_edges [OF assms(1)] mem_set_edges [OF assms(2)]) (metis+)
qed

lemma xsort_deterministic:
  assumes "sortable bs" "sortable cs" "same_blocks bs cs"
  shows "xsort bs = xsort cs"
proof -
  note ids = same_blocks_ids [OF assms(3)] and edges = same_blocks_edges [OF assms]
  obtain ys where ys: "greedy (identity ` set bs) (set_edges bs) ys"
    "avail (identity ` set bs) (set_edges bs) (set ys) = {}"
    "xsort bs = (if length ys = length bs then Inr (map consensus_identity ys) else Inl CycleDetected)"
    using xsort_greedy [OF assms(1)] by blast
  obtain zs where zs: "greedy (identity ` set bs) (set_edges bs) zs"
    "avail (identity ` set bs) (set_edges bs) (set zs) = {}"
    "xsort cs = (if length zs = length cs then Inr (map consensus_identity zs) else Inl CycleDetected)"
    using xsort_greedy [OF assms(2)] unfolding ids edges by blast
  have "inj_on consensus_identity (identity ` set bs)" using assms(1) by (simp add: sortable_def)
  from greedy_unique [OF this ys(1,2) zs(1,2)] have "ys = zs" .
  moreover have "length bs = length cs"
    using sortable_card [OF assms(1)] sortable_card [OF assms(2)] ids by simp
  ultimately show ?thesis using ys(3) zs(3) by simp
qed

end
