(* ===== verification/Ordering.thy ===== *)
theory Ordering
  imports Xsort
begin

text \<open>
  The output function of \<open>consensus/ordering.rs\<close>: approved blocks of a leader, the previous
  final leader, \<open>tau\<close> and \<open>weighted_tau\<close> with their cached variants, the replay across one
  weight epoch and the suffix extension.  The recursion over earlier leaders carries fuel; the
  depth of the leader is enough, because every step goes to a leader of smaller depth.  A value
  \<open>None\<close> of the outer option is running out of fuel.
\<close>

section \<open>Approved blocks and emission\<close>

definition approved_blocks_for_leader :: "blocklace \<Rightarrow> block_identity \<Rightarrow> block list" where
  "approved_blocks_for_leader bl ldr =
     (if get_block bl ldr = None then []
      else collect_blocks (fst (filter_st (\<lambda>b. approves_with_memo bl ldr (identity b))
             (List.map_filter (get_block bl) (dom_lace bl)) empty_approval_memo)))"

record tau_state =
  emitted :: "block_identity list"
  ordered :: "block_identity list"

definition empty_tau_state :: tau_state where
  "empty_tau_state = \<lparr>emitted = [], ordered = []\<rparr>"

text \<open>\<open>if state.emitted.insert(id) then state.ordered.push(id)\<close>, for each id of a list.\<close>

definition emit_one :: "block_identity \<Rightarrow> tau_state \<Rightarrow> tau_state" where
  "emit_one i st = (if i \<in> set (emitted st) then st
     else \<lparr>emitted = i # emitted st, ordered = ordered st @ [i]\<rparr>)"

definition emit_all :: "block_identity list \<Rightarrow> tau_state \<Rightarrow> tau_state" where
  "emit_all is st = fold emit_one is st"

definition emit_prefix ::
  "block_identity list \<Rightarrow> blocklace \<Rightarrow> block_identity \<Rightarrow> tau_state \<Rightarrow> bool \<times> tau_state" where
  "emit_prefix prefix bl ldr st =
     (if checkpoint bl \<noteq> Some ldr \<or> prefix = [] then (False, st)
      else (True, emit_all (map consensus_identity prefix) st))"

definition emit_checkpoint_prefix :: "blocklace \<Rightarrow> block_identity \<Rightarrow> tau_state \<Rightarrow> bool \<times> tau_state" where
  "emit_checkpoint_prefix bl ldr st = emit_prefix (checkpoint_order_prefix bl) bl ldr st"

definition emit_weighted_checkpoint_prefix :: "blocklace \<Rightarrow> block_identity \<Rightarrow> tau_state \<Rightarrow> bool \<times> tau_state" where
  "emit_weighted_checkpoint_prefix bl ldr st = emit_prefix (checkpoint_weighted_order_prefix bl) bl ldr st"

definition checkpoint_predecessor :: "blocklace \<Rightarrow> block_identity \<Rightarrow> block_identity option" where
  "checkpoint_predecessor bl ldr =
     (case checkpoint bl of None \<Rightarrow> None
      | Some cp \<Rightarrow> if cp = ldr \<or> \<not> precedes bl cp ldr then None else Some cp)"

section \<open>The previous final leader\<close>

definition checkpoint_floor ::
  "blocklace \<Rightarrow> block_identity \<Rightarrow> nat \<Rightarrow> leader_selection \<Rightarrow> (block_identity \<times> nat) option" where
  "checkpoint_floor bl current_leader wavelength sel =
     (case checkpoint bl of None \<Rightarrow> None
      | Some cp \<Rightarrow>
          if cp = current_leader \<or> \<not> precedes bl cp current_leader then None
          else
     (case depth bl cp of None \<Rightarrow> None
      | Some r \<Rightarrow>
     (case wave_of_round r wavelength of None \<Rightarrow> None
      | Some wave \<Rightarrow>
          if leader_block_for_wave bl wave wavelength sel \<noteq> Some cp then None
          else Some (cp, wave))))"

text \<open>The backward search, shared by both quorum systems: the final leader of a wave and ratification.\<close>

definition search_previous ::
  "(nat \<Rightarrow> block_identity option) \<Rightarrow> (block \<Rightarrow> block \<Rightarrow> bool) \<Rightarrow> blocklace \<Rightarrow> block_identity \<Rightarrow> nat
     \<Rightarrow> leader_selection \<Rightarrow> block_identity option" where
  "search_previous final_at ratified bl current_leader wavelength sel =
     (case get_block bl current_leader of None \<Rightarrow> None
      | Some current_block \<Rightarrow>
     (case depth bl current_leader of None \<Rightarrow> None
      | Some current_round \<Rightarrow>
     (case wave_of_round current_round wavelength of None \<Rightarrow> None
      | Some current_wave \<Rightarrow>
          if current_wave = 0 then None
          else
            let floor = checkpoint_floor bl current_leader wavelength sel in
            first_some (\<lambda>wave.
              case floor of
                Some (cp, checkpoint_wave) \<Rightarrow>
                  if wave \<le> checkpoint_wave then Some cp
                  else (case final_at wave of None \<Rightarrow> None
                        | Some previous_leader \<Rightarrow>
                            (case get_block bl previous_leader of None \<Rightarrow> None
                             | Some previous_block \<Rightarrow>
                                 if ratified current_block previous_block then Some previous_leader else None))
              | None \<Rightarrow>
                  (case final_at wave of None \<Rightarrow> None
                   | Some previous_leader \<Rightarrow>
                       (case get_block bl previous_leader of None \<Rightarrow> None
                        | Some previous_block \<Rightarrow>
                            if ratified current_block previous_block then Some previous_leader else None)))
              (rev [0..<current_wave]))))"

definition previous_final_leader ::
  "blocklace \<Rightarrow> block_identity \<Rightarrow> nat \<Rightarrow> nat \<Rightarrow> nat \<Rightarrow> leader_selection \<Rightarrow> block_identity option" where
  "previous_final_leader bl current_leader wavelength n f sel =
     search_previous (\<lambda>wave. final_leader_for_wave bl wave wavelength n f sel)
       (\<lambda>current previous. ratifies bl current previous n f) bl current_leader wavelength sel"

definition weighted_previous_final_leader ::
  "blocklace \<Rightarrow> block_identity \<Rightarrow> nat \<Rightarrow> (node_id \<times> nat) list \<Rightarrow> leader_selection \<Rightarrow> block_identity option" where
  "weighted_previous_final_leader bl current_leader wavelength bonds sel =
     search_previous (\<lambda>wave. weighted_final_leader_for_wave bl wave wavelength bonds sel)
       (\<lambda>current previous. weighted_ratifies bl current previous bonds) bl current_leader wavelength sel"

section \<open>tau\<close>

definition emit_new_approved :: "blocklace \<Rightarrow> block_identity \<Rightarrow> tau_state \<Rightarrow> ordering_error + tau_state" where
  "emit_new_approved bl ldr st =
     (case xsort (filter (\<lambda>b. consensus_identity (identity b) \<notin> set (emitted st))
             (approved_blocks_for_leader bl ldr)) of
        Inl e \<Rightarrow> Inl e
      | Inr is \<Rightarrow> Inr (emit_all is st))"

text \<open>
  The recursion of \<open>tau_from_leader\<close> and \<open>weighted_tau_from_leader\<close>, which differ in the
  previous leader and the stored prefix only.
\<close>

fun walk_leaders ::
  "nat \<Rightarrow> (block_identity \<Rightarrow> block_identity option) \<Rightarrow> block_identity list \<Rightarrow> blocklace \<Rightarrow> block_identity
     \<Rightarrow> tau_state \<Rightarrow> (ordering_error + tau_state) option" where
  "walk_leaders 0 prev prefix bl ldr st = None"
| "walk_leaders (Suc fuel) prev prefix bl ldr st =
     (case emit_prefix prefix bl ldr st of
        (True, st') \<Rightarrow> Some (Inr st')
      | (False, _) \<Rightarrow>
          (case (case prev ldr of
                   Some previous \<Rightarrow> walk_leaders fuel prev prefix bl previous st
                 | None \<Rightarrow>
                     (case checkpoint_predecessor bl ldr of
                        Some cp \<Rightarrow> Some (Inr (snd (emit_prefix prefix bl cp st)))
                      | None \<Rightarrow> Some (Inr st))) of
             None \<Rightarrow> None
           | Some (Inl e) \<Rightarrow> Some (Inl e)
           | Some (Inr st1) \<Rightarrow> Some (emit_new_approved bl ldr st1)))"

definition leader_fuel :: "blocklace \<Rightarrow> block_identity \<Rightarrow> nat" where
  "leader_fuel bl ldr = (case depth bl ldr of None \<Rightarrow> 0 | Some d \<Rightarrow> d) + 1"

definition tau_from_leader ::
  "blocklace \<Rightarrow> block_identity \<Rightarrow> nat \<Rightarrow> nat \<Rightarrow> nat \<Rightarrow> leader_selection \<Rightarrow> tau_state
     \<Rightarrow> (ordering_error + tau_state) option" where
  "tau_from_leader bl ldr wavelength n f sel st =
     walk_leaders (leader_fuel bl ldr) (\<lambda>l. previous_final_leader bl l wavelength n f sel)
       (checkpoint_order_prefix bl) bl ldr st"

definition weighted_tau_from_leader ::
  "blocklace \<Rightarrow> block_identity \<Rightarrow> nat \<Rightarrow> (node_id \<times> nat) list \<Rightarrow> leader_selection \<Rightarrow> tau_state
     \<Rightarrow> (ordering_error + tau_state) option" where
  "weighted_tau_from_leader bl ldr wavelength bonds sel st =
     walk_leaders (leader_fuel bl ldr) (\<lambda>l. weighted_previous_final_leader bl l wavelength bonds sel)
       (checkpoint_weighted_order_prefix bl) bl ldr st"

definition ordered_result ::
  "(ordering_error + tau_state) option \<Rightarrow> (ordering_error + block_identity list) option" where
  "ordered_result r = map_option (\<lambda>x. case x of Inl e \<Rightarrow> Inl e | Inr st \<Rightarrow> Inr (ordered st)) r"

definition tau ::
  "blocklace \<Rightarrow> nat \<Rightarrow> nat \<Rightarrow> nat \<Rightarrow> leader_selection \<Rightarrow> (ordering_error + block_identity list) option" where
  "tau bl wavelength n f sel =
     (case latest_final_leader bl wavelength n f sel of
        None \<Rightarrow> Some (Inr [])
      | Some latest_leader \<Rightarrow>
          ordered_result (tau_from_leader bl latest_leader wavelength n f sel empty_tau_state))"

definition weighted_tau_at_leader ::
  "blocklace \<Rightarrow> block_identity \<Rightarrow> nat \<Rightarrow> (node_id \<times> nat) list \<Rightarrow> leader_selection
     \<Rightarrow> (ordering_error + block_identity list) option" where
  "weighted_tau_at_leader bl ldr wavelength bonds sel =
     ordered_result (weighted_tau_from_leader bl ldr wavelength bonds sel empty_tau_state)"

definition weighted_tau ::
  "blocklace \<Rightarrow> nat \<Rightarrow> (node_id \<times> nat) list \<Rightarrow> leader_selection
     \<Rightarrow> (ordering_error + block_identity list) option" where
  "weighted_tau bl wavelength bonds sel =
     (case latest_weighted_final_leader bl wavelength bonds sel of
        None \<Rightarrow> Some (Inr [])
      | Some latest_leader \<Rightarrow> weighted_tau_at_leader bl latest_leader wavelength bonds sel)"

section \<open>The cached variants\<close>

type_synonym plain_key = "block_identity \<times> nat \<times> nat \<times> nat \<times> nat"
type_synonym weighted_key = "block_identity \<times> nat \<times> weight_snapshot \<times> nat"
type_synonym order_result = "(ordering_error + block_identity list) option"

text \<open>The keys are (leader, wavelength, n, f, selection id) and (leader, wavelength, snapshot, selection id).\<close>

record ordering_cache =
  cache_blocklace_identity :: "nat option"
  cache_generation :: "nat \<times> nat"
  previous_final_by_leader :: "(plain_key \<times> block_identity option) list"
  weighted_previous_final_by_leader :: "(weighted_key \<times> block_identity option) list"
  tau_output_by_latest_leader :: "(plain_key \<times> order_result) list"
  weighted_tau_output_by_latest_leader :: "(weighted_key \<times> order_result) list"

definition empty_ordering_cache :: ordering_cache where
  "empty_ordering_cache = \<lparr>cache_blocklace_identity = None, cache_generation = (0, 0),
     previous_final_by_leader = [], weighted_previous_final_by_leader = [],
     tau_output_by_latest_leader = [], weighted_tau_output_by_latest_leader = []\<rparr>"

definition cached_entries :: "ordering_cache \<Rightarrow> nat" where
  "cached_entries cache = length (previous_final_by_leader cache) +
     length (weighted_previous_final_by_leader cache) + length (tau_output_by_latest_leader cache) +
     length (weighted_tau_output_by_latest_leader cache)"

definition sync_cache_generation :: "blocklace \<Rightarrow> ordering_cache \<Rightarrow> ordering_cache" where
  "sync_cache_generation bl cache =
     (let gen = (generation bl, length (dom_lace bl));
          same_blocklace = (cache_blocklace_identity cache = Some (cache_identity bl))
      in if \<not> same_blocklace \<or> cache_generation cache \<noteq> gen
         then \<lparr>cache_blocklace_identity = Some (cache_identity bl), cache_generation = gen,
               previous_final_by_leader = [], weighted_previous_final_by_leader = [],
               tau_output_by_latest_leader = [], weighted_tau_output_by_latest_leader = []\<rparr>
         else cache)"

definition sorted_approved_fragment ::
  "blocklace \<Rightarrow> block_identity \<Rightarrow> ordering_cache \<Rightarrow> (ordering_error + block_identity list) \<times> ordering_cache" where
  "sorted_approved_fragment bl ldr cache =
     (xsort (approved_blocks_for_leader bl ldr), sync_cache_generation bl cache)"

definition previous_final_leader_cached ::
  "blocklace \<Rightarrow> nat \<Rightarrow> nat \<Rightarrow> nat \<Rightarrow> nat \<Rightarrow> leader_selection \<Rightarrow> block_identity \<Rightarrow> ordering_cache
     \<Rightarrow> block_identity option \<times> ordering_cache" where
  "previous_final_leader_cached bl wavelength n f sel_id sel current_leader cache0 =
     (let cache = sync_cache_generation bl cache0; key = (current_leader, wavelength, n, f, sel_id) in
      case map_of (previous_final_by_leader cache) key of
        Some previous \<Rightarrow> (previous, cache)
      | None \<Rightarrow>
          let previous = previous_final_leader bl current_leader wavelength n f sel
          in (previous, cache\<lparr>previous_final_by_leader :=
                AList.update key previous (previous_final_by_leader cache)\<rparr>))"

definition weighted_previous_final_leader_cached ::
  "blocklace \<Rightarrow> nat \<Rightarrow> (node_id \<times> nat) list \<Rightarrow> weight_snapshot \<Rightarrow> nat \<Rightarrow> leader_selection \<Rightarrow> block_identity
     \<Rightarrow> ordering_cache \<Rightarrow> block_identity option \<times> ordering_cache" where
  "weighted_previous_final_leader_cached bl wavelength bonds ws sel_id sel current_leader cache0 =
     (let cache = sync_cache_generation bl cache0; key = (current_leader, wavelength, ws, sel_id) in
      case map_of (weighted_previous_final_by_leader cache) key of
        Some previous \<Rightarrow> (previous, cache)
      | None \<Rightarrow>
          let previous = weighted_previous_final_leader bl current_leader wavelength bonds sel
          in (previous, cache\<lparr>weighted_previous_final_by_leader :=
                AList.update key previous (weighted_previous_final_by_leader cache)\<rparr>))"

definition emit_fragment ::
  "blocklace \<Rightarrow> block_identity \<Rightarrow> ordering_cache \<Rightarrow> tau_state \<Rightarrow> (ordering_error + tau_state) \<times> ordering_cache" where
  "emit_fragment bl ldr cache st =
     (let (fragment, cache') = sorted_approved_fragment bl ldr cache in
      ((case fragment of Inl e \<Rightarrow> Inl e | Inr is \<Rightarrow> Inr (emit_all is st)), cache'))"

fun walk_leaders_cached ::
  "nat \<Rightarrow> (block_identity \<Rightarrow> ordering_cache \<Rightarrow> block_identity option \<times> ordering_cache) \<Rightarrow> block_identity list
     \<Rightarrow> blocklace \<Rightarrow> block_identity \<Rightarrow> ordering_cache \<Rightarrow> tau_state
     \<Rightarrow> (ordering_error + tau_state) option \<times> ordering_cache" where
  "walk_leaders_cached 0 prev prefix bl ldr cache st = (None, cache)"
| "walk_leaders_cached (Suc fuel) prev prefix bl ldr cache st =
     (case emit_prefix prefix bl ldr st of
        (True, st') \<Rightarrow> (Some (Inr st'), cache)
      | (False, _) \<Rightarrow>
          (let (previous, cache1) = prev ldr cache;
               (r, cache2) =
                 (case previous of
                    Some p \<Rightarrow> walk_leaders_cached fuel prev prefix bl p cache1 st
                  | None \<Rightarrow>
                      ((case checkpoint_predecessor bl ldr of
                          Some cp \<Rightarrow> Some (Inr (snd (emit_prefix prefix bl cp st)))
                        | None \<Rightarrow> Some (Inr st)), cache1))
           in (case r of
                 None \<Rightarrow> (None, cache2)
               | Some (Inl e) \<Rightarrow> (Some (Inl e), cache2)
               | Some (Inr st1) \<Rightarrow>
                   (let (out, cache3) = emit_fragment bl ldr cache2 st1 in (Some out, cache3)))))"

definition tau_from_leader_cached ::
  "blocklace \<Rightarrow> block_identity \<Rightarrow> nat \<Rightarrow> nat \<Rightarrow> nat \<Rightarrow> nat \<Rightarrow> leader_selection \<Rightarrow> ordering_cache \<Rightarrow> tau_state
     \<Rightarrow> (ordering_error + tau_state) option \<times> ordering_cache" where
  "tau_from_leader_cached bl ldr wavelength n f sel_id sel cache st =
     walk_leaders_cached (leader_fuel bl ldr) (previous_final_leader_cached bl wavelength n f sel_id sel)
       (checkpoint_order_prefix bl) bl ldr cache st"

definition weighted_tau_from_leader_cached ::
  "blocklace \<Rightarrow> block_identity \<Rightarrow> nat \<Rightarrow> (node_id \<times> nat) list \<Rightarrow> weight_snapshot \<Rightarrow> nat \<Rightarrow> leader_selection
     \<Rightarrow> ordering_cache \<Rightarrow> tau_state \<Rightarrow> (ordering_error + tau_state) option \<times> ordering_cache" where
  "weighted_tau_from_leader_cached bl ldr wavelength bonds ws sel_id sel cache st =
     walk_leaders_cached (leader_fuel bl ldr)
       (weighted_previous_final_leader_cached bl wavelength bonds ws sel_id sel)
       (checkpoint_weighted_order_prefix bl) bl ldr cache st"

definition tau_with_cache ::
  "blocklace \<Rightarrow> nat \<Rightarrow> nat \<Rightarrow> nat \<Rightarrow> nat \<Rightarrow> leader_selection \<Rightarrow> ordering_cache
     \<Rightarrow> order_result \<times> ordering_cache" where
  "tau_with_cache bl wavelength n f sel_id sel cache0 =
     (let cache = sync_cache_generation bl cache0 in
      case latest_final_leader bl wavelength n f sel of
        None \<Rightarrow> (Some (Inr []), cache)
      | Some latest_leader \<Rightarrow>
          let key = (latest_leader, wavelength, n, f, sel_id) in
          (case map_of (tau_output_by_latest_leader cache) key of
             Some out \<Rightarrow> (out, cache)
           | None \<Rightarrow>
               let (r, cache1) = tau_from_leader_cached bl latest_leader wavelength n f sel_id sel cache empty_tau_state;
                   out = ordered_result r
               in (out, cache1\<lparr>tau_output_by_latest_leader :=
                     AList.update key out (tau_output_by_latest_leader cache1)\<rparr>)))"

definition weighted_tau_with_cache ::
  "blocklace \<Rightarrow> nat \<Rightarrow> (node_id \<times> nat) list \<Rightarrow> nat \<Rightarrow> leader_selection \<Rightarrow> ordering_cache
     \<Rightarrow> order_result \<times> ordering_cache" where
  "weighted_tau_with_cache bl wavelength bonds sel_id sel cache0 =
     (let cache = sync_cache_generation bl cache0 in
      case latest_weighted_final_leader bl wavelength bonds sel of
        None \<Rightarrow> (Some (Inr []), cache)
      | Some latest_leader \<Rightarrow>
          let ws = from_bonds bonds; key = (latest_leader, wavelength, ws, sel_id) in
          (case map_of (weighted_tau_output_by_latest_leader cache) key of
             Some out \<Rightarrow> (out, cache)
           | None \<Rightarrow>
               let (r, cache1) = weighted_tau_from_leader_cached bl latest_leader wavelength bonds ws sel_id sel
                     cache empty_tau_state;
                   out = ordered_result r
               in (out, cache1\<lparr>weighted_tau_output_by_latest_leader :=
                     AList.update key out (weighted_tau_output_by_latest_leader cache1)\<rparr>)))"

section \<open>The suffix extension\<close>

fun suffix_walk ::
  "nat \<Rightarrow> (block_identity \<Rightarrow> ordering_cache \<Rightarrow> block_identity option \<times> ordering_cache) \<Rightarrow> blocklace
     \<Rightarrow> block_identity \<Rightarrow> block_identity \<Rightarrow> ordering_cache \<Rightarrow> tau_state
     \<Rightarrow> (ordering_error + (bool \<times> tau_state)) option \<times> ordering_cache" where
  "suffix_walk 0 prev bl anchor ldr cache st = (None, cache)"
| "suffix_walk (Suc fuel) prev bl anchor ldr cache st =
     (if same_consensus_identity ldr anchor then (Some (Inr (True, st)), cache)
      else
        (case emit_weighted_checkpoint_prefix bl ldr st of
           (True, st') \<Rightarrow> (Some (Inr (False, st')), cache)
         | (False, _) \<Rightarrow>
             (let (previous, cache1) = prev ldr cache;
                  (r, cache2) =
                    (case previous of
                       Some p \<Rightarrow> suffix_walk fuel prev bl anchor p cache1 st
                     | None \<Rightarrow> (Some (Inr (False, st)), cache1))
              in (case r of
                    None \<Rightarrow> (None, cache2)
                  | Some (Inl e) \<Rightarrow> (Some (Inl e), cache2)
                  | Some (Inr (reaches, st1)) \<Rightarrow>
                      if \<not> reaches then (Some (Inr (False, st1)), cache2)
                      else (let (out, cache3) = emit_fragment bl ldr cache2 st1 in
                            (Some (case out of Inl e \<Rightarrow> Inl e | Inr st2 \<Rightarrow> Inr (True, st2)), cache3))))))"

definition weighted_tau_suffix_from_leader_cached ::
  "blocklace \<Rightarrow> block_identity \<Rightarrow> nat \<Rightarrow> (node_id \<times> nat) list \<Rightarrow> weight_snapshot \<Rightarrow> nat \<Rightarrow> leader_selection
     \<Rightarrow> ordering_cache \<Rightarrow> block_identity \<Rightarrow> tau_state
     \<Rightarrow> (ordering_error + (bool \<times> tau_state)) option \<times> ordering_cache" where
  "weighted_tau_suffix_from_leader_cached bl ldr wavelength bonds ws sel_id sel cache anchor st =
     suffix_walk (leader_fuel bl ldr)
       (weighted_previous_final_leader_cached bl wavelength bonds ws sel_id sel) bl anchor ldr cache st"

definition weighted_tau_suffix_with_cache ::
  "blocklace \<Rightarrow> nat \<Rightarrow> (node_id \<times> nat) list \<Rightarrow> nat \<Rightarrow> leader_selection \<Rightarrow> block_identity
     \<Rightarrow> block_identity list \<Rightarrow> ordering_cache
     \<Rightarrow> (ordering_error + (block_identity list \<times> block_identity) option) option \<times> ordering_cache" where
  "weighted_tau_suffix_with_cache bl wavelength bonds sel_id sel anchor prefix cache0 =
     (let cache = sync_cache_generation bl cache0 in
      if prefix = [] \<or> \<not> same_consensus_identity (last prefix) anchor then (Some (Inr None), cache)
      else
     (case depth bl anchor of None \<Rightarrow> (Some (Inr None), cache)
      | Some anchor_round \<Rightarrow>
     (case wave_of_round anchor_round wavelength of None \<Rightarrow> (Some (Inr None), cache)
      | Some anchor_wave \<Rightarrow>
          if (case weighted_final_leader_for_wave bl anchor_wave wavelength bonds sel of
                None \<Rightarrow> True | Some ldr \<Rightarrow> \<not> same_consensus_identity ldr anchor)
          then (Some (Inr None), cache)
          else
     (case latest_weighted_final_leader bl wavelength bonds sel of None \<Rightarrow> (Some (Inr None), cache)
      | Some latest_leader \<Rightarrow>
          let st = \<lparr>emitted = map consensus_identity prefix, ordered = map consensus_identity prefix\<rparr>;
              (r, cache1) = weighted_tau_suffix_from_leader_cached bl latest_leader wavelength bonds
                (from_bonds bonds) sel_id sel cache anchor st
          in (map_option (\<lambda>x. case x of Inl e \<Rightarrow> Inl e
                | Inr (reaches, st') \<Rightarrow> Inr (if reaches then Some (ordered st', latest_leader) else None)) r,
              cache1)))))"

section \<open>Across one weight epoch\<close>

datatype weighted_epoch_error =
    InvalidBoundary
  | ValidatorSetMismatch
  | BoundaryNotFinal
  | PrefixMismatch
  | LeaderOutsideBoundary
  | OrderingFailed ordering_error

record weighted_epoch_boundary =
  final_leader :: block_identity
  ordered_prefix :: "block_identity list"
  effective_wave :: nat

definition wave_of_block :: "blocklace \<Rightarrow> block_identity \<Rightarrow> nat \<Rightarrow> nat option" where
  "wave_of_block bl i wavelength =
     (case depth bl i of None \<Rightarrow> None | Some r \<Rightarrow> wave_of_round r wavelength)"

definition epoch_previous ::
  "blocklace \<Rightarrow> nat \<Rightarrow> (node_id \<times> nat) list \<Rightarrow> leader_selection \<Rightarrow> block \<Rightarrow> nat \<Rightarrow> nat \<Rightarrow> block_identity option" where
  "epoch_previous bl wavelength bonds sel current_block from_wave current_wave =
     first_some (\<lambda>wave.
       case weighted_final_leader_for_wave bl wave wavelength bonds sel of None \<Rightarrow> None
       | Some previous \<Rightarrow>
           (case get_block bl previous of None \<Rightarrow> None
            | Some previous_block \<Rightarrow>
                if weighted_ratifies bl current_block previous_block bonds then Some previous else None))
     (rev [from_wave..<current_wave])"

fun weighted_tau_from_epoch_leader ::
  "nat \<Rightarrow> blocklace \<Rightarrow> block_identity \<Rightarrow> nat \<Rightarrow> (node_id \<times> nat) list \<Rightarrow> weighted_epoch_boundary \<Rightarrow> leader_selection
     \<Rightarrow> tau_state \<Rightarrow> (weighted_epoch_error + tau_state) option" where
  "weighted_tau_from_epoch_leader 0 bl ldr wavelength bonds bd sel st = None"
| "weighted_tau_from_epoch_leader (Suc fuel) bl ldr wavelength bonds bd sel st =
     (case wave_of_block bl ldr wavelength of None \<Rightarrow> Some (Inl LeaderOutsideBoundary)
      | Some current_wave \<Rightarrow>
          if current_wave < effective_wave bd \<or> \<not> precedes bl (final_leader bd) ldr
          then Some (Inl LeaderOutsideBoundary)
          else
     (case get_block bl ldr of None \<Rightarrow> Some (Inl LeaderOutsideBoundary)
      | Some current_block \<Rightarrow>
          (case (case epoch_previous bl wavelength bonds sel current_block (effective_wave bd) current_wave of
                   None \<Rightarrow> Some (Inr st)
                 | Some previous \<Rightarrow>
                     weighted_tau_from_epoch_leader fuel bl previous wavelength bonds bd sel st) of
             None \<Rightarrow> None
           | Some (Inl e) \<Rightarrow> Some (Inl e)
           | Some (Inr st1) \<Rightarrow>
               Some (case emit_new_approved bl ldr st1 of
                       Inl e \<Rightarrow> Inl (OrderingFailed e) | Inr st2 \<Rightarrow> Inr st2))))"

definition weighted_tau_after_epoch_boundary ::
  "blocklace \<Rightarrow> nat \<Rightarrow> (node_id \<times> nat) list \<Rightarrow> (node_id \<times> nat) list \<Rightarrow> weighted_epoch_boundary
     \<Rightarrow> leader_selection \<Rightarrow> (weighted_epoch_error + (block_identity list \<times> block_identity)) option" where
  "weighted_tau_after_epoch_boundary bl wavelength old_bonds new_bonds bd sel =
     (if length old_bonds \<noteq> length new_bonds \<or>
         \<not> list_all (\<lambda>v. v \<in> set (map fst new_bonds)) (map fst old_bonds)
      then Some (Inl ValidatorSetMismatch)
      else
     (case wave_of_block bl (final_leader bd) wavelength of None \<Rightarrow> Some (Inl InvalidBoundary)
      | Some boundary_wave \<Rightarrow>
          if effective_wave bd \<le> boundary_wave then Some (Inl InvalidBoundary)
          else if \<not> (case weighted_final_leader_for_wave bl boundary_wave wavelength old_bonds sel of
                       None \<Rightarrow> False | Some ldr \<Rightarrow> same_consensus_identity ldr (final_leader bd))
          then Some (Inl BoundaryNotFinal)
          else
     (case weighted_tau_at_leader bl (final_leader bd) wavelength old_bonds sel of None \<Rightarrow> None
      | Some (Inl e) \<Rightarrow> Some (Inl (OrderingFailed e))
      | Some (Inr old_prefix) \<Rightarrow>
          if old_prefix \<noteq> ordered_prefix bd then Some (Inl PrefixMismatch)
          else
     (case latest_weighted_final_leader bl wavelength new_bonds sel of
        None \<Rightarrow> Some (Inr (old_prefix, final_leader bd))
      | Some latest_leader \<Rightarrow>
     (case wave_of_block bl latest_leader wavelength of None \<Rightarrow> Some (Inl LeaderOutsideBoundary)
      | Some latest_wave \<Rightarrow>
          if latest_wave < effective_wave bd then Some (Inr (old_prefix, final_leader bd))
          else
     (case weighted_tau_from_epoch_leader (leader_fuel bl latest_leader) bl latest_leader wavelength new_bonds bd sel
             \<lparr>emitted = old_prefix, ordered = old_prefix\<rparr> of
        None \<Rightarrow> None
      | Some (Inl e) \<Rightarrow> Some (Inl e)
      | Some (Inr st) \<Rightarrow> Some (Inr (ordered st, latest_leader))))))))"

end
