(* ===== verification/Ordering_Proofs.thy ===== *)
theory Ordering_Proofs
  imports Ordering
begin

text \<open>
  Correctness of the output function on a store that has not been pruned: the walk over earlier
  final leaders ends, never reports a cycle, and outputs each approved block once, in an order
  that respects the predecessor links.  The walk is verified once, in the locale
  \<open>leader_chain\<close>, for every previous-leader function that goes down in depth and back in the
  view of the leader; both quorum systems are interpretations of it.
\<close>

section \<open>Approved blocks\<close>

definition unpruned :: "blocklace \<Rightarrow> bool" where
  "unpruned bl \<longleftrightarrow> wf_lace bl \<and> acyclic_lace bl \<and> slot_ok bl \<and> checkpoint bl = None"

lemma unprunedD:
  assumes "unpruned bl"
  shows "wf_lace bl" "acyclic_lace bl" "slot_ok bl" "checkpoint bl = None"
  using assms by (auto simp: unpruned_def)

interpretation approval_of: memo_pred "\<lambda>b. approves_with_memo bl a (identity b)" "approval_memo_ok bl"
  "\<lambda>b. approves bl a (identity b)"
  for bl a
  by standard
    (auto simp: approves_with_memo_def approval_memo_ok_def approves_eq_uncached update_conv' Let_def
      split: option.splits if_splits)

lemma approved_blocks_eq:
  "approved_blocks_for_leader bl ldr = (if get_block bl ldr = None then []
     else collect_blocks (filter (\<lambda>b. approves bl ldr (identity b)) (List.map_filter (get_block bl) (dom_lace bl))))"
  by (simp add: approved_blocks_for_leader_def
      approval_of.filter_st_spec [OF approval_memo_ok_empty, THEN conjunct1])

lemma approves_get: "approves bl a t \<Longrightarrow> get_block bl a \<noteq> None"
  by (auto simp: approves_eq_uncached approves_uncached_def get_block_None_iff split: option.splits)

lemma mem_approved_blocks:
  assumes "wf_lace bl"
  shows "b \<in> set (approved_blocks_for_leader bl ldr) \<longleftrightarrow> stored_block bl b \<and> approves bl ldr (identity b)"
proof -
  let ?l = "filter (\<lambda>b. approves bl ldr (identity b)) (List.map_filter (get_block bl) (dom_lace bl))"
  have l: "set ?l = {b. stored_block bl b \<and> approves bl ldr (identity b)}"
    using set_get_blocks [OF assms order_refl] stored_block_id by (auto simp: dom_lace_def simp del: set_map)
  moreover have "inj_on identity (set ?l)" unfolding l by (rule inj_on_stored [OF assms]) simp
  ultimately show ?thesis using approves_get [of bl ldr "identity b"] by (auto simp: approved_blocks_eq set_dedup_by)
qed

lemma distinct_approved [simp]: "distinct (map identity (approved_blocks_for_leader bl ldr))"
  by (simp add: approved_blocks_eq)

lemma sortable_stored:
  assumes "wf_lace bl" "distinct (map identity bs)" "\<And>b. b \<in> set bs \<Longrightarrow> stored_block bl b"
  shows "sortable bs"
proof -
  have "identity ` set bs \<subseteq> set (block_ids bl)" using assms(3) stored_block_id by (auto simp del: set_map)
  then show ?thesis
    using assms(1,2) unfolding sortable_def wf_lace_def by (meson inj_on_subset)
qed

lemma set_edges_points:
  assumes "wf_lace bl" "checkpoint bl = None" "sortable bs" "\<And>b. b \<in> set bs \<Longrightarrow> stored_block bl b"
  shows "(x, p) \<in> set_edges bs \<longleftrightarrow> x \<in> identity ` set bs \<and> p \<in> identity ` set bs \<and> (x, p) \<in> points bl"
proof (cases "x \<in> identity ` set bs \<and> p \<in> identity ` set bs")
  case True
  then obtain b where b: "b \<in> set bs" "identity b = x" by auto
  have sb: "stored_block bl b" by (rule assms(4) [OF b(1)])
  have x: "x \<in> set (block_ids bl)" using stored_block_id [OF sb] b(2) by simp
  have p: "p \<in> set (block_ids bl)" using True assms(4) stored_block_id by (auto simp del: set_map)
  have content: "(x, c) \<in> set (blocks bl) \<longleftrightarrow> c = content b" for c
    using sb b(2) map_of_stored [OF assms(1), of x] unfolding stored_block_def by (metis option.inject)
  have uniq: "c = b" if "c \<in> set bs" "identity c = x" for c
    using stored_block_eq [OF assms(1) assms(4) [OF that(1)] sb] that(2) b(2) by simp
  have "(x, p) \<in> points bl \<longleftrightarrow> (\<exists>r \<in> set (predecessors (content b)). resolve_identity bl r = Some p)"
    unfolding points_stored_iff [OF assms(1) x] content using assms(2) by (auto simp: is_checkpoint_boundary_def)
  also have "\<dots> \<longleftrightarrow> (\<exists>r \<in> set (predecessors (content b)). p = r \<or> signature r = [] \<and>
      consensus_identity p = consensus_identity r)"
    unfolding wf_resolve_iff [OF assms(1)] using p by blast
  also have "\<dots> \<longleftrightarrow> (x, p) \<in> set_edges bs"
    unfolding mem_set_edges [OF assms(3)] using b uniq True by blast
  finally show ?thesis using True by blast
next
  case False
  then show ?thesis using set_edges_sub [of bs] by blast
qed

lemma acyclic_set_edges:
  assumes "wf_lace bl" "acyclic_lace bl" "checkpoint bl = None" "sortable bs" "\<And>b. b \<in> set bs \<Longrightarrow> stored_block bl b"
  shows "acyclic (set_edges bs)"
proof (rule acyclic_subset)
  show "acyclic (points bl)" using assms(2) by (simp add: acyclic_lace_def)
  show "set_edges bs \<subseteq> points bl"
    using set_edges_points [OF assms(1,3,4,5)] by auto
qed

section \<open>Emission\<close>

definition tau_ok :: "tau_state \<Rightarrow> bool" where
  "tau_ok st \<longleftrightarrow> set (emitted st) = set (ordered st) \<and> distinct (ordered st)"

lemma tau_ok_empty [simp]: "tau_ok empty_tau_state" "ordered empty_tau_state = []"
  by (simp_all add: tau_ok_def empty_tau_state_def)

lemma emit_all_new:
  "tau_ok st \<Longrightarrow> distinct is \<Longrightarrow> set is \<inter> set (ordered st) = {} \<Longrightarrow>
     tau_ok (emit_all is st) \<and> ordered (emit_all is st) = ordered st @ is"
proof (induction "is" arbitrary: st)
  case Nil
  then show ?case by (simp add: emit_all_def)
next
  case (Cons i "is")
  let ?st = "emit_one i st"
  have st: "tau_ok ?st" "ordered ?st = ordered st @ [i]"
    using Cons.prems by (auto simp: emit_one_def tau_ok_def)
  have "tau_ok (emit_all is ?st) \<and> ordered (emit_all is ?st) = ordered ?st @ is"
    by (rule Cons.IH) (use st Cons.prems in auto)
  then show ?case by (simp add: emit_all_def st(2))
qed

lemma emit_prefix_unpruned: "checkpoint bl = None \<Longrightarrow> emit_prefix prefix bl ldr st = (False, st)"
  by (simp add: emit_prefix_def)

lemma checkpoint_predecessor_unpruned: "checkpoint bl = None \<Longrightarrow> checkpoint_predecessor bl ldr = None"
  by (simp add: checkpoint_predecessor_def)

lemma emit_new_approved_spec:
  assumes "unpruned bl" "tau_ok st"
  shows "\<exists>st' ys. emit_new_approved bl ldr st = Inr st' \<and> tau_ok st' \<and>
    ordered st' = ordered st @ map consensus_identity ys \<and>
    set ys = {x \<in> set (block_ids bl). approves bl ldr x \<and> consensus_identity x \<notin> set (ordered st)} \<and>
    sorted_wrt (\<lambda>x y. (x, y) \<notin> points bl) ys"
proof -
  note u = unprunedD [OF assms(1)]
  let ?bs = "filter (\<lambda>b. consensus_identity (identity b) \<notin> set (emitted st)) (approved_blocks_for_leader bl ldr)"
  have stored: "stored_block bl b" if "b \<in> set ?bs" for b using that mem_approved_blocks [OF u(1)] by auto
  have srt: "sortable ?bs"
    by (rule sortable_stored [OF u(1) _ stored]) (rule distinct_map_filter, simp)
  obtain ys where ys: "xsort ?bs = Inr (map consensus_identity ys)" "distinct ys" "set ys = identity ` set ?bs"
    "sorted_wrt (\<lambda>x y. (x, y) \<notin> set_edges ?bs) ys"
    using xsort_acyclic [OF srt acyclic_set_edges [OF u(1,2,4) srt stored]] by blast
  have ids: "identity ` set ?bs =
      {x \<in> set (block_ids bl). approves bl ldr x \<and> consensus_identity x \<notin> set (ordered st)}" (is "?l = ?r")
  proof (intro set_eqI iffI)
    fix x assume "x \<in> ?l"
    then show "x \<in> ?r"
      using mem_approved_blocks [OF u(1)] stored_block_id assms(2) by (auto simp: tau_ok_def simp del: set_map)
  next
    fix x assume x: "x \<in> ?r"
    then obtain c where "(x, c) \<in> set (blocks bl)" by auto
    then have "\<lparr>identity = x, content = c\<rparr> \<in> set ?bs"
      using x assms(2) mem_approved_blocks [OF u(1)] by (auto simp: stored_block_def tau_ok_def)
    then show "x \<in> ?l" by force
  qed
  have "inj_on consensus_identity (set ys)" using srt ys(3) by (simp add: sortable_def)
  then have d: "distinct (map consensus_identity ys)" using ys(2) by (simp add: distinct_map)
  have "set (map consensus_identity ys) \<inter> set (ordered st) = {}" using ys(3) ids by auto
  from emit_all_new [OF assms(2) d this]
  have e: "tau_ok (emit_all (map consensus_identity ys) st)"
    "ordered (emit_all (map consensus_identity ys) st) = ordered st @ map consensus_identity ys" by auto
  have "sorted_wrt (\<lambda>x y. (x, y) \<notin> points bl) ys"
  proof (rule sorted_wrt_mono_rel [OF _ ys(4)])
    fix x y assume "x \<in> set ys" "y \<in> set ys" "(x, y) \<notin> set_edges ?bs"
    then show "(x, y) \<notin> points bl" using set_edges_points [OF u(1,4) srt stored] ys(3) by auto
  qed
  then show ?thesis
    using ys(1) e ys(3) ids by (intro exI [of _ "emit_all (map consensus_identity ys) st"] exI [of _ ys])
      (simp add: emit_new_approved_def)
qed

section \<open>Chains of leaders\<close>

text \<open>
  What the walk needs of the previous-leader function: the previous leader is a stored block of
  smaller depth that the current leader observes.
\<close>

locale leader_chain =
  fixes bl :: blocklace and prev :: "block_identity \<Rightarrow> block_identity option"
  assumes prev_depth: "unpruned bl \<Longrightarrow> prev l = Some p \<Longrightarrow> \<exists>d e. depth bl l = Some d \<and> depth bl p = Some e \<and> e < d"
    and prev_observed: "unpruned bl \<Longrightarrow> prev l = Some p \<Longrightarrow> p \<in> set (observe bl l)"
begin

definition chain :: "block_identity \<Rightarrow> block_identity set" where
  "chain l = {k. (l, k) \<in> {(l, p). prev l = Some p}\<^sup>*}"

lemma chain_unfold: "chain l = insert l (case prev l of None \<Rightarrow> {} | Some p \<Rightarrow> chain p)"
proof (intro set_eqI iffI)
  fix k assume "k \<in> chain l"
  then have "(l, k) \<in> {(l, p). prev l = Some p}\<^sup>*" by (simp add: chain_def)
  then show "k \<in> insert l (case prev l of None \<Rightarrow> {} | Some p \<Rightarrow> chain p)"
    by (cases rule: converse_rtranclE) (auto simp: chain_def)
next
  fix k assume "k \<in> insert l (case prev l of None \<Rightarrow> {} | Some p \<Rightarrow> chain p)"
  then show "k \<in> chain l"
    by (auto simp: chain_def split: option.splits intro: converse_rtrancl_into_rtrancl)
qed

lemma observe_trans:
  assumes "p \<in> set (observe bl l)" "x \<in> set (observe bl p)"
  shows "x \<in> set (observe bl l)"
proof -
  have "p \<in> set (block_ids bl)" using assms(1) observe_stored by blast
  with assms show ?thesis by (auto simp: observe_iff simp del: set_map)
qed

lemma chain_view:
  assumes "unpruned bl" "k \<in> chain l"
  shows "set (observe bl k) \<subseteq> set (observe bl l)"
proof -
  have "(l, k) \<in> {(l, p). prev l = Some p}\<^sup>*" using assms(2) by (simp add: chain_def)
  then show ?thesis
  proof (induction rule: rtrancl_induct)
    case (step y z)
    then show ?case using prev_observed [OF assms(1)] observe_trans by blast
  qed simp
qed

lemma approves_down:
  assumes "unpruned bl" "k \<in> chain l" "approves bl k x" "(x, y) \<in> points bl" "approves bl l y"
  shows "approves bl k y"
proof -
  note iff = approves_iff [OF unprunedD(1-3) [OF assms(1)]]
  have x: "x \<in> set (observe bl k)" using assms(3) by (simp add: iff approves_spec_def)
  then have "y \<in> set (observe bl k)"
    using assms(4) by (auto simp: observe_iff intro: rtrancl_into_rtrancl)
  moreover have "s \<notin> set (observe bl k)" if "equivocating_sibling bl y s" for s
    using assms(5) that chain_view [OF assms(1,2)] by (auto simp: iff approves_spec_def)
  ultimately show ?thesis by (auto simp: iff approves_spec_def)
qed

definition output_ok :: "block_identity \<Rightarrow> tau_state \<Rightarrow> bool" where
  "output_ok l st \<longleftrightarrow> tau_ok st \<and> (\<exists>ys. ordered st = map consensus_identity ys \<and>
     set ys = {x \<in> set (block_ids bl). \<exists>k \<in> chain l. approves bl k x} \<and>
     sorted_wrt (\<lambda>x y. (x, y) \<notin> points bl) ys)"

lemma output_extend:
  assumes u: "unpruned bl" and ok: "tau_ok st"
    and st: "ordered st = map consensus_identity ys" "sorted_wrt (\<lambda>x y. (x, y) \<notin> points bl) ys"
    and ys: "set ys = {x \<in> set (block_ids bl). \<exists>k \<in> C. approves bl k x}"
    and C: "C \<subseteq> chain l"
  shows "\<exists>st' zs. emit_new_approved bl l st = Inr st' \<and> tau_ok st' \<and>
    ordered st' = map consensus_identity (ys @ zs) \<and>
    set (ys @ zs) = {x \<in> set (block_ids bl). \<exists>k \<in> insert l C. approves bl k x} \<and>
    sorted_wrt (\<lambda>x y. (x, y) \<notin> points bl) (ys @ zs)"
proof -
  obtain st' zs where e: "emit_new_approved bl l st = Inr st'" "tau_ok st'"
    "ordered st' = ordered st @ map consensus_identity zs"
    "set zs = {x \<in> set (block_ids bl). approves bl l x \<and> consensus_identity x \<notin> set (ordered st)}"
    "sorted_wrt (\<lambda>x y. (x, y) \<notin> points bl) zs"
    using emit_new_approved_spec [OF u ok] by blast
  have inj: "inj_on consensus_identity (set (block_ids bl))" using unprunedD(1) [OF u] by (simp add: wf_lace_def)
  have fresh: "consensus_identity x \<in> set (ordered st) \<longleftrightarrow> x \<in> set ys" if "x \<in> set (block_ids bl)" for x
  proof -
    have "set ys \<subseteq> set (block_ids bl)" using ys by blast
    then show ?thesis using inj_on_image_mem_iff [OF inj that] by (simp add: st(1))
  qed
  have zs: "set zs = {x \<in> set (block_ids bl). approves bl l x} - set ys" using e(4) fresh by auto
  have "(x, y) \<notin> points bl" if x: "x \<in> set ys" and y: "y \<in> set zs" for x y
  proof
    assume xy: "(x, y) \<in> points bl"
    obtain k where k: "k \<in> C" "approves bl k x" using x unfolding ys by blast
    have "approves bl k y" using approves_down [OF u _ k(2) xy] k(1) C y zs by blast
    then have "y \<in> set ys" using y k(1) unfolding zs ys by blast
    with y zs show False by simp
  qed
  then have "sorted_wrt (\<lambda>x y. (x, y) \<notin> points bl) (ys @ zs)"
    using st(2) e(5) by (simp add: sorted_wrt_append)
  moreover have "set (ys @ zs) = {x \<in> set (block_ids bl). \<exists>k \<in> insert l C. approves bl k x}"
    using zs ys by auto
  moreover have "ordered st' = map consensus_identity (ys @ zs)" using e(3) st(1) by simp
  ultimately show ?thesis using e(1,2) by blast
qed

lemma walk_leaders_spec:
  assumes "unpruned bl"
  shows "depth bl l = Some d \<Longrightarrow> d < fuel \<Longrightarrow>
    \<exists>st. walk_leaders fuel prev prefix bl l empty_tau_state = Some (Inr st) \<and> output_ok l st"
proof (induction fuel arbitrary: l d)
  case 0
  then show ?case by simp
next
  case (Suc fuel)
  note cp = unprunedD(4) [OF assms]
  note simps = emit_prefix_unpruned [OF cp] checkpoint_predecessor_unpruned [OF cp]
  show ?case
  proof (cases "prev l")
    case None
    then have ch: "chain l = {l}" by (subst chain_unfold) simp
    have "\<exists>st' zs. emit_new_approved bl l empty_tau_state = Inr st' \<and> tau_ok st' \<and>
      ordered st' = map consensus_identity ([] @ zs) \<and>
      set ([] @ zs) = {x \<in> set (block_ids bl). \<exists>k \<in> insert l {}. approves bl k x} \<and>
      sorted_wrt (\<lambda>x y. (x, y) \<notin> points bl) ([] @ zs)"
      by (rule output_extend [OF assms]) auto
    then show ?thesis using None by (auto simp: simps output_ok_def ch)
  next
    case (Some p)
    obtain e where e: "depth bl p = Some e" "e < d" using prev_depth [OF assms Some] Suc.prems(1) by auto
    then obtain st where st: "walk_leaders fuel prev prefix bl p empty_tau_state = Some (Inr st)" "output_ok p st"
      using Suc.IH [OF e(1)] Suc.prems(2) by auto
    from st(2) obtain ys where ys: "tau_ok st" "ordered st = map consensus_identity ys"
      "set ys = {x \<in> set (block_ids bl). \<exists>k \<in> chain p. approves bl k x}"
      "sorted_wrt (\<lambda>x y. (x, y) \<notin> points bl) ys" unfolding output_ok_def by blast
    have ch: "chain l = insert l (chain p)" using Some by (subst chain_unfold) simp
    then have "chain p \<subseteq> chain l" by blast
    from output_extend [OF assms ys(1,2,4,3) this] obtain st' zs where z:
      "emit_new_approved bl l st = Inr st'" "tau_ok st'" "ordered st' = map consensus_identity (ys @ zs)"
      "set (ys @ zs) = {x \<in> set (block_ids bl). \<exists>k \<in> insert l (chain p). approves bl k x}"
      "sorted_wrt (\<lambda>x y. (x, y) \<notin> points bl) (ys @ zs)" by blast
    then have "output_ok l st'" unfolding output_ok_def ch by blast
    then show ?thesis using Some st(1) z(1) by (simp add: simps)
  qed
qed

end

section \<open>Both previous-leader searches are chains\<close>

lemma search_previous_Some:
  assumes "checkpoint bl = None" "search_previous final_at ratified bl l wavelength sel = Some p"
  obtains cb d wave pb where "get_block bl l = Some cb" "depth bl l = Some d" "wavelength \<noteq> 0"
    "wave < d div wavelength" "final_at wave = Some p" "get_block bl p = Some pb" "ratified cb pb"
proof -
  have fl: "checkpoint_floor bl l wavelength sel = None" using assms(1) by (simp add: checkpoint_floor_def)
  obtain cb d where cb: "get_block bl l = Some cb" "depth bl l = Some d" "wavelength \<noteq> 0"
    and "first_some (\<lambda>wave. case final_at wave of None \<Rightarrow> None
           | Some previous_leader \<Rightarrow>
               (case get_block bl previous_leader of None \<Rightarrow> None
                | Some previous_block \<Rightarrow>
                    if ratified cb previous_block then Some previous_leader else None))
         (rev [0..<d div wavelength]) = Some p"
    using assms(2)
    by (auto simp: search_previous_def fl wave_of_round_def Let_def split: option.splits if_splits)
  from first_some_Some [OF this(4)] obtain wave where w: "wave < d div wavelength"
    "(case final_at wave of None \<Rightarrow> None
           | Some previous_leader \<Rightarrow>
               (case get_block bl previous_leader of None \<Rightarrow> None
                | Some previous_block \<Rightarrow>
                    if ratified cb previous_block then Some previous_leader else None)) = Some p"
    by auto
  then obtain pb where "final_at wave = Some p" "get_block bl p = Some pb" "ratified cb pb"
    by (auto split: option.splits if_splits)
  with that cb w(1) show thesis by blast
qed

lemma leader_of_earlier_wave:
  assumes "unpruned bl" "leader_block_for_wave bl wave wavelength sel = Some p" "wave < d div wavelength"
  shows "depth bl p = Some (wave * wavelength)" "wave * wavelength < d" "p \<in> set (block_ids bl)"
proof -
  note u = unprunedD [OF assms(1)]
  obtain b where b: "leader_blocks_of_wave bl wave wavelength sel = [b]" "identity b = p"
    using assms(2) unfolding leader_block_for_wave_Some by blast
  then have mem: "b \<in> set (leader_blocks_of_wave bl wave wavelength sel)" by simp
  show "depth bl p = Some (wave * wavelength)" using leader_checks(2) [OF u(1,2) mem] b(2) by simp
  show "p \<in> set (block_ids bl)" using stored_block_id [OF leader_blocks_mem(1) [OF u(1,2) mem]] b(2) by simp
  have "0 < wavelength" by (rule leader_blocks_mem(3) [OF u(1,2) mem])
  then have "wave * wavelength < d div wavelength * wavelength" using assms(3) by simp
  also have "\<dots> \<le> d" by (simp add: div_times_less_eq_dividend)
  finally show "wave * wavelength < d" .
qed

lemma ratified_observed:
  assumes "unpruned bl" "get_block bl l = Some cb" "b \<in> set (approving_in_view bl (identity cb) p)"
  shows "p \<in> set (observe bl l)"
proof -
  note u = unprunedD [OF assms(1)]
  have r: "resolve_identity bl l = Some (identity cb)" by (rule get_block_Some(1) [OF assms(2)])
  have "identity b \<in> set (observe bl l)" "approves bl (identity b) p"
    using assms(3) observe_resolved [OF r] unfolding approving_in_view_iff [OF u(1)] by auto
  moreover from this(2) have "p \<in> set (observe bl (identity b))"
    by (simp add: approves_iff [OF u(1-3)] approves_spec_def)
  moreover have "identity b \<in> set (block_ids bl)" using calculation(1) observe_stored by blast
  ultimately show ?thesis by (auto simp: observe_iff simp del: set_map)
qed

lemma supermajority_nonempty: "is_supermajority bs n f \<Longrightarrow> \<exists>b. b \<in> set bs"
  by (cases bs) (auto simp: is_supermajority_def)

lemma weighted_supermajority_nonempty: "is_weighted_supermajority_snapshot cs ws \<Longrightarrow> cs \<noteq> []"
  by (auto simp: is_weighted_supermajority_snapshot_def checked_bond_weight_def strict_two_thirds_def
      checked_mul_def split: option.splits if_splits)

lemma weighted_ratifies_eq:
  "weighted_ratifies bl rat target bonds \<longleftrightarrow>
     ratification_certificate bl (from_bonds bonds) (identity target) (identity rat) \<noteq> None"
  unfolding weighted_ratifies_def using ratification.run_spec [OF ratification_memo_ok_empty] .

interpretation plain_chain: leader_chain bl "\<lambda>l. previous_final_leader bl l wavelength n f sel"
  for bl wavelength n f sel
proof
  fix l p assume u: "unpruned bl" and p: "previous_final_leader bl l wavelength n f sel = Some p"
  from search_previous_Some [OF unprunedD(4) [OF u] p [unfolded previous_final_leader_def]]
  obtain cb d wave pb where s: "get_block bl l = Some cb" "depth bl l = Some d" "wave < d div wavelength"
    "final_leader_for_wave bl wave wavelength n f sel = Some p" "get_block bl p = Some pb" "ratifies bl cb pb n f" .
  have lb: "leader_block_for_wave bl wave wavelength sel = Some p"
    using s(4) by (auto simp: final_leader_for_wave_def split: option.splits if_splits)
  note e = leader_of_earlier_wave [OF u lb s(3)]
  show "\<exists>d e. depth bl l = Some d \<and> depth bl p = Some e \<and> e < d" using s(2) e(1,2) by blast
  have "identity pb = p" using get_block_stored_block [OF unprunedD(1) [OF u] e(3)] s(5) by blast
  then obtain b where "b \<in> set (approving_in_view bl (identity cb) p)"
    using s(6) supermajority_nonempty unfolding node_ratifies_view [OF unprunedD(1) [OF u]] by blast
  then show "p \<in> set (observe bl l)" by (rule ratified_observed [OF u s(1)])
qed

interpretation stake_chain: leader_chain bl "\<lambda>l. weighted_previous_final_leader bl l wavelength bonds sel"
  for bl wavelength bonds sel
proof
  fix l p assume u: "unpruned bl" and p: "weighted_previous_final_leader bl l wavelength bonds sel = Some p"
  from search_previous_Some [OF unprunedD(4) [OF u] p [unfolded weighted_previous_final_leader_def]]
  obtain cb d wave pb where s: "get_block bl l = Some cb" "depth bl l = Some d" "wave < d div wavelength"
    "weighted_final_leader_for_wave bl wave wavelength bonds sel = Some p" "get_block bl p = Some pb"
    "weighted_ratifies bl cb pb bonds" .
  have lb: "leader_block_for_wave bl wave wavelength sel = Some p"
    using s(4) by (auto simp: weighted_final_leader_for_wave_def split: option.splits if_splits)
  note e = leader_of_earlier_wave [OF u lb s(3)]
  show "\<exists>d e. depth bl l = Some d \<and> depth bl p = Some e \<and> e < d" using s(2) e(1,2) by blast
  have pb: "identity pb = p" using get_block_stored_block [OF unprunedD(1) [OF u] e(3)] s(5) by blast
  then have "bonded_creators (from_bonds bonds) (approving_in_view bl (identity cb) p) \<noteq> []"
    using s(6) ratification_certificate_Some(1) weighted_supermajority_nonempty
    unfolding weighted_ratifies_eq by blast
  then obtain b where "b \<in> set (approving_in_view bl (identity cb) p)"
    by (cases "approving_in_view bl (identity cb) p") (auto simp: bonded_creators_def map_filter_Nil)
  then show "p \<in> set (observe bl l)" by (rule ratified_observed [OF u s(1)])
qed

section \<open>Stores built by admission are unpruned\<close>

lemma reachable_checkpoint: "lace_reachable verify bl \<Longrightarrow> checkpoint bl = None"
  by (induction rule: lace_reachable.induct)
    (auto simp: new_blocklace_def ancestor_index_def Let_def commit_InrD(3) dest!: insert_InrD(3)
      split: option.splits)

lemma reachable_checkpoint_depth: "lace_reachable verify bl \<Longrightarrow> checkpoint_depth bl = None"
  by (induction rule: lace_reachable.induct)
    (auto simp: new_blocklace_def ancestor_index_def Let_def commit_InrD(4) dest!: insert_InrD(3)
      split: option.splits)

lemma reachable_unpruned:
  "lace_reachable verify bl \<Longrightarrow> signature_binding verify \<Longrightarrow> unpruned bl"
  using reachable_inv reachable_checkpoint by (auto simp: unpruned_def lace_inv_def)

lemma reachable_closed:
  "lace_reachable verify bl \<Longrightarrow> signature_binding verify \<Longrightarrow> is_closed bl"
  using reachable_inv by (auto simp: lace_inv_def)

section \<open>The output sequence\<close>

lemma leader_fuel_enough: "depth bl l = Some d \<Longrightarrow> d < leader_fuel bl l"
  by (simp add: leader_fuel_def)

lemma scan_leader_depth:
  assumes "unpruned bl" "leader_block_for_wave bl wave wavelength sel = Some l"
  shows "\<exists>d. depth bl l = Some d"
proof -
  obtain b where b: "leader_blocks_of_wave bl wave wavelength sel = [b]" "identity b = l"
    using assms(2) unfolding leader_block_for_wave_Some by blast
  then have mem: "b \<in> set (leader_blocks_of_wave bl wave wavelength sel)" by simp
  from leader_checks(2) [OF unprunedD(1,2) [OF assms(1)] mem] b(2) show ?thesis by simp
qed

lemma latest_final_leader_depth:
  assumes "unpruned bl" "latest_final_leader bl wavelength n f sel = Some l"
  shows "\<exists>d. depth bl l = Some d"
proof -
  have "wavelength \<noteq> 0" using assms(2) by (cases "wavelength = 0") (simp_all add: latest_final_leader_def)
  from assms(2) [unfolded latest_final_leader_eq [OF unprunedD(1,2) [OF assms(1)] this unprunedD(4) [OF assms(1)]]]
  obtain wave where "final_leader_for_wave bl wave wavelength n f sel = Some l" by (auto dest: first_some_Some)
  then have "leader_block_for_wave bl wave wavelength sel = Some l"
    by (auto simp: final_leader_for_wave_def split: option.splits if_splits)
  from scan_leader_depth [OF assms(1) this] show ?thesis .
qed

lemma latest_weighted_final_leader_depth:
  assumes "unpruned bl" "latest_weighted_final_leader bl wavelength bonds sel = Some l"
  shows "\<exists>d. depth bl l = Some d"
proof -
  have "wavelength \<noteq> 0" using assms(2) by (cases "wavelength = 0") (simp_all add: latest_weighted_final_leader_def)
  from assms(2) [unfolded latest_weighted_final_leader_eq [OF unprunedD(1,2) [OF assms(1)] this unprunedD(4) [OF assms(1)]]]
  obtain wave where "weighted_final_leader_for_wave bl wave wavelength bonds sel = Some l" by (auto dest: first_some_Some)
  then have "leader_block_for_wave bl wave wavelength sel = Some l"
    by (auto simp: weighted_final_leader_for_wave_def split: option.splits if_splits)
  from scan_leader_depth [OF assms(1) this] show ?thesis .
qed

end
