(* ===== verification/Scenario.thy ===== *)
theory Scenario
  imports Ordering_Proofs
begin

text \<open>
  A concrete run the development's examples share: four blocks by three creators, admitted in
  order under a verifier that accepts exactly the recorded contents.
\<close>

definition sc_A :: node_id where "sc_A = NodeId [1]"
definition sc_B :: node_id where "sc_B = NodeId [2]"
definition sc_C :: node_id where "sc_C = NodeId [3]"

definition sc_d :: block_identity where "sc_d = BlockIdentity [9] sc_A [1]"
definition sc_y :: block_identity where "sc_y = BlockIdentity [5] sc_B [2]"
definition sc_x :: block_identity where "sc_x = BlockIdentity [3] sc_C [3]"
definition sc_l :: block_identity where "sc_l = BlockIdentity [7] sc_A [4]"

definition sc_blocks :: "block list" where
  "sc_blocks = [\<lparr>identity = sc_d, content = \<lparr>payload = [1], predecessors = []\<rparr>\<rparr>,
     \<lparr>identity = sc_y, content = \<lparr>payload = [2], predecessors = []\<rparr>\<rparr>,
     \<lparr>identity = sc_x, content = \<lparr>payload = [3], predecessors = [sc_d]\<rparr>\<rparr>,
     \<lparr>identity = sc_l, content = \<lparr>payload = [4], predecessors = [sc_x, sc_y]\<rparr>\<rparr>]"

definition sc_verify :: "unit block_verifier" where
  "sc_verify c s p = (if list_ex (\<lambda>b. content b = c \<and> signature (identity b) = s \<and> creator (identity b) = p) sc_blocks
     then Inr () else Inl ())"

definition sc_prefix :: "nat \<Rightarrow> blocklace" where
  "sc_prefix k = (new_blocklace 0)\<lparr>blocks := map (\<lambda>b. (identity b, content b)) (take k sc_blocks), generation := k\<rparr>"

definition sc_store :: blocklace where
  "sc_store = sc_prefix 4"

definition sc_index :: ancestor_index where
  "sc_index = \<lparr>idx_generation = 4, pos = [(sc_d, 0), (sc_y, 1), (sc_x, 2), (sc_l, 3)],
     idx_closure = \<lparr>words = 1, bits = [1, 2, 5, 15]\<rparr>, conflicts = []\<rparr>"

definition sc_lace :: blocklace where
  "sc_lace = sc_store\<lparr>index_slot := Some sc_index\<rparr>"

definition sc_leader :: leader_selection where
  "sc_leader wave = Some sc_A"

lemmas sc_defs = sc_A_def sc_B_def sc_C_def sc_d_def sc_y_def sc_x_def sc_l_def sc_blocks_def

definition sc_bonds :: "(node_id \<times> nat) list" where
  "sc_bonds = [(sc_A, 50), (sc_B, 20), (sc_C, 30)]"

abbreviation sc_block :: "nat \<Rightarrow> block" where
  "sc_block k \<equiv> sc_blocks ! k"

section \<open>The run is reachable\<close>

lemma sc_binding: "signature_binding sc_verify"
proof -
  have "distinct (map (signature \<circ> identity) sc_blocks)" by code_simp
  then have "inj_on (signature \<circ> identity) (set sc_blocks)" by (simp add: distinct_map)
  then have same: "c = d" if "sc_verify c s p = Inr ()" "sc_verify d s p = Inr ()" for c d s p
    using that by (auto simp: sc_verify_def list_ex_iff inj_on_def split: if_splits)
  then show ?thesis unfolding signature_binding_def by blast
qed

lemma sc_admit:
  "insert_block (sc_prefix 0) (sc_block 0) sc_verify = Inr (sc_prefix 1)"
  "insert_block (sc_prefix 1) (sc_block 1) sc_verify = Inr (sc_prefix 2)"
  "insert_block (sc_prefix 2) (sc_block 2) sc_verify = Inr (sc_prefix 3)"
  "insert_block (sc_prefix 3) (sc_block 3) sc_verify = Inr (sc_prefix 4)"
  by code_simp+

lemma sc_index_built: "build_index sc_store = sc_index"
  by code_simp

lemma sc_prefix_0: "sc_prefix 0 = new_blocklace 0"
  by (simp add: sc_prefix_def new_blocklace_def)

lemma sc_store_reachable: "lace_reachable sc_verify sc_store"
  unfolding sc_store_def
  by (rule lace_reachable.admit [OF _ sc_admit(4)], rule lace_reachable.admit [OF _ sc_admit(3)],
      rule lace_reachable.admit [OF _ sc_admit(2)], rule lace_reachable.admit [OF _ sc_admit(1)])
    (unfold sc_prefix_0, rule lace_reachable.fresh_lace)

lemma sc_lace_query: "snd (ancestor_index sc_store) = sc_lace"
proof -
  have "index_slot sc_store = None" by (simp add: sc_store_def sc_prefix_def new_blocklace_def)
  then show ?thesis by (simp add: ancestor_index_def sc_index_built sc_lace_def)
qed

lemma sc_lace_reachable: "lace_reachable sc_verify sc_lace"
  using lace_reachable.query [OF sc_store_reachable] by (simp add: sc_lace_query)

lemma sc_lace_inv: "lace_inv sc_verify sc_lace"
  by (rule reachable_inv [OF sc_lace_reachable sc_binding])

lemma sc_lace_facts:
  "wf_lace sc_lace" "is_closed sc_lace" "acyclic_lace sc_lace" "slot_ok sc_lace" "checkpoint sc_lace = None"
  using sc_lace_inv
  by (auto simp: lace_inv_def sc_lace_def sc_store_def sc_prefix_def new_blocklace_def)

lemma sc_unpruned: "unpruned sc_lace"
  using sc_lace_facts by (simp add: unpruned_def)

section \<open>The stake of the run\<close>

text \<open>Quorums read the weights of a snapshot, never its identifier.\<close>

lemma weight_of_id_irrelevant: "weight_of (ws\<lparr>ws_id := h\<rparr>) = weight_of ws"
  by (simp add: weight_of_def fun_eq_iff)

lemma supermajority_id_irrelevant:
  "is_weighted_supermajority_snapshot cs (ws\<lparr>ws_id := h\<rparr>) = is_weighted_supermajority_snapshot cs ws"
  unfolding is_weighted_supermajority_snapshot_def weight_of_id_irrelevant by (simp add: total_def)

lemma bonded_creators_id_irrelevant: "bonded_creators (ws\<lparr>ws_id := h\<rparr>) bs = bonded_creators ws bs"
  by (simp add: bonded_creators_def weight_of_id_irrelevant)

lemma super_certificate_id_irrelevant:
  "super_certificate bl (ws\<lparr>ws_id := h\<rparr>) t bs \<noteq> None \<longleftrightarrow> super_certificate bl ws t bs \<noteq> None"
  unfolding super_certificate_iff ratifying_blocks_def ratification_certificate_iff
    supermajority_id_irrelevant bonded_creators_id_irrelevant
  by (simp add: weight_of_id_irrelevant)

definition sc_weights :: weight_snapshot where
  "sc_weights = \<lparr>ws_id = [], ws_bonds = btree_of sc_bonds\<rparr>"

lemma sc_snapshot: "sc_weights = (from_bonds sc_bonds)\<lparr>ws_id := []\<rparr>"
  by (simp add: sc_weights_def from_bonds_def from_sorted_def)

lemma sc_super_certificate: "super_certificate sc_lace (from_bonds sc_bonds) (identity (sc_block 0)) sc_blocks \<noteq> None"
proof -
  have "super_certificate sc_lace sc_weights (identity (sc_block 0)) sc_blocks \<noteq> None"
    unfolding super_certificate_iff ratifying_blocks_def ratification_certificate_iff by code_simp
  then show ?thesis unfolding sc_snapshot super_certificate_id_irrelevant .
qed

lemma sc_final_leader: "is_weighted_final_leader sc_lace sc_d 3 sc_bonds sc_leader"
proof -
  have lb: "leader_blocks_of_wave sc_lace 0 3 sc_leader = [sc_block 0]" and lr: "last_round_of_wave 0 3 = Some 2"
    and d: "identity (sc_block 0) = sc_d"
    by code_simp+
  have "super_certificate sc_lace sc_weights sc_d (wave_witnesses sc_lace 0 2) \<noteq> None"
    unfolding super_certificate_iff ratifying_blocks_def ratification_certificate_iff by code_simp
  then have "super_certificate sc_lace (from_bonds sc_bonds) sc_d (wave_witnesses sc_lace 0 2) \<noteq> None"
    unfolding sc_snapshot super_certificate_id_irrelevant .
  moreover have "sc_block 0 \<in> set (leader_blocks_of_wave sc_lace 0 3 sc_leader)" by (simp add: lb)
  note weighted_final_leader_leader [OF sc_lace_facts(1,3) this, of sc_bonds]
  ultimately show ?thesis by (simp add: is_weighted_final_leader_def lr d)
qed

lemma sc_latest_weighted: "latest_weighted_final_leader sc_lace 3 sc_bonds sc_leader = Some sc_d"
proof -
  have lb: "leader_block_for_wave sc_lace 0 3 sc_leader = Some sc_d" and m: "max_depth sc_lace = Some 2"
    by code_simp+
  have "weighted_final_leader_for_wave sc_lace 0 3 sc_bonds sc_leader = Some sc_d"
    using sc_final_leader by (simp add: weighted_final_leader_for_wave_def lb)
  then show ?thesis
    using latest_weighted_final_leader_eq [OF sc_lace_facts(1,3) _ sc_lace_facts(5), of 3 sc_bonds sc_leader]
    by (simp add: latest_wave_of_def m)
qed

end
