(* ===== verification/Claims_Consensus.thy ===== *)
theory Claims_Consensus
  imports Scenario
begin

text \<open>
  The properties of the store, the ancestor index, rounds, approval, ratification, finality and
  ordering, each over the definitions of its component, with its witness on the shared scenario.
\<close>

section \<open>The store\<close>

text \<open>
  C4.  In every state a store reaches by admitting blocks through \<open>insert\<close> and answering
  queries through its cached index, keys are unique, no two stored identities name one consensus
  block, every block's predecessors resolve, every stored block verified, the predecessor graph
  has no cycle, and the cached index is the index of the current contents whenever its stamp says so.
\<close>

theorem reachable_store_invariant:
  assumes "lace_reachable verify bl" "signature_binding verify"
  shows "wf_lace bl \<and> is_closed bl \<and> verified_lace verify bl \<and> acyclic_lace bl \<and> slot_ok bl"
  using reachable_inv [OF assms] by (simp add: lace_inv_def)

theorem reachable_store_invariant_witness:
  "wf_lace sc_lace \<and> is_closed sc_lace \<and> verified_lace sc_verify sc_lace \<and> acyclic_lace sc_lace \<and> slot_ok sc_lace"
  by (rule reachable_store_invariant [OF sc_lace_reachable sc_binding])

text \<open>
  C7.  \<open>insert\<close> fails exactly in the three documented ways, in this order: a rejected
  signature, the first unresolved predecessor, a second identity for a stored consensus block.
  Otherwise it stores the block under its identity, keeps every other block, and counts one mutation.
\<close>

theorem insert_outcome:
  assumes "wf_lace bl"
  shows "(case verify (content b) (signature (identity b)) (creator (identity b)) of
      Inl e \<Rightarrow> insert_block bl b verify = Inl (InvalidSignature e)
    | Inr _ \<Rightarrow>
        if \<exists>p \<in> set (predecessors (content b)). resolve_identity bl p = None
        then \<exists>p \<in> set (predecessors (content b)). resolve_identity bl p = None \<and>
          insert_block bl b verify = Inl (ClosureViolation p)
        else if \<exists>k \<in> set (block_ids bl). k \<noteq> identity b \<and> same_consensus_identity k (identity b)
        then \<exists>k \<in> set (block_ids bl). k \<noteq> identity b \<and> same_consensus_identity k (identity b) \<and>
          insert_block bl b verify = Inl (IdentityConflict k)
        else \<exists>bl'. insert_block bl b verify = Inr bl' \<and> generation bl' = generation bl + 1 \<and>
          get_block bl' (identity b) = Some b \<and>
          (\<forall>i. i \<noteq> identity b \<longrightarrow> map_of (blocks bl') i = map_of (blocks bl) i))"
proof -
  let ?i = "identity b"
  have miss: "missing_preds bl (content b) = [] \<longleftrightarrow>
      \<not> (\<exists>p \<in> set (predecessors (content b)). resolve_identity bl p = None)"
    by (auto simp: missing_preds_def filter_empty_conv)
  have hd: "p \<in> set (predecessors (content b)) \<and> resolve_identity bl p = None"
    if "missing_preds bl (content b) = p # ps" for p ps
    using arg_cong [OF that, of set] by (auto simp: missing_preds_def)
  note conf = conflicting_wf_iff [OF assms, of ?i] and conf_Some = conflicting_SomeD [of bl ?i]
    and ok = commit_effect [of bl b]
  show ?thesis
    using miss hd conf conf_Some ok
    by (auto simp: insert_block_def commit_validated_def split: sum.split list.split option.split)
qed

theorem insert_outcome_witness:
  "insert_block sc_lace (sc_block 3) (\<lambda>_ _ _. Inl ()) = Inl (InvalidSignature ()) \<and>
   (\<exists>bl'. insert_block (sc_prefix 3) (sc_block 3) sc_verify = Inr bl' \<and> generation bl' = generation (sc_prefix 3) + 1 \<and>
     get_block bl' (identity (sc_block 3)) = Some (sc_block 3))"
proof -
  have wf: "wf_lace (sc_prefix 3)"
    and ver: "sc_verify (content (sc_block 3)) (signature (identity (sc_block 3))) (creator (identity (sc_block 3))) = Inr ()"
    and preds: "\<not> (\<exists>p \<in> set (predecessors (content (sc_block 3))). resolve_identity (sc_prefix 3) p = None)"
    and fresh: "\<not> (\<exists>k \<in> set (block_ids (sc_prefix 3)). k \<noteq> identity (sc_block 3) \<and>
      same_consensus_identity k (identity (sc_block 3)))"
    by code_simp+
  show ?thesis
    using insert_outcome [OF sc_lace_facts(1), where verify = "\<lambda>_ _ _. Inl ()" and b = "sc_block 3"]
      insert_outcome [OF wf, where verify = sc_verify and b = "sc_block 3",
        unfolded ver sum.case if_not_P [OF preds] if_not_P [OF fresh]]
    unfolding sum.case by blast
qed

text \<open>
  The walks over the predecessor graph compute its transitive closure: \<open>precedes\<close> is the
  existence of a non-empty pointer path, \<open>preceedes_or_equals\<close> allows the empty one, and
  \<open>observe\<close> lists each member of a block's closed past once.
\<close>

theorem walks_compute_reachability:
  "(precedes bl a b \<longleftrightarrow> (\<exists>r. resolve_identity bl a = Some r \<and> (b, r) \<in> (points bl)\<^sup>+)) \<and>
   (preceedes_or_equals bl a b \<longleftrightarrow> (\<exists>r s. resolve_identity bl a = Some r \<and> resolve_identity bl b = Some s \<and>
      (s, r) \<in> (points bl)\<^sup>*)) \<and>
   distinct (observe bl b) \<and>
   set (observe bl b) = {r. \<exists>s. resolve_identity bl b = Some s \<and> (s, r) \<in> (points bl)\<^sup>*}"
  using precedes_iff preceedes_or_equals_iff distinct_observe observe_iff by blast

section \<open>The ancestor index\<close>

text \<open>
  In every reachable store the bit matrix behind the cached index answers exactly what the
  walk over the stored blocks answers: bit \<open>j\<close> of row \<open>i\<close> says whether the \<open>j\<close>-th
  stored block precedes or equals the \<open>i\<close>-th.
\<close>

theorem cached_index_matches_walk:
  assumes "lace_reachable verify bl" "signature_binding verify"
    and "i < length (blocks bl)" "j < length (blocks bl)"
  shows "observes (idx_closure (fst (ancestor_index bl))) i j \<longleftrightarrow>
    preceedes_or_equals bl (block_ids bl ! j) (block_ids bl ! i)"
proof -
  note u = unprunedD [OF reachable_unpruned [OF assms(1,2)]]
  have "block_ids bl ! i \<in> set (block_ids bl)" "block_ids bl ! j \<in> set (block_ids bl)"
    using assms(3,4) nth_mem [of _ "block_ids bl"] by (simp_all del: set_map nth_map)
  then show ?thesis
    unfolding ancestor_index_fst [OF u(3)] index_observes [OF u(1,2) assms(3,4)] preceedes_or_equals_iff
    by (simp add: resolve_stored del: set_map)
qed

text \<open>
  C5.  \<open>approves\<close>, answered from the index and its table of equivocation conflicts, is the
  definition of the paper: the approver observes the target, and observes no block of the target's
  creator that is causally incomparable with the target.
\<close>

theorem approves_is_definition_18:
  assumes "lace_reachable verify bl" "signature_binding verify"
  shows "approves bl a t \<longleftrightarrow> t \<in> set (observe bl a) \<and>
    \<not> (\<exists>s \<in> set (observe bl a). creator s = creator t \<and> s \<noteq> t \<and>
         (s, t) \<notin> (points bl)\<^sup>* \<and> (t, s) \<notin> (points bl)\<^sup>*)"
proof -
  note u = unprunedD [OF reachable_unpruned [OF assms]]
  have "s \<in> set (block_ids bl)" if "s \<in> set (observe bl a)" for s using that observe_stored by blast
  then show ?thesis
    unfolding approves_iff [OF u(1-3)] approves_spec_def equivocating_sibling_def incomparable_def by blast
qed

theorem approves_is_definition_18_witness:
  "approves sc_lace sc_l sc_d \<and> sc_d \<in> set (observe sc_lace sc_l) \<and> \<not> approves sc_lace sc_y sc_d"
proof -
  have "approves sc_lace sc_l sc_d" and n: "\<not> approves sc_lace sc_y sc_d" by code_simp+
  with approves_is_definition_18 [OF sc_lace_reachable sc_binding, of sc_l sc_d] show ?thesis by blast
qed

section \<open>Rounds and waves\<close>

text \<open>
  \<open>depth\<close> is total on the blocks of a reachable store and is the length of the longest
  pointer path below the block; it is at most the number of stored blocks, so the round counter
  stays within \<open>u64\<close> as long as the store does.
\<close>

theorem depth_is_longest_path:
  assumes "lace_reachable verify bl" "signature_binding verify" "resolve_identity bl i = Some r"
  shows "\<exists>d. depth bl i = Some d \<and> (\<exists>y. (r, y) \<in> points bl ^^ d) \<and>
    (\<forall>n y. (r, y) \<in> points bl ^^ n \<longrightarrow> n \<le> d) \<and> d \<le> length (blocks bl)"
proof -
  note u = unprunedD [OF reachable_unpruned [OF assms(1,2)]] and cl = reachable_closed [OF assms(1,2)]
  obtain d where d: "has_depth bl i d" using closed_has_depth [OF u(1) cl u(2) assms(3)] by blast
  have "d \<le> card ((points bl)\<^sup>+ `` {r})"
    using has_depth_bound [OF u(2) d assms(3)] reachable_checkpoint_depth [OF assms(1)] by simp
  also have "\<dots> \<le> card (set (block_ids bl))"
    by (rule card_mono) (auto dest: points_trancl_stored simp del: set_map)
  also have "\<dots> \<le> length (blocks bl)" using card_length [of "block_ids bl"] by simp
  finally show ?thesis
    using d has_depth_longest [OF u(1) cl u(4) d assms(3)] depth_iff [OF u(1,2)] by blast
qed

text \<open>
  Waves partition the rounds: with a positive wavelength a round lies in the range of a wave
  whose bounds are representable exactly when it is that wave's number, and the range starts at
  \<open>first_round_of_wave\<close>, ends at \<open>last_round_of_wave\<close> and has \<open>wavelength\<close> rounds.
  When a bound leaves \<open>u64\<close> there is no range.
\<close>

theorem waves_partition_rounds:
  "case rounds_of_wave wave wavelength of
     Some rs \<Rightarrow> 0 < wavelength \<and> length rs = wavelength \<and> distinct rs \<and>
       first_round_of_wave wave wavelength = Some (hd rs) \<and> last_round_of_wave wave wavelength = Some (last rs) \<and>
       (\<forall>r. r \<in> set rs \<longleftrightarrow> wave_of_round r wavelength = Some wave)
   | None \<Rightarrow> wavelength = 0 \<or> 2 ^ 64 < wave * wavelength + wavelength"
proof (cases "rounds_of_wave wave wavelength")
  case None
  then show ?thesis
    by (auto simp: rounds_of_wave_def first_round_of_wave_def last_round_of_wave_def checked_mul_def checked_add_def
        split: if_splits option.splits)
next
  case (Some rs)
  note r = rounds_of_wave_SomeD [OF Some]
  have "first_round_of_wave wave wavelength = Some (hd rs)" "last_round_of_wave wave wavelength = Some (last rs)"
    using r Some
    by (auto simp: rounds_of_wave_def first_round_of_wave_def last_round_of_wave_def checked_mul_def checked_add_def
        split: if_splits option.splits)
  moreover have "r \<in> set rs \<longleftrightarrow> wave_of_round r wavelength = Some wave" for r
    using r(1,2) in_wave_range_iff [OF r(1), of r wave] by (auto simp: wave_of_round_def)
  ultimately show ?thesis using r(1,2) Some by simp
qed

section \<open>Weights and certificates\<close>

text \<open>
  A weight snapshot depends on the set of bonds alone, not on the order in which the bond map
  is iterated, and the byte string its identifier hashes determines the weight table: the row
  encoding is injective.
\<close>

theorem snapshot_canonical:
  assumes "distinct (map fst bonds)" "distinct (map fst bonds')"
  shows "(from_bonds bonds = from_bonds bonds' \<longleftrightarrow> set bonds = set bonds') \<and>
    (concat (map weight_row (ws_bonds (from_bonds bonds))) = concat (map weight_row (ws_bonds (from_bonds bonds'))) \<longleftrightarrow>
      set bonds = set bonds')"
proof -
  have ent: "set (ws_bonds (from_bonds bs)) = set bs" if "distinct (map fst bs)" for bs
    using set_btree_of [OF that] by (simp add: from_bonds_def from_sorted_def )
  have "set bonds = set bonds'" if "ws_bonds (from_bonds bonds) = ws_bonds (from_bonds bonds')"
    using ent [OF assms(1)] ent [OF assms(2)] that by simp
  then show ?thesis
    unfolding weight_rows_inject using from_bonds_order_irrelevant [OF assms] by metis
qed

text \<open>
  A super-ratification certificate that the weighted finality rule emits is checkable
  by a third party holding the snapshot: it verifies, names the leader, lists only blocks that
  themselves ratify the leader with a verifying certificate, and its approvers are exactly the
  creators of those blocks.
\<close>

theorem emitted_certificate_sound:
  assumes "lace_reachable verify bl" "signature_binding verify"
    and "weighted_super_ratifies_certificate_with_snapshot bl bs target (from_bonds bonds) = Some cert"
  shows "verify_quorum_against cert (from_bonds bonds) \<and> leader cert = identity target \<and>
    kind cert = SuperRatification \<and> set (approvers cert) = creator ` set (approver_blocks cert) \<and>
    (\<forall>i \<in> set (approver_blocks cert). \<exists>c. ratification_certificate bl (from_bonds bonds) (identity target) i = Some c \<and>
       verify_quorum_against c (from_bonds bonds))"
proof -
  note u = unprunedD [OF reachable_unpruned [OF assms(1,2)]]
  note s = super_certificate_sound [OF u(1) wf_from_bonds assms(3) [unfolded certificate_with_snapshot_eq]]
  have "verify_quorum_against c (from_bonds bonds)"
    if "ratification_certificate bl (from_bonds bonds) (identity target) i = Some c" for i c
    using ratification_certificate_Some [OF that] new_certificate_verifies [OF distinct_bonded_creators]
    by simp
  then show ?thesis using s by blast
qed

section \<open>Safety\<close>

text \<open>
  C3.  With at most \<open>n\<close> participants of which at most \<open>f\<close> equivocate, and \<open>n + f\<close> a value of
  \<open>usize\<close>, no two blocks of one creator that are causally incomparable are both ratified, whatever
  the two ratifying blocks are.  (\<open>is_supermajority\<close> adds with wrap-around; see
  \<open>wrapped_threshold_accepts_one\<close>.)
\<close>

theorem ratified_blocks_never_conflict:
  assumes "lace_reachable verify bl" "signature_binding verify"
    and "card (set (all_nodes bl)) \<le> n" "card (set (find_equivacators bl)) \<le> f" "n + f < 2 ^ 64"
    and "ratifies bl b1 t1 n f" "ratifies bl b2 t2 n f"
  shows "\<not> equivocating_sibling bl (identity t1) (identity t2)"
  using count_safety [OF unprunedD(1-3) [OF reachable_unpruned [OF assms(1,2)]] assms(3-7)] .

theorem ratified_blocks_never_conflict_witness:
  "ratifies sc_lace (sc_block 3) (sc_block 0) 3 0 \<and> ratifies sc_lace (sc_block 3) (sc_block 2) 3 0 \<and>
   \<not> equivocating_sibling sc_lace (identity (sc_block 0)) (identity (sc_block 2))"
proof -
  have "card (set (all_nodes sc_lace)) \<le> 3" "card (set (find_equivacators sc_lace)) \<le> 0"
    and r: "ratifies sc_lace (sc_block 3) (sc_block 0) 3 0" "ratifies sc_lace (sc_block 3) (sc_block 2) 3 0"
    by code_simp+
  moreover have "3 + 0 < (2 :: nat) ^ 64" by simp
  ultimately show ?thesis
    using ratified_blocks_never_conflict [OF sc_lace_reachable sc_binding _ _ _ r] r by blast
qed

text \<open>
  The bound on \<open>n + f\<close> is needed: when the sum wraps to 0 a single block is a supermajority.
\<close>

theorem wrapped_threshold_accepts_one:
  "is_supermajority [b] (2 ^ 64 - 1) 1 \<and> \<not> is_supermajority [b] (2 ^ 64 - 2) 1"
  by (simp add: is_supermajority_def wrapping_add_def)

text \<open>
  C2.  With less than a third of the stake equivocating, the weighted rule never finalises two
  causally incomparable leader blocks of one creator, in any wave and for any leader schedule.
\<close>

theorem weighted_final_leaders_never_conflict:
  assumes "lace_reachable verify bl" "signature_binding verify"
    and "stake_tolerable (from_bonds bonds) (set (find_equivacators bl))"
    and "is_weighted_final_leader bl c wavelength bonds sel" "is_weighted_final_leader bl d wavelength bonds sel"
  shows "\<not> equivocating_sibling bl c d"
proof -
  note u = unprunedD [OF reachable_unpruned [OF assms(1,2)]]
  have rat: "\<exists>i. ratification_certificate bl (from_bonds bonds) x i \<noteq> None"
    if x: "is_weighted_final_leader bl x wavelength bonds sel" for x
  proof -
    obtain cert where "weighted_final_leader_certificate bl x wavelength bonds sel = Some cert"
      using x by (auto simp: is_weighted_final_leader_def)
    then show ?thesis
      using leader_stored_self [OF u(1,2)] super_certificate_ratifier by (elim weighted_final_leaderD) metis
  qed
  from rat [OF assms(4)] rat [OF assms(5)] show ?thesis
    using stake_safety [OF u(1-3) wf_from_bonds assms(3)] by blast
qed

theorem weighted_final_leaders_never_conflict_witness:
  "is_weighted_final_leader sc_lace sc_d 3 sc_bonds sc_leader \<and>
   \<not> equivocating_sibling sc_lace sc_d sc_d"
proof -
  have "set (find_equivacators sc_lace) = {}" by code_simp
  then have "stake_tolerable (from_bonds sc_bonds) (set (find_equivacators sc_lace))"
    by (simp add: stake_tolerable_def stake_def)
  from weighted_final_leaders_never_conflict [OF sc_lace_reachable sc_binding this sc_final_leader sc_final_leader]
  show ?thesis using sc_final_leader by blast
qed

section \<open>The finality scan\<close>

text \<open>
  C6.  The single-pass scan of \<open>latest_final_leader\<close>, which groups the blocks by round once and
  reads leaders and witnesses from that index, returns what the per-wave rule returns first when
  the waves are tried from the newest to the oldest.
\<close>

theorem latest_final_leader_is_newest_wave:
  assumes "lace_reachable verify bl" "signature_binding verify" "wavelength \<noteq> 0"
  shows "latest_final_leader bl wavelength n f sel =
    first_some (\<lambda>wave. final_leader_for_wave bl wave wavelength n f sel)
      (case max_depth bl of None \<Rightarrow> [] | Some d \<Rightarrow> rev [0..<d div wavelength + 1])"
proof -
  note u = unprunedD [OF reachable_unpruned [OF assms(1,2)]]
  from latest_final_leader_eq [OF u(1,2) assms(3) u(4)] show ?thesis unfolding latest_wave_of_def .
qed

theorem latest_final_leader_is_newest_wave_witness:
  "latest_final_leader sc_lace 3 3 0 sc_leader =
    first_some (\<lambda>wave. final_leader_for_wave sc_lace wave 3 3 0 sc_leader)
      (case max_depth sc_lace of None \<Rightarrow> [] | Some d \<Rightarrow> rev [0..<d div 3 + 1])"
  by (rule latest_final_leader_is_newest_wave [OF sc_lace_reachable sc_binding]) simp

text \<open>
  The weighted scan threads one memo table of observations, approvals and ratifications
  through all waves; its answer is that of the unmemoised weighted rule tried wave by wave from
  the newest.
\<close>

theorem latest_weighted_final_leader_is_newest_wave:
  assumes "lace_reachable verify bl" "signature_binding verify" "wavelength \<noteq> 0"
  shows "latest_weighted_final_leader bl wavelength bonds sel =
    first_some (\<lambda>wave. weighted_final_leader_for_wave bl wave wavelength bonds sel)
      (case max_depth bl of None \<Rightarrow> [] | Some d \<Rightarrow> rev [0..<d div wavelength + 1])"
proof -
  note u = unprunedD [OF reachable_unpruned [OF assms(1,2)]]
  from latest_weighted_final_leader_eq [OF u(1,2) assms(3) u(4)] show ?thesis unfolding latest_wave_of_def .
qed

section \<open>The total order\<close>

text \<open>
  C8.  Let no identity occur twice among the input blocks and no two of them be signature variants of
  one block (their identities differ in more than the signature).  Then \<open>xsort\<close> succeeds exactly
  when the input is acyclic: its output lists the consensus identity of every input block once, and no
  block comes before one of its predecessors in the input; on a cyclic input it reports
  \<open>CycleDetected\<close>.  Without the side condition it can report a cycle that is not there, because
  the ready blocks are keyed by consensus identity (\<open>xsort_refuses_variants\<close>); an admitted store
  meets the condition.
\<close>

theorem xsort_topological:
  assumes "distinct (map identity bs)" "inj_on consensus_identity (identity ` set bs)"
  shows "if acyclic (set_edges bs)
    then \<exists>ys. xsort bs = Inr (map consensus_identity ys) \<and> distinct ys \<and> set ys = identity ` set bs \<and>
      sorted_wrt (\<lambda>x y. (x, y) \<notin> set_edges bs) ys
    else xsort bs = Inl CycleDetected"
proof -
  have "sortable bs" using assms by (simp add: sortable_def)
  then show ?thesis using xsort_acyclic xsort_cyclic by auto
qed

theorem xsort_topological_witness:
  "acyclic (set_edges sc_blocks) \<and>
   (\<exists>ys. xsort sc_blocks = Inr (map consensus_identity ys) \<and> distinct ys \<and> set ys = identity ` set sc_blocks \<and>
      sorted_wrt (\<lambda>x y. (x, y) \<notin> set_edges sc_blocks) ys)"
proof -
  have "distinct (map identity sc_blocks)" "inj_on consensus_identity (identity ` set sc_blocks)" by code_simp+
  note t = xsort_topological [OF this]
  have "xsort sc_blocks \<noteq> Inl CycleDetected" by code_simp
  then have "acyclic (set_edges sc_blocks)" using t by meson
  with t show ?thesis by simp
qed

text \<open>
  Two signature variants of one block without predecessors form an acyclic input, and \<open>xsort\<close>
  reports a cycle on it.
\<close>

theorem xsort_refuses_variants:
  assumes "consensus_identity (identity b) = consensus_identity (identity c)" "identity b \<noteq> identity c"
    and "predecessors (content b) = []" "predecessors (content c) = []"
  shows "acyclic (set_edges [b, c]) \<and> xsort [b, c] = Inl CycleDetected"
proof
  show "acyclic (set_edges [b, c])" using assms(3,4) by (simp add: set_edges_def link_list_def acyclic_def)
  have d: "link_block [identity b, identity c] c (link_block [identity b, identity c] b ([], [])) = ([], [(identity b, 0), (identity c, 0)])"
    using assms by (simp add: link_block_def)
  show "xsort [b, c] = Inl CycleDetected"
    using assms(1) by (simp add: xsort_def Let_def d initial_ready_def dependents_of_def)
qed

text \<open>
  The order is a function of the set of blocks: two nodes that sort the same blocks, received
  in different orders and with predecessor sets iterated in different orders, get the same list.
\<close>

theorem xsort_order_independent:
  assumes "distinct (map identity bs)" "distinct (map identity cs)"
    and "inj_on consensus_identity (identity ` set bs)" "same_blocks bs cs"
  shows "xsort bs = xsort cs"
proof -
  have "sortable bs" "sortable cs"
    using assms same_blocks_ids [OF assms(4)] by (simp_all add: sortable_def)
  from xsort_deterministic [OF this assms(4)] show ?thesis .
qed

text \<open>
  C1.  \<open>tau\<close> always returns a result on a reachable store: neither the recursion over leaders
  runs on nor does the sort meet a cycle.  With no final leader the output is empty; otherwise it
  lists, each once, the blocks approved by some leader of the chain of previous final leaders below
  the latest one, and never puts a block before a block it points to.
\<close>

theorem tau_correct:
  assumes "lace_reachable verify bl" "signature_binding verify"
  shows "case latest_final_leader bl wavelength n f sel of
     None \<Rightarrow> tau bl wavelength n f sel = Some (Inr [])
   | Some l \<Rightarrow> \<exists>ys. tau bl wavelength n f sel = Some (Inr (map consensus_identity ys)) \<and>
       distinct (map consensus_identity ys) \<and>
       set ys = {x \<in> set (block_ids bl). \<exists>k. (l, k) \<in> {(l, p). previous_final_leader bl l wavelength n f sel = Some p}\<^sup>* \<and>
         approves bl k x} \<and>
       sorted_wrt (\<lambda>x y. (x, y) \<notin> points bl) ys"
proof (cases "latest_final_leader bl wavelength n f sel")
  case None
  then show ?thesis by (simp add: tau_def)
next
  case (Some l)
  note u = reachable_unpruned [OF assms]
  obtain d where d: "depth bl l = Some d" using latest_final_leader_depth [OF u Some] by blast
  from plain_chain.walk_leaders_spec [OF u d leader_fuel_enough [OF d]]
  obtain st where st: "tau_from_leader bl l wavelength n f sel empty_tau_state = Some (Inr st)"
    and "plain_chain.output_ok bl wavelength n f sel l st"
    unfolding tau_from_leader_def by blast
  then obtain ys where "tau_ok st" and ys: "ordered st = map consensus_identity ys"
    "set ys = {x \<in> set (block_ids bl). \<exists>k \<in> {k. (l, k) \<in> {(l, p). previous_final_leader bl l wavelength n f sel = Some p}\<^sup>*}. approves bl k x}"
    "sorted_wrt (\<lambda>x y. (x, y) \<notin> points bl) ys"
    unfolding plain_chain.output_ok_def plain_chain.chain_def by (elim conjE exE)
  then have "distinct (map consensus_identity ys)" by (simp add: tau_ok_def)
  moreover have "tau bl wavelength n f sel = Some (Inr (ordered st))"
    using st by (simp add: tau_def ordered_result_def Some)
  ultimately show ?thesis unfolding Some option.case by (intro exI [of _ ys]) (simp add: ys)
qed

theorem tau_correct_witness:
  "\<exists>ys. tau sc_lace 3 3 0 sc_leader = Some (Inr (map consensus_identity ys)) \<and>
     distinct (map consensus_identity ys) \<and> sorted_wrt (\<lambda>x y. (x, y) \<notin> points sc_lace) ys"
proof -
  have l: "latest_final_leader sc_lace 3 3 0 sc_leader = Some sc_d" by code_simp
  from tau_correct [OF sc_lace_reachable sc_binding, where wavelength = 3 and n = 3 and f = 0 and sel = sc_leader,
      unfolded l option.case]
  show ?thesis by blast
qed

text \<open>
  The weighted order has the same guarantees over the stake-weighted finality rule.
\<close>

theorem weighted_tau_correct:
  assumes "lace_reachable verify bl" "signature_binding verify"
  shows "case latest_weighted_final_leader bl wavelength bonds sel of
     None \<Rightarrow> weighted_tau bl wavelength bonds sel = Some (Inr [])
   | Some l \<Rightarrow> \<exists>ys. weighted_tau bl wavelength bonds sel = Some (Inr (map consensus_identity ys)) \<and>
       distinct (map consensus_identity ys) \<and>
       set ys = {x \<in> set (block_ids bl). \<exists>k.
         (l, k) \<in> {(l, p). weighted_previous_final_leader bl l wavelength bonds sel = Some p}\<^sup>* \<and> approves bl k x} \<and>
       sorted_wrt (\<lambda>x y. (x, y) \<notin> points bl) ys"
proof (cases "latest_weighted_final_leader bl wavelength bonds sel")
  case None
  then show ?thesis by (simp add: weighted_tau_def)
next
  case (Some l)
  note u = reachable_unpruned [OF assms]
  obtain d where d: "depth bl l = Some d" using latest_weighted_final_leader_depth [OF u Some] by blast
  from stake_chain.walk_leaders_spec [OF u d leader_fuel_enough [OF d]]
  obtain st where st: "weighted_tau_from_leader bl l wavelength bonds sel empty_tau_state = Some (Inr st)"
    and "stake_chain.output_ok bl wavelength bonds sel l st"
    unfolding weighted_tau_from_leader_def by blast
  then obtain ys where "tau_ok st" and ys: "ordered st = map consensus_identity ys"
    "set ys = {x \<in> set (block_ids bl). \<exists>k \<in> {k. (l, k) \<in> {(l, p). weighted_previous_final_leader bl l wavelength bonds sel = Some p}\<^sup>*}. approves bl k x}"
    "sorted_wrt (\<lambda>x y. (x, y) \<notin> points bl) ys"
    unfolding stake_chain.output_ok_def stake_chain.chain_def by (elim conjE exE)
  then have "distinct (map consensus_identity ys)" by (simp add: tau_ok_def)
  moreover have "weighted_tau bl wavelength bonds sel = Some (Inr (ordered st))"
    using st by (simp add: weighted_tau_def weighted_tau_at_leader_def ordered_result_def Some)
  ultimately show ?thesis unfolding Some option.case by (intro exI [of _ ys]) (simp add: ys)
qed

text \<open>
  The cached entry point does not compute the order it caches: on a store of four blocks whose
  newest leader follows another final leader, \<open>tau_with_cache\<close> started from an empty cache sorts the
  whole approved set of each leader, while \<open>tau\<close> sorts only what is not yet emitted; the two differ.
\<close>

theorem tau_with_cache_differs:
  "tau sc_lace 1 1 0 sc_leader \<noteq> fst (tau_with_cache sc_lace 1 1 0 0 sc_leader empty_ordering_cache)"
  by code_simp

end
