(* ===== verification/Walks.thy ===== *)
theory Walks
  imports Prelude
begin

text \<open>
  The second shape of graph walk in the program: a stack whose entries are checked against the
  visited set when they are popped, so that an entry may be pushed more than once.  It computes the
  same set as the walk that checks on pushing; the lemmas extend the contract \<open>search_space\<close>.
\<close>

function pop_walk :: "'a list \<Rightarrow> ('a \<Rightarrow> 'a list) \<Rightarrow> 'a list \<Rightarrow> 'a list \<Rightarrow> 'a list" where
  "pop_walk universe succs [] visited = visited"
| "pop_walk universe succs (c # q) visited =
     (if c \<in> set visited \<or> c \<notin> set universe then pop_walk universe succs q visited
      else pop_walk universe succs (rev (filter (\<lambda>p. p \<notin> set (visited @ [c])) (succs c)) @ q) (visited @ [c]))"
  by pat_completeness auto
termination
proof (relation "inv_image (less_than <*lex*> less_than)
    (\<lambda>(universe, succs, q, visited). (card (set universe - set visited), length q))", goal_cases)
  case (3 universe succs c q visited)
  then have "set universe - set (visited @ [c]) \<subset> set universe - set visited" by auto
  then have "card (set universe - set (visited @ [c])) < card (set universe - set visited)"
    by (rule psubset_card_mono [rotated]) simp
  then show ?case by simp
qed auto

declare pop_walk.simps [simp del]

lemma pop_walk_distinct: "distinct visited \<Longrightarrow> distinct (pop_walk universe succs q visited)"
  by (induction universe succs q visited rule: pop_walk.induct) (simp_all add: pop_walk.simps)

lemma pop_walk_mono: "set visited \<subseteq> set (pop_walk universe succs q visited)"
proof (induction universe succs q visited rule: pop_walk.induct)
  case (2 universe succs c q visited)
  then show ?case by (subst pop_walk.simps) auto
qed (simp add: pop_walk.simps)

lemma pop_walk_queue: "set q \<inter> set universe \<subseteq> set (pop_walk universe succs q visited)"
proof (induction universe succs q visited rule: pop_walk.induct)
  case (2 universe succs c q visited)
  then show ?case
    using pop_walk_mono [of visited universe succs q]
      pop_walk_mono [of "visited @ [c]" universe succs "rev (filter (\<lambda>p. p \<notin> set (visited @ [c])) (succs c)) @ q"]
    by (subst pop_walk.simps) auto
qed (simp add: pop_walk.simps)

lemma pop_walk_sound:
  "set (pop_walk universe succs q visited) \<subseteq> set visited \<union> {(x, y). y \<in> set (succs x)}\<^sup>* `` set q"
proof (induction universe succs q visited rule: pop_walk.induct)
  case (2 universe succs c q visited)
  let ?E = "{(x, y). y \<in> set (succs x)}" and ?new = "rev (filter (\<lambda>p. p \<notin> set (visited @ [c])) (succs c)) @ q"
  show ?case
  proof (cases "c \<in> set visited \<or> c \<notin> set universe")
    case True
    then show ?thesis using 2(1) by (subst pop_walk.simps) auto
  next
    case False
    have sub: "?E\<^sup>* `` set ?new \<subseteq> ?E\<^sup>* `` set (c # q)"
      by (auto intro: converse_rtrancl_into_rtrancl)
    have ih: "set (pop_walk universe succs ?new (visited @ [c])) \<subseteq> set (visited @ [c]) \<union> ?E\<^sup>* `` set ?new"
      using 2(2) False by blast
    have c: "set (visited @ [c]) \<subseteq> set visited \<union> ?E\<^sup>* `` set (c # q)" by auto
    have step: "pop_walk universe succs (c # q) visited = pop_walk universe succs ?new (visited @ [c])"
      using False by (simp add: pop_walk.simps)
    show ?thesis unfolding step using sub ih c by blast
  qed
qed (simp add: pop_walk.simps)

lemma pop_walk_closed:
  assumes "\<forall>x \<in> set visited. set (succs x) \<inter> set universe \<subseteq> set visited \<union> set q"
  shows "\<forall>x \<in> set (pop_walk universe succs q visited).
    set (succs x) \<inter> set universe \<subseteq> set (pop_walk universe succs q visited)"
  using assms
proof (induction universe succs q visited rule: pop_walk.induct)
  case (2 universe succs c q visited)
  let ?new = "rev (filter (\<lambda>p. p \<notin> set (visited @ [c])) (succs c)) @ q"
  show ?case
  proof (cases "c \<in> set visited \<or> c \<notin> set universe")
    case True
    then have "\<forall>x \<in> set visited. set (succs x) \<inter> set universe \<subseteq> set visited \<union> set q" using 2(3) by fastforce
    from 2(1) [OF True this] show ?thesis using True by (simp add: pop_walk.simps)
  next
    case False
    then have "\<forall>x \<in> set (visited @ [c]). set (succs x) \<inter> set universe \<subseteq> set (visited @ [c]) \<union> set ?new"
      using 2(3) by fastforce
    from 2(2) [OF False this] show ?thesis using False by (subst (1 2) pop_walk.simps) simp
  qed
qed (auto simp: pop_walk.simps)

context search_space
begin

lemma pop_walk_reach:
  assumes "set q \<subseteq> set universe"
  shows "set (pop_walk universe succs q []) = edge\<^sup>* `` set q"
proof
  show "set (pop_walk universe succs q []) \<subseteq> edge\<^sup>* `` set q"
    using pop_walk_sound [of universe succs q "[]"] by (simp add: edge_def)
  let ?R = "set (pop_walk universe succs q [])"
  have start: "set q \<subseteq> ?R" using pop_walk_queue [of q universe succs "[]"] assms by blast
  have closed: "set (succs x) \<subseteq> ?R" if "x \<in> ?R" for x
    using pop_walk_closed [of "[]" succs universe q] succs_in_universe [of x] that by fastforce
  have "y \<in> ?R" if "(x, y) \<in> edge\<^sup>*" "x \<in> ?R" for x y
    using that by (induction rule: rtrancl_induct) (use closed in auto)
  then show "edge\<^sup>* `` set q \<subseteq> ?R" using start by blast
qed

end

end
