(* ===== verification/Fork_Choice.thy ===== *)
theory Fork_Choice
  imports Walks Finality
begin

text \<open>
  \<open>consensus/fork_choice.rs\<close>: the ranked tips of the non-equivocating bonded validators, their
  highest common ancestor, the stake scores between it and the tips, and the cordial condition.
  The bond map and every hash set are lists in iteration order.  Score additions are \<open>u64\<close>
  additions of the release build: they wrap.
\<close>

record fork_choice_result =
  fc_tips :: "block_identity list"
  fc_lca :: block_identity
  fc_scores :: "(block_identity \<times> nat) list"

definition validator_tip_blocks :: "blocklace \<Rightarrow> (node_id \<times> nat) list \<Rightarrow> (node_id \<times> block) list" where
  "validator_tip_blocks bl bonds =
     (let equivocators = find_equivacators bl in
      List.map_filter (\<lambda>nd. map_option (\<lambda>tip. (nd, tip)) (tip_of bl nd))
        (filter (\<lambda>nd. nd \<notin> set equivocators) (map fst bonds)))"

definition inclusive_ids :: "blocklace \<Rightarrow> block_identity \<Rightarrow> block_identity list" where
  "inclusive_ids bl i = map identity (ancestors_inclusive bl i)"

definition compute_lca :: "blocklace \<Rightarrow> block_identity list \<Rightarrow> block_identity option" where
  "compute_lca bl tips =
     (case tips of
        [] \<Rightarrow> None
      | [t] \<Rightarrow> Some t
      | t # rest \<Rightarrow>
          let common = fold (\<lambda>s acc. filter (\<lambda>i. i \<in> set (inclusive_ids bl s)) acc) rest (inclusive_ids bl t) in
          if common = [] then None
          else List.find (\<lambda>candidate. \<not> list_ex (\<lambda>other. other \<noteq> candidate \<and> precedes bl candidate other) common)
                 common)"

definition lca_succs :: "blocklace \<Rightarrow> block_identity \<Rightarrow> block_identity \<Rightarrow> block_identity list" where
  "lca_succs bl target current =
     (if current = target then []
      else case content_of bl current of None \<Rightarrow> []
           | Some c \<Rightarrow> filter (preceedes_or_equals bl target) (List.map_filter (resolve_identity bl) (predecessors c)))"

definition walk_to_lca :: "blocklace \<Rightarrow> block_identity \<Rightarrow> block_identity \<Rightarrow> block_identity list" where
  "walk_to_lca bl start target =
     (case resolve_identity bl start of None \<Rightarrow> []
      | Some r \<Rightarrow> pop_walk (block_ids bl) (lca_succs bl target) [r] [])"

definition add_score :: "nat \<Rightarrow> block_identity \<Rightarrow> (block_identity \<times> nat) list \<Rightarrow> (block_identity \<times> nat) list" where
  "add_score amount i scores =
     AList.update i (((case map_of scores i of None \<Rightarrow> 0 | Some s \<Rightarrow> s) + amount) mod 2 ^ 64) scores"

lemma add_score_code [code]:
  "add_score amount i scores =
     (let x = (case map_of scores i of None \<Rightarrow> 0 | Some s \<Rightarrow> s) + amount
      in AList.update i (if fits_width 64 x then x else x mod 2 ^ 64) scores)"
  by (simp add: add_score_def fits_width_iff Let_def)

definition score_tip ::
  "blocklace \<Rightarrow> (node_id \<times> nat) list \<Rightarrow> block_identity \<Rightarrow> node_id \<times> block
     \<Rightarrow> (block_identity \<times> nat) list \<Rightarrow> (block_identity \<times> nat) list" where
  "score_tip bl bonds lca entry scores =
     (let amount = (case map_of bonds (fst entry) of None \<Rightarrow> 0 | Some s \<Rightarrow> s) in
      if amount = 0 then scores
      else fold (add_score amount) (walk_to_lca bl (identity (snd entry)) lca) scores)"

definition score_of :: "(block_identity \<times> nat) list \<Rightarrow> block_identity \<Rightarrow> nat" where
  "score_of scores i = (case map_of scores i of None \<Rightarrow> 0 | Some s \<Rightarrow> s)"

text \<open>
  A stable sort by descending score, then ascending content hash: the key of the comparison is the
  pair of the score's complement and the hash.
\<close>

definition rank_key :: "(block_identity \<times> nat) list \<Rightarrow> block_identity \<Rightarrow> int \<times> byte list" where
  "rank_key scores i = (- int (score_of scores i), content_hash i)"

definition fork_choice :: "blocklace \<Rightarrow> (node_id \<times> nat) list \<Rightarrow> fork_choice_result option" where
  "fork_choice bl bonds =
     (let tips = validator_tip_blocks bl bonds in
      if tips = [] then None
      else case compute_lca bl (map (\<lambda>(nd, b). identity b) tips) of None \<Rightarrow> None
           | Some lca \<Rightarrow>
               let scores = fold (score_tip bl bonds lca) tips [];
                   ranked = dedup_by (\<lambda>i. i) (map (\<lambda>(nd, b). identity b) tips)
               in Some \<lparr>fc_tips = sort_key (rank_key scores) ranked, fc_lca = lca, fc_scores = scores\<rparr>)"

definition collect_validator_tips :: "blocklace \<Rightarrow> (node_id \<times> nat) list \<Rightarrow> (node_id \<times> block_identity) list" where
  "collect_validator_tips bl bonds =
     (let equivocators = find_equivacators bl in
      List.map_filter (\<lambda>nd. map_option (\<lambda>tip. (nd, identity tip)) (tip_of bl nd))
        (filter (\<lambda>nd. nd \<notin> set equivocators) (map fst bonds)))"

definition is_cordial :: "block \<Rightarrow> (node_id \<times> block_identity) list \<Rightarrow> bool" where
  "is_cordial b known_tips =
     list_all (\<lambda>(nd, tip). same_consensus_identity (identity b) tip \<or>
       list_ex (\<lambda>p. same_consensus_identity p tip) (predecessors (content b))) known_tips"

section \<open>Tips\<close>

lemma map_filter_map: "List.map_filter (\<lambda>x. map_option g (f x)) xs = map g (List.map_filter f xs)"
  by (induction xs) (simp_all add: map_filter_Cons map_filter_Nil split: option.split)

lemma collect_tips_blocks:
  "collect_validator_tips bl bonds = map (\<lambda>(nd, b). (nd, identity b)) (validator_tip_blocks bl bonds)"
  unfolding collect_validator_tips_def validator_tip_blocks_def Let_def map_filter_map [symmetric]
  by (simp add: option.map_comp comp_def)

lemma mem_tip_blocks:
  "(nd, b) \<in> set (validator_tip_blocks bl bonds) \<longleftrightarrow>
     nd \<in> fst ` set bonds \<and> nd \<notin> set (find_equivacators bl) \<and> tip_of bl nd = Some b"
  by (force simp: validator_tip_blocks_def Let_def List.map_filter_def)

lemma tip_blocks_stored:
  assumes "(nd, b) \<in> set (validator_tip_blocks bl bonds)"
  shows "identity b \<in> set (block_ids bl)" "creator (identity b) = nd"
  using assms tip_of_Some(1,2) by (auto simp: mem_tip_blocks simp del: set_map)

section \<open>The lowest common ancestor\<close>

lemma set_inclusive_ids:
  assumes "i \<in> set (block_ids bl)"
  shows "set (inclusive_ids bl i) = (points bl)\<^sup>* `` {i}"
proof -
  obtain c where "get_block bl i = Some \<lparr>identity = i, content = c\<rparr>" using get_block_stored [OF assms] by blast
  then have "set (inclusive_ids bl i) = insert i (identity ` set (ancestors bl i))"
    by (simp add: inclusive_ids_def ancestors_inclusive_def)
  also have "\<dots> = (points bl)\<^sup>* `` {i}"
    unfolding identity_ancestors by (auto dest: rtranclD)
  finally show ?thesis .
qed

lemma fold_filter_common:
  "set (fold (\<lambda>s acc. filter (\<lambda>i. i \<in> f s) acc) ss acc) = {i \<in> set acc. \<forall>s \<in> set ss. i \<in> f s}"
  by (induction ss arbitrary: acc) auto

text \<open>The blocks below every tip.\<close>

definition common_past :: "blocklace \<Rightarrow> block_identity set \<Rightarrow> block_identity set" where
  "common_past bl tips = {i. \<forall>t \<in> tips. (t, i) \<in> (points bl)\<^sup>*}"

lemma common_past_stored:
  assumes "t \<in> tips" "t \<in> set (block_ids bl)"
  shows "common_past bl tips \<subseteq> set (block_ids bl)"
proof
  fix i assume "i \<in> common_past bl tips"
  then have "(t, i) \<in> (points bl)\<^sup>*" using assms(1) by (simp add: common_past_def)
  then show "i \<in> set (block_ids bl)"
    using assms(2) points_trancl_stored by (auto simp: rtrancl_eq_or_trancl simp del: set_map)
qed

lemma maximal_common:
  assumes "acyclic_lace bl" "finite A" "A \<noteq> {}"
  shows "\<exists>l \<in> A. \<forall>i \<in> A. (i, l) \<notin> (points bl)\<^sup>+"
proof -
  have "acyclic ((points bl)\<^sup>+ \<inter> A \<times> A)"
    using assms(1) unfolding acyclic_lace_def acyclic_def
    by (metis (no_types, lifting) inf_le1 trancl_id trancl_mono trans_trancl)
  then have "wf (((points bl)\<^sup>+ \<inter> A \<times> A))"
    using assms(2) by (intro finite_acyclic_wf) auto
  then obtain l where "l \<in> A" "\<And>i. (i, l) \<in> (points bl)\<^sup>+ \<inter> A \<times> A \<Longrightarrow> i \<notin> A"
    using assms(3) by (meson ex_in_conv wfE_min)
  then show ?thesis by blast
qed

lemma compute_lca_spec:
  assumes "acyclic_lace bl" "set tips \<subseteq> set (block_ids bl)" "tips \<noteq> []"
  shows "case compute_lca bl tips of None \<Rightarrow> common_past bl (set tips) = {}
    | Some l \<Rightarrow> l \<in> common_past bl (set tips) \<and> (\<forall>i \<in> common_past bl (set tips). (i, l) \<notin> (points bl)\<^sup>+)"
proof -
  obtain t rest where tips: "tips = t # rest" using assms(3) by (cases tips) auto
  show ?thesis
  proof (cases "rest = []")
    case True
    have "(i, t) \<notin> (points bl)\<^sup>+" if "(t, i) \<in> (points bl)\<^sup>*" for i
      using assms(1) that rtrancl_trancl_trancl unfolding acyclic_lace_def acyclic_def by metis
    then show ?thesis using tips True by (simp add: compute_lca_def common_past_def)
  next
    case False
    define cl where
      "cl = fold (\<lambda>s acc. filter (\<lambda>i. i \<in> set (inclusive_ids bl s)) acc) rest (inclusive_ids bl t)"
    have incl: "set (inclusive_ids bl s) = (points bl)\<^sup>* `` {s}" if "s \<in> set tips" for s
      using assms(2) that set_inclusive_ids by blast
    have cl: "set cl = common_past bl (set tips)"
      using incl by (auto simp: cl_def fold_filter_common common_past_def tips)
    have lca: "compute_lca bl tips = (if cl = [] then None else
        List.find (\<lambda>candidate. \<not> list_ex (\<lambda>other. other \<noteq> candidate \<and> precedes bl candidate other) cl) cl)"
      using tips False by (cases rest) (simp_all add: compute_lca_def cl_def Let_def)
    have stored: "set cl \<subseteq> set (block_ids bl)"
      unfolding cl using common_past_stored [of t] assms(2) tips by auto
    have prec: "precedes bl c d \<longleftrightarrow> (d, c) \<in> (points bl)\<^sup>+" if "c \<in> set cl" for c d
      using precedes_stored stored that by blast
    have irrefl: "(c, c) \<notin> (points bl)\<^sup>+" for c using assms(1) by (simp add: acyclic_lace_def acyclic_def)
    have ok: "\<not> list_ex (\<lambda>other. other \<noteq> c \<and> precedes bl c other) cl \<longleftrightarrow> (\<forall>i \<in> set cl. (i, c) \<notin> (points bl)\<^sup>+)"
      if "c \<in> set cl" for c using prec that irrefl by (auto simp: list_ex_iff)
    show ?thesis
    proof (cases "compute_lca bl tips")
      case None
      have "cl = []"
      proof (rule ccontr)
        assume "cl \<noteq> []"
        then obtain l where "l \<in> set cl" "\<forall>i \<in> set cl. (i, l) \<notin> (points bl)\<^sup>+"
          using maximal_common [OF assms(1), of "set cl"] by auto
        then show False using None \<open>cl \<noteq> []\<close> ok by (auto simp: lca find_None_iff)
      qed
      then show ?thesis using None cl by simp
    next
      case (Some l)
      then have "l \<in> set cl \<and> \<not> list_ex (\<lambda>other. other \<noteq> l \<and> precedes bl l other) cl"
        using find_SomeD by (fastforce simp: lca split: if_splits)
      then show ?thesis using Some cl ok by auto
    qed
  qed
qed

section \<open>The walk to the common ancestor\<close>

interpretation lca_walk: search_space "block_ids bl" "lca_succs bl target" for bl target
proof
  show "set (lca_succs bl target x) \<subseteq> set (block_ids bl)" for x
    by (auto simp: lca_succs_def set_map_filter dest: resolve_SomeD(1) simp del: set_map split: option.splits)
qed

lemma lca_edges:
  assumes "wf_lace bl" "checkpoint bl = None" "target \<in> set (block_ids bl)"
  shows "(x, y) \<in> lca_walk.edge bl target \<longleftrightarrow> x \<noteq> target \<and> (x, y) \<in> points bl \<and> (y, target) \<in> (points bl)\<^sup>*"
proof -
  have y: "y \<in> set (block_ids bl)" if "(x, y) \<in> points bl" using that points_stored by blast
  have "(x, y) \<in> points bl \<longleftrightarrow> (case content_of bl x of None \<Rightarrow> False
      | Some c \<Rightarrow> y \<in> set (List.map_filter (resolve_identity bl) (predecessors c)))"
    using assms(2) by (auto simp: points_def expand_preds_def is_checkpoint_boundary_def split: option.splits)
  moreover have "preceedes_or_equals bl target y \<longleftrightarrow> (y, target) \<in> (points bl)\<^sup>*" if "(x, y) \<in> points bl"
    using y [OF that] assms(3) by (simp add: preceedes_or_equals_iff resolve_stored del: set_map)
  ultimately show ?thesis
    by (cases "content_of bl x") (auto simp: lca_succs_def)
qed

lemma set_walk_to_lca:
  assumes "wf_lace bl" "acyclic_lace bl" "checkpoint bl = None"
    and "start \<in> set (block_ids bl)" "(start, target) \<in> (points bl)\<^sup>*"
  shows "set (walk_to_lca bl start target) = {x. (start, x) \<in> (points bl)\<^sup>* \<and> (x, target) \<in> (points bl)\<^sup>*}"
proof -
  let ?E = "lca_walk.edge bl target" and ?P = "points bl"
  have t: "target \<in> set (block_ids bl)"
    using assms(4,5) points_trancl_stored by (auto simp: rtrancl_eq_or_trancl simp del: set_map)
  note edge = lca_edges [OF assms(1,3) t]
  have "set (walk_to_lca bl start target) = ?E\<^sup>* `` {start}"
    using lca_walk.pop_walk_reach [of "[start]" bl target] assms(4)
    by (simp add: walk_to_lca_def resolve_stored del: set_map)
  moreover have "(start, x) \<in> ?P\<^sup>* \<and> (x, target) \<in> ?P\<^sup>*" if "(start, x) \<in> ?E\<^sup>*" for x
    using that by (induction rule: rtrancl_induct) (use assms(5) edge in \<open>auto intro: rtrancl_into_rtrancl\<close>)
  moreover have "(start, x) \<in> ?E\<^sup>*" if "(start, x) \<in> ?P\<^sup>*" "(x, target) \<in> ?P\<^sup>*" for x
    using that
  proof (induction rule: rtrancl_induct)
    case (step y z)
    have "(y, target) \<in> ?P\<^sup>+" using step.hyps(2) step.prems by (rule rtrancl_into_trancl2)
    then have "y \<noteq> target" using assms(2) by (auto simp: acyclic_lace_def acyclic_def)
    then have "(y, z) \<in> ?E" using step edge by blast
    moreover have "(start, y) \<in> ?E\<^sup>*" using step.IH \<open>(y, target) \<in> ?P\<^sup>+\<close> by (simp add: trancl_into_rtrancl)
    ultimately show ?case by (rule rtrancl_into_rtrancl [rotated])
  qed simp
  ultimately show ?thesis by blast
qed

lemma distinct_walk_to_lca: "distinct (walk_to_lca bl start target)"
  by (simp add: walk_to_lca_def pop_walk_distinct split: option.split)

section \<open>Scores\<close>

lemma score_add: "score_of (add_score a i sc) j = (if j = i then (score_of sc i + a) mod 2 ^ 64 else score_of sc j)"
  by (simp add: score_of_def add_score_def update_conv')

lemma score_fold_add:
  "distinct is \<Longrightarrow> score_of (fold (add_score a) is sc) j =
     (if j \<in> set is then (score_of sc j + a) mod 2 ^ 64 else score_of sc j)"
  by (induction "is" arbitrary: sc) (auto simp: score_add)

definition stake_in :: "(node_id \<times> nat) list \<Rightarrow> node_id \<Rightarrow> nat" where
  "stake_in bonds nd = (case map_of bonds nd of None \<Rightarrow> 0 | Some s \<Rightarrow> s)"

lemma score_fold_tips:
  assumes "score_of sc j < 2 ^ 64"
  shows "score_of (fold (score_tip bl bonds lca) tips sc) j =
    (score_of sc j + (\<Sum>(nd, b) \<leftarrow> tips. if j \<in> set (walk_to_lca bl (identity b) lca) then stake_in bonds nd else 0)) mod 2 ^ 64"
  using assms
proof (induction tips arbitrary: sc)
  case (Cons e tips)
  obtain nd b where e: "e = (nd, b)" by (cases e)
  have s: "score_of (score_tip bl bonds lca e sc) j =
      (score_of sc j + (if j \<in> set (walk_to_lca bl (identity b) lca) then stake_in bonds nd else 0)) mod 2 ^ 64"
    using Cons.prems
    by (simp add: score_tip_def Let_def e stake_in_def [symmetric] score_fold_add distinct_walk_to_lca)
  then have "score_of (score_tip bl bonds lca e sc) j < 2 ^ 64" by simp
  from Cons.IH [OF this] show ?case unfolding s by (simp add: e mod_add_left_eq add.assoc)
qed simp

section \<open>The result\<close>

lemma fork_choice_parts:
  assumes "wf_lace bl" "acyclic_lace bl" "checkpoint bl = None" "fork_choice bl bonds = Some fc"
  defines "tips \<equiv> validator_tip_blocks bl bonds"
  shows "tips \<noteq> []" "compute_lca bl (map (\<lambda>(nd, b). identity b) tips) = Some (fc_lca fc)"
    and "set (fc_tips fc) = (\<lambda>(nd, b). identity b) ` set tips" "distinct (fc_tips fc)"
    and "sorted (map (rank_key (fc_scores fc)) (fc_tips fc))"
    and "score_of (fc_scores fc) j =
      (\<Sum>(nd, b) \<leftarrow> tips. if j \<in> set (walk_to_lca bl (identity b) (fc_lca fc)) then stake_in bonds nd else 0) mod 2 ^ 64"
proof -
  have fc: "tips \<noteq> []" "compute_lca bl (map (\<lambda>(nd, b). identity b) tips) = Some (fc_lca fc)"
    "fc_scores fc = fold (score_tip bl bonds (fc_lca fc)) tips []"
    "fc_tips fc = sort_key (rank_key (fc_scores fc)) (dedup_by (\<lambda>i. i) (map (\<lambda>(nd, b). identity b) tips))"
    using assms(4) unfolding tips_def fork_choice_def Let_def by (auto split: if_splits option.splits)
  show "tips \<noteq> []" "compute_lca bl (map (\<lambda>(nd, b). identity b) tips) = Some (fc_lca fc)" by (rule fc(1,2))+
  show "set (fc_tips fc) = (\<lambda>(nd, b). identity b) ` set tips"
    unfolding fc(4) by (simp add: set_dedup_by)
  show "distinct (fc_tips fc)" unfolding fc(4) by simp
  show "sorted (map (rank_key (fc_scores fc)) (fc_tips fc))" unfolding fc(4) by simp
  have "score_of [] j < 2 ^ 64" and z: "score_of [] j = 0" by (simp_all add: score_of_def)
  from score_fold_tips [OF this(1)] show "score_of (fc_scores fc) j =
      (\<Sum>(nd, b) \<leftarrow> tips. if j \<in> set (walk_to_lca bl (identity b) (fc_lca fc)) then stake_in bonds nd else 0) mod 2 ^ 64"
    unfolding fc(3) z by simp
qed

lemma rank_descending:
  "sorted (map (rank_key sc) xs) \<Longrightarrow> sorted_wrt (\<lambda>a b. score_of sc b \<le> score_of sc a) xs"
  unfolding sorted_map by (erule sorted_wrt_mono_rel [rotated]) (auto simp: rank_key_def less_eq_prod_def)

end
