(* ===== verification/Codec.thy ===== *)
theory Codec
  imports Block_Types
begin

text \<open>
  Byte encodings: \<open>u64::to_le_bytes\<close> and \<open>u64::to_be_bytes\<close> with their inverses, and length-prefixed
  fields.  The locale \<open>length_codec\<close> is the contract of an eight-byte length prefix; both byte orders
  provide it, and the unambiguity of everything the program hashes or parses rests on it.
\<close>

section \<open>Eight-byte integers\<close>

fun le_bytes :: "nat \<Rightarrow> nat \<Rightarrow> byte list" where
  "le_bytes 0 n = []"
| "le_bytes (Suc k) n = of_nat (n mod 256) # le_bytes k (n div 256)"

fun le_value :: "byte list \<Rightarrow> nat" where
  "le_value [] = 0"
| "le_value (b # bs) = unat b + 256 * le_value bs"

definition u64_le :: "nat \<Rightarrow> byte list" where
  "u64_le n = le_bytes 8 n"

definition u64_be :: "nat \<Rightarrow> byte list" where
  "u64_be n = rev (le_bytes 8 n)"

definition u64_from_be :: "byte list \<Rightarrow> nat" where
  "u64_from_be bs = le_value (rev bs)"

lemma length_le_bytes [simp]: "length (le_bytes k n) = k"
  by (induction k n rule: le_bytes.induct) simp_all

lemma unat_byte_mod [simp]: "unat (of_nat (n mod 256) :: byte) = n mod 256"
  by (simp add: unat_of_nat)

lemma le_value_le_bytes: "le_value (le_bytes k n) = n mod 256 ^ k"
  by (induction k n rule: le_bytes.induct) (simp_all add: mod_mult2_eq)

lemma byte_less: "unat (b :: byte) < 256"
  using unsigned_less [of b] by simp

lemma le_value_less: "le_value bs < 256 ^ length bs"
proof (induction bs)
  case (Cons b bs)
  note byte_less [of b]
  then have "unat b + 256 * le_value bs < 256 * (le_value bs + 1)" by simp
  also have "\<dots> \<le> 256 * 256 ^ length bs" using Cons by simp
  finally show ?case by simp
qed simp

lemma le_bytes_le_value: "le_bytes (length bs) (le_value bs) = bs"
proof (induction bs)
  case (Cons b bs)
  note byte_less [of b]
  then show ?case using Cons by simp
qed simp

lemma u64_modulus: "(256::nat) ^ 8 = 2 ^ 64"
  by simp

section \<open>Length prefixes\<close>

locale length_codec =
  fixes enc :: "nat \<Rightarrow> byte list" and dec :: "byte list \<Rightarrow> nat"
  assumes enc_length: "length (enc n) = 8"
    and dec_enc: "n < 2 ^ 64 \<Longrightarrow> dec (enc n) = n"
begin

lemma number_inject:
  assumes "m < 2 ^ 64" "n < 2 ^ 64" "enc m @ r = enc n @ r'"
  shows "m = n \<and> r = r'"
proof -
  have "length (enc m) = length (enc n)" by (simp add: enc_length)
  then have "enc m = enc n" "r = r'" using assms(3) append_eq_append_conv by blast+
  with dec_enc [OF assms(1)] dec_enc [OF assms(2)] show ?thesis by metis
qed

lemma field_inject:
  assumes "length xs < 2 ^ 64" "length ys < 2 ^ 64"
    and "enc (length xs) @ xs @ r = enc (length ys) @ ys @ r'"
  shows "xs = ys \<and> r = r'"
  using number_inject [OF assms] append_eq_append_conv by blast

lemma number_take:
  assumes "n < 2 ^ 64"
  shows "take 8 (enc n @ r) = enc n" "drop 8 (enc n @ r) = r" "dec (take 8 (enc n @ r)) = n"
  using dec_enc [OF assms] by (simp_all add: enc_length)

end

interpretation le: length_codec u64_le le_value
  by unfold_locales (simp_all add: u64_le_def le_value_le_bytes)

interpretation be: length_codec u64_be u64_from_be
  by unfold_locales (simp_all add: u64_be_def u64_from_be_def le_value_le_bytes)

text \<open>Items whose encodings are recognisable from the left give recognisable sequences.\<close>

lemma concat_inject:
  assumes "\<And>x y r r'. x \<in> A \<Longrightarrow> y \<in> A \<Longrightarrow> f x @ r = f y @ r' \<Longrightarrow> g x = g y \<and> r = r'"
  shows "length xs = length ys \<Longrightarrow> set xs \<subseteq> A \<Longrightarrow> set ys \<subseteq> A \<Longrightarrow>
    concat (map f xs) @ r = concat (map f ys) @ r' \<Longrightarrow> map g xs = map g ys \<and> r = r'"
proof (induction xs ys rule: list_induct2)
  case (Cons x xs y ys)
  have "g x = g y \<and> concat (map f xs) @ r = concat (map f ys) @ r'"
    using assms [of x y "concat (map f xs) @ r" "concat (map f ys) @ r'"] Cons.prems by simp
  then show ?case using Cons.IH Cons.prems by simp
qed simp

end
