(* ===== verification/Crypto.thy ===== *)
theory Crypto
  imports Codec Blocklace
begin

text \<open>
  The content hash of a block and the default block verifier.  The hash function and the signature
  scheme are third-party code: \<open>hasher\<close> and \<open>scheme\<close> are parameters.  What the program relies on is
  named: \<open>collision_free\<close> for the hash, \<open>scheme_binding\<close> for the scheme.  The layout of the hashed
  bytes is the program's own, and its unambiguity is proved here.
\<close>

type_synonym hasher = "byte list \<Rightarrow> byte list"
type_synonym signature_scheme = "byte list \<Rightarrow> byte list \<Rightarrow> byte list \<Rightarrow> bool"

text \<open>\<open>b"cordial-block-hash-v3"\<close>\<close>

definition BLOCK_HASH_DOMAIN :: "byte list" where
  "BLOCK_HASH_DOMAIN = [99, 111, 114, 100, 105, 97, 108, 45, 98, 108, 111, 99, 107, 45, 104, 97, 115, 104, 45, 118, 51]"

definition pred_bytes :: "block_identity \<Rightarrow> byte list" where
  "pred_bytes p = content_hash p @ u64_le (length (node_bytes (creator p))) @ node_bytes (creator p)"

definition sorted_preds :: "block_content \<Rightarrow> block_identity list" where
  "sorted_preds c = sort_key (\<lambda>p. (content_hash p, creator p)) (predecessors c)"

definition hash_input :: "node_id \<Rightarrow> block_content \<Rightarrow> byte list" where
  "hash_input who c =
     BLOCK_HASH_DOMAIN @ u64_le (length (node_bytes who)) @ node_bytes who @
     u64_le (length (payload c)) @ payload c @
     u64_le (length (sorted_preds c)) @ concat (map pred_bytes (sorted_preds c))"

definition block_hash_ext :: "hasher \<Rightarrow> node_id \<Rightarrow> block_content \<Rightarrow> byte list" where
  "block_hash_ext hash who c = hash (hash_input who c)"

datatype signature_error = SignatureVerificationFailed

definition verify_block :: "hasher \<Rightarrow> signature_scheme \<Rightarrow> signature_error block_verifier" where
  "verify_block hash scheme c s who =
     (if scheme (block_hash_ext hash who c) (node_bytes who) s then Inr () else Inl SignatureVerificationFailed)"

section \<open>What is relied on\<close>

definition collision_free :: "hasher \<Rightarrow> bool" where
  "collision_free hash \<longleftrightarrow> (\<forall>x y. hash x = hash y \<longrightarrow> x = y)"

definition scheme_binding :: "signature_scheme \<Rightarrow> bool" where
  "scheme_binding scheme \<longleftrightarrow> (\<forall>h h' pk s. scheme h pk s \<longrightarrow> scheme h' pk s \<longrightarrow> h = h')"

text \<open>
  The values the program's types admit: a \<open>[u8; 32]\<close> hash in every reference, and vectors whose
  length fits a \<open>u64\<close>.  \<open>representable_only\<close> is a verifier on those values.
\<close>

definition representable :: "node_id \<Rightarrow> block_content \<Rightarrow> bool" where
  "representable who c \<longleftrightarrow> length (node_bytes who) < 2 ^ 64 \<and> length (payload c) < 2 ^ 64 \<and>
     length (predecessors c) < 2 ^ 64 \<and>
     (\<forall>p \<in> set (predecessors c). length (content_hash p) = 32 \<and> length (node_bytes (creator p)) < 2 ^ 64)"

definition representable_only :: "signature_error block_verifier \<Rightarrow> signature_error block_verifier" where
  "representable_only verify c s who =
     (if representable who c then verify c s who else Inl SignatureVerificationFailed)"

section \<open>The hashed bytes determine the block\<close>

lemma set_sorted_preds [simp]: "set (sorted_preds c) = set (predecessors c)"
  by (simp add: sorted_preds_def)

lemma length_sorted_preds [simp]: "length (sorted_preds c) = length (predecessors c)"
  by (simp add: sorted_preds_def)

lemma pred_bytes_inject:
  assumes "length (content_hash p) = 32" "length (content_hash q) = 32"
    and "length (node_bytes (creator p)) < 2 ^ 64" "length (node_bytes (creator q)) < 2 ^ 64"
    and "pred_bytes p @ r = pred_bytes q @ r'"
  shows "consensus_identity p = consensus_identity q \<and> r = r'"
proof -
  have h: "content_hash p = content_hash q"
    and "u64_le (length (node_bytes (creator p))) @ node_bytes (creator p) @ r =
      u64_le (length (node_bytes (creator q))) @ node_bytes (creator q) @ r'"
    using assms(1,2,5) by (simp_all add: pred_bytes_def append_eq_append_conv)
  then have "node_bytes (creator p) = node_bytes (creator q) \<and> r = r'"
    using le.field_inject [OF assms(3,4)] by blast
  then show ?thesis using h by (simp add: consensus_identity_eq_iff node_id.expand)
qed

lemma hash_input_inject:
  assumes rep: "representable who c" "representable who' c'"
    and eq: "hash_input who c = hash_input who' c'"
  shows "who = who'" "payload c = payload c'"
    "map consensus_identity (sorted_preds c) = map consensus_identity (sorted_preds c')"
proof -
  let ?rest = "\<lambda>c. u64_le (length (sorted_preds c)) @ concat (map pred_bytes (sorted_preds c))"
  have w: "node_bytes who = node_bytes who' \<and>
      u64_le (length (payload c)) @ payload c @ ?rest c = u64_le (length (payload c')) @ payload c' @ ?rest c'"
    using eq rep by (intro le.field_inject) (simp_all add: hash_input_def representable_def)
  then show "who = who'" by (simp add: node_id.expand)
  have p: "payload c = payload c' \<and> ?rest c = ?rest c'"
    using w rep by (intro le.field_inject) (simp_all add: representable_def)
  then show "payload c = payload c'" by blast
  have n: "length (sorted_preds c) = length (sorted_preds c') \<and>
      concat (map pred_bytes (sorted_preds c)) = concat (map pred_bytes (sorted_preds c'))"
    using p rep by (intro le.number_inject) (simp_all add: representable_def)
  let ?A = "{p. length (content_hash p) = 32 \<and> length (node_bytes (creator p)) < 2 ^ 64}"
  have "map consensus_identity (sorted_preds c) = map consensus_identity (sorted_preds c') \<and> ([] :: byte list) = []"
  proof (rule concat_inject [where A = ?A and f = pred_bytes])
    show "consensus_identity x = consensus_identity y \<and> r = r'"
      if "x \<in> ?A" "y \<in> ?A" "pred_bytes x @ r = pred_bytes y @ r'" for x y r r'
      using that by (intro pred_bytes_inject) simp_all
    show "length (sorted_preds c) = length (sorted_preds c')" using n by blast
    show "set (sorted_preds c) \<subseteq> ?A" "set (sorted_preds c') \<subseteq> ?A" using rep by (auto simp: representable_def)
    show "concat (map pred_bytes (sorted_preds c)) @ [] = concat (map pred_bytes (sorted_preds c')) @ []"
      using n by simp
  qed
  then show "map consensus_identity (sorted_preds c) = map consensus_identity (sorted_preds c')" by blast
qed

lemma verify_block_binds:
  assumes "collision_free hash" "scheme_binding scheme" "representable who c" "representable who c'"
    and "verify_block hash scheme c s who = Inr ()" "verify_block hash scheme c' s who = Inr ()"
  shows "hash_input who c = hash_input who c'"
  using assms unfolding verify_block_def block_hash_ext_def collision_free_def scheme_binding_def
  by (auto split: if_splits)

text \<open>The default verifier discharges the assumption the store makes of its verifier.\<close>

lemma default_verifier_binding:
  assumes "collision_free hash" "scheme_binding scheme"
  shows "signature_binding (representable_only (verify_block hash scheme))"
  unfolding signature_binding_def
proof (intro allI impI)
  fix c c' s who
  assume c: "representable_only (verify_block hash scheme) c s who = Inr ()"
    and c': "representable_only (verify_block hash scheme) c' s who = Inr ()"
  then have rep: "representable who c" "representable who c'"
    and v: "verify_block hash scheme c s who = Inr ()" "verify_block hash scheme c' s who = Inr ()"
    by (auto simp: representable_only_def split: if_splits)
  note inj = hash_input_inject [OF rep verify_block_binds [OF assms rep v]]
  from inj(2) arg_cong [OF inj(3), of set]
  show "payload c = payload c' \<and>
    consensus_identity ` set (predecessors c) = consensus_identity ` set (predecessors c')" by simp
qed

end
