(* ===== verification/Validation.thy ===== *)
theory Validation
  imports Fork_Choice Crypto
begin

text \<open>
  \<open>consensus/validation.rs\<close>: every enabled check runs, errors are collected in order, and
  \<open>validated_insert\<close> commits a block only when there are none.  The hash function and the
  signature scheme are parameters.  Error constructors whose names are taken carry a suffix.
\<close>

datatype invalid_block =
    InvalidContentHash (expected: "byte list") (actual: "byte list")
  | InvalidSignature_v
  | UnknownSender node_id
  | MissingPredecessors "block_identity list"
  | IdentityCollision block_identity
  | Equivocation block_identity
  | NotCordial "block_identity list"
  | HiddenEquivocation node_id nat "block_identity list"

datatype validation_result = Valid | Invalid "invalid_block list"

fun is_valid :: "validation_result \<Rightarrow> bool" where
  "is_valid Valid = True"
| "is_valid (Invalid es) = False"

fun errors :: "validation_result \<Rightarrow> invalid_block list" where
  "errors Valid = []"
| "errors (Invalid es) = es"

record validation_config =
  check_content_hash :: bool
  check_signature :: bool
  check_sender :: bool
  check_closure :: bool
  check_chain_axiom :: bool
  check_cordial :: bool

definition default_config :: validation_config where
  "default_config = \<lparr>check_content_hash = True, check_signature = True, check_sender = True,
     check_closure = True, check_chain_axiom = True, check_cordial = False\<rparr>"

definition strict_config :: validation_config where
  "strict_config = default_config\<lparr>check_cordial := True\<rparr>"

definition missing_contents :: "blocklace \<Rightarrow> block_content \<Rightarrow> block_identity list" where
  "missing_contents bl c = filter (\<lambda>p. content_of bl p = None) (predecessors c)"

text \<open>The loop over the creator's blocks stops at the first conflict.\<close>

definition chain_conflict :: "blocklace \<Rightarrow> block \<Rightarrow> block option" where
  "chain_conflict bl b =
     List.find (\<lambda>existing.
       \<not> list_ex (preceedes_or_equals bl (identity existing)) (predecessors (content b)) \<and>
       \<not> precedes bl (identity b) (identity existing) \<and> identity b \<noteq> identity existing)
       (blocks_by bl (creator (identity b)))"

definition cordial_errors :: "block \<Rightarrow> blocklace \<Rightarrow> (node_id \<times> nat) list \<Rightarrow> invalid_block list" where
  "cordial_errors b bl bonds =
     (let known_tips = collect_validator_tips bl bonds; missing_tips = missing_known_tips b known_tips in
      (if missing_tips \<noteq> [] then [NotCordial missing_tips] else []) @
      map (\<lambda>h. HiddenEquivocation (hid_creator h) (hid_round h) (hidden h)) (hidden_equivocations bl b))"

definition validation_errors ::
  "hasher \<Rightarrow> signature_scheme \<Rightarrow> block \<Rightarrow> blocklace \<Rightarrow> (node_id \<times> nat) list \<Rightarrow> validation_config
     \<Rightarrow> invalid_block list" where
  "validation_errors hash scheme b bl bonds config =
     (let who = creator (identity b); expected = block_hash_ext hash who (content b);
          missing = missing_contents bl (content b) in
      (if check_content_hash config \<and> content_hash (identity b) \<noteq> expected
       then [InvalidContentHash expected (content_hash (identity b))] else []) @
      (if check_signature config \<and> signature (identity b) \<noteq> [] \<and>
          \<not> scheme (content_hash (identity b)) (node_bytes who) (signature (identity b))
       then [InvalidSignature_v] else []) @
      (if check_sender config \<and> who \<notin> set (map fst bonds) then [UnknownSender who] else []) @
      (if check_closure config \<and> missing \<noteq> [] then [MissingPredecessors missing] else []) @
      (case conflicting_identity_variant bl (identity b) of None \<Rightarrow> [] | Some c \<Rightarrow> [IdentityCollision c]) @
      (if check_chain_axiom config \<and> missing = []
       then (case chain_conflict bl b of None \<Rightarrow> [] | Some e \<Rightarrow> [Equivocation (identity e)]) else []) @
      (if check_cordial config \<and> missing = [] then cordial_errors b bl bonds else []))"

definition validate_block ::
  "hasher \<Rightarrow> signature_scheme \<Rightarrow> block \<Rightarrow> blocklace \<Rightarrow> (node_id \<times> nat) list \<Rightarrow> validation_config
     \<Rightarrow> validation_result" where
  "validate_block hash scheme b bl bonds config =
     (case validation_errors hash scheme b bl bonds config of [] \<Rightarrow> Valid | es \<Rightarrow> Invalid es)"

definition validated_insert ::
  "hasher \<Rightarrow> signature_scheme \<Rightarrow> block \<Rightarrow> blocklace \<Rightarrow> (node_id \<times> nat) list \<Rightarrow> validation_config
     \<Rightarrow> validation_result \<times> blocklace" where
  "validated_insert hash scheme b bl bonds config =
     (let result = validate_block hash scheme b bl bonds config in
      if is_valid result then
        (case commit_validated bl (identity b) (content b) of
           Inl conflicting \<Rightarrow> (Invalid [IdentityCollision conflicting], bl)
         | Inr bl' \<Rightarrow> (result, bl'))
      else (result, bl))"

section \<open>When a block is valid\<close>

lemma missing_contents_Nil: "missing_contents bl c = [] \<longleftrightarrow> (\<forall>p \<in> set (predecessors c). resolve_identity bl p \<noteq> None)"
  by (auto simp: missing_contents_def filter_empty_conv content_of_None_iff)

lemma validate_Valid_iff:
  "validate_block hash scheme b bl bonds config = Valid \<longleftrightarrow> validation_errors hash scheme b bl bonds config = []"
  by (simp add: validate_block_def split: list.split)

lemma if_Nil: "(if P then xs else []) = [] \<longleftrightarrow> (P \<longrightarrow> xs = [])"
  by simp

lemma option_Nil: "(case z of None \<Rightarrow> [] | Some x \<Rightarrow> [g x]) = [] \<longleftrightarrow> z = None"
  by (cases z) simp_all

lemma cordial_errors_Nil: "cordial_errors b bl bonds = [] \<longleftrightarrow> is_cordial_block bl b (collect_validator_tips bl bonds)"
  unfolding cordial_errors_def Let_def is_cordial_block_def append_is_Nil_conv map_is_Nil_conv if_Nil by simp

lemma validation_errors_Nil:
  "validation_errors hash scheme b bl bonds config = [] \<longleftrightarrow>
     (check_content_hash config \<longrightarrow> content_hash (identity b) = block_hash_ext hash (creator (identity b)) (content b)) \<and>
     (check_signature config \<longrightarrow> signature (identity b) = [] \<or>
        scheme (content_hash (identity b)) (node_bytes (creator (identity b))) (signature (identity b))) \<and>
     (check_sender config \<longrightarrow> creator (identity b) \<in> fst ` set bonds) \<and>
     (check_closure config \<longrightarrow> missing_contents bl (content b) = []) \<and>
     conflicting_identity_variant bl (identity b) = None \<and>
     (check_chain_axiom config \<longrightarrow> missing_contents bl (content b) = [] \<longrightarrow> chain_conflict bl b = None) \<and>
     (check_cordial config \<longrightarrow> missing_contents bl (content b) = [] \<longrightarrow>
        is_cordial_block bl b (collect_validator_tips bl bonds))"
  unfolding validation_errors_def Let_def append_is_Nil_conv if_Nil option_Nil cordial_errors_Nil by auto

lemma chain_conflict_None:
  assumes "wf_lace bl"
  shows "chain_conflict bl b = None \<longleftrightarrow>
    (\<forall>e \<in> set (block_ids bl). creator e = creator (identity b) \<longrightarrow> e \<noteq> identity b \<longrightarrow>
       (\<exists>p \<in> set (predecessors (content b)). preceedes_or_equals bl e p) \<or> precedes bl (identity b) e)"
proof -
  have "chain_conflict bl b = None \<longleftrightarrow> (\<forall>e \<in> identity ` set (blocks_by bl (creator (identity b))).
      (\<exists>p \<in> set (predecessors (content b)). preceedes_or_equals bl e p) \<or> precedes bl (identity b) e \<or> e = identity b)"
    by (auto simp: chain_conflict_def find_None_iff list_ex_iff)
  then show ?thesis unfolding set_identity_blocks_by by blast
qed

section \<open>Commitment and the predecessor graph\<close>

lemma stored_points_unpruned:
  assumes "wf_lace bl" "checkpoint bl = None"
  shows "(j, p) \<in> stored_points bl \<longleftrightarrow>
    (\<exists>d q. (j, d) \<in> set (blocks bl) \<and> q \<in> set (predecessors d) \<and> resolve_identity bl q = Some p)"
proof (cases "j \<in> set (block_ids bl)")
  case True
  then show ?thesis
    by (simp add: stored_points_iff points_stored_iff [OF assms(1) True] is_checkpoint_boundary_def assms(2) del: set_map)
next
  case False
  then have "(j, d) \<notin> set (blocks bl)" for d by force
  then show ?thesis using False by (simp add: stored_points_iff del: set_map)
qed

lemma stored_points_commit:
  assumes wf: "wf_lace bl" and closed: "is_closed bl" and cp: "checkpoint bl = None"
    and com: "commit_validated bl i c = Inr bl'"
    and res: "\<forall>p \<in> set (predecessors c). resolve_identity bl p \<noteq> None"
  shows "stored_points bl' = {(j, p) \<in> stored_points bl. j \<noteq> i} \<union>
    {i} \<times> {p. \<exists>q \<in> set (predecessors c). resolve_identity bl q = Some p}"
proof -
  have wf': "wf_lace bl'" by (rule wf_commit [OF wf com])
  have nb: "\<not> is_checkpoint_boundary bl j" "\<not> is_checkpoint_boundary bl' j" for j
    using cp commit_InrD(3) [OF com] by (simp_all add: is_checkpoint_boundary_def)
  have same: "resolve_identity bl' q = resolve_identity bl q" if "(j, d) \<in> set (blocks bl')" "q \<in> set (predecessors d)" for j d q
  proof -
    have "resolve_identity bl q \<noteq> None"
      using that closed nb res unfolding stored_commit [OF wf com] is_closed_def by (auto split: if_splits)
    then obtain x where x: "resolve_identity bl q = Some x" by blast
    from resolve_commit_mono [OF wf com x] x show ?thesis by simp
  qed
  have cp': "checkpoint bl' = None" using cp commit_InrD(3) [OF com] by simp
  have iff: "(j, p) \<in> stored_points bl' \<longleftrightarrow>
      (\<exists>d q. (j, d) \<in> set (blocks bl') \<and> q \<in> set (predecessors d) \<and> resolve_identity bl q = Some p)" for j p
    unfolding stored_points_unpruned [OF wf' cp'] using same by (metis (no_types, lifting))
  show ?thesis
    by (rule set_eqI, clarify)
      (auto simp: iff stored_points_unpruned [OF wf cp] stored_commit [OF wf com] split: if_splits)
qed

lemma stored_trancl: "i \<in> set (block_ids bl) \<Longrightarrow> (i, p) \<in> (points bl)\<^sup>+ \<longleftrightarrow> (i, p) \<in> (stored_points bl)\<^sup>+"
proof
  assume i: "i \<in> set (block_ids bl)" and "(i, p) \<in> (points bl)\<^sup>+"
  from this(2,1) show "(i, p) \<in> (stored_points bl)\<^sup>+"
  proof (induction rule: trancl_induct)
    case (step y z)
    then have "(y, z) \<in> stored_points bl" using points_trancl_stored by (auto simp: stored_points_iff simp del: set_map)
    then show ?case using step by (meson trancl_into_trancl)
  qed (auto simp: stored_points_iff simp del: set_map)
next
  assume "(i, p) \<in> (stored_points bl)\<^sup>+"
  then show "(i, p) \<in> (points bl)\<^sup>+"
    by (rule trancl_mono) (auto simp: stored_points_iff)
qed

section \<open>Stores built by validated insertion\<close>

definition hashed_lace :: "hasher \<Rightarrow> blocklace \<Rightarrow> bool" where
  "hashed_lace hash bl \<longleftrightarrow> (\<forall>(i, c) \<in> set (blocks bl).
     content_hash i = block_hash_ext hash (creator i) c \<and> representable (creator i) c)"

definition validated_inv :: "hasher \<Rightarrow> blocklace \<Rightarrow> bool" where
  "validated_inv hash bl \<longleftrightarrow> wf_lace bl \<and> is_closed bl \<and> acyclic_lace bl \<and> checkpoint bl = None \<and>
     hashed_lace hash bl \<and> satisfies_chain_axiom_all bl"

lemma chain_axiom_all_iff:
  assumes "wf_lace bl"
  shows "satisfies_chain_axiom_all bl \<longleftrightarrow>
    (\<forall>a \<in> set (block_ids bl). \<forall>b \<in> set (block_ids bl). creator a = creator b \<longrightarrow> a \<noteq> b \<longrightarrow>
       (a, b) \<in> (stored_points bl)\<^sup>+ \<or> (b, a) \<in> (stored_points bl)\<^sup>+)"
proof -
  have "satisfies_chain_axiom_all bl \<longleftrightarrow> (\<forall>nd \<in> creator ` set (block_ids bl). satisfies_chain_axiom bl nd)"
    by (simp add: satisfies_chain_axiom_all_def list_all_iff set_all_nodes del: set_map)
  then show ?thesis
    unfolding chain_axiom_iff [OF assms] using stored_trancl by (metis (no_types, lifting) imageE imageI)
qed

lemma same_hash_same_preds:
  assumes "collision_free hash" "hashed_lace hash bl" "(i, c0) \<in> set (blocks bl)"
    and "content_hash i = block_hash_ext hash (creator i) c" "representable (creator i) c"
  shows "consensus_identity ` set (predecessors c0) = consensus_identity ` set (predecessors c)"
proof -
  have "content_hash i = block_hash_ext hash (creator i) c0" "representable (creator i) c0"
    using assms(2,3) unfolding hashed_lace_def by auto
  then have "hash_input (creator i) c0 = hash_input (creator i) c" "representable (creator i) c0"
    using assms(1,4) unfolding collision_free_def block_hash_ext_def by metis+
  from arg_cong [OF hash_input_inject(3) [OF this(2) assms(5) this(1)], of set] show ?thesis by simp
qed

lemma resolve_same_names:
  assumes "wf_lace bl" "consensus_identity ` A \<subseteq> consensus_identity ` B"
    and "\<forall>p \<in> B. resolve_identity bl p \<noteq> None" and q: "q \<in> A" "resolve_identity bl q = Some p"
  shows "\<exists>q \<in> B. resolve_identity bl q = Some p"
proof -
  obtain q' where q': "q' \<in> B" "consensus_identity q = consensus_identity q'" using assms(2) q(1) by blast
  then obtain s where s: "resolve_identity bl q' = Some s" using assms(3) by blast
  from resolve_consensus_unique [OF assms(1) q(2) s q'(2)] s q'(1) show ?thesis by blast
qed

lemma recommit_same_points:
  assumes "wf_lace bl" "is_closed bl" "checkpoint bl = None" "commit_validated bl i c = Inr bl'"
    and res: "\<forall>p \<in> set (predecessors c). resolve_identity bl p \<noteq> None"
    and old: "(i, c0) \<in> set (blocks bl)"
    and preds: "consensus_identity ` set (predecessors c0) = consensus_identity ` set (predecessors c)"
  shows "stored_points bl' = stored_points bl"
proof -
  have i: "i \<in> set (block_ids bl)" using old by force
  have res0: "\<forall>p \<in> set (predecessors c0). resolve_identity bl p \<noteq> None"
    using assms(2,3) old by (auto simp: is_closed_def is_checkpoint_boundary_def)
  have c0: "d = c0" if "(i, d) \<in> set (blocks bl)" for d
    using that old map_of_stored [OF assms(1)] by (metis option.inject)
  have "(\<exists>q \<in> set (predecessors c0). resolve_identity bl q = Some p) \<longleftrightarrow>
      (\<exists>q \<in> set (predecessors c). resolve_identity bl q = Some p)" for p
    using resolve_same_names [OF assms(1) equalityD1 [OF preds] res]
      resolve_same_names [OF assms(1) equalityD2 [OF preds] res0] by blast
  moreover have "(i, p) \<in> stored_points bl \<longleftrightarrow> (\<exists>q \<in> set (predecessors c0). resolve_identity bl q = Some p)" for p
    unfolding stored_points_unpruned [OF assms(1,3)] using old c0 by blast
  ultimately show ?thesis
    unfolding stored_points_commit [OF assms(1-4) res] by auto
qed

lemma commit_acyclic:
  assumes "wf_lace bl" "is_closed bl" "acyclic_lace bl" "checkpoint bl = None"
    and com: "commit_validated bl i c = Inr bl'" and i: "i \<notin> set (block_ids bl)"
    and res: "\<forall>p \<in> set (predecessors c). resolve_identity bl p \<noteq> None"
  shows "acyclic_lace bl'"
proof -
  have acyc: "acyclic (stored_points bl)" using assms(3) by (simp add: acyclic_lace_iff)
  have sub: "stored_points bl' \<subseteq> stored_points bl \<union> {i} \<times> set (block_ids bl)"
    unfolding stored_points_commit [OF assms(1,2,4) com res] using resolve_SomeD(1) [of bl] by blast
  have "Range (stored_points bl) \<subseteq> set (block_ids bl)"
    using points_stored by (auto simp: stored_points_iff simp del: set_map)
  then have "i \<notin> Range (stored_points bl)" using i by blast
  from acyclic_add_source [OF acyc sub i this] show ?thesis by (simp add: acyclic_lace_iff)
qed

lemma commit_closed:
  assumes "wf_lace bl" "is_closed bl" "checkpoint bl = None" "commit_validated bl i c = Inr bl'"
    and "\<forall>p \<in> set (predecessors c). resolve_identity bl p \<noteq> None"
  shows "is_closed bl'"
proof -
  have "resolve_identity bl' p \<noteq> None" if jd: "(j, d) \<in> set (blocks bl')" and p: "p \<in> set (predecessors d)" for j d p
  proof -
    have "resolve_identity bl p \<noteq> None"
      using jd p assms(2,3,5) unfolding stored_commit [OF assms(1,4)] is_closed_def is_checkpoint_boundary_def
      by (auto split: if_splits)
    then obtain x where "resolve_identity bl p = Some x" by blast
    from resolve_commit_mono [OF assms(1,4) this] show ?thesis by simp
  qed
  then show ?thesis by (auto simp: is_closed_def)
qed

text \<open>A valid new block is comparable with every block of its creator.\<close>

lemma commit_chain_axiom:
  assumes wf: "wf_lace bl" and "is_closed bl" "checkpoint bl = None"
    and com: "commit_validated bl (identity b) (content b) = Inr bl'" and i: "identity b \<notin> set (block_ids bl)"
    and res: "\<forall>p \<in> set (predecessors (content b)). resolve_identity bl p \<noteq> None"
    and chain: "satisfies_chain_axiom_all bl" "chain_conflict bl b = None"
  shows "satisfies_chain_axiom_all bl'"
proof -
  let ?i = "identity b" and ?P = "stored_points bl" and ?P' = "stored_points bl'"
  note points = stored_points_commit [OF wf assms(2,3) com res]
  have "?P \<subseteq> ?P'" unfolding points using i by (auto simp: stored_points_iff simp del: set_map)
  then have mono: "e \<in> ?P\<^sup>+ \<Longrightarrow> e \<in> ?P'\<^sup>+" for e using trancl_mono by blast
  have none: "resolve_identity bl ?i = None"
  proof (rule ccontr)
    assume "resolve_identity bl ?i \<noteq> None"
    then obtain r where "resolve_identity bl ?i = Some r" by blast
    then have "r \<in> set (block_ids bl)" "consensus_identity r = consensus_identity ?i" using resolve_SomeD by blast+
    then show False using commit_InrD(1) [OF com] i unfolding conflicting_None_iff by blast
  qed
  have below: "(?i, e) \<in> ?P'\<^sup>+" if e: "e \<in> set (block_ids bl)" "creator e = creator ?i" for e
  proof -
    have "e \<noteq> ?i" using e i by blast
    then obtain p where p: "p \<in> set (predecessors (content b))" "preceedes_or_equals bl e p"
      using chain(2) e none unfolding chain_conflict_None [OF wf] precedes_def by auto
    then obtain s where s: "resolve_identity bl p = Some s" "(s, e) \<in> (points bl)\<^sup>*"
      using e(1) unfolding preceedes_or_equals_iff by (auto simp: resolve_stored simp del: set_map)
    then have "(?i, s) \<in> ?P'" using p(1) unfolding points by blast
    moreover have "s = e \<or> (s, e) \<in> ?P'\<^sup>+"
      using rtranclD [OF s(2)] stored_trancl [OF resolve_SomeD(1) [OF s(1)]] mono by blast
    ultimately show ?thesis by (meson r_into_trancl trancl_into_trancl2)
  qed
  show ?thesis
    unfolding chain_axiom_all_iff [OF wf_commit [OF wf com]] commit_ids [OF com]
    using chain(1) [unfolded chain_axiom_all_iff [OF wf]] mono below by (metis insert_iff)
qed

lemma no_errorsD:
  assumes "validation_errors hash scheme b bl bonds config = []"
  shows "check_content_hash config \<Longrightarrow> content_hash (identity b) = block_hash_ext hash (creator (identity b)) (content b)"
    and "check_closure config \<Longrightarrow> \<forall>p \<in> set (predecessors (content b)). resolve_identity bl p \<noteq> None"
    and "conflicting_identity_variant bl (identity b) = None"
    and "check_closure config \<Longrightarrow> check_chain_axiom config \<Longrightarrow> chain_conflict bl b = None"
  using assms unfolding validation_errors_Nil missing_contents_Nil [symmetric] by blast+

lemma validated_insert_cases:
  obtains (rejected) "snd (validated_insert hash scheme b bl bonds config) = bl"
      "validation_errors hash scheme b bl bonds config \<noteq> []"
      "fst (validated_insert hash scheme b bl bonds config) = Invalid (validation_errors hash scheme b bl bonds config)"
  | (admitted) bl' where "validation_errors hash scheme b bl bonds config = []"
      "commit_validated bl (identity b) (content b) = Inr bl'"
      "validated_insert hash scheme b bl bonds config = (Valid, bl')"
proof (cases "validation_errors hash scheme b bl bonds config")
  case Nil
  then have "commit_validated bl (identity b) (content b) \<noteq> Inl k" for k
    using no_errorsD(3) [OF Nil] by (simp add: commit_validated_def Let_def)
  then obtain bl' where "commit_validated bl (identity b) (content b) = Inr bl'"
    by (cases "commit_validated bl (identity b) (content b)") auto
  then show ?thesis using Nil that(2) by (simp add: validated_insert_def validate_block_def)
next
  case (Cons e es)
  then show ?thesis using that(1) by (simp add: validated_insert_def validate_block_def)
qed

lemma hashed_commit:
  assumes "wf_lace bl" "hashed_lace hash bl" "commit_validated bl i c = Inr bl'"
    and "content_hash i = block_hash_ext hash (creator i) c" "representable (creator i) c"
  shows "hashed_lace hash bl'"
  using assms(2,4,5) unfolding hashed_lace_def by (auto simp: stored_commit [OF assms(1,3)] split: if_splits)

lemma validated_insert_inv:
  assumes "collision_free hash" "representable (creator (identity b)) (content b)"
    and config: "check_content_hash config" "check_closure config" "check_chain_axiom config"
    and inv: "validated_inv hash bl"
  shows "validated_inv hash (snd (validated_insert hash scheme b bl bonds config))"
proof (cases rule: validated_insert_cases [of hash scheme b bl bonds config])
  case rejected
  then show ?thesis using inv by simp
next
  case (admitted bl')
  note bl = inv [unfolded validated_inv_def]
  have wf: "wf_lace bl" and cl: "is_closed bl" and ac: "acyclic_lace bl" and cp: "checkpoint bl = None"
    and ha: "hashed_lace hash bl" and ch: "satisfies_chain_axiom_all bl" using bl by auto
  note ok = no_errorsD [OF admitted(1)] and com = admitted(2)
  note res = ok(2) [OF config(2)] and hash = ok(1) [OF config(1)]
  have "acyclic_lace bl' \<and> satisfies_chain_axiom_all bl'"
  proof (cases "identity b \<in> set (block_ids bl)")
    case True
    then obtain c0 where c0: "(identity b, c0) \<in> set (blocks bl)" by auto
    have "stored_points bl' = stored_points bl"
      by (rule recommit_same_points [OF wf cl cp com res c0 same_hash_same_preds [OF assms(1) ha c0 hash assms(2)]])
    moreover have "set (block_ids bl') = set (block_ids bl)"
      using commit_ids [OF com] True by (simp add: insert_absorb del: set_map)
    ultimately show ?thesis
      using ac ch by (simp add: acyclic_lace_iff chain_axiom_all_iff [OF wf] chain_axiom_all_iff [OF wf_commit [OF wf com]] del: set_map)
  next
    case False
    show ?thesis
      using commit_acyclic [OF wf cl ac cp com False res]
        commit_chain_axiom [OF wf cl cp com False res ch ok(4) [OF config(2,3)]] by blast
  qed
  then show ?thesis
    using admitted(3) wf_commit [OF wf com] commit_closed [OF wf cl cp com res] commit_InrD(3) [OF com] cp
      hashed_commit [OF wf ha com hash assms(2)] by (simp add: validated_inv_def)
qed

lemma validated_inv_new: "validated_inv hash (new_blocklace cid)"
  by (simp add: validated_inv_def new_blocklace_def wf_lace_def is_closed_def acyclic_lace_iff stored_points_def
      hashed_lace_def satisfies_chain_axiom_all_def all_nodes_def acyclic_def)

lemma no_equivocators_iff: "find_equivacators bl = [] \<longleftrightarrow> satisfies_chain_axiom_all bl"
  by (auto simp: find_equivacators_def satisfies_chain_axiom_all_def filter_empty_conv list_all_iff)

text \<open>The stores a node reaches when every block passes \<open>validated_insert\<close>.\<close>

inductive validated_reachable :: "hasher \<Rightarrow> signature_scheme \<Rightarrow> blocklace \<Rightarrow> bool" for hash scheme where
  fresh: "validated_reachable hash scheme (new_blocklace cid)"
| insert: "validated_reachable hash scheme bl \<Longrightarrow> representable (creator (identity b)) (content b) \<Longrightarrow>
    check_content_hash config \<Longrightarrow> check_closure config \<Longrightarrow> check_chain_axiom config \<Longrightarrow>
    validated_reachable hash scheme (snd (validated_insert hash scheme b bl bonds config))"

lemma validated_reachable_inv:
  "validated_reachable hash scheme bl \<Longrightarrow> collision_free hash \<Longrightarrow> validated_inv hash bl"
  by (induction rule: validated_reachable.induct) (simp_all add: validated_inv_new validated_insert_inv)

end
