(* ===== verification/Dissemination.thy ===== *)
theory Dissemination
  imports Validation
begin

text \<open>
  \<open>consensus/dissemination.rs\<close>: which predecessors a proposal references, and the bounded buffer of
  blocks that wait for their history.  Hash maps are association lists in iteration order; arrival
  numbers and eviction counters are unbounded, retry counters are \<open>u32\<close>.
\<close>

section \<open>Predecessor selection\<close>

definition validator_visible_tips :: "blocklace \<Rightarrow> (node_id \<times> nat) list \<Rightarrow> (node_id \<times> block_identity) list" where
  "validator_visible_tips bl bonds = collect_validator_tips bl bonds"

datatype predecessor_selection_mode = Compatibility | Strict

definition equivocation_branches :: "blocklace \<Rightarrow> block_identity list" where
  "equivocation_branches bl = concat (map eq_blocks (all_equivocations bl))"

definition add_branch :: "block_identity \<Rightarrow> block_identity list \<times> block_identity list
     \<Rightarrow> block_identity list \<times> block_identity list" where
  "add_branch branch st = (let (observed, preds) = st in
     if branch \<in> set observed then (observed, preds) else (branch # observed, List.insert branch preds))"

definition select_predecessors_with_mode ::
  "blocklace \<Rightarrow> (node_id \<times> nat) list \<Rightarrow> predecessor_selection_mode \<Rightarrow> block_identity list" where
  "select_predecessors_with_mode bl bonds mode =
     (let preds = remdups (map snd (validator_visible_tips bl bonds)) in
      if preds = [] \<or> mode = Strict then preds
      else snd (fold add_branch (equivocation_branches bl) (concat (map (observe bl) preds), preds)))"

definition select_predecessors :: "blocklace \<Rightarrow> (node_id \<times> nat) list \<Rightarrow> block_identity list" where
  "select_predecessors bl bonds = select_predecessors_with_mode bl bonds Compatibility"

definition select_predecessors_strict :: "blocklace \<Rightarrow> (node_id \<times> nat) list \<Rightarrow> block_identity list" where
  "select_predecessors_strict bl bonds = select_predecessors_with_mode bl bonds Strict"

definition select_predecessors_sorted_with_mode ::
  "blocklace \<Rightarrow> (node_id \<times> nat) list \<Rightarrow> predecessor_selection_mode \<Rightarrow> block_identity list" where
  "select_predecessors_sorted_with_mode bl bonds mode = sort (select_predecessors_with_mode bl bonds mode)"

definition select_predecessors_sorted :: "blocklace \<Rightarrow> (node_id \<times> nat) list \<Rightarrow> block_identity list" where
  "select_predecessors_sorted bl bonds = select_predecessors_sorted_with_mode bl bonds Compatibility"

definition required_acknowledgements :: "(node_id \<times> nat) list \<Rightarrow> nat" where
  "required_acknowledgements bonds = (let n = length bonds in if n = 0 then 0 else (2 * n) div 3 + 1)"

text \<open>The last cast truncates to \<open>u64\<close>.\<close>

definition weighted_required_acknowledgements :: "(node_id \<times> nat) list \<Rightarrow> nat" where
  "weighted_required_acknowledgements bonds =
     (let total_stake = sum_list (map snd bonds) in
      if total_stake = 0 then 0 else ((2 * total_stake) div 3 + 1) mod 2 ^ 64)"

section \<open>Proposals\<close>

datatype proposal_error =
    InsufficientAcknowledgements nat nat
  | NoPredecessorsAvailable
  | InsufficientEquivocationAcknowledgement "block_identity list"

definition missing_equivocation_branches :: "blocklace \<Rightarrow> block_identity list \<Rightarrow> block_identity list" where
  "missing_equivocation_branches bl preds =
     (let observed = concat (map (observe bl) preds) in
      sort (filter (\<lambda>branch. branch \<notin> set observed) (equivocation_branches bl)))"

definition predecessors_acknowledge_all_equivocation_branches :: "blocklace \<Rightarrow> block_identity list \<Rightarrow> bool" where
  "predecessors_acknowledge_all_equivocation_branches bl preds \<longleftrightarrow> missing_equivocation_branches bl preds = []"

definition next_block_predecessors_with_mode ::
  "blocklace \<Rightarrow> (node_id \<times> nat) list \<Rightarrow> predecessor_selection_mode \<Rightarrow> proposal_error + block_identity list" where
  "next_block_predecessors_with_mode bl bonds mode =
     (if dom_lace bl = [] then Inr []
      else let preds = select_predecessors_with_mode bl bonds mode in
        if preds = [] then Inl NoPredecessorsAvailable
        else
          let missing = (if mode = Strict then missing_equivocation_branches bl preds else []) in
          if missing \<noteq> [] then Inl (InsufficientEquivocationAcknowledgement missing)
          else
            let observed = length (validator_visible_tips bl bonds); required = required_acknowledgements bonds in
            if observed < required then Inl (InsufficientAcknowledgements observed required) else Inr preds)"

definition next_block_predecessors ::
  "blocklace \<Rightarrow> (node_id \<times> nat) list \<Rightarrow> proposal_error + block_identity list" where
  "next_block_predecessors bl bonds = next_block_predecessors_with_mode bl bonds Compatibility"

definition build_block_candidate_with_mode ::
  "blocklace \<Rightarrow> (node_id \<times> nat) list \<Rightarrow> byte list \<Rightarrow> predecessor_selection_mode \<Rightarrow> proposal_error + block_content" where
  "build_block_candidate_with_mode bl bonds pay mode =
     (case next_block_predecessors_with_mode bl bonds mode of
        Inl e \<Rightarrow> Inl e
      | Inr preds \<Rightarrow> Inr \<lparr>payload = pay, predecessors = remdups (map consensus_identity preds)\<rparr>)"

definition build_block_candidate ::
  "blocklace \<Rightarrow> (node_id \<times> nat) list \<Rightarrow> byte list \<Rightarrow> proposal_error + block_content" where
  "build_block_candidate bl bonds pay = build_block_candidate_with_mode bl bonds pay Compatibility"

section \<open>Selected predecessors cover what is known\<close>

lemma equivocation_branch_stored:
  assumes "wf_lace bl" "acyclic_lace bl" "i \<in> set (equivocation_branches bl)"
  shows "i \<in> set (block_ids bl)"
proof -
  obtain nd r where "i \<in> set (map identity (equivocation_blocks_at_round bl nd r))"
    using assms(3)
    by (auto simp: equivocation_branches_def all_equivocations_def all_equivocations_with_observer_def Let_def
        split: if_splits)
  then obtain b where "b \<in> set (blocks_at_depth bl r)" "identity b = i"
    by (auto simp: equivocation_blocks_at_round_def creator_blocks_at_round_def Let_def split: if_splits)
  then show ?thesis
    using set_blocks_where [OF assms(1,2)] stored_block_id by (auto simp: blocks_at_depth_def simp del: set_map)
qed

lemma fold_add_branch:
  "set (snd (fold add_branch bs (seen, preds))) \<supseteq> set preds \<and>
   set (snd (fold add_branch bs (seen, preds))) \<subseteq> set preds \<union> set bs \<and>
   (\<forall>x \<in> set bs. x \<in> set seen \<or> x \<in> set (snd (fold add_branch bs (seen, preds))))"
proof (induction bs arbitrary: seen preds)
  case (Cons b bs)
  show ?case
  proof (cases "b \<in> set seen")
    case True
    then have "add_branch b (seen, preds) = (seen, preds)" by (simp add: add_branch_def)
    then show ?thesis using Cons.IH [where seen = seen and preds = preds] True by auto
  next
    case False
    then have "add_branch b (seen, preds) = (b # seen, List.insert b preds)" by (simp add: add_branch_def)
    then show ?thesis using Cons.IH [where seen = "b # seen" and preds = "List.insert b preds"] False by auto
  qed
qed simp

lemma tips_eq:
  "(nd, i) \<in> set (validator_visible_tips bl bonds) \<longleftrightarrow>
     nd \<in> fst ` set bonds \<and> nd \<notin> set (find_equivacators bl) \<and> (\<exists>b. tip_of bl nd = Some b \<and> identity b = i)"
proof -
  have "(nd, i) \<in> set (validator_visible_tips bl bonds) \<longleftrightarrow>
      (\<exists>b. (nd, b) \<in> set (validator_tip_blocks bl bonds) \<and> identity b = i)"
    unfolding validator_visible_tips_def collect_tips_blocks by auto
  then show ?thesis unfolding mem_tip_blocks by blast
qed

lemma observe_self: "i \<in> set (block_ids bl) \<Longrightarrow> i \<in> set (observe bl i)"
  by (simp add: observe_iff resolve_stored del: set_map)

lemma tips_selected: "set (map snd (validator_visible_tips bl bonds)) \<subseteq> set (select_predecessors_with_mode bl bonds mode)"
  using fold_add_branch [of "remdups (map snd (validator_visible_tips bl bonds))" "equivocation_branches bl"]
  by (auto simp: select_predecessors_with_mode_def Let_def simp del: set_map split: if_splits)

lemma selected_stored:
  assumes "wf_lace bl" "acyclic_lace bl"
  shows "set (select_predecessors_with_mode bl bonds mode) \<subseteq> set (block_ids bl)"
proof -
  have "set (map snd (validator_visible_tips bl bonds)) \<subseteq> set (block_ids bl)"
    using tips_eq tip_of_Some(1) by (auto simp del: set_map simp: set_map [of snd])
  moreover have "set (equivocation_branches bl) \<subseteq> set (block_ids bl)"
    using equivocation_branch_stored [OF assms] by blast
  moreover have "set (select_predecessors_with_mode bl bonds mode) \<subseteq>
      set (map snd (validator_visible_tips bl bonds)) \<union> set (equivocation_branches bl)"
    using fold_add_branch [of "remdups (map snd (validator_visible_tips bl bonds))" "equivocation_branches bl"]
    by (auto simp: select_predecessors_with_mode_def Let_def simp del: set_map split: if_splits)
  ultimately show ?thesis by blast
qed

lemma selection_covers_equivocations:
  assumes "wf_lace bl" "acyclic_lace bl" "next_block_predecessors_with_mode bl bonds mode = Inr preds" "dom_lace bl \<noteq> []"
    and "branch \<in> set (equivocation_branches bl)"
  shows "\<exists>p \<in> set preds. branch \<in> set (observe bl p)"
proof -
  have sel: "preds = select_predecessors_with_mode bl bonds mode" "preds \<noteq> []"
    and strict: "mode = Strict \<Longrightarrow> missing_equivocation_branches bl preds = []"
    using assms(3,4) by (auto simp: next_block_predecessors_with_mode_def Let_def split: if_splits)
  show ?thesis
  proof (cases mode)
    case Strict
    then have "branch \<in> set (concat (map (observe bl) preds))"
      using strict assms(5) by (auto simp: missing_equivocation_branches_def Let_def sort_Nil_iff filter_empty_conv
          simp del: set_concat)
    then show ?thesis by auto
  next
    case Compatibility
    let ?tips = "remdups (map snd (validator_visible_tips bl bonds))"
    have p: "preds = snd (fold add_branch (equivocation_branches bl) (concat (map (observe bl) ?tips), ?tips))"
      using sel Compatibility by (auto simp: select_predecessors_with_mode_def Let_def split: if_splits)
    have "branch \<in> set (concat (map (observe bl) ?tips)) \<or> branch \<in> set preds"
      using fold_add_branch assms(5) unfolding p by blast
    moreover have "set ?tips \<subseteq> set preds" using fold_add_branch unfolding p by blast
    moreover have "branch \<in> set (observe bl branch)"
      by (rule observe_self [OF equivocation_branch_stored [OF assms(1,2,5)]])
    ultimately show ?thesis by auto
  qed
qed

section \<open>Candidates pass strict validation\<close>

lemma resolve_name:
  assumes "wf_lace bl" "i \<in> set (block_ids bl)"
  shows "resolve_identity bl (consensus_identity i) = Some i"
  unfolding wf_resolve_iff [OF assms(1)] using assms(2) by simp

lemma observe_name:
  assumes "wf_lace bl" "i \<in> set (block_ids bl)"
  shows "observe bl (consensus_identity i) = observe bl i"
  using observe_resolved [OF resolve_name [OF assms]] .

lemma candidate_preds:
  assumes "build_block_candidate_with_mode bl bonds pay mode = Inr c"
  obtains preds where "next_block_predecessors_with_mode bl bonds mode = Inr preds"
    "set (predecessors c) = consensus_identity ` set preds" "payload c = pay"
  using assms that by (auto simp: build_block_candidate_with_mode_def split: sum.splits)

lemma candidate_cordial:
  assumes "wf_lace bl" "acyclic_lace bl" "dom_lace bl \<noteq> []"
    and "build_block_candidate_with_mode bl bonds pay mode = Inr c" "content b = c"
  shows "missing_contents bl c = []" "is_cordial_block bl b (collect_validator_tips bl bonds)"
proof -
  obtain preds where preds: "next_block_predecessors_with_mode bl bonds mode = Inr preds"
    and c: "set (predecessors c) = consensus_identity ` set preds" using assms(4) by (rule candidate_preds)
  have sel: "preds = select_predecessors_with_mode bl bonds mode"
    using preds assms(3) by (auto simp: next_block_predecessors_with_mode_def Let_def split: if_splits)
  have stored: "set preds \<subseteq> set (block_ids bl)" unfolding sel by (rule selected_stored [OF assms(1,2)])
  show "missing_contents bl c = []"
    unfolding missing_contents_Nil c using resolve_name [OF assms(1)] stored by fastforce
  have "set (map snd (collect_validator_tips bl bonds)) \<subseteq> set preds"
    unfolding sel using tips_selected unfolding validator_visible_tips_def .
  then have tips: "missing_known_tips b (collect_validator_tips bl bonds) = []"
    using c assms(5)
    by (auto simp: missing_known_tips_def sort_Nil_iff filter_empty_conv list_ex_iff same_consensus_identity_iff
        simp del: set_map)
  have "branch \<in> set (observed_block_ids bl b)" if br: "branch \<in> set (equivocation_branches bl)" for branch
  proof -
    obtain p where p: "p \<in> set preds" "branch \<in> set (observe bl p)"
      using selection_covers_equivocations [OF assms(1,2) preds assms(3) br] by blast
    then have "branch \<in> set (observe bl (consensus_identity p))"
      using observe_name [OF assms(1)] stored by (metis subsetD)
    then show ?thesis using p(1) c assms(5) by (auto simp: observed_block_ids_def)
  qed
  then have "hidden_equivocations bl b = []"
    by (auto simp: hidden_equivocations_def equivocation_branches_def List.map_filter_def Let_def filter_empty_conv)
  with tips show "is_cordial_block bl b (collect_validator_tips bl bonds)" by (simp add: is_cordial_block_def)
qed


lemma own_proposal_extends_chain:
  assumes "wf_lace bl" "acyclic_lace bl" "dom_lace bl \<noteq> []"
    and cand: "build_block_candidate_with_mode bl bonds pay mode = Inr (content b)"
    and who: "creator (identity b) \<in> fst ` set bonds" "creator (identity b) \<notin> set (find_equivacators bl)"
  shows "chain_conflict bl b = None"
  unfolding chain_conflict_None [OF assms(1)]
proof (intro ballI impI disjI1)
  fix e assume e: "e \<in> set (block_ids bl)" "creator e = creator (identity b)"
  let ?who = "creator (identity b)"
  obtain tb where tb: "tip_of bl ?who = Some tb" using tip_of_exists [OF assms(2) e] by blast
  let ?t = "identity tb"
  note t = tip_of_Some [OF tb]
  have "satisfies_chain_axiom bl ?who" using who(2) e unfolding set_find_equivacators by (metis (mono_tags, lifting) CollectI imageI)
  then have "(?t, e) \<in> (points bl)\<^sup>*"
    using t e unfolding chain_axiom_iff [OF assms(1)] by (metis rtrancl.rtrancl_refl trancl_into_rtrancl)
  moreover have "?t \<in> set (map snd (validator_visible_tips bl bonds))"
    using tips_eq [of ?who ?t bl bonds] who tb by force
  then have tsel: "?t \<in> set (select_predecessors_with_mode bl bonds mode)" using tips_selected by blast
  obtain preds where preds: "next_block_predecessors_with_mode bl bonds mode = Inr preds"
    "set (predecessors (content b)) = consensus_identity ` set preds" using cand by (rule candidate_preds)
  have "preds = select_predecessors_with_mode bl bonds mode"
    using preds(1) assms(3) by (auto simp: next_block_predecessors_with_mode_def Let_def split: if_splits)
  then have "consensus_identity ?t \<in> set (predecessors (content b))" using preds(2) tsel by blast
  moreover have "resolve_identity bl (consensus_identity ?t) = Some ?t" by (rule resolve_name [OF assms(1) t(1)])
  ultimately show "\<exists>p \<in> set (predecessors (content b)). preceedes_or_equals bl e p"
    using resolve_stored [OF e(1)] unfolding preceedes_or_equals_iff by blast
qed

lemma own_proposal_valid:
  assumes "wf_lace bl" "acyclic_lace bl" "dom_lace bl \<noteq> []"
    and cand: "build_block_candidate_with_mode bl bonds pay mode = Inr (content b)"
    and who: "creator (identity b) \<in> fst ` set bonds" "creator (identity b) \<notin> set (find_equivacators bl)"
    and hash: "content_hash (identity b) = block_hash_ext hash (creator (identity b)) (content b)"
    and sig: "scheme (content_hash (identity b)) (node_bytes (creator (identity b))) (signature (identity b))"
    and new: "conflicting_identity_variant bl (identity b) = None"
  shows "validation_errors hash scheme b bl bonds strict_config = []"
  unfolding validation_errors_Nil
  using candidate_cordial [OF assms(1-3) cand refl] own_proposal_extends_chain [OF assms(1-3) cand who] assms by simp

end
