(* ===== verification/Pending_Buffer.thy ===== *)
theory Pending_Buffer
  imports Dissemination
begin

text \<open>
  The \<open>PendingBlockBuffer\<close> of \<open>consensus/dissemination.rs\<close>: admission under a policy, eviction of the
  oldest entry, replay of the buffered blocks while progress is made, and ageing by replay passes.
  The replay loop carries fuel; \<open>retry_fuel\<close> always suffices, because every pass that makes progress
  removes an entry.
\<close>

record buffer_policy =
  max_entries :: nat
  max_entries_per_creator :: nat
  max_retry_passes :: nat

definition default_policy :: buffer_policy where
  "default_policy = \<lparr>max_entries = 4096, max_entries_per_creator = 256, max_retry_passes = 64\<rparr>"

datatype buffer_outcome =
    Buffered
  | AlreadyBuffered
  | BufferedEvicting block_identity
  | RejectedCreatorQuota node_id
  | RejectedZeroCapacity

record buffer_stats =
  evicted_for_capacity :: nat
  evicted_stale :: nat
  rejected_creator_quota :: nat

record pending_buffer =
  buffered_blocks :: "(block_identity \<times> block) list"
  missing_predecessors :: "(block_identity \<times> block_identity list) list"
  policy :: buffer_policy
  arrival :: "(block_identity \<times> nat) list"
  retry_passes :: "(block_identity \<times> nat) list"
  next_arrival :: nat
  stats :: buffer_stats

definition with_policy :: "buffer_policy \<Rightarrow> pending_buffer" where
  "with_policy pol = \<lparr>buffered_blocks = [], missing_predecessors = [], policy = pol, arrival = [],
     retry_passes = [], next_arrival = 0,
     stats = \<lparr>evicted_for_capacity = 0, evicted_stale = 0, rejected_creator_quota = 0\<rparr>\<rparr>"

abbreviation buffered_ids :: "pending_buffer \<Rightarrow> block_identity list" where
  "buffered_ids buf \<equiv> map fst (buffered_blocks buf)"

fun is_retryable_buffer_error :: "invalid_block \<Rightarrow> bool" where
  "is_retryable_buffer_error (MissingPredecessors m) = True"
| "is_retryable_buffer_error e = False"

definition should_keep_buffered_after_validation :: "invalid_block list \<Rightarrow> bool" where
  "should_keep_buffered_after_validation es = list_all is_retryable_buffer_error es"

definition entries_by_creator :: "pending_buffer \<Rightarrow> node_id \<Rightarrow> nat" where
  "entries_by_creator buf who = length (filter (\<lambda>i. creator i = who) (buffered_ids buf))"

definition arrival_of :: "pending_buffer \<Rightarrow> block_identity \<Rightarrow> nat" where
  "arrival_of buf i = (case map_of (arrival buf) i of None \<Rightarrow> 0 | Some a \<Rightarrow> a)"

definition oldest_entry :: "pending_buffer \<Rightarrow> block_identity option" where
  "oldest_entry buf = (case sort_key (\<lambda>i. (arrival_of buf i, i)) (buffered_ids buf) of [] \<Rightarrow> None | i # _ \<Rightarrow> Some i)"

definition forget :: "block_identity \<Rightarrow> pending_buffer \<Rightarrow> pending_buffer" where
  "forget i buf = buf\<lparr>buffered_blocks := AList.delete i (buffered_blocks buf),
     missing_predecessors := AList.delete i (missing_predecessors buf),
     arrival := AList.delete i (arrival buf), retry_passes := AList.delete i (retry_passes buf)\<rparr>"

definition admit_new :: "block \<Rightarrow> block_identity list \<Rightarrow> pending_buffer \<Rightarrow> pending_buffer" where
  "admit_new b missing buf = buf\<lparr>arrival := AList.update (identity b) (next_arrival buf) (arrival buf),
     next_arrival := next_arrival buf + 1,
     retry_passes := AList.update (identity b) 0 (retry_passes buf),
     missing_predecessors := AList.update (identity b) missing (missing_predecessors buf),
     buffered_blocks := AList.update (identity b) b (buffered_blocks buf)\<rparr>"

definition buffer_block_with_missing_predecessors_known ::
  "block \<Rightarrow> block_identity list \<Rightarrow> pending_buffer \<Rightarrow> buffer_outcome \<times> pending_buffer" where
  "buffer_block_with_missing_predecessors_known b missing buf =
     (let i = identity b; who = creator i in
      if max_entries (policy buf) = 0 then (RejectedZeroCapacity, buf)
      else if i \<in> set (buffered_ids buf) then
        (AlreadyBuffered, buf\<lparr>buffered_blocks := AList.update i b (buffered_blocks buf),
           missing_predecessors := AList.update i missing (missing_predecessors buf)\<rparr>)
      else if entries_by_creator buf who \<ge> max_entries_per_creator (policy buf) then
        (RejectedCreatorQuota who,
         buf\<lparr>stats := (stats buf)\<lparr>rejected_creator_quota := rejected_creator_quota (stats buf) + 1\<rparr>\<rparr>)
      else
        (case (if length (buffered_blocks buf) \<ge> max_entries (policy buf) then oldest_entry buf else None) of
           Some victim \<Rightarrow>
             (let buf1 = forget victim buf;
                  buf2 = buf1\<lparr>stats := (stats buf1)\<lparr>evicted_for_capacity := evicted_for_capacity (stats buf1) + 1\<rparr>\<rparr>
              in (BufferedEvicting victim, admit_new b missing buf2))
         | None \<Rightarrow> (Buffered, admit_new b missing buf)))"

definition buffer_block_with_missing_predecessors :: "block \<Rightarrow> pending_buffer \<Rightarrow> buffer_outcome \<times> pending_buffer" where
  "buffer_block_with_missing_predecessors b buf = buffer_block_with_missing_predecessors_known b [] buf"

definition take_resolved_predecessors ::
  "blocklace \<Rightarrow> pending_buffer \<Rightarrow> (block_identity \<times> block_identity) list \<times> pending_buffer" where
  "take_resolved_predecessors bl buf =
     (sort (concat (map (\<lambda>(i, missing). map (\<lambda>p. (i, p)) (filter (\<lambda>p. content_of bl p \<noteq> None) missing))
        (missing_predecessors buf))),
      buf\<lparr>missing_predecessors := map (\<lambda>(i, missing). (i, filter (\<lambda>p. content_of bl p = None) missing))
        (missing_predecessors buf)\<rparr>)"

definition passes_of :: "pending_buffer \<Rightarrow> block_identity \<Rightarrow> nat" where
  "passes_of buf i = (case map_of (retry_passes buf) i of None \<Rightarrow> 0 | Some n \<Rightarrow> n)"

definition evict_one :: "block_identity \<Rightarrow> pending_buffer \<Rightarrow> pending_buffer" where
  "evict_one i buf = (let buf1 = forget i buf in
     buf1\<lparr>stats := (stats buf1)\<lparr>evicted_stale := evicted_stale (stats buf1) + 1\<rparr>\<rparr>)"

definition evict_stale :: "pending_buffer \<Rightarrow> pending_buffer" where
  "evict_stale buf =
     (let stale = filter (\<lambda>i. passes_of buf i > max_retry_passes (policy buf)) (buffered_ids buf);
          buf1 = fold evict_one stale buf
      in buf1\<lparr>arrival := filter (\<lambda>(i, a). i \<in> set (buffered_ids buf1)) (arrival buf1),
              retry_passes := filter (\<lambda>(i, n). i \<in> set (buffered_ids buf1)) (retry_passes buf1)\<rparr>)"

section \<open>Replay\<close>

record replay_state =
  rs_lace :: blocklace
  rs_resolved :: "block_identity list"
  rs_rejected :: "(block \<times> invalid_block list) list"
  rs_progress :: bool

definition ready :: "blocklace \<Rightarrow> block \<Rightarrow> bool" where
  "ready bl b = list_all (\<lambda>p. content_of bl p \<noteq> None) (predecessors (content b))"

text \<open>One entry of a pass.  The index \<open>self.buffered_blocks[&id]\<close> cannot miss: the ids are the map's own.\<close>

definition replay_one ::
  "hasher \<Rightarrow> signature_scheme \<Rightarrow> (node_id \<times> nat) list \<Rightarrow> validation_config \<Rightarrow> (block_identity \<times> block) list
     \<Rightarrow> block_identity \<Rightarrow> replay_state \<Rightarrow> replay_state" where
  "replay_one hash scheme bonds config held i rs =
     (if content_of (rs_lace rs) i \<noteq> None then rs\<lparr>rs_resolved := rs_resolved rs @ [i]\<rparr>
      else case map_of held i of None \<Rightarrow> rs
      | Some b \<Rightarrow>
          if \<not> ready (rs_lace rs) b then rs
          else (case validated_insert hash scheme b (rs_lace rs) bonds config of
                  (Valid, bl') \<Rightarrow> rs\<lparr>rs_lace := bl', rs_resolved := rs_resolved rs @ [i], rs_progress := True\<rparr>
                | (Invalid es, bl') \<Rightarrow>
                    if should_keep_buffered_after_validation es then rs
                    else rs\<lparr>rs_rejected := rs_rejected rs @ [(b, es)], rs_resolved := rs_resolved rs @ [i]\<rparr>))"

definition replay_pass ::
  "hasher \<Rightarrow> signature_scheme \<Rightarrow> (node_id \<times> nat) list \<Rightarrow> validation_config \<Rightarrow> pending_buffer
     \<Rightarrow> blocklace \<Rightarrow> (block \<times> invalid_block list) list \<Rightarrow> replay_state" where
  "replay_pass hash scheme bonds config buf bl rejected =
     fold (replay_one hash scheme bonds config (buffered_blocks buf)) (sort (buffered_ids buf))
       \<lparr>rs_lace = bl, rs_resolved = [], rs_rejected = rejected, rs_progress = False\<rparr>"

fun retry_loop ::
  "nat \<Rightarrow> hasher \<Rightarrow> signature_scheme \<Rightarrow> (node_id \<times> nat) list \<Rightarrow> validation_config \<Rightarrow> pending_buffer
     \<Rightarrow> blocklace \<Rightarrow> (block \<times> invalid_block list) list
     \<Rightarrow> (pending_buffer \<times> blocklace \<times> (block \<times> invalid_block list) list) option" where
  "retry_loop 0 hash scheme bonds config buf bl rejected = None"
| "retry_loop (Suc fuel) hash scheme bonds config buf bl rejected =
     (let rs = replay_pass hash scheme bonds config buf bl rejected;
          buf' = fold forget (rs_resolved rs) buf
      in if rs_progress rs then retry_loop fuel hash scheme bonds config buf' (rs_lace rs) (rs_rejected rs)
         else Some (buf', rs_lace rs, rs_rejected rs))"

definition retry_fuel :: "pending_buffer \<Rightarrow> nat" where
  "retry_fuel buf = length (buffered_blocks buf) + 1"

definition count_pass :: "block_identity \<Rightarrow> pending_buffer \<Rightarrow> pending_buffer" where
  "count_pass i buf = buf\<lparr>retry_passes := AList.update i ((passes_of buf i + 1) mod 2 ^ 32) (retry_passes buf)\<rparr>"

lemma count_pass_code [code]:
  "count_pass i buf = buf\<lparr>retry_passes := AList.update i (wrapping_add 32 (passes_of buf i) 1) (retry_passes buf)\<rparr>"
  by (simp add: count_pass_def wrapping_add_def)

definition retry_buffered_blocks ::
  "hasher \<Rightarrow> signature_scheme \<Rightarrow> (node_id \<times> nat) list \<Rightarrow> validation_config \<Rightarrow> pending_buffer \<Rightarrow> blocklace
     \<Rightarrow> (pending_buffer \<times> blocklace \<times> (block \<times> invalid_block list) list) option" where
  "retry_buffered_blocks hash scheme bonds config buf bl =
     (case retry_loop (retry_fuel buf) hash scheme bonds config buf bl [] of
        None \<Rightarrow> None
      | Some (buf1, bl', rejected) \<Rightarrow>
          Some (evict_stale (fold count_pass (buffered_ids buf1) buf1), bl', rejected))"

section \<open>The buffer stays within its policy\<close>

definition buffer_ok :: "pending_buffer \<Rightarrow> bool" where
  "buffer_ok buf \<longleftrightarrow> distinct (buffered_ids buf) \<and> (\<forall>(i, b) \<in> set (buffered_blocks buf). identity b = i) \<and>
     fst ` set (arrival buf) = set (buffered_ids buf) \<and> fst ` set (retry_passes buf) = set (buffered_ids buf) \<and>
     fst ` set (missing_predecessors buf) = set (buffered_ids buf) \<and>
     length (buffered_ids buf) \<le> max_entries (policy buf) \<and>
     (\<forall>who. entries_by_creator buf who \<le> max_entries_per_creator (policy buf))"

lemma fst_delete: "fst ` set (AList.delete i al) = fst ` set al - {i}"
  by (auto simp: AList.delete_eq image_iff)

lemma ids_delete: "map fst (AList.delete i al) = filter (\<lambda>k. k \<noteq> i) (map fst al)"
  by (induction al) (auto simp: AList.delete_eq)

lemma forget_sel [simp]:
  "policy (forget i buf) = policy buf" "stats (forget i buf) = stats buf"
  "buffered_ids (forget i buf) = filter (\<lambda>k. k \<noteq> i) (buffered_ids buf)"
  by (simp_all add: forget_def ids_delete)

lemma length_filter_conj: "length (filter (\<lambda>x. Q x \<and> P x) xs) \<le> length (filter P xs)"
  by (induction xs) auto

lemma forget_keys [simp]:
  "fst ` set (arrival (forget i buf)) = fst ` set (arrival buf) - {i}"
  "fst ` set (retry_passes (forget i buf)) = fst ` set (retry_passes buf) - {i}"
  "fst ` set (missing_predecessors (forget i buf)) = fst ` set (missing_predecessors buf) - {i}"
  by (simp_all add: forget_def fst_delete)

lemma entries_forget: "entries_by_creator (forget i buf) who \<le> entries_by_creator buf who"
  unfolding entries_by_creator_def forget_sel filter_filter by (rule length_filter_conj)

lemma forget_ok:
  assumes "buffer_ok buf"
  shows "buffer_ok (forget i buf)"
proof -
  have ids: "set (buffered_ids (forget i buf)) = set (buffered_ids buf) - {i}"
    unfolding forget_sel by auto
  have "entries_by_creator (forget i buf) who \<le> max_entries_per_creator (policy buf)" for who
    by (rule le_trans [OF entries_forget]) (use assms in \<open>simp add: buffer_ok_def\<close>)
  moreover have "\<forall>(k, b) \<in> set (buffered_blocks (forget i buf)). identity b = k"
    using assms by (auto simp: buffer_ok_def forget_def AList.delete_eq)
  moreover have "length (buffered_ids (forget i buf)) \<le> max_entries (policy buf)"
    unfolding forget_sel by (rule le_trans [OF length_filter_le]) (use assms in \<open>simp add: buffer_ok_def\<close>)
  moreover have "distinct (buffered_ids (forget i buf))" using assms unfolding forget_sel buffer_ok_def by simp
  ultimately show ?thesis
    using assms unfolding buffer_ok_def ids forget_keys forget_sel(1) by (simp del: set_map length_map forget_sel(3))
qed

lemma admit_ok:
  assumes ok: "buffer_ok buf" and "identity b \<notin> set (buffered_ids buf)"
    and "length (buffered_ids buf) < max_entries (policy buf)"
    and "entries_by_creator buf (creator (identity b)) < max_entries_per_creator (policy buf)"
  shows "buffer_ok (admit_new b missing buf)"
proof -
  have ids: "buffered_ids (admit_new b missing buf) = buffered_ids buf @ [identity b]"
    using assms(2) by (simp add: admit_new_def map_fst_AList_update)
  have pol: "policy (admit_new b missing buf) = policy buf" by (simp add: admit_new_def)
  have "entries_by_creator (admit_new b missing buf) who =
      entries_by_creator buf who + (if creator (identity b) = who then 1 else 0)" for who
    unfolding entries_by_creator_def ids by simp
  then have quota: "\<forall>who. entries_by_creator (admit_new b missing buf) who \<le> max_entries_per_creator (policy buf)"
    using assms(4) ok by (auto simp: buffer_ok_def)
  have d: "distinct (buffered_ids buf)" using ok by (simp add: buffer_ok_def)
  have "\<forall>(k, c) \<in> set (buffered_blocks (admit_new b missing buf)). identity c = k"
    using ok by (auto simp: buffer_ok_def admit_new_def set_AList_update [OF d])
  moreover have "fst ` set (arrival (admit_new b missing buf)) = insert (identity b) (fst ` set (arrival buf))"
    "fst ` set (retry_passes (admit_new b missing buf)) = insert (identity b) (fst ` set (retry_passes buf))"
    "fst ` set (missing_predecessors (admit_new b missing buf)) = insert (identity b) (fst ` set (missing_predecessors buf))"
    by (simp_all add: admit_new_def fst_set_update)
  ultimately show ?thesis
    using ok assms(2,3) quota unfolding buffer_ok_def ids pol by (simp del: set_map length_map)
qed

lemma oldest_entry_mem: "oldest_entry buf = Some i \<Longrightarrow> i \<in> set (buffered_ids buf)"
proof -
  assume "oldest_entry buf = Some i"
  then have "i \<in> set (sort_key (\<lambda>i. (arrival_of buf i, i)) (buffered_ids buf))"
    unfolding oldest_entry_def by (cases "sort_key (\<lambda>i. (arrival_of buf i, i)) (buffered_ids buf)") auto
  then show ?thesis unfolding set_sort .
qed

lemma oldest_entry_None: "oldest_entry buf = None \<longleftrightarrow> buffered_ids buf = []"
proof -
  have "sort_key (\<lambda>i. (arrival_of buf i, i)) (buffered_ids buf) = [] \<longleftrightarrow> buffered_ids buf = []" by (rule sort_Nil_iff)
  then show ?thesis
    unfolding oldest_entry_def by (cases "sort_key (\<lambda>i. (arrival_of buf i, i)) (buffered_ids buf)") simp_all
qed

lemma ok_stats [simp]: "buffer_ok (buf\<lparr>stats := s\<rparr>) = buffer_ok buf"
  by (simp add: buffer_ok_def entries_by_creator_def)

lemma buffer_block_ok:
  assumes ok: "buffer_ok buf"
  shows "buffer_ok (snd (buffer_block_with_missing_predecessors_known b missing buf))"
proof -
  let ?i = "identity b"
  have len: "length (buffered_ids buf) \<le> max_entries (policy buf)" and d: "distinct (buffered_ids buf)"
    using ok by (simp_all add: buffer_ok_def)
  have refresh: "buffer_ok (buf\<lparr>buffered_blocks := AList.update ?i b (buffered_blocks buf),
      missing_predecessors := AList.update ?i missing (missing_predecessors buf)\<rparr>)" if "?i \<in> set (buffered_ids buf)"
    using ok that
    by (auto simp: buffer_ok_def map_fst_AList_update fst_set_update set_AList_update [OF d] entries_by_creator_def
        simp del: set_map length_map)
  have evict: "buffer_ok (admit_new b missing ((forget v buf)\<lparr>stats := s\<rparr>))"
    if v: "v \<in> set (buffered_ids buf)" and i: "?i \<notin> set (buffered_ids buf)"
      and q: "entries_by_creator buf (creator ?i) < max_entries_per_creator (policy buf)" for v s
  proof (rule admit_ok)
    show "buffer_ok ((forget v buf)\<lparr>stats := s\<rparr>)" using forget_ok [OF ok] by simp
    show "?i \<notin> set (buffered_ids ((forget v buf)\<lparr>stats := s\<rparr>))" using i by (simp del: set_map)
    have "length (filter (\<lambda>k. k \<noteq> v) (buffered_ids buf)) < length (buffered_ids buf)"
      by (rule length_filter_less [OF v]) simp
    then show "length (buffered_ids ((forget v buf)\<lparr>stats := s\<rparr>)) < max_entries (policy ((forget v buf)\<lparr>stats := s\<rparr>))"
      using len by (simp del: length_map)
    have "entries_by_creator (forget v buf) who \<le> entries_by_creator buf who" for who
      unfolding entries_by_creator_def forget_sel filter_filter by (rule length_filter_conj)
    then show "entries_by_creator ((forget v buf)\<lparr>stats := s\<rparr>) (creator ?i) <
        max_entries_per_creator (policy ((forget v buf)\<lparr>stats := s\<rparr>))"
      using q le_less_trans by (fastforce simp: entries_by_creator_def)
  qed
  show ?thesis
    using ok refresh evict admit_ok [OF ok] oldest_entry_mem [of buf] oldest_entry_None [of buf]
    unfolding buffer_block_with_missing_predecessors_known_def Let_def
    by (auto split: option.splits simp del: set_map)
qed


lemma fst_map_values: "fst ` set (map (\<lambda>(i, m). (i, g m)) xs) = fst ` set xs"
  by force

lemma take_resolved_ok: "buffer_ok buf \<Longrightarrow> buffer_ok (snd (take_resolved_predecessors bl buf))"
  unfolding buffer_ok_def take_resolved_predecessors_def snd_conv entries_by_creator_def
  by (simp add: fst_map_values del: set_map)

lemma fst_filter_keys: "fst ` set (filter (\<lambda>(i, a). i \<in> A) xs) = fst ` set xs \<inter> A"
  by force

lemma fold_forget_ok: "buffer_ok buf \<Longrightarrow> buffer_ok (fold forget is buf)"
  by (induction "is" arbitrary: buf) (simp_all add: forget_ok)

lemma count_pass_ok: "buffer_ok buf \<Longrightarrow> i \<in> set (buffered_ids buf) \<Longrightarrow>
    buffer_ok (count_pass i buf) \<and> buffered_ids (count_pass i buf) = buffered_ids buf"
  by (auto simp: buffer_ok_def count_pass_def fst_set_update entries_by_creator_def simp del: set_map)

lemma fold_count_pass_ok: "buffer_ok buf \<Longrightarrow> set is \<subseteq> set (buffered_ids buf) \<Longrightarrow>
    buffer_ok (fold count_pass is buf) \<and> buffered_ids (fold count_pass is buf) = buffered_ids buf"
proof (induction "is" arbitrary: buf)
  case (Cons i "is")
  then have "buffer_ok (count_pass i buf) \<and> buffered_ids (count_pass i buf) = buffered_ids buf"
    by (intro count_pass_ok) (auto simp del: set_map)
  with Cons show ?case by (simp del: set_map)
qed simp

lemma fold_evict_ok: "buffer_ok buf \<Longrightarrow> buffer_ok (fold evict_one is buf)"
  by (induction "is" arbitrary: buf) (simp_all add: evict_one_def Let_def forget_ok)

lemma evict_stale_ok:
  assumes "buffer_ok buf"
  shows "buffer_ok (evict_stale buf)"
proof -
  let ?b = "fold evict_one (filter (\<lambda>i. passes_of buf i > max_retry_passes (policy buf)) (buffered_ids buf)) buf"
  have "buffer_ok ?b" by (rule fold_evict_ok [OF assms])
  then have "fst ` set (filter (\<lambda>(i, a). i \<in> set (buffered_ids ?b)) (arrival ?b)) = set (buffered_ids ?b)"
    "fst ` set (filter (\<lambda>(i, a). i \<in> set (buffered_ids ?b)) (retry_passes ?b)) = set (buffered_ids ?b)"
    unfolding fst_filter_keys buffer_ok_def by simp_all
  with \<open>buffer_ok ?b\<close> show ?thesis
    unfolding evict_stale_def Let_def by (simp add: buffer_ok_def entries_by_creator_def del: set_map length_map)
qed

lemma retry_loop_ok:
  "retry_loop fuel hash scheme bonds config buf bl rejected = Some (buf', bl', rej') \<Longrightarrow> buffer_ok buf \<Longrightarrow> buffer_ok buf'"
  by (induction fuel arbitrary: buf bl rejected) (auto simp: Let_def fold_forget_ok split: if_splits)

lemma retry_ok:
  assumes "retry_buffered_blocks hash scheme bonds config buf bl = Some (buf', bl', rej)" "buffer_ok buf"
  shows "buffer_ok buf'"
proof -
  obtain buf1 where l: "retry_loop (retry_fuel buf) hash scheme bonds config buf bl [] = Some (buf1, bl', rej)"
    and b: "buf' = evict_stale (fold count_pass (buffered_ids buf1) buf1)"
    using assms(1) by (auto simp: retry_buffered_blocks_def split: option.splits)
  have "buffer_ok buf1" by (rule retry_loop_ok [OF l assms(2)])
  then show ?thesis unfolding b using fold_count_pass_ok evict_stale_ok by blast
qed

text \<open>The buffers reachable under a policy.\<close>

inductive buffer_reachable :: "buffer_policy \<Rightarrow> pending_buffer \<Rightarrow> bool" for pol where
  empty: "buffer_reachable pol (with_policy pol)"
| admit: "buffer_reachable pol buf \<Longrightarrow>
    buffer_reachable pol (snd (buffer_block_with_missing_predecessors_known b missing buf))"
| take: "buffer_reachable pol buf \<Longrightarrow> buffer_reachable pol (snd (take_resolved_predecessors bl buf))"
| retry: "buffer_reachable pol buf \<Longrightarrow>
    retry_buffered_blocks hash scheme bonds config buf bl = Some (buf', bl', rej) \<Longrightarrow> buffer_reachable pol buf'"

lemma with_policy_ok: "buffer_ok (with_policy pol)"
  by (simp add: buffer_ok_def with_policy_def entries_by_creator_def)

lemma buffer_reachable_ok: "buffer_reachable pol buf \<Longrightarrow> buffer_ok buf"
  by (induction rule: buffer_reachable.induct)
    (simp_all add: with_policy_ok buffer_block_ok take_resolved_ok retry_ok)


section \<open>Replay reaches a fixpoint\<close>

lemma ready_iff: "ready bl b \<longleftrightarrow> missing_contents bl (content b) = []"
  by (simp add: ready_def list_all_iff missing_contents_def filter_empty_conv)

lemma not_in_if: "(P \<Longrightarrow> e \<notin> set xs) \<Longrightarrow> e \<notin> set (if P then xs else [])"
  by simp

lemma not_in_option: "(\<And>x. e \<noteq> g x) \<Longrightarrow> e \<notin> set (case z of None \<Rightarrow> [] | Some x \<Rightarrow> [g x])"
  by (cases z) simp_all

lemma hidden_not_missing:
  "MissingPredecessors m \<notin> set (map (\<lambda>h. HiddenEquivocation (f h) (g h) (k h)) hs)"
  by (induction hs) simp_all

lemma cordial_not_missing: "MissingPredecessors m \<notin> set (cordial_errors b bl bonds)"
proof -
  have "MissingPredecessors m \<notin> set (if t \<noteq> [] then [NotCordial t] else [])" for t by simp
  then show ?thesis unfolding cordial_errors_def Let_def set_append Un_iff using hidden_not_missing by blast
qed

text \<open>A ready block is never kept: its errors, if any, are definitive.\<close>

lemma ready_errors_definitive:
  assumes "ready bl b" "fst (validated_insert hash scheme b bl bonds config) = Invalid es"
  shows "\<not> should_keep_buffered_after_validation es"
proof -
  have mc: "missing_contents bl (content b) = []" using assms(1) by (simp add: ready_iff)
  show ?thesis
  proof (cases "validation_errors hash scheme b bl bonds config")
    case Nil
    then show ?thesis
      using assms(2) by (auto simp: validated_insert_def validate_block_def should_keep_buffered_after_validation_def
          split: sum.splits)
  next
    case (Cons e rest)
    then have es: "es = e # rest" using assms(2) by (simp add: validated_insert_def validate_block_def)
    have "MissingPredecessors m \<notin> set (validation_errors hash scheme b bl bonds config)" for m
      unfolding validation_errors_def Let_def mc set_append Un_iff de_Morgan_disj
      by (intro conjI not_in_if not_in_option cordial_not_missing) simp_all
    then have "\<not> is_retryable_buffer_error x" if "x \<in> set (validation_errors hash scheme b bl bonds config)" for x
      using that by (cases x) auto
    then show ?thesis using Cons es by (simp add: should_keep_buffered_after_validation_def)
  qed
qed

lemma replay_one_cases:
  fixes hash scheme bonds config held i rs
  defines "rs' \<equiv> replay_one hash scheme bonds config held i rs"
  shows "\<exists>new. rs_resolved rs' = rs_resolved rs @ new \<and> set new \<subseteq> {i} \<and>
    (rs_progress rs' \<longrightarrow> rs_progress rs \<or> new = [i]) \<and> (rs_progress rs \<longrightarrow> rs_progress rs') \<and>
    (\<not> rs_progress rs' \<longrightarrow> rs_lace rs' = rs_lace rs \<and>
      (new = [i] \<or> content_of (rs_lace rs) i = None \<and> (\<forall>b. map_of held i = Some b \<longrightarrow> \<not> ready (rs_lace rs) b)))"
proof (cases "content_of (rs_lace rs) i")
  case (Some c)
  then show ?thesis by (simp add: rs'_def replay_one_def)
next
  case None
  show ?thesis
  proof (cases "\<exists>b. map_of held i = Some b \<and> ready (rs_lace rs) b")
    case False
    then have "rs' = rs" using None by (auto simp: rs'_def replay_one_def split: option.split)
    then show ?thesis using None False by auto
  next
    case True
    then obtain b where b: "map_of held i = Some b" "ready (rs_lace rs) b" by blast
    obtain v bl' where v: "validated_insert hash scheme b (rs_lace rs) bonds config = (v, bl')" by fastforce
    then show ?thesis
      using None b ready_errors_definitive [OF b(2), of hash scheme bonds config]
      by (cases v) (auto simp: rs'_def replay_one_def)
  qed
qed

lemma replay_fold:
  fixes hash scheme bonds config held rs0
  defines "run \<equiv> \<lambda>is rs. fold (replay_one hash scheme bonds config held) is rs"
  shows "(\<exists>new. rs_resolved (run is rs) = rs_resolved rs @ new \<and> set new \<subseteq> set is \<and>
      (rs_progress (run is rs) \<longrightarrow> rs_progress rs \<or> new \<noteq> []) \<and> (rs_progress rs \<longrightarrow> rs_progress (run is rs)) \<and>
      (\<not> rs_progress (run is rs) \<longrightarrow> rs_lace (run is rs) = rs_lace rs \<and>
        (\<forall>i \<in> set is. i \<in> set new \<or>
          content_of (rs_lace rs) i = None \<and> (\<forall>b. map_of held i = Some b \<longrightarrow> \<not> ready (rs_lace rs) b))))"
proof (induction "is" arbitrary: rs)
  case Nil
  show ?case by (simp add: run_def)
next
  case (Cons i "is")
  obtain n1 where n1: "rs_resolved (replay_one hash scheme bonds config held i rs) = rs_resolved rs @ n1" "set n1 \<subseteq> {i}"
    "rs_progress (replay_one hash scheme bonds config held i rs) \<longrightarrow> rs_progress rs \<or> n1 = [i]"
    "rs_progress rs \<longrightarrow> rs_progress (replay_one hash scheme bonds config held i rs)"
    "\<not> rs_progress (replay_one hash scheme bonds config held i rs) \<longrightarrow>
      rs_lace (replay_one hash scheme bonds config held i rs) = rs_lace rs \<and>
      (n1 = [i] \<or> content_of (rs_lace rs) i = None \<and> (\<forall>b. map_of held i = Some b \<longrightarrow> \<not> ready (rs_lace rs) b))"
    using replay_one_cases [of hash scheme bonds config held i rs] by blast
  let ?rs1 = "replay_one hash scheme bonds config held i rs"
  from Cons.IH [of ?rs1]
  obtain n2 where n2: "rs_resolved (run is ?rs1) = rs_resolved ?rs1 @ n2" "set n2 \<subseteq> set is"
    "rs_progress (run is ?rs1) \<longrightarrow> rs_progress ?rs1 \<or> n2 \<noteq> []" "rs_progress ?rs1 \<longrightarrow> rs_progress (run is ?rs1)"
    "\<not> rs_progress (run is ?rs1) \<longrightarrow> rs_lace (run is ?rs1) = rs_lace ?rs1 \<and>
      (\<forall>j \<in> set is. j \<in> set n2 \<or>
        content_of (rs_lace ?rs1) j = None \<and> (\<forall>b. map_of held j = Some b \<longrightarrow> \<not> ready (rs_lace ?rs1) b))"
    by blast
  have run: "run (i # is) rs = run is ?rs1" by (simp add: run_def)
  show ?case unfolding run
    by (rule exI [of _ "n1 @ n2"]) (use n1 n2 in auto)
qed


lemma fold_forget_blocks: "buffered_blocks (fold forget is buf) = filter (\<lambda>(k, b). k \<notin> set is) (buffered_blocks buf)"
  by (induction "is" arbitrary: buf)
    (auto simp: forget_def AList.delete_eq filter_filter split_beta intro!: filter_cong)

lemma fold_forget_less:
  assumes "set is \<subseteq> set (buffered_ids buf)" "is \<noteq> []"
  shows "length (buffered_blocks (fold forget is buf)) < length (buffered_blocks buf)"
proof -
  obtain i where i: "i \<in> set is" using assms(2) by (cases "is") auto
  then obtain b where "(i, b) \<in> set (buffered_blocks buf)" using assms(1) by force
  then show ?thesis unfolding fold_forget_blocks using i by (intro length_filter_less) auto
qed

lemma retry_loop_fixpoint:
  "length (buffered_blocks buf) < fuel \<Longrightarrow> distinct (buffered_ids buf) \<Longrightarrow>
   \<exists>buf' bl' rej. retry_loop fuel hash scheme bonds config buf bl rejected = Some (buf', bl', rej) \<and>
     set (buffered_blocks buf') \<subseteq> set (buffered_blocks buf) \<and>
     (\<forall>(i, b) \<in> set (buffered_blocks buf'). content_of bl' i = None \<and> \<not> ready bl' b)"
proof (induction fuel arbitrary: buf bl rejected)
  case (Suc fuel)
  define rs where "rs = replay_pass hash scheme bonds config buf bl rejected"
  let ?buf = "fold forget (rs_resolved rs) buf"
  obtain new where new: "rs_resolved rs = new" "set new \<subseteq> set (buffered_ids buf)" "rs_progress rs \<longrightarrow> new \<noteq> []"
    and stuck: "\<not> rs_progress rs \<longrightarrow> rs_lace rs = bl \<and> (\<forall>i \<in> set (buffered_ids buf). i \<in> set new \<or>
      content_of bl i = None \<and> (\<forall>b. map_of (buffered_blocks buf) i = Some b \<longrightarrow> \<not> ready bl b))"
    using replay_fold [of hash scheme bonds config "buffered_blocks buf" "sort (buffered_ids buf)"
        "\<lparr>rs_lace = bl, rs_resolved = [], rs_rejected = rejected, rs_progress = False\<rparr>"]
    unfolding rs_def replay_pass_def by (auto simp del: set_map)
  have sub: "set (buffered_blocks ?buf) \<subseteq> set (buffered_blocks buf)" by (auto simp: fold_forget_blocks)
  have dist: "distinct (buffered_ids ?buf)"
    using Suc.prems(2) by (simp add: fold_forget_blocks distinct_map_filter)
  have step: "retry_loop (Suc fuel) hash scheme bonds config buf bl rejected =
      (if rs_progress rs then retry_loop fuel hash scheme bonds config ?buf (rs_lace rs) (rs_rejected rs)
       else Some (?buf, rs_lace rs, rs_rejected rs))"
    by (simp add: Let_def rs_def)
  show ?case
  proof (cases "rs_progress rs")
    case True
    then have "length (buffered_blocks ?buf) < fuel"
      using fold_forget_less [of new buf] new Suc.prems(1) by simp
    from Suc.IH [OF this dist] obtain buf' bl' rej where r:
      "retry_loop fuel hash scheme bonds config ?buf (rs_lace rs) (rs_rejected rs) = Some (buf', bl', rej)"
      "set (buffered_blocks buf') \<subseteq> set (buffered_blocks ?buf)"
      "\<forall>(i, b) \<in> set (buffered_blocks buf'). content_of bl' i = None \<and> \<not> ready bl' b" by blast
    with True have "retry_loop (Suc fuel) hash scheme bonds config buf bl rejected = Some (buf', bl', rej)"
      unfolding step by simp
    with subset_trans [OF r(2) sub] r(3) show ?thesis by blast
  next
    case False
    have "content_of bl i = None \<and> \<not> ready bl b" if ib: "(i, b) \<in> set (buffered_blocks ?buf)" for i b
    proof -
      have m: "(i, b) \<in> set (buffered_blocks buf)" "i \<notin> set new" using ib by (auto simp: fold_forget_blocks new(1))
      then have "map_of (buffered_blocks buf) i = Some b" using Suc.prems(2) by simp
      moreover have "i \<in> set (buffered_ids buf)" using m(1) by force
      moreover have "\<forall>i \<in> set (buffered_ids buf). i \<in> set new \<or>
          content_of bl i = None \<and> (\<forall>b. map_of (buffered_blocks buf) i = Some b \<longrightarrow> \<not> ready bl b)"
        using stuck False by simp
      ultimately show ?thesis using m(2) by (metis (no_types))
    qed
    then have "\<forall>(i, b) \<in> set (buffered_blocks ?buf). content_of bl i = None \<and> \<not> ready bl b" by blast
    then show ?thesis unfolding step using False stuck sub by simp
  qed
qed simp

lemma evict_stale_blocks: "set (buffered_blocks (evict_stale buf)) \<subseteq> set (buffered_blocks buf)"
proof -
  have "set (buffered_blocks (fold evict_one is buf)) \<subseteq> set (buffered_blocks buf)" for "is"
    by (induction "is" arbitrary: buf) (fastforce simp: evict_one_def Let_def forget_def AList.delete_eq)+
  then show ?thesis by (simp add: evict_stale_def Let_def)
qed

lemma count_passes_blocks: "buffered_blocks (fold count_pass is buf) = buffered_blocks buf"
  by (induction "is" arbitrary: buf) (simp_all add: count_pass_def)

lemma retry_fixpoint:
  assumes "buffer_ok buf"
  shows "\<exists>buf' bl' rej. retry_buffered_blocks hash scheme bonds config buf bl = Some (buf', bl', rej) \<and>
    set (buffered_blocks buf') \<subseteq> set (buffered_blocks buf) \<and>
    (\<forall>(i, b) \<in> set (buffered_blocks buf'). content_of bl' i = None \<and> \<not> ready bl' b)"
proof -
  have "length (buffered_blocks buf) < retry_fuel buf" "distinct (buffered_ids buf)"
    using assms by (simp_all add: retry_fuel_def buffer_ok_def)
  from retry_loop_fixpoint [OF this, of hash scheme bonds config bl "[]"]
  obtain buf' bl' rej where l: "retry_loop (retry_fuel buf) hash scheme bonds config buf bl [] = Some (buf', bl', rej)"
    "set (buffered_blocks buf') \<subseteq> set (buffered_blocks buf)"
    "\<forall>(i, b) \<in> set (buffered_blocks buf'). content_of bl' i = None \<and> \<not> ready bl' b" by blast
  have "set (buffered_blocks (evict_stale (fold count_pass (buffered_ids buf') buf'))) \<subseteq> set (buffered_blocks buf')"
    using evict_stale_blocks [of "fold count_pass (buffered_ids buf') buf'"] by (simp add: count_passes_blocks)
  with l show ?thesis by (fastforce simp: retry_buffered_blocks_def)
qed

text \<open>Replay admits through \<open>validated_insert\<close> only.\<close>

lemma replay_one_inv:
  assumes "collision_free hash" "check_content_hash config" "check_closure config" "check_chain_axiom config"
    and "\<forall>(i, b) \<in> set held. representable (creator (identity b)) (content b)" "validated_inv hash (rs_lace rs)"
  shows "validated_inv hash (rs_lace (replay_one hash scheme bonds config held i rs))"
proof (cases "map_of held i")
  case None
  then show ?thesis using assms(6) by (simp add: replay_one_def)
next
  case (Some b)
  then have "representable (creator (identity b)) (content b)" using assms(5) by (auto dest: map_of_SomeD)
  from validated_insert_inv [OF assms(1) this assms(2-4,6), of scheme bonds]
  show ?thesis using Some assms(6) by (auto simp: replay_one_def split: prod.splits validation_result.splits)
qed

lemma replay_pass_inv:
  assumes "collision_free hash" "check_content_hash config" "check_closure config" "check_chain_axiom config"
    and "\<forall>(i, b) \<in> set (buffered_blocks buf). representable (creator (identity b)) (content b)" "validated_inv hash bl"
  shows "validated_inv hash (rs_lace (replay_pass hash scheme bonds config buf bl rejected))"
proof -
  have "validated_inv hash (rs_lace rs) \<Longrightarrow>
      validated_inv hash (rs_lace (fold (replay_one hash scheme bonds config (buffered_blocks buf)) is rs))" for "is" rs
    by (induction "is" arbitrary: rs) (simp_all add: replay_one_inv [OF assms(1-5)])
  then show ?thesis using assms(6) by (simp add: replay_pass_def)
qed

lemma retry_loop_inv:
  "retry_loop fuel hash scheme bonds config buf bl rejected = Some (buf', bl', rej) \<Longrightarrow>
   collision_free hash \<Longrightarrow> check_content_hash config \<Longrightarrow> check_closure config \<Longrightarrow> check_chain_axiom config \<Longrightarrow>
   \<forall>(i, b) \<in> set (buffered_blocks buf). representable (creator (identity b)) (content b) \<Longrightarrow>
   validated_inv hash bl \<Longrightarrow> validated_inv hash bl'"
proof (induction fuel arbitrary: buf bl rejected)
  case (Suc fuel)
  let ?rs = "replay_pass hash scheme bonds config buf bl rejected"
  have inv: "validated_inv hash (rs_lace ?rs)" by (rule replay_pass_inv [OF Suc.prems(2-7)])
  have rep: "\<forall>(i, b) \<in> set (buffered_blocks (fold forget (rs_resolved ?rs) buf)). representable (creator (identity b)) (content b)"
    using Suc.prems(6) by (auto simp: fold_forget_blocks)
  show ?case
    using Suc.IH [OF _ Suc.prems(2-5) rep inv] Suc.prems(1) inv by (auto simp: Let_def split: if_splits)
qed simp


lemma policy_fixed:
  "policy (snd (buffer_block_with_missing_predecessors_known b missing buf)) = policy buf"
  "policy (snd (take_resolved_predecessors bl buf)) = policy buf"
  "policy (fold forget is buf) = policy buf" "policy (fold count_pass is buf) = policy buf"
  "policy (fold evict_one is buf) = policy buf" "policy (evict_stale buf) = policy buf"
proof -
  show "policy (snd (buffer_block_with_missing_predecessors_known b missing buf)) = policy buf"
    by (simp add: buffer_block_with_missing_predecessors_known_def Let_def admit_new_def split: option.split)
  show "policy (snd (take_resolved_predecessors bl buf)) = policy buf" by (simp add: take_resolved_predecessors_def)
  have e: "policy (fold evict_one is buf) = policy buf" for "is" buf
    by (induction "is" arbitrary: buf) (simp_all add: evict_one_def Let_def)
  show "policy (fold forget is buf) = policy buf" by (induction "is" arbitrary: buf) simp_all
  show "policy (fold count_pass is buf) = policy buf"
    by (induction "is" arbitrary: buf) (simp_all add: count_pass_def)
  show "policy (fold evict_one is buf) = policy buf" by (rule e)
  show "policy (evict_stale buf) = policy buf" by (simp add: evict_stale_def Let_def e)
qed

lemma retry_policy:
  assumes "retry_buffered_blocks hash scheme bonds config buf bl = Some (buf', bl', rej)"
  shows "policy buf' = policy buf"
proof -
  have "retry_loop fuel hash scheme bonds config b l r = Some (buf1, l', r') \<Longrightarrow> policy buf1 = policy b" for fuel b l r buf1 l' r'
    by (induction fuel arbitrary: b l r) (auto simp: Let_def policy_fixed split: if_splits)
  then show ?thesis using assms by (auto simp: retry_buffered_blocks_def policy_fixed split: option.splits)
qed

lemma buffer_reachable_policy: "buffer_reachable pol buf \<Longrightarrow> policy buf = pol"
  by (induction rule: buffer_reachable.induct) (simp_all add: policy_fixed retry_policy with_policy_def)

end
