(* ===== verification/Claims_Node.thy ===== *)
theory Claims_Node
  imports Scenario Pending_Buffer
begin

text \<open>
  The properties of hashing, validation, proposals, the pending buffer and fork choice.  Witnesses
  instantiate the hash function by the identity or, where blocks refer to their predecessors by 32-byte
  hashes, by \<open>table_hash\<close>; neither has collisions.  The signature scheme is the one whose only
  signature on a hash is the hash itself.
\<close>

definition id_hash :: hasher where "id_hash bs = bs"
definition echo_scheme :: signature_scheme where "echo_scheme h pk s \<longleftrightarrow> s = h"

lemma id_hash_collision_free: "collision_free id_hash"
  by (simp add: collision_free_def id_hash_def)

lemma echo_scheme_binding: "scheme_binding echo_scheme"
  by (simp add: scheme_binding_def echo_scheme_def)

section \<open>Hashing\<close>

text \<open>
  The content hash identifies what it hashes: with a collision-free hash function two
  representable contents with equal block hashes have the same creator, the same payload and the same
  predecessor names, in the same sorted order.
\<close>

theorem block_hash_identifies_content:
  assumes "collision_free hash" "representable who c" "representable who' c'"
    and "block_hash_ext hash who c = block_hash_ext hash who' c'"
  shows "who = who' \<and> payload c = payload c' \<and>
    map consensus_identity (sorted_preds c) = map consensus_identity (sorted_preds c')"
proof -
  have "hash_input who c = hash_input who' c'"
    using assms(1,4) unfolding collision_free_def block_hash_ext_def by blast
  from hash_input_inject [OF assms(2,3) this] show ?thesis by blast
qed

text \<open>
  The default block verifier, on representable contents, has the property the store's invariant
  assumes of its verifier: one signature by one creator binds one payload and one set of predecessor
  names.
\<close>

theorem default_verifier_binds:
  assumes "collision_free hash" "scheme_binding scheme"
  shows "signature_binding (representable_only (verify_block hash scheme))"
  by (rule default_verifier_binding [OF assms])

section \<open>Validation\<close>

text \<open>
  C10.  Let a store be filled from the empty one through \<open>validated_insert\<close> alone, with the content-hash,
  closure and chain checks enabled at every insertion, the other checks in any configuration, and
  blocks whose lengths the program's types can represent.  With a collision-free hash the store is then
  well formed, closed and acyclic, and no creator in it equivocates.
\<close>

theorem validated_stores_have_no_equivocators:
  assumes "validated_reachable hash scheme bl" "collision_free hash"
  shows "wf_lace bl \<and> is_closed bl \<and> acyclic_lace bl \<and> find_equivacators bl = []"
  using validated_reachable_inv [OF assms] no_equivocators_iff by (simp add: validated_inv_def)

definition nd_block :: block where
  "nd_block = \<lparr>identity = BlockIdentity (block_hash_ext id_hash sc_A \<lparr>payload = [7], predecessors = []\<rparr>) sc_A [],
     content = \<lparr>payload = [7], predecessors = []\<rparr>\<rparr>"

lemma nd_block_representable: "representable (creator (identity nd_block)) (content nd_block)"
  by (simp add: nd_block_def representable_def sc_A_def)

text \<open>
  A scenario with references: a genesis block, two blocks of the same creator above it, and a block
  whose predecessor nobody has.  \<open>table_hash\<close> gives the first three blocks 32-byte hashes and every
  other string a longer one.
\<close>

definition nt_id :: "byte \<Rightarrow> block_identity" where
  "nt_id x = BlockIdentity (replicate 32 x) sc_A []"

definition nt_root :: block_content where
  "nt_root = \<lparr>payload = [7], predecessors = []\<rparr>"

definition nt_child :: "byte \<Rightarrow> block_content" where
  "nt_child x = \<lparr>payload = [x], predecessors = [nt_id 1]\<rparr>"

definition table_hash :: hasher where
  "table_hash bs =
     (if bs = hash_input sc_A nt_root then replicate 32 1
      else if bs = hash_input sc_A (nt_child 2) then replicate 32 2
      else if bs = hash_input sc_A (nt_child 3) then replicate 32 3
      else replicate 33 0 @ bs)"

definition nt_first :: block where
  "nt_first = \<lparr>identity = nt_id 1, content = nt_root\<rparr>"

definition nt_second :: "byte \<Rightarrow> block" where
  "nt_second x = \<lparr>identity = nt_id x, content = nt_child x\<rparr>"

definition nt_orphan :: block where
  "nt_orphan = \<lparr>identity = nt_id 9, content = \<lparr>payload = [], predecessors = [nt_id 8]\<rparr>\<rparr>"

definition nt_insert :: "block \<Rightarrow> blocklace \<Rightarrow> validation_result \<times> blocklace" where
  "nt_insert b bl = validated_insert table_hash echo_scheme b bl [(sc_A, 1)] default_config"

definition nt_store1 :: blocklace where
  "nt_store1 = snd (nt_insert nt_first (new_blocklace 0))"

definition nt_store2 :: blocklace where
  "nt_store2 = snd (nt_insert (nt_second 2) nt_store1)"

lemma table_injective:
  fixes u v w z :: "byte list"
  assumes "length u < length z" "length v < length z" "length w < length z" "u \<noteq> v" "u \<noteq> w" "v \<noteq> w"
  shows "collision_free (\<lambda>bs. if bs = a then u else if bs = b then v else if bs = c then w else z @ bs)"
proof -
  have l: "x \<noteq> z @ bs" "z @ bs \<noteq> x" if "length x < length z" for x bs using that by auto
  show ?thesis
    unfolding collision_free_def using assms(4-6) l [OF assms(1)] l [OF assms(2)] l [OF assms(3)] by simp
qed

lemma table_hash_collision_free: "collision_free table_hash"
proof -
  have t: "table_hash = (\<lambda>bs. if bs = hash_input sc_A nt_root then replicate 32 1
    else if bs = hash_input sc_A (nt_child 2) then replicate 32 2
    else if bs = hash_input sc_A (nt_child 3) then replicate 32 3 else replicate 33 0 @ bs)"
    by (rule ext) (simp only: table_hash_def)
  show ?thesis unfolding t by (rule table_injective; simp)
qed

lemma nt_representable:
  "representable (creator (identity nt_first)) (content nt_first)"
  "representable (creator (identity (nt_second x))) (content (nt_second x))"
  "representable (creator (identity nt_orphan)) (content nt_orphan)"
  by (simp_all add: representable_def nt_first_def nt_second_def nt_orphan_def nt_root_def nt_child_def nt_id_def sc_A_def)

lemma nt_insert_reachable:
  "validated_reachable table_hash echo_scheme bl \<Longrightarrow> representable (creator (identity b)) (content b) \<Longrightarrow>
   validated_reachable table_hash echo_scheme (snd (nt_insert b bl))"
  unfolding nt_insert_def by (rule validated_reachable.insert) (simp_all add: default_config_def)

lemma nt_reachable:
  "validated_reachable table_hash echo_scheme nt_store1" "validated_reachable table_hash echo_scheme nt_store2"
proof -
  show "validated_reachable table_hash echo_scheme nt_store1"
    unfolding nt_store1_def by (rule nt_insert_reachable [OF validated_reachable.fresh nt_representable(1)])
  then show "validated_reachable table_hash echo_scheme nt_store2"
    unfolding nt_store2_def by (rule nt_insert_reachable [OF _ nt_representable(2)])
qed

theorem validated_stores_have_no_equivocators_witness:
  "fst (nt_insert nt_first (new_blocklace 0)) = Valid \<and> fst (nt_insert (nt_second 2) nt_store1) = Valid \<and>
   fst (nt_insert (nt_second 3) nt_store2) = Invalid [Equivocation (nt_id 2)] \<and>
   block_ids (snd (nt_insert (nt_second 3) nt_store2)) = [nt_id 1, nt_id 2] \<and>
   find_equivacators (snd (nt_insert (nt_second 3) nt_store2)) = []"
proof -
  have "find_equivacators (snd (nt_insert (nt_second 3) nt_store2)) = []"
    using validated_stores_have_no_equivocators [OF nt_insert_reachable [OF nt_reachable(2) nt_representable(2)]
      table_hash_collision_free] by blast
  moreover have "fst (nt_insert nt_first (new_blocklace 0)) = Valid" by code_simp
  moreover have "fst (nt_insert (nt_second 2) nt_store1) = Valid" by code_simp
  moreover have "fst (nt_insert (nt_second 3) nt_store2) = Invalid [Equivocation (nt_id 2)]" by code_simp
  moreover have "block_ids (snd (nt_insert (nt_second 3) nt_store2)) = [nt_id 1, nt_id 2]" by code_simp
  ultimately show ?thesis by blast
qed

text \<open>
  \<open>validated_insert\<close> admits a block exactly when every enabled check holds; otherwise it reports
  at least one error and leaves the store as it was.
\<close>

theorem validated_insert_admits_iff:
  assumes "wf_lace bl"
  shows "(fst (validated_insert hash scheme b bl bonds config) = Valid \<longleftrightarrow>
      (check_content_hash config \<longrightarrow> content_hash (identity b) = block_hash_ext hash (creator (identity b)) (content b)) \<and>
      (check_signature config \<longrightarrow> signature (identity b) = [] \<or>
         scheme (content_hash (identity b)) (node_bytes (creator (identity b))) (signature (identity b))) \<and>
      (check_sender config \<longrightarrow> creator (identity b) \<in> fst ` set bonds) \<and>
      (check_closure config \<longrightarrow> missing_contents bl (content b) = []) \<and>
      \<not> (\<exists>k \<in> set (block_ids bl). k \<noteq> identity b \<and> same_consensus_identity k (identity b)) \<and>
      (check_chain_axiom config \<longrightarrow> missing_contents bl (content b) = [] \<longrightarrow> chain_conflict bl b = None) \<and>
      (check_cordial config \<longrightarrow> missing_contents bl (content b) = [] \<longrightarrow>
         is_cordial_block bl b (collect_validator_tips bl bonds))) \<and>
    (fst (validated_insert hash scheme b bl bonds config) \<noteq> Valid \<longrightarrow>
      snd (validated_insert hash scheme b bl bonds config) = bl \<and>
      errors (fst (validated_insert hash scheme b bl bonds config)) \<noteq> [])"
proof (cases rule: validated_insert_cases [of hash scheme b bl bonds config])
  case rejected
  then show ?thesis unfolding conflicting_wf_iff [OF assms, symmetric] validation_errors_Nil [symmetric] by simp
next
  case (admitted bl')
  then show ?thesis unfolding conflicting_wf_iff [OF assms, symmetric] validation_errors_Nil [symmetric] by simp
qed


section \<open>Proposals\<close>

text \<open>
  C9.  A proposal is valid at its proposer: in a well-formed acyclic store, a block whose content came
  from \<open>build_block_candidate_with_mode\<close>, in either mode, signed and hashed by a bonded creator that has
  not equivocated, passes every check of the strict configuration, the cordial ones included, unless
  the store already holds another signature variant of it.
\<close>

theorem own_proposals_pass_strict_validation:
  assumes "wf_lace bl" "acyclic_lace bl" "dom_lace bl \<noteq> []"
    and "build_block_candidate_with_mode bl bonds pay mode = Inr (content b)"
    and "creator (identity b) \<in> fst ` set bonds" "creator (identity b) \<notin> set (find_equivacators bl)"
    and "content_hash (identity b) = block_hash_ext hash (creator (identity b)) (content b)"
    and "scheme (content_hash (identity b)) (node_bytes (creator (identity b))) (signature (identity b))"
    and "conflicting_identity_variant bl (identity b) = None"
  shows "validate_block hash scheme b bl bonds strict_config = Valid"
  unfolding validate_Valid_iff by (rule own_proposal_valid [where scheme = scheme, OF assms])

definition nd_content :: block_content where
  "nd_content = \<lparr>payload = [1], predecessors = remdups (map consensus_identity (select_predecessors_strict sc_lace sc_bonds))\<rparr>"

definition nd_proposal :: block where
  "nd_proposal = (let h = block_hash_ext id_hash sc_B nd_content in \<lparr>identity = BlockIdentity h sc_B h, content = nd_content\<rparr>)"

theorem own_proposals_pass_strict_validation_witness:
  "validate_block id_hash echo_scheme nd_proposal sc_lace sc_bonds strict_config = Valid"
proof (rule own_proposals_pass_strict_validation)
  show "wf_lace sc_lace" "acyclic_lace sc_lace" by (rule sc_lace_facts)+
  show "dom_lace sc_lace \<noteq> []" by code_simp
  show "build_block_candidate_with_mode sc_lace sc_bonds [1] Strict = Inr (content nd_proposal)" by code_simp
  show "creator (identity nd_proposal) \<in> fst ` set sc_bonds" by code_simp
  show "creator (identity nd_proposal) \<notin> set (find_equivacators sc_lace)" by code_simp
  show "content_hash (identity nd_proposal) = block_hash_ext id_hash (creator (identity nd_proposal)) (content nd_proposal)"
    by (simp add: nd_proposal_def Let_def)
  show "echo_scheme (content_hash (identity nd_proposal)) (node_bytes (creator (identity nd_proposal)))
      (signature (identity nd_proposal))"
    by (simp add: nd_proposal_def Let_def echo_scheme_def)
  show "conflicting_identity_variant sc_lace (identity nd_proposal) = None" by code_simp
qed

text \<open>
  \<open>required_acknowledgements\<close> is the least number of validators strictly above two thirds of the
  bonded set.
\<close>

theorem required_acknowledgements_least:
  assumes "bonds \<noteq> []"
  shows "2 * length bonds < 3 * required_acknowledgements bonds \<and>
    (\<forall>k. 2 * length bonds < 3 * k \<longrightarrow> required_acknowledgements bonds \<le> k) \<and>
    required_acknowledgements bonds \<le> length bonds"
proof -
  define n where "n = length bonds"
  have "required_acknowledgements bonds = 2 * n div 3 + 1" "0 < n"
    using assms by (simp_all add: required_acknowledgements_def Let_def n_def)
  then show ?thesis unfolding n_def [symmetric] by (intro conjI allI impI) linarith+
qed

text \<open>
  The stake-weighted threshold is truncated to \<open>u64\<close>: three validators with \<open>2 ^ 63\<close> stake each,
  all within the type of a bond, need one unit of stake instead of two thirds of it.
\<close>

theorem weighted_threshold_truncates:
  "weighted_required_acknowledgements [(sc_A, 2 ^ 63), (sc_B, 2 ^ 63), (sc_C, 2 ^ 63)] = 1"
  by (simp add: weighted_required_acknowledgements_def Let_def)

section \<open>The pending buffer\<close>

text \<open>
  C12.  Whatever sequence of admissions, predecessor sweeps and replays a buffer goes through, it never
  holds more blocks than \<open>max_entries\<close>, nor more of one creator than \<open>max_entries_per_creator\<close>; its
  entries are keyed by their own identities and its bookkeeping tables name exactly the held blocks.
\<close>

theorem buffer_stays_within_policy:
  assumes "buffer_reachable pol buf"
  shows "policy buf = pol \<and> length (buffered_blocks buf) \<le> max_entries pol \<and>
    (\<forall>who. entries_by_creator buf who \<le> max_entries_per_creator pol) \<and>
    (\<forall>(i, b) \<in> set (buffered_blocks buf). identity b = i) \<and>
    fst ` set (arrival buf) = set (buffered_ids buf) \<and> fst ` set (retry_passes buf) = set (buffered_ids buf) \<and>
    fst ` set (missing_predecessors buf) = set (buffered_ids buf)"
proof -
  have pol: "policy buf = pol" by (rule buffer_reachable_policy [OF assms])
  have "buffer_ok buf" by (rule buffer_reachable_ok [OF assms])
  then show ?thesis by (simp add: buffer_ok_def pol)
qed

definition nd_policy :: buffer_policy where
  "nd_policy = \<lparr>max_entries = 1, max_entries_per_creator = 1, max_retry_passes = 0\<rparr>"

theorem buffer_stays_within_policy_witness:
  "length (buffered_blocks (snd (buffer_block_with_missing_predecessors_known (sc_block 3) [sc_x]
     (snd (buffer_block_with_missing_predecessors_known (sc_block 2) [sc_d] (with_policy nd_policy)))))) \<le> max_entries nd_policy"
  (is "length (buffered_blocks ?buf) \<le> _")
proof -
  have "buffer_reachable nd_policy ?buf"
    by (intro buffer_reachable.admit buffer_reachable.empty)
  from buffer_stays_within_policy [OF this] show ?thesis by blast
qed

text \<open>
  C11.  Replay of a buffer that was filled through its operations always returns, whatever the store and
  the configuration, and what it leaves in the buffer is really waiting: no held block is already in
  the store, and each misses a predecessor.  If moreover the hash is collision free, the content-hash,
  closure and chain checks are enabled, the buffered blocks are representable and the store satisfied
  the invariant of validated stores before, it satisfies it afterwards.
\<close>

theorem retry_terminates_at_fixpoint:
  assumes "buffer_reachable pol buf"
  shows "\<exists>buf' bl' rej. retry_buffered_blocks hash scheme bonds config buf bl = Some (buf', bl', rej) \<and>
    set (buffered_blocks buf') \<subseteq> set (buffered_blocks buf) \<and>
    (\<forall>(i, b) \<in> set (buffered_blocks buf'). content_of bl' i = None \<and>
      (\<exists>p \<in> set (predecessors (content b)). content_of bl' p = None)) \<and>
    (collision_free hash \<longrightarrow> check_content_hash config \<longrightarrow> check_closure config \<longrightarrow> check_chain_axiom config \<longrightarrow>
      (\<forall>(i, b) \<in> set (buffered_blocks buf). representable (creator (identity b)) (content b)) \<longrightarrow>
      validated_inv hash bl \<longrightarrow> validated_inv hash bl')"
proof -
  obtain buf' bl' rej where r: "retry_buffered_blocks hash scheme bonds config buf bl = Some (buf', bl', rej)"
    "set (buffered_blocks buf') \<subseteq> set (buffered_blocks buf)"
    "\<forall>(i, b) \<in> set (buffered_blocks buf'). content_of bl' i = None \<and> \<not> ready bl' b"
    using retry_fixpoint [OF buffer_reachable_ok [OF assms]] by blast
  have "\<forall>(i, b) \<in> set (buffered_blocks buf'). content_of bl' i = None \<and>
      (\<exists>p \<in> set (predecessors (content b)). content_of bl' p = None)"
    using r(3) unfolding ready_def list_all_iff by fastforce
  moreover have "validated_inv hash bl'"
    if "collision_free hash" "check_content_hash config" "check_closure config" "check_chain_axiom config"
      "\<forall>(i, b) \<in> set (buffered_blocks buf). representable (creator (identity b)) (content b)" "validated_inv hash bl"
  proof -
    obtain buf1 where "retry_loop (retry_fuel buf) hash scheme bonds config buf bl [] = Some (buf1, bl', rej)"
      using r(1) by (auto simp: retry_buffered_blocks_def split: option.splits)
    from retry_loop_inv [OF this that] show ?thesis .
  qed
  ultimately show ?thesis using r(1,2) by blast
qed

definition nt_buffer :: pending_buffer where
  "nt_buffer = snd (buffer_block_with_missing_predecessors_known nt_orphan [nt_id 8]
     (snd (buffer_block_with_missing_predecessors_known (nt_second 2) [nt_id 1]
       (with_policy \<lparr>max_entries = 4, max_entries_per_creator = 4, max_retry_passes = 2\<rparr>))))"

lemma nt_buffered: "buffered_blocks nt_buffer = [(nt_id 2, nt_second 2), (nt_id 9, nt_orphan)]"
  by code_simp

theorem retry_terminates_at_fixpoint_witness:
  "\<exists>buf' bl'. retry_buffered_blocks table_hash echo_scheme [(sc_A, 1)] default_config nt_buffer nt_store1 = Some (buf', bl', []) \<and>
     buffered_ids buf' = [nt_id 9] \<and> block_ids bl' = [nt_id 1, nt_id 2] \<and> validated_inv table_hash nt_store1 \<and> validated_inv table_hash bl'"
proof -
  have r: "buffer_reachable \<lparr>max_entries = 4, max_entries_per_creator = 4, max_retry_passes = 2\<rparr> nt_buffer"
    unfolding nt_buffer_def by (intro buffer_reachable.admit buffer_reachable.empty)
  have inv: "validated_inv table_hash nt_store1"
    by (rule validated_reachable_inv [OF nt_reachable(1) table_hash_collision_free])
  have rep: "\<forall>(i, b) \<in> set (buffered_blocks nt_buffer). representable (creator (identity b)) (content b)"
    unfolding nt_buffered using nt_representable by simp
  obtain buf' bl' rej where
    e: "retry_buffered_blocks table_hash echo_scheme [(sc_A, 1)] default_config nt_buffer nt_store1 = Some (buf', bl', rej)"
    and inv': "validated_inv table_hash bl'"
    using retry_terminates_at_fixpoint [OF r, of table_hash echo_scheme "[(sc_A, 1)]" default_config nt_store1]
      inv rep table_hash_collision_free by (auto simp: default_config_def)
  have "map_option (\<lambda>(buf', bl', rej). (buffered_ids buf', block_ids bl', rej))
      (retry_buffered_blocks table_hash echo_scheme [(sc_A, 1)] default_config nt_buffer nt_store1) =
      Some ([nt_id 9], [nt_id 1, nt_id 2], [])" by code_simp
  then show ?thesis using e inv inv' by simp
qed

section \<open>Fork choice\<close>

text \<open>
  C13.  In a reachable store \<open>fork_choice\<close> answers exactly when a bonded, non-equivocating validator has a
  block and the tips have a common past.  It lists each tip once by descending score; its common
  ancestor is below every tip and no other common ancestor is above it; and the score of a block is
  the stake, modulo \<open>2 ^ 64\<close>, of the validators whose tip is at or above it, for blocks at or above the
  common ancestor.
\<close>

theorem fork_choice_correct:
  fixes bl :: blocklace and bonds :: "(node_id \<times> nat) list"
  assumes "lace_reachable verify bl" "signature_binding verify"
  defines "tips \<equiv> (\<lambda>(nd, b). identity b) ` set (validator_tip_blocks bl bonds)"
  shows "case fork_choice bl bonds of
     None \<Rightarrow> tips = {} \<or> common_past bl tips = {}
   | Some fc \<Rightarrow> tips \<noteq> {} \<and> set (fc_tips fc) = tips \<and> distinct (fc_tips fc) \<and>
       sorted_wrt (\<lambda>a b. score_of (fc_scores fc) b \<le> score_of (fc_scores fc) a) (fc_tips fc) \<and>
       fc_lca fc \<in> common_past bl tips \<and> (\<forall>i \<in> common_past bl tips. (i, fc_lca fc) \<notin> (points bl)\<^sup>+) \<and>
       (\<forall>j. score_of (fc_scores fc) j = (\<Sum>(nd, b) \<leftarrow> validator_tip_blocks bl bonds.
         if (identity b, j) \<in> (points bl)\<^sup>* \<and> (j, fc_lca fc) \<in> (points bl)\<^sup>* then stake_in bonds nd else 0) mod 2 ^ 64)"
proof -
  note u = unprunedD [OF reachable_unpruned [OF assms(1,2)]]
  let ?L = "map (\<lambda>(nd, b). identity b) (validator_tip_blocks bl bonds)"
  have tips: "set ?L = tips" by (simp add: tips_def)
  have stored: "set ?L \<subseteq> set (block_ids bl)" using tip_blocks_stored(1) by (auto simp del: set_map simp: tips tips_def)
  show ?thesis
  proof (cases "fork_choice bl bonds")
    case None
    then have "validator_tip_blocks bl bonds = [] \<or> compute_lca bl ?L = None"
      by (auto simp: fork_choice_def Let_def split: if_splits option.splits)
    then show ?thesis
      using compute_lca_spec [OF u(2) stored] None by (auto simp: tips tips_def)
  next
    case (Some fc)
    note parts = fork_choice_parts [OF u(1,2,4) Some]
    have lca: "fc_lca fc \<in> common_past bl tips \<and> (\<forall>i \<in> common_past bl tips. (i, fc_lca fc) \<notin> (points bl)\<^sup>+)"
      using compute_lca_spec [OF u(2) stored] parts(1,2) tips by auto
    have walk: "set (walk_to_lca bl (identity b) (fc_lca fc)) =
        {x. (identity b, x) \<in> (points bl)\<^sup>* \<and> (x, fc_lca fc) \<in> (points bl)\<^sup>*}"
      if e: "(nd, b) \<in> set (validator_tip_blocks bl bonds)" for nd b
    proof (rule set_walk_to_lca [OF u(1,2,4) tip_blocks_stored(1) [OF e]])
      have "identity b \<in> tips" using e by (force simp: tips_def)
      then show "(identity b, fc_lca fc) \<in> (points bl)\<^sup>*" using lca by (simp add: common_past_def)
    qed
    have "score_of (fc_scores fc) j = (\<Sum>(nd, b) \<leftarrow> validator_tip_blocks bl bonds.
        if (identity b, j) \<in> (points bl)\<^sup>* \<and> (j, fc_lca fc) \<in> (points bl)\<^sup>* then stake_in bonds nd else 0) mod 2 ^ 64" for j
      unfolding parts(6)
      by (rule arg_cong [where f = "\<lambda>x. x mod 2 ^ 64"], rule arg_cong [where f = sum_list], rule map_cong [OF refl])
        (auto simp: walk)
    then show ?thesis
      using Some lca parts(1,3,4) rank_descending [OF parts(5)] by (simp add: tips_def)
  qed
qed

theorem fork_choice_correct_witness:
  "\<exists>fc. fork_choice sc_lace [(sc_A, 50), (sc_C, 30)] = Some fc \<and> distinct (fc_tips fc) \<and> set (fc_tips fc) = {sc_l, sc_x}"
proof -
  have "fork_choice sc_lace [(sc_A, 50), (sc_C, 30)] \<noteq> None" by code_simp
  then obtain fc where fc: "fork_choice sc_lace [(sc_A, 50), (sc_C, 30)] = Some fc" by blast
  have "map (\<lambda>(nd, b). identity b) (validator_tip_blocks sc_lace [(sc_A, 50), (sc_C, 30)]) = [sc_l, sc_x]" by code_simp
  then have "(\<lambda>(nd, b). identity b) ` set (validator_tip_blocks sc_lace [(sc_A, 50), (sc_C, 30)]) = {sc_l, sc_x}"
    by (metis list.set_map empty_set list.simps(15))
  with fork_choice_correct [OF sc_lace_reachable sc_binding, where bonds = "[(sc_A, 50), (sc_C, 30)]"] fc show ?thesis by simp
qed

end
