(* ===== verification/Evidence.thy ===== *)
theory Evidence
  imports Validation Xsort
begin

text \<open>
  \<open>consensus/evidence.rs\<close>: the in-memory pool of equivocation evidence, a sorted map by validator of
  sorted maps by round of sorted maps keyed by the sorted identities of the conflicting blocks, and the
  capture of evidence from a rejected block.  The pool refines a set of claims: \<open>pool_claims\<close>.
\<close>

record equivocation_evidence =
  ev_validator :: node_id
  ev_round :: nat
  ev_blocks :: "block list"

type_synonym evidence_bucket = "(block_identity list \<times> equivocation_evidence) list"
type_synonym evidence_rounds = "(nat \<times> evidence_bucket) list"
type_synonym evidence_pool = "(node_id \<times> evidence_rounds) list"

definition empty_pool :: evidence_pool where
  "empty_pool = []"

definition pool_len :: "evidence_pool \<Rightarrow> nat" where
  "pool_len pool = sum_list (concat (map (\<lambda>(v, rounds). map (\<lambda>(r, bucket). length bucket) rounds) pool))"

definition bt_or_default :: "('k \<times> 'v list) list \<Rightarrow> 'k \<Rightarrow> 'v list" where
  "bt_or_default m k = (case map_of m k of None \<Rightarrow> [] | Some v \<Rightarrow> v)"

definition add_unique :: "block \<Rightarrow> (block_identity \<times> block) list \<Rightarrow> (block_identity \<times> block) list" where
  "add_unique b m = (if identity b \<in> set (map fst m) then m else bt_insert (identity b) b m)"

definition unique_blocks :: "block list \<Rightarrow> (block_identity \<times> block) list" where
  "unique_blocks bs = fold add_unique bs []"

definition record_equivocation ::
  "node_id \<Rightarrow> nat \<Rightarrow> block list \<Rightarrow> evidence_pool \<Rightarrow> bool \<times> evidence_pool" where
  "record_equivocation v r bs pool =
     (let unique = unique_blocks bs in
      if length unique < 2 then (False, pool)
      else
        let key = map fst unique; evidence_blocks = map snd unique;
            rounds = bt_or_default pool v; bucket = bt_or_default rounds r in
        if key \<in> set (map fst bucket) then (False, pool)
        else (True, bt_insert v (bt_insert r
               (bt_insert key \<lparr>ev_validator = v, ev_round = r, ev_blocks = evidence_blocks\<rparr> bucket) rounds) pool))"

definition evidence_for :: "evidence_pool \<Rightarrow> node_id \<Rightarrow> equivocation_evidence list" where
  "evidence_for pool v = concat (map (\<lambda>(r, bucket). map snd bucket) (bt_or_default pool v))"

definition evidence_by_round :: "evidence_pool \<Rightarrow> nat \<Rightarrow> equivocation_evidence list" where
  "evidence_by_round pool r =
     concat (List.map_filter (\<lambda>(v, rounds). map_option (map snd) (map_of rounds r)) pool)"

definition equivocating_validators_in_round :: "evidence_pool \<Rightarrow> nat \<Rightarrow> node_id list" where
  "equivocating_validators_in_round pool r =
     map fst (filter (\<lambda>(v, rounds). case map_of rounds r of None \<Rightarrow> False | Some b \<Rightarrow> b \<noteq> []) pool)"

text \<open>
  One error of a rejected block.  The source is generic in the pool: \<open>put\<close> is the pool's
  \<open>record_equivocation\<close>.
\<close>

definition record_error ::
  "(node_id \<Rightarrow> nat \<Rightarrow> block list \<Rightarrow> 'p \<Rightarrow> bool \<times> 'p) \<Rightarrow> block \<Rightarrow> blocklace \<Rightarrow> invalid_block \<Rightarrow> bool \<times> 'p \<Rightarrow> bool \<times> 'p" where
  "record_error put rejected bl e st =
     (case e of
        Equivocation conflicting \<Rightarrow>
          (case get_block bl conflicting of None \<Rightarrow> st
           | Some held \<Rightarrow>
          (case depth bl conflicting of None \<Rightarrow> st
           | Some r \<Rightarrow>
          (case candidate_depth bl (content rejected) of None \<Rightarrow> st
           | Some rejected_round \<Rightarrow>
              let (new, pool) = put (creator (identity rejected)) (min r rejected_round) [rejected, held] (snd st)
              in (fst st \<or> new, pool))))
      | _ \<Rightarrow> st)"

definition record_rejected_equivocation ::
  "(node_id \<Rightarrow> nat \<Rightarrow> block list \<Rightarrow> 'p \<Rightarrow> bool \<times> 'p) \<Rightarrow> block \<Rightarrow> invalid_block list \<Rightarrow> blocklace \<Rightarrow> 'p \<Rightarrow> bool \<times> 'p" where
  "record_rejected_equivocation put rejected es bl pool = fold (record_error put rejected bl) es (False, pool)"

text \<open>The claim that one error of a rejected block supports.\<close>

definition rejection_claim :: "block \<Rightarrow> blocklace \<Rightarrow> invalid_block \<Rightarrow> (node_id \<times> nat \<times> block_identity set) option" where
  "rejection_claim rejected bl e =
     (case e of
        Equivocation conflicting \<Rightarrow>
          (case (get_block bl conflicting, depth bl conflicting, candidate_depth bl (content rejected)) of
             (Some held, Some r, Some rejected_round) \<Rightarrow>
               if identity held = identity rejected then None
               else Some (creator (identity rejected), min r rejected_round, {identity rejected, identity held})
           | _ \<Rightarrow> None)
      | _ \<Rightarrow> None)"

section \<open>Unique blocks\<close>

lemma unique_blocks_fold:
  "sorted_wrt (<) (map fst m) \<Longrightarrow> \<forall>(i, b) \<in> set m. identity b = i \<Longrightarrow>
   sorted_wrt (<) (map fst (fold add_unique bs m)) \<and> (\<forall>(i, b) \<in> set (fold add_unique bs m). identity b = i) \<and>
   fst ` set (fold add_unique bs m) = fst ` set m \<union> identity ` set bs \<and>
   snd ` set (fold add_unique bs m) \<subseteq> snd ` set m \<union> set bs"
proof (induction bs arbitrary: m)
  case (Cons b bs)
  have new: "set (add_unique b m) = (if identity b \<in> fst ` set m then set m else insert (identity b, b) (set m))"
    using set_bt_insert [OF Cons.prems(1), of "identity b" b] by (force simp: add_unique_def)
  have "sorted_wrt (<) (map fst (add_unique b m))" 
    using sorted_bt_insert [OF Cons.prems(1)] Cons.prems(1) by (simp add: add_unique_def)
  moreover have "\<forall>(i, b) \<in> set (add_unique b m). identity b = i" using Cons.prems(2) unfolding new by auto
  moreover have "fst ` set (add_unique b m) = insert (identity b) (fst ` set m)"
    "snd ` set (add_unique b m) \<subseteq> insert b (snd ` set m)"
    unfolding new by auto
  ultimately show ?case using Cons.IH [of "add_unique b m"]
    by (simp add: insert_commute) blast
qed simp

lemma unique_blocks_spec:
  "sorted_wrt (<) (map fst (unique_blocks bs))" "\<forall>(i, b) \<in> set (unique_blocks bs). identity b = i"
  "set (map fst (unique_blocks bs)) = identity ` set bs" "set (map snd (unique_blocks bs)) \<subseteq> set bs"
  using unique_blocks_fold [of "[]" bs] by (auto simp: unique_blocks_def)

lemma unique_key: "map fst (unique_blocks bs) = sorted_list_of_set (identity ` set bs)"
  using unique_blocks_spec(1,3) [of bs]
  by (metis sorted_list_of_set.idem_if_sorted_distinct strict_sorted_iff)

lemma unique_length: "length (unique_blocks bs) = card (identity ` set bs)"
  using arg_cong [OF unique_key [of bs], of length] by simp

section \<open>The pool as a set of claims\<close>

definition pool_ok :: "evidence_pool \<Rightarrow> bool" where
  "pool_ok pool \<longleftrightarrow> sorted_wrt (<) (map fst pool) \<and>
     (\<forall>(v, rounds) \<in> set pool. sorted_wrt (<) (map fst rounds) \<and>
       (\<forall>(r, bucket) \<in> set rounds. bucket \<noteq> [] \<and> sorted_wrt (<) (map fst bucket) \<and>
         (\<forall>(key, ev) \<in> set bucket. ev_validator ev = v \<and> ev_round ev = r \<and> 2 \<le> length key \<and>
            map identity (ev_blocks ev) = key \<and> sorted_wrt (<) key)))"

definition pool_claims :: "evidence_pool \<Rightarrow> (node_id \<times> nat \<times> block_identity set) set" where
  "pool_claims pool = {(v, r, set key) | v r key. \<exists>rounds bucket ev.
     (v, rounds) \<in> set pool \<and> (r, bucket) \<in> set rounds \<and> (key, ev) \<in> set bucket}"


definition bucket_of :: "evidence_pool \<Rightarrow> node_id \<Rightarrow> nat \<Rightarrow> evidence_bucket" where
  "bucket_of pool v r = bt_or_default (bt_or_default pool v) r"

lemma or_default_mem:
  fixes m :: "('k::linorder \<times> 'v list) list"
  assumes "sorted_wrt (<) (map fst m)"
  shows "(k, x) \<in> set m \<Longrightarrow> bt_or_default m k = x"
    and "bt_or_default m k \<noteq> [] \<Longrightarrow> (k, bt_or_default m k) \<in> set m"
proof -
  have "distinct (map fst m)" using assms by (simp add: strict_sorted_iff)
  then show "(k, x) \<in> set m \<Longrightarrow> bt_or_default m k = x" by (simp add: bt_or_default_def)
  show "bt_or_default m k \<noteq> [] \<Longrightarrow> (k, bt_or_default m k) \<in> set m"
    by (auto simp: bt_or_default_def dest: map_of_SomeD split: option.splits)
qed

lemma or_default_insert:
  fixes m :: "('k::linorder \<times> 'v list) list"
  shows "sorted_wrt (<) (map fst m) \<Longrightarrow> bt_or_default (bt_insert k x m) k' = (if k' = k then x else bt_or_default m k')"
  by (simp add: bt_or_default_def map_of_bt_insert)

lemma rounds_ok:
  assumes "pool_ok pool"
  shows "sorted_wrt (<) (map fst (bt_or_default pool v))"
    "(r, bucket) \<in> set (bt_or_default pool v) \<Longrightarrow> bucket \<noteq> [] \<and> sorted_wrt (<) (map fst bucket) \<and>
       (\<forall>(key, ev) \<in> set bucket. ev_validator ev = v \<and> ev_round ev = r \<and> 2 \<le> length key \<and>
          map identity (ev_blocks ev) = key \<and> sorted_wrt (<) key)"
proof -
  have "bt_or_default pool v = [] \<or> (v, bt_or_default pool v) \<in> set pool"
    using or_default_mem(2) assms unfolding pool_ok_def by blast
  then show "sorted_wrt (<) (map fst (bt_or_default pool v))"
    and "(r, bucket) \<in> set (bt_or_default pool v) \<Longrightarrow> bucket \<noteq> [] \<and> sorted_wrt (<) (map fst bucket) \<and>
       (\<forall>(key, ev) \<in> set bucket. ev_validator ev = v \<and> ev_round ev = r \<and> 2 \<le> length key \<and>
          map identity (ev_blocks ev) = key \<and> sorted_wrt (<) key)"
    using assms unfolding pool_ok_def by fastforce+
qed

lemma bucket_ok:
  assumes "pool_ok pool"
  shows "sorted_wrt (<) (map fst (bucket_of pool v r))"
    "(key, ev) \<in> set (bucket_of pool v r) \<Longrightarrow> ev_validator ev = v \<and> ev_round ev = r \<and> 2 \<le> length key \<and>
       map identity (ev_blocks ev) = key \<and> sorted_wrt (<) key"
proof -
  have "bucket_of pool v r = [] \<or> (r, bucket_of pool v r) \<in> set (bt_or_default pool v)"
    unfolding bucket_of_def using or_default_mem(2) [OF rounds_ok(1) [OF assms]] by blast
  then show "sorted_wrt (<) (map fst (bucket_of pool v r))"
    and "(key, ev) \<in> set (bucket_of pool v r) \<Longrightarrow> ev_validator ev = v \<and> ev_round ev = r \<and> 2 \<le> length key \<and>
       map identity (ev_blocks ev) = key \<and> sorted_wrt (<) key"
    using rounds_ok(2) [OF assms] by fastforce+
qed

lemma claims_iff:
  assumes "pool_ok pool"
  shows "(v, r, K) \<in> pool_claims pool \<longleftrightarrow> (\<exists>key \<in> set (map fst (bucket_of pool v r)). K = set key)"
proof
  assume "(v, r, K) \<in> pool_claims pool"
  then obtain key rounds bucket ev where m: "K = set key" "(v, rounds) \<in> set pool" "(r, bucket) \<in> set rounds" "(key, ev) \<in> set bucket"
    by (auto simp: pool_claims_def)
  have "bt_or_default pool v = rounds" using or_default_mem(1) m(2) assms unfolding pool_ok_def by blast
  then have "bucket_of pool v r = bucket"
    unfolding bucket_of_def using or_default_mem(1) [OF rounds_ok(1) [OF assms]] m(3) by blast
  then show "\<exists>key \<in> set (map fst (bucket_of pool v r)). K = set key" using m(1,4) by force
next
  assume "\<exists>key \<in> set (map fst (bucket_of pool v r)). K = set key"
  then obtain key ev where m: "K = set key" "(key, ev) \<in> set (bucket_of pool v r)" by auto
  then have b: "bucket_of pool v r \<noteq> []" by auto
  then have r: "(r, bucket_of pool v r) \<in> set (bt_or_default pool v)"
    unfolding bucket_of_def using or_default_mem(2) [OF rounds_ok(1) [OF assms]] by blast
  then have "bt_or_default pool v \<noteq> []" by auto
  then have "(v, bt_or_default pool v) \<in> set pool"
    using or_default_mem(2) assms unfolding pool_ok_def by blast
  with r m show "(v, r, K) \<in> pool_claims pool" unfolding pool_claims_def by blast
qed


section \<open>Recording\<close>

lemma bt_insert_not_Nil: "bt_insert k x m \<noteq> []"
  by (cases m) (auto split: if_splits)

lemma record_bucket:
  assumes ok: "pool_ok pool" and new: "record_equivocation v r bs pool = (True, pool')"
  shows "bucket_of pool' v' r' = (if v' = v \<and> r' = r
    then bt_insert (map fst (unique_blocks bs)) \<lparr>ev_validator = v, ev_round = r, ev_blocks = map snd (unique_blocks bs)\<rparr>
      (bucket_of pool v r)
    else bucket_of pool v' r')"
proof -
  have p: "sorted_wrt (<) (map fst pool)" using ok by (simp add: pool_ok_def)
  show ?thesis
    using new unfolding record_equivocation_def Let_def bucket_of_def
    by (auto simp: or_default_insert [OF p] or_default_insert [OF rounds_ok(1) [OF ok]] simp del: set_map split: if_splits)
qed

lemma pool_ok_insert:
  assumes ok: "pool_ok pool" and b: "bucket \<noteq> []" "sorted_wrt (<) (map fst bucket)"
    and recs: "\<forall>(key, ev) \<in> set bucket. ev_validator ev = v \<and> ev_round ev = r \<and> 2 \<le> length key \<and>
      map identity (ev_blocks ev) = key \<and> sorted_wrt (<) key"
  shows "pool_ok (bt_insert v (bt_insert r bucket (bt_or_default pool v)) pool)"
proof -
  have p: "sorted_wrt (<) (map fst pool)" using ok by (simp add: pool_ok_def)
  note rs = rounds_ok(1) [OF ok, of v]
  have "(x, bk) \<in> set (bt_insert r bucket (bt_or_default pool v)) \<Longrightarrow> x = r \<and> bk = bucket \<or> (x, bk) \<in> set (bt_or_default pool v)" for x bk
    using set_bt_insert [OF rs] by auto
  note mem = this
  have rounds: "\<forall>(x, bk) \<in> set (bt_insert r bucket (bt_or_default pool v)). bk \<noteq> [] \<and> sorted_wrt (<) (map fst bk) \<and>
      (\<forall>(key, ev) \<in> set bk. ev_validator ev = v \<and> ev_round ev = x \<and> 2 \<le> length key \<and>
         map identity (ev_blocks ev) = key \<and> sorted_wrt (<) key)"
  proof (rule ballI, clarify, goal_cases)
    case (1 x bk)
    from mem [OF this] show ?case
    proof
      assume "x = r \<and> bk = bucket"
      then show ?thesis using b recs by simp
    next
      assume "(x, bk) \<in> set (bt_or_default pool v)"
      then show ?thesis by (rule rounds_ok(2) [OF ok])
    qed
  qed
  have sub: "set (bt_insert v (bt_insert r bucket (bt_or_default pool v)) pool) \<subseteq>
      insert (v, bt_insert r bucket (bt_or_default pool v)) (set pool)"
    unfolding set_bt_insert [OF p] by blast
  show ?thesis unfolding pool_ok_def
  proof (intro conjI ballI)
    show "sorted_wrt (<) (map fst (bt_insert v (bt_insert r bucket (bt_or_default pool v)) pool))"
      by (rule sorted_bt_insert [OF p])
    fix e assume "e \<in> set (bt_insert v (bt_insert r bucket (bt_or_default pool v)) pool)"
    then consider "e = (v, bt_insert r bucket (bt_or_default pool v))" | "e \<in> set pool" using sub by blast
    then show "case e of (v, rounds) \<Rightarrow> sorted_wrt (<) (map fst rounds) \<and> (\<forall>(r, bucket) \<in> set rounds. bucket \<noteq> [] \<and>
        sorted_wrt (<) (map fst bucket) \<and> (\<forall>(key, ev) \<in> set bucket. ev_validator ev = v \<and> ev_round ev = r \<and>
          2 \<le> length key \<and> map identity (ev_blocks ev) = key \<and> sorted_wrt (<) key))"
    proof cases
      case 1
      show ?thesis unfolding 1 prod.case using sorted_bt_insert [OF rs] rounds by blast
    next
      case 2
      then show ?thesis using ok unfolding pool_ok_def by blast
    qed
  qed
qed

lemma record_ok:
  assumes ok: "pool_ok pool"
  shows "pool_ok (snd (record_equivocation v r bs pool))"
proof (cases "fst (record_equivocation v r bs pool)")
  case True
  let ?key = "map fst (unique_blocks bs)"
    and ?ev = "\<lparr>ev_validator = v, ev_round = r, ev_blocks = map snd (unique_blocks bs)\<rparr>"
  have two: "2 \<le> length (unique_blocks bs)" and eq: "snd (record_equivocation v r bs pool) =
      bt_insert v (bt_insert r (bt_insert ?key ?ev (bucket_of pool v r)) (bt_or_default pool v)) pool"
    using True by (auto simp: record_equivocation_def Let_def bucket_of_def split: if_splits)
  have sb: "set (bt_insert ?key ?ev (bucket_of pool v r)) \<subseteq> insert (?key, ?ev) (set (bucket_of pool v r))"
    using set_bt_insert [OF bucket_ok(1) [OF ok]] by blast
  have key: "map identity (map snd (unique_blocks bs)) = ?key"
    using unique_blocks_spec(2) [of bs] by (auto simp: comp_def)
  show ?thesis unfolding eq
  proof (rule pool_ok_insert [OF ok])
    show "bt_insert ?key ?ev (bucket_of pool v r) \<noteq> []" by (rule bt_insert_not_Nil)
    show "sorted_wrt (<) (map fst (bt_insert ?key ?ev (bucket_of pool v r)))" by (rule sorted_bt_insert [OF bucket_ok(1) [OF ok]])
    show "\<forall>(k, ev) \<in> set (bt_insert ?key ?ev (bucket_of pool v r)). ev_validator ev = v \<and> ev_round ev = r \<and>
        2 \<le> length k \<and> map identity (ev_blocks ev) = k \<and> sorted_wrt (<) k"
      using sb bucket_ok(2) [OF ok] two key unique_blocks_spec(1) [of bs] by fastforce
  qed
next
  case False
  then have "snd (record_equivocation v r bs pool) = pool"
    by (auto simp: record_equivocation_def Let_def split: if_splits)
  then show ?thesis using ok by simp
qed

lemma key_determined:
  assumes "sorted_wrt (<) key" "set key = identity ` set bs"
  shows "key = map fst (unique_blocks bs)"
  unfolding unique_key using assms by (metis sorted_list_of_set.idem_if_sorted_distinct strict_sorted_iff)

lemma record_new_iff:
  assumes ok: "pool_ok pool"
  shows "fst (record_equivocation v r bs pool) \<longleftrightarrow>
    2 \<le> card (identity ` set bs) \<and> (v, r, identity ` set bs) \<notin> pool_claims pool"
proof -
  have "map fst (unique_blocks bs) \<in> set (map fst (bucket_of pool v r)) \<longleftrightarrow> (v, r, identity ` set bs) \<in> pool_claims pool"
    unfolding claims_iff [OF ok]
  proof
    assume "map fst (unique_blocks bs) \<in> set (map fst (bucket_of pool v r))"
    then show "\<exists>key \<in> set (map fst (bucket_of pool v r)). identity ` set bs = set key"
      using unique_blocks_spec(3) [of bs] by metis
  next
    assume "\<exists>key \<in> set (map fst (bucket_of pool v r)). identity ` set bs = set key"
    then obtain key ev where e: "(key, ev) \<in> set (bucket_of pool v r)" "set key = identity ` set bs" by auto
    then have "key = map fst (unique_blocks bs)"
      using key_determined bucket_ok(2) [OF ok e(1)] by blast
    moreover have "key \<in> set (map fst (bucket_of pool v r))" using image_eqI [of key fst "(key, ev)", OF _ e(1)] by simp
    ultimately show "map fst (unique_blocks bs) \<in> set (map fst (bucket_of pool v r))" by simp
  qed
  then show ?thesis
    by (auto simp: record_equivocation_def Let_def unique_length bucket_of_def simp del: set_map)
qed

lemma record_claims:
  assumes ok: "pool_ok pool"
  shows "pool_claims (snd (record_equivocation v r bs pool)) =
    (if 2 \<le> card (identity ` set bs) then insert (v, r, identity ` set bs) (pool_claims pool) else pool_claims pool)"
proof (cases "fst (record_equivocation v r bs pool)")
  case False
  then have "snd (record_equivocation v r bs pool) = pool"
    by (auto simp: record_equivocation_def Let_def split: if_splits)
  then show ?thesis using False record_new_iff [OF ok] by (auto simp: insert_absorb)
next
  case True
  then obtain pool' where pool': "record_equivocation v r bs pool = (True, pool')"
    by (cases "record_equivocation v r bs pool") auto
  have ok': "pool_ok pool'" using record_ok [OF ok, of v r bs] pool' by simp
  have "(v', r', K) \<in> pool_claims pool' \<longleftrightarrow> (v', r', K) = (v, r, identity ` set bs) \<or> (v', r', K) \<in> pool_claims pool" for v' r' K
  proof (cases "v' = v \<and> r' = r")
    case True
    have "set (map fst (bucket_of pool' v r)) = insert (map fst (unique_blocks bs)) (set (map fst (bucket_of pool v r)))"
      unfolding record_bucket [OF ok pool'] by (simp add: fst_set_bt_insert)
    then show ?thesis
      unfolding claims_iff [OF ok'] claims_iff [OF ok] using True unique_blocks_spec(3) [of bs] by (simp del: set_map)
  next
    case False
    then show ?thesis
      unfolding claims_iff [OF ok'] claims_iff [OF ok] record_bucket [OF ok pool'] by auto
  qed
  moreover have "2 \<le> card (identity ` set bs)" using record_new_iff [OF ok] True by blast
  ultimately show ?thesis using pool' by auto
qed

section \<open>The pool interface\<close>

text \<open>
  The trait \<open>EvidencePool\<close> as an interface: an implementation keeps an invariant \<open>ok\<close> and stands for a
  set of claims; recording adds the claim of two or more distinct identities and reports whether it is new.
\<close>

locale evidence_store =
  fixes ok :: "'p \<Rightarrow> bool"
    and claims :: "'p \<Rightarrow> (node_id \<times> nat \<times> block_identity set) set"
    and put :: "node_id \<Rightarrow> nat \<Rightarrow> block list \<Rightarrow> 'p \<Rightarrow> bool \<times> 'p"
  assumes record_keeps: "ok p \<Longrightarrow> ok (snd (put v r bs p))"
    and record_reports: "ok p \<Longrightarrow>
      fst (put v r bs p) \<longleftrightarrow> 2 \<le> card (identity ` set bs) \<and> (v, r, identity ` set bs) \<notin> claims p"
    and record_adds: "ok p \<Longrightarrow> claims (snd (put v r bs p)) =
      (if 2 \<le> card (identity ` set bs) then insert (v, r, identity ` set bs) (claims p) else claims p)"
begin

lemma error_claims:
  assumes "ok p"
  shows "ok (snd (record_error put rejected bl e (f, p)))"
    and "claims (snd (record_error put rejected bl e (f, p))) = set_option (rejection_claim rejected bl e) \<union> claims p"
    and "fst (record_error put rejected bl e (f, p)) \<longleftrightarrow> f \<or> \<not> set_option (rejection_claim rejected bl e) \<subseteq> claims p"
proof -
  have two: "2 \<le> card {i, j} \<longleftrightarrow> i \<noteq> j" for i j :: block_identity
    by (cases "i = j") auto
  show "ok (snd (record_error put rejected bl e (f, p)))"
    and "claims (snd (record_error put rejected bl e (f, p))) = set_option (rejection_claim rejected bl e) \<union> claims p"
    and "fst (record_error put rejected bl e (f, p)) \<longleftrightarrow> f \<or> \<not> set_option (rejection_claim rejected bl e) \<subseteq> claims p"
    using assms record_keeps record_reports record_adds
    by (auto simp: record_error_def rejection_claim_def two split_beta split: invalid_block.splits option.splits)
qed

lemma rejected_claims:
  assumes "ok p"
  shows "ok (snd (fold (record_error put rejected bl) es (f, p))) \<and>
    claims (snd (fold (record_error put rejected bl) es (f, p))) =
      (\<Union>e \<in> set es. set_option (rejection_claim rejected bl e)) \<union> claims p \<and>
    (fst (fold (record_error put rejected bl) es (f, p)) \<longleftrightarrow>
      f \<or> \<not> (\<Union>e \<in> set es. set_option (rejection_claim rejected bl e)) \<subseteq> claims p)"
  using assms
proof (induction es arbitrary: f p)
  case (Cons e es)
  obtain f' p' where step: "record_error put rejected bl e (f, p) = (f', p')" by fastforce
  note one = error_claims [OF Cons.prems, of rejected bl e f, unfolded step, simplified]
  show ?case using Cons.IH [OF one(1), of f'] one(2,3) by (auto simp: step)
qed simp

end

interpretation pool: evidence_store pool_ok pool_claims record_equivocation
  by unfold_locales (simp_all add: record_ok record_new_iff record_claims)

end
