(* ===== verification/Verified_Evidence.thy ===== *)
theory Verified_Evidence
  imports Evidence Crypto
begin

text \<open>
  \<open>consensus/verified_evidence.rs\<close>: the strict check of an untrusted equivocation claim, its canonical
  bytes and their decoder.  The history of a claimed block is walked with an explicit stack; the walk is
  total, because every block it opens joins the set of identities being visited or finished.  The hash and
  the signature scheme are the parameters of \<open>Crypto\<close>.
\<close>

section \<open>Verification\<close>

datatype evidence_error =
    TooFewBlocks | MalformedEncoding | WrongCreator | InvalidHash | InvalidSignature | DuplicateBlock
  | InvalidBlock | MissingHistory | WrongRound | ComparableBlocks

record verified_evidence =
  ver_validator :: node_id
  ver_round :: nat
  ver_blocks :: "block list"

abbreviation cid :: "block \<Rightarrow> block_identity" where
  "cid b \<equiv> consensus_identity (identity b)"

abbreviation pred_ids :: "block \<Rightarrow> block_identity set" where
  "pred_ids b \<equiv> consensus_identity ` set (predecessors (content b))"

definition hash_ok :: "hasher \<Rightarrow> block \<Rightarrow> bool" where
  "hash_ok hash b \<longleftrightarrow> block_hash_ext hash (creator (identity b)) (content b) = content_hash (identity b)"

type_synonym history_stack = "(block \<times> bool) list"
type_synonym history_rounds = "(block_identity \<times> nat) list"

text \<open>The round of an expanded block, from the rounds of its predecessors.\<close>

fun history_round :: "history_rounds \<Rightarrow> block_identity list \<Rightarrow> nat \<Rightarrow> evidence_error + nat" where
  "history_round rounds [] acc = Inr acc"
| "history_round rounds (p # ps) acc =
     (case map_of rounds (consensus_identity p) of None \<Rightarrow> Inl MissingHistory
      | Some d \<Rightarrow>
          (case checked_add 64 d 1 of None \<Rightarrow> Inl InvalidBlock
           | Some d' \<Rightarrow> history_round rounds ps (max acc d')))"

text \<open>Opening a block pushes its predecessors, resolved in the store.\<close>

fun push_history ::
  "blocklace \<Rightarrow> block_identity list \<Rightarrow> history_stack \<Rightarrow> block_identity list
     \<Rightarrow> evidence_error + history_stack \<times> block_identity list" where
  "push_history bl [] stack ancs = Inr (stack, ancs)"
| "push_history bl (p # ps) stack ancs =
     (case get_block bl (consensus_identity p) of None \<Rightarrow> Inl MissingHistory
      | Some a \<Rightarrow> push_history bl ps ((a, False) # stack) (List.insert (consensus_identity p) ancs))"

lemma push_history_Inr:
  "push_history bl ps stack ancs = Inr (stack', ancs') \<longleftrightarrow>
   (\<forall>p \<in> set ps. get_block bl (consensus_identity p) \<noteq> None) \<and>
   stack' = rev (map (\<lambda>p. (the (get_block bl (consensus_identity p)), False)) ps) @ stack \<and>
   ancs' = fold List.insert (map consensus_identity ps) ancs"
  by (induction bl ps stack ancs rule: push_history.induct) (auto split: option.splits)

definition history_universe :: "blocklace \<Rightarrow> history_stack \<Rightarrow> block_identity set" where
  "history_universe bl stack = consensus_identity ` (set (block_ids bl) \<union> (identity \<circ> fst) ` set stack)"

lemma finite_history_universe [simp]: "finite (history_universe bl stack)"
  by (simp add: history_universe_def)

lemma history_universe_pop: "history_universe bl stack \<subseteq> history_universe bl (e # stack)"
  by (auto simp: history_universe_def)

lemma history_universe_push:
  assumes "push_history bl ps stack ancs = Inr (stack', ancs')"
  shows "history_universe bl stack' \<subseteq> history_universe bl stack"
proof -
  let ?new = "rev (map (\<lambda>p. (the (get_block bl (consensus_identity p)), False)) ps)"
  have "identity (the (get_block bl (consensus_identity p))) \<in> set (block_ids bl)" if "p \<in> set ps" for p
    using assms that get_block_Some(2) by (fastforce simp: push_history_Inr simp del: set_map)
  then have "(identity \<circ> fst) ` set ?new \<subseteq> set (block_ids bl)" by (auto simp del: set_map simp: set_map [of _ ps])
  moreover have "stack' = ?new @ stack" using assms by (simp add: push_history_Inr)
  moreover have "f ` (B \<union> (A \<union> S)) \<subseteq> f ` (B \<union> S)" if "A \<subseteq> B"
    for f :: "block_identity \<Rightarrow> block_identity" and A B S using that by blast
  ultimately show ?thesis by (simp only: history_universe_def set_append image_Un [of "identity \<circ> fst"])
qed

function history_loop ::
  "hasher \<Rightarrow> blocklace \<Rightarrow> history_stack \<Rightarrow> history_rounds \<Rightarrow> block_identity list \<Rightarrow> block_identity list
     \<Rightarrow> evidence_error + history_rounds \<times> block_identity list" where
  "history_loop hash bl [] rounds visiting ancs = Inr (rounds, ancs)"
| "history_loop hash bl ((current, expanded) # stack) rounds visiting ancs =
     (let i = cid current in
      if i \<in> set (map fst rounds) then history_loop hash bl stack rounds visiting ancs
      else if \<not> hash_ok hash current then Inl InvalidHash
      else if expanded then
        (case history_round rounds (predecessors (content current)) 0 of
           Inl e \<Rightarrow> Inl e
         | Inr r \<Rightarrow> history_loop hash bl stack (bt_insert i r rounds) (removeAll i visiting) ancs)
      else if i \<in> set visiting then Inl InvalidBlock
      else
        (case push_history bl (predecessors (content current)) ((current, True) # stack) ancs of
           Inl e \<Rightarrow> Inl e
         | Inr (stack', ancs') \<Rightarrow> history_loop hash bl stack' rounds (List.insert i visiting) ancs'))"
  by pat_completeness auto
termination
proof (relation "inv_image (less_than <*lex*> less_than) (\<lambda>(hash, bl, stack, rounds, visiting, ancs).
    (card (history_universe bl stack - (fst ` set rounds \<union> set visiting)), length stack))", goal_cases)
  case (2 hash bl current expanded stack rounds visiting ancs i)
  have "card (history_universe bl stack - (fst ` set rounds \<union> set visiting)) \<le>
      card (history_universe bl ((current, expanded) # stack) - (fst ` set rounds \<union> set visiting))"
    using history_universe_pop [of bl stack "(current, expanded)"] by (intro card_mono) auto
  then show ?case by (auto simp: le_less)
next
  case (3 hash bl current expanded stack rounds visiting ancs i r)
  have "card (history_universe bl stack - (fst ` set (bt_insert i r rounds) \<union> set (removeAll i visiting))) \<le>
      card (history_universe bl ((current, expanded) # stack) - (fst ` set rounds \<union> set visiting))"
    using history_universe_pop [of bl stack "(current, expanded)"] by (intro card_mono) (auto simp: fst_set_bt_insert)
  then show ?case by (auto simp: le_less)
next
  case (4 hash bl current expanded stack rounds visiting ancs i x stack' ancs')
  have "history_universe bl stack' \<subseteq> history_universe bl ((current, True) # stack)"
    by (rule history_universe_push [of bl "predecessors (content current)" _ ancs _ ancs']) (use 4 in simp)
  also have "\<dots> = history_universe bl ((current, expanded) # stack)" by (simp add: history_universe_def)
  finally have sub: "history_universe bl stack' \<subseteq> history_universe bl ((current, expanded) # stack)" .
  have "i \<in> history_universe bl ((current, expanded) # stack)" using 4(1) by (simp add: history_universe_def)
  then have "card (history_universe bl stack' - (fst ` set rounds \<union> set (List.insert i visiting))) <
      card (history_universe bl ((current, expanded) # stack) - (fst ` set rounds \<union> set visiting))"
    using sub 4 by (intro psubset_card_mono) auto
  then show ?case by simp
qed auto

declare history_loop.simps [simp del]

definition complete_history :: "hasher \<Rightarrow> blocklace \<Rightarrow> block \<Rightarrow> evidence_error + nat \<times> block_identity list" where
  "complete_history hash bl b =
     (case history_loop hash bl [(b, False)] [] [] [] of
        Inl e \<Rightarrow> Inl e
      | Inr (rounds, ancs) \<Rightarrow> Inr (the (map_of rounds (cid b)), ancs))"

text \<open>The loop over the claimed blocks: identities seen, earliest round, histories.\<close>

fun check_blocks ::
  "hasher \<Rightarrow> signature_scheme \<Rightarrow> blocklace \<Rightarrow> node_id \<Rightarrow> block list \<Rightarrow> block_identity list \<Rightarrow> nat \<Rightarrow> block_identity list list
     \<Rightarrow> evidence_error + nat \<times> block_identity list list" where
  "check_blocks hash scheme bl v [] seen earliest hs = Inr (earliest, hs)"
| "check_blocks hash scheme bl v (b # bs) seen earliest hs =
     (if creator (identity b) \<noteq> v then Inl WrongCreator
      else if \<not> hash_ok hash b then Inl InvalidHash
      else if \<not> scheme (content_hash (identity b)) (node_bytes v) (signature (identity b)) then Inl InvalidSignature
      else if cid b \<in> set seen then Inl DuplicateBlock
      else
        (case complete_history hash bl b of
           Inl e \<Rightarrow> Inl e
         | Inr (r, ancs) \<Rightarrow> check_blocks hash scheme bl v bs (cid b # seen) (min earliest r) (hs @ [ancs])))"

definition comparable_pair :: "block list \<Rightarrow> block_identity list list \<Rightarrow> nat \<Rightarrow> nat \<Rightarrow> bool" where
  "comparable_pair bs hs i j \<longleftrightarrow> cid (bs ! j) \<in> set (hs ! i) \<or> cid (bs ! i) \<in> set (hs ! j)"

text \<open>\<open>u64::MAX\<close>\<close>

definition u64_max :: nat where
  "u64_max = 2 ^ 64 - 1"

definition verify_equivocation_evidence ::
  "hasher \<Rightarrow> signature_scheme \<Rightarrow> equivocation_evidence \<Rightarrow> blocklace \<Rightarrow> evidence_error + verified_evidence" where
  "verify_equivocation_evidence hash scheme raw bl =
     (if length (ev_blocks raw) < 2 then Inl TooFewBlocks
      else
        (case check_blocks hash scheme bl (ev_validator raw) (ev_blocks raw) [] u64_max [] of
           Inl e \<Rightarrow> Inl e
         | Inr (earliest, hs) \<Rightarrow>
             if earliest \<noteq> ev_round raw then Inl WrongRound
             else if list_ex (\<lambda>i. list_ex (comparable_pair (ev_blocks raw) hs i) [i + 1..<length (ev_blocks raw)])
                       [0..<length (ev_blocks raw)]
             then Inl ComparableBlocks
             else Inr \<lparr>ver_validator = ev_validator raw, ver_round = earliest,
                       ver_blocks = sort_key identity (ev_blocks raw)\<rparr>))"

section \<open>What a complete history is\<close>

text \<open>
  The history of a block \<open>b\<close> over a store: the block itself stands for its own identity, every other
  identity is resolved in the store.  A round function assigns to each identity of the history the
  length of its longest path, which exists exactly when the history is complete and acyclic.
\<close>

definition history_block :: "blocklace \<Rightarrow> block \<Rightarrow> block_identity \<Rightarrow> block option" where
  "history_block bl b q = (if q = cid b then Some b else get_block bl q)"

definition history_edges :: "blocklace \<Rightarrow> block \<Rightarrow> (block_identity \<times> block_identity) set" where
  "history_edges bl b = {(q, p). \<exists>x. history_block bl b q = Some x \<and> p \<in> pred_ids x}"

definition strict_history :: "blocklace \<Rightarrow> block \<Rightarrow> block_identity set" where
  "strict_history bl b = (history_edges bl b)\<^sup>+ `` {cid b}"

definition longest :: "(block_identity \<Rightarrow> nat) \<Rightarrow> block_identity set \<Rightarrow> nat" where
  "longest rank P = (if P = {} then 0 else Suc (Max (rank ` P)))"

definition round_function :: "hasher \<Rightarrow> blocklace \<Rightarrow> block \<Rightarrow> (block_identity \<Rightarrow> nat) \<Rightarrow> bool" where
  "round_function hash bl b rank \<longleftrightarrow> (\<forall>q \<in> (history_edges bl b)\<^sup>* `` {cid b}. \<exists>x. history_block bl b q = Some x \<and>
     hash_ok hash x \<and> rank q = longest rank (pred_ids x) \<and> rank q < 2 ^ 64)"

lemma get_block_cid: "get_block bl i = Some x \<Longrightarrow> cid x = consensus_identity i"
  using resolve_SomeD(2) [OF get_block_Some(1)] .

lemma history_edgeI: "history_block bl b q = Some x \<Longrightarrow> p \<in> pred_ids x \<Longrightarrow> (q, p) \<in> history_edges bl b"
  by (auto simp: history_edges_def)

lemma fold_max_Max: "fold (\<lambda>x y. max y x) xs acc = Max (insert acc (set xs))" for acc :: nat
  using Max.set_eq_fold [of acc xs] by (simp add: max.commute)

lemma history_round_Inr_fold:
  "history_round rounds ps acc = Inr r \<longleftrightarrow>
    (\<forall>p \<in> set ps. \<exists>d. map_of rounds (consensus_identity p) = Some d \<and> Suc d < 2 ^ 64) \<and>
    r = fold (\<lambda>x y. max y x) (map (\<lambda>p. Suc (the (map_of rounds (consensus_identity p)))) ps) acc"
  by (induction rounds ps acc rule: history_round.induct)
    (auto simp: checked_add_def split: option.splits if_splits)

lemma history_round_Inr:
  "history_round rounds (predecessors (content x)) 0 = Inr r \<longleftrightarrow>
    (\<forall>p \<in> pred_ids x. \<exists>d. map_of rounds p = Some d \<and> Suc d < 2 ^ 64) \<and>
    r = longest (\<lambda>q. the (map_of rounds q)) (pred_ids x)"
proof -
  let ?f = "\<lambda>q. the (map_of rounds q)" and ?P = "set (predecessors (content x))"
  have "Max (insert 0 ((\<lambda>p. Suc (?f (consensus_identity p))) ` ?P)) = longest ?f (consensus_identity ` ?P)"
  proof (cases "?P = {}")
    case False
    have "(\<lambda>p. Suc (?f (consensus_identity p))) ` ?P = Suc ` ?f ` consensus_identity ` ?P" by (simp add: image_image)
    moreover have "Max (Suc ` ?f ` consensus_identity ` ?P) = Suc (Max (?f ` consensus_identity ` ?P))"
      using False by (subst mono_Max_commute) (auto simp: mono_def)
    ultimately show ?thesis using False by (simp add: longest_def)
  qed (simp add: longest_def)
  then show ?thesis by (auto simp: history_round_Inr_fold fold_max_Max)
qed

end
