(* ===== verification/Evidence_History.thy ===== *)
theory Evidence_History
  imports Verified_Evidence
begin

text \<open>
  The history walk of \<open>Verified_Evidence\<close> is correct: it succeeds exactly on a block whose history has a
  round function, and then returns the block's round and its strict history.
\<close>

section \<open>The invariant of the walk\<close>

lemma longest_bound: "finite P \<Longrightarrow> p \<in> P \<Longrightarrow> rank p < longest rank P"
  by (auto simp: longest_def less_Suc_eq_le)

lemma longest_attained: "finite P \<Longrightarrow> P \<noteq> {} \<Longrightarrow> \<exists>p \<in> P. longest rank P = Suc (rank p)"
  using Max_in [of "rank ` P"] by (fastforce simp: longest_def)

lemma longest_cong: "(\<And>p. p \<in> P \<Longrightarrow> f p = g p) \<Longrightarrow> longest f P = longest g P"
  by (simp add: longest_def cong: image_cong)

definition expanded_blocks :: "history_stack \<Rightarrow> block set" where
  "expanded_blocks stack = {x. (x, True) \<in> set stack}"

definition stack_ids :: "history_stack \<Rightarrow> block_identity set" where
  "stack_ids stack = cid ` fst ` set stack"

definition finished_ok :: "hasher \<Rightarrow> blocklace \<Rightarrow> block \<Rightarrow> history_rounds \<Rightarrow> bool" where
  "finished_ok hash bl b rounds \<longleftrightarrow> sorted_wrt (<) (map fst rounds) \<and>
     (\<forall>q d. map_of rounds q = Some d \<longrightarrow> (\<exists>x. history_block bl b q = Some x \<and> hash_ok hash x \<and>
        pred_ids x \<subseteq> dom (map_of rounds) \<and> d = longest (\<lambda>q. the (map_of rounds q)) (pred_ids x) \<and> d < 2 ^ 64))"

definition stack_ok :: "blocklace \<Rightarrow> block \<Rightarrow> history_stack \<Rightarrow> bool" where
  "stack_ok bl b stack \<longleftrightarrow> (\<forall>(x, e) \<in> set stack. x = b \<or> get_block bl (cid x) = Some x) \<and>
     (\<forall>x \<in> expanded_blocks stack. history_block bl b (cid x) = Some x)"

definition opened_ids :: "blocklace \<Rightarrow> block \<Rightarrow> history_stack \<Rightarrow> history_rounds \<Rightarrow> block_identity set" where
  "opened_ids bl b stack rounds = cid ` expanded_blocks stack \<union> dom (map_of rounds)"

definition walk_inv ::
  "hasher \<Rightarrow> blocklace \<Rightarrow> block \<Rightarrow> history_stack \<Rightarrow> history_rounds \<Rightarrow> block_identity list \<Rightarrow> block_identity list \<Rightarrow> bool" where
  "walk_inv hash bl b stack rounds visiting ancs \<longleftrightarrow>
     finished_ok hash bl b rounds \<and> stack_ok bl b stack \<and>
     dom (map_of rounds) \<union> stack_ids stack \<subseteq> (history_edges bl b)\<^sup>* `` {cid b} \<and>
     set ancs = history_edges bl b `` opened_ids bl b stack rounds \<and>
     cid b \<in> dom (map_of rounds) \<union> stack_ids stack \<and>
     (cid b \<in> set visiting \<union> dom (map_of rounds) \<or> stack = [(b, False)])"

lemma walk_invD:
  assumes "walk_inv hash bl b stack rounds visiting ancs"
  shows "finished_ok hash bl b rounds" "stack_ok bl b stack"
    "dom (map_of rounds) \<union> stack_ids stack \<subseteq> (history_edges bl b)\<^sup>* `` {cid b}"
    "set ancs = history_edges bl b `` opened_ids bl b stack rounds"
    "cid b \<in> dom (map_of rounds) \<union> stack_ids stack"
    "cid b \<in> set visiting \<union> dom (map_of rounds) \<or> stack = [(b, False)]"
  using assms by (simp_all only: walk_inv_def)

lemma stack_simps [simp]:
  "expanded_blocks [] = {}" "stack_ids [] = {}"
  "expanded_blocks ((x, e) # stack) = (if e then insert x (expanded_blocks stack) else expanded_blocks stack)"
  "stack_ids ((x, e) # stack) = insert (cid x) (stack_ids stack)"
  "expanded_blocks (s @ stack) = expanded_blocks s \<union> expanded_blocks stack"
  "stack_ids (s @ stack) = stack_ids s \<union> stack_ids stack"
  "expanded_blocks (rev s) = expanded_blocks s" "stack_ids (rev s) = stack_ids s"
  by (auto simp: expanded_blocks_def stack_ids_def)

lemma walk_inv_start: "walk_inv hash bl b [(b, False)] [] [] []"
  by (simp add: walk_inv_def finished_ok_def stack_ok_def opened_ids_def)

lemma dom_rounds: "dom (map_of rounds) = fst ` set rounds"
  by (simp add: dom_map_of_conv_image_fst)

lemma walk_inv_skip:
  assumes inv: "walk_inv hash bl b ((x, e) # stack) rounds visiting ancs" and i: "cid x \<in> dom (map_of rounds)"
  shows "walk_inv hash bl b stack rounds visiting ancs"
proof -
  note I = walk_invD [OF inv]
  have "opened_ids bl b ((x, e) # stack) rounds = opened_ids bl b stack rounds"
    using i by (auto simp: opened_ids_def)
  moreover have "stack_ok bl b stack" using I(2) by (auto simp: stack_ok_def split: if_splits)
  moreover have "cid b \<in> dom (map_of rounds) \<union> stack_ids stack" using I(5) i by auto
  moreover have "cid b \<in> set visiting \<union> dom (map_of rounds) \<or> stack = [(b, False)]"
    using I(6) i by auto
  ultimately show ?thesis using I(1,3,4) unfolding walk_inv_def by simp
qed

lemma finished_ok_insert:
  assumes ok: "finished_ok hash bl b rounds" and new: "i \<notin> dom (map_of rounds)"
    and x: "history_block bl b i = Some x" "hash_ok hash x"
    and r: "history_round rounds (predecessors (content x)) 0 = Inr r"
  shows "finished_ok hash bl b (bt_insert i r rounds)"
proof -
  have s: "sorted_wrt (<) (map fst rounds)" using ok by (simp add: finished_ok_def)
  note m = map_of_bt_insert [OF s, of i r]
  have keep: "longest (\<lambda>q. the (map_of (bt_insert i r rounds) q)) P = longest (\<lambda>q. the (map_of rounds q)) P"
    if "P \<subseteq> dom (map_of rounds)" for P
    using that new by (intro longest_cong) (auto simp: m)
  note R = r [unfolded history_round_Inr]
  have P: "pred_ids x \<subseteq> dom (map_of rounds)" using R by blast
  have small: "r < 2 ^ 64"
  proof (cases "pred_ids x = {}")
    case False
    then obtain p where "p \<in> pred_ids x" "r = Suc (the (map_of rounds p))"
      using longest_attained [of "pred_ids x" "\<lambda>q. the (map_of rounds q)"] R by auto
    moreover from this(1) obtain d where "map_of rounds p = Some d" "Suc d < 2 ^ 64" using R by blast
    ultimately show ?thesis by simp
  qed (use R in \<open>simp add: longest_def\<close>)
  show ?thesis unfolding finished_ok_def
  proof (intro conjI allI impI)
    show "sorted_wrt (<) (map fst (bt_insert i r rounds))" by (rule sorted_bt_insert [OF s])
    fix q d assume q: "map_of (bt_insert i r rounds) q = Some d"
    show "\<exists>x. history_block bl b q = Some x \<and> hash_ok hash x \<and> pred_ids x \<subseteq> dom (map_of (bt_insert i r rounds)) \<and>
      d = longest (\<lambda>q. the (map_of (bt_insert i r rounds) q)) (pred_ids x) \<and> d < 2 ^ 64"
    proof (cases "q = i")
      case True
      then have "d = r" using q by (simp add: m)
      moreover have "r = longest (\<lambda>q. the (map_of (bt_insert i r rounds) q)) (pred_ids x)"
        using R keep [OF P] by simp
      moreover have "pred_ids x \<subseteq> dom (map_of (bt_insert i r rounds))" using P by (auto simp: m)
      ultimately show ?thesis using x small True by blast
    next
      case False
      then have "map_of rounds q = Some d" using q by (simp add: m)
      then obtain y where y: "history_block bl b q = Some y" "hash_ok hash y" "pred_ids y \<subseteq> dom (map_of rounds)"
        "d = longest (\<lambda>q. the (map_of rounds q)) (pred_ids y)" "d < 2 ^ 64"
        using ok unfolding finished_ok_def by blast
      moreover have "pred_ids y \<subseteq> dom (map_of (bt_insert i r rounds))" using y(3) by (auto simp: m)
      ultimately show ?thesis using keep [OF y(3)] by metis
    qed
  qed
qed

lemma walk_inv_close:
  assumes inv: "walk_inv hash bl b ((x, True) # stack) rounds visiting ancs" and new: "cid x \<notin> dom (map_of rounds)"
    and h: "hash_ok hash x" and r: "history_round rounds (predecessors (content x)) 0 = Inr r"
  shows "walk_inv hash bl b stack (bt_insert (cid x) r rounds) (removeAll (cid x) visiting) ancs"
proof -
  note I = walk_invD [OF inv]
  have s: "sorted_wrt (<) (map fst rounds)" using I(1) by (simp add: finished_ok_def)
  have d: "dom (map_of (bt_insert (cid x) r rounds)) = insert (cid x) (dom (map_of rounds))"
    by (simp add: map_of_bt_insert [OF s])
  have x: "history_block bl b (cid x) = Some x" using I(2) by (simp add: stack_ok_def)
  have "opened_ids bl b ((x, True) # stack) rounds = opened_ids bl b stack (bt_insert (cid x) r rounds)"
    unfolding opened_ids_def d by auto
  moreover have "stack_ok bl b stack" using I(2) by (auto simp: stack_ok_def)
  moreover have "cid b \<in> set (removeAll (cid x) visiting) \<union> insert (cid x) (dom (map_of rounds)) \<or> stack = [(b, False)]"
    using I(6) by auto
  ultimately show ?thesis
    using I(3,4,5) finished_ok_insert [OF I(1) new x h r] unfolding walk_inv_def d by simp
qed

lemma walk_inv_fresh:
  assumes "walk_inv hash bl b ((x, False) # stack) rounds visiting ancs"
    and "cid x \<notin> dom (map_of rounds)" "cid x \<notin> set visiting"
  shows "history_block bl b (cid x) = Some x"
proof (cases "cid x = cid b")
  case True
  then show ?thesis using walk_invD(6) [OF assms(1)] assms(2,3) by (simp add: history_block_def)
next
  case False
  then show ?thesis using walk_invD(2) [OF assms(1)] by (auto simp: history_block_def stack_ok_def)
qed

lemma walk_inv_open:
  assumes inv: "walk_inv hash bl b ((x, False) # stack) rounds visiting ancs"
    and new: "cid x \<notin> dom (map_of rounds)" "cid x \<notin> set visiting"
    and push: "push_history bl (predecessors (content x)) ((x, True) # stack) ancs = Inr (stack', ancs')"
  shows "walk_inv hash bl b stack' rounds (List.insert (cid x) visiting) ancs'"
    and "\<exists>xs. stack' = map (\<lambda>a. (a, False)) xs @ (x, True) # stack \<and> cid ` set xs = pred_ids x"
proof -
  note I = walk_invD [OF inv]
  let ?xs = "rev (map (\<lambda>p. the (get_block bl (consensus_identity p))) (predecessors (content x)))"
  note P = push [unfolded push_history_Inr]
  have stack': "stack' = map (\<lambda>a. (a, False)) ?xs @ (x, True) # stack" using P by (simp add: rev_map)
  have got: "get_block bl (consensus_identity p) = Some (the (get_block bl (consensus_identity p)))"
    if "p \<in> set (predecessors (content x))" for p using P that by auto
  have xs_cid: "cid ` set ?xs = pred_ids x"
    using get_block_cid [OF got] by (auto simp: image_image)
  then show "\<exists>xs. stack' = map (\<lambda>a. (a, False)) xs @ (x, True) # stack \<and> cid ` set xs = pred_ids x"
    using stack' by blast
  note x = walk_inv_fresh [OF inv new]
  have e: "expanded_blocks (map (\<lambda>a. (a, False)) ?xs) = {}" "stack_ids (map (\<lambda>a. (a, False)) ?xs) = pred_ids x"
    using xs_cid by (auto simp: expanded_blocks_def stack_ids_def image_image)
  have ancs': "set ancs' = set ancs \<union> pred_ids x"
  proof -
    have "set (fold List.insert ps acc) = set ps \<union> set acc" for ps and acc :: "block_identity list"
      by (induction ps arbitrary: acc) auto
    then show ?thesis using P by auto
  qed
  have ed: "history_edges bl b `` {cid x} = pred_ids x" using x by (auto simp: history_edges_def)
  have "set ancs' = history_edges bl b `` opened_ids bl b stack' rounds"
    using I(4) e ed unfolding ancs' stack' opened_ids_def by auto
  moreover have "dom (map_of rounds) \<union> stack_ids stack' \<subseteq> (history_edges bl b)\<^sup>* `` {cid b}"
  proof -
    have "cid x \<in> (history_edges bl b)\<^sup>* `` {cid b}" using I(3) by simp
    then have "pred_ids x \<subseteq> (history_edges bl b)\<^sup>* `` {cid b}"
      using history_edgeI [OF x] by (auto intro: rtrancl_into_rtrancl)
    then show ?thesis using I(3) e unfolding stack' by auto
  qed
  moreover have "stack_ok bl b stack'"
  proof -
    have "get_block bl (cid a) = Some a" if "a \<in> set ?xs" for a
      using that got get_block_cid by fastforce
    then show ?thesis using I(2) x e unfolding stack' stack_ok_def by auto
  qed
  moreover have "cid b \<in> dom (map_of rounds) \<union> stack_ids stack'" using I(5) unfolding stack' by auto
  moreover have "cid b \<in> set (List.insert (cid x) visiting) \<union> dom (map_of rounds)" using I(6) by auto
  ultimately show "walk_inv hash bl b stack' rounds (List.insert (cid x) visiting) ancs'"
    using I(1) unfolding walk_inv_def by blast
qed

section \<open>Soundness\<close>

lemma history_loop_inv:
  assumes "walk_inv hash bl b stack rounds visiting ancs"
    and "history_loop hash bl stack rounds visiting ancs = Inr (rounds', ancs')"
  shows "\<exists>visiting'. walk_inv hash bl b [] rounds' visiting' ancs'"
  using assms
proof (induction hash bl stack rounds visiting ancs rule: history_loop.induct)
  case (1 hash bl rounds visiting ancs)
  then show ?case by (auto simp: history_loop.simps)
next
  case (2 hash bl x e stack rounds visiting ancs)
  note run = "2.prems"(2) [unfolded history_loop.simps Let_def]
  note IH = "2.IH" [OF refl]
  consider (skip) "cid x \<in> set (map fst rounds)"
    | (close) r where "cid x \<notin> set (map fst rounds)" "hash_ok hash x" "e" "history_round rounds (predecessors (content x)) 0 = Inr r"
    | (fresh) stack' ancs' where "cid x \<notin> set (map fst rounds)" "hash_ok hash x" "\<not> e" "cid x \<notin> set visiting"
        "push_history bl (predecessors (content x)) ((x, True) # stack) ancs = Inr (stack', ancs')"
    using run by (auto split: if_splits sum.splits prod.splits)
  then show ?case
  proof cases
    case skip
    then show ?thesis
      using IH(1) walk_inv_skip [OF "2.prems"(1)] run by (simp add: dom_rounds)
  next
    case close
    have "walk_inv hash bl b stack (bt_insert (cid x) r rounds) (removeAll (cid x) visiting) ancs"
      using walk_inv_close "2.prems"(1) close by (simp add: dom_rounds)
    then show ?thesis using IH(2) [OF close(1) _ close(3,4)] close run by simp
  next
    case fresh
    have "walk_inv hash bl b stack' rounds (List.insert (cid x) visiting) ancs'"
      using walk_inv_open(1) [of hash bl b x stack rounds visiting ancs] "2.prems"(1) fresh by (simp add: dom_rounds)
    then show ?thesis using IH(3) [OF fresh(1) _ fresh(3,4,5) refl] fresh run by simp
  qed
qed

lemma closed_domain:
  assumes "s \<in> D" "E `` D \<subseteq> D" "D \<subseteq> E\<^sup>* `` {s}"
  shows "D = E\<^sup>* `` {s}" "E `` D = E\<^sup>+ `` {s}"
proof -
  have "E\<^sup>* `` D \<subseteq> D" using assms(2) by (simp add: Image_closed_trancl)
  then show D: "D = E\<^sup>* `` {s}" using assms(1,3) by blast
  show "E `` D = E\<^sup>+ `` {s}" unfolding D trancl_unfold_right relcomp_Image ..
qed

lemma complete_history_sound:
  assumes "complete_history hash bl b = Inr (r, ancs)"
  shows "\<exists>rank. round_function hash bl b rank \<and> rank (cid b) = r \<and> set ancs = strict_history bl b"
proof -
  obtain rounds where run: "history_loop hash bl [(b, False)] [] [] [] = Inr (rounds, ancs)"
    and r: "r = the (map_of rounds (cid b))"
    using assms by (auto simp: complete_history_def split: sum.splits)
  obtain visiting where inv: "walk_inv hash bl b [] rounds visiting ancs"
    using history_loop_inv [OF walk_inv_start run] by blast
  note I = walk_invD [OF inv]
  let ?rank = "\<lambda>q. the (map_of rounds q)" and ?D = "dom (map_of rounds)" and ?E = "history_edges bl b"
  have fin: "\<exists>x. history_block bl b q = Some x \<and> hash_ok hash x \<and> pred_ids x \<subseteq> ?D \<and> ?rank q = longest ?rank (pred_ids x) \<and>
      ?rank q < 2 ^ 64" if "q \<in> ?D" for q
    using that I(1) unfolding finished_ok_def by fastforce
  have closed: "?E `` ?D \<subseteq> ?D"
  proof
    fix p assume "p \<in> ?E `` ?D"
    then obtain q x where "q \<in> ?D" "history_block bl b q = Some x" "p \<in> pred_ids x" by (auto simp: history_edges_def)
    then show "p \<in> ?D" using fin [of q] by fastforce
  qed
  have s: "cid b \<in> ?D" using I(5) by simp
  have sub: "?D \<subseteq> ?E\<^sup>* `` {cid b}" using I(3) by simp
  note cd = closed_domain [OF s closed sub]
  have "round_function hash bl b ?rank"
    unfolding round_function_def cd(1) [symmetric] using fin by blast
  moreover have "set ancs = strict_history bl b"
    using I(4) cd(2) by (simp add: opened_ids_def strict_history_def)
  ultimately show ?thesis using r by blast
qed

section \<open>Completeness\<close>

text \<open>Under an expanded entry, every predecessor is finished or above it on the stack.\<close>

fun covered :: "block_identity set \<Rightarrow> history_stack \<Rightarrow> bool" where
  "covered D [] = True"
| "covered D ((x, e) # stack) \<longleftrightarrow> (e \<longrightarrow> pred_ids x \<subseteq> D) \<and> covered (insert (cid x) D) stack"

lemma covered_mono: "covered D stack \<Longrightarrow> D \<subseteq> D' \<Longrightarrow> covered D' stack"
proof (induction D stack arbitrary: D' rule: covered.induct)
  case (2 D x e stack)
  then show ?case using insert_mono [of D D' "cid x"] by auto
qed simp

lemma covered_push: "covered D (map (\<lambda>a. (a, False)) xs @ stack) = covered (D \<union> cid ` set xs) stack"
  by (induction xs arbitrary: D) simp_all

definition descends :: "blocklace \<Rightarrow> block \<Rightarrow> history_stack \<Rightarrow> bool" where
  "descends bl b stack \<longleftrightarrow>
     sorted_wrt (\<lambda>(x, e) (y, f). f \<longrightarrow> (cid y, cid x) \<in> (history_edges bl b)\<^sup>+) stack"

lemma round_function_edge:
  assumes rf: "round_function hash bl b rank"
  shows "q \<in> (history_edges bl b)\<^sup>* `` {cid b} \<Longrightarrow> (q, p) \<in> history_edges bl b \<Longrightarrow> rank p < rank q"
proof -
  assume "q \<in> (history_edges bl b)\<^sup>* `` {cid b}" "(q, p) \<in> history_edges bl b"
  then obtain x where x: "history_block bl b q = Some x" "p \<in> pred_ids x" "rank q = longest rank (pred_ids x)"
    using rf unfolding round_function_def history_edges_def by fastforce
  show "rank p < rank q" unfolding x(3) by (rule longest_bound [OF _ x(2)]) simp
qed

lemma round_function_trancl:
  assumes rf: "round_function hash bl b rank"
  shows "(q, p) \<in> (history_edges bl b)\<^sup>+ \<Longrightarrow> q \<in> (history_edges bl b)\<^sup>* `` {cid b} \<Longrightarrow> rank p < rank q"
proof (induction rule: trancl_induct)
  case (base y)
  then show ?case by (intro round_function_edge [OF rf])
next
  case (step y z)
  then have "y \<in> (history_edges bl b)\<^sup>* `` {cid b}" by (auto dest: trancl_into_rtrancl)
  then have "rank z < rank y" using step(2) by (intro round_function_edge [OF rf])
  then show ?case using step by simp
qed

lemma finished_rank:
  assumes rf: "round_function hash bl b rank" and ok: "finished_ok hash bl b rounds"
    and sub: "dom (map_of rounds) \<subseteq> (history_edges bl b)\<^sup>* `` {cid b}"
  shows "map_of rounds q = Some d \<Longrightarrow> d = rank q"
proof (induction d arbitrary: q rule: less_induct)
  case (less d)
  obtain x where x: "history_block bl b q = Some x" "pred_ids x \<subseteq> dom (map_of rounds)"
    "d = longest (\<lambda>q. the (map_of rounds q)) (pred_ids x)"
    using ok less.prems unfolding finished_ok_def by blast
  have q: "q \<in> (history_edges bl b)\<^sup>* `` {cid b}" using sub less.prems by blast
  have "the (map_of rounds p) = rank p" if p: "p \<in> pred_ids x" for p
  proof -
    obtain c where c: "map_of rounds p = Some c" using x(2) p by blast
    have "c < d" using longest_bound [OF _ p, of "\<lambda>q. the (map_of rounds q)"] c x(3) by simp
    then show ?thesis using less.IH c by simp
  qed
  then have "d = longest rank (pred_ids x)" using x(3) longest_cong by metis
  moreover obtain y where "history_block bl b q = Some y" "rank q = longest rank (pred_ids y)"
    using rf q unfolding round_function_def by blast
  ultimately show ?case using x(1) by simp
qed

lemma descends_push:
  assumes "descends bl b ((x, e) # stack)" "history_block bl b (cid x) = Some x" "cid ` set xs = pred_ids x"
  shows "descends bl b (map (\<lambda>a. (a, False)) xs @ (x, True) # stack)"
proof -
  let ?E = "history_edges bl b"
  have below: "(cid y, cid x) \<in> ?E\<^sup>+" if "(y, True) \<in> set stack" for y
    using assms(1) that by (auto simp: descends_def)
  have new: "(cid x, cid a) \<in> ?E" if "a \<in> set xs" for a
    using history_edgeI [OF assms(2)] assms(3) that by blast
  have "(cid y, cid a) \<in> ?E\<^sup>+" if "a \<in> set xs" "(y, True) \<in> set stack" for a y
    using trancl_into_trancl [OF below [OF that(2)] new [OF that(1)]] .
  then show ?thesis
    using assms(1) new by (auto simp: descends_def sorted_wrt_append sorted_wrt_map)
qed

text \<open>An entry below which its own identity is open would close a cycle.\<close>

lemma descends_unvisited:
  assumes rf: "round_function hash bl b rank" and inv: "walk_inv hash bl b ((x, False) # stack) rounds visiting ancs"
    and desc: "descends bl b ((x, False) # stack)" and vis: "set visiting \<subseteq> cid ` expanded_blocks stack"
  shows "cid x \<notin> set visiting"
proof
  assume "cid x \<in> set visiting"
  then obtain y where "(y, True) \<in> set stack" "cid y = cid x" using vis by (auto simp: expanded_blocks_def)
  then have "(cid x, cid x) \<in> (history_edges bl b)\<^sup>+" using desc by (fastforce simp: descends_def)
  moreover have "cid x \<in> (history_edges bl b)\<^sup>* `` {cid b}" using walk_invD(3) [OF inv] by simp
  ultimately show False using round_function_trancl [OF rf] by blast
qed

lemma round_functionD:
  assumes "round_function hash bl b rank" "q \<in> (history_edges bl b)\<^sup>* `` {cid b}" "history_block bl b q = Some x"
  shows "hash_ok hash x" "rank q < 2 ^ 64"
proof -
  obtain y where "history_block bl b q = Some y" "hash_ok hash y" "rank q < 2 ^ 64"
    using assms(1,2) unfolding round_function_def by blast
  then show "hash_ok hash x" "rank q < 2 ^ 64" using assms(3) by simp_all
qed

lemma round_ready:
  assumes rf: "round_function hash bl b rank" and ok: "finished_ok hash bl b rounds"
    and sub: "dom (map_of rounds) \<subseteq> (history_edges bl b)\<^sup>* `` {cid b}"
    and q: "q \<in> (history_edges bl b)\<^sup>* `` {cid b}" "history_block bl b q = Some x"
    and P: "pred_ids x \<subseteq> dom (map_of rounds)"
  shows "\<exists>r. history_round rounds (predecessors (content x)) 0 = Inr r"
proof -
  have "\<exists>d. map_of rounds p = Some d \<and> Suc d < 2 ^ 64" if p: "p \<in> pred_ids x" for p
  proof -
    obtain d where d: "map_of rounds p = Some d" using P p by auto
    have "d = rank p" using finished_rank [OF rf ok sub d] .
    then show ?thesis
      using round_function_edge [OF rf q(1) history_edgeI [OF q(2) p]] round_functionD(2) [OF rf q] d by simp
  qed
  then show ?thesis by (simp add: history_round_Inr)
qed

lemma push_ready:
  assumes rf: "round_function hash bl b rank"
    and q: "q \<in> (history_edges bl b)\<^sup>* `` {cid b}" "history_block bl b q = Some x"
  shows "\<exists>stack' ancs'. push_history bl (predecessors (content x)) stack ancs = Inr (stack', ancs')"
proof -
  let ?E = "history_edges bl b"
  have "get_block bl (consensus_identity p) \<noteq> None" if "p \<in> set (predecessors (content x))" for p
  proof -
    have p: "(q, consensus_identity p) \<in> ?E" using history_edgeI [OF q(2)] that by blast
    then have "(cid b, consensus_identity p) \<in> ?E\<^sup>+" using q(1) by (auto intro: rtrancl_into_trancl1)
    moreover from this have "rank (consensus_identity p) < rank (cid b)"
      by (rule round_function_trancl [OF rf]) blast
    ultimately have "consensus_identity p \<noteq> cid b" "consensus_identity p \<in> ?E\<^sup>* `` {cid b}"
      by (auto dest: trancl_into_rtrancl)
    moreover from this(2) obtain y where "history_block bl b (consensus_identity p) = Some y"
      using rf unfolding round_function_def by blast
    ultimately show ?thesis by (simp add: history_block_def)
  qed
  then show ?thesis using push_history_Inr by blast
qed

lemma history_loop_total:
  assumes "round_function hash bl b rank" "walk_inv hash bl b stack rounds visiting ancs"
    and "covered (dom (map_of rounds)) stack" "descends bl b stack"
    and "set visiting \<subseteq> cid ` expanded_blocks stack" "set visiting \<inter> dom (map_of rounds) = {}"
  shows "\<exists>res. history_loop hash bl stack rounds visiting ancs = Inr res"
  using assms
proof (induction hash bl stack rounds visiting ancs rule: history_loop.induct)
  case (1 hash bl rounds visiting ancs)
  then show ?case by (auto simp: history_loop.simps)
next
  case (2 hash bl x e stack rounds visiting ancs)
  note IH = "2.IH" [OF refl]
  note rf = "2.prems"(1) and inv = "2.prems"(2) and cov = "2.prems"(3) and desc = "2.prems"(4) and vis = "2.prems"(5,6)
  note I = walk_invD [OF inv]
  let ?E = "history_edges bl b" and ?D = "dom (map_of rounds)"
  have s: "sorted_wrt (<) (map fst rounds)" using I(1) by (simp add: finished_ok_def)
  have cx: "cid x \<in> ?E\<^sup>* `` {cid b}" using I(3) by simp
  have desc': "descends bl b stack" using desc by (simp add: descends_def)
  show ?case
  proof (cases "cid x \<in> set (map fst rounds)")
    case True
    then have "cid x \<in> ?D" by (simp add: dom_rounds)
    then have "set visiting \<subseteq> cid ` expanded_blocks stack" using vis by (auto split: if_splits)
    moreover have "covered ?D stack" using cov \<open>cid x \<in> ?D\<close> by (simp add: insert_absorb)
    ultimately have "\<exists>res. history_loop hash bl stack rounds visiting ancs = Inr res"
      using IH(1) True rf walk_inv_skip [OF inv \<open>cid x \<in> ?D\<close>] desc' vis(2) by blast
    then show ?thesis using True by (simp add: history_loop.simps)
  next
    case False
    then have new: "cid x \<notin> ?D" by (simp add: dom_rounds)
    have unvisited: "cid x \<notin> set visiting" if "\<not> e"
      using descends_unvisited [OF rf] inv desc vis(1) that by simp
    have x: "history_block bl b (cid x) = Some x"
      using walk_inv_fresh inv new unvisited I(2) by (cases e) (auto simp: stack_ok_def)
    note good = round_functionD [OF rf cx x]
    show ?thesis
    proof (cases e)
      case True
      obtain r where r: "history_round rounds (predecessors (content x)) 0 = Inr r"
        using round_ready [OF rf I(1) _ cx x] cov True I(3) by auto
      have d: "dom (map_of (bt_insert (cid x) r rounds)) = insert (cid x) ?D" by (simp add: map_of_bt_insert [OF s])
      have "\<exists>res. history_loop hash bl stack (bt_insert (cid x) r rounds) (removeAll (cid x) visiting) ancs = Inr res"
      proof (rule IH(2) [OF False _ True r rf])
        show "walk_inv hash bl b stack (bt_insert (cid x) r rounds) (removeAll (cid x) visiting) ancs"
          using walk_inv_close [OF _ new good(1) r] inv True by simp
        show "set (removeAll (cid x) visiting) \<subseteq> cid ` expanded_blocks stack" using vis(1) by (auto split: if_splits)
        show "set (removeAll (cid x) visiting) \<inter> dom (map_of (bt_insert (cid x) r rounds)) = {}" using vis(2) d by auto
      qed (use cov d desc' good in auto)
      then show ?thesis using False good r True by (simp add: history_loop.simps Let_def)
    next
      case closed: False
      obtain stack' ancs' where push: "push_history bl (predecessors (content x)) ((x, True) # stack) ancs = Inr (stack', ancs')"
        using push_ready [OF rf cx x] by blast
      have inv': "walk_inv hash bl b ((x, False) # stack) rounds visiting ancs" using inv closed by simp
      note opened = walk_inv_open [OF inv' new unvisited [OF closed] push]
      obtain xs where xs: "stack' = map (\<lambda>a. (a, False)) xs @ (x, True) # stack" "cid ` set xs = pred_ids x"
        using opened(2) by blast
      have ex: "expanded_blocks stack' = insert x (expanded_blocks stack)"
        unfolding xs(1) by (auto simp: expanded_blocks_def)
      have "\<exists>res. history_loop hash bl stack' rounds (List.insert (cid x) visiting) ancs' = Inr res"
      proof (rule IH(3) [OF False _ closed unvisited [OF closed] push refl rf opened(1)])
        have "covered (insert (cid x) ?D) stack" using cov by simp
        then show "covered ?D stack'" unfolding xs(1) covered_push xs(2) by (auto intro: covered_mono)
        show "descends bl b stack'" unfolding xs(1) by (rule descends_push [OF desc x xs(2)])
        show "set (List.insert (cid x) visiting) \<subseteq> cid ` expanded_blocks stack'" using vis(1) closed unfolding ex by auto
        show "set (List.insert (cid x) visiting) \<inter> ?D = {}" using vis(2) new by auto
      qed (use good in simp)
      then show ?thesis using False good push closed unvisited by (simp add: history_loop.simps Let_def)
    qed
  qed
qed

lemma complete_history_complete:
  assumes "round_function hash bl b rank"
  shows "\<exists>ancs. complete_history hash bl b = Inr (rank (cid b), ancs) \<and> set ancs = strict_history bl b"
proof -
  have "\<exists>res. history_loop hash bl [(b, False)] [] [] [] = Inr res"
    by (rule history_loop_total [OF assms walk_inv_start]) (simp_all add: descends_def)
  then obtain rounds ancs where run: "history_loop hash bl [(b, False)] [] [] [] = Inr (rounds, ancs)" by auto
  then have ch: "complete_history hash bl b = Inr (the (map_of rounds (cid b)), ancs)"
    by (simp add: complete_history_def)
  obtain visiting where inv: "walk_inv hash bl b [] rounds visiting ancs"
    using history_loop_inv [OF walk_inv_start run] by blast
  note I = walk_invD [OF inv]
  obtain d where d: "map_of rounds (cid b) = Some d" using I(5) by auto
  have "d = rank (cid b)" using finished_rank [OF assms I(1) _ d] I(3) by blast
  then show ?thesis using ch d complete_history_sound [OF ch] by auto
qed

section \<open>The verified claim\<close>

text \<open>
  A genuine equivocation over a store: at least two blocks of the validator with good hashes and
  signatures, of distinct consensus identities, each with a complete history, none in the history of
  another, the earliest round being the claimed one.
\<close>

definition genuine_equivocation :: "hasher \<Rightarrow> signature_scheme \<Rightarrow> equivocation_evidence \<Rightarrow> blocklace \<Rightarrow> bool" where
  "genuine_equivocation hash scheme raw bl \<longleftrightarrow> 2 \<le> length (ev_blocks raw) \<and>
     (\<forall>b \<in> set (ev_blocks raw). creator (identity b) = ev_validator raw \<and> hash_ok hash b \<and>
        scheme (content_hash (identity b)) (node_bytes (ev_validator raw)) (signature (identity b))) \<and>
     distinct (map cid (ev_blocks raw)) \<and>
     (\<exists>rank. (\<forall>b \<in> set (ev_blocks raw). round_function hash bl b (rank b)) \<and>
        ev_round raw = Min ((\<lambda>b. rank b (cid b)) ` set (ev_blocks raw))) \<and>
     (\<forall>a \<in> set (ev_blocks raw). \<forall>b \<in> set (ev_blocks raw). cid a \<notin> strict_history bl b)"

lemma check_blocks_Inr:
  "check_blocks hash scheme bl v bs seen earliest hs = Inr (earliest', hs') \<longleftrightarrow>
   (\<forall>b \<in> set bs. creator (identity b) = v \<and> hash_ok hash b \<and>
      scheme (content_hash (identity b)) (node_bytes v) (signature (identity b))) \<and>
   distinct (map cid bs) \<and> set (map cid bs) \<inter> set seen = {} \<and>
   (\<forall>b \<in> set bs. isl (complete_history hash bl b) = False) \<and>
   hs' = hs @ map (snd \<circ> projr \<circ> complete_history hash bl) bs \<and>
   earliest' = fold (\<lambda>r m. min m r) (map (fst \<circ> projr \<circ> complete_history hash bl) bs) earliest"
proof (induction bs arbitrary: seen earliest hs)
  case (Cons b bs)
  show ?case
  proof (cases "complete_history hash bl b")
    case (Inr res)
    obtain r ancs where res: "res = (r, ancs)" by fastforce
    let ?ok = "creator (identity b) = v \<and> hash_ok hash b \<and>
      scheme (content_hash (identity b)) (node_bytes v) (signature (identity b)) \<and> cid b \<notin> set seen"
    have "check_blocks hash scheme bl v (b # bs) seen earliest hs = Inr (earliest', hs') \<longleftrightarrow>
        ?ok \<and> check_blocks hash scheme bl v bs (cid b # seen) (min earliest r) (hs @ [ancs]) = Inr (earliest', hs')"
      using Inr by (auto simp: res)
    also have "\<dots> \<longleftrightarrow> ?ok \<and> (\<forall>b \<in> set bs. creator (identity b) = v \<and> hash_ok hash b \<and>
        scheme (content_hash (identity b)) (node_bytes v) (signature (identity b))) \<and>
      distinct (map cid bs) \<and> set (map cid bs) \<inter> set (cid b # seen) = {} \<and>
      (\<forall>b \<in> set bs. isl (complete_history hash bl b) = False) \<and>
      hs' = (hs @ [ancs]) @ map (snd \<circ> projr \<circ> complete_history hash bl) bs \<and>
      earliest' = fold (\<lambda>r m. min m r) (map (fst \<circ> projr \<circ> complete_history hash bl) bs) (min earliest r)"
      unfolding Cons.IH ..
    finally show ?thesis unfolding list.set list.map distinct.simps fold_simps
      using Inr by (auto simp: res)
  qed auto
qed auto

lemma strict_history_irrefl:
  assumes "round_function hash bl b rank"
  shows "cid b \<notin> strict_history bl b"
  using round_function_trancl [OF assms, of "cid b" "cid b"] by (auto simp: strict_history_def)

lemma fold_min_Min: "fold (\<lambda>x y. min y x) xs acc = Min (insert acc (set xs))" for acc :: nat
  using Min.set_eq_fold [of acc xs] by (simp add: min.commute)

lemma no_comparable_iff:
  assumes "length hs = length bs"
  shows "\<not> list_ex (\<lambda>i. list_ex (comparable_pair bs hs i) [i + 1..<length bs]) [0..<length bs] \<longleftrightarrow>
    (\<forall>i < length bs. \<forall>j < length bs. i \<noteq> j \<longrightarrow> cid (bs ! j) \<notin> set (hs ! i))"
proof -
  have "\<not> list_ex (\<lambda>i. list_ex (comparable_pair bs hs i) [i + 1..<length bs]) [0..<length bs] \<longleftrightarrow>
    (\<forall>i j. i < j \<longrightarrow> j < length bs \<longrightarrow> \<not> comparable_pair bs hs i j)"
    by (auto simp: list_ex_iff Ball_def)
  also have "\<dots> \<longleftrightarrow> (\<forall>i < length bs. \<forall>j < length bs. i \<noteq> j \<longrightarrow> cid (bs ! j) \<notin> set (hs ! i))"
  proof (intro iffI allI impI)
    fix i j assume free: "\<forall>i j. i < j \<longrightarrow> j < length bs \<longrightarrow> \<not> comparable_pair bs hs i j"
      and ij: "i < length bs" "j < length bs" "i \<noteq> j"
    show "cid (bs ! j) \<notin> set (hs ! i)"
    proof (cases "i < j")
      case True
      then show ?thesis using free [rule_format, of i j] ij(2) unfolding comparable_pair_def by simp
    next
      case False
      then have "j < i" using ij(3) by simp
      then show ?thesis using free [rule_format, of j i] ij(1) unfolding comparable_pair_def by simp
    qed
  next
    fix i j assume "\<forall>i < length bs. \<forall>j < length bs. i \<noteq> j \<longrightarrow> cid (bs ! j) \<notin> set (hs ! i)" "i < j" "j < length bs"
    then show "\<not> comparable_pair bs hs i j" unfolding comparable_pair_def by simp
  qed
  finally show ?thesis .
qed

lemma history_pairs:
  assumes rf: "\<forall>b \<in> set bs. round_function hash bl b (rank b)" and dist: "distinct (map cid bs)"
    and hs: "hs = map (snd \<circ> projr \<circ> complete_history hash bl) bs"
  shows "(\<forall>i < length bs. \<forall>j < length bs. i \<noteq> j \<longrightarrow> cid (bs ! j) \<notin> set (hs ! i)) \<longleftrightarrow>
    (\<forall>a \<in> set bs. \<forall>b \<in> set bs. cid a \<notin> strict_history bl b)"
proof -
  have h: "set (hs ! i) = strict_history bl (bs ! i)" if "i < length bs" for i
  proof -
    have "round_function hash bl (bs ! i) (rank (bs ! i))" using rf that by simp
    from complete_history_complete [OF this] obtain ancs where
      "complete_history hash bl (bs ! i) = Inr (rank (bs ! i) (cid (bs ! i)), ancs)" "set ancs = strict_history bl (bs ! i)"
      by blast
    then show ?thesis unfolding hs using that by simp
  qed
  have self: "cid (bs ! i) \<notin> strict_history bl (bs ! i)" if "i < length bs" for i
    using strict_history_irrefl rf that nth_mem by blast
  show ?thesis
  proof
    assume free: "\<forall>i < length bs. \<forall>j < length bs. i \<noteq> j \<longrightarrow> cid (bs ! j) \<notin> set (hs ! i)"
    show "\<forall>a \<in> set bs. \<forall>b \<in> set bs. cid a \<notin> strict_history bl b"
    proof (intro ballI)
      fix a b assume "a \<in> set bs" "b \<in> set bs"
      then obtain i j where "i < length bs" "j < length bs" "bs ! i = b" "bs ! j = a" by (auto simp: in_set_conv_nth)
      then show "cid a \<notin> strict_history bl b" using free h self by (cases "i = j") blast+
    qed
  next
    assume "\<forall>a \<in> set bs. \<forall>b \<in> set bs. cid a \<notin> strict_history bl b"
    then show "\<forall>i < length bs. \<forall>j < length bs. i \<noteq> j \<longrightarrow> cid (bs ! j) \<notin> set (hs ! i)" using h by simp
  qed
qed

lemma history_ranks:
  "(\<forall>b \<in> set bs. isl (complete_history hash bl b) = False) \<longleftrightarrow>
   (\<exists>rank. \<forall>b \<in> set bs. round_function hash bl b (rank b))"
proof
  assume ok: "\<forall>b \<in> set bs. isl (complete_history hash bl b) = False"
  have "\<exists>rank. round_function hash bl b rank" if "b \<in> set bs" for b
    using ok that complete_history_sound [of hash bl b] by (cases "complete_history hash bl b") fastforce+
  then show "\<exists>rank. \<forall>b \<in> set bs. round_function hash bl b (rank b)" by (intro bchoice) blast
next
  assume "\<exists>rank. \<forall>b \<in> set bs. round_function hash bl b (rank b)"
  then show "\<forall>b \<in> set bs. isl (complete_history hash bl b) = False"
    using complete_history_complete by fastforce
qed

lemma earliest_round:
  assumes rf: "\<forall>b \<in> set bs. round_function hash bl b (rank b)" and ne: "bs \<noteq> []"
  shows "fold (\<lambda>r m. min m r) (map (fst \<circ> projr \<circ> complete_history hash bl) bs) u64_max =
    Min ((\<lambda>b. rank b (cid b)) ` set bs)"
proof -
  have r: "(fst \<circ> projr \<circ> complete_history hash bl) ` set bs = (\<lambda>b. rank b (cid b)) ` set bs"
  proof (intro image_cong refl)
    fix b assume "b \<in> set bs"
    with rf complete_history_complete [of hash bl b "rank b"]
    show "(fst \<circ> projr \<circ> complete_history hash bl) b = rank b (cid b)" by auto
  qed
  obtain b where b: "b \<in> set bs" using ne by (cases bs) auto
  have "rank b (cid b) < 2 ^ 64"
    by (rule round_functionD(2) [of hash bl b]) (use rf b in \<open>auto simp: history_block_def\<close>)
  moreover have "Min ((\<lambda>b. rank b (cid b)) ` set bs) \<le> rank b (cid b)" using b by simp
  ultimately have "min u64_max (Min ((\<lambda>b. rank b (cid b)) ` set bs)) = Min ((\<lambda>b. rank b (cid b)) ` set bs)"
    by (simp add: u64_max_def)
  then show ?thesis unfolding fold_min_Min set_map r using b by (subst Min_insert) auto
qed

lemma verify_Inr:
  fixes raw hash bl
  defines "bs \<equiv> ev_blocks raw" and "h \<equiv> complete_history hash bl"
  defines "hs \<equiv> map (snd \<circ> projr \<circ> h) bs" and "r \<equiv> fold (\<lambda>r m. min m r) (map (fst \<circ> projr \<circ> h) bs) u64_max"
  shows "verify_equivocation_evidence hash scheme raw bl = Inr v \<longleftrightarrow> 2 \<le> length bs \<and>
      (\<forall>b \<in> set bs. creator (identity b) = ev_validator raw \<and> hash_ok hash b \<and>
      scheme (content_hash (identity b)) (node_bytes (ev_validator raw)) (signature (identity b))) \<and> distinct (map cid bs) \<and>
      (\<forall>b \<in> set bs. isl (h b) = False) \<and> ev_round raw = r \<and>
      (\<forall>i < length bs. \<forall>j < length bs. i \<noteq> j \<longrightarrow> cid (bs ! j) \<notin> set (hs ! i)) \<and>
      v = \<lparr>ver_validator = ev_validator raw, ver_round = ev_round raw, ver_blocks = sort_key identity bs\<rparr>"
  unfolding hs_def r_def bs_def h_def
proof -
  let ?bs = "ev_blocks raw" and ?h = "complete_history hash bl"
  let ?hs = "map (snd \<circ> projr \<circ> ?h) ?bs" and ?r = "fold (\<lambda>r m. min m r) (map (fst \<circ> projr \<circ> ?h) ?bs) u64_max"
  let ?own = "\<forall>b \<in> set ?bs. creator (identity b) = ev_validator raw \<and> hash_ok hash b \<and>
      scheme (content_hash (identity b)) (node_bytes (ev_validator raw)) (signature (identity b))"
  let ?free = "\<forall>i < length ?bs. \<forall>j < length ?bs. i \<noteq> j \<longrightarrow> cid (?bs ! j) \<notin> set (?hs ! i)"
  show "verify_equivocation_evidence hash scheme raw bl = Inr v \<longleftrightarrow> 2 \<le> length ?bs \<and> ?own \<and> distinct (map cid ?bs) \<and>
      (\<forall>b \<in> set ?bs. isl (?h b) = False) \<and> ev_round raw = ?r \<and> ?free \<and>
      v = \<lparr>ver_validator = ev_validator raw, ver_round = ev_round raw, ver_blocks = sort_key identity ?bs\<rparr>"
  proof (cases "check_blocks hash scheme bl (ev_validator raw) ?bs [] u64_max []")
    case (Inl e)
    then have "\<not> (?own \<and> distinct (map cid ?bs) \<and> (\<forall>b \<in> set ?bs. isl (?h b) = False))"
      using check_blocks_Inr [of hash scheme bl "ev_validator raw" ?bs "[]" u64_max "[]" ?r ?hs] by auto
    then show ?thesis using Inl by (auto simp: verify_equivocation_evidence_def)
  next
    case (Inr res)
    obtain earliest hs where res: "res = (earliest, hs)" by fastforce
    note c = Inr [unfolded res check_blocks_Inr]
    have hs: "hs = ?hs" "earliest = ?r" using c by simp_all
    have "verify_equivocation_evidence hash scheme raw bl = Inr v \<longleftrightarrow> 2 \<le> length ?bs \<and> earliest = ev_round raw \<and>
      \<not> list_ex (\<lambda>i. list_ex (comparable_pair ?bs hs i) [i + 1..<length ?bs]) [0..<length ?bs] \<and>
      v = \<lparr>ver_validator = ev_validator raw, ver_round = earliest, ver_blocks = sort_key identity ?bs\<rparr>"
      by (auto simp: verify_equivocation_evidence_def Inr res)
    also have "\<dots> \<longleftrightarrow> 2 \<le> length ?bs \<and> earliest = ev_round raw \<and> ?free \<and>
      v = \<lparr>ver_validator = ev_validator raw, ver_round = earliest, ver_blocks = sort_key identity ?bs\<rparr>"
      using no_comparable_iff [of hs ?bs] hs(1) by simp
    finally have fin: "verify_equivocation_evidence hash scheme raw bl = Inr v \<longleftrightarrow> 2 \<le> length ?bs \<and> earliest = ev_round raw \<and> ?free \<and>
      v = \<lparr>ver_validator = ev_validator raw, ver_round = earliest, ver_blocks = sort_key identity ?bs\<rparr>" .
    have given: ?own "distinct (map cid ?bs)" "\<forall>b \<in> set ?bs. isl (?h b) = False" using c by blast+
    show ?thesis unfolding fin hs(2) [symmetric] eqTrueI [OF given(1)] eqTrueI [OF given(2)] eqTrueI [OF given(3)] simp_thms
      using given(3) by (cases "earliest = ev_round raw") simp_all
  qed
qed

lemma verify_iff:
  "verify_equivocation_evidence hash scheme raw bl = Inr v \<longleftrightarrow> genuine_equivocation hash scheme raw bl \<and>
     v = \<lparr>ver_validator = ev_validator raw, ver_round = ev_round raw, ver_blocks = sort_key identity (ev_blocks raw)\<rparr>"
proof -
  let ?bs = "ev_blocks raw" and ?h = "complete_history hash bl"
  let ?hs = "map (snd \<circ> projr \<circ> ?h) ?bs" and ?r = "fold (\<lambda>r m. min m r) (map (fst \<circ> projr \<circ> ?h) ?bs) u64_max"
  let ?own = "\<forall>b \<in> set ?bs. creator (identity b) = ev_validator raw \<and> hash_ok hash b \<and>
      scheme (content_hash (identity b)) (node_bytes (ev_validator raw)) (signature (identity b))"
  let ?free = "\<forall>i < length ?bs. \<forall>j < length ?bs. i \<noteq> j \<longrightarrow> cid (?bs ! j) \<notin> set (?hs ! i)"
  have "verify_equivocation_evidence hash scheme raw bl = Inr v \<longleftrightarrow> 2 \<le> length ?bs \<and> ?own \<and> distinct (map cid ?bs) \<and>
      (\<forall>b \<in> set ?bs. isl (?h b) = False) \<and> ev_round raw = ?r \<and> ?free \<and>
      v = \<lparr>ver_validator = ev_validator raw, ver_round = ev_round raw, ver_blocks = sort_key identity ?bs\<rparr>"
    by (rule verify_Inr)
  also have "\<dots> \<longleftrightarrow> genuine_equivocation hash scheme raw bl \<and>
     v = \<lparr>ver_validator = ev_validator raw, ver_round = ev_round raw, ver_blocks = sort_key identity ?bs\<rparr>"
  proof (cases "2 \<le> length ?bs \<and> distinct (map cid ?bs)")
    case True
    then have ne: "?bs \<noteq> []" by auto
    have "(\<forall>b \<in> set ?bs. isl (?h b) = False) \<and> ev_round raw = ?r \<and> ?free \<longleftrightarrow>
      (\<exists>rank. (\<forall>b \<in> set ?bs. round_function hash bl b (rank b)) \<and> ev_round raw = Min ((\<lambda>b. rank b (cid b)) ` set ?bs)) \<and>
      (\<forall>a \<in> set ?bs. \<forall>b \<in> set ?bs. cid a \<notin> strict_history bl b)"
      (is "?L \<longleftrightarrow> ?R")
    proof
      assume L: ?L
      then obtain rank where rf: "\<forall>b \<in> set ?bs. round_function hash bl b (rank b)" unfolding history_ranks by blast
      then show ?R using L earliest_round [OF rf ne] history_pairs [OF rf conjunct2 [OF True] refl] by (intro conjI exI [of _ rank]) simp_all
    next
      assume R: ?R
      then obtain rank where rf: "\<forall>b \<in> set ?bs. round_function hash bl b (rank b)"
        and r: "ev_round raw = Min ((\<lambda>b. rank b (cid b)) ` set ?bs)" by blast
      show ?L using R r earliest_round [OF rf ne] iffD2 [OF history_pairs [OF rf conjunct2 [OF True] refl]] rf
        unfolding history_ranks by (intro conjI exI [of _ rank]) simp_all
    qed
    then show ?thesis using True unfolding genuine_equivocation_def by blast
  qed (auto simp: genuine_equivocation_def)
  finally show ?thesis .
qed

end
