(* ===== verification/Evidence_Codec.thy ===== *)
theory Evidence_Codec
  imports Verified_Evidence
begin

text \<open>
  The canonical bytes of verified evidence and their decoder (\<open>consensus/verified_evidence.rs\<close>).  The
  reader is a function from the remaining bytes to a value and the bytes that are left.  Decoding the
  canonical bytes returns the evidence with every predecessor reference reduced to its consensus
  identity, and fails exactly when two references of one block share a consensus identity.
\<close>

section \<open>Encoding\<close>

text \<open>\<open>b"cordial:verified-equivocation:v1"\<close>\<close>

definition EVIDENCE_DOMAIN :: "byte list" where
  "EVIDENCE_DOMAIN = [99, 111, 114, 100, 105, 97, 108, 58, 118, 101, 114, 105, 102, 105, 101, 100, 45,
     101, 113, 117, 105, 118, 111, 99, 97, 116, 105, 111, 110, 58, 118, 49]"

definition put_bytes :: "byte list \<Rightarrow> byte list" where
  "put_bytes bs = u64_be (length bs) @ bs"

definition put_pred :: "block_identity \<Rightarrow> byte list" where
  "put_pred p = content_hash p @ put_bytes (node_bytes (creator p))"

definition put_block :: "block \<Rightarrow> byte list" where
  "put_block b = content_hash (identity b) @ put_bytes (node_bytes (creator (identity b))) @
     put_bytes (signature (identity b)) @ put_bytes (payload (content b)) @
     u64_be (length (sorted_preds (content b))) @ concat (map put_pred (sorted_preds (content b)))"

definition canonical_bytes :: "verified_evidence \<Rightarrow> byte list" where
  "canonical_bytes v = EVIDENCE_DOMAIN @ put_bytes (node_bytes (ver_validator v)) @ u64_be (ver_round v) @
     u64_be (length (ver_blocks v)) @ concat (map put_block (ver_blocks v))"

section \<open>Decoding\<close>

type_synonym 'a reader = "byte list \<Rightarrow> evidence_error + 'a \<times> byte list"

definition rd_bind :: "'a reader \<Rightarrow> ('a \<Rightarrow> 'b reader) \<Rightarrow> 'b reader" where
  "rd_bind m f s = (case m s of Inl e \<Rightarrow> Inl e | Inr (x, s') \<Rightarrow> f x s')"

definition rd_return :: "'a \<Rightarrow> 'a reader" where
  "rd_return x s = Inr (x, s)"

definition rd_take :: "nat \<Rightarrow> byte list reader" where
  "rd_take n s = (if n > length s then Inl MalformedEncoding else Inr (take n s, drop n s))"

definition rd_number :: "nat reader" where
  "rd_number = rd_bind (rd_take 8) (\<lambda>bs. rd_return (u64_from_be bs))"

definition rd_bytes :: "byte list reader" where
  "rd_bytes = rd_bind rd_number rd_take"

definition rd_count :: "nat reader" where
  "rd_count = rd_bind rd_number (\<lambda>n s. if n > length s div 32 then Inl MalformedEncoding else Inr (n, s))"

definition rd_pred :: "block_identity reader" where
  "rd_pred = rd_bind (rd_take 32) (\<lambda>h. rd_bind rd_bytes (\<lambda>who. rd_return (BlockIdentity h (NodeId who) [])))"

text \<open>The loop over the predecessors: a repeated identity is malformed.\<close>

fun rd_preds :: "nat \<Rightarrow> block_identity list \<Rightarrow> block_identity list reader" where
  "rd_preds 0 acc = rd_return acc"
| "rd_preds (Suc n) acc = rd_bind rd_pred
     (\<lambda>i. if i \<in> set acc then (\<lambda>s. Inl MalformedEncoding) else rd_preds n (acc @ [i]))"

definition rd_block :: "block reader" where
  "rd_block = rd_bind (rd_take 32) (\<lambda>h. rd_bind rd_bytes (\<lambda>who. rd_bind rd_bytes (\<lambda>sig. rd_bind rd_bytes (\<lambda>pl.
     rd_bind rd_count (\<lambda>n. rd_bind (rd_preds n []) (\<lambda>ps.
       rd_return \<lparr>identity = BlockIdentity h (NodeId who) sig, content = \<lparr>payload = pl, predecessors = ps\<rparr>\<rparr>))))))"

fun rd_blocks :: "nat \<Rightarrow> block list \<Rightarrow> block list reader" where
  "rd_blocks 0 acc = rd_return acc"
| "rd_blocks (Suc n) acc = rd_bind rd_block (\<lambda>b. rd_blocks n (acc @ [b]))"

definition strip_prefix :: "byte list \<Rightarrow> byte list \<Rightarrow> byte list option" where
  "strip_prefix p s = (if take (length p) s = p then Some (drop (length p) s) else None)"

definition rd_evidence :: "equivocation_evidence reader" where
  "rd_evidence = rd_bind rd_bytes (\<lambda>v. rd_bind rd_number (\<lambda>r. rd_bind rd_count (\<lambda>n. rd_bind (rd_blocks n []) (\<lambda>bs.
     rd_return \<lparr>ev_validator = NodeId v, ev_round = r, ev_blocks = bs\<rparr>))))"

definition decode_equivocation_evidence :: "byte list \<Rightarrow> evidence_error + equivocation_evidence" where
  "decode_equivocation_evidence bytes =
     (case strip_prefix EVIDENCE_DOMAIN bytes of None \<Rightarrow> Inl MalformedEncoding
      | Some s \<Rightarrow>
          (case rd_evidence s of Inl e \<Rightarrow> Inl e
           | Inr (ev, rest) \<Rightarrow> if rest = [] then Inr ev else Inl MalformedEncoding))"

section \<open>Round trip\<close>

lemma rd_take_append [simp]: "length xs = n \<Longrightarrow> rd_take n (xs @ s) = Inr (xs, s)"
  by (auto simp: rd_take_def)

lemma rd_number_be [simp]: "n < 2 ^ 64 \<Longrightarrow> rd_number (u64_be n @ s) = Inr (n, s)"
  by (simp add: rd_number_def rd_bind_def rd_return_def be.enc_length be.dec_enc)

lemma rd_bytes_put [simp]: "length bs < 2 ^ 64 \<Longrightarrow> rd_bytes (put_bytes bs @ s) = Inr (bs, s)"
  by (simp add: rd_bytes_def rd_bind_def put_bytes_def)

lemma rd_count_be [simp]: "n < 2 ^ 64 \<Longrightarrow> 32 * n \<le> length s \<Longrightarrow> rd_count (u64_be n @ s) = Inr (n, s)"
  by (simp add: rd_count_def rd_bind_def)

lemma rd_pred_put [simp]:
  "length (content_hash p) = 32 \<Longrightarrow> length (node_bytes (creator p)) < 2 ^ 64 \<Longrightarrow>
   rd_pred (put_pred p @ s) = Inr (consensus_identity p, s)"
  by (simp add: rd_pred_def rd_bind_def rd_return_def put_pred_def consensus_identity_def)

lemma rd_preds_put:
  "\<forall>p \<in> set ps. length (content_hash p) = 32 \<and> length (node_bytes (creator p)) < 2 ^ 64 \<Longrightarrow> distinct acc \<Longrightarrow>
   rd_preds (length ps) acc (concat (map put_pred ps) @ s) =
     (if distinct (acc @ map consensus_identity ps) then Inr (acc @ map consensus_identity ps, s)
      else Inl MalformedEncoding)"
proof (induction ps arbitrary: acc)
  case (Cons p ps)
  then show ?case by (auto simp: rd_bind_def)
qed (simp add: rd_return_def)

text \<open>The bounds the program's types and memory put on a block: \<open>[u8; 32]\<close> hashes, lengths in \<open>u64\<close>.\<close>

definition encodable :: "block \<Rightarrow> bool" where
  "encodable b \<longleftrightarrow> length (content_hash (identity b)) = 32 \<and> length (signature (identity b)) < 2 ^ 64 \<and>
     representable (creator (identity b)) (content b)"

definition wire_block :: "block \<Rightarrow> block" where
  "wire_block b = \<lparr>identity = identity b,
     content = \<lparr>payload = payload (content b), predecessors = map consensus_identity (sorted_preds (content b))\<rparr>\<rparr>"

definition clean_preds :: "block \<Rightarrow> bool" where
  "clean_preds b \<longleftrightarrow> distinct (map consensus_identity (predecessors (content b)))"

lemma length_concat_ge: "\<forall>x \<in> set xs. n \<le> length (f x) \<Longrightarrow> n * length xs \<le> length (concat (map f xs))"
  by (induction xs) auto

lemma distinct_sorted_preds: "distinct (map f (sorted_preds c)) = distinct (map f (predecessors c))"
proof -
  have "mset (map f (sorted_preds c)) = mset (map f (predecessors c))" by (simp add: sorted_preds_def)
  then show ?thesis by (rule mset_eq_imp_distinct_iff)
qed

lemma rd_block_put:
  assumes "encodable b"
  shows "rd_block (put_block b @ s) = (if clean_preds b then Inr (wire_block b, s) else Inl MalformedEncoding)"
proof -
  let ?ps = "sorted_preds (content b)"
  have p: "\<forall>p \<in> set ?ps. length (content_hash p) = 32 \<and> length (node_bytes (creator p)) < 2 ^ 64"
    and len: "length ?ps < 2 ^ 64" "length (payload (content b)) < 2 ^ 64" "length (node_bytes (creator (identity b))) < 2 ^ 64"
    using assms by (simp_all add: encodable_def representable_def)
  have "32 * length ?ps \<le> length (concat (map put_pred ?ps))"
    using p by (intro length_concat_ge) (simp add: put_pred_def)
  then have c: "rd_count (u64_be (length ?ps) @ concat (map put_pred ?ps) @ s) = Inr (length ?ps, concat (map put_pred ?ps) @ s)"
    using len(1) by (intro rd_count_be) simp_all
  have "BlockIdentity (content_hash i) (NodeId (node_bytes (creator i))) (signature i) = i" for i by simp
  then show ?thesis
    using assms c rd_preds_put [OF p, of "[]" s] len
    by (simp add: rd_block_def rd_bind_def rd_return_def put_block_def encodable_def wire_block_def clean_preds_def
        distinct_sorted_preds del: length_sorted_preds)
qed

lemma rd_blocks_put:
  "\<forall>b \<in> set bs. encodable b \<Longrightarrow> rd_blocks (length bs) acc (concat (map put_block bs) @ s) =
     (if \<forall>b \<in> set bs. clean_preds b then Inr (acc @ map wire_block bs, s) else Inl MalformedEncoding)"
  by (induction bs arbitrary: acc) (auto simp: rd_bind_def rd_return_def rd_block_put)

lemma decode_canonical:
  assumes "\<forall>b \<in> set (ver_blocks v). encodable b" "length (ver_blocks v) < 2 ^ 64"
    and "length (node_bytes (ver_validator v)) < 2 ^ 64" "ver_round v < 2 ^ 64"
  shows "decode_equivocation_evidence (canonical_bytes v) =
    (if \<forall>b \<in> set (ver_blocks v). clean_preds b
     then Inr \<lparr>ev_validator = ver_validator v, ev_round = ver_round v, ev_blocks = map wire_block (ver_blocks v)\<rparr>
     else Inl MalformedEncoding)"
proof -
  have "32 * length (ver_blocks v) \<le> length (concat (map put_block (ver_blocks v)))"
    using assms(1) by (intro length_concat_ge) (simp add: put_block_def encodable_def)
  then have "rd_count (u64_be (length (ver_blocks v)) @ concat (map put_block (ver_blocks v))) =
      Inr (length (ver_blocks v), concat (map put_block (ver_blocks v)))"
    using assms(2) by (intro rd_count_be)
  then have "rd_evidence (put_bytes (node_bytes (ver_validator v)) @ u64_be (ver_round v) @
      u64_be (length (ver_blocks v)) @ concat (map put_block (ver_blocks v))) =
    (if \<forall>b \<in> set (ver_blocks v). clean_preds b
     then Inr (\<lparr>ev_validator = ver_validator v, ev_round = ver_round v, ev_blocks = map wire_block (ver_blocks v)\<rparr>, [])
     else Inl MalformedEncoding)"
    using rd_blocks_put [OF assms(1), of "[]" "[]"] assms(3,4) by (simp add: rd_evidence_def rd_bind_def rd_return_def)
  then show ?thesis
    by (simp add: decode_equivocation_evidence_def canonical_bytes_def strip_prefix_def)
qed

end
