(* ===== verification/Claims_Evidence.thy ===== *)
theory Claims_Evidence
  imports Claims_Node Evidence_History Evidence_Codec
begin

text \<open>The properties of the evidence pool, of the verification of evidence and of its encoding.\<close>

section \<open>The pool\<close>

definition record_all :: "(node_id \<times> nat \<times> block list) list \<Rightarrow> evidence_pool" where
  "record_all rs = fold (\<lambda>(v, r, bs) pool. snd (record_equivocation v r bs pool)) rs empty_pool"

definition proper_claims :: "(node_id \<times> nat \<times> block list) list \<Rightarrow> (node_id \<times> nat \<times> block_identity set) set" where
  "proper_claims rs = {(v, r, identity ` set bs) | v r bs. (v, r, bs) \<in> set rs \<and> 2 \<le> card (identity ` set bs)}"

lemma pool_ok_empty: "pool_ok empty_pool" "pool_claims empty_pool = {}"
  by (simp_all add: pool_ok_def pool_claims_def empty_pool_def)

lemma record_fold:
  "pool_ok pool \<Longrightarrow> pool_ok (fold (\<lambda>(v, r, bs) pool. snd (record_equivocation v r bs pool)) rs pool) \<and>
   pool_claims (fold (\<lambda>(v, r, bs) pool. snd (record_equivocation v r bs pool)) rs pool) = proper_claims rs \<union> pool_claims pool"
proof (induction rs arbitrary: pool)
  case (Cons e rs)
  obtain v r bs where e: "e = (v, r, bs)" by (cases e)
  have "proper_claims (e # rs) = (if 2 \<le> card (identity ` set bs) then {(v, r, identity ` set bs)} else {}) \<union> proper_claims rs"
    by (auto simp: proper_claims_def e)
  then show ?case
    using Cons.IH [OF record_ok [OF Cons.prems, of v r bs]] by (auto simp: e record_claims [OF Cons.prems])
qed (simp add: proper_claims_def)

lemma validators_in_round:
  assumes "pool_ok pool"
  shows "set (equivocating_validators_in_round pool r) = {v. \<exists>K. (v, r, K) \<in> pool_claims pool}"
proof -
  have *: "v \<in> set (equivocating_validators_in_round pool r) \<longleftrightarrow> (\<exists>rounds. (v, rounds) \<in> set pool \<and> map_of rounds r \<noteq> None)" for v
  proof -
    have "map_of rounds r = Some b \<Longrightarrow> b \<noteq> []" if "(v, rounds) \<in> set pool" for v rounds b
      using assms that map_of_SomeD [of rounds r b] unfolding pool_ok_def by fastforce
    then show ?thesis by (force simp: equivocating_validators_in_round_def split: option.splits)
  qed
  have "(\<exists>rounds. (v, rounds) \<in> set pool \<and> map_of rounds r \<noteq> None) \<longleftrightarrow> (\<exists>K. (v, r, K) \<in> pool_claims pool)" for v
  proof
    assume "\<exists>rounds. (v, rounds) \<in> set pool \<and> map_of rounds r \<noteq> None"
    then obtain rounds b where m: "(v, rounds) \<in> set pool" "(r, b) \<in> set rounds" by (auto dest: map_of_SomeD)
    then have "b \<noteq> []" using assms unfolding pool_ok_def by fastforce
    then obtain key ev where "(key, ev) \<in> set b" by (cases b) auto
    with m show "\<exists>K. (v, r, K) \<in> pool_claims pool" unfolding pool_claims_def by blast
  next
    assume "\<exists>K. (v, r, K) \<in> pool_claims pool"
    then obtain rounds b where "(v, rounds) \<in> set pool" "(r, b) \<in> set rounds" by (auto simp: pool_claims_def)
    then show "\<exists>rounds. (v, rounds) \<in> set pool \<and> map_of rounds r \<noteq> None"
      using weak_map_of_SomeI by fastforce
  qed
  with * show ?thesis by auto
qed

text \<open>
  C15.  The evidence pool is a set of claims.  After any sequence of recordings the pool holds exactly the
  claims of two or more distinct block identities, each once whatever the order in which its blocks were
  given; recording reports whether the claim is new; the validators listed for a round are those with a
  claim in it.
\<close>

theorem evidence_pool_is_set_of_claims:
  "pool_ok (record_all rs) \<and> pool_claims (record_all rs) = proper_claims rs \<and>
   (\<forall>v r bs. fst (record_equivocation v r bs (record_all rs)) \<longleftrightarrow>
      \<not> (card (identity ` set bs) < 2 \<or> (v, r, identity ` set bs) \<in> proper_claims rs)) \<and>
   (\<forall>r. set (equivocating_validators_in_round (record_all rs) r) = {v. \<exists>K. (v, r, K) \<in> proper_claims rs})"
proof -
  have ok: "pool_ok (record_all rs)" and cl: "pool_claims (record_all rs) = proper_claims rs"
    using record_fold [OF pool_ok_empty(1), of rs] by (simp_all add: record_all_def pool_ok_empty)
  show ?thesis
    using ok record_new_iff [OF ok] validators_in_round [OF ok] by (auto simp: cl not_less)
qed

section \<open>Capture of a rejected equivocation\<close>

lemma validated_no_checkpoint:
  assumes "validated_reachable hash scheme bl"
  shows "checkpoint_depth bl = None"
  using assms
proof (induction rule: validated_reachable.induct)
  case (insert bl b config bonds)
  show ?case
  proof (cases rule: validated_insert_cases [of hash scheme b bl bonds config])
    case rejected
    then show ?thesis using insert.IH by simp
  next
    case (admitted bl')
    then show ?thesis using insert.IH commit_InrD(4) by fastforce
  qed
qed (simp add: new_blocklace_def)

lemma collect_depths_Some:
  assumes "\<forall>p \<in> set ps. \<exists>d. depth bl p = Some d \<and> Suc d < 2 ^ 64"
  shows "\<exists>ds. collect_depths bl ps = Some ds \<and> length ds = length ps \<and> (\<forall>d \<in> set ds. Suc d < 2 ^ 64)"
  using assms by (induction ps) auto

lemma candidate_depth_total:
  assumes "validated_reachable hash scheme bl" "collision_free hash" "length (blocks bl) < 2 ^ 64 - 1"
    and "\<forall>p \<in> set (predecessors c). resolve_identity bl p \<noteq> None"
  shows "\<exists>d. candidate_depth bl c = Some d"
proof (cases "predecessors c = []")
  case False
  have inv: "wf_lace bl" "is_closed bl" "acyclic_lace bl"
    using validated_reachable_inv [OF assms(1,2)] by (simp_all add: validated_inv_def)
  have "\<exists>d. depth bl p = Some d \<and> Suc d < 2 ^ 64" if p: "p \<in> set (predecessors c)" for p
  proof -
    obtain r where r: "resolve_identity bl p = Some r" using assms(4) p by blast
    obtain d where d: "has_depth bl p d" using closed_has_depth [OF inv r] by blast
    have "d \<le> card ((points bl)\<^sup>+ `` {r})"
      using has_depth_bound [OF inv(3) d r] validated_no_checkpoint [OF assms(1)] by simp
    also have "\<dots> \<le> card (set (block_ids bl))"
      by (rule card_mono) (auto simp del: set_map dest: points_trancl_stored)
    also have "\<dots> \<le> length (blocks bl)" using card_length [of "block_ids bl"] by simp
    finally show ?thesis using d depth_iff [OF inv(1,3)] assms(3) by fastforce
  qed
  then obtain ds where ds: "collect_depths bl (predecessors c) = Some ds" "length ds = length (predecessors c)"
    "\<forall>d \<in> set ds. Suc d < 2 ^ 64" using collect_depths_Some by blast
  have "ds \<noteq> []" using ds(2) False by auto
  then have "Suc (Max (set ds)) < 2 ^ 64" using ds(3) by simp
  then show ?thesis using ds(1) False \<open>ds \<noteq> []\<close> by (simp add: candidate_depth_def checked_add_def)
qed (simp add: candidate_depth_def)

lemma in_if_Nil: "x \<in> set (if P then xs else []) \<longleftrightarrow> P \<and> x \<in> set xs"
  by simp

lemma in_option_single: "x \<in> set (case z of None \<Rightarrow> [] | Some y \<Rightarrow> [g y]) \<longleftrightarrow> (\<exists>y. z = Some y \<and> x = g y)"
  by (cases z) simp_all

lemma Equivocation_error:
  assumes "Equivocation k \<in> set (validation_errors hash scheme b bl bonds config)"
  shows "(\<exists>e. chain_conflict bl b = Some e \<and> k = identity e) \<and> missing_contents bl (content b) = []"
proof -
  have c: "Equivocation k \<notin> set (cordial_errors b bl bonds)"
    unfolding cordial_errors_def Let_def set_append Un_iff in_if_Nil by auto
  show ?thesis
    using assms c unfolding validation_errors_def Let_def set_append Un_iff in_if_Nil in_option_single by auto
qed

text \<open>
  C16.  A rejected equivocation is retained.  When \<open>validated_insert\<close> rejects a block with an equivocation
  error over a validated store, the conflicting block is in the store, differs from the rejected one, has
  the same creator, and recording the rejection leaves the pair in the pool as a claim at the earlier of
  the two rounds.
\<close>

theorem rejected_equivocation_is_retained:
  assumes "validated_reachable hash scheme bl" "collision_free hash" "length (blocks bl) < 2 ^ 64 - 1" "pool_ok pool"
    and "validated_insert hash scheme b bl bonds config = (Invalid es, bl')" "Equivocation k \<in> set es"
  shows "\<exists>held d d'. get_block bl k = Some held \<and> identity held \<noteq> identity b \<and> creator (identity held) = creator (identity b) \<and>
    depth bl k = Some d \<and> candidate_depth bl (content b) = Some d' \<and>
    (creator (identity b), min d d', {identity b, identity held}) \<in>
      pool_claims (snd (record_rejected_equivocation record_equivocation b es bl pool))"
proof -
  have inv: "wf_lace bl" "is_closed bl" "acyclic_lace bl"
    using validated_reachable_inv [OF assms(1,2)] by (simp_all add: validated_inv_def)
  have in_errors: "Equivocation k \<in> set (validation_errors hash scheme b bl bonds config)"
  proof (cases rule: validated_insert_cases [of hash scheme b bl bonds config])
    case rejected
    then show ?thesis using assms(5,6) by simp
  next
    case (admitted bl')
    then show ?thesis using assms(5) by simp
  qed
  obtain e where e: "chain_conflict bl b = Some e" "k = identity e" using Equivocation_error [OF in_errors] by blast
  have m: "e \<in> set (blocks_by bl (creator (identity b)))" "identity b \<noteq> k"
    using find_SomeD [OF e(1) [unfolded chain_conflict_def]] e(2) by auto
  have k: "k \<in> set (block_ids bl)" "creator k = creator (identity b)"
    using m(1) set_identity_blocks_by [of bl "creator (identity b)"] e(2) by (auto simp del: set_map)
  obtain c where held: "get_block bl k = Some \<lparr>identity = k, content = c\<rparr>" using get_block_stored [OF k(1)] by blast
  obtain d where d: "depth bl k = Some d"
    using closed_has_depth [OF inv resolve_stored [OF k(1)]] depth_iff [OF inv(1,3)] by blast
  obtain d' where d': "candidate_depth bl (content b) = Some d'"
    using candidate_depth_total [OF assms(1-3)] Equivocation_error [OF in_errors] missing_contents_Nil by blast
  have claim: "rejection_claim b bl (Equivocation k) = Some (creator (identity b), min d d', {identity b, k})"
    using held d d' m(2) by (simp add: rejection_claim_def)
  have "(creator (identity b), min d d', {identity b, k}) \<in>
      pool_claims (snd (record_rejected_equivocation record_equivocation b es bl pool))"
    unfolding record_rejected_equivocation_def
    using pool.rejected_claims [OF assms(4), of b bl es False] assms(6) claim by force
  then show ?thesis using held d d' m(2) k(2) by (intro exI [of _ "\<lparr>identity = k, content = c\<rparr>"] exI) auto
qed

definition ev_store :: blocklace where
  "ev_store = snd (validated_insert id_hash echo_scheme nd_block (new_blocklace 0) [(sc_A, 1)] default_config)"

definition ev_second :: block where
  "ev_second = \<lparr>identity = BlockIdentity (block_hash_ext id_hash sc_A \<lparr>payload = [8], predecessors = []\<rparr>) sc_A [],
     content = \<lparr>payload = [8], predecessors = []\<rparr>\<rparr>"

lemma ev_store_reachable: "validated_reachable id_hash echo_scheme ev_store"
  unfolding ev_store_def
  by (rule validated_reachable.insert [OF validated_reachable.fresh nd_block_representable])
    (simp_all add: default_config_def)

theorem rejected_equivocation_is_retained_witness:
  "\<exists>held. get_block ev_store (identity nd_block) = Some held \<and>
    (sc_A, 0, {identity ev_second, identity held}) \<in> pool_claims
      (snd (record_rejected_equivocation record_equivocation ev_second [Equivocation (identity nd_block)] ev_store empty_pool))"
proof -
  have len: "length (blocks ev_store) < 2 ^ 64 - 1"
  proof -
    have "length (blocks ev_store) = 1" by code_simp
    then show ?thesis by simp
  qed
  have rej: "validated_insert id_hash echo_scheme ev_second ev_store [(sc_A, 1)] default_config =
      (Invalid [Equivocation (identity nd_block)], ev_store)" by code_simp
  have d: "depth ev_store (identity nd_block) = Some 0" "candidate_depth ev_store (content ev_second) = Some 0"
    "creator (identity ev_second) = sc_A" by code_simp+
  show ?thesis
    using rejected_equivocation_is_retained [OF ev_store_reachable id_hash_collision_free len pool_ok_empty(1) rej] d
    by (simp, blast)
qed

section \<open>Verification\<close>

text \<open>
  C14.  \<open>verify_equivocation_evidence\<close> accepts a claim exactly when it is a genuine equivocation over the
  store: at least two blocks of the validator, with good hashes and signatures and distinct consensus
  identities, whose complete histories exist, none in the history of another, and whose earliest round is
  the claimed one; what it returns is the claim with its blocks sorted.  The history walk always ends.
\<close>

theorem verified_evidence_is_genuine:
  "verify_equivocation_evidence hash scheme raw bl = Inr v \<longleftrightarrow>
   genuine_equivocation hash scheme raw bl \<and>
   v = \<lparr>ver_validator = ev_validator raw, ver_round = ev_round raw, ver_blocks = sort_key identity (ev_blocks raw)\<rparr>"
  by (rule verify_iff)

section \<open>Encoding\<close>

text \<open>
  Decoding the canonical bytes of verified evidence returns the same validator, round and blocks, each
  predecessor reference reduced to its consensus identity and sorted, provided no block refers to one
  consensus identity twice; if one does, the bytes the program itself wrote do not decode.
\<close>

theorem canonical_bytes_round_trip:
  assumes "\<forall>b \<in> set (ver_blocks v). encodable b" "length (ver_blocks v) < 2 ^ 64"
    and "length (node_bytes (ver_validator v)) < 2 ^ 64" "ver_round v < 2 ^ 64"
  shows "decode_equivocation_evidence (canonical_bytes v) =
    (if \<forall>b \<in> set (ver_blocks v). clean_preds b
     then Inr \<lparr>ev_validator = ver_validator v, ev_round = ver_round v, ev_blocks = map wire_block (ver_blocks v)\<rparr>
     else Inl MalformedEncoding)"
  by (rule decode_canonical [OF assms])

definition ev_hash :: "byte \<Rightarrow> byte list" where
  "ev_hash x = replicate 32 x"

definition ev_signed_twice :: block where
  "ev_signed_twice = \<lparr>identity = BlockIdentity (ev_hash 2) sc_A [9],
     content = \<lparr>payload = [], predecessors = [BlockIdentity (ev_hash 1) sc_B [], BlockIdentity (ev_hash 1) sc_B [5]]\<rparr>\<rparr>"

definition ev_initial :: block where
  "ev_initial = \<lparr>identity = BlockIdentity (ev_hash 3) sc_A [9], content = \<lparr>payload = [4], predecessors = []\<rparr>\<rparr>"

end
