(* ===== verification/Pruning.thy ===== *)
theory Pruning
  imports Ordering
begin

text \<open>
  \<open>consensus/pruning.rs\<close>: a finalized leader becomes the in-memory genesis and the blocks below it are
  forgotten, except those that a block outside its past still refers to.  The lemmas show what the first
  prune of a closed store keeps: well-formedness, closure, acyclicity and the depth of every retained
  block.
\<close>

section \<open>Model\<close>

record prune_report =
  rep_checkpoint :: block_identity
  rep_checkpoint_depth :: nat
  rep_removed :: "block_identity list"
  rep_retained_blocks :: nat
  rep_tau_prefix_len :: nat
  rep_weighted_tau_prefix_len :: nat

datatype prune_error =
    UnknownCheckpoint block_identity
  | CheckpointRegression (current_cp: block_identity) (requested_cp: block_identity)
  | DisconnectedCheckpoint (current_cp: block_identity) (requested_cp: block_identity)

definition order_prefix_of :: "blocklace \<Rightarrow> block_identity \<Rightarrow> block_identity list" where
  "order_prefix_of bl cp = (case xsort (get_set bl (observe bl cp)) of Inl e \<Rightarrow> observe bl cp | Inr ks \<Rightarrow> ks)"

definition candidate_preds :: "blocklace \<Rightarrow> block_identity list \<Rightarrow> block_content \<Rightarrow> block_identity list" where
  "candidate_preds bl cands c = filter (\<lambda>r. r \<in> set cands) (List.map_filter (resolve_identity bl) (predecessors c))"

definition protected_succs :: "blocklace \<Rightarrow> block_identity list \<Rightarrow> block_identity \<Rightarrow> block_identity list" where
  "protected_succs bl cands i = (case content_of bl i of None \<Rightarrow> [] | Some c \<Rightarrow> candidate_preds bl cands c)"

definition protected_seeds :: "blocklace \<Rightarrow> block_identity \<Rightarrow> block_identity list \<Rightarrow> block_identity list" where
  "protected_seeds bl cp cands = fresh cands
     (concat (map (\<lambda>(i, c). if i \<in> set cands \<or> i = cp then [] else candidate_preds bl cands c) (blocks bl))) []"

definition protected_candidate_closure :: "blocklace \<Rightarrow> block_identity \<Rightarrow> block_identity list \<Rightarrow> block_identity list" where
  "protected_candidate_closure bl cp cands =
     (let seeds = protected_seeds bl cp cands
      in worklist Lifo cands (protected_succs bl cands) (rev seeds) seeds)"

definition make_report :: "blocklace \<Rightarrow> block_identity \<Rightarrow> nat \<Rightarrow> block_identity list \<Rightarrow> prune_report" where
  "make_report bl cp d removed =
     \<lparr>rep_checkpoint = cp, rep_checkpoint_depth = d, rep_removed = removed,
      rep_retained_blocks = length (blocks bl), rep_tau_prefix_len = length (checkpoint_order_prefix bl),
      rep_weighted_tau_prefix_len = length (checkpoint_weighted_order_prefix bl)\<rparr>"

definition removable :: "blocklace \<Rightarrow> block_identity \<Rightarrow> block_identity list" where
  "removable bl cp =
     (let cands = removeAll cp (observe bl cp); kept = protected_candidate_closure bl cp cands
      in filter (\<lambda>i. i \<notin> set kept) cands)"

definition forget_all :: "block_identity list \<Rightarrow> blocklace \<Rightarrow> blocklace" where
  "forget_all is bl = fold (\<lambda>i bl. snd (forget_block bl i)) is bl"

definition advance_checkpoint ::
  "blocklace \<Rightarrow> block_identity \<Rightarrow> nat \<Rightarrow> block_identity list \<Rightarrow> block_identity list \<Rightarrow> prune_report \<times> blocklace" where
  "advance_checkpoint bl cp d order weighted =
     (let gone = removable bl cp; bl' = set_checkpoint_state (forget_all gone bl) cp d order weighted
      in (make_report bl' cp d gone, bl'))"

definition prune_below_checkpoint_with_prefix ::
  "blocklace \<Rightarrow> block_identity \<Rightarrow> block_identity list \<Rightarrow> block_identity list \<Rightarrow> prune_error + prune_report \<times> blocklace" where
  "prune_below_checkpoint_with_prefix bl cp order weighted =
     (if cp \<notin> set (block_ids bl) then Inl (UnknownCheckpoint cp)
      else
        (case depth bl cp of None \<Rightarrow> Inl (UnknownCheckpoint cp)
         | Some d \<Rightarrow>
             (case checkpoint bl of None \<Rightarrow> Inr (advance_checkpoint bl cp d order weighted)
              | Some current \<Rightarrow>
                  if current = cp then Inr (make_report bl cp d [], bl)
                  else if (case checkpoint_depth bl of None \<Rightarrow> False | Some cd \<Rightarrow> d < cd)
                  then Inl (CheckpointRegression current cp)
                  else if \<not> preceedes_or_equals bl current cp then Inl (DisconnectedCheckpoint current cp)
                  else Inr (advance_checkpoint bl cp d order weighted))))"

definition prune_below_checkpoint :: "blocklace \<Rightarrow> block_identity \<Rightarrow> prune_error + prune_report \<times> blocklace" where
  "prune_below_checkpoint bl cp = prune_below_checkpoint_with_prefix bl cp (order_prefix_of bl cp) []"

text \<open>\<open>unwrap_or_else\<close> of the order computed by \<open>tau\<close>.\<close>

definition order_or :: "(ordering_error + block_identity list) option \<Rightarrow> block_identity list \<Rightarrow> block_identity list option" where
  "order_or res fallback = map_option (\<lambda>r. case r of Inl e \<Rightarrow> fallback | Inr ks \<Rightarrow> ks) res"

definition checkpoint_after_finality ::
  "blocklace \<Rightarrow> nat \<Rightarrow> nat \<Rightarrow> nat \<Rightarrow> leader_selection \<Rightarrow> (prune_error + (prune_report \<times> blocklace) option) option" where
  "checkpoint_after_finality bl wavelength n f sel =
     (case latest_final_leader bl wavelength n f sel of None \<Rightarrow> Some (Inr None)
      | Some fin \<Rightarrow>
          if checkpoint bl = Some fin then Some (Inr None)
          else map_option (\<lambda>order. map_sum id Some (prune_below_checkpoint_with_prefix bl fin order []))
                 (order_or (tau bl wavelength n f sel) (order_prefix_of bl fin)))"

definition checkpoint_after_weighted_finality ::
  "blocklace \<Rightarrow> nat \<Rightarrow> (node_id \<times> nat) list \<Rightarrow> leader_selection \<Rightarrow> (prune_error + (prune_report \<times> blocklace) option) option" where
  "checkpoint_after_weighted_finality bl wavelength bonds sel =
     (case latest_weighted_final_leader bl wavelength bonds sel of None \<Rightarrow> Some (Inr None)
      | Some fin \<Rightarrow>
          if checkpoint bl = Some fin then Some (Inr None)
          else map_option (\<lambda>order. map_sum id Some (prune_below_checkpoint_with_prefix bl fin [] order))
                 (order_or (weighted_tau bl wavelength bonds sel) (order_prefix_of bl fin)))"

section \<open>What is removed\<close>

interpretation protection: search_space cands "protected_succs bl cands"
  for bl cands
  by unfold_locales (auto simp: protected_succs_def candidate_preds_def split: option.split)

lemma protected_closed:
  "seed \<in> set (protected_seeds bl cp cands) \<Longrightarrow> seed \<in> set (protected_candidate_closure bl cp cands)"
  "x \<in> set (protected_candidate_closure bl cp cands) \<Longrightarrow>
     set (protected_succs bl cands x) \<subseteq> set (protected_candidate_closure bl cp cands)"
proof -
  let ?s = "protected_seeds bl cp cands"
  show "seed \<in> set ?s \<Longrightarrow> seed \<in> set (protected_candidate_closure bl cp cands)"
    unfolding protected_candidate_closure_def Let_def by (rule subsetD [OF protection.worklist_mono])
  show "x \<in> set (protected_candidate_closure bl cp cands) \<Longrightarrow>
     set (protected_succs bl cands x) \<subseteq> set (protected_candidate_closure bl cp cands)"
    using protection.worklist_closed [of ?s "{}" "rev ?s" bl cands Lifo] by (simp add: protected_candidate_closure_def Let_def)
qed

lemma set_removable:
  "set (removable bl cp) = set (observe bl cp) - {cp} -
     set (protected_candidate_closure bl cp (removeAll cp (observe bl cp)))"
  by (auto simp: removable_def Let_def)

text \<open>A block that stays and is not the new checkpoint keeps every predecessor it had.\<close>

lemma removable_pred:
  assumes wf: "wf_lace bl" and i: "(i, c) \<in> set (blocks bl)" "i \<notin> set (removable bl cp)" "i \<noteq> cp"
    and p: "p \<in> set (predecessors c)" "resolve_identity bl p = Some q"
  shows "q \<notin> set (removable bl cp)"
proof
  assume gone: "q \<in> set (removable bl cp)"
  let ?cands = "removeAll cp (observe bl cp)"
  have q: "q \<in> set ?cands" "q \<notin> set (protected_candidate_closure bl cp ?cands)"
    using gone by (auto simp: set_removable)
  have cp: "q \<in> set (candidate_preds bl ?cands c)" using p q(1) by (auto simp: candidate_preds_def)
  show False
  proof (cases "i \<in> set ?cands")
    case True
    then have kept: "i \<in> set (protected_candidate_closure bl cp ?cands)" using i(2) by (auto simp: set_removable)
    have "i \<in> set (block_ids bl)" using i(1) by force
    then have "content_of bl i = Some c" using i(1) by (simp add: content_of_Some [OF wf] del: set_map)
    then have "q \<in> set (protected_succs bl ?cands i)" using cp by (simp add: protected_succs_def)
    then show False using protected_closed(2) [OF kept] q(2) by blast
  next
    case False
    then have "q \<in> set (protected_seeds bl cp ?cands)"
      using i(1,3) cp q(1) by (auto simp: protected_seeds_def intro!: bexI [of _ "(i, c)"])
    then show False using protected_closed(1) q(2) by blast
  qed
qed

section \<open>The store after a prune\<close>

lemma forget_blocks: "blocks (snd (forget_block bl i)) = AList.delete i (blocks bl)"
  by (auto simp: forget_block_def delete_notin_dom)

lemma forget_all_blocks:
  "blocks (forget_all is bl) = filter (\<lambda>(k, c). k \<notin> set is) (blocks bl)"
proof (induction "is" arbitrary: bl)
  case (Cons i "is")
  then show ?case
    by (auto simp: forget_all_def forget_blocks AList.delete_eq intro!: filter_cong)
qed (simp add: forget_all_def)

lemma advance_store:
  assumes "advance_checkpoint bl cp d order weighted = (rep, bl')"
  shows "blocks bl' = filter (\<lambda>(k, c). k \<notin> set (removable bl cp)) (blocks bl)"
    and "checkpoint bl' = Some cp" "checkpoint_depth bl' = Some d" "rep_removed rep = removable bl cp"
    and "checkpoint_order_prefix bl' = order" "checkpoint_weighted_order_prefix bl' = weighted"
  using assms by (auto simp: advance_checkpoint_def Let_def set_checkpoint_state_def forget_all_blocks make_report_def)

lemma advance_ids:
  assumes "advance_checkpoint bl cp d order weighted = (rep, bl')"
  shows "set (block_ids bl') = set (block_ids bl) - set (removable bl cp)"
  unfolding advance_store(1) [OF assms] by force

lemma advance_wf:
  assumes "wf_lace bl" "advance_checkpoint bl cp d order weighted = (rep, bl')"
  shows "wf_lace bl'"
proof -
  have "distinct (block_ids bl')"
    using assms(1) unfolding advance_store(1) [OF assms(2)] wf_lace_def by (simp add: distinct_map_filter)
  moreover have "inj_on consensus_identity (set (block_ids bl'))"
    using assms(1) unfolding advance_ids [OF assms(2)] wf_lace_def by (blast intro: inj_on_subset)
  ultimately show ?thesis by (simp add: wf_lace_def)
qed

lemma advance_resolve:
  assumes wf: "wf_lace bl" and adv: "advance_checkpoint bl cp d order weighted = (rep, bl')"
  shows "resolve_identity bl' p = Some q \<longleftrightarrow> resolve_identity bl p = Some q \<and> q \<notin> set (removable bl cp)"
  unfolding wf_resolve_iff [OF wf] wf_resolve_iff [OF advance_wf [OF wf adv]] advance_ids [OF adv] by blast

lemma advance_content:
  assumes wf: "wf_lace bl" and adv: "advance_checkpoint bl cp d order weighted = (rep, bl')"
    and r: "resolve_identity bl' r = Some r" "content_of bl r = Some c"
  shows "content_of bl' r = Some c"
proof -
  have "resolve_identity bl r = Some r" "r \<notin> set (removable bl cp)" using r(1) advance_resolve [OF wf adv] by blast+
  moreover have "(r, c) \<in> set (blocks bl)" using r(2) calculation(1) by (simp add: content_of_Some [OF wf])
  ultimately have "(r, c) \<in> set (blocks bl')" unfolding advance_store(1) [OF adv] by simp
  then show ?thesis using r(1) by (simp add: content_of_Some [OF advance_wf [OF wf adv]])
qed

text \<open>
  The old checkpoint, if there is one, must be among the removed blocks: otherwise it would stay in the
  store without the boundary status that excuses its missing predecessors.
\<close>

definition old_checkpoint_gone :: "blocklace \<Rightarrow> block_identity \<Rightarrow> bool" where
  "old_checkpoint_gone bl cp \<longleftrightarrow> (case checkpoint bl of None \<Rightarrow> True | Some cur \<Rightarrow> cur = cp \<or> cur \<in> set (removable bl cp))"

lemma advance_preds:
  assumes wf: "wf_lace bl" and closed: "is_closed bl" and gone: "old_checkpoint_gone bl cp"
    and adv: "advance_checkpoint bl cp d order weighted = (rep, bl')"
    and i: "(i, c) \<in> set (blocks bl')" "i \<noteq> cp" "p \<in> set (predecessors c)"
  shows "\<exists>q. resolve_identity bl p = Some q \<and> resolve_identity bl' p = Some q"
proof -
  have m: "(i, c) \<in> set (blocks bl)" "i \<notin> set (removable bl cp)" using i(1) unfolding advance_store(1) [OF adv] by auto
  have "checkpoint bl \<noteq> Some i" using gone m(2) i(2) by (auto simp: old_checkpoint_gone_def)
  then obtain q where q: "resolve_identity bl p = Some q"
    using closed m(1) i(3) by (fastforce simp: is_closed_def is_checkpoint_boundary_def)
  then show ?thesis using advance_resolve [OF wf adv] removable_pred [OF wf m i(2,3) q] by blast
qed

lemma advance_closed:
  assumes "wf_lace bl" "is_closed bl" "old_checkpoint_gone bl cp" "advance_checkpoint bl cp d order weighted = (rep, bl')"
  shows "is_closed bl'"
  using advance_preds [OF assms] advance_store(2) [OF assms(4)]
  by (fastforce simp: is_closed_def is_checkpoint_boundary_def)

lemma advance_points:
  assumes "wf_lace bl" "advance_checkpoint bl cp d order weighted = (rep, bl')" "old_checkpoint_gone bl cp"
  shows "stored_points bl' \<subseteq> stored_points bl"
proof
  fix e assume "e \<in> stored_points bl'"
  then obtain j p where e: "e = (j, p)" "(j, p) \<in> points bl'" "j \<in> set (block_ids bl')"
    by (cases e) (simp add: stored_points_iff)
  then obtain c q where c: "\<not> is_checkpoint_boundary bl' j" "(j, c) \<in> set (blocks bl')" "q \<in> set (predecessors c)"
    "resolve_identity bl' q = Some p" unfolding points_stored_iff [OF advance_wf [OF assms(1,2)] e(3)] by blast
  have "(j, c) \<in> set (blocks bl)" "j \<notin> set (removable bl cp)" using c(2) unfolding advance_store(1) [OF assms(2)] by auto
  moreover from this(2) have "\<not> is_checkpoint_boundary bl j"
    using assms(3) c(1) advance_store(2) [OF assms(2)] by (auto simp: is_checkpoint_boundary_def old_checkpoint_gone_def)
  ultimately show "e \<in> stored_points bl"
    unfolding e(1) using stored_pointsI [OF assms(1) _ _ c(3)] c(4) advance_resolve [OF assms(1,2)] by blast
qed

lemma advance_acyclic:
  assumes "wf_lace bl" "acyclic_lace bl" "old_checkpoint_gone bl cp" "advance_checkpoint bl cp d order weighted = (rep, bl')"
  shows "acyclic_lace bl'"
  using assms(2) advance_points [OF assms(1,4,3)] unfolding acyclic_lace_iff by (rule acyclic_subset)

lemma advance_has_depth:
  assumes wf: "wf_lace bl" and closed: "is_closed bl" and gone: "old_checkpoint_gone bl cp"
    and adv: "advance_checkpoint bl cp d order weighted = (rep, bl')"
    and d: "has_depth bl cp d" "resolve_identity bl cp = Some cp"
  shows "has_depth bl i n \<Longrightarrow> resolve_identity bl' i = Some r \<Longrightarrow> has_depth bl' i n"
proof (induction arbitrary: r rule: has_depth.induct)
  case (at_checkpoint i s)
  have r: "r = s" "r \<notin> set (removable bl cp)"
    using at_checkpoint advance_resolve [OF wf adv] by auto
  then have "r = cp" using gone at_checkpoint(2) by (auto simp: old_checkpoint_gone_def)
  moreover have "d = (case checkpoint_depth bl of None \<Rightarrow> 0 | Some d \<Rightarrow> d)"
    using has_depth_unique [OF d(1) has_depth.at_checkpoint [OF d(2)]] r \<open>r = cp\<close> at_checkpoint(2) by blast
  ultimately show ?case
    using has_depth.at_checkpoint [OF at_checkpoint(3)] advance_store(2,3) [OF adv] by simp
next
  case (at_initial i s c)
  have r: "r = s" "resolve_identity bl i = Some r" using at_initial advance_resolve [OF wf adv] by auto
  show ?case
  proof (cases "r = cp")
    case True
    have "has_depth bl i 0" using has_depth.at_initial at_initial(1-4) by blast
    then have "d = 0" using has_depth_unique d(1) has_depth_resolve [OF r(2)] True by blast
    then show ?thesis using has_depth.at_checkpoint [OF at_initial(5)] advance_store(2,3) [OF adv] True by simp
  next
    case False
    have "content_of bl' r = Some c"
      by (rule advance_content [OF wf adv resolve_resolved [OF at_initial(5)]]) (use at_initial r in simp)
    then show ?thesis
      using has_depth.at_initial [OF at_initial(5)] False advance_store(2) [OF adv] at_initial(4) by simp
  qed
next
  case (at_step i s c f)
  have r: "r = s" "resolve_identity bl i = Some r" using at_step advance_resolve [OF wf adv] by auto
  show ?case
  proof (cases "r = cp")
    case True
    have "has_depth bl i (Suc (Max (f ` set (predecessors c))))" using has_depth.at_step at_step(1-5) by blast
    then have "d = Suc (Max (f ` set (predecessors c)))"
      using has_depth_unique d(1) has_depth_resolve [OF r(2)] True by blast
    then show ?thesis using has_depth.at_checkpoint [OF at_step(7)] advance_store(2,3) [OF adv] True by simp
  next
    case False
    have c: "content_of bl' r = Some c"
      by (rule advance_content [OF wf adv resolve_resolved [OF at_step(7)]]) (use at_step r in simp)
    then have m: "(r, c) \<in> set (blocks bl')"
      using resolve_resolved [OF at_step(7)] by (simp add: content_of_Some [OF advance_wf [OF wf adv]])
    have "has_depth bl' p (f p)" if "p \<in> set (predecessors c)" for p
      using advance_preds [OF wf closed gone adv m False that] at_step(6) [OF that] by blast
    then show ?thesis
      using has_depth.at_step [OF at_step(7) _ c at_step(4)] False advance_store(2) [OF adv] by simp
  qed
qed

lemma advance_depth:
  assumes wf: "wf_lace bl" and closed: "is_closed bl" and acyc: "acyclic_lace bl" and gone: "old_checkpoint_gone bl cp"
    and adv: "advance_checkpoint bl cp d order weighted = (rep, bl')"
    and d: "depth bl cp = Some d" "cp \<in> set (block_ids bl)"
    and i: "resolve_identity bl' i = Some r"
  shows "depth bl' i = depth bl i"
proof -
  have cp: "has_depth bl cp d" "resolve_identity bl cp = Some cp"
    using d depth_iff [OF wf acyc] resolve_stored by blast+
  have "resolve_identity bl i = Some r" using i advance_resolve [OF wf adv] by blast
  then obtain n where n: "has_depth bl i n" using closed_has_depth [OF wf closed acyc] by blast
  then have "has_depth bl' i n" by (rule advance_has_depth [OF wf closed gone adv cp _ i])
  then show ?thesis
    using n depth_iff [OF wf acyc, of i n] depth_iff [OF advance_wf [OF wf adv] advance_acyclic [OF wf acyc gone adv], of i n]
    by simp
qed

section \<open>The outcome of a prune\<close>

lemma prune_Inr:
  assumes "prune_below_checkpoint_with_prefix bl cp order weighted = Inr (rep, bl')"
  shows "cp \<in> set (block_ids bl)"
    and "\<exists>d. depth bl cp = Some d \<and> rep_checkpoint_depth rep = d \<and>
      (checkpoint bl = Some cp \<and> bl' = bl \<and> rep_removed rep = [] \<or>
       checkpoint bl \<noteq> Some cp \<and> advance_checkpoint bl cp d order weighted = (rep, bl'))"
  using assms
  by (auto simp: prune_below_checkpoint_with_prefix_def make_report_def advance_checkpoint_def Let_def
      simp del: set_map split: if_splits option.splits)

end
