(* ===== verification/Payload.thy ===== *)
theory Payload
  imports Codec
begin

text \<open>
  \<open>execution/payload.rs\<close>: the typed payload of a block and its versioned encoding.  The encoding of
  values is done by a third-party serializer, so its functions are parameters; the program's own part is
  the choice between the legacy layout, which has no authorizations, and the marked second version.
\<close>

section \<open>Data\<close>

record por_equivocation_authorization =
  auth_shard_id :: "byte list"
  auth_source_finalized_wave :: nat
  auth_round :: nat
  auth_message :: "byte list"

record bond =
  bond_validator :: node_id
  bond_stake :: nat

record block_state =
  pre_state_hash :: "byte list"
  post_state_hash :: "byte list"
  state_bonds :: "bond list"
  block_number :: nat

record deploy =
  deploy_term :: "byte list"
  deploy_timestamp :: nat
  phlo_price :: nat
  phlo_limit :: nat
  valid_after_block_number :: nat
  deploy_shard_id :: string
  expiration_timestamp :: "nat option"

datatype deploy_signature_algorithm = Secp256k1 | Secp256k1Eth | Ed25519 | OtherAlgorithm string | Unspecified

record signed_deploy =
  the_deploy :: deploy
  deployer :: "byte list"
  deploy_signature :: "byte list"
  signature_algorithm :: deploy_signature_algorithm

record processed_deploy =
  processed_of :: signed_deploy
  deploy_cost :: nat
  is_failed :: bool

datatype reject_reason = BadSignature | Expired | DuplicateDeploy | LowPhloPrice | NotYetValid

record rejected_deploy =
  rejected_of :: signed_deploy
  reject_reason :: reject_reason

datatype processed_system_deploy = Slash node_id bool | CloseBlock bool

record cordial_block_payload =
  por_authorizations :: "por_equivocation_authorization list"
  payload_state :: block_state
  payload_deploys :: "processed_deploy list"
  payload_rejected :: "rejected_deploy list"
  payload_system :: "processed_system_deploy list"

section \<open>Names of signature algorithms\<close>

definition to_lower :: "char \<Rightarrow> char" where
  "to_lower c = (if of_char c \<ge> (65::nat) \<and> of_char c \<le> (90::nat) then char_of (of_char c + (32::nat)) else c)"

definition algorithm_from_name :: "string \<Rightarrow> deploy_signature_algorithm" where
  "algorithm_from_name name =
     (let n = map to_lower name in
      if n = ''secp256k1'' then Secp256k1
      else if n = ''secp256k1-eth'' \<or> n = ''secp256k1:eth'' then Secp256k1Eth
      else if n = ''ed25519'' then Ed25519
      else if n = [] then Unspecified
      else OtherAlgorithm name)"

fun algorithm_as_name :: "deploy_signature_algorithm \<Rightarrow> string" where
  "algorithm_as_name Secp256k1 = ''secp256k1''"
| "algorithm_as_name Secp256k1Eth = ''secp256k1:eth''"
| "algorithm_as_name Ed25519 = ''ed25519''"
| "algorithm_as_name (OtherAlgorithm name) = name"
| "algorithm_as_name Unspecified = []"

section \<open>Serialization\<close>

text \<open>\<open>b"cordial:execution-payload:v2\0"\<close> and \<open>b"cordial:por-authorizations:v1\0"\<close>\<close>

definition PAYLOAD_V2 :: "byte list" where
  "PAYLOAD_V2 = [99, 111, 114, 100, 105, 97, 108, 58, 101, 120, 101, 99, 117, 116, 105, 111, 110, 45,
     112, 97, 121, 108, 111, 97, 100, 58, 118, 50, 0]"

definition POR_EXTRA_V1 :: "byte list" where
  "POR_EXTRA_V1 = [99, 111, 114, 100, 105, 97, 108, 58, 112, 111, 114, 45, 97, 117, 116, 104, 111, 114,
     105, 122, 97, 116, 105, 111, 110, 115, 58, 118, 49, 0]"

type_synonym legacy_payload =
  "block_state \<times> processed_deploy list \<times> rejected_deploy list \<times> processed_system_deploy list"

text \<open>The serializer: encoders, and decoders that may reject.\<close>

record serializer =
  ser_legacy :: "legacy_payload \<Rightarrow> byte list"
  ser_full :: "cordial_block_payload \<Rightarrow> byte list"
  ser_auths :: "por_equivocation_authorization list \<Rightarrow> byte list"
  de_legacy :: "byte list \<Rightarrow> legacy_payload option"
  de_full :: "byte list \<Rightarrow> cordial_block_payload option"
  de_auths :: "byte list \<Rightarrow> por_equivocation_authorization list option"

definition strip_marker :: "byte list \<Rightarrow> byte list \<Rightarrow> byte list option" where
  "strip_marker m bytes = (if take (length m) bytes = m then Some (drop (length m) bytes) else None)"

definition legacy_part :: "cordial_block_payload \<Rightarrow> legacy_payload" where
  "legacy_part p = (payload_state p, payload_deploys p, payload_rejected p, payload_system p)"

definition to_bytes :: "serializer \<Rightarrow> cordial_block_payload \<Rightarrow> byte list" where
  "to_bytes s p = (if por_authorizations p = [] then ser_legacy s (legacy_part p) else PAYLOAD_V2 @ ser_full s p)"

definition from_bytes :: "serializer \<Rightarrow> byte list \<Rightarrow> cordial_block_payload option" where
  "from_bytes s bytes =
     (case strip_marker PAYLOAD_V2 bytes of
        Some body \<Rightarrow> de_full s body
      | None \<Rightarrow> map_option (\<lambda>(st, ds, rs, sys). \<lparr>por_authorizations = [], payload_state = st, payload_deploys = ds,
                   payload_rejected = rs, payload_system = sys\<rparr>) (de_legacy s bytes))"

definition por_authorizations_from_bytes :: "serializer \<Rightarrow> byte list \<Rightarrow> por_equivocation_authorization list option" where
  "por_authorizations_from_bytes s bytes =
     (if strip_marker PAYLOAD_V2 bytes \<noteq> None then map_option por_authorizations (from_bytes s bytes) else Some [])"

definition encode_por_extra :: "serializer \<Rightarrow> por_equivocation_authorization list \<Rightarrow> byte list" where
  "encode_por_extra s as = (if as = [] then [] else POR_EXTRA_V1 @ ser_auths s as)"

definition decode_por_extra :: "serializer \<Rightarrow> byte list \<Rightarrow> por_equivocation_authorization list option" where
  "decode_por_extra s bytes = (case strip_marker POR_EXTRA_V1 bytes of None \<Rightarrow> Some [] | Some body \<Rightarrow> de_auths s body)"

definition genesis_payload :: "bond list \<Rightarrow> cordial_block_payload" where
  "genesis_payload bs = \<lparr>por_authorizations = [],
     payload_state = \<lparr>pre_state_hash = [], post_state_hash = [], state_bonds = bs, block_number = 0\<rparr>,
     payload_deploys = [], payload_rejected = [], payload_system = []\<rparr>"

definition bonds_map :: "cordial_block_payload \<Rightarrow> (node_id \<times> nat) list" where
  "bonds_map p = fold (\<lambda>b m. AList.update (bond_validator b) (bond_stake b) m) (state_bonds (payload_state p)) []"

section \<open>What is relied on, and the round trip\<close>

text \<open>
  Of the serializer: it decodes what it encoded, and the legacy layout begins with the first field of the
  state as a fixed-width little-endian length followed by its bytes.
\<close>

definition serializer_round_trip :: "serializer \<Rightarrow> cordial_block_payload \<Rightarrow> bool" where
  "serializer_round_trip s p \<longleftrightarrow> de_legacy s (ser_legacy s (legacy_part p)) = Some (legacy_part p) \<and>
     de_full s (ser_full s p) = Some p \<and> de_auths s (ser_auths s (por_authorizations p)) = Some (por_authorizations p)"

definition legacy_layout :: "serializer \<Rightarrow> cordial_block_payload \<Rightarrow> bool" where
  "legacy_layout s p \<longleftrightarrow> (\<exists>rest. ser_legacy s (legacy_part p) =
     u64_le (length (pre_state_hash (payload_state p))) @ pre_state_hash (payload_state p) @ rest)"

lemma strip_marker_append [simp]: "strip_marker m (m @ bytes) = Some bytes"
  by (simp add: strip_marker_def)

text \<open>The marker read as a length is beyond any vector a machine can hold.\<close>

lemma marker_length: "le_value (take 8 PAYLOAD_V2) = 4209846856969252707"
  by (simp add: PAYLOAD_V2_def)

lemma legacy_unmarked:
  assumes "legacy_layout s p" "length (pre_state_hash (payload_state p)) < 2 ^ 61"
  shows "strip_marker PAYLOAD_V2 (ser_legacy s (legacy_part p)) = None"
proof (rule ccontr)
  assume "strip_marker PAYLOAD_V2 (ser_legacy s (legacy_part p)) \<noteq> None"
  then have "take (length PAYLOAD_V2) (ser_legacy s (legacy_part p)) = PAYLOAD_V2" by (auto simp: strip_marker_def split: if_splits)
  then have "take 8 (take (length PAYLOAD_V2) (ser_legacy s (legacy_part p))) = take 8 PAYLOAD_V2" by (rule arg_cong)
  moreover have "take 8 (take (length PAYLOAD_V2) xs) = take 8 xs" for xs by (simp add: PAYLOAD_V2_def numeral_eq_Suc)
  moreover obtain rest where "ser_legacy s (legacy_part p) =
      u64_le (length (pre_state_hash (payload_state p))) @ pre_state_hash (payload_state p) @ rest"
    using assms(1) by (auto simp: legacy_layout_def)
  moreover have "length (pre_state_hash (payload_state p)) < 2 ^ 64" using assms(2) by simp
  ultimately have "length (pre_state_hash (payload_state p)) = le_value (take 8 PAYLOAD_V2)"
    using le.number_take(3) by metis
  then show False using assms(2) unfolding marker_length by simp
qed

lemma from_to_bytes:
  assumes "serializer_round_trip s p" "legacy_layout s p" "length (pre_state_hash (payload_state p)) < 2 ^ 61"
  shows "from_bytes s (to_bytes s p) = Some p"
    and "por_authorizations_from_bytes s (to_bytes s p) = Some (por_authorizations p)"
    and "decode_por_extra s (encode_por_extra s (por_authorizations p)) = Some (por_authorizations p)"
proof -
  have unmarked: "strip_marker POR_EXTRA_V1 [] = None" by (simp add: strip_marker_def POR_EXTRA_V1_def)
  show "from_bytes s (to_bytes s p) = Some p"
    using assms(1) legacy_unmarked [OF assms(2,3)]
    by (auto simp: from_bytes_def to_bytes_def serializer_round_trip_def legacy_part_def)
  then show "por_authorizations_from_bytes s (to_bytes s p) = Some (por_authorizations p)"
    using legacy_unmarked [OF assms(2,3)] by (auto simp: por_authorizations_from_bytes_def to_bytes_def)
  show "decode_por_extra s (encode_por_extra s (por_authorizations p)) = Some (por_authorizations p)"
  proof (cases "por_authorizations p = []")
    case True
    moreover have "encode_por_extra s [] = []" by (simp add: encode_por_extra_def)
    moreover have "decode_por_extra s [] = Some []" unfolding decode_por_extra_def unmarked by simp
    ultimately show ?thesis by simp
  next
    case False
    then show ?thesis using assms(1) by (simp add: decode_por_extra_def encode_por_extra_def serializer_round_trip_def)
  qed
qed

lemma algorithm_name_round_trip:
  assumes "\<And>name. a = OtherAlgorithm name \<Longrightarrow> algorithm_from_name name = OtherAlgorithm name"
  shows "algorithm_from_name (algorithm_as_name a) = a"
proof (cases a)
  case (OtherAlgorithm name)
  then show ?thesis using assms by simp
qed (simp_all add: algorithm_from_name_def to_lower_def)

end
