(* ===== verification/Deploy_Pool.thy ===== *)
theory Deploy_Pool
  imports Payload Walks Blocklace
begin

text \<open>
  \<open>execution/deploy_pool.rs\<close>: pending deploys keyed by signature, their expiry, the selection for a new
  block (all eligible deploys, or the oldest and the newest under a cap), and the signatures already used
  in the ancestry of the new block.
\<close>

section \<open>The pool\<close>

record deploy_pool_config =
  max_user_deploys_per_block :: nat
  deploy_lifespan :: nat
  min_phlo_price :: nat

record deploy_pool =
  pool_deploys :: "(byte list \<times> signed_deploy) list"
  pool_config :: deploy_pool_config

datatype pool_error = PoolDuplicate | InsufficientPhloPrice (required: nat) (actual_price: nat) | EmptySignature

definition default_pool_config :: deploy_pool_config where
  "default_pool_config = \<lparr>max_user_deploys_per_block = 32, deploy_lifespan = 50, min_phlo_price = 1\<rparr>"

definition new_pool :: "deploy_pool_config \<Rightarrow> deploy_pool" where
  "new_pool cfg = \<lparr>pool_deploys = [], pool_config = cfg\<rparr>"

definition pool_add :: "deploy_pool \<Rightarrow> signed_deploy \<Rightarrow> pool_error + deploy_pool" where
  "pool_add pool d =
     (if deploy_signature d = [] then Inl EmptySignature
      else if phlo_price (the_deploy d) < min_phlo_price (pool_config pool)
      then Inl (InsufficientPhloPrice (min_phlo_price (pool_config pool)) (phlo_price (the_deploy d)))
      else if deploy_signature d \<in> set (map fst (pool_deploys pool)) then Inl PoolDuplicate
      else Inr (pool\<lparr>pool_deploys := AList.update (deploy_signature d) d (pool_deploys pool)\<rparr>))"

definition pool_remove :: "deploy_pool \<Rightarrow> byte list \<Rightarrow> bool \<times> deploy_pool" where
  "pool_remove pool sig =
     (sig \<in> set (map fst (pool_deploys pool)), pool\<lparr>pool_deploys := AList.delete sig (pool_deploys pool)\<rparr>)"

definition is_block_expired :: "nat \<Rightarrow> nat \<Rightarrow> nat \<Rightarrow> bool" where
  "is_block_expired valid_after current lifespan =
     (case checked_sub current lifespan of Some earliest \<Rightarrow> valid_after \<le> earliest | None \<Rightarrow> False)"

definition unexpired :: "nat \<Rightarrow> nat \<Rightarrow> nat \<Rightarrow> signed_deploy \<Rightarrow> bool" where
  "unexpired lifespan current now d \<longleftrightarrow>
     \<not> is_block_expired (valid_after_block_number (the_deploy d)) current lifespan \<and>
     (case expiration_timestamp (the_deploy d) of None \<Rightarrow> True | Some e \<Rightarrow> now \<le> e)"

definition prune_expired :: "deploy_pool \<Rightarrow> nat \<Rightarrow> nat \<Rightarrow> byte list list \<times> deploy_pool" where
  "prune_expired pool current now =
     (let keep = (\<lambda>(sig, d). unexpired (deploy_lifespan (pool_config pool)) current now d)
      in (map fst (filter (\<lambda>e. \<not> keep e) (pool_deploys pool)),
          pool\<lparr>pool_deploys := filter keep (pool_deploys pool)\<rparr>))"

section \<open>Selection\<close>

definition eligible :: "deploy_pool \<Rightarrow> nat \<Rightarrow> nat \<Rightarrow> byte list list \<Rightarrow> signed_deploy \<Rightarrow> bool" where
  "eligible pool current now in_scope d \<longleftrightarrow>
     valid_after_block_number (the_deploy d) \<le> current \<and>
     unexpired (deploy_lifespan (pool_config pool)) current now d \<and> deploy_signature d \<notin> set in_scope"

definition deploy_age :: "signed_deploy \<Rightarrow> nat \<times> nat \<times> byte list" where
  "deploy_age d = (valid_after_block_number (the_deploy d), deploy_timestamp (the_deploy d), deploy_signature d)"

text \<open>\<open>cap - 1\<close> of a \<open>usize\<close>, as a build without overflow checks computes it.\<close>

definition cap_minus_one :: "nat \<Rightarrow> nat" where
  "cap_minus_one cap = (if cap = 0 then 2 ^ 64 - 1 else cap - 1)"

definition select_for_block :: "deploy_pool \<Rightarrow> nat \<Rightarrow> nat \<Rightarrow> byte list list \<Rightarrow> signed_deploy list \<times> bool" where
  "select_for_block pool current now in_scope =
     (let valid = filter (eligible pool current now in_scope) (map snd (pool_deploys pool));
          cap = max_user_deploys_per_block (pool_config pool) in
      if length valid \<le> cap then (valid, False)
      else
        let sorted = sort_key deploy_age valid in
        (if cap = 1 then [last sorted] else take (cap_minus_one cap) sorted @ [last sorted], True))"

section \<open>Signatures in scope\<close>

definition scope_payload ::
  "(byte list \<Rightarrow> cordial_block_payload option) \<Rightarrow> blocklace \<Rightarrow> block_identity \<Rightarrow> (block_content \<times> cordial_block_payload) option" where
  "scope_payload parse bl i =
     (case content_of bl i of None \<Rightarrow> None | Some c \<Rightarrow> map_option (Pair c) (parse (payload c)))"

definition in_window ::
  "(byte list \<Rightarrow> cordial_block_payload option) \<Rightarrow> blocklace \<Rightarrow> nat \<Rightarrow> block_identity \<Rightarrow> (block_content \<times> cordial_block_payload) option" where
  "in_window parse bl earliest i =
     (case scope_payload parse bl i of None \<Rightarrow> None
      | Some (c, p) \<Rightarrow> if block_number (payload_state p) < earliest then None else Some (c, p))"

definition scope_succs ::
  "(byte list \<Rightarrow> cordial_block_payload option) \<Rightarrow> blocklace \<Rightarrow> nat \<Rightarrow> block_identity \<Rightarrow> block_identity list" where
  "scope_succs parse bl earliest i = (case in_window parse bl earliest i of None \<Rightarrow> [] | Some (c, p) \<Rightarrow> predecessors c)"

definition scope_sigs ::
  "(byte list \<Rightarrow> cordial_block_payload option) \<Rightarrow> blocklace \<Rightarrow> nat \<Rightarrow> block_identity \<Rightarrow> byte list list" where
  "scope_sigs parse bl earliest i =
     (case in_window parse bl earliest i of None \<Rightarrow> []
      | Some (c, p) \<Rightarrow> map (\<lambda>pd. deploy_signature (processed_of pd)) (payload_deploys p))"

text \<open>Every identity the walk can meet: the start and the references of stored blocks.\<close>

definition scope_universe :: "blocklace \<Rightarrow> block_identity list \<Rightarrow> block_identity list" where
  "scope_universe bl preds = preds @ concat (map (\<lambda>(i, c). predecessors c) (blocks bl))"

definition compute_deploys_in_scope ::
  "(byte list \<Rightarrow> cordial_block_payload option) \<Rightarrow> blocklace \<Rightarrow> block_identity list \<Rightarrow> nat \<Rightarrow> nat \<Rightarrow> byte list list" where
  "compute_deploys_in_scope parse bl preds current lifespan =
     (let earliest = current - lifespan
      in remdups (concat (map (scope_sigs parse bl earliest)
           (pop_walk (scope_universe bl preds) (scope_succs parse bl earliest) (rev preds) []))))"

section \<open>Invariant of the pool\<close>

definition pool_inv :: "deploy_pool \<Rightarrow> bool" where
  "pool_inv pool \<longleftrightarrow> distinct (map fst (pool_deploys pool)) \<and>
     (\<forall>(sig, d) \<in> set (pool_deploys pool). sig = deploy_signature d \<and> sig \<noteq> [] \<and>
        min_phlo_price (pool_config pool) \<le> phlo_price (the_deploy d))"

inductive pool_reachable :: "deploy_pool_config \<Rightarrow> deploy_pool \<Rightarrow> bool" for cfg where
  start: "pool_reachable cfg (new_pool cfg)"
| add: "pool_reachable cfg pool \<Longrightarrow> pool_add pool d = Inr pool' \<Longrightarrow> pool_reachable cfg pool'"
| remove: "pool_reachable cfg pool \<Longrightarrow> pool_reachable cfg (snd (pool_remove pool sig))"
| prune: "pool_reachable cfg pool \<Longrightarrow> pool_reachable cfg (snd (prune_expired pool current now))"

lemma pool_add_Inr:
  assumes "pool_add pool d = Inr pool'"
  shows "pool_deploys pool' = AList.update (deploy_signature d) d (pool_deploys pool)" "pool_config pool' = pool_config pool"
    "deploy_signature d \<noteq> []" "min_phlo_price (pool_config pool) \<le> phlo_price (the_deploy d)"
    "deploy_signature d \<notin> set (map fst (pool_deploys pool))"
  using assms by (auto simp: pool_add_def simp del: set_map split: if_splits)

lemma pool_inv_add:
  assumes "pool_inv pool" "pool_add pool d = Inr pool'"
  shows "pool_inv pool'"
proof -
  note a = pool_add_Inr [OF assms(2)]
  have "set (pool_deploys pool') = insert (deploy_signature d, d) (set (pool_deploys pool))"
    using assms(1) a(1,5) image_eqI [of _ fst] by (force simp: pool_inv_def set_AList_update)
  then show ?thesis using assms(1) a by (auto simp: pool_inv_def distinct_update)
qed

lemma pool_inv_subset:
  assumes "pool_inv pool" "pool_config pool' = pool_config pool" "pool_deploys pool' = filter P (pool_deploys pool)"
  shows "pool_inv pool'"
  using assms by (auto simp: pool_inv_def distinct_map_filter)

lemma pool_reachable_inv: "pool_reachable cfg pool \<Longrightarrow> pool_inv pool \<and> pool_config pool = cfg"
proof (induction rule: pool_reachable.induct)
  case start
  then show ?case by (simp add: pool_inv_def new_pool_def)
next
  case (add pool d pool')
  then show ?case using pool_inv_add pool_add_Inr(2) by metis
next
  case (remove pool sig)
  then show ?case
    using pool_inv_subset [of pool "snd (pool_remove pool sig)" "\<lambda>(k, d). sig \<noteq> k"]
    by (simp add: pool_remove_def AList.delete_eq)
next
  case (prune pool current now)
  then show ?case
    using pool_inv_subset [of pool "snd (prune_expired pool current now)"
        "\<lambda>(sig, d). unexpired (deploy_lifespan (pool_config pool)) current now d"]
    by (simp add: prune_expired_def Let_def)
qed

section \<open>What is selected\<close>

lemma pool_values_distinct:
  assumes "pool_inv pool"
  shows "distinct (map deploy_signature (map snd (pool_deploys pool)))"
proof -
  have eq: "map deploy_signature (map snd (pool_deploys pool)) = map fst (pool_deploys pool)"
    using assms by (auto simp: pool_inv_def)
  show ?thesis unfolding eq using assms by (simp add: pool_inv_def)
qed

text \<open>The oldest \<open>n\<close> and the newest of a sorted list.\<close>

lemma ends_of_sorted:
  fixes k :: "'a \<Rightarrow> 'b::linorder"
  assumes s: "sorted (map k xs)" and dist: "distinct (map k xs)" and n: "n < length xs"
  shows "distinct (map k (take n xs @ [last xs]))" "set (take n xs @ [last xs]) \<subseteq> set xs"
    "\<And>x y. x \<in> set xs \<Longrightarrow> x \<notin> set (take n xs) \<Longrightarrow> y \<in> set (take n xs) \<Longrightarrow> k y \<le> k x"
    "\<And>x. x \<in> set xs \<Longrightarrow> k x \<le> k (last xs)"
proof -
  have ne: "xs \<noteq> []" using n by auto
  have split: "xs = take n xs @ drop n xs" by simp
  have "last (drop n xs) \<in> set (drop n xs)" using n by (intro last_in_set) simp
  then have l: "last xs \<in> set (drop n xs)" using n by (simp add: last_drop)
  have d: "distinct (map k (take n xs) @ map k (drop n xs))" using dist by (metis split map_append)
  then show "distinct (map k (take n xs @ [last xs]))" using l by auto
  show "set (take n xs @ [last xs]) \<subseteq> set xs" using ne by (auto dest: in_set_takeD)
  have srt: "sorted (map k (take n xs) @ map k (drop n xs))" using s by (metis split map_append)
  show "k y \<le> k x" if "x \<in> set xs" "x \<notin> set (take n xs)" "y \<in> set (take n xs)" for x y
  proof -
    have "x \<in> set (drop n xs)" using that(1,2) by (metis UnE set_append split)
    then show ?thesis using srt that(3) by (auto simp: sorted_append)
  qed
  show "k x \<le> k (last xs)" if x: "x \<in> set xs" for x
  proof -
    obtain i where "i < length xs" "xs ! i = x" using x unfolding in_set_conv_nth by blast
    then show ?thesis using s ne sorted_nth_mono [of "map k xs" i "length xs - 1"] by (simp add: last_conv_nth)
  qed
qed

lemma select_spec:
  fixes current now in_scope
  assumes inv: "pool_inv pool" and cap: "1 \<le> max_user_deploys_per_block (pool_config pool)"
  defines "able \<equiv> filter (eligible pool current now in_scope) (map snd (pool_deploys pool))"
  assumes sel: "select_for_block pool current now in_scope = (chosen, hit)"
  shows "distinct (map deploy_signature chosen)" "set chosen \<subseteq> set able"
    "length chosen = min (max_user_deploys_per_block (pool_config pool)) (length able)"
    "hit \<longleftrightarrow> max_user_deploys_per_block (pool_config pool) < length able"
    "\<not> hit \<Longrightarrow> set chosen = set able"
    "hit \<Longrightarrow> \<exists>newest \<in> set chosen. (\<forall>d \<in> set able. deploy_age d \<le> deploy_age newest) \<and>
       (\<forall>d \<in> set able - set chosen. \<forall>c \<in> set chosen - {newest}. deploy_age c \<le> deploy_age d)"
proof -
  let ?cap = "max_user_deploys_per_block (pool_config pool)" and ?s = "sort_key deploy_age able"
  have dsig: "distinct (map deploy_signature able)"
    unfolding able_def by (rule distinct_map_filter [OF pool_values_distinct [OF inv]])
  have inj: "deploy_age a = deploy_age b \<Longrightarrow> deploy_signature a = deploy_signature b" for a b by (simp add: deploy_age_def)
  have dage: "distinct (map deploy_age ?s)"
  proof -
    have "inj_on deploy_signature (set able)" "distinct able" using dsig by (simp_all add: distinct_map)
    then have "inj_on deploy_age (set able)" using inj by (meson inj_onD inj_onI)
    then show ?thesis using \<open>distinct able\<close> by (simp add: distinct_map)
  qed
  have eq: "(chosen, hit) = (if length able \<le> ?cap then (able, False)
      else (if ?cap = 1 then [last ?s] else take (cap_minus_one ?cap) ?s @ [last ?s], True))"
    using sel unfolding select_for_block_def able_def Let_def by simp
  have "distinct (map deploy_signature chosen) \<and> set chosen \<subseteq> set able \<and> length chosen = min ?cap (length able) \<and>
    (hit \<longleftrightarrow> ?cap < length able) \<and> (\<not> hit \<longrightarrow> set chosen = set able) \<and>
    (hit \<longrightarrow> (\<exists>newest \<in> set chosen. (\<forall>d \<in> set able. deploy_age d \<le> deploy_age newest) \<and>
       (\<forall>d \<in> set able - set chosen. \<forall>c \<in> set chosen - {newest}. deploy_age c \<le> deploy_age d)))"
  proof (cases "length able \<le> ?cap")
    case True
    then show ?thesis using eq dsig by simp
  next
    case False
    have c: "chosen = take (?cap - 1) ?s @ [last ?s]" "hit"
      using eq False cap by (auto simp: cap_minus_one_def split: if_splits)
    have n: "?cap - 1 < length ?s" using False by simp
    note e = ends_of_sorted [OF sorted_sort_key dage n]
    have "distinct (map deploy_signature chosen)"
    proof -
      have "distinct chosen" using e(1) unfolding c(1) distinct_map by blast
      moreover have "inj_on deploy_signature (set chosen)"
      proof (rule inj_on_subset)
        show "inj_on deploy_signature (set able)" using dsig by (simp add: distinct_map)
        show "set chosen \<subseteq> set able" using e(2) unfolding c(1) by simp
      qed
      ultimately show ?thesis by (simp add: distinct_map)
    qed
    then show ?thesis using e False c cap by (auto intro!: bexI [of _ "last ?s"])
  qed
  then show "distinct (map deploy_signature chosen)" "set chosen \<subseteq> set able"
    "length chosen = min ?cap (length able)" "hit \<longleftrightarrow> ?cap < length able" "\<not> hit \<Longrightarrow> set chosen = set able"
    "hit \<Longrightarrow> \<exists>newest \<in> set chosen. (\<forall>d \<in> set able. deploy_age d \<le> deploy_age newest) \<and>
       (\<forall>d \<in> set able - set chosen. \<forall>c \<in> set chosen - {newest}. deploy_age c \<le> deploy_age d)"
    by blast+
qed

section \<open>What is in scope\<close>

interpretation scope: search_space "scope_universe bl preds" "scope_succs parse bl earliest"
  for bl preds parse earliest
proof unfold_locales
  fix x
  have "(r, c) \<in> set (blocks bl)" if "content_of bl x = Some c" "resolve_identity bl x = Some r" for r c
    using that by (auto simp: content_of_def dest: map_of_SomeD)
  then show "set (scope_succs parse bl earliest x) \<subseteq> set (scope_universe bl preds)"
    by (fastforce simp: scope_succs_def in_window_def scope_payload_def scope_universe_def content_of_def
        split: option.splits if_splits)
qed

lemma scope_spec:
  "set (compute_deploys_in_scope parse bl preds current lifespan) =
    {sig. \<exists>p \<in> set preds. \<exists>i. (p, i) \<in> {(x, y). y \<in> set (scope_succs parse bl (current - lifespan) x)}\<^sup>* \<and>
       sig \<in> set (scope_sigs parse bl (current - lifespan) i)}"
proof -
  have "set (rev preds) \<subseteq> set (scope_universe bl preds)" by (simp add: scope_universe_def)
  note scope.pop_walk_reach [OF this]
  then show ?thesis by (auto simp: compute_deploys_in_scope_def Let_def scope.edge_def)
qed

end
