(* ===== verification/Runtime.thy ===== *)
theory Runtime
  imports Payload
begin

text \<open>
  \<open>execution/runtime.rs\<close>: the interface of an execution engine, and the deterministic runtime that stands
  in for it.  The digest is third-party code and a parameter; the bytes it is applied to are the program's
  own, and they determine the outcome they commit to.
\<close>

section \<open>Model\<close>

datatype system_deploy_request = SlashRequest node_id "byte list" | CloseBlockRequest

record execution_request =
  req_pre_state_hash :: "byte list"
  req_deploys :: "signed_deploy list"
  req_system_deploys :: "system_deploy_request list"
  req_bonds :: "bond list"
  req_block_number :: nat

record execution_result =
  res_post_state_hash :: "byte list"
  res_processed :: "processed_deploy list"
  res_rejected :: "rejected_deploy list"
  res_system :: "processed_system_deploy list"
  res_new_bonds :: "bond list"

datatype runtime_error = UnknownPreState | UnsupportedDeploySignatureAlgorithm string
  | InvalidDeploySignature | InvalidDeploy string | InternalError string

definition validate_invalid_block_hash :: "byte list \<Rightarrow> nat + unit" where
  "validate_invalid_block_hash h = (if length h \<noteq> 32 then Inl (length h) else Inr ())"

text \<open>
  \<open>validate_post_state\<close> is a method of the interface: it runs whichever \<open>execute\<close> the runtime has.
\<close>

definition validate_post_state ::
  "('s \<Rightarrow> execution_request \<Rightarrow> (runtime_error + execution_result) \<times> 's) \<Rightarrow> 's \<Rightarrow> execution_request \<Rightarrow> byte list
     \<Rightarrow> (runtime_error + bool) \<times> 's" where
  "validate_post_state execute st req declared =
     (case execute st req of (Inl e, st') \<Rightarrow> (Inl e, st')
      | (Inr res, st') \<Rightarrow> (Inr (res_post_state_hash res = declared), st'))"

record mock_runtime =
  known_states :: "byte list list"
  permissive :: bool
  slashed :: "(node_id \<times> nat) list"

definition strict_runtime :: mock_runtime where
  "strict_runtime = \<lparr>known_states = [[]], permissive = False, slashed = []\<rparr>"

definition permissive_runtime :: mock_runtime where
  "permissive_runtime = \<lparr>known_states = [], permissive = True, slashed = []\<rparr>"

definition process_deploy :: "signed_deploy \<Rightarrow> processed_deploy" where
  "process_deploy d = (let natural_cost = length (deploy_term (the_deploy d)) in
     \<lparr>processed_of = d, deploy_cost = min natural_cost (phlo_limit (the_deploy d)),
      is_failed = (natural_cost > phlo_limit (the_deploy d))\<rparr>)"

fun classify_deploys ::
  "signed_deploy list \<Rightarrow> processed_deploy list \<Rightarrow> rejected_deploy list \<Rightarrow> processed_deploy list \<times> rejected_deploy list" where
  "classify_deploys [] processed rejected = (processed, rejected)"
| "classify_deploys (d # ds) processed rejected =
     (if deploy_signature d = []
      then classify_deploys ds processed (rejected @ [\<lparr>rejected_of = d, reject_reason = BadSignature\<rparr>])
      else classify_deploys ds (processed @ [process_deploy d]) rejected)"

definition prior_stake :: "node_id \<Rightarrow> bond list \<Rightarrow> nat" where
  "prior_stake v bs = (case List.find (\<lambda>b. bond_validator b = v) bs of None \<Rightarrow> 0 | Some b \<Rightarrow> bond_stake b)"

definition slashed_of :: "(node_id \<times> nat) list \<Rightarrow> node_id \<Rightarrow> nat" where
  "slashed_of m v = (case map_of m v of None \<Rightarrow> 0 | Some s \<Rightarrow> s)"

text \<open>The running total of slashed stake is a \<open>u64\<close> and wraps in a build without overflow checks.\<close>

fun run_system ::
  "system_deploy_request list \<Rightarrow> bond list \<Rightarrow> (node_id \<times> nat) list \<Rightarrow> processed_system_deploy list
     \<Rightarrow> bond list \<times> (node_id \<times> nat) list \<times> processed_system_deploy list" where
  "run_system [] bs sl out = (bs, sl, out)"
| "run_system (SlashRequest v h # reqs) bs sl out =
     (let s = prior_stake v bs in
      run_system reqs (filter (\<lambda>b. bond_validator b \<noteq> v) bs)
        (AList.update v ((slashed_of sl v + s) mod 2 ^ 64) sl) (out @ [Slash v (s > 0)]))"
| "run_system (CloseBlockRequest # reqs) bs sl out = run_system reqs bs sl (out @ [CloseBlock True])"

definition flag_byte :: "bool \<Rightarrow> byte list" where
  "flag_byte b = [if b then 1 else 0]"

definition processed_bytes :: "processed_deploy \<Rightarrow> byte list" where
  "processed_bytes pd = u64_le (length (deploy_signature (processed_of pd))) @ deploy_signature (processed_of pd) @
     u64_le (deploy_cost pd) @ flag_byte (is_failed pd)"

fun system_bytes :: "processed_system_deploy \<Rightarrow> byte list" where
  "system_bytes (Slash v ok) = [0] @ u64_le (length (node_bytes v)) @ node_bytes v @ flag_byte ok"
| "system_bytes (CloseBlock ok) = [1] @ flag_byte ok"

definition bond_bytes :: "bond \<Rightarrow> byte list" where
  "bond_bytes b = u64_le (length (node_bytes (bond_validator b))) @ node_bytes (bond_validator b) @ u64_le (bond_stake b)"

definition sorted_bonds :: "bond list \<Rightarrow> bond list" where
  "sorted_bonds bs = sort_key (\<lambda>b. node_bytes (bond_validator b)) bs"

definition mock_state_input ::
  "byte list \<Rightarrow> processed_deploy list \<Rightarrow> processed_system_deploy list \<Rightarrow> bond list \<Rightarrow> nat \<Rightarrow> byte list" where
  "mock_state_input pre processed system bs n =
     u64_le (length pre) @ pre @ u64_le n @
     u64_le (length processed) @ concat (map processed_bytes processed) @
     u64_le (length system) @ concat (map system_bytes system) @
     u64_le (length (sorted_bonds bs)) @ concat (map bond_bytes (sorted_bonds bs))"

definition compute_mock_post_state ::
  "(byte list \<Rightarrow> byte list) \<Rightarrow> byte list \<Rightarrow> processed_deploy list \<Rightarrow> processed_system_deploy list \<Rightarrow> bond list \<Rightarrow> nat \<Rightarrow> byte list" where
  "compute_mock_post_state digest pre processed system bs n = digest (mock_state_input pre processed system bs n)"

definition execute_block ::
  "(byte list \<Rightarrow> byte list) \<Rightarrow> mock_runtime \<Rightarrow> execution_request \<Rightarrow> (runtime_error + execution_result) \<times> mock_runtime" where
  "execute_block digest rt req =
     (if \<not> permissive rt \<and> req_pre_state_hash req \<notin> set (known_states rt) then (Inl UnknownPreState, rt)
      else
        let (processed, rejected) = classify_deploys (req_deploys req) [] [];
            (new_bonds, sl, system) = run_system (req_system_deploys req) (req_bonds req) (slashed rt) [];
            post = compute_mock_post_state digest (req_pre_state_hash req) processed system new_bonds (req_block_number req)
        in (Inr \<lparr>res_post_state_hash = post, res_processed = processed, res_rejected = rejected,
                 res_system = system, res_new_bonds = new_bonds\<rparr>,
            rt\<lparr>known_states := List.insert post (known_states rt), slashed := sl\<rparr>))"

section \<open>What execution does\<close>

lemma classify_deploys_eq:
  "classify_deploys ds ps rs =
     (ps @ map process_deploy (filter (\<lambda>d. deploy_signature d \<noteq> []) ds),
      rs @ map (\<lambda>d. \<lparr>rejected_of = d, reject_reason = BadSignature\<rparr>) (filter (\<lambda>d. deploy_signature d = []) ds))"
  by (induction ds ps rs rule: classify_deploys.induct) auto

definition mock_result ::
  "(byte list \<Rightarrow> byte list) \<Rightarrow> execution_request \<Rightarrow> processed_system_deploy list \<Rightarrow> bond list \<Rightarrow> execution_result" where
  "mock_result digest req sys bs =
     (let processed = map process_deploy (filter (\<lambda>d. deploy_signature d \<noteq> []) (req_deploys req)) in
      \<lparr>res_post_state_hash = compute_mock_post_state digest (req_pre_state_hash req) processed sys bs (req_block_number req),
       res_processed = processed,
       res_rejected = map (\<lambda>d. \<lparr>rejected_of = d, reject_reason = BadSignature\<rparr>) (filter (\<lambda>d. deploy_signature d = []) (req_deploys req)),
       res_system = sys, res_new_bonds = bs\<rparr>)"

lemma execute_known:
  assumes "permissive rt \<or> req_pre_state_hash req \<in> set (known_states rt)"
    and "run_system (req_system_deploys req) (req_bonds req) (slashed rt) [] = (bs, sl, sys)"
  shows "execute_block digest rt req = (Inr (mock_result digest req sys bs),
    rt\<lparr>known_states := List.insert (res_post_state_hash (mock_result digest req sys bs)) (known_states rt), slashed := sl\<rparr>)"
proof -
  have known: "\<not> (\<not> permissive rt \<and> req_pre_state_hash req \<notin> set (known_states rt))" using assms(1) by blast
  show ?thesis
    unfolding execute_block_def if_not_P [OF known] assms(2) classify_deploys_eq mock_result_def Let_def by simp
qed

definition slash_targets :: "system_deploy_request list \<Rightarrow> node_id set" where
  "slash_targets reqs = {v. \<exists>h. SlashRequest v h \<in> set reqs}"

lemma slash_targets_simps [simp]:
  "slash_targets [] = {}" "slash_targets (SlashRequest v h # reqs) = insert v (slash_targets reqs)"
  "slash_targets (CloseBlockRequest # reqs) = slash_targets reqs"
  by (auto simp: slash_targets_def)

lemma run_system_bonds:
  "fst (run_system reqs bs sl out) = filter (\<lambda>b. bond_validator b \<notin> slash_targets reqs) bs"
proof (induction reqs bs sl out rule: run_system.induct)
  case (2 v h reqs bs sl out)
  then show ?case by (simp add: Let_def conj_commute)
qed simp_all

text \<open>Stake is neither created nor lost: what leaves the bonds is added to the slashed total.\<close>

definition total_bonds :: "bond list \<Rightarrow> nat" where
  "total_bonds bs = sum_list (map bond_stake bs)"

definition total_slashed :: "(node_id \<times> nat) list \<Rightarrow> nat" where
  "total_slashed sl = sum_list (map snd sl)"

lemma total_slashed_update:
  "distinct (map fst sl) \<Longrightarrow> total_slashed (AList.update v (slashed_of sl v + s) sl) = total_slashed sl + s"
  by (induction sl) (auto simp: total_slashed_def slashed_of_def split: option.splits if_splits)

lemma find_bond_Nil: "v \<notin> bond_validator ` set bs \<Longrightarrow> prior_stake v bs = 0"
  by (induction bs) (auto simp: prior_stake_def)

lemma total_bonds_remove:
  "distinct (map bond_validator bs) \<Longrightarrow> total_bonds (filter (\<lambda>b. bond_validator b \<noteq> v) bs) + prior_stake v bs = total_bonds bs"
proof (induction bs)
  case (Cons b bs)
  show ?case
  proof (cases "bond_validator b = v")
    case True
    then have "v \<notin> bond_validator ` set bs" using Cons.prems by auto
    then have "filter (\<lambda>b. bond_validator b \<noteq> v) bs = bs" by (auto intro: filter_True)
    then show ?thesis using True by (simp add: total_bonds_def prior_stake_def)
  next
    case False
    then show ?thesis using Cons by (simp add: total_bonds_def prior_stake_def)
  qed
qed (simp add: total_bonds_def prior_stake_def)

lemma slashed_le_total: "slashed_of sl v \<le> total_slashed sl"
proof (cases "map_of sl v")
  case (Some s)
  then have "s \<in> set (map snd sl)" by (force dest: map_of_SomeD)
  then have "s \<le> sum_list (map snd sl)" by (rule member_le_sum_list) simp
  then show ?thesis using Some by (simp add: slashed_of_def total_slashed_def)
qed (simp add: slashed_of_def)

lemma run_system_conserves:
  assumes "distinct (map bond_validator bs)" "distinct (map fst sl)" "total_bonds bs + total_slashed sl < 2 ^ 64"
  shows "case run_system reqs bs sl out of (bs', sl', out') \<Rightarrow>
    distinct (map fst sl') \<and> total_bonds bs' + total_slashed sl' = total_bonds bs + total_slashed sl"
  using assms
proof (induction reqs bs sl out rule: run_system.induct)
  case (2 v h reqs bs sl out)
  let ?s = "prior_stake v bs" and ?bs = "filter (\<lambda>b. bond_validator b \<noteq> v) bs"
  have r: "total_bonds ?bs + ?s = total_bonds bs" by (rule total_bonds_remove [OF 2(2)])
  have "slashed_of sl v + ?s < 2 ^ 64" using r slashed_le_total [of sl v] 2(4) by linarith
  then have m: "(slashed_of sl v + ?s) mod 2 ^ 64 = slashed_of sl v + ?s" by simp
  note u = total_slashed_update [OF 2(3), of v ?s]
  have "distinct (map bond_validator ?bs)" using 2(2) by (rule distinct_map_filter)
  moreover have "distinct (map fst (AList.update v (slashed_of sl v + ?s) sl))" using 2(3) by (rule distinct_update)
  moreover have "total_bonds ?bs + total_slashed (AList.update v (slashed_of sl v + ?s) sl) = total_bonds bs + total_slashed sl"
    using r u by simp
  ultimately show ?case using 2(1) [OF refl] 2(4) unfolding run_system.simps Let_def m by simp
qed simp_all

section \<open>The hashed bytes determine the outcome\<close>

definition outcome_fits :: "processed_deploy list \<Rightarrow> processed_system_deploy list \<Rightarrow> bond list \<Rightarrow> bool" where
  "outcome_fits ps sys bs \<longleftrightarrow> length ps < 2 ^ 64 \<and> length sys < 2 ^ 64 \<and> length bs < 2 ^ 64 \<and>
     (\<forall>p \<in> set ps. length (deploy_signature (processed_of p)) < 2 ^ 64 \<and> deploy_cost p < 2 ^ 64) \<and>
     (\<forall>d \<in> set sys. case d of Slash v ok \<Rightarrow> length (node_bytes v) < 2 ^ 64 | CloseBlock ok \<Rightarrow> True) \<and>
     (\<forall>b \<in> set bs. length (node_bytes (bond_validator b)) < 2 ^ 64 \<and> bond_stake b < 2 ^ 64)"

definition processed_key :: "processed_deploy \<Rightarrow> byte list \<times> nat \<times> bool" where
  "processed_key pd = (deploy_signature (processed_of pd), deploy_cost pd, is_failed pd)"

lemma flag_byte_inject: "flag_byte a @ r = flag_byte b @ r' \<longleftrightarrow> a = b \<and> r = r'"
  by (auto simp: flag_byte_def)

lemma processed_bytes_inject:
  assumes "length (deploy_signature (processed_of p)) < 2 ^ 64 \<and> deploy_cost p < 2 ^ 64"
    "length (deploy_signature (processed_of q)) < 2 ^ 64 \<and> deploy_cost q < 2 ^ 64"
    and "processed_bytes p @ r = processed_bytes q @ r'"
  shows "processed_key p = processed_key q \<and> r = r'"
proof -
  have f: "deploy_signature (processed_of p) = deploy_signature (processed_of q) \<and>
      u64_le (deploy_cost p) @ flag_byte (is_failed p) @ r = u64_le (deploy_cost q) @ flag_byte (is_failed q) @ r'"
    using assms by (intro le.field_inject) (simp_all add: processed_bytes_def)
  then have "deploy_cost p = deploy_cost q \<and> flag_byte (is_failed p) @ r = flag_byte (is_failed q) @ r'"
    using assms by (intro le.number_inject) simp_all
  then show ?thesis using f by (simp add: flag_byte_inject processed_key_def)
qed

lemma system_bytes_inject:
  assumes "case a of Slash v ok \<Rightarrow> length (node_bytes v) < 2 ^ 64 | CloseBlock ok \<Rightarrow> True"
    "case b of Slash v ok \<Rightarrow> length (node_bytes v) < 2 ^ 64 | CloseBlock ok \<Rightarrow> True"
    and eq: "system_bytes a @ r = system_bytes b @ r'"
  shows "a = b \<and> r = r'"
proof (cases a)
  case (Slash v ok)
  then obtain v' ok' where b: "b = Slash v' ok'" using eq by (cases b) auto
  have "node_bytes v = node_bytes v' \<and> flag_byte ok @ r = flag_byte ok' @ r'"
    using assms unfolding Slash b by (intro le.field_inject) simp_all
  then show ?thesis unfolding Slash b by (simp add: flag_byte_inject node_id.expand)
next
  case (CloseBlock ok)
  then obtain ok' where b: "b = CloseBlock ok'" using eq by (cases b) auto
  then show ?thesis using eq CloseBlock by (simp add: flag_byte_inject)
qed

lemma bond_bytes_inject:
  assumes "length (node_bytes (bond_validator a)) < 2 ^ 64 \<and> bond_stake a < 2 ^ 64"
    "length (node_bytes (bond_validator b)) < 2 ^ 64 \<and> bond_stake b < 2 ^ 64"
    and "bond_bytes a @ r = bond_bytes b @ r'"
  shows "a = b \<and> r = r'"
proof -
  have f: "node_bytes (bond_validator a) = node_bytes (bond_validator b) \<and> u64_le (bond_stake a) @ r = u64_le (bond_stake b) @ r'"
    using assms by (intro le.field_inject) (simp_all add: bond_bytes_def)
  then have "bond_stake a = bond_stake b \<and> r = r'" using assms by (intro le.number_inject) simp_all
  then show ?thesis using f by (simp add: node_id.expand)
qed

text \<open>A counted sequence of items, each recognisable from the left.\<close>

lemma counted_inject:
  assumes item: "\<And>x y r r'. x \<in> A \<Longrightarrow> y \<in> A \<Longrightarrow> f x @ r = f y @ r' \<Longrightarrow> g x = g y \<and> r = r'"
    and "set xs \<subseteq> A" "set ys \<subseteq> A" "length xs < 2 ^ 64" "length ys < 2 ^ 64"
    and eq: "u64_le (length xs) @ concat (map f xs) @ r = u64_le (length ys) @ concat (map f ys) @ r'"
  shows "map g xs = map g ys \<and> r = r'"
proof -
  have "length xs = length ys \<and> concat (map f xs) @ r = concat (map f ys) @ r'"
    using le.number_inject [OF assms(4,5) eq] .
  then show ?thesis using concat_inject [of A f g xs ys r r', OF item] assms(2,3) by blast
qed

lemma mock_state_input_inject:
  assumes fits: "outcome_fits ps sys bs" "outcome_fits ps' sys' bs'"
    and "length pre < 2 ^ 64" "length pre' < 2 ^ 64" "n < 2 ^ 64" "n' < 2 ^ 64"
    and eq: "mock_state_input pre ps sys bs n = mock_state_input pre' ps' sys' bs' n'"
  shows "pre = pre'" "n = n'" "map processed_key ps = map processed_key ps'" "sys = sys'"
    "sorted_bonds bs = sorted_bonds bs'"
proof -
  let ?R3 = "\<lambda>bs. u64_le (length (sorted_bonds bs)) @ concat (map bond_bytes (sorted_bonds bs)) @ []"
  let ?R2 = "\<lambda>sys bs. u64_le (length sys) @ concat (map system_bytes sys) @ ?R3 bs"
  let ?R1 = "\<lambda>ps sys bs. u64_le (length ps) @ concat (map processed_bytes ps) @ ?R2 sys bs"
  have 1: "pre = pre' \<and> u64_le n @ ?R1 ps sys bs = u64_le n' @ ?R1 ps' sys' bs'"
    using assms(3,4) eq by (intro le.field_inject) (simp_all add: mock_state_input_def)
  have 2: "n = n' \<and> ?R1 ps sys bs = ?R1 ps' sys' bs'"
    using assms(5,6) 1 by (intro le.number_inject) simp_all
  let ?P = "{p. length (deploy_signature (processed_of p)) < 2 ^ 64 \<and> deploy_cost p < 2 ^ 64}"
    and ?S = "{d. case d of Slash v ok \<Rightarrow> length (node_bytes v) < 2 ^ 64 | CloseBlock ok \<Rightarrow> True}"
    and ?B = "{b. length (node_bytes (bond_validator b)) < 2 ^ 64 \<and> bond_stake b < 2 ^ 64}"
  have sub: "set ps \<subseteq> ?P" "set ps' \<subseteq> ?P" "set sys \<subseteq> ?S" "set sys' \<subseteq> ?S"
    "set (sorted_bonds bs) \<subseteq> ?B" "set (sorted_bonds bs') \<subseteq> ?B"
    using fits by (auto simp: outcome_fits_def sorted_bonds_def)
  have len: "length ps < 2 ^ 64" "length ps' < 2 ^ 64" "length sys < 2 ^ 64" "length sys' < 2 ^ 64"
    "length (sorted_bonds bs) < 2 ^ 64" "length (sorted_bonds bs') < 2 ^ 64"
    using fits by (auto simp: outcome_fits_def sorted_bonds_def)
  have 3: "map processed_key ps = map processed_key ps' \<and> ?R2 sys bs = ?R2 sys' bs'"
    by (rule counted_inject [OF processed_bytes_inject sub(1,2) len(1,2) conjunct2 [OF 2]]) simp_all
  have 4: "map (\<lambda>x. x) sys = map (\<lambda>x. x) sys' \<and> ?R3 bs = ?R3 bs'"
    by (rule counted_inject [OF system_bytes_inject sub(3,4) len(3,4) conjunct2 [OF 3]]) simp_all
  have 5: "map (\<lambda>x. x) (sorted_bonds bs) = map (\<lambda>x. x) (sorted_bonds bs') \<and> ([] :: byte list) = []"
    by (rule counted_inject [OF bond_bytes_inject sub(5,6) len(5,6) conjunct2 [OF 4]]) simp_all
  show "pre = pre'" "n = n'" "map processed_key ps = map processed_key ps'" "sys = sys'" "sorted_bonds bs = sorted_bonds bs'"
    using 1 2 3 4 5 by simp_all
qed

end
