(* ===== verification/Claims_Execution.thy ===== *)
theory Claims_Execution
  imports Scenario Pruning Deploy_Pool Runtime
begin

text \<open>
  The properties of checkpoint pruning, of the deploy pool, of the payload encoding and of the
  deterministic runtime.
\<close>

section \<open>Pruning\<close>

text \<open>
  C17.  Pruning keeps what it does not remove.  From a well-formed, closed and acyclic store, when the
  previous checkpoint, if any, is the new one or among the removed blocks, a successful prune removes
  only blocks strictly below the checkpoint, leaves a well-formed, closed and acyclic store with exactly
  the other blocks, and changes the depth of no retained block.  A first prune always meets the
  condition on the previous checkpoint; a later one need not, and then the conclusion can fail
  (\<open>second_prune_loses_depth\<close>).
\<close>

theorem prune_preserves_retained_store:
  assumes "wf_lace bl" "is_closed bl" "acyclic_lace bl" "old_checkpoint_gone bl cp"
    and "prune_below_checkpoint bl cp = Inr (rep, bl')"
  shows "wf_lace bl' \<and> is_closed bl' \<and> acyclic_lace bl' \<and> checkpoint bl' = Some cp \<and>
    set (block_ids bl') = set (block_ids bl) - set (rep_removed rep) \<and>
    set (rep_removed rep) \<subseteq> set (observe bl cp) - {cp} \<and>
    (\<forall>i \<in> set (block_ids bl'). depth bl' i = depth bl i)"
proof -
  note p = prune_Inr [OF assms(5) [unfolded prune_below_checkpoint_def]]
  obtain d where d: "depth bl cp = Some d" and
    c: "checkpoint bl = Some cp \<and> bl' = bl \<and> rep_removed rep = [] \<or>
      checkpoint bl \<noteq> Some cp \<and> advance_checkpoint bl cp d (order_prefix_of bl cp) [] = (rep, bl')"
    using p(2) by blast
  from c show ?thesis
  proof
    assume "checkpoint bl = Some cp \<and> bl' = bl \<and> rep_removed rep = []"
    then show ?thesis using assms(1-3) by simp
  next
    assume "checkpoint bl \<noteq> Some cp \<and> advance_checkpoint bl cp d (order_prefix_of bl cp) [] = (rep, bl')"
    then have adv: "advance_checkpoint bl cp d (order_prefix_of bl cp) [] = (rep, bl')" by blast
    have "depth bl' i = depth bl i" if "i \<in> set (block_ids bl')" for i
      by (rule advance_depth [OF assms(1-4) adv d p(1) resolve_stored [OF that]])
    then show ?thesis
      using advance_wf [OF assms(1) adv] advance_closed [OF assms(1,2,4) adv] advance_acyclic [OF assms(1,3,4) adv]
        advance_store(2,4) [OF adv] advance_ids [OF adv] set_removable [of bl cp] by auto
  qed
qed

theorem prune_preserves_retained_store_witness:
  "\<exists>rep bl'. prune_below_checkpoint sc_lace sc_x = Inr (rep, bl') \<and> rep_removed rep = [sc_d] \<and> is_closed bl' \<and>
     depth bl' sc_l = depth sc_lace sc_l"
proof -
  have "\<not> isl (prune_below_checkpoint sc_lace sc_x)" by code_simp
  then obtain rep bl' where run: "prune_below_checkpoint sc_lace sc_x = Inr (rep, bl')"
    by (cases "prune_below_checkpoint sc_lace sc_x") auto
  have eval: "map_sum id (\<lambda>(rep, bl'). (rep_removed rep, block_ids bl')) (prune_below_checkpoint sc_lace sc_x) =
      Inr ([sc_d], [sc_y, sc_x, sc_l])" by code_simp
  have "old_checkpoint_gone sc_lace sc_x" by code_simp
  from prune_preserves_retained_store [OF sc_lace_facts(1-3) this run] eval run
  show ?thesis by (simp del: set_map)
qed

definition pr_id :: "byte \<Rightarrow> byte \<Rightarrow> block_identity" where
  "pr_id h who = BlockIdentity [h] (NodeId [who]) []"

definition pr_block :: "byte \<Rightarrow> byte \<Rightarrow> block_identity list \<Rightarrow> block" where
  "pr_block h who ps = \<lparr>identity = pr_id h who, content = \<lparr>payload = [], predecessors = ps\<rparr>\<rparr>"

definition pr_accept :: "unit block_verifier" where
  "pr_accept c s who = Inr ()"

definition pr_insert :: "block \<Rightarrow> blocklace \<Rightarrow> blocklace" where
  "pr_insert b bl = (case insert_block bl b pr_accept of Inl e \<Rightarrow> bl | Inr bl' \<Rightarrow> bl')"

text \<open>A genesis 1, a block 2 on it, and two blocks 3 and 4 on 2; 4 is a tip that 3 does not see.\<close>

definition pr_store :: blocklace where
  "pr_store = fold pr_insert [pr_block 1 1 [], pr_block 2 1 [pr_id 1 1], pr_block 3 1 [pr_id 2 1], pr_block 4 2 [pr_id 2 1]]
     (new_blocklace 0)"

definition pr_prune :: "blocklace \<Rightarrow> block_identity \<Rightarrow> blocklace" where
  "pr_prune bl cp = (case prune_below_checkpoint bl cp of Inl e \<Rightarrow> bl | Inr (rep, bl') \<Rightarrow> bl')"

definition pr_removed :: "blocklace \<Rightarrow> block_identity \<Rightarrow> block_identity list option" where
  "pr_removed bl cp = (case prune_below_checkpoint bl cp of Inl e \<Rightarrow> None | Inr (rep, bl') \<Rightarrow> Some (rep_removed rep))"

text \<open>
  The hypothesis of the previous property on the old checkpoint cannot be dropped: on a store built by
  four insertions, a first prune at block 2 and a second at block 3 both succeed; block 2 stays because tip
  4 refers to it, but it is no longer a boundary, so the store is not closed and tip 4 has no depth, where
  it had depth 2 before.
\<close>

theorem second_prune_loses_depth:
  "is_closed pr_store \<and> pr_removed pr_store (pr_id 2 1) = Some [pr_id 1 1] \<and>
   is_closed (pr_prune pr_store (pr_id 2 1)) \<and> depth (pr_prune pr_store (pr_id 2 1)) (pr_id 4 2) = Some 2 \<and>
   pr_removed (pr_prune pr_store (pr_id 2 1)) (pr_id 3 1) = Some [] \<and>
   \<not> is_closed (pr_prune (pr_prune pr_store (pr_id 2 1)) (pr_id 3 1)) \<and>
   depth (pr_prune (pr_prune pr_store (pr_id 2 1)) (pr_id 3 1)) (pr_id 4 2) = None"
  by code_simp

section \<open>The deploy pool\<close>

text \<open>
  Selection for a block.  From any pool reached by adding, removing and pruning, with a positive cap,
  the chosen deploys are eligible, have distinct signatures and number the smaller of the cap and the
  eligible ones; when the cap is hit they are the newest eligible deploy and the oldest ones: no chosen
  deploy other than the newest is younger than an eligible one left out.
\<close>

theorem selection_is_oldest_plus_newest:
  fixes pool current now in_scope
  defines "able \<equiv> filter (eligible pool current now in_scope) (map snd (pool_deploys pool))"
  assumes "pool_reachable cfg pool" "1 \<le> max_user_deploys_per_block cfg"
    and "select_for_block pool current now in_scope = (chosen, hit)"
  shows "set chosen \<subseteq> set able \<and> distinct (map deploy_signature chosen) \<and>
    length chosen = min (max_user_deploys_per_block cfg) (length able) \<and>
    (hit \<longleftrightarrow> max_user_deploys_per_block cfg < length able) \<and>
    (if hit then \<exists>newest \<in> set chosen. (\<forall>d \<in> set able. deploy_age d \<le> deploy_age newest) \<and>
       (\<forall>d \<in> set able - set chosen. \<forall>c \<in> set chosen - {newest}. deploy_age c \<le> deploy_age d)
     else set chosen = set able)"
proof -
  have inv: "pool_inv pool" and cfg: "pool_config pool = cfg" using pool_reachable_inv [OF assms(2)] by auto
  have cap: "1 \<le> max_user_deploys_per_block (pool_config pool)" using assms(3) cfg by simp
  note s = select_spec [OF inv cap assms(4)]
  show ?thesis using s unfolding able_def cfg by simp
qed

definition dp_deploy :: "nat \<Rightarrow> signed_deploy" where
  "dp_deploy n = \<lparr>the_deploy = \<lparr>deploy_term = [1], deploy_timestamp = n, phlo_price = 1, phlo_limit = 5,
     valid_after_block_number = n, deploy_shard_id = ''root'', expiration_timestamp = None\<rparr>,
     deployer = [1], deploy_signature = [of_nat (n + 1)], signature_algorithm = Secp256k1\<rparr>"

definition dp_config :: "nat \<Rightarrow> deploy_pool_config" where
  "dp_config cap = \<lparr>max_user_deploys_per_block = cap, deploy_lifespan = 50, min_phlo_price = 1\<rparr>"

definition dp_pool :: "nat \<Rightarrow> deploy_pool" where
  "dp_pool cap = \<lparr>pool_deploys = map (\<lambda>n. (deploy_signature (dp_deploy n), dp_deploy n)) [0, 1, 2],
     pool_config = dp_config cap\<rparr>"

lemma dp_pool_reachable: "pool_reachable (dp_config 2) (dp_pool 2)"
proof -
  have 0: "pool_reachable (dp_config 2) (new_pool (dp_config 2))" by (rule pool_reachable.start)
  have 1: "pool_reachable (dp_config 2) \<lparr>pool_deploys = map (\<lambda>n. (deploy_signature (dp_deploy n), dp_deploy n)) [0],
      pool_config = dp_config 2\<rparr>" by (rule pool_reachable.add [OF 0, of "dp_deploy 0"]) code_simp
  have 2: "pool_reachable (dp_config 2) \<lparr>pool_deploys = map (\<lambda>n. (deploy_signature (dp_deploy n), dp_deploy n)) [0, 1],
      pool_config = dp_config 2\<rparr>" by (rule pool_reachable.add [OF 1, of "dp_deploy 1"]) code_simp
  show ?thesis by (rule pool_reachable.add [OF 2, of "dp_deploy 2"]) code_simp
qed

text \<open>
  A cap of zero does not mean no deploys: \<open>cap - 1\<close> wraps around, so every eligible deploy is taken
  and the newest of them twice.
\<close>

theorem zero_cap_selects_everything:
  assumes "max_user_deploys_per_block (pool_config pool) = 0"
    and "filter (eligible pool current now in_scope) (map snd (pool_deploys pool)) \<noteq> []" (is "?able \<noteq> []")
    and "length (pool_deploys pool) < 2 ^ 64"
  shows "select_for_block pool current now in_scope =
      (sort_key deploy_age ?able @ [last (sort_key deploy_age ?able)], True) \<and>
    last (sort_key deploy_age ?able) \<in> set ?able \<and>
    length (fst (select_for_block pool current now in_scope)) = length ?able + 1"
proof -
  have "length ?able \<le> length (map snd (pool_deploys pool))" by (rule length_filter_le)
  also have "\<dots> \<le> cap_minus_one 0" using assms(3) by (simp add: cap_minus_one_def)
  finally have "length (sort_key deploy_age ?able) \<le> cap_minus_one 0" unfolding length_sort .
  then have "take (cap_minus_one 0) (sort_key deploy_age ?able) = sort_key deploy_age ?able" by (rule take_all)
  then have sel: "select_for_block pool current now in_scope =
      (sort_key deploy_age ?able @ [last (sort_key deploy_age ?able)], True)"
    using assms(1,2) by (simp add: select_for_block_def Let_def)
  have ne: "sort_key deploy_age ?able \<noteq> []" using assms(2) unfolding sort_Nil_iff .
  then show ?thesis using last_in_set [OF ne] by (simp add: sel)
qed

text \<open>
  The deploys in scope are the signatures carried by the blocks reached from the given predecessors
  along predecessor references through stored blocks whose payload parses and whose number is inside the
  lifespan window; the walk does not continue below a block outside it.
\<close>

theorem deploys_in_scope_are_window_ancestry:
  "set (compute_deploys_in_scope parse bl preds current lifespan) =
    {sig. \<exists>p \<in> set preds. \<exists>i. (p, i) \<in> {(x, y). \<exists>c pl. in_window parse bl (current - lifespan) x = Some (c, pl) \<and>
         y \<in> set (predecessors c)}\<^sup>* \<and>
       (\<exists>c pl pd. in_window parse bl (current - lifespan) i = Some (c, pl) \<and> pd \<in> set (payload_deploys pl) \<and>
         sig = deploy_signature (processed_of pd))}"
proof -
  have e: "y \<in> set (scope_succs parse bl n x) \<longleftrightarrow> (\<exists>c pl. in_window parse bl n x = Some (c, pl) \<and> y \<in> set (predecessors c))" for n x y
    by (cases "in_window parse bl n x") (auto simp: scope_succs_def)
  have g: "sig \<in> set (scope_sigs parse bl n i) \<longleftrightarrow> (\<exists>c pl pd. in_window parse bl n i = Some (c, pl) \<and>
      pd \<in> set (payload_deploys pl) \<and> sig = deploy_signature (processed_of pd))" for n i sig
    by (cases "in_window parse bl n i") (auto simp: scope_sigs_def)
  show ?thesis unfolding scope_spec e g ..
qed

section \<open>Payloads\<close>

text \<open>
  A payload survives its encoding.  With a serializer that decodes what it encodes and whose legacy
  layout starts with a length-prefixed pre-state hash, a payload with a pre-state hash shorter than
  \<open>2 ^ 61\<close> bytes decodes to itself in either version, its authorizations are read back from either version
  and from the transport slot: a legacy payload is never mistaken for a marked one.
\<close>

theorem payload_round_trip:
  assumes "serializer_round_trip s p" "legacy_layout s p" "length (pre_state_hash (payload_state p)) < 2 ^ 61"
  shows "from_bytes s (to_bytes s p) = Some p \<and>
    por_authorizations_from_bytes s (to_bytes s p) = Some (por_authorizations p) \<and>
    decode_por_extra s (encode_por_extra s (por_authorizations p)) = Some (por_authorizations p)"
  using from_to_bytes [OF assms] by blast

definition px_serializer :: serializer where
  "px_serializer = \<lparr>
     ser_legacy = (\<lambda>(st, ds, rs, sys). u64_le (length (pre_state_hash st)) @ pre_state_hash st),
     ser_full = (\<lambda>p. u64_le (block_number (payload_state p))), ser_auths = (\<lambda>as. u64_le (length as)),
     de_legacy = (\<lambda>bytes. Some (legacy_part (genesis_payload []))),
     de_full = (\<lambda>bytes. Some (genesis_payload [])), de_auths = (\<lambda>bytes. Some [])\<rparr>"

section \<open>The deterministic runtime\<close>

text \<open>
  C18.  Execution.  A strict runtime executes exactly on the states it knows and a permissive one on any;
  after an execution the runtime also knows the resulting state, and after a refusal it is unchanged.
  Every deploy with a signature is processed, in order, at a cost within its limit, and the others are
  rejected; exactly the slashed validators leave the bonds.  If no validator has two bonds and the bonded
  and slashed stake together fit 64 bits, stake is conserved between the bonds and the slashed total; with
  two bonds of one slashed validator it is not (\<open>duplicate_bond_loses_stake\<close>).
\<close>

theorem execution_outcome:
  assumes "execute_block digest rt req = (res, rt')"
  shows "case res of
     Inl e \<Rightarrow> e = UnknownPreState \<and> rt' = rt \<and> \<not> permissive rt \<and> req_pre_state_hash req \<notin> set (known_states rt)
   | Inr out \<Rightarrow> (permissive rt \<or> req_pre_state_hash req \<in> set (known_states rt)) \<and>
       set (known_states rt') = insert (res_post_state_hash out) (set (known_states rt)) \<and>
       map processed_of (res_processed out) = filter (\<lambda>d. deploy_signature d \<noteq> []) (req_deploys req) \<and>
       map rejected_of (res_rejected out) = filter (\<lambda>d. deploy_signature d = []) (req_deploys req) \<and>
       (\<forall>pd \<in> set (res_processed out). deploy_cost pd \<le> phlo_limit (the_deploy (processed_of pd)) \<and>
          (is_failed pd \<longleftrightarrow> deploy_cost pd < length (deploy_term (the_deploy (processed_of pd))))) \<and>
       res_new_bonds out = filter (\<lambda>b. bond_validator b \<notin> slash_targets (req_system_deploys req)) (req_bonds req) \<and>
       (distinct (map bond_validator (req_bonds req)) \<and> distinct (map fst (slashed rt)) \<and>
          total_bonds (req_bonds req) + total_slashed (slashed rt) < 2 ^ 64 \<longrightarrow>
        total_bonds (res_new_bonds out) + total_slashed (slashed rt') = total_bonds (req_bonds req) + total_slashed (slashed rt))"
proof (cases "permissive rt \<or> req_pre_state_hash req \<in> set (known_states rt)")
  case False
  then show ?thesis using assms by (auto simp: execute_block_def)
next
  case True
  obtain bs sl sys where run: "run_system (req_system_deploys req) (req_bonds req) (slashed rt) [] = (bs, sl, sys)"
    by (cases "run_system (req_system_deploys req) (req_bonds req) (slashed rt) []")
  have bs: "bs = filter (\<lambda>b. bond_validator b \<notin> slash_targets (req_system_deploys req)) (req_bonds req)"
    using run_system_bonds [of "req_system_deploys req" "req_bonds req" "slashed rt" "[]"] run by simp
  have cons: "total_bonds bs + total_slashed sl = total_bonds (req_bonds req) + total_slashed (slashed rt)"
    if "distinct (map bond_validator (req_bonds req)) \<and> distinct (map fst (slashed rt)) \<and>
      total_bonds (req_bonds req) + total_slashed (slashed rt) < 2 ^ 64"
    using run_system_conserves [of "req_bonds req" "slashed rt" "req_system_deploys req" "[]"] that run by simp
  have cost: "deploy_cost (process_deploy d) \<le> phlo_limit (the_deploy (processed_of (process_deploy d))) \<and>
      (is_failed (process_deploy d) \<longleftrightarrow> deploy_cost (process_deploy d) < length (deploy_term (the_deploy (processed_of (process_deploy d)))))"
      and same: "processed_of (process_deploy d) = d" for d
    by (auto simp: process_deploy_def Let_def)
  have "(res, rt') = (Inr (mock_result digest req sys bs), rt\<lparr>known_states :=
      List.insert (res_post_state_hash (mock_result digest req sys bs)) (known_states rt), slashed := sl\<rparr>)"
    using execute_known [OF True run] assms by simp
  then have res: "res = Inr (mock_result digest req sys bs)" and rt': "rt' = rt\<lparr>known_states :=
      List.insert (res_post_state_hash (mock_result digest req sys bs)) (known_states rt), slashed := sl\<rparr>" by simp_all
  show ?thesis unfolding res rt' sum.case using True bs cons cost by (simp add: same comp_def mock_result_def Let_def)
qed

definition rx_request :: execution_request where
  "rx_request = \<lparr>req_pre_state_hash = [], req_deploys = [dp_deploy 0], req_system_deploys = [SlashRequest sc_A []],
     req_bonds = [\<lparr>bond_validator = sc_A, bond_stake = 5\<rparr>, \<lparr>bond_validator = sc_B, bond_stake = 7\<rparr>], req_block_number = 1\<rparr>"

theorem execution_outcome_witness:
  "\<exists>out rt'. execute_block (\<lambda>bytes. bytes) strict_runtime rx_request = (Inr out, rt') \<and>
     res_new_bonds out = [\<lparr>bond_validator = sc_B, bond_stake = 7\<rparr>] \<and>
     total_bonds (res_new_bonds out) + total_slashed (slashed rt') = total_bonds (req_bonds rx_request)"
proof -
  obtain res rt' where run: "execute_block (\<lambda>bytes. bytes) strict_runtime rx_request = (res, rt')" by fastforce
  have ok: "req_pre_state_hash rx_request \<in> set (known_states strict_runtime)"
    by (simp add: rx_request_def strict_runtime_def)
  have d: "distinct (map bond_validator (req_bonds rx_request))" "slashed strict_runtime = []" "total_slashed [] = 0"
    "total_bonds (req_bonds rx_request) < 2 ^ 64"
    by (simp_all add: rx_request_def strict_runtime_def total_bonds_def total_slashed_def sc_A_def sc_B_def)
  obtain out where res: "res = Inr out" using execution_outcome [OF run] ok by (cases res) simp_all
  have "res_new_bonds out = filter (\<lambda>b. bond_validator b \<notin> slash_targets (req_system_deploys rx_request)) (req_bonds rx_request)"
    and cons: "total_bonds (res_new_bonds out) + total_slashed (slashed rt') = total_bonds (req_bonds rx_request)"
    using execution_outcome [OF run] d unfolding res sum.case by auto
  then have "res_new_bonds out = [\<lparr>bond_validator = sc_B, bond_stake = 7\<rparr>]" by (simp add: rx_request_def sc_A_def sc_B_def)
  with cons show ?thesis unfolding run res by blast
qed

text \<open>
  Distinct validators are needed for conservation: a slash drops every bond of the validator but adds
  only the first stake to the slashed total.
\<close>

theorem duplicate_bond_loses_stake:
  "s < 2 ^ 64 \<Longrightarrow> run_system [SlashRequest v h] [\<lparr>bond_validator = v, bond_stake = s\<rparr>, \<lparr>bond_validator = v, bond_stake = t\<rparr>] [] [] =
     ([], [(v, s)], [Slash v (0 < s)])"
  by (simp add: prior_stake_def slashed_of_def)

text \<open>
  The post-state hash commits to the whole outcome: with a collision-free digest, equal post-state
  hashes of outcomes within the machine types come from the same pre-state, block number, processed deploys
  (signature, cost and failure), system deploys and bonds up to order.
\<close>

theorem post_state_hash_commits:
  assumes "\<forall>x y. digest x = digest y \<longrightarrow> x = y" "outcome_fits ps sys bs" "outcome_fits ps' sys' bs'"
    and "length pre < 2 ^ 64" "length pre' < 2 ^ 64" "n < 2 ^ 64" "n' < 2 ^ 64"
    and "compute_mock_post_state digest pre ps sys bs n = compute_mock_post_state digest pre' ps' sys' bs' n'"
  shows "pre = pre' \<and> n = n' \<and> map processed_key ps = map processed_key ps' \<and> sys = sys' \<and> mset bs = mset bs'"
proof -
  have "mock_state_input pre ps sys bs n = mock_state_input pre' ps' sys' bs' n'"
    using assms(1,8) unfolding compute_mock_post_state_def by blast
  note i = mock_state_input_inject [OF assms(2-7) this]
  have "mset (sorted_bonds bs) = mset (sorted_bonds bs')" by (simp only: i(5))
  then show ?thesis using i by (simp add: sorted_bonds_def)
qed

end
