(* ===== verification/Results.thy ===== *)
theory Results
  imports Prelude
begin

text \<open>
  Early return on \<open>Result\<close>: the sum type as an error monad.  \<open>res_bind\<close> is the operator \<open>?\<close> followed by the
  rest of the function, \<open>ensure\<close> a guard that returns an error, \<open>ok_or\<close> the method of \<open>Option\<close>, and
  \<open>res_fold\<close> a loop whose body may return early.  The facts of the collection \<open>res_ok\<close> say when such a
  computation succeeds.
\<close>

named_theorems res_ok \<open>when a fallible computation succeeds\<close>

definition res_bind :: "'e + 'a \<Rightarrow> ('a \<Rightarrow> 'e + 'b) \<Rightarrow> 'e + 'b" where
  "res_bind m f = (case m of Inl e \<Rightarrow> Inl e | Inr x \<Rightarrow> f x)"

definition ensure :: "bool \<Rightarrow> 'e \<Rightarrow> 'e + unit" where
  "ensure b e = (if b then Inr () else Inl e)"

definition ok_or :: "'a option \<Rightarrow> 'e \<Rightarrow> 'e + 'a" where
  "ok_or m e = (case m of None \<Rightarrow> Inl e | Some x \<Rightarrow> Inr x)"

fun res_fold :: "('s \<Rightarrow> 'a \<Rightarrow> 'e + 's) \<Rightarrow> 's \<Rightarrow> 'a list \<Rightarrow> 'e + 's" where
  "res_fold f s [] = Inr s"
| "res_fold f s (x # xs) = res_bind (f s x) (\<lambda>s'. res_fold f s' xs)"

fun res_map :: "('a \<Rightarrow> 'e + 'b) \<Rightarrow> 'a list \<Rightarrow> 'e + 'b list" where
  "res_map f [] = Inr []"
| "res_map f (x # xs) = res_bind (f x) (\<lambda>y. res_bind (res_map f xs) (\<lambda>ys. Inr (y # ys)))"

abbreviation res_all :: "('a \<Rightarrow> 'e + unit) \<Rightarrow> 'a list \<Rightarrow> 'e + unit" where
  "res_all f xs \<equiv> res_fold (\<lambda>_. f) () xs"

definition map_err :: "('e \<Rightarrow> 'f) \<Rightarrow> 'e + 'a \<Rightarrow> 'f + 'a" where
  "map_err g m = (case m of Inl e \<Rightarrow> Inl (g e) | Inr x \<Rightarrow> Inr x)"

lemma res_bind_simps [simp]: "res_bind (Inl e) f = Inl e" "res_bind (Inr x) f = f x"
  by (simp_all add: res_bind_def)

lemma res_bind_cong [fundef_cong]:
  "m = m' \<Longrightarrow> (\<And>x. m' = Inr x \<Longrightarrow> f x = f' x) \<Longrightarrow> res_bind m f = res_bind m' f'"
  by (cases m') (simp_all add: res_bind_def)

lemma res_bind_ok [res_ok]: "res_bind m f = Inr y \<longleftrightarrow> (\<exists>x. m = Inr x \<and> f x = Inr y)"
  by (cases m) simp_all

lemma ensure_ok [res_ok]: "ensure b e = Inr u \<longleftrightarrow> b"
  by (simp add: ensure_def)

lemma ensure_simps [simp]: "ensure True e = Inr ()" "ensure False e = Inl e"
  by (simp_all add: ensure_def)

lemma ok_or_ok [res_ok]: "ok_or m e = Inr x \<longleftrightarrow> m = Some x"
  by (cases m) (simp_all add: ok_or_def)

lemma ok_or_simps [simp]: "ok_or (Some x) e = Inr x" "ok_or None e = Inl e"
  by (simp_all add: ok_or_def)

lemma map_err_ok [res_ok]: "map_err g m = Inr x \<longleftrightarrow> m = Inr x"
  by (cases m) (simp_all add: map_err_def)

lemma map_err_simps [simp]: "map_err g (Inr x) = Inr x" "map_err g (Inl e) = Inl (g e)"
  by (simp_all add: map_err_def)

lemma map_sum_ok [res_ok]: "map_sum f g m = Inr y \<longleftrightarrow> (\<exists>x. m = Inr x \<and> g x = y)"
  by (cases m) simp_all

lemma if_err_ok [res_ok]:
  "(if b then Inl e else m) = Inr x \<longleftrightarrow> \<not> b \<and> m = Inr x" "(if b then m else Inl e) = Inr x \<longleftrightarrow> b \<and> m = Inr x"
  by auto

lemma res_all_ok [res_ok]: "res_all f xs = Inr u \<longleftrightarrow> (\<forall>x \<in> set xs. f x = Inr ())"
  by (induction xs) (auto simp: res_ok)

lemma res_map_ok [res_ok]: "res_map f xs = Inr ys \<longleftrightarrow> map f xs = map Inr ys"
  by (induction xs arbitrary: ys) (auto simp: res_ok Cons_eq_map_conv)

lemma res_fold_append: "res_fold f s (xs @ ys) = res_bind (res_fold f s xs) (\<lambda>s'. res_fold f s' ys)"
proof (induction xs arbitrary: s)
  case (Cons x xs)
  then show ?case by (cases "f s x") simp_all
qed simp

lemma res_fold_induct:
  assumes "res_fold f s xs = Inr t" "P s"
    and "\<And>s x s'. x \<in> set xs \<Longrightarrow> P s \<Longrightarrow> f s x = Inr s' \<Longrightarrow> P s'"
  shows "P t"
  using assms
proof (induction xs arbitrary: s)
  case (Cons x xs)
  from Cons.prems(1) obtain s' where s': "f s x = Inr s'" "res_fold f s' xs = Inr t" by (auto simp: res_ok)
  show ?case
  proof (rule Cons.IH [OF s'(2)])
    show "P s'" using Cons.prems(3) [of x s s'] Cons.prems(2) s'(1) by simp
  next
    fix u y u' assume "y \<in> set xs" "P u" "f u y = Inr u'"
    then show "P u'" using Cons.prems(3) [of y u u'] by simp
  qed
qed simp

end
