(* ===== verification/Por_Types.thy ===== *)
theory Por_Types
  imports Results Evidence_Codec
begin

text \<open>
  The data of the proof-of-reputation crate (\<open>cordial-por\<close>: \<open>types.rs\<close>, \<open>error.rs\<close>, \<open>config.rs\<close>,
  \<open>block.rs\<close>), its configuration check, and the two functions of the standard library its algorithms rest
  on: \<open>binary_search_by\<close> and \<open>chunk_by\<close>.  Weights, scores and rounds are \<open>u64\<close> values.  On a vector in
  strictly ascending order of node identifiers binary search is lookup (\<open>search_entry_eq\<close>).
\<close>

section \<open>Errors\<close>

datatype (plugins only: code) por_error =
    InvalidConfiguration string | InvalidRatingRound | InvalidRatingSourceCheckpoint
  | RatingRoundOverflow | InvalidInteractionRound | InvalidInteractionStateRound | SelfInteraction
  | MissingInteractionReference | UnknownInteractionRater | UnknownInteractionRecipient
  | EjectedInteractionRater | EjectedInteractionRecipient | SelfRating | RatingBelowMinimum
  | RatingAboveMaximum | MissingRatingSignature | DuplicateRating | DuplicateMatrixEntry
  | InvalidNormalizationScale | NormalizationOverflow | InvalidLiquidRankScale
  | MissingRaterReputation | DuplicateReputationEntry | UnsortedReputationVector
  | LiquidRankOverflow | InvalidTransitionScale | InvalidLiquidRankAlpha | MissingPreviousReputation
  | ReputationTransitionOverflow | MissingContributionEntry | InvalidTransitionRound
  | InvalidClampScale | ClampOverflow | UnsupportedReputationBlockWireVersion nat
  | ReputationBlockWireTooLarge | MalformedReputationBlockWire | ReputationBlockWireChecksumMismatch
  | UnsupportedReputationBlockVersion nat | MissingReputationBlockShardId
  | ReputationBlockShardIdTooLong | InvalidReputationBlockSourceWave
  | InvalidReputationBlockSourceCheckpoint | InvalidReputationBlockRound
  | InvalidPreviousReputationBlockRound | PreviousReputationBlockShardMismatch
  | ReputationBlockShardMismatch | ReputationBlockSourceWaveMismatch
  | ReputationBlockSourceCheckpointMismatch | UnsupportedReputationBlockAuditVersion nat
  | ReputationBlockPreviousHashMismatch | ReputationBlockConfigHashMismatch
  | ReputationBlockRatingsHashMismatch | ReputationBlockPenaltiesHashMismatch
  | ReputationBlockRootMismatch | ReputationExclusionMismatch | CommitmentLengthOverflow
  | UnsupportedReputationStateSnapshotVersion nat | ReputationStateSnapshotTooLarge
  | MalformedReputationStateSnapshot | ReputationStateSnapshotChecksumMismatch
  | ReputationStateSnapshotRoundMismatch | ReputationStateSnapshotExclusionMismatch
  | ReputationStateSnapshotBlockRoundMismatch | ReputationStateSnapshotBlockVersionMismatch
  | ReputationStateSnapshotHasPendingRatings | MissingReputationBlockEntry
  | UnexpectedReputationBlockEntry | ReputationValueMismatch | EmptyAuthorizedValidatorSet
  | MissingAuthorizedValidatorReputation node_id | ZeroAuthorizedValidatorWeight
  | AuthorizedValidatorWeightOverflow | UnknownNode | InvalidPenaltyEvents string | SlashOverflow
  | InactivityDecayOverflow

section \<open>Ratings and reputation\<close>

record rating_record =
  rt_round :: nat
  rater :: node_id
  recipient :: node_id
  score :: nat
  rt_signature :: "byte list"
  interaction_ref :: "byte list option"

record rating_batch =
  batch_round :: nat
  batch_ratings :: "rating_record list"

record rating_matrix =
  matrix_round :: nat
  matrix_ratings :: "rating_record list"

record normalized_entry =
  n_rater :: node_id
  n_recipient :: node_id
  n_score :: nat
  normalized_score :: nat

record normalized_matrix =
  normalized_round :: nat
  normalized_ratings :: "normalized_entry list"

record reputation_entry =
  entry_node :: node_id
  reputation :: nat
  retained_reputation :: nat
  is_excluded :: bool

definition new_entry :: "node_id \<Rightarrow> nat \<Rightarrow> reputation_entry" where
  "new_entry n r = \<lparr>entry_node = n, reputation = r, retained_reputation = 0, is_excluded = False\<rparr>"

definition ejected_entry :: "node_id \<Rightarrow> reputation_entry" where
  "ejected_entry n = \<lparr>entry_node = n, reputation = 0, retained_reputation = 0, is_excluded = True\<rparr>"

record reputation_list =
  list_round :: nat
  entries :: "reputation_entry list"

record reputation_vector =
  vec_round :: nat
  vec_values :: "reputation_entry list"

record source_checkpoint =
  src_round :: nat
  finalized_prefix_len :: nat
  finalized_prefix_hash :: "byte list"

section \<open>Penalties\<close>

record authorization_context =
  auth_shard :: "byte list"
  auth_wave :: nat
  auth_round :: nat

record checkpoint_authorization_context =
  cauth_shard :: "byte list"
  cauth_source :: source_checkpoint

datatype authorization_source =
    Wave authorization_context
  | Checkpoint checkpoint_authorization_context

record equivocation_authorization =
  authorized_context :: authorization_source
  binding :: "byte list"
  authorized_proof_round :: nat

record equivocation_penalty =
  offender :: node_id
  evidence_bytes :: "byte list"
  authorization :: "equivocation_authorization option"

record inactivity_penalty =
  inactive_offender :: node_id
  missed_rounds :: nat

record penalty_events =
  events_round :: nat
  equivocations :: "equivocation_penalty list"
  inactivity :: "inactivity_penalty list"

section \<open>Reputation blocks\<close>

record reputation_header =
  version :: nat
  shard_id :: "byte list"
  source_finalized_wave :: nat
  header_checkpoint :: "source_checkpoint option"
  header_round :: nat
  previous_hash :: "byte list option"
  config_hash :: "byte list"
  ratings_hash :: "byte list"
  penalties_hash :: "byte list"
  reputation_root :: "byte list"

record reputation_block =
  header :: reputation_header
  block_list :: reputation_list

record block_context =
  ctx_shard :: "byte list"
  ctx_wave :: nat
  ctx_previous :: "reputation_block option"

record checkpoint_context =
  cctx_shard :: "byte list"
  cctx_source :: source_checkpoint
  cctx_previous :: "reputation_block option"

section \<open>Configuration\<close>

datatype missing_entry_policy = Reject | CarryForward | Neutral

record por_config =
  scale :: nat
  initial_reputation :: nat
  liquid_rank_alpha :: nat
  minimum_rating :: nat
  maximum_rating :: nat
  missing_policy :: missing_entry_policy
  correlation_threshold :: nat
  base_slash_penalty :: nat
  inactivity_decay_gamma :: nat

definition DEFAULT_SCALE :: nat where
  "DEFAULT_SCALE = 1000000000"

definition validate_config :: "por_config \<Rightarrow> por_error + unit" where
  "validate_config cfg =
     (if scale cfg = 0 then Inl (InvalidConfiguration ''scale must be positive'')
      else if liquid_rank_alpha cfg > scale cfg \<or> initial_reputation cfg > scale cfg
      then Inl (InvalidConfiguration ''alpha and initial reputation must not exceed scale'')
      else if minimum_rating cfg > maximum_rating cfg
      then Inl (InvalidConfiguration ''minimum rating must not exceed maximum rating'')
      else if correlation_threshold cfg > scale cfg \<or> base_slash_penalty cfg > scale cfg
        \<or> inactivity_decay_gamma cfg > scale cfg
      then Inl (InvalidConfiguration ''penalty fractions must not exceed scale'')
      else Inr ())"

definition new_config :: "nat \<Rightarrow> nat \<Rightarrow> por_config" where
  "new_config s r =
     \<lparr>scale = s, initial_reputation = r, liquid_rank_alpha = (s * 3 div 5) mod 2 ^ 64,
      minimum_rating = 0, maximum_rating = s, missing_policy = CarryForward,
      correlation_threshold = (s * 300000000 div DEFAULT_SCALE) mod 2 ^ 64,
      base_slash_penalty = (s * 250000000 div DEFAULT_SCALE) mod 2 ^ 64,
      inactivity_decay_gamma = (s * 10000000 div DEFAULT_SCALE) mod 2 ^ 64\<rparr>"

definition default_config :: por_config where
  "default_config = new_config DEFAULT_SCALE 200000000"

definition valid_config :: "por_config \<Rightarrow> bool" where
  "valid_config cfg \<longleftrightarrow> 0 < scale cfg \<and> liquid_rank_alpha cfg \<le> scale cfg \<and> initial_reputation cfg \<le> scale cfg \<and>
     minimum_rating cfg \<le> maximum_rating cfg \<and> correlation_threshold cfg \<le> scale cfg \<and>
     base_slash_penalty cfg \<le> scale cfg \<and> inactivity_decay_gamma cfg \<le> scale cfg"

lemma validate_config_ok [res_ok]: "validate_config cfg = Inr u \<longleftrightarrow> valid_config cfg"
  by (auto simp: validate_config_def valid_config_def)

text \<open>The parameters \<open>new_config\<close> derives from a scale are always accepted.\<close>

lemma new_config_valid: "0 < s \<Longrightarrow> s < 2 ^ 64 \<Longrightarrow> r \<le> s \<Longrightarrow> valid_config (new_config s r)"
  by (auto simp: valid_config_def new_config_def DEFAULT_SCALE_def intro!: order_trans [OF mod_less_eq_dividend])

section \<open>Conversions\<close>

definition u64_try :: "nat \<Rightarrow> nat option" where
  "u64_try n = (if n < 2 ^ 64 then Some n else None)"

definition ascii :: "string \<Rightarrow> byte list" where
  "ascii s = map of_char s"

section \<open>Binary search and grouping\<close>

text \<open>The loop of \<open>slice::binary_search_by\<close>; \<open>Inl\<close> carries the insertion point.\<close>

function bs_loop :: "('a \<Rightarrow> 'k::linorder) \<Rightarrow> 'a list \<Rightarrow> 'k \<Rightarrow> nat \<Rightarrow> nat \<Rightarrow> nat" where
  "bs_loop f xs k base sz =
     (if sz \<le> 1 then base
      else let half = sz div 2; mid = base + half in
        bs_loop f xs k (if f (xs ! mid) > k then base else mid) (sz - half))"
  by pat_completeness auto
termination by (relation "measure (\<lambda>(f, xs, k, base, sz). sz)") auto

declare bs_loop.simps [simp del]

definition binary_search :: "('a \<Rightarrow> 'k::linorder) \<Rightarrow> 'a list \<Rightarrow> 'k \<Rightarrow> nat + nat" where
  "binary_search f xs k =
     (if xs = [] then Inl 0
      else let base = bs_loop f xs k 0 (length xs) in
        if f (xs ! base) = k then Inr base else Inl (if f (xs ! base) < k then base + 1 else base))"

definition search_entry :: "reputation_entry list \<Rightarrow> node_id \<Rightarrow> reputation_entry option" where
  "search_entry es k = (case binary_search entry_node es k of Inl i \<Rightarrow> None | Inr i \<Rightarrow> Some (es ! i))"

fun chunk_by :: "('a \<Rightarrow> 'a \<Rightarrow> bool) \<Rightarrow> 'a list \<Rightarrow> 'a list list" where
  "chunk_by P [] = []"
| "chunk_by P (x # xs) =
     (case chunk_by P xs of [] \<Rightarrow> [[x]] | g # gs \<Rightarrow> if P x (hd g) then (x # g) # gs else [x] # g # gs)"

text \<open>\<open>windows(2)\<close> with the comparison of adjacent identifiers.\<close>

fun check_windows :: "reputation_entry list \<Rightarrow> por_error + unit" where
  "check_windows (a # b # es) =
     (if entry_node a < entry_node b then check_windows (b # es)
      else if entry_node a = entry_node b then Inl DuplicateReputationEntry
      else Inl UnsortedReputationVector)"
| "check_windows _ = Inr ()"

abbreviation ascending :: "reputation_entry list \<Rightarrow> bool" where
  "ascending es \<equiv> sorted_wrt (<) (map entry_node es)"

lemma check_windows_ok [res_ok]: "check_windows es = Inr u \<longleftrightarrow> ascending es"
proof (induction es rule: check_windows.induct)
  case (1 a b es)
  then show ?case by (auto dest: less_trans split: if_splits)
qed simp_all

lemma bs_loop_spec:
  assumes "sorted_wrt (<) (map f xs)" "0 < sz" "base + sz \<le> length xs"
    and "base = 0 \<or> f (xs ! base) \<le> k" "\<And>j. base + sz \<le> j \<Longrightarrow> j < length xs \<Longrightarrow> k < f (xs ! j)"
  shows "let b = bs_loop f xs k base sz in b < length xs \<and> (b = 0 \<or> f (xs ! b) \<le> k) \<and>
    (\<forall>j. b < j \<longrightarrow> j < length xs \<longrightarrow> k < f (xs ! j))"
  using assms
proof (induction f xs k base sz rule: bs_loop.induct)
  case (1 f xs k base sz)
  show ?case
  proof (cases "sz \<le> 1")
    case True
    then have "bs_loop f xs k base sz = base" "sz = 1" using "1.prems"(2) by (simp_all add: bs_loop.simps)
    then show ?thesis using "1.prems" by (auto simp: Let_def)
  next
    case False
    define half where "half = sz div 2"
    define mid where "mid = base + half"
    have h: "0 < half" "half < sz" using False by (auto simp: half_def)
    have mono: "f (xs ! i) < f (xs ! j)" if "i < j" "j < length xs" for i j
      using sorted_wrt_nth_less [OF "1.prems"(1), of i j] that by simp
    have beyond: "k < f (xs ! j)" if gt: "f (xs ! mid) > k" and j: "base + (sz - half) \<le> j" "j < length xs" for j
    proof -
      have "mid \<le> j" using j(1) h by (simp add: mid_def half_def)
      then show ?thesis using gt mono [of mid j] j(2) by (cases "mid = j") auto
    qed
    have step: "bs_loop f xs k base sz = bs_loop f xs k (if f (xs ! mid) > k then base else mid) (sz - half)"
      using False by (subst bs_loop.simps) (simp add: half_def mid_def Let_def)
    show ?thesis
      unfolding step
    proof (rule "1.IH" [OF False half_def mid_def "1.prems"(1)])
      show "0 < sz - half" using h by simp
      show "(if f (xs ! mid) > k then base else mid) + (sz - half) \<le> length xs"
        using "1.prems"(3) h by (auto simp: mid_def)
      show "(if f (xs ! mid) > k then base else mid) = 0 \<or> f (xs ! (if f (xs ! mid) > k then base else mid)) \<le> k"
        using "1.prems"(4) by auto
      show "k < f (xs ! j)" if "(if f (xs ! mid) > k then base else mid) + (sz - half) \<le> j" "j < length xs" for j
      proof (cases "f (xs ! mid) > k")
        case True
        then show ?thesis using beyond that by simp
      next
        case False
        then show ?thesis using that "1.prems"(5) [of j] h by (simp add: mid_def)
      qed
    qed
  qed
qed

lemma binary_search_found:
  assumes "sorted_wrt (<) (map f xs)"
  shows "binary_search f xs k = Inr i \<longleftrightarrow> i < length xs \<and> f (xs ! i) = k"
proof (cases "xs = []")
  case False
  define b where "b = bs_loop f xs k 0 (length xs)"
  have b: "b < length xs" "b = 0 \<or> f (xs ! b) \<le> k" "\<And>j. b < j \<Longrightarrow> j < length xs \<Longrightarrow> k < f (xs ! j)"
    using bs_loop_spec [OF assms, of "length xs" 0 k] False by (auto simp: Let_def b_def)
  have mono: "f (xs ! i) < f (xs ! j)" if "i < j" "j < length xs" for i j
    using sorted_wrt_nth_less [OF assms, of i j] that by simp
  have uniq: "i = b" if "i < length xs" "f (xs ! i) = k" for i
  proof (rule linorder_cases [of i b])
    assume "i < b"
    then show ?thesis using mono [of i b] b(1,2) that by auto
  next
    assume "b < i"
    then show ?thesis using b(3) [of i] that by auto
  qed simp
  show ?thesis
  proof (cases "f (xs ! b) = k")
    case True
    then have "binary_search f xs k = Inr b" using False by (simp add: binary_search_def b_def [symmetric] Let_def)
    then show ?thesis using b(1) True uniq [of i] by auto
  next
    case ne: False
    then have "binary_search f xs k \<noteq> Inr i" using False by (simp add: binary_search_def b_def [symmetric] Let_def)
    then show ?thesis using ne uniq [of i] by auto
  qed
qed (simp add: binary_search_def)

lemma binary_search_missing:
  assumes "sorted_wrt (<) (map f xs)" "binary_search f xs k = Inl i"
  shows "i \<le> length xs" "\<forall>x \<in> set (take i xs). f x < k" "\<forall>x \<in> set (drop i xs). k < f x"
proof -
  have *: "i \<le> length xs \<and> (\<forall>j < i. f (xs ! j) < k) \<and> (\<forall>j. i \<le> j \<longrightarrow> j < length xs \<longrightarrow> k < f (xs ! j))"
  proof (cases "xs = []")
    case True
    then show ?thesis using assms(2) by (simp add: binary_search_def)
  next
    case False
    define b where "b = bs_loop f xs k 0 (length xs)"
    have b: "b < length xs" "b = 0 \<or> f (xs ! b) \<le> k" "\<And>j. b < j \<Longrightarrow> j < length xs \<Longrightarrow> k < f (xs ! j)"
      using bs_loop_spec [OF assms(1), of "length xs" 0 k] False by (auto simp: Let_def b_def)
    have mono: "f (xs ! i) < f (xs ! j)" if "i < j" "j < length xs" for i j
      using sorted_wrt_nth_less [OF assms(1), of i j] that by simp
    have ne: "f (xs ! b) \<noteq> k" and i: "i = (if f (xs ! b) < k then b + 1 else b)"
      using assms(2) False by (auto simp: binary_search_def b_def [symmetric] Let_def split: if_splits)
    show ?thesis
    proof (cases "f (xs ! b) < k")
      case True
      have "f (xs ! j) < k" if "j < b + 1" for j
        using mono [of j b] b(1) True that by (cases "j = b") auto
      then show ?thesis using i True b by simp
    next
      case False
      then have g: "k < f (xs ! b)" "b = 0" using ne b(2) by auto
      have "k < f (xs ! j)" if "j < length xs" for j
        using b(3) [of j] g that by (cases "j = 0") auto
      then show ?thesis using i False g by simp
    qed
  qed
  then show "i \<le> length xs" by simp
  show "\<forall>x \<in> set (take i xs). f x < k" using * by (auto simp: in_set_conv_nth)
  show "\<forall>x \<in> set (drop i xs). k < f x" using * by (auto simp: in_set_conv_nth)
qed

definition entry_of :: "reputation_entry list \<Rightarrow> node_id \<Rightarrow> reputation_entry option" where
  "entry_of es k = map_of (map (\<lambda>e. (entry_node e, e)) es) k"

lemma ascending_distinct: "ascending es \<Longrightarrow> distinct (map entry_node es)"
  by (simp add: strict_sorted_iff)

lemma entry_of_Some: "ascending es \<Longrightarrow> entry_of es k = Some e \<longleftrightarrow> e \<in> set es \<and> entry_node e = k"
  using ascending_distinct [of es] by (auto simp: entry_of_def comp_def)

lemma entry_of_None: "entry_of es k = None \<longleftrightarrow> k \<notin> entry_node ` set es"
  by (simp add: entry_of_def map_of_eq_None_iff image_image)

lemma search_entry_eq: "ascending es \<Longrightarrow> search_entry es k = entry_of es k"
proof (cases "binary_search entry_node es k")
  case (Inl i)
  assume a: "ascending es"
  have "k \<notin> entry_node ` set es"
  proof
    assume "k \<in> entry_node ` set es"
    then obtain j where "j < length es" "entry_node (es ! j) = k" by (auto simp: in_set_conv_nth)
    then show False using binary_search_found [OF a, of k j] Inl by simp
  qed
  then show ?thesis using Inl by (simp add: search_entry_def entry_of_None [symmetric])
next
  case (Inr i)
  assume a: "ascending es"
  then have "i < length es" "entry_node (es ! i) = k" using binary_search_found [OF a] Inr by auto
  then have "entry_of es k = Some (es ! i)" using entry_of_Some [OF a] by simp
  then show ?thesis using Inr by (simp add: search_entry_def)
qed

lemma concat_chunk_by [simp]: "concat (chunk_by P xs) = xs"
  by (induction xs) (auto split: list.splits)

lemma chunk_by_nonempty: "g \<in> set (chunk_by P xs) \<Longrightarrow> g \<noteq> []"
  by (induction xs arbitrary: g) (auto split: list.splits if_splits)

end
