(* ===== verification/Por_Rating.thy ===== *)
theory Por_Rating
  imports Por_Types
begin

text \<open>
  \<open>ratings.rs\<close> and \<open>matrix.rs\<close>: validation of signed ratings, the batch of one round in the canonical order
  of (recipient, rater), the rating matrix, and the bytes a rating's signature covers.  A batch depends only
  on the multiset of its ratings (\<open>build_rating_batch_perm\<close>), and the signed bytes determine every signed
  field and the version of the protocol (\<open>rating_payload_inject\<close>, \<open>checkpoint_payload_inject\<close>,
  \<open>rating_domains_differ\<close>).
\<close>

section \<open>Definitions\<close>

definition RATING_SIGNING_DOMAIN :: "byte list" where
  "RATING_SIGNING_DOMAIN = ascii ''cordial-por:rating:v1''"

definition CHECKPOINT_RATING_SIGNING_DOMAIN :: "byte list" where
  "CHECKPOINT_RATING_SIGNING_DOMAIN = ascii ''cordial-por:rating:v2''"

definition POR_FINALIZED_BLOCKS_PER_CHECKPOINT :: nat where
  "POR_FINALIZED_BLOCKS_PER_CHECKPOINT = 16"

definition validate_source :: "source_checkpoint \<Rightarrow> por_error + unit" where
  "validate_source src =
     (if src_round src = 0 \<or>
         checked_mul 64 (src_round src) POR_FINALIZED_BLOCKS_PER_CHECKPOINT \<noteq> Some (finalized_prefix_len src)
      then Inl InvalidRatingSourceCheckpoint else Inr ())"

definition put_interaction :: "byte list option \<Rightarrow> byte list" where
  "put_interaction r = (case r of None \<Rightarrow> [0] | Some bs \<Rightarrow> 1 # put_bytes bs)"

definition canonical_rating_payload :: "rating_record \<Rightarrow> byte list" where
  "canonical_rating_payload r =
     RATING_SIGNING_DOMAIN @ u64_be (rt_round r) @ put_bytes (node_bytes (rater r)) @
     put_bytes (node_bytes (recipient r)) @ u64_be (score r) @ put_interaction (interaction_ref r)"

definition canonical_checkpoint_rating_payload :: "rating_record \<Rightarrow> source_checkpoint \<Rightarrow> por_error + byte list" where
  "canonical_checkpoint_rating_payload r src =
     (if rt_round r \<noteq> src_round src then Inl InvalidRatingRound
      else res_bind (validate_source src) (\<lambda>_. Inr
        (CHECKPOINT_RATING_SIGNING_DOMAIN @ u64_be (src_round src) @ u64_be (finalized_prefix_len src) @
         finalized_prefix_hash src @ put_bytes (node_bytes (rater r)) @ put_bytes (node_bytes (recipient r)) @
         u64_be (score r) @ put_interaction (interaction_ref r))))"

definition rating_round_from_finalized_wave :: "nat \<Rightarrow> por_error + nat" where
  "rating_round_from_finalized_wave wave = ok_or (checked_add 64 wave 1) RatingRoundOverflow"

definition validate_rating :: "rating_record \<Rightarrow> por_config \<Rightarrow> por_error + unit" where
  "validate_rating r cfg =
     (if rater r = recipient r then Inl SelfRating
      else if score r < minimum_rating cfg then Inl RatingBelowMinimum
      else if score r > maximum_rating cfg then Inl RatingAboveMaximum
      else if rt_signature r = [] then Inl MissingRatingSignature
      else Inr ())"

abbreviation pair_key :: "rating_record \<Rightarrow> node_id \<times> node_id" where
  "pair_key r \<equiv> (recipient r, rater r)"

fun adjacent_equal :: "('a \<Rightarrow> 'k) \<Rightarrow> 'a list \<Rightarrow> bool" where
  "adjacent_equal f (x # y # xs) = (f x = f y \<or> adjacent_equal f (y # xs))"
| "adjacent_equal f _ = False"

definition build_rating_batch :: "nat \<Rightarrow> rating_record list \<Rightarrow> por_config \<Rightarrow> por_error + rating_batch" where
  "build_rating_batch rnd ratings cfg =
     res_bind (res_all (\<lambda>r. if rt_round r \<noteq> rnd then Inl InvalidRatingRound else validate_rating r cfg) ratings) (\<lambda>_.
       let validated = sort_key pair_key ratings in
       if adjacent_equal pair_key validated then Inl DuplicateRating
       else Inr \<lparr>batch_round = rnd, batch_ratings = validated\<rparr>)"

definition build_rating_matrix :: "rating_batch \<Rightarrow> por_error + rating_matrix" where
  "build_rating_matrix batch =
     res_bind (res_all (\<lambda>r. if rt_round r \<noteq> batch_round batch then Inl InvalidRatingRound else Inr ()) (batch_ratings batch)) (\<lambda>_.
       let ordered = sort_key pair_key (batch_ratings batch) in
       if adjacent_equal pair_key ordered then Inl DuplicateMatrixEntry
       else Inr \<lparr>matrix_round = batch_round batch, matrix_ratings = ordered\<rparr>)"

section \<open>Batches\<close>

definition rating_valid :: "nat \<Rightarrow> por_config \<Rightarrow> rating_record \<Rightarrow> bool" where
  "rating_valid rnd cfg r \<longleftrightarrow> rt_round r = rnd \<and> rater r \<noteq> recipient r \<and> minimum_rating cfg \<le> score r \<and>
     score r \<le> maximum_rating cfg \<and> rt_signature r \<noteq> []"

lemma adjacent_equal_sorted:
  "sorted (map f xs) \<Longrightarrow> adjacent_equal f xs \<longleftrightarrow> \<not> distinct (map f (xs :: 'a list) :: 'k::linorder list)"
proof (induction f xs rule: adjacent_equal.induct)
  case (1 f x y xs)
  have "f x \<in> f ` set xs \<Longrightarrow> f x = f y" using "1.prems" by fastforce
  then show ?case using 1 by auto
qed simp_all

lemma adjacent_equal_sort_key [simp]:
  "adjacent_equal f (sort_key f xs) \<longleftrightarrow> \<not> distinct (map (f :: 'a \<Rightarrow> 'k::linorder) xs)"
proof -
  have "mset (map f (sort_key f xs)) = mset (map f xs)" by simp
  then have "distinct (map f (sort_key f xs)) = distinct (map f xs)" by (rule mset_eq_imp_distinct_iff)
  then show ?thesis by (simp add: adjacent_equal_sorted)
qed

lemma validate_source_ok [res_ok]:
  "validate_source src = Inr u \<longleftrightarrow> 0 < src_round src \<and> finalized_prefix_len src = src_round src * 16 \<and> src_round src * 16 < 2 ^ 64"
  by (auto simp: validate_source_def checked_defs POR_FINALIZED_BLOCKS_PER_CHECKPOINT_def)

lemma rating_round_ok [res_ok]:
  "rating_round_from_finalized_wave w = Inr r \<longleftrightarrow> r = w + 1 \<and> w + 1 < 2 ^ 64"
  by (auto simp: rating_round_from_finalized_wave_def checked_defs res_ok)

lemma validate_rating_ok:
  "(if rt_round r \<noteq> rnd then Inl InvalidRatingRound else validate_rating r cfg) = Inr () \<longleftrightarrow> rating_valid rnd cfg r"
  by (auto simp: validate_rating_def rating_valid_def)

lemma build_rating_batch_ok:
  "build_rating_batch rnd rs cfg = Inr b \<longleftrightarrow>
     (\<forall>r \<in> set rs. rating_valid rnd cfg r) \<and> distinct (map pair_key rs) \<and>
     b = \<lparr>batch_round = rnd, batch_ratings = sort_key pair_key rs\<rparr>"
  unfolding build_rating_batch_def res_bind_ok res_all_ok validate_rating_ok Let_def adjacent_equal_sort_key by auto

lemma sort_key_perm:
  assumes "mset xs = mset ys" "distinct (map f xs)"
  shows "sort_key f xs = sort_key (f :: 'a \<Rightarrow> 'k::linorder) ys"
proof (rule properties_for_sort_key)
  have s: "set xs = set ys" using assms(1) by (rule mset_eq_setD)
  have i: "inj_on f (set xs)" "distinct xs" "distinct ys"
    using assms(2) mset_eq_imp_distinct_iff [OF assms(1)] by (simp_all add: distinct_map)
  show "mset (sort_key f ys) = mset xs" using assms(1) by simp
  show "sorted (map f (sort_key f ys))" by simp
  show "filter (\<lambda>x. f k = f x) (sort_key f ys) = filter (\<lambda>x. f k = f x) xs" if "k \<in> set (sort_key f ys)" for k
  proof -
    have kin: "k \<in> set xs" using that s by simp
    have one: "filter (\<lambda>x. f k = f x) zs = [k]" if "distinct zs" "set zs = set xs" for zs
    proof (rule distinct_set_singleton)
      show "set (filter (\<lambda>x. f k = f x) zs) = {k}"
        using that(2) inj_onD [OF i(1) _ kin] kin by (auto simp: eq_commute [of "f k"])
      show "distinct (filter (\<lambda>x. f k = f x) zs)" using that(1) by simp
    qed
    show ?thesis using one [of "sort_key f ys"] one [of xs] i s by simp
  qed
qed

lemma build_rating_batch_perm:
  assumes "mset rs = mset rs'" "build_rating_batch rnd rs cfg = Inr b"
  shows "build_rating_batch rnd rs' cfg = Inr b"
proof -
  have "set rs' = set rs" using assms(1) mset_eq_setD by metis
  moreover have "mset (map pair_key rs) = mset (map pair_key rs')" using assms(1) by simp
  then have "distinct (map pair_key rs') = distinct (map pair_key rs)" by (metis mset_eq_imp_distinct_iff)
  moreover have "sort_key pair_key rs = sort_key pair_key rs'"
    using assms by (intro sort_key_perm) (simp_all add: build_rating_batch_ok)
  ultimately show ?thesis using assms(2) by (simp add: build_rating_batch_ok)
qed

text \<open>The matrix of a batch that was built is the batch.\<close>

lemma build_rating_matrix_of_batch:
  assumes "build_rating_batch rnd rs cfg = Inr b"
  shows "build_rating_matrix b = Inr \<lparr>matrix_round = rnd, matrix_ratings = batch_ratings b\<rparr>"
proof -
  have b: "b = \<lparr>batch_round = rnd, batch_ratings = sort_key pair_key rs\<rparr>" "distinct (map pair_key rs)"
    and v: "\<forall>r \<in> set rs. rt_round r = rnd"
    using assms by (auto simp: build_rating_batch_ok rating_valid_def)
  have "mset (map pair_key (sort_key pair_key rs)) = mset (map pair_key rs)" by simp
  then have "distinct (map pair_key (sort_key pair_key rs))" using b(2) by (metis mset_eq_imp_distinct_iff)
  moreover have "res_all (\<lambda>r. if rt_round r \<noteq> rnd then Inl InvalidRatingRound else Inr ()) (sort_key pair_key rs) = Inr ()"
    unfolding res_all_ok using v by simp
  ultimately show ?thesis
    using b(2) by (simp add: b(1) build_rating_matrix_def Let_def sort_key_id_if_sorted)
qed

section \<open>Signed bytes\<close>

text \<open>The ranges of the source's types: \<open>u64\<close> numbers, lengths of vectors, a \<open>[u8; 32]\<close> hash.\<close>

definition node_fits :: "node_id \<Rightarrow> bool" where
  "node_fits n \<longleftrightarrow> length (node_bytes n) < 2 ^ 64"

definition rating_fits :: "rating_record \<Rightarrow> bool" where
  "rating_fits r \<longleftrightarrow> rt_round r < 2 ^ 64 \<and> score r < 2 ^ 64 \<and> node_fits (rater r) \<and> node_fits (recipient r) \<and>
     length (rt_signature r) < 2 ^ 64 \<and> (\<forall>bs. interaction_ref r = Some bs \<longrightarrow> length bs < 2 ^ 64)"

definition source_fits :: "source_checkpoint \<Rightarrow> bool" where
  "source_fits src \<longleftrightarrow> src_round src < 2 ^ 64 \<and> finalized_prefix_len src < 2 ^ 64 \<and> length (finalized_prefix_hash src) = 32"

lemma put_bytes_inject:
  "length xs < 2 ^ 64 \<Longrightarrow> length ys < 2 ^ 64 \<Longrightarrow> put_bytes xs @ r = put_bytes ys @ r' \<Longrightarrow> xs = ys \<and> r = r'"
  unfolding put_bytes_def append_assoc by (rule be.field_inject)

lemma put_node_inject:
  "node_fits m \<Longrightarrow> node_fits n \<Longrightarrow> put_bytes (node_bytes m) @ r = put_bytes (node_bytes n) @ r' \<Longrightarrow> m = n \<and> r = r'"
  using put_bytes_inject [of "node_bytes m" "node_bytes n" r r'] by (simp add: node_fits_def node_id.expand)

lemma put_interaction_inject:
  assumes "\<forall>bs. i = Some bs \<longrightarrow> length bs < 2 ^ 64" "\<forall>bs. j = Some bs \<longrightarrow> length bs < 2 ^ 64"
    and "put_interaction i @ r = put_interaction j @ r'"
  shows "i = j \<and> r = r'"
  using assms put_bytes_inject [of _ _ r r'] by (auto simp: put_interaction_def split: option.splits)

definition signed_part :: "rating_record \<Rightarrow> rating_record" where
  "signed_part r = r\<lparr>rt_signature := []\<rparr>"

abbreviation signed_tail :: "rating_record \<Rightarrow> byte list \<Rightarrow> byte list" where
  "signed_tail r z \<equiv> put_bytes (node_bytes (rater r)) @ put_bytes (node_bytes (recipient r)) @ u64_be (score r) @
     put_interaction (interaction_ref r) @ z"

lemma signed_tail_inject:
  assumes "rating_fits r" "rating_fits r'" "signed_tail r z = signed_tail r' z'"
  shows "rater r = rater r'" "recipient r = recipient r'" "score r = score r'" "interaction_ref r = interaction_ref r'" "z = z'"
proof -
  note f = assms(1,2) [unfolded rating_fits_def]
  have 1: "rater r = rater r' \<and> put_bytes (node_bytes (recipient r)) @ u64_be (score r) @ put_interaction (interaction_ref r) @ z =
      put_bytes (node_bytes (recipient r')) @ u64_be (score r') @ put_interaction (interaction_ref r') @ z'"
    by (rule put_node_inject [OF _ _ assms(3)]) (use f in simp_all)
  have 2: "recipient r = recipient r' \<and> u64_be (score r) @ put_interaction (interaction_ref r) @ z =
      u64_be (score r') @ put_interaction (interaction_ref r') @ z'"
    by (rule put_node_inject [OF _ _ conjunct2 [OF 1]]) (use f in simp_all)
  have 3: "score r = score r' \<and> put_interaction (interaction_ref r) @ z = put_interaction (interaction_ref r') @ z'"
    by (rule be.number_inject [OF _ _ conjunct2 [OF 2]]) (use f in simp_all)
  have 4: "interaction_ref r = interaction_ref r' \<and> z = z'"
    by (rule put_interaction_inject [OF _ _ conjunct2 [OF 3]]) (use f in simp_all)
  show "rater r = rater r'" "recipient r = recipient r'" "score r = score r'" "interaction_ref r = interaction_ref r'" "z = z'"
    using 1 2 3 4 by simp_all
qed

lemma signed_part_eqI:
  "rt_round r = rt_round r' \<Longrightarrow> rater r = rater r' \<Longrightarrow> recipient r = recipient r' \<Longrightarrow> score r = score r' \<Longrightarrow>
   interaction_ref r = interaction_ref r' \<Longrightarrow> signed_part r = signed_part r'"
  by (simp add: signed_part_def)

lemma rating_payload_inject:
  assumes "rating_fits r" "rating_fits r'" "canonical_rating_payload r @ z = canonical_rating_payload r' @ z'"
  shows "signed_part r = signed_part r' \<and> z = z'"
proof -
  have b: "rt_round r < 2 ^ 64" "rt_round r' < 2 ^ 64" using assms(1,2) by (simp_all add: rating_fits_def)
  have "u64_be (rt_round r) @ signed_tail r z = u64_be (rt_round r') @ signed_tail r' z'"
    using assms(3) by (simp add: canonical_rating_payload_def)
  note n = be.number_inject [OF b this]
  note t = signed_tail_inject [OF assms(1,2) conjunct2 [OF n]]
  show ?thesis using signed_part_eqI [OF conjunct1 [OF n] t(1-4)] t(5) by blast
qed

lemma checkpoint_payload_ok:
  assumes "canonical_checkpoint_rating_payload r src = Inr p"
  shows "rt_round r = src_round src"
    "p = CHECKPOINT_RATING_SIGNING_DOMAIN @ u64_be (src_round src) @ u64_be (finalized_prefix_len src) @
         finalized_prefix_hash src @ signed_tail r []"
proof -
  have *: "rt_round r = src_round src \<and> CHECKPOINT_RATING_SIGNING_DOMAIN @ u64_be (src_round src) @
      u64_be (finalized_prefix_len src) @ finalized_prefix_hash src @ signed_tail r [] = p"
    using assms unfolding canonical_checkpoint_rating_payload_def res_bind_ok if_err_ok by (simp only: sum.inject append_Nil2) blast
  show "rt_round r = src_round src" using * by (rule conjunct1)
  show "p = CHECKPOINT_RATING_SIGNING_DOMAIN @ u64_be (src_round src) @ u64_be (finalized_prefix_len src) @
         finalized_prefix_hash src @ signed_tail r []" using * by (rule conjunct2 [THEN sym])
qed

lemma checkpoint_payload_inject:
  assumes fits: "rating_fits r" "rating_fits r'" "source_fits src" "source_fits src'"
    and p: "canonical_checkpoint_rating_payload r src = Inr p" "canonical_checkpoint_rating_payload r' src' = Inr p'"
    and "p @ z = p' @ z'"
  shows "signed_part r = signed_part r' \<and> src = src' \<and> z = z'"
proof -
  have b: "src_round src < 2 ^ 64" "src_round src' < 2 ^ 64" "finalized_prefix_len src < 2 ^ 64"
    "finalized_prefix_len src' < 2 ^ 64" "length (finalized_prefix_hash src) = length (finalized_prefix_hash src')"
    using fits(3,4) by (simp_all add: source_fits_def)
  have "u64_be (src_round src) @ u64_be (finalized_prefix_len src) @ finalized_prefix_hash src @ signed_tail r z =
      u64_be (src_round src') @ u64_be (finalized_prefix_len src') @ finalized_prefix_hash src' @ signed_tail r' z'"
    and rr: "rt_round r = src_round src" "rt_round r' = src_round src'"
    using assms(7) unfolding checkpoint_payload_ok(2) [OF p(1)] checkpoint_payload_ok(2) [OF p(2)]
    by (simp_all add: checkpoint_payload_ok(1) [OF p(1)] checkpoint_payload_ok(1) [OF p(2)])
  note n = be.number_inject [OF b(1,2) this(1)]
  note m = be.number_inject [OF b(3,4) conjunct2 [OF n]]
  have h: "finalized_prefix_hash src = finalized_prefix_hash src' \<and> signed_tail r z = signed_tail r' z'"
    using conjunct2 [OF m] by (rule iffD1 [OF append_eq_append_conv [OF disjI1 [OF b(5)]]])
  note t = signed_tail_inject [OF fits(1,2) conjunct2 [OF h]]
  have "src = src'" using conjunct1 [OF n] conjunct1 [OF m] conjunct1 [OF h] by simp
  moreover have "rt_round r = rt_round r'" using rr conjunct1 [OF n] by simp
  ultimately show ?thesis using signed_part_eqI [OF _ t(1-4)] t(5) by blast
qed

lemma rating_domains: "length RATING_SIGNING_DOMAIN = 21" "length CHECKPOINT_RATING_SIGNING_DOMAIN = 21"
  "RATING_SIGNING_DOMAIN \<noteq> CHECKPOINT_RATING_SIGNING_DOMAIN"
  by code_simp+

lemma rating_domains_differ:
  "canonical_checkpoint_rating_payload r' src = Inr p \<Longrightarrow> canonical_rating_payload r \<noteq> p"
  using rating_domains by (auto simp: canonical_rating_payload_def dest: checkpoint_payload_ok(2))

end
