(* ===== verification/Por_Rank.thy ===== *)
theory Por_Rank
  imports Por_Rating
begin

text \<open>
  The calculation of one round: \<open>normalization.rs\<close>, \<open>liquid_rank.rs\<close>, the blend of \<open>transition.rs\<close> and
  \<open>clamp.rs\<close>, all in fixed-point integers.  A loop index into a vector is the suffix of the vector that starts
  at the index.  The lemmas give each step in closed form: the integer square root is the floor of the root,
  a clamped value is at most the scale and at most the value and is zero only for zero, a blended value lies between its
  inputs, and no step overflows on the values its predecessors produce.
\<close>

section \<open>Normalization\<close>

abbreviation U128_MAX :: nat where
  "U128_MAX \<equiv> 2 ^ 128 - 1"

definition normalize_score :: "nat \<Rightarrow> nat \<Rightarrow> nat \<Rightarrow> nat" where
  "normalize_score delta s denominator = (((delta + s) * s) mod 2 ^ 128 div denominator) mod 2 ^ 64"

definition score_bounds :: "nat \<Rightarrow> rating_record list \<Rightarrow> nat \<times> nat" where
  "score_bounds first rest = foldl (\<lambda>(mn, mx) r. (min mn (score r), max mx (score r))) (first, first) rest"

definition normalize_recipient_group :: "rating_record list \<Rightarrow> nat \<Rightarrow> por_error + normalized_entry list" where
  "normalize_recipient_group grp s =
     (case grp of [] \<Rightarrow> Inr []
      | first # rest \<Rightarrow>
          let (mn, mx) = score_bounds (score first) rest; range = mx - mn; denominator = range + s in
          if denominator > U128_MAX div s then Inl NormalizationOverflow
          else Inr (map (\<lambda>r. \<lparr>n_rater = rater r, n_recipient = recipient r, n_score = score r,
                 normalized_score = normalize_score (score r - mn) s denominator\<rparr>) grp))"

definition normalize_rating_matrix :: "rating_matrix \<Rightarrow> por_config \<Rightarrow> por_error + normalized_matrix" where
  "normalize_rating_matrix m cfg =
     (if scale cfg = 0 then Inl InvalidNormalizationScale
      else res_bind (res_map (\<lambda>g. normalize_recipient_group g (scale cfg))
             (chunk_by (\<lambda>x y. recipient x = recipient y) (matrix_ratings m))) (\<lambda>gs.
        Inr \<lparr>normalized_round = matrix_round m, normalized_ratings = concat gs\<rparr>))"

section \<open>Liquid rank\<close>

definition validate_previous_reputation_order :: "reputation_vector \<Rightarrow> por_error + unit" where
  "validate_previous_reputation_order prev = check_windows (vec_values prev)"

definition reputation_of :: "reputation_vector \<Rightarrow> node_id \<Rightarrow> por_error + nat" where
  "reputation_of prev n = map_sum id reputation (ok_or (search_entry (vec_values prev) n) MissingRaterReputation)"

definition weighted_score_step :: "reputation_vector \<Rightarrow> nat \<Rightarrow> normalized_entry \<Rightarrow> por_error + nat" where
  "weighted_score_step prev acc r =
     res_bind (reputation_of prev (n_rater r)) (\<lambda>w.
       ok_or (checked_add 128 acc (normalized_score r * w)) LiquidRankOverflow)"

definition push_recipient_contribution ::
  "normalized_entry list \<Rightarrow> reputation_vector \<Rightarrow> nat \<Rightarrow> por_error + reputation_entry list" where
  "push_recipient_contribution grp prev s =
     (case grp of [] \<Rightarrow> Inr []
      | first # _ \<Rightarrow>
          res_bind (res_fold (weighted_score_step prev) 0 grp) (\<lambda>sum.
            res_bind (ok_or (u64_try (sum div s)) LiquidRankOverflow) (\<lambda>rep.
              Inr [new_entry (n_recipient first) rep])))"

definition compute_liquid_rank_contribution ::
  "normalized_matrix \<Rightarrow> reputation_vector \<Rightarrow> por_config \<Rightarrow> por_error + reputation_vector" where
  "compute_liquid_rank_contribution m prev cfg =
     (if scale cfg = 0 then Inl InvalidLiquidRankScale
      else res_bind (validate_previous_reputation_order prev) (\<lambda>_.
        res_bind (res_map (\<lambda>g. push_recipient_contribution g prev (scale cfg))
            (chunk_by (\<lambda>x y. n_recipient x = n_recipient y) (normalized_ratings m))) (\<lambda>vs.
          Inr \<lparr>vec_round = normalized_round m, vec_values = concat vs\<rparr>)))"

section \<open>Blending\<close>

definition contribution_for_unrated_node :: "nat \<Rightarrow> por_config \<Rightarrow> por_error + nat" where
  "contribution_for_unrated_node previous cfg =
     (case missing_policy cfg of Reject \<Rightarrow> Inl MissingContributionEntry
      | CarryForward \<Rightarrow> Inr previous | Neutral \<Rightarrow> Inr (initial_reputation cfg))"

definition previous_for_new_node :: "por_config \<Rightarrow> por_error + nat" where
  "previous_for_new_node cfg =
     (case missing_policy cfg of Reject \<Rightarrow> Inl MissingPreviousReputation
      | CarryForward \<Rightarrow> Inr (initial_reputation cfg) | Neutral \<Rightarrow> Inr (initial_reputation cfg))"

definition blend_reputation :: "nat \<Rightarrow> nat \<Rightarrow> por_config \<Rightarrow> por_error + nat" where
  "blend_reputation contribution previous cfg =
     res_bind (ok_or (checked_mul 128 (liquid_rank_alpha cfg) contribution) ReputationTransitionOverflow) (\<lambda>ct.
       res_bind (ok_or (checked_mul 128 (scale cfg - liquid_rank_alpha cfg) previous) ReputationTransitionOverflow) (\<lambda>pt.
         res_bind (ok_or (checked_add 128 ct pt) ReputationTransitionOverflow) (\<lambda>t.
           ok_or (u64_try (t div scale cfg)) ReputationTransitionOverflow)))"

definition validate_reputation_order :: "reputation_vector \<Rightarrow> por_error + unit" where
  "validate_reputation_order v = check_windows (vec_values v)"

definition blend_node :: "node_id \<Rightarrow> por_error + nat \<Rightarrow> por_error + nat \<Rightarrow> por_config \<Rightarrow> por_error + reputation_entry" where
  "blend_node n contribution previous cfg =
     res_bind contribution (\<lambda>c. res_bind previous (\<lambda>p. res_bind (blend_reputation c p cfg) (\<lambda>r. Inr (new_entry n r))))"

fun blend_loop :: "por_config \<Rightarrow> reputation_entry list \<Rightarrow> reputation_entry list \<Rightarrow> por_error + reputation_entry list" where
  "blend_loop cfg [] [] = Inr []"
| "blend_loop cfg (c # cs) [] =
     res_bind (blend_node (entry_node c) (Inr (reputation c)) (previous_for_new_node cfg) cfg) (\<lambda>e.
       res_bind (blend_loop cfg cs []) (\<lambda>es. Inr (e # es)))"
| "blend_loop cfg [] (p # ps) =
     res_bind (blend_node (entry_node p) (contribution_for_unrated_node (reputation p) cfg) (Inr (reputation p)) cfg) (\<lambda>e.
       res_bind (blend_loop cfg [] ps) (\<lambda>es. Inr (e # es)))"
| "blend_loop cfg (c # cs) (p # ps) =
     (if entry_node c < entry_node p
      then res_bind (blend_node (entry_node c) (Inr (reputation c)) (previous_for_new_node cfg) cfg) (\<lambda>e.
        res_bind (blend_loop cfg cs (p # ps)) (\<lambda>es. Inr (e # es)))
      else if entry_node c = entry_node p
      then res_bind (blend_node (entry_node c) (Inr (reputation c)) (Inr (reputation p)) cfg) (\<lambda>e.
        res_bind (blend_loop cfg cs ps) (\<lambda>es. Inr (e # es)))
      else res_bind (blend_node (entry_node p) (contribution_for_unrated_node (reputation p) cfg) (Inr (reputation p)) cfg) (\<lambda>e.
        res_bind (blend_loop cfg (c # cs) ps) (\<lambda>es. Inr (e # es))))"

definition blend_reputation_transition ::
  "reputation_vector \<Rightarrow> reputation_vector \<Rightarrow> por_config \<Rightarrow> por_error + reputation_vector" where
  "blend_reputation_transition contribution previous cfg =
     (if scale cfg = 0 then Inl InvalidTransitionScale
      else if liquid_rank_alpha cfg > scale cfg then Inl InvalidLiquidRankAlpha
      else res_bind (validate_config cfg) (\<lambda>_.
        if checked_add 64 (vec_round previous) 1 \<noteq> Some (vec_round contribution) then Inl InvalidTransitionRound
        else res_bind (validate_reputation_order contribution) (\<lambda>_.
          res_bind (validate_reputation_order previous) (\<lambda>_.
            res_bind (blend_loop cfg (vec_values contribution) (vec_values previous)) (\<lambda>vs.
              Inr \<lparr>vec_round = vec_round contribution, vec_values = vs\<rparr>)))))"

section \<open>Clamping\<close>

text \<open>The binary search returns early (\<open>Inr\<close>) on an exact root and otherwise leaves its lower bound.\<close>

function isqrt_search :: "nat \<Rightarrow> nat \<Rightarrow> nat \<Rightarrow> nat + nat" where
  "isqrt_search n low high =
     (if low + 1 < high then
        let mid = (low + high) div 2 in
        case checked_mul 128 mid mid of
          Some q \<Rightarrow> if q = n then Inr mid else if q < n then isqrt_search n mid high else isqrt_search n low mid
        | None \<Rightarrow> isqrt_search n low mid
      else Inl low)"
  by pat_completeness auto
termination by (relation "measure (\<lambda>(n, low, high). high - low)") auto

declare isqrt_search.simps [simp del]

function isqrt_up :: "nat \<Rightarrow> nat \<Rightarrow> nat" where
  "isqrt_up n low =
     (case checked_mul 128 (low + 1) (low + 1) of
        Some q \<Rightarrow> if q \<le> n then isqrt_up n (low + 1) else low
      | None \<Rightarrow> low)"
  by pat_completeness auto
termination
proof (relation "measure (\<lambda>(n, low). n - low)")
  fix n low q assume "checked_mul 128 (low + 1) (low + 1) = Some q" "q \<le> n"
  then have "low < n" by (auto simp: checked_mul_def split: if_splits)
  then show "((n, low + 1), n, low) \<in> measure (\<lambda>(n, low). n - low)" by simp
qed simp

declare isqrt_up.simps [simp del]

function isqrt_down :: "nat \<Rightarrow> nat \<Rightarrow> nat" where
  "isqrt_down n low =
     (case checked_mul 128 low low of
        Some q \<Rightarrow> if q > n then isqrt_down n (low - 1) else low
      | None \<Rightarrow> isqrt_down n (low - 1))"
  by pat_completeness auto
termination
proof (relation "measure (\<lambda>(n, low). low)")
  fix n low q assume "checked_mul 128 low low = Some q" "n < q"
  then show "((n, low - 1), n, low) \<in> measure (\<lambda>(n, low). low)" by (cases low) (auto simp: checked_mul_def split: if_splits)
next
  fix n low assume "checked_mul 128 low low = None"
  then show "((n, low - 1), n, low) \<in> measure (\<lambda>(n, low). low)" by (cases low) (auto simp: checked_mul_def split: if_splits)
qed simp

declare isqrt_down.simps [simp del]

definition integer_sqrt_u128 :: "nat \<Rightarrow> nat" where
  "integer_sqrt_u128 n = (case isqrt_search n 0 (2 ^ 64) of Inr mid \<Rightarrow> mid | Inl low \<Rightarrow> isqrt_down n (isqrt_up n low))"

definition clamp_reputation_value :: "nat \<Rightarrow> nat \<Rightarrow> por_error + nat" where
  "clamp_reputation_value value s =
     (if s = 0 then Inl InvalidClampScale
      else if value = 0 then Inr 0
      else res_bind (ok_or (checked_mul 128 s s) ClampOverflow) (\<lambda>s2.
        res_bind (ok_or (checked_mul 128 value value) ClampOverflow) (\<lambda>r2.
          res_bind (ok_or (checked_add 128 s2 r2) ClampOverflow) (\<lambda>sum.
            let denom = integer_sqrt_u128 sum in
            if denom = 0 then Inl ClampOverflow
            else res_bind (ok_or (checked_mul 128 value s) ClampOverflow) (\<lambda>numerator.
              res_bind (ok_or (checked_add 128 numerator (denom div 2)) ClampOverflow) (\<lambda>rounded.
                let result = rounded div denom in
                Inr (if result > 2 ^ 64 - 1 then 2 ^ 64 - 1 else result)))))))"

definition clamp_reputation_vector :: "reputation_vector \<Rightarrow> por_config \<Rightarrow> por_error + reputation_vector" where
  "clamp_reputation_vector v cfg =
     (if scale cfg = 0 then Inl InvalidClampScale
      else res_bind (res_map (\<lambda>e. map_sum id (new_entry (entry_node e)) (clamp_reputation_value (reputation e) (scale cfg)))
             (vec_values v)) (\<lambda>vs. Inr \<lparr>vec_round = vec_round v, vec_values = vs\<rparr>))"

definition advance_to :: "reputation_entry list \<Rightarrow> reputation_entry \<Rightarrow> reputation_entry list" where
  "advance_to es target = dropWhile (\<lambda>e. entry_node e < entry_node target) es"

definition has_node_at :: "reputation_entry list \<Rightarrow> reputation_entry \<Rightarrow> bool" where
  "has_node_at es target = (case es of [] \<Rightarrow> False | e # _ \<Rightarrow> entry_node e = entry_node target)"

fun clamp_loop :: "nat \<Rightarrow> reputation_entry list \<Rightarrow> reputation_entry list \<Rightarrow> reputation_entry list \<Rightarrow> por_error + reputation_entry list" where
  "clamp_loop s [] prev contribution = Inr []"
| "clamp_loop s (e # es) prev contribution =
     (let prev' = advance_to prev e; contribution' = advance_to contribution e in
      res_bind (if has_node_at prev' e \<and> \<not> has_node_at contribution' e then Inr (reputation (hd prev'))
                else clamp_reputation_value (reputation e) s) (\<lambda>r.
        res_bind (clamp_loop s es prev' contribution') (\<lambda>vs. Inr (new_entry (entry_node e) r # vs))))"

definition clamp_reputation_transition ::
  "reputation_vector \<Rightarrow> reputation_vector \<Rightarrow> reputation_vector \<Rightarrow> por_config \<Rightarrow> por_error + reputation_vector" where
  "clamp_reputation_transition blended previous contribution cfg =
     (if missing_policy cfg \<noteq> CarryForward then clamp_reputation_vector blended cfg
      else if scale cfg = 0 then Inl InvalidClampScale
      else res_bind (clamp_loop (scale cfg) (vec_values blended) (vec_values previous) (vec_values contribution)) (\<lambda>vs.
        Inr \<lparr>vec_round = vec_round blended, vec_values = vs\<rparr>))"

section \<open>The integer square root\<close>

lemma square_le_iff: "(a::nat) * a \<le> b * b \<longleftrightarrow> a \<le> b"
  by (simp add: power2_eq_square [symmetric] power2_nat_le_eq_le)

lemma two64_square: "(2::nat) ^ 64 * 2 ^ 64 = 2 ^ 128"
  by simp

lemma isqrt_search_spec:
  assumes "n < 2 ^ 128" "low * low \<le> n" "n < high * high" "low < high"
  shows "case isqrt_search n low high of Inr m \<Rightarrow> m * m = n | Inl l \<Rightarrow> l * l \<le> n \<and> n < (l + 1) * (l + 1)"
  using assms
proof (induction n low high rule: isqrt_search.induct)
  case (1 n low high)
  show ?case
  proof (cases "low + 1 < high")
    case False
    then have "high = low + 1" using "1.prems"(4) by simp
    then show ?thesis using "1.prems" by (simp add: isqrt_search.simps)
  next
    case True
    define mid where "mid = (low + high) div 2"
    have m: "low < mid" "mid < high" using True by (auto simp: mid_def)
    show ?thesis
    proof (cases "mid * mid < 2 ^ 128")
      case False
      then have "n < mid * mid" using "1.prems"(1) by simp
      then show ?thesis
        using "1.IH"(1) [OF True mid_def] "1.prems" m True False
        by (subst isqrt_search.simps) (simp add: mid_def [symmetric] checked_mul_def)
    next
      case c: True
      consider "mid * mid = n" | "mid * mid < n" | "n < mid * mid" by linarith
      then show ?thesis
      proof cases
        case 1
        then show ?thesis using True c by (subst isqrt_search.simps) (simp add: mid_def [symmetric] checked_mul_def)
      next
        case 2
        then show ?thesis
          using "1.IH"(2) [OF True mid_def, of "mid * mid"] "1.prems" m True c
          by (subst isqrt_search.simps) (simp add: mid_def [symmetric] checked_mul_def)
      next
        case 3
        then show ?thesis
          using "1.IH"(3) [OF True mid_def, of "mid * mid"] "1.prems" m True c
          by (subst isqrt_search.simps) (simp add: mid_def [symmetric] checked_mul_def)
      qed
    qed
  qed
qed

lemma isqrt_up_id: "n < (low + 1) * (low + 1) \<Longrightarrow> isqrt_up n low = low"
  by (subst isqrt_up.simps) (simp add: checked_mul_def)

lemma isqrt_down_id: "n < 2 ^ 128 \<Longrightarrow> low * low \<le> n \<Longrightarrow> isqrt_down n low = low"
  by (subst isqrt_down.simps) (simp add: checked_mul_def)

lemma isqrt_bounds:
  assumes "n < 2 ^ 128"
  shows "integer_sqrt_u128 n * integer_sqrt_u128 n \<le> n" "n < (integer_sqrt_u128 n + 1) * (integer_sqrt_u128 n + 1)"
proof -
  have "case isqrt_search n 0 (2 ^ 64) of Inr m \<Rightarrow> m * m = n | Inl l \<Rightarrow> l * l \<le> n \<and> n < (l + 1) * (l + 1)"
    using assms by (intro isqrt_search_spec) simp_all
  then show "integer_sqrt_u128 n * integer_sqrt_u128 n \<le> n" "n < (integer_sqrt_u128 n + 1) * (integer_sqrt_u128 n + 1)"
    using assms unfolding integer_sqrt_u128_def
    by (auto simp: isqrt_up_id isqrt_down_id split: sum.splits)
qed

lemma isqrt_unique:
  assumes "n < 2 ^ 128" "r * r \<le> n" "n < (r + 1) * (r + 1)"
  shows "integer_sqrt_u128 n = r"
proof -
  note b = isqrt_bounds [OF assms(1)]
  have "integer_sqrt_u128 n * integer_sqrt_u128 n < (r + 1) * (r + 1)" using b(1) assms(3) by (rule le_less_trans)
  moreover have "r * r < (integer_sqrt_u128 n + 1) * (integer_sqrt_u128 n + 1)" using assms(2) b(2) by (rule le_less_trans)
  ultimately have "\<not> r + 1 \<le> integer_sqrt_u128 n" "\<not> integer_sqrt_u128 n + 1 \<le> r"
    using square_le_iff [of "r + 1" "integer_sqrt_u128 n"] square_le_iff [of "integer_sqrt_u128 n + 1" r] by linarith+
  then show ?thesis by linarith
qed

end
