(* ===== verification/Por_Rank_Proofs.thy ===== *)
theory Por_Rank_Proofs
  imports Por_Rank
begin

text \<open>
  The steps of \<open>Por_Rank\<close> in closed form.  Over vectors in strictly ascending order the merge loop of the blend and
  the two-pointer loop of the clamp are maps over the sorted set of nodes (\<open>blend_loop_eq\<close>, \<open>clamp_loop_eq\<close>), and
  the groups of a sorted matrix are its ratings by recipient (\<open>chunk_by_sorted\<close>).
\<close>

section \<open>Clamped and blended values\<close>

lemma clamp_ok:
  assumes "clamp_reputation_value v s = Inr r" "v \<noteq> 0"
  defines "d \<equiv> integer_sqrt_u128 (s * s + v * v)"
  shows "0 < s" "s * s + v * v < 2 ^ 128" "r = min (2 ^ 64 - 1) ((v * s + d div 2) div d)"
  using assms(1,2) unfolding clamp_reputation_value_def
  by (auto simp: res_ok checked_defs Let_def d_def [symmetric] split: if_splits)

lemma denominator_bounds:
  assumes "s * s + v * v < 2 ^ 128"
  defines "d \<equiv> integer_sqrt_u128 (s * s + v * v)"
  shows "s \<le> d" "v \<le> d" "d \<le> s + v"
proof -
  note b = isqrt_bounds [OF assms(1), folded d_def]
  have "s * s < (d + 1) * (d + 1)" "v * v < (d + 1) * (d + 1)" using b(2) by linarith+
  then have "\<not> d + 1 \<le> s" "\<not> d + 1 \<le> v" using square_le_iff [of "d + 1" s] square_le_iff [of "d + 1" v] by linarith+
  then show "s \<le> d" "v \<le> d" by simp_all
  have "d * d \<le> (s + v) * (s + v)" using b(1) by (simp add: algebra_simps)
  then show "d \<le> s + v" using square_le_iff by blast
qed

lemma rounded_div_le:
  assumes "x \<le> d * y" "0 < (d::nat)"
  shows "(x + d div 2) div d \<le> y"
proof -
  have "x + d div 2 < d * y + d" using assms by auto
  then show ?thesis by (simp add: less_mult_imp_div_less mult.commute div_less_iff_less_mult flip: less_Suc_eq_le)
qed

lemma clamp_bounds:
  assumes "clamp_reputation_value v s = Inr r"
  shows "r \<le> s" "r \<le> v" "r = 0 \<longleftrightarrow> v = 0"
proof -
  have "r \<le> s \<and> r \<le> v \<and> (r = 0 \<longleftrightarrow> v = 0)"
  proof (cases "v = 0")
    case True
    then show ?thesis using assms by (auto simp: clamp_reputation_value_def split: if_splits)
  next
    case v: False
    define d where "d = integer_sqrt_u128 (s * s + v * v)"
    note c = clamp_ok [OF assms v, folded d_def]
    note b = denominator_bounds [OF c(2), folded d_def]
    have d: "0 < d" using b(1) c(1) by simp
    have "v * s \<le> d * s" "v * s \<le> d * v" using b by (simp_all add: mult.commute)
    then have le: "(v * s + d div 2) div d \<le> s" "(v * s + d div 2) div d \<le> v" using rounded_div_le d by blast+
    have "s + v \<le> v * s + v * s"
    proof -
      have "1 * s \<le> v * s" using v by (intro mult_right_mono) simp_all
      moreover have "v * 1 \<le> v * s" using c(1) by (intro mult_left_mono) simp_all
      ultimately show ?thesis by linarith
    qed
    then have "d \<le> v * s + d div 2" using b(3) by linarith
    then have "1 \<le> (v * s + d div 2) div d" using d by (simp add: Suc_le_eq div_greater_zero_iff)
    then show ?thesis using le v c(3) by (auto simp: min_def)
  qed
  then show "r \<le> s" "r \<le> v" "r = 0 \<longleftrightarrow> v = 0" by simp_all
qed

lemma clamp_succeeds:
  assumes "0 < s" "s < 2 ^ 63" "v < 2 ^ 63"
  shows "\<exists>r. clamp_reputation_value v s = Inr r"
proof (cases "v = 0")
  case False
  define d where "d = integer_sqrt_u128 (s * s + v * v)"
  have "s * s < 2 ^ 63 * 2 ^ 63" "v * v < 2 ^ 63 * 2 ^ 63" "v * s < 2 ^ 63 * 2 ^ 63"
    using assms by (intro mult_strict_mono; simp)+
  then have f: "s * s < 2 ^ 126" "v * v < 2 ^ 126" "v * s < 2 ^ 126" by simp_all
  then have sum: "s * s + v * v < 2 ^ 128" by simp
  note b = denominator_bounds [OF this, folded d_def]
  have "0 < d" "d div 2 < 2 ^ 64" using b assms by simp_all
  then show ?thesis
    using f sum assms(1) False
    by (simp add: clamp_reputation_value_def checked_defs Let_def d_def [symmetric])
qed (use assms(1) in \<open>simp add: clamp_reputation_value_def\<close>)

definition blend_value :: "por_config \<Rightarrow> nat \<Rightarrow> nat \<Rightarrow> nat" where
  "blend_value cfg c p = (liquid_rank_alpha cfg * c + (scale cfg - liquid_rank_alpha cfg) * p) div scale cfg"

lemma blend_ok: "blend_reputation c p cfg = Inr r \<Longrightarrow> r = blend_value cfg c p"
  by (auto simp: blend_reputation_def blend_value_def res_ok checked_defs u64_try_def split: if_splits)

lemma blend_value_bounds:
  assumes "valid_config cfg"
  shows "min c p \<le> blend_value cfg c p" "blend_value cfg c p \<le> max c p"
proof -
  define a b where "a = liquid_rank_alpha cfg" and "b = scale cfg - liquid_rank_alpha cfg"
  have s: "scale cfg = a + b" "0 < scale cfg" using assms by (simp_all add: a_def b_def valid_config_def)
  have "(a + b) * min c p \<le> a * c + b * p" "a * c + b * p \<le> (a + b) * max c p"
    by (simp_all add: distrib_right add_mono)
  then show "min c p \<le> blend_value cfg c p" "blend_value cfg c p \<le> max c p"
    using s div_le_mono [of "scale cfg * min c p" "a * c + b * p" "scale cfg"]
      div_le_mono [of "a * c + b * p" "scale cfg * max c p" "scale cfg"]
    by (simp_all add: blend_value_def a_def [symmetric] b_def [symmetric])
qed

lemma blend_succeeds:
  assumes "valid_config cfg" "scale cfg < 2 ^ 64" "c < 2 ^ 63" "p < 2 ^ 63"
  shows "blend_reputation c p cfg = Inr (blend_value cfg c p)"
proof -
  have a: "liquid_rank_alpha cfg \<le> 2 ^ 64" "scale cfg - liquid_rank_alpha cfg \<le> 2 ^ 64"
    using assms(1,2) by (simp_all add: valid_config_def)
  have "liquid_rank_alpha cfg * c \<le> 2 ^ 64 * 2 ^ 63" "(scale cfg - liquid_rank_alpha cfg) * p \<le> 2 ^ 64 * 2 ^ 63"
    using a assms(3,4) by (intro mult_mono; simp)+
  then have "liquid_rank_alpha cfg * c \<le> 2 ^ 127 \<and> (scale cfg - liquid_rank_alpha cfg) * p \<le> 2 ^ 127" by simp
  moreover have "c * liquid_rank_alpha cfg + p * (scale cfg - liquid_rank_alpha cfg) < 2 ^ 128"
  proof -
    have "liquid_rank_alpha cfg * c + (scale cfg - liquid_rank_alpha cfg) * p \<le> scale cfg * max c p"
    proof -
      have "scale cfg = liquid_rank_alpha cfg + (scale cfg - liquid_rank_alpha cfg)" using assms(1) by (simp add: valid_config_def)
      then have "scale cfg * max c p = liquid_rank_alpha cfg * max c p + (scale cfg - liquid_rank_alpha cfg) * max c p"
        using distrib_right by metis
      moreover have "liquid_rank_alpha cfg * c \<le> liquid_rank_alpha cfg * max c p"
        "(scale cfg - liquid_rank_alpha cfg) * p \<le> (scale cfg - liquid_rank_alpha cfg) * max c p" by simp_all
      ultimately show ?thesis by linarith
    qed
    also have "scale cfg * max c p \<le> 2 ^ 64 * 2 ^ 63" using assms by (intro mult_mono) simp_all
    also have "\<dots> < (2::nat) ^ 128" by simp
    finally show ?thesis by (simp add: mult.commute)
  qed
  moreover have "blend_value cfg c p < 2 ^ 64"
    using blend_value_bounds(2) [OF assms(1), of c p] assms(3,4) by (simp add: max_def split: if_splits)
  ultimately show ?thesis
    by (simp add: blend_reputation_def checked_defs u64_try_def blend_value_def mult.commute)
qed

section \<open>Groups\<close>

lemma hd_chunk_by: "chunk_by P xs = g # gs \<Longrightarrow> hd g = hd xs"
  by (cases xs) (auto split: list.splits if_splits)

lemma sorted_list_of_set_insert_min:
  assumes "finite A" "\<And>a. a \<in> A \<Longrightarrow> x < (a :: 'k::linorder)"
  shows "sorted_list_of_set (insert x A) = x # sorted_list_of_set A"
proof -
  have "x \<notin> A" using assms(2) by blast
  then show ?thesis using assms by (intro sorted_list_of_set_unique [THEN iffD1]) auto
qed

lemma filter_no_key: "(\<And>y. y \<in> set xs \<Longrightarrow> f y \<noteq> k) \<Longrightarrow> filter (\<lambda>y. f y = k) xs = []"
  by (simp add: filter_empty_conv)

lemma chunk_by_sorted:
  "sorted (map f xs) \<Longrightarrow> chunk_by (\<lambda>x y. f x = f y) xs =
     map (\<lambda>k. filter (\<lambda>x. f x = k) xs) (sorted_list_of_set ((f :: 'a \<Rightarrow> 'k::linorder) ` set xs))"
proof (induction xs)
  case (Cons x xs)
  let ?ks = "sorted_list_of_set (f ` set xs)"
  have IH: "chunk_by (\<lambda>x y. f x = f y) xs = map (\<lambda>k. filter (\<lambda>x. f x = k) xs) ?ks" using Cons by simp
  have le: "f x \<le> f y" if "y \<in> set xs" for y using Cons.prems that by simp
  show ?case
  proof (cases xs)
    case Nil
    then show ?thesis by simp
  next
    case (Cons y ys)
    have min: "f y \<le> f z" if "z \<in> set xs" for z using \<open>sorted (map f (x # xs))\<close> that Cons by auto
    have ks: "?ks = f y # sorted_list_of_set (f ` set xs - {f y})"
    proof -
      have "f y \<in> f ` set xs" using Cons by simp
      then have "insert (f y) (f ` set xs - {f y}) = f ` set xs" by (simp add: insert_absorb)
      then have "?ks = sorted_list_of_set (insert (f y) (f ` set xs - {f y}))" by (rule arg_cong [OF sym])
      also have "sorted_list_of_set (insert (f y) (f ` set xs - {f y})) = f y # sorted_list_of_set (f ` set xs - {f y})"
        using min by (intro sorted_list_of_set_insert_min) (auto simp: order_less_le)
      finally show ?thesis .
    qed
    have hd: "hd (filter (\<lambda>z. f z = f y) xs) = y" using Cons by simp
    show ?thesis
    proof (cases "f x = f y")
      case True
      then have "f ` set (x # xs) = f ` set xs" using Cons by auto
      moreover have "filter (\<lambda>z. f z = k) (x # xs) = filter (\<lambda>z. f z = k) xs"
        if "k \<in> set (sorted_list_of_set (f ` set xs - {f y}))" for k using that True by auto
      ultimately show ?thesis using IH True hd by (simp add: ks cong: map_cong)
    next
      case False
      then have lt: "f x < f z" if "z \<in> set xs" for z
        using le [of y] min [OF that] Cons by (auto simp: order_less_le)
      have "sorted_list_of_set (insert (f x) (f ` set xs)) = f x # ?ks"
        using lt by (intro sorted_list_of_set_insert_min) auto
      moreover have "filter (\<lambda>z. f z = f x) xs = []" using lt by (intro filter_no_key) fastforce
      moreover have "filter (\<lambda>z. f z = k) (x # xs) = filter (\<lambda>z. f z = k) xs" if "k \<in> set ?ks" for k
        using that lt by (auto dest: less_imp_neq)
      ultimately show ?thesis using IH False hd by (simp add: ks cong: map_cong)
    qed
  qed
qed simp

section \<open>The merge loop of the blend\<close>

definition blend_spec :: "por_config \<Rightarrow> node_id \<Rightarrow> reputation_entry option \<Rightarrow> reputation_entry option \<Rightarrow> por_error + reputation_entry" where
  "blend_spec cfg n c p =
     blend_node n
       (case c of Some e \<Rightarrow> Inr (reputation e) | None \<Rightarrow> contribution_for_unrated_node (case p of Some e \<Rightarrow> reputation e | None \<Rightarrow> 0) cfg)
       (case p of Some e \<Rightarrow> Inr (reputation e) | None \<Rightarrow> previous_for_new_node cfg) cfg"

abbreviation nodes_of :: "reputation_entry list \<Rightarrow> node_id set" where
  "nodes_of es \<equiv> entry_node ` set es"

lemma entry_of_simps [simp]: "entry_of [] k = None" "entry_of (e # es) k = (if entry_node e = k then Some e else entry_of es k)"
  by (auto simp: entry_of_def)

lemma entry_of_above [simp]: "(\<And>e. e \<in> set es \<Longrightarrow> k < entry_node e) \<Longrightarrow> entry_of es k = None"
  by (auto simp: entry_of_None)

lemma entry_of_skip: "entry_node e < k \<Longrightarrow> entry_of (e # es) k = entry_of es k"
  by auto

lemma res_map_cong: "(\<And>x. x \<in> set xs \<Longrightarrow> f x = g x) \<Longrightarrow> res_map f xs = res_map g xs"
  by (induction xs) auto

lemma merge_step:
  assumes "finite A" "\<And>a. a \<in> A \<Longrightarrow> x < (a :: 'k::linorder)" "f x = h" "\<And>a. a \<in> A \<Longrightarrow> f a = g a"
    and "\<And>y. h = Inr y \<Longrightarrow> m = res_map g (sorted_list_of_set A)" "B = insert x A"
  shows "res_bind h (\<lambda>y. res_bind m (\<lambda>ys. Inr (y # ys))) = res_map f (sorted_list_of_set B)"
proof -
  have "sorted_list_of_set (insert x A) = x # sorted_list_of_set A" using assms(1,2) by (rule sorted_list_of_set_insert_min)
  moreover have "res_map f (sorted_list_of_set A) = res_map g (sorted_list_of_set A)"
    using assms(1,4) by (intro res_map_cong) simp
  ultimately show ?thesis using assms(3,5,6) by (cases h) simp_all
qed

lemma blend_loop_eq:
  "ascending cs \<Longrightarrow> ascending ps \<Longrightarrow> blend_loop cfg cs ps =
     res_map (\<lambda>n. blend_spec cfg n (entry_of cs n) (entry_of ps n)) (sorted_list_of_set (nodes_of cs \<union> nodes_of ps))"
proof (induction cfg cs ps rule: blend_loop.induct)
  case (1 cfg)
  then show ?case by simp
next
  case (2 cfg c cs)
  have c: "\<forall>e \<in> set cs. entry_node c < entry_node e" using "2.prems" by simp
  show ?case
    unfolding blend_loop.simps
  proof (rule merge_step [where A = "nodes_of cs \<union> nodes_of []"])
    show "blend_loop cfg cs [] = res_map (\<lambda>n. blend_spec cfg n (entry_of cs n) (entry_of [] n)) (sorted_list_of_set (nodes_of cs \<union> nodes_of []))"
      if "blend_node (entry_node c) (Inr (reputation c)) (previous_for_new_node cfg) cfg = Inr y" for y
      using "2.IH" [OF that] "2.prems" by simp
  qed (use c in \<open>auto simp: blend_spec_def\<close>)
next
  case (3 cfg p ps)
  have p: "\<forall>e \<in> set ps. entry_node p < entry_node e" using "3.prems" by simp
  show ?case
    unfolding blend_loop.simps
  proof (rule merge_step [where A = "nodes_of [] \<union> nodes_of ps"])
    show "blend_loop cfg [] ps = res_map (\<lambda>n. blend_spec cfg n (entry_of [] n) (entry_of ps n)) (sorted_list_of_set (nodes_of [] \<union> nodes_of ps))"
      if "blend_node (entry_node p) (contribution_for_unrated_node (reputation p) cfg) (Inr (reputation p)) cfg = Inr y" for y
      using "3.IH" [OF that] "3.prems" by simp
  qed (use p in \<open>auto simp: blend_spec_def\<close>)
next
  case (4 cfg c cs p ps)
  have c: "\<forall>e \<in> set cs. entry_node c < entry_node e" "ascending cs"
    and p: "\<forall>e \<in> set ps. entry_node p < entry_node e" "ascending ps"
    using "4.prems" by auto
  consider "entry_node c < entry_node p" | "entry_node c = entry_node p" | "entry_node p < entry_node c" by fastforce
  then show ?case
  proof cases
    case 1
    have above: "\<forall>e \<in> set (p # ps). entry_node c < entry_node e" using p(1) 1 by (auto dest: less_trans)
    then have n: "entry_of (p # ps) (entry_node c) = None" by (intro entry_of_above) blast
    have lt: "entry_node c < a" if "a \<in> nodes_of cs \<union> nodes_of (p # ps)" for a
      using that c(1) above by blast
    show ?thesis
      unfolding blend_loop.simps if_P [OF 1]
    proof (rule merge_step [where A = "nodes_of cs \<union> nodes_of (p # ps)"])
      show "blend_loop cfg cs (p # ps) =
          res_map (\<lambda>n. blend_spec cfg n (entry_of cs n) (entry_of (p # ps) n)) (sorted_list_of_set (nodes_of cs \<union> nodes_of (p # ps)))"
        if "blend_node (entry_node c) (Inr (reputation c)) (previous_for_new_node cfg) cfg = Inr y" for y
        using "4.IH"(1) [OF 1 that c(2) "4.prems"(2)] .
      show "blend_spec cfg (entry_node c) (entry_of (c # cs) (entry_node c)) (entry_of (p # ps) (entry_node c)) =
          blend_node (entry_node c) (Inr (reputation c)) (previous_for_new_node cfg) cfg"
        unfolding n by (simp add: blend_spec_def)
      show "blend_spec cfg a (entry_of (c # cs) a) (entry_of (p # ps) a) = blend_spec cfg a (entry_of cs a) (entry_of (p # ps) a)"
        if "a \<in> nodes_of cs \<union> nodes_of (p # ps)" for a
        unfolding entry_of_skip [OF lt [OF that]] ..
      show "nodes_of (c # cs) \<union> nodes_of (p # ps) = insert (entry_node c) (nodes_of cs \<union> nodes_of (p # ps))" by auto
    qed (use lt in simp_all)
  next
    case 2
    have nlt: "\<not> entry_node c < entry_node p" using 2 by simp
    show ?thesis
      unfolding blend_loop.simps if_not_P [OF nlt] if_P [OF 2]
    proof (rule merge_step [where A = "nodes_of cs \<union> nodes_of ps"])
      show "blend_loop cfg cs ps =
          res_map (\<lambda>n. blend_spec cfg n (entry_of cs n) (entry_of ps n)) (sorted_list_of_set (nodes_of cs \<union> nodes_of ps))"
        if "blend_node (entry_node c) (Inr (reputation c)) (Inr (reputation p)) cfg = Inr y" for y
        using "4.IH"(2) [OF nlt 2 that c(2) p(2)] .
    qed (use c(1) p(1) 2 in \<open>auto simp: blend_spec_def\<close>)
  next
    case 3
    have above: "\<forall>e \<in> set (c # cs). entry_node p < entry_node e" using c(1) 3 by (auto dest: less_trans)
    then have n: "entry_of (c # cs) (entry_node p) = None" by (intro entry_of_above) blast
    have nlt: "\<not> entry_node c < entry_node p" "\<not> entry_node c = entry_node p" using 3 by auto
    have lt: "entry_node p < a" if "a \<in> nodes_of (c # cs) \<union> nodes_of ps" for a
      using that p(1) above by blast
    show ?thesis
      unfolding blend_loop.simps if_not_P [OF nlt(1)] if_not_P [OF nlt(2)]
    proof (rule merge_step [where A = "nodes_of (c # cs) \<union> nodes_of ps"])
      show "blend_loop cfg (c # cs) ps =
          res_map (\<lambda>n. blend_spec cfg n (entry_of (c # cs) n) (entry_of ps n)) (sorted_list_of_set (nodes_of (c # cs) \<union> nodes_of ps))"
        if "blend_node (entry_node p) (contribution_for_unrated_node (reputation p) cfg) (Inr (reputation p)) cfg = Inr y" for y
        using "4.IH"(3) [OF nlt that "4.prems"(1) p(2)] .
      show "blend_spec cfg (entry_node p) (entry_of (c # cs) (entry_node p)) (entry_of (p # ps) (entry_node p)) =
          blend_node (entry_node p) (contribution_for_unrated_node (reputation p) cfg) (Inr (reputation p)) cfg"
        unfolding n by (simp add: blend_spec_def)
      show "blend_spec cfg a (entry_of (c # cs) a) (entry_of (p # ps) a) = blend_spec cfg a (entry_of (c # cs) a) (entry_of ps a)"
        if "a \<in> nodes_of (c # cs) \<union> nodes_of ps" for a
        unfolding entry_of_skip [OF lt [OF that]] ..
      show "nodes_of (c # cs) \<union> nodes_of (p # ps) = insert (entry_node p) (nodes_of (c # cs) \<union> nodes_of ps)" by auto
    qed (use lt in simp_all)
  qed
qed

section \<open>The clamp loop\<close>

definition clamp_spec :: "nat \<Rightarrow> reputation_entry option \<Rightarrow> reputation_entry option \<Rightarrow> reputation_entry \<Rightarrow> por_error + reputation_entry" where
  "clamp_spec s p c e = map_sum id (new_entry (entry_node e))
     (case (p, c) of (Some q, None) \<Rightarrow> Inr (reputation q) | _ \<Rightarrow> clamp_reputation_value (reputation e) s)"

lemma entry_of_advance:
  "ascending es \<Longrightarrow> entry_node target \<le> k \<Longrightarrow> entry_of (advance_to es target) k = entry_of es k"
  by (induction es) (auto simp: advance_to_def)

lemma ascending_advance: "ascending es \<Longrightarrow> ascending (advance_to es target)"
  by (induction es) (auto simp: advance_to_def)

lemma has_node_advance:
  assumes "ascending es"
  shows "has_node_at (advance_to es e) e \<longleftrightarrow> (\<exists>q. entry_of es (entry_node e) = Some q \<and> hd (advance_to es e) = q)"
    "has_node_at (advance_to es e) e \<longleftrightarrow> entry_of es (entry_node e) \<noteq> None"
proof -
  have above: "entry_of (advance_to es e) (entry_node e) = None" if "\<not> has_node_at (advance_to es e) e"
  proof (cases "advance_to es e")
    case (Cons q qs)
    then have "\<not> entry_node q < entry_node e" using hd_dropWhile [of "\<lambda>x. entry_node x < entry_node e" es] by (auto simp: advance_to_def)
    then have "entry_node e < entry_node q" using that Cons by (auto simp: has_node_at_def)
    then show ?thesis using ascending_advance [OF assms, of e] Cons by (intro entry_of_above) (auto dest: less_trans)
  qed simp
  have at: "entry_of (advance_to es e) (entry_node e) = Some (hd (advance_to es e))" if "has_node_at (advance_to es e) e"
    using that by (auto simp: has_node_at_def split: list.splits)
  note eq = entry_of_advance [OF assms, of e "entry_node e"]
  show "has_node_at (advance_to es e) e \<longleftrightarrow> (\<exists>q. entry_of es (entry_node e) = Some q \<and> hd (advance_to es e) = q)"
    "has_node_at (advance_to es e) e \<longleftrightarrow> entry_of es (entry_node e) \<noteq> None"
    using above at eq by (cases "has_node_at (advance_to es e) e"; simp)+
qed

lemma clamp_loop_eq:
  "ascending es \<Longrightarrow> ascending prev \<Longrightarrow> ascending contribution \<Longrightarrow> clamp_loop s es prev contribution =
     res_map (\<lambda>e. clamp_spec s (entry_of prev (entry_node e)) (entry_of contribution (entry_node e)) e) es"
proof (induction s es prev contribution rule: clamp_loop.induct)
  case (2 s e es prev contribution)
  let ?p = "advance_to prev e" and ?c = "advance_to contribution e"
  have step: "map_sum id (new_entry (entry_node e))
      (if has_node_at ?p e \<and> \<not> has_node_at ?c e then Inr (reputation (hd ?p)) else clamp_reputation_value (reputation e) s) =
    clamp_spec s (entry_of prev (entry_node e)) (entry_of contribution (entry_node e)) e"
    using has_node_advance [OF "2.prems"(2), of e] has_node_advance(2) [OF "2.prems"(3), of e]
    by (auto simp: clamp_spec_def split: option.splits)
  have rest: "res_map (\<lambda>x. clamp_spec s (entry_of ?p (entry_node x)) (entry_of ?c (entry_node x)) x) es =
      res_map (\<lambda>x. clamp_spec s (entry_of prev (entry_node x)) (entry_of contribution (entry_node x)) x) es"
    using "2.prems" by (intro res_map_cong) (auto simp: entry_of_advance less_imp_le)
  have "clamp_loop s es ?p ?c = res_map (\<lambda>x. clamp_spec s (entry_of prev (entry_node x)) (entry_of contribution (entry_node x)) x) es"
    if "(if has_node_at ?p e \<and> \<not> has_node_at ?c e then Inr (reputation (hd ?p)) else clamp_reputation_value (reputation e) s) = Inr r" for r
    using "2.IH" [OF refl refl that] "2.prems" rest by (simp add: ascending_advance)
  then show ?case
    unfolding clamp_loop.simps Let_def res_map.simps step [symmetric]
    by (cases "if has_node_at ?p e \<and> \<not> has_node_at ?c e then Inr (reputation (hd ?p)) else clamp_reputation_value (reputation e) s") auto
qed simp

section \<open>Normalized scores and contributions\<close>

definition lowest_score :: "rating_record list \<Rightarrow> nat" where
  "lowest_score g = Min (score ` set g)"

definition highest_score :: "rating_record list \<Rightarrow> nat" where
  "highest_score g = Max (score ` set g)"

definition norm_value :: "nat \<Rightarrow> rating_record list \<Rightarrow> rating_record \<Rightarrow> nat" where
  "norm_value s g r = (score r - lowest_score g + s) * s div (highest_score g - lowest_score g + s)"

lemma score_bounds_eq: "score_bounds (score x) xs = (lowest_score (x # xs), highest_score (x # xs))"
proof -
  have "foldl (\<lambda>(mn, mx) r. (min mn (score r), max mx (score r))) (a, b) xs =
      (Min (insert a (score ` set xs)), Max (insert b (score ` set xs)))" for a b
  proof (induction xs arbitrary: a b)
    case (Cons x xs)
    have "Min (insert (min a (score x)) (score ` set xs)) = Min (insert a (insert (score x) (score ` set xs)))"
      "Max (insert (max b (score x)) (score ` set xs)) = Max (insert b (insert (score x) (score ` set xs)))"
      by (cases "xs = []"; simp add: min.assoc max.assoc)+
    then show ?case using Cons by simp
  qed simp
  then show ?thesis by (simp add: score_bounds_def lowest_score_def highest_score_def)
qed

lemma score_between: "r \<in> set g \<Longrightarrow> lowest_score g \<le> score r" "r \<in> set g \<Longrightarrow> score r \<le> highest_score g"
  by (simp_all add: lowest_score_def highest_score_def)

lemma norm_value_le:
  assumes "0 < s" "r \<in> set g"
  shows "norm_value s g r \<le> s"
proof -
  have "score r - lowest_score g + s \<le> highest_score g - lowest_score g + s"
    using score_between [OF assms(2)] by simp
  then have "(score r - lowest_score g + s) * s \<le> (highest_score g - lowest_score g + s) * s" by simp
  then show ?thesis using div_le_mono assms(1) unfolding norm_value_def
    by (metis add_is_0 neq0_conv nonzero_mult_div_cancel_left)
qed

lemma norm_value_max: "0 < s \<Longrightarrow> score r = highest_score g \<Longrightarrow> norm_value s g r = s"
  by (simp add: norm_value_def)

lemma norm_value_mono: "score r \<le> score r' \<Longrightarrow> norm_value s g r \<le> norm_value s g r'"
  unfolding norm_value_def by (intro div_le_mono mult_le_mono1 add_le_mono1 diff_le_mono)

definition normalized_rating :: "nat \<Rightarrow> rating_record list \<Rightarrow> rating_record \<Rightarrow> normalized_entry" where
  "normalized_rating s g r = \<lparr>n_rater = rater r, n_recipient = recipient r, n_score = score r, normalized_score = norm_value s g r\<rparr>"

lemma normalize_score_eq:
  assumes "0 < s" "s < 2 ^ 64" "r \<in> set g" "highest_score g - lowest_score g + s \<le> U128_MAX div s"
  shows "normalize_score (score r - lowest_score g) s (highest_score g - lowest_score g + s) = norm_value s g r"
proof -
  let ?d = "highest_score g - lowest_score g + s"
  have "score r - lowest_score g + s \<le> ?d" using score_between [OF assms(3)] by simp
  then have "(score r - lowest_score g + s) * s \<le> ?d * s" by simp
  also have "\<dots> \<le> U128_MAX" using assms(1,4) by (simp add: less_eq_div_iff_mult_less_eq)
  finally have "(score r - lowest_score g + s) * s mod 2 ^ 128 = (score r - lowest_score g + s) * s" by simp
  moreover have "norm_value s g r mod 2 ^ 64 = norm_value s g r"
    using norm_value_le [OF assms(1,3)] assms(2) by simp
  ultimately show ?thesis by (simp only: normalize_score_def norm_value_def)
qed

lemma normalize_group_eq:
  assumes "0 < s" "s < 2 ^ 64"
  shows "normalize_recipient_group g s =
    (if g = [] \<or> highest_score g - lowest_score g + s \<le> U128_MAX div s
     then Inr (map (normalized_rating s g) g) else Inl NormalizationOverflow)"
proof (cases g)
  case (Cons x xs)
  have "normalize_recipient_group g s =
      (if highest_score g - lowest_score g + s > U128_MAX div s then Inl NormalizationOverflow
       else Inr (map (\<lambda>r. \<lparr>n_rater = rater r, n_recipient = recipient r, n_score = score r,
              normalized_score = normalize_score (score r - lowest_score g) s (highest_score g - lowest_score g + s)\<rparr>) g))"
    unfolding normalize_recipient_group_def Cons list.case score_bounds_eq prod.case Let_def by (rule refl)
  moreover have "map (\<lambda>r. \<lparr>n_rater = rater r, n_recipient = recipient r, n_score = score r,
        normalized_score = normalize_score (score r - lowest_score g) s (highest_score g - lowest_score g + s)\<rparr>) g =
      map (normalized_rating s g) g" if "highest_score g - lowest_score g + s \<le> U128_MAX div s"
    using normalize_score_eq [OF assms _ that] by (simp add: normalized_rating_def)
  ultimately show ?thesis using Cons by (simp only: not_less [symmetric] if_not_P list.distinct simp_thms) auto
qed (simp add: normalize_recipient_group_def)

abbreviation ratings_of :: "rating_record list \<Rightarrow> node_id \<Rightarrow> rating_record list" where
  "ratings_of rs n \<equiv> filter (\<lambda>r. recipient r = n) rs"

lemma res_map_Inr: "(\<And>x. x \<in> set xs \<Longrightarrow> f x = Inr (h x)) \<Longrightarrow> res_map f xs = Inr (map h xs)"
  by (induction xs) auto

lemma res_map_all_ok: "res_map f xs = Inr ys \<Longrightarrow> x \<in> set xs \<Longrightarrow> \<exists>y. f x = Inr y"
  by (induction xs arbitrary: ys) (auto simp: res_bind_ok)

lemma normalize_matrix_ok:
  assumes "normalize_rating_matrix m cfg = Inr nm" "scale cfg < 2 ^ 64" "sorted (map recipient (matrix_ratings m))"
  defines "rs \<equiv> matrix_ratings m"
  shows "nm = \<lparr>normalized_round = matrix_round m,
    normalized_ratings = map (\<lambda>r. normalized_rating (scale cfg) (ratings_of rs (recipient r)) r) rs\<rparr>"
proof -
  let ?chunks = "chunk_by (\<lambda>x y. recipient x = recipient y) rs"
  let ?h = "\<lambda>r. normalized_rating (scale cfg) (ratings_of rs (recipient r)) r"
  obtain gs where s: "scale cfg \<noteq> 0" and gs: "res_map (\<lambda>g. normalize_recipient_group g (scale cfg)) ?chunks = Inr gs"
    and nm: "nm = \<lparr>normalized_round = matrix_round m, normalized_ratings = concat gs\<rparr>"
    using assms(1) unfolding rs_def by (auto simp: normalize_rating_matrix_def res_ok(1) split: if_splits)
  have group: "normalize_recipient_group g (scale cfg) = Inr (map ?h g)" if g: "g \<in> set ?chunks" for g
  proof -
    obtain y where "normalize_recipient_group g (scale cfg) = Inr y" using res_map_all_ok [OF gs g] ..
    then have "normalize_recipient_group g (scale cfg) = Inr (map (normalized_rating (scale cfg) g) g)"
      using normalize_group_eq [of "scale cfg" g] s assms(2) by (simp split: if_splits)
    moreover obtain k where "g = ratings_of rs k"
      using g chunk_by_sorted [OF assms(3)] unfolding rs_def by auto
    ultimately show ?thesis by (auto intro!: map_cong)
  qed
  have "Inr gs = (Inr (map (map ?h) ?chunks) :: por_error + _)" using gs res_map_Inr [of ?chunks, OF group] by simp
  then have "concat gs = map ?h (concat ?chunks)" unfolding map_concat by simp
  then show ?thesis using nm by simp
qed

definition weight_in :: "reputation_entry list \<Rightarrow> node_id \<Rightarrow> nat" where
  "weight_in es n = (case entry_of es n of Some e \<Rightarrow> reputation e | None \<Rightarrow> 0)"

lemma weighted_step_ok:
  assumes "ascending (vec_values prev)"
  shows "weighted_score_step prev a r = Inr a' \<longleftrightarrow> n_rater r \<in> nodes_of (vec_values prev) \<and>
    a' = a + normalized_score r * weight_in (vec_values prev) (n_rater r) \<and> a' < 2 ^ 128"
proof (cases "entry_of (vec_values prev) (n_rater r)")
  case None
  then have "n_rater r \<notin> nodes_of (vec_values prev)" by (simp add: entry_of_None)
  then show ?thesis using None by (simp add: weighted_score_step_def reputation_of_def search_entry_eq [OF assms])
next
  case (Some e)
  have "n_rater r \<in> nodes_of (vec_values prev)"
    using Some entry_of_None [of "vec_values prev" "n_rater r"] by simp
  then show ?thesis
    using Some by (auto simp: weighted_score_step_def reputation_of_def search_entry_eq [OF assms] checked_add_def weight_in_def res_ok)
qed

lemma weighted_fold_ok:
  assumes "ascending (vec_values prev)"
  shows "res_fold (weighted_score_step prev) a g = Inr t \<Longrightarrow>
    t = a + (\<Sum>r\<leftarrow>g. normalized_score r * weight_in (vec_values prev) (n_rater r)) \<and>
    (\<forall>r \<in> set g. n_rater r \<in> nodes_of (vec_values prev))"
proof (induction g arbitrary: a)
  case (Cons r g)
  from Cons.prems obtain a' where "weighted_score_step prev a r = Inr a'" "res_fold (weighted_score_step prev) a' g = Inr t"
    by (auto simp: res_bind_ok)
  then show ?case using Cons.IH [of a'] by (simp add: weighted_step_ok [OF assms])
qed simp

definition contribution_of :: "nat \<Rightarrow> reputation_entry list \<Rightarrow> normalized_entry list \<Rightarrow> nat" where
  "contribution_of s prev g = (\<Sum>r\<leftarrow>g. normalized_score r * weight_in prev (n_rater r)) div s"

lemma liquid_rank_ok:
  assumes "compute_liquid_rank_contribution m prev cfg = Inr v" "sorted (map n_recipient (normalized_ratings m))"
  defines "rs \<equiv> normalized_ratings m"
  shows "ascending (vec_values prev)"
    "v = \<lparr>vec_round = normalized_round m, vec_values =
      map (\<lambda>n. new_entry n (contribution_of (scale cfg) (vec_values prev) (filter (\<lambda>r. n_recipient r = n) rs)))
        (sorted_list_of_set (n_recipient ` set rs))\<rparr>"
    "\<forall>r \<in> set rs. n_rater r \<in> nodes_of (vec_values prev)"
proof -
  let ?chunks = "chunk_by (\<lambda>x y. n_recipient x = n_recipient y) rs"
  let ?h = "\<lambda>g. [new_entry (n_recipient (hd g)) (contribution_of (scale cfg) (vec_values prev) g)]"
  obtain vs where asc: "ascending (vec_values prev)"
    and vs: "res_map (\<lambda>g. push_recipient_contribution g prev (scale cfg)) ?chunks = Inr vs"
    and v: "v = \<lparr>vec_round = normalized_round m, vec_values = concat vs\<rparr>"
    using assms(1) unfolding rs_def
    by (auto simp: compute_liquid_rank_contribution_def validate_previous_reputation_order_def res_bind_ok check_windows_ok split: if_splits)
  have group: "push_recipient_contribution g prev (scale cfg) = Inr (?h g) \<and> (\<forall>r \<in> set g. n_rater r \<in> nodes_of (vec_values prev))"
    if g: "g \<in> set ?chunks" for g
  proof -
    obtain y where y: "push_recipient_contribution g prev (scale cfg) = Inr y" using res_map_all_ok [OF vs g] ..
    obtain r g' where g': "g = r # g'" using chunk_by_nonempty [OF g] by (cases g) auto
    then obtain t where "res_fold (weighted_score_step prev) 0 g = Inr t" "y = [new_entry (n_recipient r) (t div scale cfg)]"
      using y by (auto simp: push_recipient_contribution_def res_bind_ok ok_or_ok u64_try_def simp del: res_fold.simps split: if_splits)
    then show ?thesis using weighted_fold_ok [OF asc, of 0 g t] y g' by (simp add: contribution_of_def)
  qed
  show "ascending (vec_values prev)" by (rule asc)
  have "Inr vs = (Inr (map ?h ?chunks) :: por_error + _)"
    using vs res_map_Inr [of ?chunks "\<lambda>g. push_recipient_contribution g prev (scale cfg)" ?h] group by simp
  moreover have "?chunks = map (\<lambda>k. filter (\<lambda>r. n_recipient r = k) rs) (sorted_list_of_set (n_recipient ` set rs))"
    using chunk_by_sorted [OF assms(2)] by (simp add: rs_def)
  moreover have "n_recipient (hd (filter (\<lambda>r. n_recipient r = k) rs)) = k" if "k \<in> n_recipient ` set rs" for k
  proof -
    have "filter (\<lambda>r. n_recipient r = k) rs \<noteq> []" using that by (auto simp: filter_empty_conv)
    then show ?thesis using hd_in_set [of "filter (\<lambda>r. n_recipient r = k) rs"] by auto
  qed
  ultimately have "concat vs = map (\<lambda>n. new_entry n (contribution_of (scale cfg) (vec_values prev) (filter (\<lambda>r. n_recipient r = n) rs)))
        (sorted_list_of_set (n_recipient ` set rs))"
    by (simp add: comp_def concat_map_singleton)
  then show "v = \<lparr>vec_round = normalized_round m, vec_values =
      map (\<lambda>n. new_entry n (contribution_of (scale cfg) (vec_values prev) (filter (\<lambda>r. n_recipient r = n) rs)))
        (sorted_list_of_set (n_recipient ` set rs))\<rparr>" using v by simp
  show "\<forall>r \<in> set rs. n_rater r \<in> nodes_of (vec_values prev)"
  proof
    fix r assume "r \<in> set rs"
    moreover have "set rs = \<Union> (set ` set ?chunks)" using set_concat [of ?chunks] by simp
    ultimately obtain g where "g \<in> set ?chunks" "r \<in> set g" by blast
    then show "n_rater r \<in> nodes_of (vec_values prev)" using group by blast
  qed
qed

end
