(* ===== verification/Por_Penalty.thy ===== *)
theory Por_Penalty
  imports Por_Rank_Proofs
begin

text \<open>
  \<open>penalties.rs\<close>, \<open>evidence.rs\<close> and the penalty stage of \<open>transition.rs\<close>: the slash tiers and decay, the
  authorization of a verified equivocation as a capability bound to offender, proof and context by a hash
  (the parameter \<open>hash\<close>), and the application of a round's penalty events to the next list.  The table of
  equivocating weights is an ordered map by proof round.
\<close>

section \<open>Penalty arithmetic\<close>

definition compute_slash_penalty_wide :: "nat \<Rightarrow> nat \<Rightarrow> por_config \<Rightarrow> por_error + nat" where
  "compute_slash_penalty_wide equivocating whole cfg =
     res_bind (validate_config cfg) (\<lambda>_.
       if whole = 0 \<or> equivocating > whole
       then Inl (InvalidConfiguration ''slash weights must satisfy equivocating weight <= total weight and total weight > 0'')
       else res_bind (ok_or (checked_mul 128 equivocating (scale cfg)) SlashOverflow) (\<lambda>e.
         res_bind (ok_or (checked_mul 128 whole (correlation_threshold cfg)) SlashOverflow) (\<lambda>threshold.
           Inr (if e \<le> threshold then base_slash_penalty cfg else scale cfg))))"

definition compute_slash_penalty :: "nat \<Rightarrow> nat \<Rightarrow> por_config \<Rightarrow> por_error + nat" where
  "compute_slash_penalty equivocating whole cfg = compute_slash_penalty_wide equivocating whole cfg"

definition apply_slash_to_reputation :: "nat \<Rightarrow> nat \<Rightarrow> por_config \<Rightarrow> por_error + nat" where
  "apply_slash_to_reputation weight penalty cfg =
     res_bind (validate_config cfg) (\<lambda>_.
       res_bind (ok_or (checked_sub (scale cfg) penalty) (InvalidConfiguration ''slash penalty must not exceed scale'')) (\<lambda>survival.
         res_bind (ok_or (checked_mul 128 weight survival) SlashOverflow) (\<lambda>v.
           ok_or (u64_try (v div scale cfg)) SlashOverflow)))"

definition compute_inactivity_decay :: "nat \<Rightarrow> nat \<Rightarrow> por_config \<Rightarrow> por_error + nat" where
  "compute_inactivity_decay weight gamma cfg =
     res_bind (validate_config cfg) (\<lambda>_.
       res_bind (ok_or (checked_sub (scale cfg) gamma) (InvalidConfiguration ''inactivity gamma must not exceed scale'')) (\<lambda>survival.
         res_bind (ok_or (checked_mul 128 weight survival) InactivityDecayOverflow) (\<lambda>v.
           ok_or (u64_try (v div scale cfg)) InactivityDecayOverflow)))"

definition apply_inactivity_decay :: "nat \<Rightarrow> por_config \<Rightarrow> por_error + nat" where
  "apply_inactivity_decay weight cfg = compute_inactivity_decay weight (inactivity_decay_gamma cfg) cfg"

section \<open>Authorization of equivocations\<close>

definition MAX_PENALTY_EVIDENCE_LEN :: nat where
  "MAX_PENALTY_EVIDENCE_LEN = 64 * 1024"

definition MAX_REPUTATION_BLOCK_SHARD_ID_LEN :: nat where
  "MAX_REPUTATION_BLOCK_SHARD_ID_LEN = 256"

definition MAX_REPUTATION_BLOCK_NODE_ID_LEN :: nat where
  "MAX_REPUTATION_BLOCK_NODE_ID_LEN = 4 * 1024"

definition POR_EQUIVOCATION_AUTHORIZATION_DOMAIN :: "byte list" where
  "POR_EQUIVOCATION_AUTHORIZATION_DOMAIN = ascii ''cordial-por:equivocation-authorization:v1''"

definition POR_CHECKPOINT_EQUIVOCATION_AUTHORIZATION_DOMAIN :: "byte list" where
  "POR_CHECKPOINT_EQUIVOCATION_AUTHORIZATION_DOMAIN = ascii ''cordial-por:equivocation-authorization:v2''"

definition authorization_payload :: "authorization_context \<Rightarrow> node_id \<Rightarrow> byte list \<Rightarrow> por_error + byte list" where
  "authorization_payload ctx who ev =
     (if auth_shard ctx = [] \<or> length (auth_shard ctx) > MAX_REPUTATION_BLOCK_SHARD_ID_LEN
      then Inl (InvalidPenaltyEvents ''invalid equivocation authorization context or proof size'')
      else res_bind (rating_round_from_finalized_wave (auth_wave ctx)) (\<lambda>r.
        if r \<noteq> auth_round ctx \<or> ev = [] \<or> length ev > MAX_PENALTY_EVIDENCE_LEN
        then Inl (InvalidPenaltyEvents ''invalid equivocation authorization context or proof size'')
        else Inr (POR_EQUIVOCATION_AUTHORIZATION_DOMAIN @ put_bytes (auth_shard ctx) @ u64_be (auth_wave ctx) @
               u64_be (auth_round ctx) @ put_bytes (node_bytes who) @ put_bytes ev)))"

definition equivocation_authorization_payload :: "authorization_context \<Rightarrow> verified_evidence \<Rightarrow> por_error + byte list" where
  "equivocation_authorization_payload ctx proof = authorization_payload ctx (ver_validator proof) (canonical_bytes proof)"

definition checkpoint_intent_payload :: "byte list \<Rightarrow> nat \<Rightarrow> node_id \<Rightarrow> byte list \<Rightarrow> por_error + byte list" where
  "checkpoint_intent_payload shard rnd who ev =
     (if shard = [] \<or> length shard > MAX_REPUTATION_BLOCK_SHARD_ID_LEN \<or> rnd = 0 \<or>
         checked_mul 64 rnd POR_FINALIZED_BLOCKS_PER_CHECKPOINT = None \<or> ev = [] \<or> length ev > MAX_PENALTY_EVIDENCE_LEN
      then Inl (InvalidPenaltyEvents ''invalid checkpoint authorization intent'')
      else Inr (POR_CHECKPOINT_EQUIVOCATION_AUTHORIZATION_DOMAIN @ put_bytes shard @ u64_be rnd @
             put_bytes (node_bytes who) @ put_bytes ev))"

definition checkpoint_equivocation_authorization_payload :: "byte list \<Rightarrow> nat \<Rightarrow> verified_evidence \<Rightarrow> por_error + byte list" where
  "checkpoint_equivocation_authorization_payload shard rnd proof =
     checkpoint_intent_payload shard rnd (ver_validator proof) (canonical_bytes proof)"

definition checkpoint_capability_payload :: "checkpoint_authorization_context \<Rightarrow> node_id \<Rightarrow> byte list \<Rightarrow> por_error + byte list" where
  "checkpoint_capability_payload ctx who ev =
     res_bind (validate_source (cauth_source ctx)) (\<lambda>_.
       res_bind (checkpoint_intent_payload (cauth_shard ctx) (src_round (cauth_source ctx)) who ev) (\<lambda>bs.
         Inr (bs @ u64_be (finalized_prefix_len (cauth_source ctx)) @ finalized_prefix_hash (cauth_source ctx))))"

definition unverified :: "node_id \<Rightarrow> byte list \<Rightarrow> equivocation_penalty" where
  "unverified who ev = \<lparr>offender = who, evidence_bytes = ev, authorization = None\<rparr>"

definition authorize ::
  "hasher \<Rightarrow> verified_evidence \<Rightarrow> authorization_context \<Rightarrow>
   (authorization_context \<Rightarrow> verified_evidence \<Rightarrow> por_error + unit) \<Rightarrow> por_error + equivocation_penalty" where
  "authorize hash proof ctx policy =
     (let ev = canonical_bytes proof in
      res_bind (authorization_payload ctx (ver_validator proof) ev) (\<lambda>bs.
        res_bind (policy ctx proof) (\<lambda>_.
          Inr \<lparr>offender = ver_validator proof, evidence_bytes = ev,
               authorization = Some \<lparr>authorized_context = Wave ctx, binding = hash bs, authorized_proof_round = ver_round proof\<rparr>\<rparr>)))"

definition authorize_checkpoint ::
  "hasher \<Rightarrow> verified_evidence \<Rightarrow> checkpoint_authorization_context \<Rightarrow>
   (checkpoint_authorization_context \<Rightarrow> verified_evidence \<Rightarrow> por_error + unit) \<Rightarrow> por_error + equivocation_penalty" where
  "authorize_checkpoint hash proof ctx policy =
     (let ev = canonical_bytes proof in
      res_bind (checkpoint_capability_payload ctx (ver_validator proof) ev) (\<lambda>bs.
        res_bind (policy ctx proof) (\<lambda>_.
          Inr \<lparr>offender = ver_validator proof, evidence_bytes = ev,
               authorization = Some \<lparr>authorized_context = Checkpoint ctx, binding = hash bs, authorized_proof_round = ver_round proof\<rparr>\<rparr>)))"

definition proof_round :: "equivocation_penalty \<Rightarrow> por_error + nat" where
  "proof_round p = ok_or (map_option authorized_proof_round (authorization p))
     (InvalidPenaltyEvents ''equivocation has no verified authorization'')"

definition authorized_payload :: "equivocation_penalty \<Rightarrow> authorization_source \<Rightarrow> por_error + (nat \<times> byte list)" where
  "authorized_payload p src =
     (case src of
        Wave ctx \<Rightarrow> map_sum id (Pair (auth_round ctx)) (authorization_payload ctx (offender p) (evidence_bytes p))
      | Checkpoint ctx \<Rightarrow>
          map_sum id (Pair (src_round (cauth_source ctx))) (checkpoint_capability_payload ctx (offender p) (evidence_bytes p)))"

definition validate_authorization :: "hasher \<Rightarrow> equivocation_penalty \<Rightarrow> nat \<Rightarrow> por_error + unit" where
  "validate_authorization hash p rnd =
     res_bind (ok_or (authorization p) (InvalidPenaltyEvents ''equivocation has no verified authorization'')) (\<lambda>a.
       res_bind (authorized_payload p (authorized_context a)) (\<lambda>(authorized_round, bs).
         if authorized_round \<noteq> rnd \<or> binding a \<noteq> hash bs
         then Inl (InvalidPenaltyEvents ''equivocation proof, offender or authorized round was changed'')
         else Inr ()))"

definition validate_context :: "equivocation_penalty \<Rightarrow> block_context \<Rightarrow> por_error + unit" where
  "validate_context p ctx =
     res_bind (ok_or (authorization p) (InvalidPenaltyEvents ''equivocation has no verified authorization'')) (\<lambda>a.
       case authorized_context a of
         Checkpoint _ \<Rightarrow> Inl (InvalidPenaltyEvents ''checkpoint penalty used in wave transition'')
       | Wave authorized \<Rightarrow>
           if auth_shard authorized \<noteq> ctx_shard ctx \<or> auth_wave authorized \<noteq> ctx_wave ctx
           then Inl (InvalidPenaltyEvents ''equivocation authorization belongs to another shard or finalized wave'')
           else Inr ())"

definition validate_penalty_context :: "penalty_events option \<Rightarrow> block_context \<Rightarrow> por_error + unit" where
  "validate_penalty_context penalties ctx =
     (case penalties of None \<Rightarrow> Inr () | Some events \<Rightarrow> res_all (\<lambda>p. validate_context p ctx) (equivocations events))"

definition validate_checkpoint_penalty_context :: "penalty_events option \<Rightarrow> checkpoint_context \<Rightarrow> por_error + unit" where
  "validate_checkpoint_penalty_context penalties ctx =
     (case penalties of None \<Rightarrow> Inr ()
      | Some events \<Rightarrow>
          res_all (\<lambda>p.
            res_bind (ok_or (authorization p) (InvalidPenaltyEvents ''missing checkpoint authorization'')) (\<lambda>a.
              case authorized_context a of
                Checkpoint approved \<Rightarrow>
                  if cauth_shard approved = cctx_shard ctx \<and> cauth_source approved = cctx_source ctx then Inr ()
                  else Inl (InvalidPenaltyEvents ''penalty belongs to another authorization source'')
              | Wave _ \<Rightarrow> Inl (InvalidPenaltyEvents ''penalty belongs to another authorization source'')))
            (equivocations events))"

section \<open>Decoding an authorization intent\<close>

type_synonym ('e, 'a) wire_reader = "byte list \<Rightarrow> 'e + 'a \<times> byte list"

type_synonym 'a por_reader = "(por_error, 'a) wire_reader"

definition pr_bind :: "('e, 'a) wire_reader \<Rightarrow> ('a \<Rightarrow> ('e, 'b) wire_reader) \<Rightarrow> ('e, 'b) wire_reader" where
  "pr_bind m f s = res_bind (m s) (\<lambda>(x, s'). f x s')"

definition pr_return :: "'a \<Rightarrow> ('e, 'a) wire_reader" where
  "pr_return x s = Inr (x, s)"

definition pr_fail :: "'e \<Rightarrow> ('e, 'a) wire_reader" where
  "pr_fail e s = Inl e"

definition pr_take :: "'e \<Rightarrow> nat \<Rightarrow> ('e, byte list) wire_reader" where
  "pr_take malformed n s = (if n > length s then Inl malformed else Inr (take n s, drop n s))"

definition pr_number :: "'e \<Rightarrow> ('e, nat) wire_reader" where
  "pr_number malformed = pr_bind (pr_take malformed 8) (\<lambda>bs. pr_return (u64_from_be bs))"

definition pr_field :: "'e \<Rightarrow> 'e \<Rightarrow> nat \<Rightarrow> ('e, byte list) wire_reader" where
  "pr_field malformed too_large mx =
     pr_bind (pr_number malformed) (\<lambda>n. if n > mx then pr_fail too_large else pr_take malformed n)"

definition evidence_error_text :: "evidence_error \<Rightarrow> string" where
  "evidence_error_text e = ''invalid Cordial equivocation evidence: '' @
     (case e of TooFewBlocks \<Rightarrow> ''TooFewBlocks'' | MalformedEncoding \<Rightarrow> ''MalformedEncoding''
      | WrongCreator \<Rightarrow> ''WrongCreator'' | InvalidHash \<Rightarrow> ''InvalidHash'' | InvalidSignature \<Rightarrow> ''InvalidSignature''
      | DuplicateBlock \<Rightarrow> ''DuplicateBlock'' | InvalidBlock \<Rightarrow> ''InvalidBlock'' | MissingHistory \<Rightarrow> ''MissingHistory''
      | WrongRound \<Rightarrow> ''WrongRound'' | ComparableBlocks \<Rightarrow> ''ComparableBlocks'')"

definition decode_checkpoint_equivocation_authorization_payload ::
  "byte list \<Rightarrow> byte list \<Rightarrow> nat \<Rightarrow> por_error + equivocation_evidence" where
  "decode_checkpoint_equivocation_authorization_payload bytes shard rnd =
     (let invalid = InvalidPenaltyEvents ''malformed checkpoint authorization'' in
      res_bind (ok_or (strip_prefix POR_CHECKPOINT_EQUIVOCATION_AUTHORIZATION_DOMAIN bytes) invalid) (\<lambda>input.
      res_bind (pr_field invalid invalid MAX_REPUTATION_BLOCK_SHARD_ID_LEN input) (\<lambda>(sh, input).
      if sh \<noteq> shard then Inl invalid else
      res_bind (pr_number invalid input) (\<lambda>(r, input).
      if r \<noteq> rnd then Inl invalid else
      res_bind (pr_field invalid invalid MAX_REPUTATION_BLOCK_NODE_ID_LEN input) (\<lambda>(who, input).
      res_bind (pr_field invalid invalid MAX_PENALTY_EVIDENCE_LEN input) (\<lambda>(ev, input).
      if input \<noteq> [] then Inl invalid else
      res_bind (checkpoint_intent_payload shard rnd (NodeId who) ev) (\<lambda>expected.
      if expected \<noteq> bytes then Inl invalid else
      res_bind (map_err (\<lambda>e. InvalidPenaltyEvents (evidence_error_text e)) (decode_equivocation_evidence ev)) (\<lambda>raw.
      if ev_validator raw \<noteq> NodeId who then Inl invalid else Inr raw))))))))"

section \<open>Applying penalties\<close>

definition prior_entry :: "reputation_vector \<Rightarrow> node_id \<Rightarrow> por_error + reputation_entry" where
  "prior_entry previous who =
     res_bind (ok_or (search_entry (vec_values previous) who) (InvalidPenaltyEvents ''unknown penalty offender'')) (\<lambda>e.
       if is_excluded e then Inl (InvalidPenaltyEvents ''cannot penalize an already ejected key'') else Inr e)"

definition weight_at :: "(nat \<times> nat) list \<Rightarrow> nat \<Rightarrow> nat" where
  "weight_at ws r = (case map_of ws r of None \<Rightarrow> 0 | Some w \<Rightarrow> w)"

definition equivocation_step ::
  "hasher \<Rightarrow> reputation_vector \<Rightarrow> nat \<Rightarrow> node_id list \<times> (nat \<times> nat) list \<Rightarrow> equivocation_penalty
     \<Rightarrow> por_error + node_id list \<times> (nat \<times> nat) list" where
  "equivocation_step hash previous rnd st p =
     (let (seen, ws) = st in
      res_bind (validate_authorization hash p rnd) (\<lambda>_.
        if offender p \<in> set seen \<or> evidence_bytes p = []
        then Inl (InvalidPenaltyEvents ''duplicate offender or empty equivocation evidence'')
        else res_bind (proof_round p) (\<lambda>r.
          res_bind (prior_entry previous (offender p)) (\<lambda>e.
            res_bind (ok_or (checked_add 128 (weight_at ws r) (reputation e)) SlashOverflow) (\<lambda>w.
              Inr (offender p # seen, bt_insert r w ws))))))"

definition inactivity_step ::
  "reputation_vector \<Rightarrow> rating_record list \<Rightarrow> node_id list \<Rightarrow> inactivity_penalty \<Rightarrow> por_error + node_id list" where
  "inactivity_step previous ratings seen p =
     (if inactive_offender p \<in> set seen \<or> missed_rounds p \<noteq> 1
      then Inl (InvalidPenaltyEvents ''inactivity requires one missed round and a unique offender'')
      else res_bind (prior_entry previous (inactive_offender p)) (\<lambda>_.
        if list_ex (\<lambda>r. rater r = inactive_offender p \<or> recipient r = inactive_offender p) ratings
        then Inl (InvalidPenaltyEvents ''inactive offender participates in the rating batch'')
        else Inr (inactive_offender p # seen)))"

definition update_entry ::
  "reputation_entry list \<Rightarrow> node_id \<Rightarrow> (reputation_entry \<Rightarrow> reputation_entry) \<Rightarrow> por_error + reputation_entry list" where
  "update_entry es n f =
     (case binary_search entry_node es n of Inl i \<Rightarrow> Inl MissingReputationBlockEntry | Inr i \<Rightarrow> Inr (es[i := f (es ! i)]))"

definition slash_step ::
  "reputation_vector \<Rightarrow> (nat \<times> nat) list \<Rightarrow> nat \<Rightarrow> por_config \<Rightarrow> reputation_entry list \<Rightarrow> equivocation_penalty
     \<Rightarrow> por_error + reputation_entry list" where
  "slash_step previous ws whole cfg es p =
     res_bind (proof_round p) (\<lambda>r.
       res_bind (compute_slash_penalty_wide (weight_at ws r) whole cfg) (\<lambda>penalty.
         res_bind (update_entry es (offender p) id) (\<lambda>_.
           res_bind (prior_entry previous (offender p)) (\<lambda>e.
             res_bind (apply_slash_to_reputation (reputation e) penalty cfg) (\<lambda>kept.
               update_entry es (offender p) (\<lambda>x. x\<lparr>retained_reputation := kept, reputation := 0, is_excluded := True\<rparr>))))))"

definition decay_step ::
  "reputation_vector \<Rightarrow> por_config \<Rightarrow> reputation_entry list \<Rightarrow> inactivity_penalty \<Rightarrow> por_error + reputation_entry list" where
  "decay_step previous cfg es p =
     res_bind (update_entry es (inactive_offender p) id) (\<lambda>_.
       res_bind (prior_entry previous (inactive_offender p)) (\<lambda>e.
         res_bind (compute_inactivity_decay (reputation e) (inactivity_decay_gamma cfg) cfg) (\<lambda>r.
           update_entry es (inactive_offender p) (\<lambda>x. x\<lparr>reputation := r\<rparr>))))"

definition apply_reputation_penalties ::
  "hasher \<Rightarrow> reputation_list \<Rightarrow> reputation_vector \<Rightarrow> rating_record list \<Rightarrow> penalty_events \<Rightarrow> por_config \<Rightarrow> por_error + reputation_list" where
  "apply_reputation_penalties hash nxt previous ratings events cfg =
     res_bind (validate_config cfg) (\<lambda>_.
       if events_round events \<noteq> list_round nxt \<or> checked_add 64 (vec_round previous) 1 \<noteq> Some (events_round events)
       then Inl (InvalidPenaltyEvents ''event round must match the next snapshot'')
       else res_bind (res_fold (equivocation_step hash previous (events_round events)) ([], []) (equivocations events)) (\<lambda>(seen, ws).
         res_bind (res_fold (inactivity_step previous ratings) seen (inactivity events)) (\<lambda>_.
           res_bind
             (if equivocations events = [] then Inr (entries nxt)
              else res_bind (ok_or (try_fold_add 128 0 (map reputation (filter (\<lambda>e. \<not> is_excluded e) (vec_values previous)))) SlashOverflow) (\<lambda>whole.
                res_fold (slash_step previous ws whole cfg) (entries nxt) (equivocations events))) (\<lambda>slashed.
             res_bind (res_fold (decay_step previous cfg) slashed (inactivity events)) (\<lambda>es.
               Inr (nxt\<lparr>entries := es\<rparr>))))))"

end
