(* ===== verification/Por_Penalty_Proofs.thy ===== *)
theory Por_Penalty_Proofs
  imports Por_Penalty
begin

text \<open>
  What penalties do.  The slash tier is decided by the exact ratio of the weights, neither slash nor decay
  increases a weight, an authorization determines the offender, the proof and the context it was given for,
  and the penalty stage changes exactly the offenders' entries (\<open>apply_penalties_ok\<close>).
\<close>

section \<open>Arithmetic\<close>

lemma slash_penalty_ok:
  assumes "compute_slash_penalty_wide e t cfg = Inr p"
  shows "valid_config cfg" "0 < t" "e \<le> t"
    "p = (if e * scale cfg \<le> t * correlation_threshold cfg then base_slash_penalty cfg else scale cfg)"
  using assms by (auto simp: compute_slash_penalty_wide_def res_ok checked_mul_def split: if_splits)

lemma div_scale_le: "b \<le> (s::nat) \<Longrightarrow> w * b div s \<le> w"
  by (cases "s = 0") (simp_all add: div_le_mono less_eq_div_iff_mult_less_eq div_le_dividend
      mult_le_mono2 order_trans [OF div_le_mono [of "w * b" "w * s" s]])

lemma apply_slash_ok:
  assumes "apply_slash_to_reputation w p cfg = Inr r"
  shows "p \<le> scale cfg" "r = w * (scale cfg - p) div scale cfg" "r \<le> w"
proof -
  show "p \<le> scale cfg" and r: "r = w * (scale cfg - p) div scale cfg"
    using assms by (auto simp: apply_slash_to_reputation_def res_ok checked_defs u64_try_def split: if_splits)
  show "r \<le> w" unfolding r by (rule div_scale_le) simp
qed

lemma decay_ok:
  assumes "compute_inactivity_decay w g cfg = Inr r"
  shows "r = w * (scale cfg - g) div scale cfg" "r \<le> w"
proof -
  show r: "r = w * (scale cfg - g) div scale cfg"
    using assms by (auto simp: compute_inactivity_decay_def res_ok checked_defs u64_try_def split: if_splits)
  show "r \<le> w" unfolding r by (rule div_scale_le) simp
qed

section \<open>Authorizations\<close>

lemma authorization_payload_ok:
  assumes "authorization_payload ctx who ev = Inr bs"
  shows "bs = POR_EQUIVOCATION_AUTHORIZATION_DOMAIN @ put_bytes (auth_shard ctx) @ u64_be (auth_wave ctx) @
      u64_be (auth_round ctx) @ put_bytes (node_bytes who) @ put_bytes ev"
    "length (auth_shard ctx) < 2 ^ 64" "length ev < 2 ^ 64" "auth_round ctx < 2 ^ 64" "auth_wave ctx < 2 ^ 64" "ev \<noteq> []"
  using assms
  by (auto simp: authorization_payload_def res_ok MAX_REPUTATION_BLOCK_SHARD_ID_LEN_def MAX_PENALTY_EVIDENCE_LEN_def split: if_splits)

lemma authorization_payload_inject:
  assumes "authorization_payload ctx who ev = Inr bs" "authorization_payload ctx' who' ev' = Inr bs" "node_fits who" "node_fits who'"
  shows "ctx = ctx' \<and> who = who' \<and> ev = ev'"
proof -
  note a = authorization_payload_ok [OF assms(1)] and b = authorization_payload_ok [OF assms(2)]
  have "put_bytes (auth_shard ctx) @ u64_be (auth_wave ctx) @ u64_be (auth_round ctx) @ put_bytes (node_bytes who) @ put_bytes ev @ [] =
      put_bytes (auth_shard ctx') @ u64_be (auth_wave ctx') @ u64_be (auth_round ctx') @ put_bytes (node_bytes who') @ put_bytes ev' @ []"
    using a(1) b(1) by simp
  note 1 = put_bytes_inject [OF a(2) b(2) this]
  note 2 = be.number_inject [OF a(5) b(5) conjunct2 [OF 1]]
  note 3 = be.number_inject [OF a(4) b(4) conjunct2 [OF 2]]
  note 4 = put_node_inject [OF assms(3,4) conjunct2 [OF 3]]
  note 5 = put_bytes_inject [OF a(3) b(3) conjunct2 [OF 4]]
  show ?thesis using 1 2 3 4 5 by simp
qed

lemma capability_payload_ok:
  assumes "checkpoint_capability_payload ctx who ev = Inr bs"
  shows "bs = POR_CHECKPOINT_EQUIVOCATION_AUTHORIZATION_DOMAIN @ put_bytes (cauth_shard ctx) @ u64_be (src_round (cauth_source ctx)) @
      put_bytes (node_bytes who) @ put_bytes ev @ u64_be (finalized_prefix_len (cauth_source ctx)) @ finalized_prefix_hash (cauth_source ctx)"
    "length (cauth_shard ctx) < 2 ^ 64" "length ev < 2 ^ 64" "src_round (cauth_source ctx) < 2 ^ 64"
    "finalized_prefix_len (cauth_source ctx) < 2 ^ 64" "ev \<noteq> []"
  using assms
  by (auto simp: checkpoint_capability_payload_def checkpoint_intent_payload_def res_ok MAX_REPUTATION_BLOCK_SHARD_ID_LEN_def
      MAX_PENALTY_EVIDENCE_LEN_def split: if_splits)

lemma capability_payload_inject:
  assumes "checkpoint_capability_payload ctx who ev = Inr bs" "checkpoint_capability_payload ctx' who' ev' = Inr bs"
    and "node_fits who" "node_fits who'"
  shows "ctx = ctx' \<and> who = who' \<and> ev = ev'"
proof -
  note a = capability_payload_ok [OF assms(1)] and b = capability_payload_ok [OF assms(2)]
  have "put_bytes (cauth_shard ctx) @ u64_be (src_round (cauth_source ctx)) @ put_bytes (node_bytes who) @ put_bytes ev @
        u64_be (finalized_prefix_len (cauth_source ctx)) @ finalized_prefix_hash (cauth_source ctx) =
      put_bytes (cauth_shard ctx') @ u64_be (src_round (cauth_source ctx')) @ put_bytes (node_bytes who') @ put_bytes ev' @
        u64_be (finalized_prefix_len (cauth_source ctx')) @ finalized_prefix_hash (cauth_source ctx')"
    using a(1) b(1) by simp
  note 1 = put_bytes_inject [OF a(2) b(2) this]
  note 2 = be.number_inject [OF a(4) b(4) conjunct2 [OF 1]]
  note 3 = put_node_inject [OF assms(3,4) conjunct2 [OF 2]]
  note 4 = put_bytes_inject [OF a(3) b(3) conjunct2 [OF 3]]
  note 5 = be.number_inject [OF a(5) b(5) conjunct2 [OF 4]]
  have "cauth_source ctx = cauth_source ctx'" using 2 5 by simp
  then show ?thesis using 1 3 4 by simp
qed

lemma authorization_domains:
  "length POR_EQUIVOCATION_AUTHORIZATION_DOMAIN = length POR_CHECKPOINT_EQUIVOCATION_AUTHORIZATION_DOMAIN"
  "POR_EQUIVOCATION_AUTHORIZATION_DOMAIN \<noteq> POR_CHECKPOINT_EQUIVOCATION_AUTHORIZATION_DOMAIN"
  by code_simp+

lemma authorized_payload_inject:
  assumes "authorized_payload p src = Inr (r, bs)" "authorized_payload p' src' = Inr (r', bs)"
    and "node_fits (offender p)" "node_fits (offender p')"
  shows "src = src' \<and> offender p = offender p' \<and> evidence_bytes p = evidence_bytes p'"
proof (cases src; cases src')
  fix ctx ctx' assume s: "src = Wave ctx" "src' = Wave ctx'"
  have "authorization_payload ctx (offender p) (evidence_bytes p) = Inr bs"
    "authorization_payload ctx' (offender p') (evidence_bytes p') = Inr bs"
    using assms(1,2) unfolding authorized_payload_def s by (auto simp: map_sum_ok)
  from authorization_payload_inject [OF this assms(3,4)] show ?thesis using s by simp
next
  fix ctx ctx' assume s: "src = Checkpoint ctx" "src' = Checkpoint ctx'"
  have "checkpoint_capability_payload ctx (offender p) (evidence_bytes p) = Inr bs"
    "checkpoint_capability_payload ctx' (offender p') (evidence_bytes p') = Inr bs"
    using assms(1,2) unfolding authorized_payload_def s by (auto simp: map_sum_ok)
  from capability_payload_inject [OF this assms(3,4)] show ?thesis using s by simp
next
  fix ctx ctx' assume s: "src = Wave ctx" "src' = Checkpoint ctx'"
  have "authorization_payload ctx (offender p) (evidence_bytes p) = Inr bs"
    "checkpoint_capability_payload ctx' (offender p') (evidence_bytes p') = Inr bs"
    using assms(1,2) unfolding authorized_payload_def s by (auto simp: map_sum_ok)
  then show ?thesis using authorization_payload_ok(1) capability_payload_ok(1) authorization_domains
    by (metis append_eq_append_conv)
next
  fix ctx ctx' assume s: "src = Checkpoint ctx" "src' = Wave ctx'"
  have "checkpoint_capability_payload ctx (offender p) (evidence_bytes p) = Inr bs"
    "authorization_payload ctx' (offender p') (evidence_bytes p') = Inr bs"
    using assms(1,2) unfolding authorized_payload_def s by (auto simp: map_sum_ok)
  then show ?thesis using authorization_payload_ok(1) capability_payload_ok(1) authorization_domains
    by (metis append_eq_append_conv)
qed

lemma validate_authorization_ok:
  "validate_authorization hash p rnd = Inr u \<longleftrightarrow>
     (\<exists>a bs. authorization p = Some a \<and> authorized_payload p (authorized_context a) = Inr (rnd, bs) \<and> binding a = hash bs)"
  by (auto simp: validate_authorization_def res_ok)

text \<open>A penalty that still validates carries exactly the claim that was authorized.\<close>

lemma authorization_binds:
  assumes "collision_free hash" "validate_authorization hash p rnd = Inr ()" "validate_authorization hash p' rnd' = Inr ()"
    and "map_option binding (authorization p) = map_option binding (authorization p')"
    and "node_fits (offender p)" "node_fits (offender p')"
  shows "offender p = offender p' \<and> evidence_bytes p = evidence_bytes p' \<and> rnd = rnd' \<and>
    map_option authorized_context (authorization p) = map_option authorized_context (authorization p')"
proof -
  obtain a bs where a: "authorization p = Some a" "authorized_payload p (authorized_context a) = Inr (rnd, bs)" "binding a = hash bs"
    using assms(2) by (auto simp: validate_authorization_ok)
  obtain a' bs' where b: "authorization p' = Some a'" "authorized_payload p' (authorized_context a') = Inr (rnd', bs')" "binding a' = hash bs'"
    using assms(3) by (auto simp: validate_authorization_ok)
  have "bs = bs'" using assms(1,4) a b by (auto simp: collision_free_def)
  note inj = authorized_payload_inject [OF a(2) b(2) [folded this] assms(5,6)]
  have "rnd = rnd'"
    using a(2) b(2) inj unfolding authorized_payload_def by (auto simp: map_sum_ok split: authorization_source.splits)
  then show ?thesis using inj a(1) b(1) by simp
qed

section \<open>The penalty stage\<close>

lemma prior_entry_ok:
  "ascending (vec_values prev) \<Longrightarrow> prior_entry prev n = Inr e \<longleftrightarrow> entry_of (vec_values prev) n = Some e \<and> \<not> is_excluded e"
  by (auto simp: prior_entry_def search_entry_eq res_ok)

lemma update_nth_by_node:
  assumes "ascending es" "i < length es" "entry_node (es ! i) = n"
  shows "es[i := f (es ! i)] = map (\<lambda>e. if entry_node e = n then f e else e) es"
proof (rule nth_equalityI)
  fix j assume j: "j < length (es[i := f (es ! i)])"
  have "entry_node (es ! j) = n \<longleftrightarrow> j = i"
    using ascending_distinct [OF assms(1)] assms(2,3) j nth_eq_iff_index_eq [of "map entry_node es" j i] by auto
  then show "es[i := f (es ! i)] ! j = map (\<lambda>e. if entry_node e = n then f e else e) es ! j"
    using j by (auto simp: nth_list_update)
qed simp

lemma update_entry_ok:
  assumes "ascending es"
  shows "update_entry es n f = Inr es' \<longleftrightarrow> n \<in> nodes_of es \<and> es' = map (\<lambda>e. if entry_node e = n then f e else e) es"
proof (cases "binary_search entry_node es n")
  case (Inl i)
  have "n \<notin> nodes_of es" using search_entry_eq [OF assms, of n] Inl by (simp add: search_entry_def entry_of_None [symmetric])
  then show ?thesis using Inl by (simp add: update_entry_def)
next
  case (Inr i)
  then have i: "i < length es" "entry_node (es ! i) = n" using binary_search_found [OF assms] by auto
  then have "n \<in> nodes_of es" by (auto simp: image_iff intro!: bexI [of _ "es ! i"])
  moreover have "update_entry es n f = Inr (map (\<lambda>e. if entry_node e = n then f e else e) es)"
    using Inr update_nth_by_node [OF assms i, of f] by (simp add: update_entry_def)
  ultimately show ?thesis by auto
qed

definition correlated_weight :: "reputation_entry list \<Rightarrow> equivocation_penalty list \<Rightarrow> nat \<Rightarrow> nat" where
  "correlated_weight prev ps r = (\<Sum>p\<leftarrow>filter (\<lambda>p. proof_round p = Inr r) ps. weight_in prev (offender p))"

lemma weight_at_insert:
  "sorted_wrt (<) (map fst ws) \<Longrightarrow> weight_at (bt_insert r w ws) r' = (if r' = r then w else weight_at ws r')"
  by (simp add: weight_at_def map_of_bt_insert)

lemma equivocation_step_ok:
  assumes "ascending (vec_values prev)" "equivocation_step hash prev rnd (seen, ws) p = Inr (seen', ws')"
  obtains r e where "validate_authorization hash p rnd = Inr ()" "offender p \<notin> set seen" "proof_round p = Inr r"
    "entry_of (vec_values prev) (offender p) = Some e" "\<not> is_excluded e" "seen' = offender p # seen"
    "ws' = bt_insert r (weight_at ws r + reputation e) ws"
  using assms(2) unfolding equivocation_step_def Let_def prod.case
  by (auto simp: res_ok prior_entry_ok [OF assms(1)] checked_add_def split: if_splits intro: that)

lemma equivocation_fold_ok:
  assumes "ascending (vec_values prev)"
  shows "res_fold (equivocation_step hash prev rnd) (seen, ws) ps = Inr (seen', ws') \<Longrightarrow> sorted_wrt (<) (map fst ws) \<Longrightarrow>
    distinct (map offender ps) \<and> set seen' = set seen \<union> offender ` set ps \<and> set seen \<inter> offender ` set ps = {} \<and>
    (\<forall>p \<in> set ps. validate_authorization hash p rnd = Inr () \<and>
       (\<exists>e. entry_of (vec_values prev) (offender p) = Some e \<and> \<not> is_excluded e)) \<and>
    (\<forall>r. weight_at ws' r = weight_at ws r + correlated_weight (vec_values prev) ps r)"
proof (induction ps arbitrary: seen ws)
  case Nil
  then show ?case by (simp add: correlated_weight_def)
next
  case (Cons p ps)
  obtain s1 w1 where 1: "equivocation_step hash prev rnd (seen, ws) p = Inr (s1, w1)"
    and rest: "res_fold (equivocation_step hash prev rnd) (s1, w1) ps = Inr (seen', ws')"
    using Cons.prems(1) by (auto simp: res_bind_ok)
  obtain r e where p: "validate_authorization hash p rnd = Inr ()" "offender p \<notin> set seen" "proof_round p = Inr r"
    "entry_of (vec_values prev) (offender p) = Some e" "\<not> is_excluded e" "s1 = offender p # seen"
    "w1 = bt_insert r (weight_at ws r + reputation e) ws"
    using equivocation_step_ok [OF assms 1] by metis
  have sorted: "sorted_wrt (<) (map fst w1)" using Cons.prems(2) by (simp add: p(7) sorted_bt_insert)
  note IH = Cons.IH [OF rest sorted]
  have "weight_at w1 r' + correlated_weight (vec_values prev) ps r' = weight_at ws r' + correlated_weight (vec_values prev) (p # ps) r'" for r'
    using p(3,4) Cons.prems(2) by (simp add: p(7) weight_at_insert correlated_weight_def weight_in_def)
  then show ?case using IH p by auto
qed

lemma inactivity_step_ok:
  assumes "ascending (vec_values prev)"
  shows "inactivity_step prev rs seen p = Inr seen' \<longleftrightarrow> inactive_offender p \<notin> set seen \<and> missed_rounds p = 1 \<and>
    (\<exists>e. entry_of (vec_values prev) (inactive_offender p) = Some e \<and> \<not> is_excluded e) \<and>
    (\<forall>r \<in> set rs. rater r \<noteq> inactive_offender p \<and> recipient r \<noteq> inactive_offender p) \<and> seen' = inactive_offender p # seen"
  by (auto simp: inactivity_step_def res_ok prior_entry_ok [OF assms] list_ex_iff)

lemma inactivity_fold_ok:
  assumes "ascending (vec_values prev)"
  shows "res_fold (inactivity_step prev rs) seen ps = Inr seen' \<Longrightarrow>
    distinct (map inactive_offender ps) \<and> set seen \<inter> inactive_offender ` set ps = {} \<and>
    (\<forall>p \<in> set ps. missed_rounds p = 1 \<and> (\<exists>e. entry_of (vec_values prev) (inactive_offender p) = Some e \<and> \<not> is_excluded e) \<and>
       (\<forall>r \<in> set rs. rater r \<noteq> inactive_offender p \<and> recipient r \<noteq> inactive_offender p))"
proof (induction ps arbitrary: seen)
  case (Cons p ps)
  then obtain s1 where 1: "inactivity_step prev rs seen p = Inr s1" and rest: "res_fold (inactivity_step prev rs) s1 ps = Inr seen'"
    by (auto simp: res_bind_ok)
  show ?case using Cons.IH [OF rest] 1 by (auto simp: inactivity_step_ok [OF assms])
qed simp

text \<open>The entry of an equivocating node after its slash, and that of an inactive one after its decay.\<close>

definition slashed_entry :: "reputation_vector \<Rightarrow> nat \<Rightarrow> por_config \<Rightarrow> reputation_entry \<Rightarrow> reputation_entry" where
  "slashed_entry prev penalty cfg e =
     e\<lparr>retained_reputation := weight_in (vec_values prev) (entry_node e) * (scale cfg - penalty) div scale cfg,
       reputation := 0, is_excluded := True\<rparr>"

definition decayed_entry :: "reputation_vector \<Rightarrow> por_config \<Rightarrow> reputation_entry \<Rightarrow> reputation_entry" where
  "decayed_entry prev cfg e =
     e\<lparr>reputation := weight_in (vec_values prev) (entry_node e) * (scale cfg - inactivity_decay_gamma cfg) div scale cfg\<rparr>"

definition slash_ratio :: "nat \<Rightarrow> nat \<Rightarrow> por_config \<Rightarrow> nat" where
  "slash_ratio e t cfg = (if e * scale cfg \<le> t * correlation_threshold cfg then base_slash_penalty cfg else scale cfg)"

lemma slash_step_ok:
  assumes "ascending es" "ascending (vec_values prev)" "slash_step prev ws t cfg es p = Inr es'" "proof_round p = Inr r"
  shows "offender p \<in> nodes_of es"
    "es' = map (\<lambda>e. if entry_node e = offender p then slashed_entry prev (slash_ratio (weight_at ws r) t cfg) cfg e else e) es"
proof -
  obtain penalty e kept where "compute_slash_penalty_wide (weight_at ws r) t cfg = Inr penalty"
    and e: "entry_of (vec_values prev) (offender p) = Some e" and kept: "apply_slash_to_reputation (reputation e) penalty cfg = Inr kept"
    and u: "update_entry es (offender p) (\<lambda>x. x\<lparr>retained_reputation := kept, reputation := 0, is_excluded := True\<rparr>) = Inr es'"
    using assms(3,4) by (auto simp: slash_step_def res_bind_ok prior_entry_ok [OF assms(2)])
  then have pen: "penalty = slash_ratio (weight_at ws r) t cfg" using slash_penalty_ok(4) by (simp add: slash_ratio_def)
  show "offender p \<in> nodes_of es" using u by (simp add: update_entry_ok [OF assms(1)])
  show "es' = map (\<lambda>e. if entry_node e = offender p then slashed_entry prev (slash_ratio (weight_at ws r) t cfg) cfg e else e) es"
    using u apply_slash_ok(2) [OF kept] e
    by (auto simp: update_entry_ok [OF assms(1)] slashed_entry_def weight_in_def pen)
qed

lemma decay_step_ok:
  assumes "ascending es" "ascending (vec_values prev)" "decay_step prev cfg es p = Inr es'"
  shows "es' = map (\<lambda>e. if entry_node e = inactive_offender p then decayed_entry prev cfg e else e) es"
proof -
  obtain e r where e: "entry_of (vec_values prev) (inactive_offender p) = Some e"
    and r: "compute_inactivity_decay (reputation e) (inactivity_decay_gamma cfg) cfg = Inr r"
    and u: "update_entry es (inactive_offender p) (\<lambda>x. x\<lparr>reputation := r\<rparr>) = Inr es'"
    using assms(3) by (auto simp: decay_step_def res_bind_ok prior_entry_ok [OF assms(2)])
  then show ?thesis
    using decay_ok(1) [OF r] by (auto simp: update_entry_ok [OF assms(1)] decayed_entry_def weight_in_def)
qed

lemma slashed_fields [simp]:
  "entry_node (slashed_entry prev x cfg e) = entry_node e" "entry_node (decayed_entry prev cfg e) = entry_node e"
  by (simp_all add: slashed_entry_def decayed_entry_def)

lemma slash_fold_ok:
  assumes "ascending (vec_values prev)"
  shows "res_fold (slash_step prev ws t cfg) es ps = Inr es' \<Longrightarrow> ascending es \<Longrightarrow> distinct (map offender ps) \<Longrightarrow>
    \<forall>p \<in> set ps. \<exists>r. proof_round p = Inr r \<Longrightarrow>
    es' = map (\<lambda>e. case List.find (\<lambda>p. offender p = entry_node e) ps of None \<Rightarrow> e
      | Some p \<Rightarrow> slashed_entry prev (slash_ratio (weight_at ws (projr (proof_round p))) t cfg) cfg e) es"
proof (induction ps arbitrary: es)
  case (Cons p ps)
  obtain es1 where 1: "slash_step prev ws t cfg es p = Inr es1" and rest: "res_fold (slash_step prev ws t cfg) es1 ps = Inr es'"
    using Cons.prems(1) by (auto simp: res_bind_ok)
  obtain r where r: "proof_round p = Inr r" using Cons.prems(4) by auto
  note es1 = slash_step_ok(2) [OF Cons.prems(2) assms 1 r]
  have "map entry_node es1 = map entry_node es" unfolding es1 by simp
  then have "ascending es1" using Cons.prems(2) by simp
  note IH = Cons.IH [OF rest this]
  have "List.find (\<lambda>q. offender q = offender p) ps = None"
    using Cons.prems(3) by (simp add: find_None_iff image_iff) metis
  then show ?case using IH Cons.prems r unfolding es1 by auto
qed simp

lemma decay_fold_ok:
  assumes "ascending (vec_values prev)"
  shows "res_fold (decay_step prev cfg) es ps = Inr es' \<Longrightarrow> ascending es \<Longrightarrow> distinct (map inactive_offender ps) \<Longrightarrow>
    es' = map (\<lambda>e. if entry_node e \<in> inactive_offender ` set ps then decayed_entry prev cfg e else e) es"
proof (induction ps arbitrary: es)
  case (Cons p ps)
  obtain es1 where 1: "decay_step prev cfg es p = Inr es1" and rest: "res_fold (decay_step prev cfg) es1 ps = Inr es'"
    using Cons.prems(1) by (auto simp: res_bind_ok)
  note es1 = decay_step_ok [OF Cons.prems(2) assms 1]
  have "map entry_node es1 = map entry_node es" unfolding es1 by simp
  then have "ascending es1" using Cons.prems(2) by simp
  note IH = Cons.IH [OF rest this]
  show ?case using IH Cons.prems(3) unfolding es1 by auto
qed simp

definition active_weight :: "reputation_entry list \<Rightarrow> nat" where
  "active_weight es = sum_list (map reputation (filter (\<lambda>e. \<not> is_excluded e) es))"

text \<open>What the events make of one entry of the next list.\<close>

definition penalized :: "reputation_vector \<Rightarrow> penalty_events \<Rightarrow> por_config \<Rightarrow> reputation_entry \<Rightarrow> reputation_entry" where
  "penalized prev events cfg e =
     (case List.find (\<lambda>p. offender p = entry_node e) (equivocations events) of
        Some p \<Rightarrow> slashed_entry prev
          (slash_ratio (correlated_weight (vec_values prev) (equivocations events) (projr (proof_round p))) (active_weight (vec_values prev)) cfg) cfg e
      | None \<Rightarrow> if entry_node e \<in> inactive_offender ` set (inactivity events) then decayed_entry prev cfg e else e)"

lemma penalized_node [simp]: "entry_node (penalized prev events cfg e) = entry_node e"
  by (simp add: penalized_def split: option.splits)

lemma apply_penalties_ok:
  assumes "apply_reputation_penalties hash nxt prev rs events cfg = Inr nxt'"
    and asc: "ascending (vec_values prev)" "ascending (entries nxt)"
  shows "nxt' = nxt\<lparr>entries := map (penalized prev events cfg) (entries nxt)\<rparr>"
    "\<forall>p \<in> set (equivocations events). validate_authorization hash p (events_round events) = Inr () \<and>
       (\<exists>e. entry_of (vec_values prev) (offender p) = Some e \<and> \<not> is_excluded e)"
    "\<forall>p \<in> set (inactivity events). missed_rounds p = 1 \<and>
       (\<exists>e. entry_of (vec_values prev) (inactive_offender p) = Some e \<and> \<not> is_excluded e) \<and>
       (\<forall>r \<in> set rs. rater r \<noteq> inactive_offender p \<and> recipient r \<noteq> inactive_offender p)"
    "distinct (map offender (equivocations events))" "distinct (map inactive_offender (inactivity events))"
    "offender ` set (equivocations events) \<inter> inactive_offender ` set (inactivity events) = {}"
    "valid_config cfg" "events_round events = list_round nxt"
proof -
  obtain seen ws seen' slashed es where
    cfg: "valid_config cfg" and rnd: "events_round events = list_round nxt"
    and eq: "res_fold (equivocation_step hash prev (events_round events)) ([], []) (equivocations events) = Inr (seen, ws)"
    and ina: "res_fold (inactivity_step prev rs) seen (inactivity events) = Inr seen'"
    and sl: "(if equivocations events = [] then Inr (entries nxt)
      else res_bind (ok_or (try_fold_add 128 0 (map reputation (filter (\<lambda>e. \<not> is_excluded e) (vec_values prev)))) SlashOverflow) (\<lambda>t.
        res_fold (slash_step prev ws t cfg) (entries nxt) (equivocations events))) = Inr slashed"
    and dec: "res_fold (decay_step prev cfg) slashed (inactivity events) = Inr es" and nxt': "nxt' = nxt\<lparr>entries := es\<rparr>"
    using assms(1) unfolding apply_reputation_penalties_def
    by (auto simp: res_bind_ok if_err_ok validate_config_ok split: prod.splits)
  note e = equivocation_fold_ok [OF asc(1) eq, simplified] and i = inactivity_fold_ok [OF asc(1) ina]
  show "\<forall>p \<in> set (equivocations events). validate_authorization hash p (events_round events) = Inr () \<and>
       (\<exists>e. entry_of (vec_values prev) (offender p) = Some e \<and> \<not> is_excluded e)" using e by blast
  show "\<forall>p \<in> set (inactivity events). missed_rounds p = 1 \<and>
       (\<exists>e. entry_of (vec_values prev) (inactive_offender p) = Some e \<and> \<not> is_excluded e) \<and>
       (\<forall>r \<in> set rs. rater r \<noteq> inactive_offender p \<and> recipient r \<noteq> inactive_offender p)" using i by blast
  show d: "distinct (map offender (equivocations events))" "distinct (map inactive_offender (inactivity events))" using e i by blast+
  show dis: "offender ` set (equivocations events) \<inter> inactive_offender ` set (inactivity events) = {}" using e i by simp
  show "valid_config cfg" "events_round events = list_round nxt" using cfg rnd by blast+
  have pr: "\<forall>p \<in> set (equivocations events). \<exists>r. proof_round p = Inr r"
    using e by (auto simp: validate_authorization_ok proof_round_def)
  have w: "weight_at ws r = correlated_weight (vec_values prev) (equivocations events) r" for r
    using e by (simp add: weight_at_def)
  have slashed: "slashed = map (\<lambda>e. case List.find (\<lambda>p. offender p = entry_node e) (equivocations events) of None \<Rightarrow> e
      | Some p \<Rightarrow> slashed_entry prev (slash_ratio (weight_at ws (projr (proof_round p))) (active_weight (vec_values prev)) cfg) cfg e) (entries nxt)"
  proof (cases "equivocations events = []")
    case True
    then show ?thesis using sl by simp
  next
    case False
    then obtain t where t: "try_fold_add 128 0 (map reputation (filter (\<lambda>e. \<not> is_excluded e) (vec_values prev))) = Some t"
      and f: "res_fold (slash_step prev ws t cfg) (entries nxt) (equivocations events) = Inr slashed"
      using sl by (auto simp: res_bind_ok ok_or_ok)
    have "active_weight (vec_values prev) = t" using try_fold_add_Some(1) [OF t] by (simp add: active_weight_def)
    then show ?thesis using slash_fold_ok [OF asc(1) f asc(2) d(1) pr] by (simp only:)
  qed
  have "map entry_node slashed = map entry_node (entries nxt)" unfolding slashed by (simp split: option.splits)
  then have "es = map (\<lambda>e. if entry_node e \<in> inactive_offender ` set (inactivity events) then decayed_entry prev cfg e else e) slashed"
    using decay_fold_ok [OF asc(1) dec] asc(2) d(2) by simp
  also have "\<dots> = map (penalized prev events cfg) (entries nxt)"
  proof -
    have "entry_node x \<notin> inactive_offender ` set (inactivity events)"
      if "List.find (\<lambda>p. offender p = entry_node x) (equivocations events) = Some p" for x p
      using find_SomeD [OF that] dis by (metis disjoint_iff imageI)
    then show ?thesis unfolding slashed by (auto simp: penalized_def w split: option.splits)
  qed
  finally show "nxt' = nxt\<lparr>entries := map (penalized prev events cfg) (entries nxt)\<rparr>" using nxt' by simp
qed

end
