(* ===== verification/Por_Block.thy ===== *)
theory Por_Block
  imports Por_Penalty_Proofs
begin

text \<open>
  \<open>commitments.rs\<close> and the construction and validation of reputation blocks in \<open>block.rs\<close>.  The hash function
  is the parameter \<open>hash\<close>.  The committed bytes are unambiguous: under a collision-free hash equal commitments
  mean equal configurations, equal reputation lists and equal blocks.
\<close>

section \<open>Encodings\<close>

definition u16_be :: "nat \<Rightarrow> byte list" where
  "u16_be n = rev (le_bytes 2 n)"

definition cm_put_len :: "byte list \<Rightarrow> nat \<Rightarrow> por_error + byte list" where
  "cm_put_len out n = res_bind (ok_or (u64_try n) CommitmentLengthOverflow) (\<lambda>n. Inr (out @ u64_be n))"

definition cm_put_bytes :: "byte list \<Rightarrow> byte list \<Rightarrow> por_error + byte list" where
  "cm_put_bytes out bs = res_bind (cm_put_len out (length bs)) (\<lambda>out. Inr (out @ bs))"

definition POR_CONFIG_COMMITMENT_DOMAIN :: "byte list" where
  "POR_CONFIG_COMMITMENT_DOMAIN = ascii ''cordial-por:config-commitment:v2''"

definition POR_RATING_BATCH_COMMITMENT_DOMAIN :: "byte list" where
  "POR_RATING_BATCH_COMMITMENT_DOMAIN = ascii ''cordial-por:rating-batch-commitment:v1''"

definition POR_CHECKPOINT_RATING_BATCH_COMMITMENT_DOMAIN :: "byte list" where
  "POR_CHECKPOINT_RATING_BATCH_COMMITMENT_DOMAIN = ascii ''cordial-por:rating-batch-commitment:v2''"

definition POR_REPUTATION_LIST_COMMITMENT_DOMAIN :: "byte list" where
  "POR_REPUTATION_LIST_COMMITMENT_DOMAIN = ascii ''cordial-por:reputation-list-commitment:v2''"

definition POR_REPUTATION_BLOCK_COMMITMENT_DOMAIN :: "byte list" where
  "POR_REPUTATION_BLOCK_COMMITMENT_DOMAIN = ascii ''cordial-por:reputation-block-commitment:v2''"

definition POR_CHECKPOINT_REPUTATION_BLOCK_COMMITMENT_DOMAIN :: "byte list" where
  "POR_CHECKPOINT_REPUTATION_BLOCK_COMMITMENT_DOMAIN = ascii ''cordial-por:reputation-block-commitment:v3''"

definition POR_PENALTY_EVENTS_COMMITMENT_DOMAIN :: "byte list" where
  "POR_PENALTY_EVENTS_COMMITMENT_DOMAIN = ascii ''cordial-por:penalty-events-commitment:v1''"

definition REPUTATION_BLOCK_VERSION :: nat where
  "REPUTATION_BLOCK_VERSION = 2"

definition CHECKPOINT_REPUTATION_BLOCK_VERSION :: nat where
  "CHECKPOINT_REPUTATION_BLOCK_VERSION = 3"

definition MAX_REPUTATION_BLOCK_WIRE_LEN :: nat where
  "MAX_REPUTATION_BLOCK_WIRE_LEN = 64 * 1024 * 1024"

definition MAX_REPUTATION_BLOCK_ENTRIES :: nat where
  "MAX_REPUTATION_BLOCK_ENTRIES = 1000000"

section \<open>Commitments\<close>

definition policy_byte :: "missing_entry_policy \<Rightarrow> byte" where
  "policy_byte p = (case p of Reject \<Rightarrow> 0 | CarryForward \<Rightarrow> 1 | Neutral \<Rightarrow> 2)"

definition config_bytes :: "por_config \<Rightarrow> byte list" where
  "config_bytes cfg = POR_CONFIG_COMMITMENT_DOMAIN @ u64_be (scale cfg) @ u64_be (initial_reputation cfg) @
     u64_be (liquid_rank_alpha cfg) @ u64_be (minimum_rating cfg) @ u64_be (maximum_rating cfg) @
     [policy_byte (missing_policy cfg)] @ u64_be (correlation_threshold cfg) @ u64_be (base_slash_penalty cfg) @
     u64_be (inactivity_decay_gamma cfg)"

definition config_commitment :: "hasher \<Rightarrow> por_config \<Rightarrow> byte list" where
  "config_commitment hash cfg = hash (config_bytes cfg)"

definition rating_batch_commitment :: "hasher \<Rightarrow> rating_batch \<Rightarrow> por_config \<Rightarrow> por_error + byte list" where
  "rating_batch_commitment hash batch cfg =
     res_bind (build_rating_batch (batch_round batch) (batch_ratings batch) cfg) (\<lambda>canonical.
     res_bind (cm_put_len (POR_RATING_BATCH_COMMITMENT_DOMAIN @ u64_be (batch_round canonical)) (length (batch_ratings canonical))) (\<lambda>out.
     res_bind (res_fold (\<lambda>out r. res_bind (cm_put_bytes out (canonical_rating_payload r)) (\<lambda>out. cm_put_bytes out (rt_signature r)))
         out (batch_ratings canonical)) (\<lambda>out.
     Inr (hash out))))"

definition checkpoint_rating_batch_commitment ::
  "hasher \<Rightarrow> rating_batch \<Rightarrow> source_checkpoint \<Rightarrow> por_config \<Rightarrow> por_error + byte list" where
  "checkpoint_rating_batch_commitment hash batch src cfg =
     res_bind (build_rating_batch (batch_round batch) (batch_ratings batch) cfg) (\<lambda>canonical.
     if batch_round canonical \<noteq> src_round src then Inl InvalidRatingRound else
     res_bind (validate_source src) (\<lambda>_.
     res_bind (cm_put_len (POR_CHECKPOINT_RATING_BATCH_COMMITMENT_DOMAIN @ u64_be (batch_round canonical) @
         u64_be (finalized_prefix_len src) @ finalized_prefix_hash src) (length (batch_ratings canonical))) (\<lambda>out.
     res_bind (res_fold (\<lambda>out r.
         res_bind (canonical_checkpoint_rating_payload r src) (\<lambda>bs.
         res_bind (cm_put_bytes out bs) (\<lambda>out. cm_put_bytes out (rt_signature r)))) out (batch_ratings canonical)) (\<lambda>out.
     Inr (hash out)))))"

definition commit_equivocation ::
  "hasher \<Rightarrow> nat \<Rightarrow> node_id list \<times> byte list \<Rightarrow> equivocation_penalty \<Rightarrow> por_error + node_id list \<times> byte list" where
  "commit_equivocation hash rnd st p =
     (let (seen, out) = st in
      res_bind (validate_authorization hash p rnd) (\<lambda>_.
      if offender p \<in> set seen \<or> length (node_bytes (offender p)) > MAX_REPUTATION_BLOCK_NODE_ID_LEN \<or>
         evidence_bytes p = [] \<or> length (evidence_bytes p) > MAX_PENALTY_EVIDENCE_LEN
      then Inl (InvalidPenaltyEvents ''duplicate offender or invalid evidence/identifier size'')
      else res_bind (cm_put_bytes out (node_bytes (offender p))) (\<lambda>out.
        res_bind (cm_put_bytes out (evidence_bytes p)) (\<lambda>out.
          if length out > MAX_REPUTATION_BLOCK_WIRE_LEN then Inl (InvalidPenaltyEvents ''penalty payload too large'')
          else Inr (offender p # seen, out)))))"

definition commit_inactivity ::
  "node_id list \<times> byte list \<Rightarrow> inactivity_penalty \<Rightarrow> por_error + node_id list \<times> byte list" where
  "commit_inactivity st p =
     (let (seen, out) = st in
      if inactive_offender p \<in> set seen \<or> length (node_bytes (inactive_offender p)) > MAX_REPUTATION_BLOCK_NODE_ID_LEN \<or>
         missed_rounds p \<noteq> 1
      then Inl (InvalidPenaltyEvents ''inactivity requires a unique offender and one missed round'')
      else res_bind (cm_put_bytes out (node_bytes (inactive_offender p))) (\<lambda>out.
        let out = out @ u64_be (missed_rounds p) in
        if length out > MAX_REPUTATION_BLOCK_WIRE_LEN then Inl (InvalidPenaltyEvents ''penalty payload too large'')
        else Inr (inactive_offender p # seen, out)))"

definition penalty_events_commitment :: "hasher \<Rightarrow> nat \<Rightarrow> penalty_events option \<Rightarrow> por_error + byte list" where
  "penalty_events_commitment hash rnd events =
     res_bind
       (case events of None \<Rightarrow> Inr ([], [])
        | Some ev \<Rightarrow>
            if events_round ev \<noteq> rnd then Inl (InvalidPenaltyEvents ''event round must match the block'')
            else if min (2 ^ 64 - 1) (length (equivocations ev) + length (inactivity ev)) > MAX_REPUTATION_BLOCK_ENTRIES
            then Inl (InvalidPenaltyEvents ''too many penalty events'')
            else Inr (equivocations ev, inactivity ev)) (\<lambda>(eqs, ins).
     let eqs = sort_key offender eqs; ins = sort_key inactive_offender ins in
     res_bind (cm_put_len (POR_PENALTY_EVENTS_COMMITMENT_DOMAIN @ u64_be rnd) (length eqs)) (\<lambda>out.
     res_bind (res_fold (commit_equivocation hash rnd) ([], out) eqs) (\<lambda>(seen, out).
     res_bind (cm_put_len out (length ins)) (\<lambda>out.
     res_bind (res_fold commit_inactivity (seen, out) ins) (\<lambda>(_, out).
     if length out > MAX_REPUTATION_BLOCK_WIRE_LEN then Inl (InvalidPenaltyEvents ''penalty payload too large'')
     else Inr (hash out))))))"

definition validate_reputation_entries :: "reputation_entry list \<Rightarrow> por_error + unit" where
  "validate_reputation_entries es =
     res_bind (res_all (\<lambda>e. if is_excluded e \<and> reputation e \<noteq> 0 \<or> \<not> is_excluded e \<and> retained_reputation e \<noteq> 0
         then Inl ReputationExclusionMismatch else Inr ()) es) (\<lambda>_. check_windows es)"

definition validate_reputation_vector :: "reputation_vector \<Rightarrow> por_error + unit" where
  "validate_reputation_vector v = validate_reputation_entries (vec_values v)"

definition commit_entry :: "byte list \<Rightarrow> reputation_entry \<Rightarrow> por_error + byte list" where
  "commit_entry out e =
     res_bind (cm_put_bytes out (node_bytes (entry_node e))) (\<lambda>out.
       Inr (out @ u64_be (reputation e) @ [if is_excluded e then 1 else 0] @ u64_be (retained_reputation e)))"

definition reputation_list_commitment :: "hasher \<Rightarrow> reputation_list \<Rightarrow> por_error + byte list" where
  "reputation_list_commitment hash l =
     res_bind (validate_reputation_entries (entries l)) (\<lambda>_.
     res_bind (cm_put_len (POR_REPUTATION_LIST_COMMITMENT_DOMAIN @ u64_be (list_round l)) (length (entries l))) (\<lambda>out.
     res_bind (res_fold commit_entry out (entries l)) (\<lambda>out.
     Inr (hash out))))"

section \<open>Blocks\<close>

definition validate_shard_id :: "byte list \<Rightarrow> por_error + unit" where
  "validate_shard_id shard =
     (if shard = [] then Inl MissingReputationBlockShardId
      else if length shard > MAX_REPUTATION_BLOCK_SHARD_ID_LEN then Inl ReputationBlockShardIdTooLong
      else Inr ())"

definition validate_header_source :: "reputation_header \<Rightarrow> por_error + unit" where
  "validate_header_source h =
     (if version h = REPUTATION_BLOCK_VERSION
      then if header_checkpoint h \<noteq> None \<or> rating_round_from_finalized_wave (source_finalized_wave h) \<noteq> Inr (header_round h)
        then Inl InvalidReputationBlockSourceWave else Inr ()
      else if version h = CHECKPOINT_REPUTATION_BLOCK_VERSION
      then if source_finalized_wave h \<noteq> 0 \<or> map_option src_round (header_checkpoint h) \<noteq> Some (header_round h)
        then Inl InvalidReputationBlockSourceCheckpoint
        else map_err (\<lambda>_. InvalidReputationBlockSourceCheckpoint) (validate_source (the (header_checkpoint h)))
      else Inl (UnsupportedReputationBlockVersion (version h)))"

definition validate_reputation_block :: "hasher \<Rightarrow> reputation_block \<Rightarrow> por_error + unit" where
  "validate_reputation_block hash b =
     (if version (header b) \<noteq> REPUTATION_BLOCK_VERSION \<and> version (header b) \<noteq> CHECKPOINT_REPUTATION_BLOCK_VERSION
      then Inl (UnsupportedReputationBlockVersion (version (header b)))
      else res_bind (validate_shard_id (shard_id (header b))) (\<lambda>_.
        res_bind (validate_header_source (header b)) (\<lambda>_.
        if header_round (header b) \<noteq> list_round (block_list b) then Inl InvalidReputationBlockRound
        else res_bind (reputation_list_commitment hash (block_list b)) (\<lambda>root.
          if reputation_root (header b) \<noteq> root then Inl ReputationBlockRootMismatch else Inr ()))))"

definition block_hash_bytes :: "reputation_header \<Rightarrow> por_error + byte list" where
  "block_hash_bytes h =
     res_bind (cm_put_bytes
         ((if version h = REPUTATION_BLOCK_VERSION then POR_REPUTATION_BLOCK_COMMITMENT_DOMAIN
           else POR_CHECKPOINT_REPUTATION_BLOCK_COMMITMENT_DOMAIN) @ u16_be (version h)) (shard_id h)) (\<lambda>out.
     Inr (out @ u64_be (source_finalized_wave h) @ u64_be (header_round h) @
       (case header_checkpoint h of None \<Rightarrow> []
        | Some src \<Rightarrow> u64_be (finalized_prefix_len src) @ finalized_prefix_hash src) @
       (case previous_hash h of None \<Rightarrow> [0] | Some p \<Rightarrow> 1 # p) @
       config_hash h @ ratings_hash h @ penalties_hash h @ reputation_root h))"

definition reputation_block_hash :: "hasher \<Rightarrow> reputation_block \<Rightarrow> por_error + byte list" where
  "reputation_block_hash hash b =
     res_bind (validate_reputation_block hash b) (\<lambda>_. map_sum id hash (block_hash_bytes (header b)))"

definition previous_reputation_hash ::
  "hasher \<Rightarrow> byte list \<Rightarrow> nat \<Rightarrow> reputation_block option \<Rightarrow> por_error + byte list option" where
  "previous_reputation_hash hash shard rnd prev =
     (case prev of None \<Rightarrow> Inr None
      | Some p \<Rightarrow>
          if shard_id (header p) \<noteq> shard then Inl PreviousReputationBlockShardMismatch
          else if checked_add 64 (header_round (header p)) 1 \<noteq> Some rnd then Inl InvalidPreviousReputationBlockRound
          else map_sum id Some (reputation_block_hash hash p))"

definition build_reputation_block_with_penalties ::
  "hasher \<Rightarrow> block_context \<Rightarrow> rating_batch \<Rightarrow> reputation_list \<Rightarrow> por_config \<Rightarrow> penalty_events option \<Rightarrow> por_error + reputation_block" where
  "build_reputation_block_with_penalties hash ctx ratings l cfg penalties =
     res_bind (validate_config cfg) (\<lambda>_.
     res_bind (validate_penalty_context penalties ctx) (\<lambda>_.
     res_bind (validate_shard_id (ctx_shard ctx)) (\<lambda>_.
     res_bind (rating_round_from_finalized_wave (ctx_wave ctx)) (\<lambda>rnd.
     if batch_round ratings \<noteq> rnd then Inl InvalidRatingRound
     else if list_round l \<noteq> rnd then Inl InvalidReputationBlockRound
     else res_bind (previous_reputation_hash hash (ctx_shard ctx) rnd (ctx_previous ctx)) (\<lambda>prev.
       res_bind (rating_batch_commitment hash ratings cfg) (\<lambda>rh.
       res_bind (penalty_events_commitment hash rnd penalties) (\<lambda>ph.
       res_bind (reputation_list_commitment hash l) (\<lambda>root.
       let b = \<lparr>header = \<lparr>version = REPUTATION_BLOCK_VERSION, shard_id = ctx_shard ctx,
                  source_finalized_wave = ctx_wave ctx, header_checkpoint = None, header_round = rnd,
                  previous_hash = prev, config_hash = config_commitment hash cfg, ratings_hash = rh,
                  penalties_hash = ph, reputation_root = root\<rparr>, block_list = l\<rparr> in
       res_bind (validate_reputation_block hash b) (\<lambda>_. Inr b)))))))))"

definition build_reputation_block ::
  "hasher \<Rightarrow> block_context \<Rightarrow> rating_batch \<Rightarrow> reputation_list \<Rightarrow> por_config \<Rightarrow> por_error + reputation_block" where
  "build_reputation_block hash ctx ratings l cfg = build_reputation_block_with_penalties hash ctx ratings l cfg None"

definition build_checkpoint_reputation_block_with_penalties ::
  "hasher \<Rightarrow> checkpoint_context \<Rightarrow> rating_batch \<Rightarrow> reputation_list \<Rightarrow> por_config \<Rightarrow> penalty_events option \<Rightarrow> por_error + reputation_block" where
  "build_checkpoint_reputation_block_with_penalties hash ctx ratings l cfg penalties =
     res_bind (validate_config cfg) (\<lambda>_.
     res_bind (validate_shard_id (cctx_shard ctx)) (\<lambda>_.
     res_bind (validate_source (cctx_source ctx)) (\<lambda>_.
     res_bind (validate_checkpoint_penalty_context penalties ctx) (\<lambda>_.
     let rnd = src_round (cctx_source ctx) in
     if batch_round ratings \<noteq> rnd then Inl InvalidRatingRound
     else if list_round l \<noteq> rnd then Inl InvalidReputationBlockRound
     else res_bind (previous_reputation_hash hash (cctx_shard ctx) rnd (cctx_previous ctx)) (\<lambda>prev.
       res_bind (checkpoint_rating_batch_commitment hash ratings (cctx_source ctx) cfg) (\<lambda>rh.
       res_bind (penalty_events_commitment hash rnd penalties) (\<lambda>ph.
       res_bind (reputation_list_commitment hash l) (\<lambda>root.
       let b = \<lparr>header = \<lparr>version = CHECKPOINT_REPUTATION_BLOCK_VERSION, shard_id = cctx_shard ctx,
                  source_finalized_wave = 0, header_checkpoint = Some (cctx_source ctx), header_round = rnd,
                  previous_hash = prev, config_hash = config_commitment hash cfg, ratings_hash = rh,
                  penalties_hash = ph, reputation_root = root\<rparr>, block_list = l\<rparr> in
       res_bind (validate_reputation_block hash b) (\<lambda>_. Inr b)))))))))"

definition build_checkpoint_reputation_block ::
  "hasher \<Rightarrow> checkpoint_context \<Rightarrow> rating_batch \<Rightarrow> reputation_list \<Rightarrow> por_config \<Rightarrow> por_error + reputation_block" where
  "build_checkpoint_reputation_block hash ctx ratings l cfg =
     build_checkpoint_reputation_block_with_penalties hash ctx ratings l cfg None"

section \<open>Commitments are unambiguous\<close>

definition entry_valid :: "reputation_entry \<Rightarrow> bool" where
  "entry_valid e \<longleftrightarrow> (is_excluded e \<longrightarrow> reputation e = 0) \<and> (\<not> is_excluded e \<longrightarrow> retained_reputation e = 0)"

definition valid_entries :: "reputation_entry list \<Rightarrow> bool" where
  "valid_entries es \<longleftrightarrow> ascending es \<and> (\<forall>e \<in> set es. entry_valid e)"

lemma validate_entries_ok [res_ok]: "validate_reputation_entries es = Inr u \<longleftrightarrow> valid_entries es"
  by (auto simp: validate_reputation_entries_def valid_entries_def entry_valid_def res_ok)

lemma cm_put_len_ok: "cm_put_len out n = Inr out' \<longleftrightarrow> n < 2 ^ 64 \<and> out' = out @ u64_be n"
  by (auto simp: cm_put_len_def u64_try_def res_ok)

lemma cm_put_bytes_ok: "cm_put_bytes out bs = Inr out' \<longleftrightarrow> length bs < 2 ^ 64 \<and> out' = out @ put_bytes bs"
  by (auto simp: cm_put_bytes_def cm_put_len_ok put_bytes_def res_bind_ok)

definition entry_bytes :: "reputation_entry \<Rightarrow> byte list" where
  "entry_bytes e = put_bytes (node_bytes (entry_node e)) @ u64_be (reputation e) @ [if is_excluded e then 1 else 0] @
     u64_be (retained_reputation e)"

definition entry_fits :: "reputation_entry \<Rightarrow> bool" where
  "entry_fits e \<longleftrightarrow> node_fits (entry_node e) \<and> reputation e < 2 ^ 64 \<and> retained_reputation e < 2 ^ 64"

lemma commit_entry_ok: "commit_entry out e = Inr out' \<longleftrightarrow> node_fits (entry_node e) \<and> out' = out @ entry_bytes e"
  by (auto simp: commit_entry_def cm_put_bytes_ok entry_bytes_def res_bind_ok node_fits_def)

lemma commit_entries_ok:
  "res_fold commit_entry out es = Inr out' \<longleftrightarrow> (\<forall>e \<in> set es. node_fits (entry_node e)) \<and> out' = out @ concat (map entry_bytes es)"
  by (induction es arbitrary: out) (auto simp: res_bind_ok commit_entry_ok)

lemma list_commitment_ok:
  "reputation_list_commitment hash l = Inr root \<longleftrightarrow> valid_entries (entries l) \<and> length (entries l) < 2 ^ 64 \<and>
     (\<forall>e \<in> set (entries l). node_fits (entry_node e)) \<and>
     root = hash (POR_REPUTATION_LIST_COMMITMENT_DOMAIN @ u64_be (list_round l) @ u64_be (length (entries l)) @
       concat (map entry_bytes (entries l)))"
  by (auto simp: reputation_list_commitment_def res_bind_ok validate_entries_ok cm_put_len_ok commit_entries_ok)

lemma entry_bytes_inject:
  assumes "entry_fits e" "entry_fits e'" "entry_bytes e @ r = entry_bytes e' @ r'"
  shows "e = e' \<and> r = r'"
proof -
  note f = assms(1,2) [unfolded entry_fits_def]
  have "put_bytes (node_bytes (entry_node e)) @ u64_be (reputation e) @ [if is_excluded e then 1 else 0] @ u64_be (retained_reputation e) @ r =
      put_bytes (node_bytes (entry_node e')) @ u64_be (reputation e') @ [if is_excluded e' then 1 else 0] @ u64_be (retained_reputation e') @ r'"
    using assms(3) unfolding entry_bytes_def append_assoc .
  note 1 = put_node_inject [OF _ _ this]
  have 2: "reputation e = reputation e' \<and> [if is_excluded e then 1 else 0] @ u64_be (retained_reputation e) @ r =
      ([if is_excluded e' then 1 else 0] @ u64_be (retained_reputation e') @ r' :: byte list)"
    by (rule be.number_inject) (use f 1 in simp_all)
  then have x: "is_excluded e = is_excluded e'" and y: "u64_be (retained_reputation e) @ r = u64_be (retained_reputation e') @ r'"
    by (auto split: if_splits)
  have "retained_reputation e = retained_reputation e' \<and> r = r'" by (rule be.number_inject [OF _ _ y]) (use f in simp_all)
  then show ?thesis using 1 2 x f by simp
qed

definition list_fits :: "reputation_list \<Rightarrow> bool" where
  "list_fits l \<longleftrightarrow> list_round l < 2 ^ 64 \<and> (\<forall>e \<in> set (entries l). entry_fits e)"

text \<open>The string whose hash is the root of a list.\<close>

definition list_preimage :: "reputation_list \<Rightarrow> byte list" where
  "list_preimage l = POR_REPUTATION_LIST_COMMITMENT_DOMAIN @ u64_be (list_round l) @ u64_be (length (entries l)) @ concat (map entry_bytes (entries l))"

lemma list_commitment_inject:
  assumes "inj_on hash {list_preimage l, list_preimage l'}" "reputation_list_commitment hash l = Inr root" "reputation_list_commitment hash l' = Inr root"
    and "list_fits l" "list_fits l'"
  shows "l = l'"
proof -
  note f = assms(4,5) [unfolded list_fits_def]
  have "u64_be (list_round l) @ u64_be (length (entries l)) @ concat (map entry_bytes (entries l)) =
      u64_be (list_round l') @ u64_be (length (entries l')) @ concat (map entry_bytes (entries l'))"
    and len: "length (entries l) < 2 ^ 64" "length (entries l') < 2 ^ 64"
    using inj_onD [OF assms(1), of "list_preimage l" "list_preimage l'"] assms(2,3) by (simp_all add: list_commitment_ok list_preimage_def)
  note 1 = be.number_inject [OF _ _ this(1)]
  have 2: "length (entries l) = length (entries l') \<and> concat (map entry_bytes (entries l)) = concat (map entry_bytes (entries l'))"
    by (rule be.number_inject [OF len]) (use 1 f in simp)
  have "map id (entries l) = map id (entries l') \<and> ([] :: byte list) = []"
  proof (rule concat_inject [where A = "{e. entry_fits e}" and f = entry_bytes])
    show "id e = id e' \<and> r = r'" if "e \<in> {e. entry_fits e}" "e' \<in> {e. entry_fits e}" "entry_bytes e @ r = entry_bytes e' @ r'" for e e' r r'
      using entry_bytes_inject [OF _ _ that(3)] that(1,2) by simp
    show "length (entries l) = length (entries l')" using 2 by (rule conjunct1)
    show "set (entries l) \<subseteq> {e. entry_fits e}" "set (entries l') \<subseteq> {e. entry_fits e}" using f by blast+
    show "concat (map entry_bytes (entries l)) @ [] = concat (map entry_bytes (entries l')) @ []"
      using conjunct2 [OF 2] by (simp only:)
  qed
  then have "entries l = entries l'" by simp
  moreover have "list_round l = list_round l'" using 1 f by blast
  ultimately show ?thesis by simp
qed

definition config_fits :: "por_config \<Rightarrow> bool" where
  "config_fits cfg \<longleftrightarrow> list_all (\<lambda>n. n < 2 ^ 64) [scale cfg, initial_reputation cfg, liquid_rank_alpha cfg,
     minimum_rating cfg, maximum_rating cfg, correlation_threshold cfg, base_slash_penalty cfg, inactivity_decay_gamma cfg]"

lemma policy_byte_inject [simp]: "policy_byte p = policy_byte q \<longleftrightarrow> p = q"
  by (cases p; cases q) (simp_all add: policy_byte_def)

lemma config_bytes_inject:
  assumes "config_fits c" "config_fits c'" "config_bytes c = config_bytes c'"
  shows "c = c'"
proof -
  note f = assms(1,2) [unfolded config_fits_def list.pred_inject simp_thms]
  let ?t = "\<lambda>c. [policy_byte (missing_policy c)] @ u64_be (correlation_threshold c) @ u64_be (base_slash_penalty c) @
     u64_be (inactivity_decay_gamma c) @ []"
  have e: "u64_be (scale c) @ u64_be (initial_reputation c) @ u64_be (liquid_rank_alpha c) @ u64_be (minimum_rating c) @
      u64_be (maximum_rating c) @ ?t c =
    u64_be (scale c') @ u64_be (initial_reputation c') @ u64_be (liquid_rank_alpha c') @ u64_be (minimum_rating c') @
      u64_be (maximum_rating c') @ ?t c'"
    using assms(3) by (simp add: config_bytes_def)
  have 1: "scale c = scale c' \<and> u64_be (initial_reputation c) @ u64_be (liquid_rank_alpha c) @ u64_be (minimum_rating c) @
      u64_be (maximum_rating c) @ ?t c =
    u64_be (initial_reputation c') @ u64_be (liquid_rank_alpha c') @ u64_be (minimum_rating c') @ u64_be (maximum_rating c') @ ?t c'"
    by (rule be.number_inject [OF _ _ e]) (use f in blast)+
  have 2: "initial_reputation c = initial_reputation c' \<and> u64_be (liquid_rank_alpha c) @ u64_be (minimum_rating c) @
      u64_be (maximum_rating c) @ ?t c = u64_be (liquid_rank_alpha c') @ u64_be (minimum_rating c') @ u64_be (maximum_rating c') @ ?t c'"
    by (rule be.number_inject [OF _ _ conjunct2 [OF 1]]) (use f in blast)+
  have 3: "liquid_rank_alpha c = liquid_rank_alpha c' \<and> u64_be (minimum_rating c) @ u64_be (maximum_rating c) @ ?t c =
      u64_be (minimum_rating c') @ u64_be (maximum_rating c') @ ?t c'"
    by (rule be.number_inject [OF _ _ conjunct2 [OF 2]]) (use f in blast)+
  have 4: "minimum_rating c = minimum_rating c' \<and> u64_be (maximum_rating c) @ ?t c = u64_be (maximum_rating c') @ ?t c'"
    by (rule be.number_inject [OF _ _ conjunct2 [OF 3]]) (use f in blast)+
  have 5: "maximum_rating c = maximum_rating c' \<and> ?t c = ?t c'"
    by (rule be.number_inject [OF _ _ conjunct2 [OF 4]]) (use f in blast)+
  then have p: "missing_policy c = missing_policy c'"
    and e6: "u64_be (correlation_threshold c) @ u64_be (base_slash_penalty c) @ u64_be (inactivity_decay_gamma c) @ [] =
      u64_be (correlation_threshold c') @ u64_be (base_slash_penalty c') @ u64_be (inactivity_decay_gamma c') @ []" by simp_all
  have 6: "correlation_threshold c = correlation_threshold c' \<and> u64_be (base_slash_penalty c) @ u64_be (inactivity_decay_gamma c) @ [] =
      u64_be (base_slash_penalty c') @ u64_be (inactivity_decay_gamma c') @ []"
    by (rule be.number_inject [OF _ _ e6]) (use f in blast)+
  have 7: "base_slash_penalty c = base_slash_penalty c' \<and> u64_be (inactivity_decay_gamma c) @ [] = u64_be (inactivity_decay_gamma c') @ []"
    by (rule be.number_inject [OF _ _ conjunct2 [OF 6]]) (use f in blast)+
  have 8: "inactivity_decay_gamma c = inactivity_decay_gamma c' \<and> ([] :: byte list) = []"
    by (rule be.number_inject [OF _ _ conjunct2 [OF 7]]) (use f in blast)+
  show ?thesis using 1 2 3 4 5 6 7 8 p by simp
qed

lemma config_commitment_inject:
  "collision_free hash \<Longrightarrow> config_fits c \<Longrightarrow> config_fits c' \<Longrightarrow> config_commitment hash c = config_commitment hash c' \<Longrightarrow> c = c'"
  using config_bytes_inject by (simp add: config_commitment_def collision_free_def)

lemma collision_free_after: "collision_free hash \<Longrightarrow> hash (d @ x) = hash (d @ y) \<Longrightarrow> x = y"
  unfolding collision_free_def using same_append_eq by metis

lemma commit_ratings_ok:
  "res_fold (\<lambda>out r. res_bind (cm_put_bytes out (canonical_rating_payload r)) (\<lambda>out. cm_put_bytes out (rt_signature r))) out rs = Inr out' \<longleftrightarrow>
     (\<forall>r \<in> set rs. length (canonical_rating_payload r) < 2 ^ 64 \<and> length (rt_signature r) < 2 ^ 64) \<and>
     out' = out @ concat (map (\<lambda>r. put_bytes (canonical_rating_payload r) @ put_bytes (rt_signature r)) rs)"
  by (induction rs arbitrary: out) (auto simp: res_bind_ok cm_put_bytes_ok)

lemma rating_commitment_ok:
  assumes "rating_batch_commitment hash b cfg = Inr h"
  defines "rs \<equiv> sort_key pair_key (batch_ratings b)"
  shows "build_rating_batch (batch_round b) (batch_ratings b) cfg = Inr \<lparr>batch_round = batch_round b, batch_ratings = rs\<rparr>"
    "length rs < 2 ^ 64" "\<forall>r \<in> set rs. length (canonical_rating_payload r) < 2 ^ 64 \<and> length (rt_signature r) < 2 ^ 64"
    "h = hash (POR_RATING_BATCH_COMMITMENT_DOMAIN @ u64_be (batch_round b) @ u64_be (length rs) @
      concat (map (\<lambda>r. put_bytes (canonical_rating_payload r) @ put_bytes (rt_signature r)) rs))"
proof -
  obtain c where c: "build_rating_batch (batch_round b) (batch_ratings b) cfg = Inr c"
    and h: "res_bind (cm_put_len (POR_RATING_BATCH_COMMITMENT_DOMAIN @ u64_be (batch_round c)) (length (batch_ratings c))) (\<lambda>out.
     res_bind (res_fold (\<lambda>out r. res_bind (cm_put_bytes out (canonical_rating_payload r)) (\<lambda>out. cm_put_bytes out (rt_signature r)))
         out (batch_ratings c)) (\<lambda>out. Inr (hash out))) = Inr h"
    using assms(1) unfolding rating_batch_commitment_def res_bind_ok by blast
  have eq: "c = \<lparr>batch_round = batch_round b, batch_ratings = rs\<rparr>" using c unfolding build_rating_batch_ok rs_def by blast
  show "build_rating_batch (batch_round b) (batch_ratings b) cfg = Inr \<lparr>batch_round = batch_round b, batch_ratings = rs\<rparr>"
    using c eq by simp
  show "length rs < 2 ^ 64" "\<forall>r \<in> set rs. length (canonical_rating_payload r) < 2 ^ 64 \<and> length (rt_signature r) < 2 ^ 64"
    "h = hash (POR_RATING_BATCH_COMMITMENT_DOMAIN @ u64_be (batch_round b) @ u64_be (length rs) @
      concat (map (\<lambda>r. put_bytes (canonical_rating_payload r) @ put_bytes (rt_signature r)) rs))"
    using h unfolding eq by (simp_all add: res_bind_ok cm_put_len_ok commit_ratings_ok)
qed

text \<open>Equal rating commitments mean the same ratings with the same signatures.\<close>

lemma rating_commitment_inject:
  assumes "collision_free hash" "rating_batch_commitment hash b cfg = Inr h" "rating_batch_commitment hash b' cfg' = Inr h"
    and "batch_round b < 2 ^ 64" "batch_round b' < 2 ^ 64"
    and fits: "\<forall>r \<in> set (batch_ratings b) \<union> set (batch_ratings b'). rating_fits r"
  shows "batch_round b = batch_round b' \<and> mset (batch_ratings b) = mset (batch_ratings b')"
proof -
  let ?rs = "sort_key pair_key (batch_ratings b)" and ?rs' = "sort_key pair_key (batch_ratings b')"
  let ?f = "\<lambda>r. put_bytes (canonical_rating_payload r) @ put_bytes (rt_signature r)"
  note a = rating_commitment_ok [OF assms(2)] and c = rating_commitment_ok [OF assms(3)]
  have "u64_be (batch_round b) @ u64_be (length ?rs) @ concat (map ?f ?rs) = u64_be (batch_round b') @ u64_be (length ?rs') @ concat (map ?f ?rs')"
    by (rule collision_free_after [OF assms(1) trans [OF a(4) [symmetric] c(4)]])
  note 1 = be.number_inject [OF assms(4,5) this]
  note 2 = be.number_inject [OF a(2) c(2) conjunct2 [OF 1]]
  have "map id ?rs = map id ?rs' \<and> ([] :: byte list) = []"
  proof (rule concat_inject [where f = ?f and A = "set ?rs \<union> set ?rs'"])
    fix r r' z z' assume r: "r \<in> set ?rs \<union> set ?rs'" "r' \<in> set ?rs \<union> set ?rs'" and e: "?f r @ z = ?f r' @ z'"
    have l: "length (canonical_rating_payload r) < 2 ^ 64" "length (canonical_rating_payload r') < 2 ^ 64"
      "length (rt_signature r) < 2 ^ 64" "length (rt_signature r') < 2 ^ 64" using r a(3) c(3) by blast+
    note 3 = put_bytes_inject [OF l(1,2) e [unfolded append_assoc]]
    note 4 = put_bytes_inject [OF l(3,4) conjunct2 [OF 3]]
    have "rating_fits r" "rating_fits r'" using r fits by auto
    then have "signed_part r = signed_part r'" using rating_payload_inject [of r r' "[]" "[]"] 3 by simp
    then show "id r = id r' \<and> z = z'" using 4 by (cases r; cases r') (simp add: signed_part_def)
  qed (use 2 in simp_all)
  then have "?rs = ?rs'" by simp
  then have "mset ?rs = mset ?rs'" by (rule arg_cong)
  then show ?thesis using 1 by simp
qed

lemma validate_block_ok [res_ok]:
  "validate_reputation_block hash b = Inr u \<longleftrightarrow>
     shard_id (header b) \<noteq> [] \<and> length (shard_id (header b)) \<le> MAX_REPUTATION_BLOCK_SHARD_ID_LEN \<and>
     (version (header b) = 2 \<and> header_checkpoint (header b) = None \<and>
        header_round (header b) = source_finalized_wave (header b) + 1 \<and> header_round (header b) < 2 ^ 64 \<or>
      version (header b) = 3 \<and> source_finalized_wave (header b) = 0 \<and>
        (\<exists>src. header_checkpoint (header b) = Some src \<and> src_round src = header_round (header b) \<and> validate_source src = Inr ())) \<and>
     header_round (header b) = list_round (block_list b) \<and>
     reputation_list_commitment hash (block_list b) = Inr (reputation_root (header b))"
proof -
  have shard: "validate_shard_id x = Inr u \<longleftrightarrow> x \<noteq> [] \<and> length x \<le> MAX_REPUTATION_BLOCK_SHARD_ID_LEN" for x u
    by (auto simp: validate_shard_id_def)
  have src: "validate_header_source (header b) = Inr u \<longleftrightarrow>
     (version (header b) = 2 \<and> header_checkpoint (header b) = None \<and>
        header_round (header b) = source_finalized_wave (header b) + 1 \<and> header_round (header b) < 2 ^ 64 \<or>
      version (header b) = 3 \<and> source_finalized_wave (header b) = 0 \<and>
        (\<exists>src. header_checkpoint (header b) = Some src \<and> src_round src = header_round (header b) \<and> validate_source src = Inr ()))" for u
  proof (cases "header_checkpoint (header b)")
    case None
    then show ?thesis
      by (auto simp: validate_header_source_def REPUTATION_BLOCK_VERSION_def CHECKPOINT_REPUTATION_BLOCK_VERSION_def rating_round_ok)
  next
    case (Some src)
    then show ?thesis
      by (auto simp: validate_header_source_def REPUTATION_BLOCK_VERSION_def CHECKPOINT_REPUTATION_BLOCK_VERSION_def map_err_ok)
  qed
  show ?thesis
    unfolding validate_reputation_block_def if_err_ok res_bind_ok shard src
    by (auto simp: REPUTATION_BLOCK_VERSION_def CHECKPOINT_REPUTATION_BLOCK_VERSION_def)
qed

definition header_fits :: "reputation_header \<Rightarrow> bool" where
  "header_fits h \<longleftrightarrow> source_finalized_wave h < 2 ^ 64 \<and> header_round h < 2 ^ 64 \<and>
     (\<forall>src. header_checkpoint h = Some src \<longrightarrow> source_fits src) \<and> (\<forall>p. previous_hash h = Some p \<longrightarrow> length p = 32) \<and>
     length (config_hash h) = 32 \<and> length (ratings_hash h) = 32 \<and> length (penalties_hash h) = 32 \<and> length (reputation_root h) = 32"

definition header_tail :: "reputation_header \<Rightarrow> byte list" where
  "header_tail h = (case previous_hash h of None \<Rightarrow> [0] | Some p \<Rightarrow> 1 # p) @
     config_hash h @ ratings_hash h @ penalties_hash h @ reputation_root h"

lemma header_tail_inject:
  assumes "header_fits h" "header_fits h'" "header_tail h = header_tail h'"
  shows "previous_hash h = previous_hash h' \<and> config_hash h = config_hash h' \<and> ratings_hash h = ratings_hash h' \<and>
    penalties_hash h = penalties_hash h' \<and> reputation_root h = reputation_root h'"
  using assms by (cases "previous_hash h"; cases "previous_hash h'") (auto simp: header_tail_def header_fits_def)

lemma block_domains:
  "length POR_REPUTATION_BLOCK_COMMITMENT_DOMAIN = length POR_CHECKPOINT_REPUTATION_BLOCK_COMMITMENT_DOMAIN"
  "POR_REPUTATION_BLOCK_COMMITMENT_DOMAIN \<noteq> POR_CHECKPOINT_REPUTATION_BLOCK_COMMITMENT_DOMAIN"
  by code_simp+

lemma u16_be_length [simp]: "length (u16_be n) = 2"
  by (simp add: u16_be_def)

lemma block_hash_bytes_ok:
  assumes "block_hash_bytes h = Inr out"
  shows "length (shard_id h) < 2 ^ 64"
    "out = (if version h = REPUTATION_BLOCK_VERSION then POR_REPUTATION_BLOCK_COMMITMENT_DOMAIN
        else POR_CHECKPOINT_REPUTATION_BLOCK_COMMITMENT_DOMAIN) @ u16_be (version h) @ put_bytes (shard_id h) @
      u64_be (source_finalized_wave h) @ u64_be (header_round h) @
      (case header_checkpoint h of None \<Rightarrow> [] | Some src \<Rightarrow> u64_be (finalized_prefix_len src) @ finalized_prefix_hash src) @ header_tail h"
  using assms by (auto simp: block_hash_bytes_def res_bind_ok cm_put_bytes_ok header_tail_def)

lemma checkpoint_bytes_inject:
  assumes "source_fits src" "source_fits src'" "src_round src = src_round src'"
    and "u64_be (finalized_prefix_len src) @ finalized_prefix_hash src @ r = u64_be (finalized_prefix_len src') @ finalized_prefix_hash src' @ r'"
  shows "src = src' \<and> r = r'"
proof -
  have "finalized_prefix_len src = finalized_prefix_len src' \<and> finalized_prefix_hash src @ r = finalized_prefix_hash src' @ r'"
    by (rule be.number_inject [OF _ _ assms(4)]) (use assms(1,2) in \<open>simp_all add: source_fits_def\<close>)
  then show ?thesis using assms(1-3) by (simp add: source_fits_def)
qed

text \<open>The hash of a block determines its header, and through the root its list.\<close>

definition committed_bytes :: "reputation_block \<Rightarrow> byte list set" where
  "committed_bytes b = {x. block_hash_bytes (header b) = Inr x} \<union> {list_preimage (block_list b)}"

lemma block_hash_inject:
  assumes cf: "inj_on hash (committed_bytes b \<union> committed_bytes b')" and h: "reputation_block_hash hash b = Inr x" "reputation_block_hash hash b' = Inr x"
    and fits: "header_fits (header b)" "header_fits (header b')" "list_fits (block_list b)" "list_fits (block_list b')"
  shows "b = b'"
proof -
  let ?h = "header b" and ?h' = "header b'"
  let ?cp = "\<lambda>h. case header_checkpoint h of None \<Rightarrow> [] | Some src \<Rightarrow> u64_be (finalized_prefix_len src) @ finalized_prefix_hash src"
  obtain o1 o2 where v: "validate_reputation_block hash b = Inr ()" "validate_reputation_block hash b' = Inr ()"
    and o: "block_hash_bytes ?h = Inr o1" "block_hash_bytes ?h' = Inr o2" "hash o1 = hash o2"
    using h by (auto simp: reputation_block_hash_def res_bind_ok map_sum_ok)
  note v = v [unfolded validate_block_ok]
  have "o1 = o2" by (rule inj_onD [OF cf o(3)]) (simp_all add: committed_bytes_def o)
  note e = this [unfolded block_hash_bytes_ok(2) [OF o(1)] block_hash_bytes_ok(2) [OF o(2)]]
  have ver: "version ?h = version ?h'"
    using e v block_domains by (auto simp: REPUTATION_BLOCK_VERSION_def split: if_splits)
  have "put_bytes (shard_id ?h) @ u64_be (source_finalized_wave ?h) @ u64_be (header_round ?h) @ ?cp ?h @ header_tail ?h =
      put_bytes (shard_id ?h') @ u64_be (source_finalized_wave ?h') @ u64_be (header_round ?h') @ ?cp ?h' @ header_tail ?h'"
    using e unfolding ver by simp
  note 1 = put_bytes_inject [OF block_hash_bytes_ok(1) [OF o(1)] block_hash_bytes_ok(1) [OF o(2)] this]
  have 2: "source_finalized_wave ?h = source_finalized_wave ?h' \<and> u64_be (header_round ?h) @ ?cp ?h @ header_tail ?h =
      u64_be (header_round ?h') @ ?cp ?h' @ header_tail ?h'"
    by (rule be.number_inject [OF _ _ conjunct2 [OF 1]]) (use fits in \<open>simp_all add: header_fits_def\<close>)
  have 3: "header_round ?h = header_round ?h' \<and> ?cp ?h @ header_tail ?h = ?cp ?h' @ header_tail ?h'"
    by (rule be.number_inject [OF _ _ conjunct2 [OF 2]]) (use fits in \<open>simp_all add: header_fits_def\<close>)
  have 4: "header_checkpoint ?h = header_checkpoint ?h' \<and> header_tail ?h = header_tail ?h'"
  proof (cases "header_checkpoint ?h")
    case None
    then show ?thesis using v ver 3 by auto
  next
    case (Some src)
    then obtain src' where s: "header_checkpoint ?h' = Some src'" "src_round src = src_round src'"
      using v ver 3 by auto
    have "src = src' \<and> header_tail ?h = header_tail ?h'"
      by (rule checkpoint_bytes_inject) (use fits Some s 3 in \<open>auto simp: header_fits_def\<close>)
    then show ?thesis using Some s by simp
  qed
  note 5 = header_tail_inject [OF fits(1,2) conjunct2 [OF 4]]
  have hdr: "?h = ?h'" using ver 1 2 3 4 5 by simp
  have "block_list b = block_list b'"
    by (rule list_commitment_inject [OF inj_on_subset [OF cf] _ _ fits(3,4)]) (use v hdr in \<open>auto simp: committed_bytes_def\<close>)
  then show ?thesis using hdr by simp
qed

end
