(* ===== verification/Por_Audit.thy ===== *)
theory Por_Audit
  imports Por_Block
begin

text \<open>
  \<open>audit.rs\<close>: replay of a reputation round from its signed ratings and the previous vector, and the audit of a
  proposed block against the replay.  \<open>replay_base_ok\<close> gives the replayed list in closed form, node by node;
  \<open>verify_transition_ok\<close> says exactly which blocks an audit accepts.
\<close>

section \<open>Definitions\<close>

definition restore_excluded :: "reputation_vector \<Rightarrow> reputation_entry \<Rightarrow> reputation_entry" where
  "restore_excluded prev e =
     (case search_entry (vec_values prev) (entry_node e) of
        Some p \<Rightarrow> if is_excluded p then e\<lparr>reputation := 0, is_excluded := True, retained_reputation := retained_reputation p\<rparr> else e
      | None \<Rightarrow> e)"

definition replay_reputation_transition_with_penalties ::
  "hasher \<Rightarrow> reputation_vector \<Rightarrow> rating_record list \<Rightarrow> nat \<Rightarrow> por_config \<Rightarrow> penalty_events option \<Rightarrow> por_error + reputation_list" where
  "replay_reputation_transition_with_penalties hash prev ratings rnd cfg penalties =
     res_bind (validate_config cfg) (\<lambda>_.
     res_bind (validate_reputation_vector prev) (\<lambda>_.
     res_bind (penalty_events_commitment hash rnd penalties) (\<lambda>_.
     res_bind (build_rating_batch rnd ratings cfg) (\<lambda>batch.
     res_bind (build_rating_matrix batch) (\<lambda>matrix.
     res_bind (normalize_rating_matrix matrix cfg) (\<lambda>normalized.
     res_bind (compute_liquid_rank_contribution normalized prev cfg) (\<lambda>contribution.
     res_bind (blend_reputation_transition contribution prev cfg) (\<lambda>blended.
     res_bind (clamp_reputation_transition blended prev contribution cfg) (\<lambda>clamped.
     let nxt = \<lparr>list_round = vec_round clamped, entries = map (restore_excluded prev) (vec_values clamped)\<rparr> in
     (case penalties of None \<Rightarrow> Inr nxt
      | Some events \<Rightarrow> apply_reputation_penalties hash nxt prev ratings events cfg))))))))))"

definition replay_reputation_transition ::
  "hasher \<Rightarrow> reputation_vector \<Rightarrow> rating_record list \<Rightarrow> nat \<Rightarrow> por_config \<Rightarrow> por_error + reputation_list" where
  "replay_reputation_transition hash prev ratings rnd cfg =
     replay_reputation_transition_with_penalties hash prev ratings rnd cfg None"

fun compare_entries :: "reputation_entry list \<Rightarrow> reputation_entry list \<Rightarrow> por_error + unit" where
  "compare_entries (e # es) (p # ps) =
     (if entry_node e < entry_node p then Inl MissingReputationBlockEntry
      else if entry_node e = entry_node p then
        if is_excluded e \<noteq> is_excluded p then Inl ReputationExclusionMismatch
        else if reputation e \<noteq> reputation p \<or> retained_reputation e \<noteq> retained_reputation p then Inl ReputationValueMismatch
        else compare_entries es ps
      else Inl UnexpectedReputationBlockEntry)"
| "compare_entries (e # es) [] = Inl MissingReputationBlockEntry"
| "compare_entries [] (p # ps) = Inl UnexpectedReputationBlockEntry"
| "compare_entries [] [] = Inr ()"

definition compare_reputation_lists :: "reputation_list \<Rightarrow> reputation_list \<Rightarrow> por_error + unit" where
  "compare_reputation_lists replayed proposed = compare_entries (entries replayed) (entries proposed)"

definition verify_reputation_transition_with_penalties ::
  "hasher \<Rightarrow> reputation_vector \<Rightarrow> rating_record list \<Rightarrow> reputation_block \<Rightarrow> block_context \<Rightarrow> por_config \<Rightarrow> penalty_events option
     \<Rightarrow> por_error + unit" where
  "verify_reputation_transition_with_penalties hash prev ratings b ctx cfg penalties =
     res_bind (validate_config cfg) (\<lambda>_.
     res_bind (validate_reputation_block hash b) (\<lambda>_.
     res_bind (validate_penalty_context penalties ctx) (\<lambda>_.
     let h = header b in
     if version h \<noteq> REPUTATION_BLOCK_VERSION then Inl (UnsupportedReputationBlockAuditVersion (version h))
     else if shard_id h \<noteq> ctx_shard ctx then Inl ReputationBlockShardMismatch
     else if source_finalized_wave h \<noteq> ctx_wave ctx then Inl ReputationBlockSourceWaveMismatch
     else res_bind (previous_reputation_hash hash (ctx_shard ctx) (header_round h) (ctx_previous ctx)) (\<lambda>expected_previous.
     if previous_hash h \<noteq> expected_previous then Inl ReputationBlockPreviousHashMismatch
     else if config_hash h \<noteq> config_commitment hash cfg then Inl ReputationBlockConfigHashMismatch
     else res_bind (rating_batch_commitment hash \<lparr>batch_round = header_round h, batch_ratings = ratings\<rparr> cfg) (\<lambda>rh.
     if ratings_hash h \<noteq> rh then Inl ReputationBlockRatingsHashMismatch
     else res_bind (penalty_events_commitment hash (header_round h) penalties) (\<lambda>ph.
     if penalties_hash h \<noteq> ph then Inl ReputationBlockPenaltiesHashMismatch
     else res_bind (replay_reputation_transition_with_penalties hash prev ratings (list_round (block_list b)) cfg penalties) (\<lambda>expected.
     compare_reputation_lists expected (block_list b))))))))"

definition verify_reputation_transition ::
  "hasher \<Rightarrow> reputation_vector \<Rightarrow> rating_record list \<Rightarrow> reputation_block \<Rightarrow> block_context \<Rightarrow> por_config \<Rightarrow> por_error + unit" where
  "verify_reputation_transition hash prev ratings b ctx cfg =
     verify_reputation_transition_with_penalties hash prev ratings b ctx cfg None"

definition verify_checkpoint_reputation_transition_with_penalties ::
  "hasher \<Rightarrow> reputation_vector \<Rightarrow> rating_record list \<Rightarrow> reputation_block \<Rightarrow> checkpoint_context \<Rightarrow> por_config \<Rightarrow> penalty_events option
     \<Rightarrow> por_error + unit" where
  "verify_checkpoint_reputation_transition_with_penalties hash prev ratings b ctx cfg penalties =
     res_bind (validate_source (cctx_source ctx)) (\<lambda>_.
     res_bind (validate_checkpoint_penalty_context penalties ctx) (\<lambda>_.
     res_bind (validate_reputation_block hash b) (\<lambda>_.
     let h = header b in
     if version h \<noteq> CHECKPOINT_REPUTATION_BLOCK_VERSION then Inl (UnsupportedReputationBlockAuditVersion (version h))
     else if shard_id h \<noteq> cctx_shard ctx then Inl ReputationBlockShardMismatch
     else if header_checkpoint h \<noteq> Some (cctx_source ctx) then Inl ReputationBlockSourceCheckpointMismatch
     else res_bind (previous_reputation_hash hash (cctx_shard ctx) (header_round h) (cctx_previous ctx)) (\<lambda>expected_previous.
     if previous_hash h \<noteq> expected_previous then Inl ReputationBlockPreviousHashMismatch
     else if config_hash h \<noteq> config_commitment hash cfg then Inl ReputationBlockConfigHashMismatch
     else res_bind (checkpoint_rating_batch_commitment hash \<lparr>batch_round = header_round h, batch_ratings = ratings\<rparr> (cctx_source ctx) cfg) (\<lambda>rh.
     if ratings_hash h \<noteq> rh then Inl ReputationBlockRatingsHashMismatch
     else res_bind (penalty_events_commitment hash (header_round h) penalties) (\<lambda>ph.
     if penalties_hash h \<noteq> ph then Inl ReputationBlockPenaltiesHashMismatch
     else res_bind (replay_reputation_transition_with_penalties hash prev ratings (header_round h) cfg penalties) (\<lambda>expected.
     compare_reputation_lists expected (block_list b))))))))"

definition verify_checkpoint_reputation_transition ::
  "hasher \<Rightarrow> reputation_vector \<Rightarrow> rating_record list \<Rightarrow> reputation_block \<Rightarrow> checkpoint_context \<Rightarrow> por_config \<Rightarrow> por_error + unit" where
  "verify_checkpoint_reputation_transition hash prev ratings b ctx cfg =
     verify_checkpoint_reputation_transition_with_penalties hash prev ratings b ctx cfg None"

section \<open>The replayed list\<close>

lemma compare_entries_ok: "compare_entries es ps = Inr u \<longleftrightarrow> es = ps"
  by (induction es ps rule: compare_entries.induct) auto

definition rated :: "rating_record list \<Rightarrow> node_id \<Rightarrow> bool" where
  "rated rs n \<longleftrightarrow> n \<in> recipient ` set rs"

definition rank_contribution :: "por_config \<Rightarrow> reputation_entry list \<Rightarrow> rating_record list \<Rightarrow> node_id \<Rightarrow> nat" where
  "rank_contribution cfg prev rs n =
     (\<Sum>r\<leftarrow>ratings_of rs n. norm_value (scale cfg) (ratings_of rs n) r * weight_in prev (rater r)) div scale cfg"

definition blended_value :: "por_config \<Rightarrow> reputation_entry list \<Rightarrow> rating_record list \<Rightarrow> node_id \<Rightarrow> nat" where
  "blended_value cfg prev rs n =
     blend_value cfg (if rated rs n then rank_contribution cfg prev rs n else initial_reputation cfg)
       (case entry_of prev n of Some q \<Rightarrow> reputation q | None \<Rightarrow> initial_reputation cfg)"

text \<open>The entry of one node after a round without penalties.\<close>

definition round_entry :: "por_config \<Rightarrow> reputation_entry list \<Rightarrow> rating_record list \<Rightarrow> reputation_entry \<Rightarrow> bool" where
  "round_entry cfg prev rs e \<longleftrightarrow>
     (let n = entry_node e;
          fresh_value = (\<exists>r. clamp_reputation_value (blended_value cfg prev rs n) (scale cfg) = Inr r \<and> e = new_entry n r) in
      case entry_of prev n of
        Some q \<Rightarrow>
          if is_excluded q
          then e = \<lparr>entry_node = n, reputation = 0, retained_reputation = retained_reputation q, is_excluded = True\<rparr>
          else if \<not> rated rs n \<and> missing_policy cfg = CarryForward then e = new_entry n (reputation q)
          else fresh_value
      | None \<Rightarrow> fresh_value)"

lemma ratings_of_sort: "mset (ratings_of (sort_key f rs) n) = mset (ratings_of rs n)"
  by simp

lemma norm_value_perm: "mset g = mset g' \<Longrightarrow> norm_value s g r = norm_value s g' r"
  using mset_eq_setD [of g g'] by (simp only: norm_value_def lowest_score_def highest_score_def)

lemma sum_list_perm: "mset xs = mset ys \<Longrightarrow> sum_list (map f xs) = sum_list (map (f :: 'a \<Rightarrow> nat) ys)"
  by (metis mset_map sum_mset_sum_list)

lemma rank_contribution_perm:
  assumes "mset rs = mset rs'"
  shows "rank_contribution cfg prev rs n = rank_contribution cfg prev rs' n"
proof -
  have m: "mset (ratings_of rs n) = mset (ratings_of rs' n)" using assms by (simp add: mset_filter)
  have "norm_value (scale cfg) (ratings_of rs n) = norm_value (scale cfg) (ratings_of rs' n)"
    by (intro ext norm_value_perm [OF m])
  then show ?thesis unfolding rank_contribution_def using sum_list_perm [OF m] by (simp only:)
qed

lemma sorted_recipient: "sorted (map pair_key xs) \<Longrightarrow> sorted (map recipient xs)"
  by (induction xs) (auto simp: less_eq_prod_def)

lemma contribution_vector:
  assumes "build_rating_batch rnd rs cfg = Inr batch" "build_rating_matrix batch = Inr m" "normalize_rating_matrix m cfg = Inr nm"
    and "compute_liquid_rank_contribution nm prev cfg = Inr c" "scale cfg < 2 ^ 64"
  shows "vec_round c = rnd" "ascending (vec_values prev)" "ascending (vec_values c)"
    "entry_of (vec_values c) n =
      (if rated rs n then Some (new_entry n (rank_contribution cfg (vec_values prev) rs n)) else None)"
    "nodes_of (vec_values c) = recipient ` set rs" "\<forall>r \<in> set rs. rater r \<in> nodes_of (vec_values prev)"
proof -
  let ?rs = "sort_key pair_key rs" and ?s = "scale cfg" and ?prev = "vec_values prev"
  let ?h = "\<lambda>r. normalized_rating ?s (ratings_of ?rs (recipient r)) r"
  have m: "m = \<lparr>matrix_round = rnd, matrix_ratings = ?rs\<rparr>"
    using build_rating_matrix_of_batch [OF assms(1)] assms(1,2) by (auto simp: build_rating_batch_ok)
  have sorted: "sorted (map recipient ?rs)" by (rule sorted_recipient) simp
  have nm: "nm = \<lparr>normalized_round = rnd, normalized_ratings = map ?h ?rs\<rparr>"
    using normalize_matrix_ok [OF assms(3,5)] sorted by (simp add: m)
  have hrec: "n_recipient (?h r) = recipient r" "n_rater (?h r) = rater r" for r by (simp_all add: normalized_rating_def)
  have sorted2: "sorted (map n_recipient (normalized_ratings nm))" using sorted by (simp add: nm comp_def hrec)
  note l = liquid_rank_ok [OF assms(4) sorted2]
  have recs: "n_recipient ` set (normalized_ratings nm) = recipient ` set rs" by (simp add: nm image_image hrec)
  have filt: "filter (\<lambda>r. n_recipient r = k) (map ?h ?rs) = map (normalized_rating ?s (ratings_of ?rs k)) (ratings_of ?rs k)" for k
    by (simp add: filter_map comp_def hrec)
  have contr: "contribution_of ?s ?prev (filter (\<lambda>r. n_recipient r = k) (normalized_ratings nm)) = rank_contribution cfg ?prev rs k" for k
  proof -
    have "contribution_of ?s ?prev (filter (\<lambda>r. n_recipient r = k) (normalized_ratings nm)) = rank_contribution cfg ?prev ?rs k"
      unfolding nm normalized_matrix.simps filt contribution_of_def rank_contribution_def
      by (simp add: comp_def normalized_rating_def)
    also have "\<dots> = rank_contribution cfg ?prev rs k" by (rule rank_contribution_perm) simp
    finally show ?thesis .
  qed
  have c: "c = \<lparr>vec_round = rnd, vec_values = map (\<lambda>k. new_entry k (rank_contribution cfg ?prev rs k)) (sorted_list_of_set (recipient ` set rs))\<rparr>"
    using l(2) unfolding contr recs by (simp add: nm)
  show "vec_round c = rnd" "ascending (vec_values prev)" using c l(1) by simp_all
  show asc: "ascending (vec_values c)" by (simp add: c comp_def new_entry_def)
  show nodes: "nodes_of (vec_values c) = recipient ` set rs" by (simp add: c image_image new_entry_def)
  show "entry_of (vec_values c) n = (if rated rs n then Some (new_entry n (rank_contribution cfg ?prev rs n)) else None)"
  proof (cases "rated rs n")
    case True
    then have "entry_of (vec_values c) n = Some (new_entry n (rank_contribution cfg ?prev rs n))"
      unfolding entry_of_Some [OF asc] by (simp add: c rated_def new_entry_def)
    then show ?thesis using True by simp
  next
    case False
    then show ?thesis using nodes by (simp add: entry_of_None rated_def)
  qed
  show "\<forall>r \<in> set rs. rater r \<in> nodes_of (vec_values prev)" using l(3) by (simp add: nm hrec)
qed

lemma res_map_rel: "res_map f xs = Inr ys \<longleftrightarrow> list_all2 (\<lambda>x y. f x = Inr y) xs ys"
  by (induction xs arbitrary: ys) (auto simp: res_bind_ok list_all2_Cons1)

lemma list_all2_nodes: "list_all2 (\<lambda>n e. P n e \<and> entry_node e = n) ns es \<Longrightarrow> map entry_node es = ns \<and> (\<forall>e \<in> set es. P (entry_node e) e)"
  by (induction ns es rule: list_all2_induct) auto

lemma clamp_transition_rel:
  assumes "clamp_reputation_transition b prev c cfg = Inr v" "ascending (vec_values b)" "ascending (vec_values prev)" "ascending (vec_values c)"
  shows "vec_round v = vec_round b"
    "list_all2 (\<lambda>e e'. clamp_spec (scale cfg)
        (if missing_policy cfg = CarryForward then entry_of (vec_values prev) (entry_node e) else None)
        (entry_of (vec_values c) (entry_node e)) e = Inr e') (vec_values b) (vec_values v)"
proof -
  have "vec_round v = vec_round b \<and> list_all2 (\<lambda>e e'. clamp_spec (scale cfg)
        (if missing_policy cfg = CarryForward then entry_of (vec_values prev) (entry_node e) else None)
        (entry_of (vec_values c) (entry_node e)) e = Inr e') (vec_values b) (vec_values v)"
  proof (cases "missing_policy cfg = CarryForward")
    case True
    then show ?thesis
      using assms by (auto simp: clamp_reputation_transition_def res_bind_ok clamp_loop_eq res_map_rel split: if_splits)
  next
    case False
    then show ?thesis
      using assms(1) by (auto simp: clamp_reputation_transition_def clamp_reputation_vector_def res_bind_ok res_map_rel clamp_spec_def split: if_splits)
  qed
  then show "vec_round v = vec_round b" "list_all2 (\<lambda>e e'. clamp_spec (scale cfg)
        (if missing_policy cfg = CarryForward then entry_of (vec_values prev) (entry_node e) else None)
        (entry_of (vec_values c) (entry_node e)) e = Inr e') (vec_values b) (vec_values v)" by simp_all
qed

lemma blend_transition_rel:
  assumes "blend_reputation_transition c prev cfg = Inr b"
  shows "vec_round b = vec_round c" "vec_round c = vec_round prev + 1" "ascending (vec_values c)" "ascending (vec_values prev)"
    "list_all2 (\<lambda>n e. blend_spec cfg n (entry_of (vec_values c) n) (entry_of (vec_values prev) n) = Inr e)
      (sorted_list_of_set (nodes_of (vec_values c) \<union> nodes_of (vec_values prev))) (vec_values b)"
proof -
  have *: "vec_round b = vec_round c \<and> vec_round c = vec_round prev + 1 \<and> ascending (vec_values c) \<and> ascending (vec_values prev) \<and>
      blend_loop cfg (vec_values c) (vec_values prev) = Inr (vec_values b)"
    using assms
    by (auto simp: blend_reputation_transition_def validate_reputation_order_def res_bind_ok check_windows_ok checked_add_def split: if_splits)
  then show "vec_round b = vec_round c" "vec_round c = vec_round prev + 1" "ascending (vec_values c)" "ascending (vec_values prev)" by simp_all
  show "list_all2 (\<lambda>n e. blend_spec cfg n (entry_of (vec_values c) n) (entry_of (vec_values prev) n) = Inr e)
      (sorted_list_of_set (nodes_of (vec_values c) \<union> nodes_of (vec_values prev))) (vec_values b)"
    using * blend_loop_eq [of "vec_values c" "vec_values prev" cfg] by (simp add: res_map_rel [symmetric])
qed

lemma blend_spec_node: "blend_spec cfg n c p = Inr e \<Longrightarrow> entry_node e = n"
  by (auto simp: blend_spec_def blend_node_def res_bind_ok new_entry_def)

text \<open>One node through blend, clamp and the restoration of exclusions.\<close>

lemma node_round:
  assumes "blend_spec cfg n c p = Inr b" "p = entry_of (vec_values prev) n" "ascending (vec_values prev)"
    and c: "c = (if rated rs n then Some (new_entry n (rank_contribution cfg (vec_values prev) rs n)) else None)"
    and "clamp_spec (scale cfg) (if missing_policy cfg = CarryForward then p else None) c b = Inr e"
    and "rated rs n \<or> p \<noteq> None"
  shows "round_entry cfg (vec_values prev) rs (restore_excluded prev e)" "entry_node (restore_excluded prev e) = n"
proof -
  have b: "entry_node b = n" by (rule blend_spec_node [OF assms(1)])
  obtain r where e: "e = new_entry n r" using assms(5) b by (auto simp: clamp_spec_def map_sum_ok)
  have ne: "entry_node e = n" by (simp add: e new_entry_def)
  show node: "entry_node (restore_excluded prev e) = n" by (simp add: restore_excluded_def ne split: option.splits)
  have rest: "restore_excluded prev e = (case p of Some q \<Rightarrow>
      if is_excluded q then \<lparr>entry_node = n, reputation = 0, retained_reputation = retained_reputation q, is_excluded = True\<rparr> else e | None \<Rightarrow> e)"
    unfolding restore_excluded_def search_entry_eq [OF assms(3)] ne assms(2) [symmetric]
    by (simp add: e new_entry_def split: option.splits)
  have blended: "reputation b = blended_value cfg (vec_values prev) rs n" if "missing_policy cfg \<noteq> CarryForward \<or> rated rs n \<or> p = None"
    using assms(1) that assms(6) unfolding c blend_spec_def blend_node_def
    by (auto simp: res_bind_ok blended_value_def assms(2) [symmetric] contribution_for_unrated_node_def previous_for_new_node_def
        new_entry_def dest!: blend_ok split: option.splits if_splits missing_entry_policy.splits)
  show "round_entry cfg (vec_values prev) rs (restore_excluded prev e)"
  proof (cases "p \<noteq> None \<and> \<not> rated rs n \<and> missing_policy cfg = CarryForward")
    case True
    then obtain q where q: "p = Some q" by blast
    have "e = new_entry n (reputation q)" using assms(5) True b by (auto simp: c q clamp_spec_def)
    then show ?thesis unfolding round_entry_def Let_def node assms(2) [symmetric] using True rest q by simp
  next
    case False
    then have "map_sum id (new_entry n) (clamp_reputation_value (reputation b) (scale cfg)) = Inr e"
      using assms(5) b by (auto simp: clamp_spec_def c split: option.splits if_splits)
    then have "\<exists>r. clamp_reputation_value (blended_value cfg (vec_values prev) rs n) (scale cfg) = Inr r \<and> e = new_entry n r"
      using blended False by (auto simp: map_sum_ok)
    then show ?thesis unfolding round_entry_def Let_def node assms(2) [symmetric] using rest False
      by (cases p) auto
  qed
qed

definition replay_base :: "reputation_vector \<Rightarrow> rating_record list \<Rightarrow> nat \<Rightarrow> por_config \<Rightarrow> por_error + reputation_list" where
  "replay_base prev ratings rnd cfg =
     res_bind (build_rating_batch rnd ratings cfg) (\<lambda>batch.
     res_bind (build_rating_matrix batch) (\<lambda>matrix.
     res_bind (normalize_rating_matrix matrix cfg) (\<lambda>normalized.
     res_bind (compute_liquid_rank_contribution normalized prev cfg) (\<lambda>contribution.
     res_bind (blend_reputation_transition contribution prev cfg) (\<lambda>blended.
     res_bind (clamp_reputation_transition blended prev contribution cfg) (\<lambda>clamped.
     Inr \<lparr>list_round = vec_round clamped, entries = map (restore_excluded prev) (vec_values clamped)\<rparr>))))))"

lemma replay_split:
  "replay_reputation_transition_with_penalties hash prev rs rnd cfg penalties = Inr l \<longleftrightarrow>
     valid_config cfg \<and> valid_entries (vec_values prev) \<and> (\<exists>h. penalty_events_commitment hash rnd penalties = Inr h) \<and>
     (\<exists>base. replay_base prev rs rnd cfg = Inr base \<and>
        (case penalties of None \<Rightarrow> l = base | Some ev \<Rightarrow> apply_reputation_penalties hash base prev rs ev cfg = Inr l))"
  unfolding replay_reputation_transition_with_penalties_def replay_base_def Let_def res_bind_ok validate_config_ok
    validate_reputation_vector_def validate_entries_ok
  by (cases penalties) (auto simp: res_bind_ok)

lemma replay_base_ok:
  assumes "replay_base prev rs rnd cfg = Inr l" "scale cfg < 2 ^ 64"
  shows "list_round l = rnd" "rnd = vec_round prev + 1" "ascending (vec_values prev)"
    "map entry_node (entries l) = sorted_list_of_set (nodes_of (vec_values prev) \<union> recipient ` set rs)"
    "\<forall>e \<in> set (entries l). round_entry cfg (vec_values prev) rs e"
    "\<forall>r \<in> set rs. rating_valid rnd cfg r \<and> rater r \<in> nodes_of (vec_values prev)"
proof -
  obtain batch m nm c b v where 1: "build_rating_batch rnd rs cfg = Inr batch" "build_rating_matrix batch = Inr m"
    "normalize_rating_matrix m cfg = Inr nm" "compute_liquid_rank_contribution nm prev cfg = Inr c"
    and b: "blend_reputation_transition c prev cfg = Inr b" and v: "clamp_reputation_transition b prev c cfg = Inr v"
    and l: "l = \<lparr>list_round = vec_round v, entries = map (restore_excluded prev) (vec_values v)\<rparr>"
    using assms(1) unfolding replay_base_def res_bind_ok by blast
  note c = contribution_vector [OF 1 assms(2)]
  note bl = blend_transition_rel [OF b]
  let ?ns = "sorted_list_of_set (nodes_of (vec_values c) \<union> nodes_of (vec_values prev))"
  have "list_all2 (\<lambda>n e. blend_spec cfg n (entry_of (vec_values c) n) (entry_of (vec_values prev) n) = Inr e \<and> entry_node e = n) ?ns (vec_values b)"
    using bl(5) by (rule list_all2_mono) (auto dest: blend_spec_node)
  then have nb: "map entry_node (vec_values b) = ?ns" by (rule list_all2_nodes [THEN conjunct1])
  then have ab: "ascending (vec_values b)" by simp
  note cl = clamp_transition_rel [OF v ab bl(4,3)]
  have mem: "rated rs n \<or> entry_of (vec_values prev) n \<noteq> None" if "n \<in> set ?ns" for n
    using that c(5) entry_of_None [of "vec_values prev" n] by (auto simp: rated_def)
  have "list_all2 (\<lambda>n e. round_entry cfg (vec_values prev) rs (restore_excluded prev e) \<and> entry_node (restore_excluded prev e) = n) ?ns (vec_values v)"
  proof (rule list_all2_all_nthI)
    show len: "length ?ns = length (vec_values v)" 
      using list_all2_lengthD [OF bl(5)] list_all2_lengthD [OF cl(2)] by (rule trans)
    fix i assume i: "i < length ?ns"
    have B: "blend_spec cfg (?ns ! i) (entry_of (vec_values c) (?ns ! i)) (entry_of (vec_values prev) (?ns ! i)) = Inr (vec_values b ! i)"
      using list_all2_nthD [OF bl(5) i] .
    have ni: "entry_node (vec_values b ! i) = ?ns ! i" by (rule blend_spec_node [OF B])
    have "i < length (vec_values b)" using list_all2_lengthD [OF bl(5)] i by (simp only:)
    note C = list_all2_nthD [OF cl(2) this, unfolded ni]
    show "round_entry cfg (vec_values prev) rs (restore_excluded prev (vec_values v ! i)) \<and> entry_node (restore_excluded prev (vec_values v ! i)) = ?ns ! i"
      using node_round [OF B refl bl(4) c(4) C mem [OF nth_mem [OF i]]] by blast
  qed
  then have "list_all2 (\<lambda>n e. round_entry cfg (vec_values prev) rs e \<and> entry_node e = n) ?ns (entries l)"
    by (simp add: l list_all2_map2)
  note r = list_all2_nodes [OF this]
  show "map entry_node (entries l) = sorted_list_of_set (nodes_of (vec_values prev) \<union> recipient ` set rs)"
    using r c(5) by (simp add: Un_commute)
  show "\<forall>e \<in> set (entries l). round_entry cfg (vec_values prev) rs e" using r by blast
  show "list_round l = rnd" "rnd = vec_round prev + 1" "ascending (vec_values prev)" using l cl(1) bl c(1) by simp_all
  show "\<forall>r \<in> set rs. rating_valid rnd cfg r \<and> rater r \<in> nodes_of (vec_values prev)" using c(6) 1(1) by (simp add: build_rating_batch_ok)
qed

section \<open>What a round keeps\<close>

lemma round_entry_valid: "round_entry cfg prev rs e \<Longrightarrow> entry_valid e"
  by (cases e) (auto simp: round_entry_def Let_def entry_valid_def new_entry_def split: option.splits if_splits)

lemma replay_base_valid:
  assumes "replay_base prev rs rnd cfg = Inr l" "scale cfg < 2 ^ 64"
  shows "valid_entries (entries l)"
  using replay_base_ok(4,5) [OF assms] round_entry_valid by (auto simp: valid_entries_def)

lemma penalized_valid:
  assumes "entry_valid e" "is_excluded e \<longrightarrow> entry_node e \<notin> inactive_offender ` set (inactivity events)"
  shows "entry_valid (penalized prev events cfg e)"
  using assms by (auto simp: penalized_def entry_valid_def slashed_entry_def decayed_entry_def split: option.splits)

lemma round_entry_excluded:
  assumes "round_entry cfg prev rs e"
  shows "is_excluded e \<longleftrightarrow> (\<exists>q. entry_of prev (entry_node e) = Some q \<and> is_excluded q)"
  using assms by (cases e) (auto simp: round_entry_def Let_def new_entry_def split: option.splits if_splits)

lemma round_entry_bound:
  assumes "round_entry cfg prev rs e" "\<forall>q \<in> set prev. reputation q \<le> scale cfg" "ascending prev"
  shows "reputation e \<le> scale cfg"
proof -
  have "reputation q \<le> scale cfg" if "entry_of prev n = Some q" for q n
    using that assms(2) entry_of_Some [OF assms(3)] by blast
  then show ?thesis
    using assms(1) clamp_bounds(1) by (cases e) (auto simp: round_entry_def Let_def new_entry_def split: option.splits if_splits)
qed

lemma weight_in_bound: "\<forall>q \<in> set prev. reputation q \<le> s \<Longrightarrow> ascending prev \<Longrightarrow> weight_in prev n \<le> s"
  using entry_of_Some [of prev n] by (auto simp: weight_in_def split: option.splits)

definition offenders :: "penalty_events option \<Rightarrow> node_id set" where
  "offenders penalties = (case penalties of None \<Rightarrow> {} | Some ev \<Rightarrow> offender ` set (equivocations ev))"

text \<open>What holds of every replayed list, with or without penalties.\<close>

lemma replay_keeps:
  assumes "replay_reputation_transition_with_penalties hash prev rs rnd cfg penalties = Inr l" "scale cfg < 2 ^ 64"
  shows "list_round l = rnd" "rnd = vec_round prev + 1" "valid_entries (entries l)"
    "nodes_of (entries l) = nodes_of (vec_values prev) \<union> recipient ` set rs"
    "\<And>e. e \<in> set (entries l) \<Longrightarrow> is_excluded e \<longleftrightarrow>
       (\<exists>q. entry_of (vec_values prev) (entry_node e) = Some q \<and> is_excluded q) \<or> entry_node e \<in> offenders penalties"
    "\<And>q. q \<in> set (vec_values prev) \<Longrightarrow> is_excluded q \<Longrightarrow> q \<in> set (entries l)"
    "(\<forall>q \<in> set (vec_values prev). reputation q \<le> scale cfg) \<Longrightarrow> \<forall>e \<in> set (entries l). reputation e \<le> scale cfg"
proof -
  obtain base where cfg: "valid_config cfg" "valid_entries (vec_values prev)" and base: "replay_base prev rs rnd cfg = Inr base"
    and l: "case penalties of None \<Rightarrow> l = base | Some ev \<Rightarrow> apply_reputation_penalties hash base prev rs ev cfg = Inr l"
    using assms(1) unfolding replay_split by blast
  note b = replay_base_ok [OF base assms(2)]
  have asc: "ascending (vec_values prev)" "ascending (entries base)" using b(3,4) by simp_all
  have bn: "nodes_of (entries base) = nodes_of (vec_values prev) \<union> recipient ` set rs"
    using arg_cong [OF b(4), of set] by simp
  have keep: "q \<in> set (entries base)" if q: "q \<in> set (vec_values prev)" "is_excluded q" for q
  proof -
    have "entry_node q \<in> nodes_of (entries base)" using bn q(1) by simp
    then obtain e where e: "e \<in> set (entries base)" "entry_node e = entry_node q" by auto
    have "entry_of (vec_values prev) (entry_node e) = Some q" using entry_of_Some [OF asc(1)] e(2) q(1) by simp
    moreover have "reputation q = 0" using cfg(2) q by (auto simp: valid_entries_def entry_valid_def)
    moreover have "round_entry cfg (vec_values prev) rs e" using b(5) e(1) by blast
    ultimately have "e = q" using e(2) q(2) by (simp add: round_entry_def Let_def)
    then show ?thesis using e(1) by simp
  qed
  have bex: "is_excluded e \<longleftrightarrow> (\<exists>q. entry_of (vec_values prev) (entry_node e) = Some q \<and> is_excluded q)" if "e \<in> set (entries base)" for e
    using round_entry_excluded b(5) that by blast
  have bbound: "\<forall>e \<in> set (entries base). reputation e \<le> scale cfg" if "\<forall>q \<in> set (vec_values prev). reputation q \<le> scale cfg"
    using round_entry_bound [OF _ that asc(1)] b(5) by blast
  have all: "list_round l = rnd \<and> valid_entries (entries l) \<and> nodes_of (entries l) = nodes_of (vec_values prev) \<union> recipient ` set rs \<and>
    (\<forall>e \<in> set (entries l). is_excluded e \<longleftrightarrow>
       (\<exists>q. entry_of (vec_values prev) (entry_node e) = Some q \<and> is_excluded q) \<or> entry_node e \<in> offenders penalties) \<and>
    (\<forall>q \<in> set (vec_values prev). is_excluded q \<longrightarrow> q \<in> set (entries l)) \<and>
    ((\<forall>q \<in> set (vec_values prev). reputation q \<le> scale cfg) \<longrightarrow> (\<forall>e \<in> set (entries l). reputation e \<le> scale cfg))"
  proof (cases penalties)
    case None
    then show ?thesis
      using l b(1) replay_base_valid [OF base assms(2)] bn bex keep bbound by (simp add: offenders_def)
  next
    case (Some ev)
    then have ap: "apply_reputation_penalties hash base prev rs ev cfg = Inr l" using l by simp
    note p = apply_penalties_ok [OF ap asc]
    let ?f = "penalized prev ev cfg"
    have es: "entries l = map ?f (entries base)" by (simp add: p(1))
    have noex: "entry_node e \<notin> offender ` set (equivocations ev) \<and> entry_node e \<notin> inactive_offender ` set (inactivity ev)"
      if ein: "e \<in> set (entries base)" "is_excluded e" for e
    proof -
      obtain q where q: "entry_of (vec_values prev) (entry_node e) = Some q" "is_excluded q" using bex [OF ein(1)] ein(2) by blast
      have "offender x \<noteq> entry_node e" if xin: "x \<in> set (equivocations ev)" for x
      proof -
        obtain e' where "entry_of (vec_values prev) (offender x) = Some e'" "\<not> is_excluded e'"
          using conjunct2 [OF bspec [OF p(2) xin]] by blast
        then show ?thesis using q by auto
      qed
      moreover have "inactive_offender x \<noteq> entry_node e" if xin: "x \<in> set (inactivity ev)" for x
      proof -
        obtain e' where "entry_of (vec_values prev) (inactive_offender x) = Some e'" "\<not> is_excluded e'"
          using conjunct1 [OF conjunct2 [OF bspec [OF p(3) xin]]] by blast
        then show ?thesis using q by auto
      qed
      ultimately show ?thesis by (metis imageE)
    qed
    have find: "List.find (\<lambda>p. offender p = n) (equivocations ev) = None \<longleftrightarrow> n \<notin> offender ` set (equivocations ev)" for n
      by (auto simp: find_None_iff)
    have same: "?f e = e" if "e \<in> set (entries base)" "is_excluded e" for e
      using noex [OF that] find [of "entry_node e"] by (simp add: penalized_def)
    have valid: "entry_valid (?f e)" if "e \<in> set (entries base)" for e
      using penalized_valid [of e ev] noex [OF that] round_entry_valid b(5) that by blast
    have ex: "is_excluded (?f e) \<longleftrightarrow> is_excluded e \<or> entry_node e \<in> offender ` set (equivocations ev)" for e
      using find [of "entry_node e"] by (auto simp: penalized_def slashed_entry_def decayed_entry_def split: option.splits)
    have bound: "reputation (?f e) \<le> scale cfg" if "e \<in> set (entries base)" "\<forall>q \<in> set (vec_values prev). reputation q \<le> scale cfg" for e
    proof -
      have "weight_in (vec_values prev) n * (scale cfg - inactivity_decay_gamma cfg) div scale cfg \<le> scale cfg" for n
        using weight_in_bound [OF that(2) asc(1), of n] div_scale_le [of "scale cfg - inactivity_decay_gamma cfg" "scale cfg" "weight_in (vec_values prev) n"]
        by simp
      then show ?thesis using bbound [OF that(2)] that(1)
        by (auto simp: penalized_def slashed_entry_def decayed_entry_def split: option.splits)
    qed
    have f1: "list_round l = rnd" using p(1) b(1) by simp
    have f2: "valid_entries (entries l)" using asc(2) valid by (simp add: es valid_entries_def comp_def)
    have f3: "nodes_of (entries l) = nodes_of (vec_values prev) \<union> recipient ` set rs" using bn by (simp add: es image_image)
    have f4: "is_excluded e \<longleftrightarrow> (\<exists>q. entry_of (vec_values prev) (entry_node e) = Some q \<and> is_excluded q) \<or> entry_node e \<in> offenders penalties"
      if "e \<in> set (entries l)" for e
      using that ex bex by (auto simp: es offenders_def Some)
    have f5: "q \<in> set (entries l)" if "q \<in> set (vec_values prev)" "is_excluded q" for q
      using imageI [OF keep [OF that], of ?f] unfolding same [OF keep [OF that] that(2)] by (simp add: es)
    have f6: "reputation e \<le> scale cfg" if "\<forall>q \<in> set (vec_values prev). reputation q \<le> scale cfg" "e \<in> set (entries l)" for e
      using bound [OF _ that(1)] that(2) by (auto simp: es)
    show ?thesis
      by (intro conjI f1 f2 f3; intro ballI impI; (rule f4 | rule f6 | rule f5); assumption)
  qed
  show "list_round l = rnd" "valid_entries (entries l)" "nodes_of (entries l) = nodes_of (vec_values prev) \<union> recipient ` set rs" using all by blast+
  show "rnd = vec_round prev + 1" by (rule b(2))
  show "is_excluded e \<longleftrightarrow> (\<exists>q. entry_of (vec_values prev) (entry_node e) = Some q \<and> is_excluded q) \<or> entry_node e \<in> offenders penalties"
    if "e \<in> set (entries l)" for e using all that by blast
  show "q \<in> set (entries l)" if "q \<in> set (vec_values prev)" "is_excluded q" for q using all that by blast
  show "\<forall>e \<in> set (entries l). reputation e \<le> scale cfg" if "\<forall>q \<in> set (vec_values prev). reputation q \<le> scale cfg" using all that by blast
qed

section \<open>What an audit accepts\<close>

lemma verify_transition_ok:
  "verify_reputation_transition_with_penalties hash prev rs b ctx cfg penalties = Inr u \<longleftrightarrow>
     validate_reputation_block hash b = Inr () \<and> validate_penalty_context penalties ctx = Inr () \<and>
     version (header b) = REPUTATION_BLOCK_VERSION \<and> shard_id (header b) = ctx_shard ctx \<and>
     source_finalized_wave (header b) = ctx_wave ctx \<and>
     previous_reputation_hash hash (ctx_shard ctx) (header_round (header b)) (ctx_previous ctx) = Inr (previous_hash (header b)) \<and>
     config_hash (header b) = config_commitment hash cfg \<and>
     rating_batch_commitment hash \<lparr>batch_round = header_round (header b), batch_ratings = rs\<rparr> cfg = Inr (ratings_hash (header b)) \<and>
     penalty_events_commitment hash (header_round (header b)) penalties = Inr (penalties_hash (header b)) \<and>
     (\<exists>l. replay_reputation_transition_with_penalties hash prev rs (list_round (block_list b)) cfg penalties = Inr l \<and>
        entries l = entries (block_list b))"
  unfolding verify_reputation_transition_with_penalties_def Let_def res_bind_ok if_err_ok compare_reputation_lists_def compare_entries_ok
    validate_config_ok
  by (auto simp: replay_split)

lemma verify_checkpoint_ok:
  "verify_checkpoint_reputation_transition_with_penalties hash prev rs b ctx cfg penalties = Inr u \<longleftrightarrow>
     validate_reputation_block hash b = Inr () \<and> validate_source (cctx_source ctx) = Inr () \<and>
     validate_checkpoint_penalty_context penalties ctx = Inr () \<and>
     version (header b) = CHECKPOINT_REPUTATION_BLOCK_VERSION \<and> shard_id (header b) = cctx_shard ctx \<and>
     header_checkpoint (header b) = Some (cctx_source ctx) \<and>
     previous_reputation_hash hash (cctx_shard ctx) (header_round (header b)) (cctx_previous ctx) = Inr (previous_hash (header b)) \<and>
     config_hash (header b) = config_commitment hash cfg \<and>
     checkpoint_rating_batch_commitment hash \<lparr>batch_round = header_round (header b), batch_ratings = rs\<rparr> (cctx_source ctx) cfg =
       Inr (ratings_hash (header b)) \<and>
     penalty_events_commitment hash (header_round (header b)) penalties = Inr (penalties_hash (header b)) \<and>
     (\<exists>l. replay_reputation_transition_with_penalties hash prev rs (header_round (header b)) cfg penalties = Inr l \<and>
        entries l = entries (block_list b))"
  unfolding verify_checkpoint_reputation_transition_with_penalties_def Let_def res_bind_ok if_err_ok compare_reputation_lists_def
    compare_entries_ok
  by auto

lemma verified_list:
  assumes "verify_reputation_transition_with_penalties hash prev rs b ctx cfg penalties = Inr ()" "scale cfg < 2 ^ 64"
  shows "replay_reputation_transition_with_penalties hash prev rs (list_round (block_list b)) cfg penalties = Inr (block_list b)"
proof -
  obtain l where l: "replay_reputation_transition_with_penalties hash prev rs (list_round (block_list b)) cfg penalties = Inr l"
    "entries l = entries (block_list b)" using assms(1) unfolding verify_transition_ok by blast
  have "l = block_list b" using replay_keeps(1) [OF l(1) assms(2)] l(2) by simp
  then show ?thesis using l(1) by simp
qed

lemma verified_checkpoint_list:
  assumes "verify_checkpoint_reputation_transition_with_penalties hash prev rs b ctx cfg penalties = Inr ()" "scale cfg < 2 ^ 64"
  shows "replay_reputation_transition_with_penalties hash prev rs (list_round (block_list b)) cfg penalties = Inr (block_list b)"
proof -
  obtain l where l: "replay_reputation_transition_with_penalties hash prev rs (header_round (header b)) cfg penalties = Inr l"
    "entries l = entries (block_list b)" and v: "validate_reputation_block hash b = Inr ()"
    using assms(1) unfolding verify_checkpoint_ok by blast
  have r: "header_round (header b) = list_round (block_list b)" using v by (simp add: validate_block_ok)
  have "l = block_list b" using replay_keeps(1) [OF l(1) assms(2)] l(2) r by simp
  then show ?thesis using l(1) r by simp
qed

text \<open>A block built over the replayed list passes the audit of every node with the same inputs.\<close>

lemma built_block_verifies:
  assumes "replay_reputation_transition_with_penalties hash prev rs rnd cfg penalties = Inr l" "scale cfg < 2 ^ 64"
    and "build_reputation_block_with_penalties hash ctx \<lparr>batch_round = rnd, batch_ratings = rs\<rparr> l cfg penalties = Inr b"
  shows "verify_reputation_transition_with_penalties hash prev rs b ctx cfg penalties = Inr ()"
proof -
  have lr: "list_round l = rnd" by (rule replay_keeps(1) [OF assms(1,2)])
  show ?thesis
    using assms(1,3) unfolding verify_transition_ok build_reputation_block_with_penalties_def Let_def res_bind_ok if_err_ok
    by (auto simp: lr)
qed

lemma built_checkpoint_block_verifies:
  assumes "replay_reputation_transition_with_penalties hash prev rs rnd cfg penalties = Inr l" "scale cfg < 2 ^ 64"
    and "build_checkpoint_reputation_block_with_penalties hash ctx \<lparr>batch_round = rnd, batch_ratings = rs\<rparr> l cfg penalties = Inr b"
  shows "verify_checkpoint_reputation_transition_with_penalties hash prev rs b ctx cfg penalties = Inr ()"
proof -
  have lr: "list_round l = rnd" by (rule replay_keeps(1) [OF assms(1,2)])
  show ?thesis
    using assms(1,3) unfolding verify_checkpoint_ok build_checkpoint_reputation_block_with_penalties_def Let_def res_bind_ok if_err_ok
    by (auto simp: lr)
qed

section \<open>Order of the ratings\<close>

lemma replay_base_perm:
  assumes "mset rs = mset rs'" "replay_base prev rs rnd cfg = Inr l"
  shows "replay_base prev rs' rnd cfg = Inr l"
proof -
  obtain b where "build_rating_batch rnd rs cfg = Inr b" using assms(2) unfolding replay_base_def res_bind_ok by blast
  with build_rating_batch_perm [OF assms(1) this] show ?thesis using assms(2) by (simp add: replay_base_def)
qed

end
