(* ===== verification/Por_State.thy ===== *)
theory Por_State
  imports Por_Audit
begin

text \<open>
  \<open>state.rs\<close>, \<open>weights.rs\<close> and \<open>interactions.rs\<close>: the local reputation state with its permanent registry of ejected
  keys, the weights it exports to consensus, and the admission of interaction evidence.  The registry is an
  ordered set, a strictly ascending list.  \<open>por_step\<close> is one successful mutation; \<open>state_inv\<close> holds in every
  reachable state, and a step never forgets an ejected key (\<open>step_ejected\<close>).
\<close>

section \<open>The state\<close>

record reputation_state =
  current_round :: nat
  st_list :: reputation_list
  excluded_keys :: "node_id list"
  pending_ratings :: "rating_record list"
  latest_block :: "reputation_block option"

definition new_state :: "nat \<Rightarrow> reputation_state" where
  "new_state rnd = \<lparr>current_round = rnd, st_list = \<lparr>list_round = rnd, entries = []\<rparr>, excluded_keys = [],
     pending_ratings = [], latest_block = None\<rparr>"

definition add_rating :: "rating_record \<Rightarrow> reputation_state \<Rightarrow> reputation_state" where
  "add_rating r st = st\<lparr>pending_ratings := pending_ratings st @ [r]\<rparr>"

definition is_ejected :: "reputation_state \<Rightarrow> node_id \<Rightarrow> bool" where
  "is_ejected st n \<longleftrightarrow> n \<in> set (excluded_keys st)"

definition with_entries :: "reputation_state \<Rightarrow> reputation_entry list \<Rightarrow> reputation_state" where
  "with_entries st es = st\<lparr>st_list := (st_list st)\<lparr>entries := es\<rparr>\<rparr>"

definition set_reputation :: "node_id \<Rightarrow> nat \<Rightarrow> reputation_state \<Rightarrow> reputation_state" where
  "set_reputation n r st =
     (if n \<in> set (excluded_keys st) then st
      else let es = entries (st_list st) in
        case binary_search entry_node es n of
          Inr i \<Rightarrow> with_entries st (es[i := (es ! i)\<lparr>reputation := r\<rparr>])
        | Inl i \<Rightarrow> with_entries st (take i es @ new_entry n r # drop i es))"

definition eject_validator :: "node_id \<Rightarrow> reputation_state \<Rightarrow> por_error + reputation_state" where
  "eject_validator n st =
     (if n \<in> set (excluded_keys st) then Inr st
      else let es = entries (st_list st) in
        case binary_search entry_node es n of
          Inl i \<Rightarrow> Inl UnknownNode
        | Inr i \<Rightarrow> Inr ((with_entries st (es[i := (es ! i)\<lparr>is_excluded := True, reputation := 0\<rparr>]))
            \<lparr>excluded_keys := insort_insert n (excluded_keys st)\<rparr>))"

definition retained_of :: "reputation_entry list \<Rightarrow> node_id \<Rightarrow> nat" where
  "retained_of es n = (case search_entry es n of None \<Rightarrow> 0 | Some e \<Rightarrow> retained_reputation e)"

definition reapply_ejection :: "node_id list \<Rightarrow> reputation_entry list \<Rightarrow> reputation_entry \<Rightarrow> reputation_entry" where
  "reapply_ejection excluded old e =
     (if entry_node e \<in> set excluded
      then e\<lparr>is_excluded := True, reputation := 0, retained_reputation := retained_of old (entry_node e)\<rparr> else e)"

definition partition_point :: "('a \<Rightarrow> bool) \<Rightarrow> 'a list \<Rightarrow> nat" where
  "partition_point P xs = length (takeWhile P xs)"

definition insert_tombstone :: "reputation_entry list \<Rightarrow> reputation_entry list \<Rightarrow> node_id \<Rightarrow> reputation_entry list" where
  "insert_tombstone old es n =
     (case binary_search entry_node es n of
        Inr i \<Rightarrow> es
      | Inl _ \<Rightarrow>
          let i = partition_point (\<lambda>e. entry_node e < n) es in
          take i es @ (ejected_entry n)\<lparr>retained_reputation := retained_of old n\<rparr> # drop i es)"

definition apply_reputation_vector :: "reputation_vector \<Rightarrow> reputation_state \<Rightarrow> por_error + reputation_state" where
  "apply_reputation_vector v st =
     res_bind (validate_reputation_vector v) (\<lambda>_.
       if list_ex (\<lambda>e. is_excluded e \<and> entry_node e \<notin> set (excluded_keys st)) (vec_values v)
       then Inl ReputationExclusionMismatch
       else let old = entries (st_list st);
                new_entries = map (reapply_ejection (excluded_keys st) old) (vec_values v);
                new_entries = foldl (insert_tombstone old) new_entries (excluded_keys st) in
         Inr (st\<lparr>current_round := vec_round v, st_list := \<lparr>list_round = vec_round v, entries = new_entries\<rparr>\<rparr>))"

definition commit_audited_block :: "reputation_block \<Rightarrow> reputation_state \<Rightarrow> reputation_state" where
  "commit_audited_block b st =
     st\<lparr>current_round := list_round (block_list b), st_list := block_list b,
        excluded_keys := foldl (\<lambda>ks e. if is_excluded e then insort_insert (entry_node e) ks else ks) (excluded_keys st) (entries (block_list b)),
        latest_block := Some b\<rparr>"

definition state_vector :: "reputation_state \<Rightarrow> reputation_vector" where
  "state_vector st = \<lparr>vec_round = current_round st, vec_values = entries (st_list st)\<rparr>"

definition apply_reputation_block_with_penalties ::
  "hasher \<Rightarrow> byte list \<Rightarrow> nat \<Rightarrow> rating_record list \<Rightarrow> reputation_block \<Rightarrow> por_config \<Rightarrow> penalty_events option \<Rightarrow> reputation_state
     \<Rightarrow> por_error + reputation_state" where
  "apply_reputation_block_with_penalties hash shard wave ratings b cfg penalties st =
     res_bind (verify_reputation_transition_with_penalties hash (state_vector st) ratings b
         \<lparr>ctx_shard = shard, ctx_wave = wave, ctx_previous = latest_block st\<rparr> cfg penalties) (\<lambda>_.
       Inr (commit_audited_block b st))"

definition apply_reputation_block ::
  "hasher \<Rightarrow> byte list \<Rightarrow> nat \<Rightarrow> rating_record list \<Rightarrow> reputation_block \<Rightarrow> por_config \<Rightarrow> reputation_state \<Rightarrow> por_error + reputation_state" where
  "apply_reputation_block hash shard wave ratings b cfg st =
     apply_reputation_block_with_penalties hash shard wave ratings b cfg None st"

definition apply_checkpoint_reputation_block_with_penalties ::
  "hasher \<Rightarrow> byte list \<Rightarrow> source_checkpoint \<Rightarrow> rating_record list \<Rightarrow> reputation_block \<Rightarrow> por_config \<Rightarrow> penalty_events option
     \<Rightarrow> reputation_state \<Rightarrow> por_error + reputation_state" where
  "apply_checkpoint_reputation_block_with_penalties hash shard src ratings b cfg penalties st =
     res_bind (verify_checkpoint_reputation_transition_with_penalties hash (state_vector st) ratings b
         \<lparr>cctx_shard = shard, cctx_source = src, cctx_previous = latest_block st\<rparr> cfg penalties) (\<lambda>_.
       Inr (commit_audited_block b st))"

definition apply_checkpoint_reputation_block ::
  "hasher \<Rightarrow> byte list \<Rightarrow> source_checkpoint \<Rightarrow> rating_record list \<Rightarrow> reputation_block \<Rightarrow> por_config \<Rightarrow> reputation_state
     \<Rightarrow> por_error + reputation_state" where
  "apply_checkpoint_reputation_block hash shard src ratings b cfg st =
     apply_checkpoint_reputation_block_with_penalties hash shard src ratings b cfg None st"

definition exclusion_mismatch :: "node_id list \<Rightarrow> reputation_entry \<Rightarrow> bool" where
  "exclusion_mismatch excluded e \<longleftrightarrow>
     (let registered = entry_node e \<in> set excluded in
      is_excluded e \<noteq> registered \<or> registered \<and> reputation e \<noteq> 0 \<or> \<not> registered \<and> retained_reputation e \<noteq> 0)"

definition validate_snapshot_invariants :: "hasher \<Rightarrow> reputation_state \<Rightarrow> por_error + unit" where
  "validate_snapshot_invariants hash st =
     (if pending_ratings st \<noteq> [] then Inl ReputationStateSnapshotHasPendingRatings
      else if list_round (st_list st) \<noteq> current_round st then Inl ReputationStateSnapshotRoundMismatch
      else res_bind (validate_reputation_entries (entries (st_list st))) (\<lambda>_.
        if list_ex (exclusion_mismatch (excluded_keys st)) (entries (st_list st)) then Inl ReputationStateSnapshotExclusionMismatch
        else if list_ex (\<lambda>k. search_entry (entries (st_list st)) k = None) (excluded_keys st)
        then Inl ReputationStateSnapshotExclusionMismatch
        else case latest_block st of None \<Rightarrow> Inr ()
          | Some b \<Rightarrow> res_bind (validate_reputation_block hash b) (\<lambda>_.
              if header_round (header b) \<noteq> current_round st then Inl ReputationStateSnapshotBlockRoundMismatch else Inr ())))"

definition from_snapshot_parts ::
  "hasher \<Rightarrow> nat \<Rightarrow> reputation_list \<Rightarrow> node_id list \<Rightarrow> reputation_block option \<Rightarrow> por_error + reputation_state" where
  "from_snapshot_parts hash rnd l excluded block =
     (let st = \<lparr>current_round = rnd, st_list = l, excluded_keys = excluded, pending_ratings = [], latest_block = block\<rparr> in
      res_bind (validate_snapshot_invariants hash st) (\<lambda>_. Inr st))"

section \<open>Weights\<close>

definition reputation_weights :: "reputation_state \<Rightarrow> (node_id \<times> nat) list" where
  "reputation_weights st =
     fold (\<lambda>e m. AList.update (entry_node e) (reputation e) m) (filter (\<lambda>e. \<not> is_excluded e) (entries (st_list st))) []"

definition weight_step ::
  "reputation_state \<Rightarrow> (node_id \<times> nat) list \<times> nat \<Rightarrow> node_id \<Rightarrow> por_error + (node_id \<times> nat) list \<times> nat" where
  "weight_step st acc v =
     (let (weights, sum) = acc in
      if map_of weights v \<noteq> None then Inr (weights, sum)
      else res_bind (ok_or (search_entry (entries (st_list st)) v) (MissingAuthorizedValidatorReputation v)) (\<lambda>e.
        let w = (if is_excluded e \<or> is_ejected st v then 0 else reputation e) in
        res_bind (ok_or (checked_add 128 sum w) AuthorizedValidatorWeightOverflow) (\<lambda>sum.
          Inr (AList.update v w weights, sum))))"

definition authorized_validator_weights :: "reputation_state \<Rightarrow> node_id list \<Rightarrow> por_error + (node_id \<times> nat) list" where
  "authorized_validator_weights st authorized =
     (if authorized = [] then Inl EmptyAuthorizedValidatorSet
      else res_bind (res_fold (weight_step st) ([], 0) authorized) (\<lambda>(weights, sum).
        if sum = 0 then Inl ZeroAuthorizedValidatorWeight else Inr weights))"

section \<open>Interactions\<close>

datatype interaction_kind = BlockProduction | CordialReferences | ExecutionResult | DeployInclusion

record interaction_evidence =
  ie_wave :: nat
  ie_round :: nat
  ie_kind :: interaction_kind
  ie_rater :: node_id
  ie_recipient :: node_id
  ie_ref :: "byte list"

record checkpoint_interaction =
  ci_source :: source_checkpoint
  ci_kind :: interaction_kind
  ci_rater :: node_id
  ci_recipient :: node_id
  ci_ref :: "byte list"

text \<open>The newtypes that only admission constructs.\<close>

datatype admitted_interaction = AdmittedInteraction interaction_evidence

datatype admitted_checkpoint_interaction = AdmittedCheckpointInteraction checkpoint_interaction

definition state_contains :: "reputation_state \<Rightarrow> node_id \<Rightarrow> bool" where
  "state_contains st n \<longleftrightarrow> search_entry (entries (st_list st)) n \<noteq> None"

definition validate_interaction_rater :: "nat \<Rightarrow> node_id \<Rightarrow> reputation_state \<Rightarrow> por_error + unit" where
  "validate_interaction_rater rnd who st =
     (if checked_add 64 (current_round st) 1 \<noteq> Some rnd then Inl InvalidInteractionStateRound
      else if \<not> state_contains st who then Inl UnknownInteractionRater
      else if is_ejected st who then Inl EjectedInteractionRater
      else Inr ())"

definition validate_interaction_participants ::
  "nat \<Rightarrow> node_id \<Rightarrow> node_id \<Rightarrow> byte list \<Rightarrow> reputation_state \<Rightarrow> por_error + unit" where
  "validate_interaction_participants rnd who whom ref st =
     (if checked_add 64 (current_round st) 1 \<noteq> Some rnd then Inl InvalidInteractionStateRound
      else if who = whom then Inl SelfInteraction
      else if ref = [] then Inl MissingInteractionReference
      else res_bind (validate_interaction_rater rnd who st) (\<lambda>_.
        if \<not> state_contains st whom then Inl UnknownInteractionRecipient
        else if is_ejected st whom then Inl EjectedInteractionRecipient
        else Inr ()))"

definition admit_interaction_evidence :: "interaction_evidence \<Rightarrow> reputation_state \<Rightarrow> por_error + admitted_interaction" where
  "admit_interaction_evidence ev st =
     res_bind (rating_round_from_finalized_wave (ie_wave ev)) (\<lambda>expected_round.
       if ie_round ev \<noteq> expected_round then Inl InvalidInteractionRound
       else res_bind (validate_interaction_participants (ie_round ev) (ie_rater ev) (ie_recipient ev) (ie_ref ev) st) (\<lambda>_.
         Inr (AdmittedInteraction ev)))"

definition admit_checkpoint_interaction_evidence ::
  "checkpoint_interaction \<Rightarrow> reputation_state \<Rightarrow> por_error + admitted_checkpoint_interaction" where
  "admit_checkpoint_interaction_evidence ev st =
     res_bind (validate_source (ci_source ev)) (\<lambda>_.
       res_bind (validate_interaction_participants (src_round (ci_source ev)) (ci_rater ev) (ci_recipient ev) (ci_ref ev) st) (\<lambda>_.
         Inr (AdmittedCheckpointInteraction ev)))"

definition validate_checkpoint_rater :: "source_checkpoint \<Rightarrow> node_id \<Rightarrow> reputation_state \<Rightarrow> por_error + unit" where
  "validate_checkpoint_rater src who st =
     res_bind (validate_source src) (\<lambda>_. validate_interaction_rater (src_round src) who st)"

definition score_interaction_kind :: "interaction_kind \<Rightarrow> por_config \<Rightarrow> por_error + nat" where
  "score_interaction_kind k cfg =
     (if minimum_rating cfg > maximum_rating cfg
      then Inl (InvalidConfiguration ''minimum rating must not exceed maximum rating'')
      else case k of BlockProduction \<Rightarrow> Inr (maximum_rating cfg) | CordialReferences \<Rightarrow> Inr (maximum_rating cfg)
        | ExecutionResult \<Rightarrow> Inr (maximum_rating cfg) | DeployInclusion \<Rightarrow> Inr (maximum_rating cfg))"

definition score_admitted_interaction :: "admitted_interaction \<Rightarrow> por_config \<Rightarrow> por_error + nat" where
  "score_admitted_interaction a cfg = (case a of AdmittedInteraction ev \<Rightarrow> score_interaction_kind (ie_kind ev) cfg)"

definition score_admitted_checkpoint_interaction :: "admitted_checkpoint_interaction \<Rightarrow> por_config \<Rightarrow> por_error + nat" where
  "score_admitted_checkpoint_interaction a cfg =
     (case a of AdmittedCheckpointInteraction ev \<Rightarrow> score_interaction_kind (ci_kind ev) cfg)"

definition build_rating_from_interaction :: "admitted_interaction \<Rightarrow> byte list \<Rightarrow> por_config \<Rightarrow> por_error + rating_record" where
  "build_rating_from_interaction a sig cfg =
     res_bind (score_admitted_interaction a cfg) (\<lambda>s.
       case a of AdmittedInteraction ev \<Rightarrow>
         let r = \<lparr>rt_round = ie_round ev, rater = ie_rater ev, recipient = ie_recipient ev, score = s, rt_signature = sig,
                  interaction_ref = Some (ie_ref ev)\<rparr> in
         res_bind (validate_rating r cfg) (\<lambda>_. Inr r))"

end
