(* ===== verification/Por_Wire.thy ===== *)
theory Por_Wire
  imports Por_State
begin

text \<open>
  The publication envelope of a reputation block (\<open>block.rs\<close>) and the durable snapshot of the state
  (\<open>snapshot.rs\<close>): encoders, decoders, checksums and size limits.  A decoder is a reader of the remaining bytes.
  The locale \<open>wire_codec\<close> is the contract of a reader and an encoding that are exact inverses; numbers, fields,
  flags, entries and lists satisfy it, so each decoder accepts precisely the canonical bytes.
\<close>

section \<open>Limits and envelopes\<close>

definition POR_REPUTATION_BLOCK_MAGIC :: "byte list" where
  "POR_REPUTATION_BLOCK_MAGIC = ascii ''cordial-por-block''"

definition POR_STATE_SNAPSHOT_MAGIC :: "byte list" where
  "POR_STATE_SNAPSHOT_MAGIC = ascii ''cordial-por-state''"

definition REPUTATION_BLOCK_CHECKSUM_DOMAIN :: "byte list" where
  "REPUTATION_BLOCK_CHECKSUM_DOMAIN = ascii ''cordial-por:reputation-block-envelope:v2''"

definition CHECKPOINT_REPUTATION_BLOCK_CHECKSUM_DOMAIN :: "byte list" where
  "CHECKPOINT_REPUTATION_BLOCK_CHECKSUM_DOMAIN = ascii ''cordial-por:reputation-block-envelope:v3''"

definition SNAPSHOT_CHECKSUM_DOMAIN :: "byte list" where
  "SNAPSHOT_CHECKSUM_DOMAIN = ascii ''cordial-por:state-snapshot:v2''"

definition CHECKPOINT_SNAPSHOT_CHECKSUM_DOMAIN :: "byte list" where
  "CHECKPOINT_SNAPSHOT_CHECKSUM_DOMAIN = ascii ''cordial-por:state-snapshot:v3''"

definition FIXED_ENVELOPE_LEN :: nat where
  "FIXED_ENVELOPE_LEN = 17 + 2 + 8 + 32"

definition MAX_REPUTATION_BLOCK_PAYLOAD_LEN :: nat where
  "MAX_REPUTATION_BLOCK_PAYLOAD_LEN = MAX_REPUTATION_BLOCK_WIRE_LEN - FIXED_ENVELOPE_LEN"

definition MAX_REPUTATION_STATE_SNAPSHOT_LEN :: nat where
  "MAX_REPUTATION_STATE_SNAPSHOT_LEN = 64 * 1024 * 1024"

section \<open>Encoding a block\<close>

definition put_fixed :: "byte list \<Rightarrow> byte list \<Rightarrow> por_error + byte list" where
  "put_fixed out bs =
     res_bind (ok_or (checked_add 64 (length out) (length bs)) ReputationBlockWireTooLarge) (\<lambda>next_len.
       if next_len > MAX_REPUTATION_BLOCK_PAYLOAD_LEN then Inl ReputationBlockWireTooLarge else Inr (out @ bs))"

definition wire_put_u64 :: "byte list \<Rightarrow> nat \<Rightarrow> por_error + byte list" where
  "wire_put_u64 out n = put_fixed out (u64_be n)"

definition wire_put_bytes :: "byte list \<Rightarrow> byte list \<Rightarrow> por_error + byte list" where
  "wire_put_bytes out bs =
     res_bind (ok_or (u64_try (length bs)) ReputationBlockWireTooLarge) (\<lambda>n.
       res_bind (wire_put_u64 out n) (\<lambda>out. put_fixed out bs))"

definition wire_put_node_id :: "byte list \<Rightarrow> node_id \<Rightarrow> por_error + byte list" where
  "wire_put_node_id out n =
     (if length (node_bytes n) > MAX_REPUTATION_BLOCK_NODE_ID_LEN then Inl ReputationBlockWireTooLarge
      else wire_put_bytes out (node_bytes n))"

definition wire_put_count :: "byte list \<Rightarrow> nat \<Rightarrow> por_error + byte list" where
  "wire_put_count out n =
     (if n > MAX_REPUTATION_BLOCK_ENTRIES then Inl ReputationBlockWireTooLarge
      else res_bind (ok_or (u64_try n) ReputationBlockWireTooLarge) (wire_put_u64 out))"

definition wire_put_entry :: "byte list \<Rightarrow> reputation_entry \<Rightarrow> por_error + byte list" where
  "wire_put_entry out e =
     res_bind (wire_put_node_id out (entry_node e)) (\<lambda>out.
     res_bind (wire_put_u64 out (reputation e)) (\<lambda>out.
     res_bind (put_fixed out [if is_excluded e then 1 else 0]) (\<lambda>out.
     wire_put_u64 out (retained_reputation e))))"

definition wire_put_list :: "byte list \<Rightarrow> reputation_list \<Rightarrow> por_error + byte list" where
  "wire_put_list out l =
     res_bind (validate_reputation_entries (entries l)) (\<lambda>_.
     res_bind (wire_put_u64 out (list_round l)) (\<lambda>out.
     res_bind (wire_put_count out (length (entries l))) (\<lambda>out.
     res_fold wire_put_entry out (entries l))))"

definition wire_put_checkpoint :: "byte list \<Rightarrow> source_checkpoint option \<Rightarrow> por_error + byte list" where
  "wire_put_checkpoint out cp =
     (case cp of None \<Rightarrow> Inr out
      | Some src \<Rightarrow> res_bind (wire_put_u64 out (finalized_prefix_len src)) (\<lambda>out. put_fixed out (finalized_prefix_hash src)))"

definition wire_put_previous :: "byte list \<Rightarrow> byte list option \<Rightarrow> por_error + byte list" where
  "wire_put_previous out prev =
     (case prev of None \<Rightarrow> put_fixed out [0] | Some h \<Rightarrow> res_bind (put_fixed out [1]) (\<lambda>out. put_fixed out h))"

definition encode_reputation_block_payload :: "hasher \<Rightarrow> reputation_block \<Rightarrow> por_error + byte list" where
  "encode_reputation_block_payload hash b =
     res_bind (validate_reputation_block hash b) (\<lambda>_.
     let h = header b in
     res_bind (put_fixed [] (u16_be (version h))) (\<lambda>out.
     res_bind (wire_put_bytes out (shard_id h)) (\<lambda>out.
     res_bind (wire_put_u64 out (source_finalized_wave h)) (\<lambda>out.
     res_bind (wire_put_u64 out (header_round h)) (\<lambda>out.
     res_bind (wire_put_checkpoint out (header_checkpoint h)) (\<lambda>out.
     res_bind (wire_put_previous out (previous_hash h)) (\<lambda>out.
     res_bind (put_fixed out (config_hash h)) (\<lambda>out.
     res_bind (put_fixed out (ratings_hash h)) (\<lambda>out.
     res_bind (put_fixed out (penalties_hash h)) (\<lambda>out.
     res_bind (put_fixed out (reputation_root h)) (\<lambda>out.
     wire_put_list out (block_list b))))))))))))"

definition reputation_block_checksum :: "hasher \<Rightarrow> nat \<Rightarrow> nat \<Rightarrow> byte list \<Rightarrow> byte list" where
  "reputation_block_checksum hash ver len pl =
     hash ((if ver = REPUTATION_BLOCK_VERSION then REPUTATION_BLOCK_CHECKSUM_DOMAIN else CHECKPOINT_REPUTATION_BLOCK_CHECKSUM_DOMAIN) @
       POR_REPUTATION_BLOCK_MAGIC @ u16_be ver @ u64_be len @ pl)"

definition encode_reputation_block :: "hasher \<Rightarrow> reputation_block \<Rightarrow> por_error + byte list" where
  "encode_reputation_block hash b =
     res_bind (encode_reputation_block_payload hash b) (\<lambda>pl.
     res_bind (ok_or (u64_try (length pl)) ReputationBlockWireTooLarge) (\<lambda>len.
     Inr (POR_REPUTATION_BLOCK_MAGIC @ u16_be (version (header b)) @ u64_be len @ pl @
       reputation_block_checksum hash (version (header b)) len pl)))"

section \<open>Readers\<close>

definition pr_u16 :: "'e \<Rightarrow> ('e, nat) wire_reader" where
  "pr_u16 malformed = pr_bind (pr_take malformed 2) (\<lambda>bs. pr_return (le_value (rev bs)))"

definition pr_count :: "por_error \<Rightarrow> por_error \<Rightarrow> nat por_reader" where
  "pr_count malformed too_large =
     pr_bind (pr_number malformed) (\<lambda>n. if n > MAX_REPUTATION_BLOCK_ENTRIES then pr_fail too_large else pr_return n)"

definition pr_node_id :: "por_error \<Rightarrow> por_error \<Rightarrow> node_id por_reader" where
  "pr_node_id malformed too_large =
     pr_bind (pr_field malformed too_large MAX_REPUTATION_BLOCK_NODE_ID_LEN) (\<lambda>bs. pr_return (NodeId bs))"

definition pr_discriminant :: "'e \<Rightarrow> ('e, bool) wire_reader" where
  "pr_discriminant malformed =
     pr_bind (pr_take malformed 1) (\<lambda>bs. if hd bs = 0 then pr_return False else if hd bs = 1 then pr_return True else pr_fail malformed)"

fun pr_repeat :: "('e, 'a) wire_reader \<Rightarrow> nat \<Rightarrow> ('e, 'a list) wire_reader" where
  "pr_repeat rd 0 = pr_return []"
| "pr_repeat rd (Suc n) = pr_bind rd (\<lambda>x. pr_bind (pr_repeat rd n) (\<lambda>xs. pr_return (x # xs)))"

definition pr_entry :: "por_error \<Rightarrow> por_error \<Rightarrow> reputation_entry por_reader" where
  "pr_entry malformed too_large =
     pr_bind (pr_node_id malformed too_large) (\<lambda>n.
     pr_bind (pr_number malformed) (\<lambda>r.
     pr_bind (pr_discriminant malformed) (\<lambda>x.
     pr_bind (pr_number malformed) (\<lambda>k.
     pr_return \<lparr>entry_node = n, reputation = r, retained_reputation = k, is_excluded = x\<rparr>))))"

definition decode_reputation_list :: "por_error \<Rightarrow> por_error \<Rightarrow> reputation_list por_reader" where
  "decode_reputation_list malformed too_large =
     pr_bind (pr_number malformed) (\<lambda>rnd.
     pr_bind (pr_count malformed too_large) (\<lambda>n.
     pr_bind (pr_repeat (pr_entry malformed too_large) n) (\<lambda>es s.
     res_bind (validate_reputation_entries es) (\<lambda>_. Inr (\<lparr>list_round = rnd, entries = es\<rparr>, s)))))"

definition pr_checkpoint :: "nat \<Rightarrow> nat \<Rightarrow> source_checkpoint option por_reader" where
  "pr_checkpoint ver rnd =
     (if ver = REPUTATION_BLOCK_VERSION then pr_return None
      else if ver = CHECKPOINT_REPUTATION_BLOCK_VERSION
      then pr_bind (pr_number MalformedReputationBlockWire) (\<lambda>len.
        pr_bind (pr_take MalformedReputationBlockWire 32) (\<lambda>h.
        pr_return (Some \<lparr>src_round = rnd, finalized_prefix_len = len, finalized_prefix_hash = h\<rparr>)))
      else pr_fail (UnsupportedReputationBlockVersion ver))"

definition pr_previous :: "byte list option por_reader" where
  "pr_previous = pr_bind (pr_discriminant MalformedReputationBlockWire) (\<lambda>x.
     if x then pr_bind (pr_take MalformedReputationBlockWire 32) (\<lambda>h. pr_return (Some h)) else pr_return None)"

definition pr_block :: "reputation_block por_reader" where
  "pr_block =
     pr_bind (pr_u16 MalformedReputationBlockWire) (\<lambda>ver.
     pr_bind (pr_field MalformedReputationBlockWire ReputationBlockWireTooLarge MAX_REPUTATION_BLOCK_SHARD_ID_LEN) (\<lambda>shard.
     pr_bind (pr_number MalformedReputationBlockWire) (\<lambda>wave.
     pr_bind (pr_number MalformedReputationBlockWire) (\<lambda>rnd.
     pr_bind (pr_checkpoint ver rnd) (\<lambda>cp.
     pr_bind pr_previous (\<lambda>prev.
     pr_bind (pr_take MalformedReputationBlockWire 32) (\<lambda>ch.
     pr_bind (pr_take MalformedReputationBlockWire 32) (\<lambda>rh.
     pr_bind (pr_take MalformedReputationBlockWire 32) (\<lambda>ph.
     pr_bind (pr_take MalformedReputationBlockWire 32) (\<lambda>root.
     pr_bind (decode_reputation_list MalformedReputationBlockWire ReputationBlockWireTooLarge) (\<lambda>l.
     pr_return \<lparr>header = \<lparr>version = ver, shard_id = shard, source_finalized_wave = wave, header_checkpoint = cp, header_round = rnd,
         previous_hash = prev, config_hash = ch, ratings_hash = rh, penalties_hash = ph, reputation_root = root\<rparr>,
       block_list = l\<rparr>)))))))))))"

definition decode_reputation_block_payload :: "hasher \<Rightarrow> byte list \<Rightarrow> por_error + reputation_block" where
  "decode_reputation_block_payload hash bytes =
     (if length bytes > MAX_REPUTATION_BLOCK_PAYLOAD_LEN then Inl ReputationBlockWireTooLarge
      else res_bind (pr_block bytes) (\<lambda>(b, rest).
        if rest \<noteq> [] then Inl MalformedReputationBlockWire
        else res_bind (validate_reputation_block hash b) (\<lambda>_. Inr b)))"

definition decode_reputation_block :: "hasher \<Rightarrow> byte list \<Rightarrow> por_error + reputation_block" where
  "decode_reputation_block hash bytes =
     (if length bytes > MAX_REPUTATION_BLOCK_WIRE_LEN then Inl ReputationBlockWireTooLarge
      else if length bytes < FIXED_ENVELOPE_LEN then Inl MalformedReputationBlockWire
      else res_bind (pr_take MalformedReputationBlockWire 17 bytes) (\<lambda>(magic, s).
      if magic \<noteq> POR_REPUTATION_BLOCK_MAGIC then Inl MalformedReputationBlockWire else
      res_bind (pr_u16 MalformedReputationBlockWire s) (\<lambda>(ver, s).
      if ver \<noteq> 2 \<and> ver \<noteq> 3 then Inl (UnsupportedReputationBlockWireVersion ver) else
      res_bind (pr_number MalformedReputationBlockWire s) (\<lambda>(len, s).
      if len > MAX_REPUTATION_BLOCK_PAYLOAD_LEN then Inl ReputationBlockWireTooLarge
      else if length s \<noteq> len + 32 then Inl MalformedReputationBlockWire else
      res_bind (pr_take MalformedReputationBlockWire len s) (\<lambda>(pl, s).
      res_bind (pr_take MalformedReputationBlockWire 32 s) (\<lambda>(checksum, s).
      if checksum \<noteq> reputation_block_checksum hash ver len pl then Inl ReputationBlockWireChecksumMismatch else
      res_bind (decode_reputation_block_payload hash pl) (\<lambda>b.
      if version (header b) \<noteq> ver then Inl MalformedReputationBlockWire else Inr b)))))))"

section \<open>Snapshots\<close>

definition snap_put_node_id :: "byte list \<Rightarrow> node_id \<Rightarrow> por_error + byte list" where
  "snap_put_node_id out n =
     (if length (node_bytes n) > MAX_REPUTATION_BLOCK_NODE_ID_LEN then Inl ReputationStateSnapshotTooLarge
      else res_bind (ok_or (u64_try (length (node_bytes n))) ReputationStateSnapshotTooLarge) (\<lambda>len.
        Inr (out @ u64_be len @ node_bytes n)))"

definition snap_put_count :: "byte list \<Rightarrow> nat \<Rightarrow> por_error + byte list" where
  "snap_put_count out n =
     (if n > MAX_REPUTATION_BLOCK_ENTRIES then Inl ReputationStateSnapshotTooLarge
      else res_bind (ok_or (u64_try n) ReputationStateSnapshotTooLarge) (\<lambda>n. Inr (out @ u64_be n)))"

definition snap_put_entry :: "byte list \<Rightarrow> reputation_entry \<Rightarrow> por_error + byte list" where
  "snap_put_entry out e =
     res_bind (snap_put_node_id out (entry_node e)) (\<lambda>out.
       Inr (out @ u64_be (reputation e) @ [if is_excluded e then 1 else 0] @ u64_be (retained_reputation e)))"

definition snap_put_list :: "byte list \<Rightarrow> reputation_list \<Rightarrow> por_error + byte list" where
  "snap_put_list out l =
     res_bind (validate_reputation_entries (entries l)) (\<lambda>_.
     res_bind (snap_put_count (out @ u64_be (list_round l)) (length (entries l))) (\<lambda>out.
     res_fold snap_put_entry out (entries l)))"

definition map_reputation_block_wire_error :: "por_error \<Rightarrow> por_error" where
  "map_reputation_block_wire_error e =
     (case e of ReputationBlockWireTooLarge \<Rightarrow> ReputationStateSnapshotTooLarge
      | MalformedReputationBlockWire \<Rightarrow> MalformedReputationStateSnapshot
      | UnsupportedReputationBlockWireVersion _ \<Rightarrow> MalformedReputationStateSnapshot
      | ReputationBlockWireChecksumMismatch \<Rightarrow> MalformedReputationStateSnapshot
      | other \<Rightarrow> other)"

definition snapshot_version :: "reputation_state \<Rightarrow> nat" where
  "snapshot_version st =
     (case latest_block st of
        Some b \<Rightarrow> if version (header b) = CHECKPOINT_REPUTATION_BLOCK_VERSION then 3 else 2
      | None \<Rightarrow> 2)"

definition snapshot_checksum :: "hasher \<Rightarrow> nat \<Rightarrow> nat \<Rightarrow> byte list \<Rightarrow> byte list" where
  "snapshot_checksum hash ver len pl =
     hash ((if ver = 2 then SNAPSHOT_CHECKSUM_DOMAIN else CHECKPOINT_SNAPSHOT_CHECKSUM_DOMAIN) @
       POR_STATE_SNAPSHOT_MAGIC @ u16_be ver @ u64_be len @ pl)"

definition snap_put_block :: "hasher \<Rightarrow> byte list \<Rightarrow> reputation_block option \<Rightarrow> por_error + byte list" where
  "snap_put_block hash out block =
     (case block of None \<Rightarrow> Inr (out @ [0])
      | Some b \<Rightarrow>
          res_bind (map_err map_reputation_block_wire_error (encode_reputation_block_payload hash b)) (\<lambda>encoded.
          res_bind (ok_or (checked_add 64 (length out + 1) (length encoded)) ReputationStateSnapshotTooLarge) (\<lambda>next_len.
          if next_len > MAX_REPUTATION_STATE_SNAPSHOT_LEN - FIXED_ENVELOPE_LEN then Inl ReputationStateSnapshotTooLarge
          else Inr (out @ [1] @ encoded))))"

definition encode_reputation_state_snapshot :: "hasher \<Rightarrow> reputation_state \<Rightarrow> por_error + byte list" where
  "encode_reputation_state_snapshot hash st =
     res_bind (validate_snapshot_invariants hash st) (\<lambda>_.
     res_bind (snap_put_list (u64_be (current_round st)) (st_list st)) (\<lambda>out.
     res_bind (snap_put_count out (length (excluded_keys st))) (\<lambda>out.
     res_bind (res_fold snap_put_node_id out (excluded_keys st)) (\<lambda>out.
     res_bind (snap_put_block hash out (latest_block st)) (\<lambda>pl.
     res_bind (ok_or (checked_add 64 FIXED_ENVELOPE_LEN (length pl)) ReputationStateSnapshotTooLarge) (\<lambda>total_len.
     if total_len > MAX_REPUTATION_STATE_SNAPSHOT_LEN then Inl ReputationStateSnapshotTooLarge else
     res_bind (ok_or (u64_try (length pl)) ReputationStateSnapshotTooLarge) (\<lambda>len.
     Inr (POR_STATE_SNAPSHOT_MAGIC @ u16_be (snapshot_version st) @ u64_be len @ pl @
       snapshot_checksum hash (snapshot_version st) len pl))))))))"

text \<open>The loop over the registry: each key must exceed the one before it.\<close>

fun pr_excluded :: "nat \<Rightarrow> node_id list \<Rightarrow> node_id list por_reader" where
  "pr_excluded 0 acc = pr_return acc"
| "pr_excluded (Suc n) acc =
     pr_bind (pr_node_id MalformedReputationStateSnapshot ReputationStateSnapshotTooLarge) (\<lambda>k.
       if acc \<noteq> [] \<and> last acc \<ge> k then pr_fail ReputationStateSnapshotExclusionMismatch
       else pr_excluded n (acc @ [k]))"

definition pr_latest_block :: "hasher \<Rightarrow> reputation_block option por_reader" where
  "pr_latest_block hash =
     pr_bind (pr_discriminant MalformedReputationStateSnapshot) (\<lambda>x s.
       if x then res_bind (pr_take MalformedReputationStateSnapshot (length s) s) (\<lambda>(encoded, s).
         res_bind (map_err map_reputation_block_wire_error (decode_reputation_block_payload hash encoded)) (\<lambda>b. Inr (Some b, s)))
       else Inr (None, s))"

definition pr_snapshot :: "hasher \<Rightarrow> (nat \<times> reputation_list \<times> node_id list \<times> reputation_block option) por_reader" where
  "pr_snapshot hash =
     pr_bind (pr_number MalformedReputationStateSnapshot) (\<lambda>rnd.
     pr_bind (decode_reputation_list MalformedReputationStateSnapshot ReputationStateSnapshotTooLarge) (\<lambda>l.
     pr_bind (pr_count MalformedReputationStateSnapshot ReputationStateSnapshotTooLarge) (\<lambda>n.
     pr_bind (pr_excluded n []) (\<lambda>excluded.
     pr_bind (pr_latest_block hash) (\<lambda>block.
     pr_return (rnd, l, excluded, block))))))"

definition snapshot_version_matches :: "nat \<Rightarrow> reputation_block option \<Rightarrow> bool" where
  "snapshot_version_matches ver block =
     (case block of None \<Rightarrow> ver = 2
      | Some b \<Rightarrow> ver = 2 \<and> version (header b) = REPUTATION_BLOCK_VERSION \<or> ver = 3 \<and> version (header b) = CHECKPOINT_REPUTATION_BLOCK_VERSION)"

definition decode_reputation_state_snapshot :: "hasher \<Rightarrow> byte list \<Rightarrow> por_error + reputation_state" where
  "decode_reputation_state_snapshot hash bytes =
     (if length bytes > MAX_REPUTATION_STATE_SNAPSHOT_LEN then Inl ReputationStateSnapshotTooLarge
      else if length bytes < FIXED_ENVELOPE_LEN then Inl MalformedReputationStateSnapshot
      else res_bind (pr_take MalformedReputationStateSnapshot 17 bytes) (\<lambda>(magic, s).
      if magic \<noteq> POR_STATE_SNAPSHOT_MAGIC then Inl MalformedReputationStateSnapshot else
      res_bind (pr_u16 MalformedReputationStateSnapshot s) (\<lambda>(ver, s).
      if ver \<noteq> 2 \<and> ver \<noteq> 3 then Inl (UnsupportedReputationStateSnapshotVersion ver) else
      res_bind (pr_number MalformedReputationStateSnapshot s) (\<lambda>(len, s).
      if len > MAX_REPUTATION_STATE_SNAPSHOT_LEN - FIXED_ENVELOPE_LEN \<or> length s \<noteq> len + 32
      then Inl MalformedReputationStateSnapshot else
      res_bind (pr_take MalformedReputationStateSnapshot len s) (\<lambda>(pl, s).
      res_bind (pr_take MalformedReputationStateSnapshot 32 s) (\<lambda>(checksum, s).
      if checksum \<noteq> snapshot_checksum hash ver len pl then Inl ReputationStateSnapshotChecksumMismatch else
      res_bind (pr_snapshot hash pl) (\<lambda>((rnd, l, excluded, block), rest).
      if rest \<noteq> [] then Inl MalformedReputationStateSnapshot
      else if \<not> snapshot_version_matches ver block then Inl ReputationStateSnapshotBlockVersionMismatch
      else from_snapshot_parts hash rnd l excluded block)))))))"

end
