(* ===== verification/Por_State_Proofs.thy ===== *)
theory Por_State_Proofs
  imports Por_State
begin

text \<open>
  The invariant of the reputation state and the permanence of ejection, by rule induction over the successful
  mutations, and the exported weights in closed form.
\<close>

section \<open>The invariant\<close>

definition state_inv :: "reputation_state \<Rightarrow> bool" where
  "state_inv st \<longleftrightarrow> list_round (st_list st) = current_round st \<and> valid_entries (entries (st_list st)) \<and>
     sorted_wrt (<) (excluded_keys st) \<and> (\<forall>e \<in> set (entries (st_list st)). is_excluded e \<longleftrightarrow> entry_node e \<in> set (excluded_keys st)) \<and>
     set (excluded_keys st) \<subseteq> nodes_of (entries (st_list st))"

lemma state_invI:
  assumes "list_round (st_list st) = current_round st" "valid_entries (entries (st_list st))" "sorted_wrt (<) (excluded_keys st)"
    and "\<And>e. e \<in> set (entries (st_list st)) \<Longrightarrow> is_excluded e \<longleftrightarrow> entry_node e \<in> set (excluded_keys st)"
    and "set (excluded_keys st) \<subseteq> nodes_of (entries (st_list st))"
  shows "state_inv st"
  using assms by (simp add: state_inv_def)

lemma state_invD:
  assumes "state_inv st"
  shows "list_round (st_list st) = current_round st" "valid_entries (entries (st_list st))" "sorted_wrt (<) (excluded_keys st)"
    "\<And>e. e \<in> set (entries (st_list st)) \<Longrightarrow> is_excluded e \<longleftrightarrow> entry_node e \<in> set (excluded_keys st)"
    "set (excluded_keys st) \<subseteq> nodes_of (entries (st_list st))" "ascending (entries (st_list st))"
  using assms by (simp_all add: state_inv_def valid_entries_def)

lemma new_state_inv: "state_inv (new_state rnd)"
  by (simp add: state_inv_def new_state_def valid_entries_def)

lemma add_rating_inv: "state_inv st \<Longrightarrow> state_inv (add_rating r st)"
  by (simp add: state_inv_def add_rating_def)

lemma with_entries_fields [simp]:
  "current_round (with_entries st es) = current_round st" "entries (st_list (with_entries st es)) = es"
  "list_round (st_list (with_entries st es)) = list_round (st_list st)" "excluded_keys (with_entries st es) = excluded_keys st"
  by (simp_all add: with_entries_def)

lemma nodes_map: "(\<And>e. entry_node (f e) = entry_node e) \<Longrightarrow> nodes_of (map f es) = nodes_of es"
  by (simp add: image_image)

lemma ascending_insert:
  assumes "ascending es" "\<forall>e \<in> set (take i es). entry_node e < entry_node x" "\<forall>e \<in> set (drop i es). entry_node x < entry_node e"
  shows "ascending (take i es @ x # drop i es)"
proof -
  have "sorted_wrt (<) (map entry_node (take i es) @ map entry_node (drop i es))" using assms(1) by (simp flip: map_append)
  then show ?thesis using assms(2,3) unfolding map_append list.map sorted_wrt_append sorted_wrt.simps by auto
qed

lemma set_insert_at: "set (take i es @ x # drop i es) = insert x (set es)"
proof -
  have "set es = set (take i es) \<union> set (drop i es)" using set_append [of "take i es" "drop i es"] by simp
  then show ?thesis by simp
qed

lemma sorted_insort_insert_strict: "sorted_wrt (<) xs \<Longrightarrow> sorted_wrt (<) (insort_insert (k :: 'k::linorder) xs)"
  by (auto simp: strict_sorted_iff sorted_insort_insert distinct_insort_insert)

lemma set_reputation_inv:
  assumes "state_inv st"
  shows "state_inv (set_reputation n r st)"
proof (cases "n \<in> set (excluded_keys st)")
  case True
  then show ?thesis using assms by (simp add: set_reputation_def)
next
  case False
  note inv = state_invD [OF assms]
  let ?es = "entries (st_list st)"
  show ?thesis
  proof (cases "binary_search entry_node ?es n")
    case (Inr i)
    then have i: "i < length ?es" "entry_node (?es ! i) = n" using binary_search_found [OF inv(6)] by auto
    have eq: "set_reputation n r st = with_entries st (map (\<lambda>e. if entry_node e = n then e\<lparr>reputation := r\<rparr> else e) ?es)"
      using False Inr update_nth_by_node [OF inv(6) i, of "\<lambda>e. e\<lparr>reputation := r\<rparr>"] by (simp add: set_reputation_def)
    show ?thesis unfolding eq
      by (rule state_invI; use False inv in \<open>auto simp: valid_entries_def entry_valid_def comp_def if_distrib [of entry_node] cong: if_cong\<close>)
  next
    case (Inl i)
    note m = binary_search_missing [OF inv(6) Inl]
    have eq: "set_reputation n r st = with_entries st (take i ?es @ new_entry n r # drop i ?es)"
      using False Inl by (simp add: set_reputation_def Let_def)
    have asc: "ascending (take i ?es @ new_entry n r # drop i ?es)"
      by (rule ascending_insert [OF inv(6)]) (use m(2,3) in \<open>simp_all add: new_entry_def\<close>)
    have s: "set (take i ?es @ new_entry n r # drop i ?es) = insert (new_entry n r) (set ?es)"
      by (rule set_insert_at)
    show ?thesis unfolding eq
      by (rule state_invI; unfold with_entries_fields valid_entries_def s)
        (use False inv asc in \<open>auto simp: valid_entries_def entry_valid_def new_entry_def\<close>)
  qed
qed

lemma eject_validator_inv:
  assumes "state_inv st" "eject_validator n st = Inr st'"
  shows "state_inv st'" "set (excluded_keys st') = insert n (set (excluded_keys st))"
proof -
  note inv = state_invD [OF assms(1)]
  let ?es = "entries (st_list st)"
  have "state_inv st' \<and> set (excluded_keys st') = insert n (set (excluded_keys st))"
  proof (cases "n \<in> set (excluded_keys st)")
    case True
    then show ?thesis using assms by (auto simp: eject_validator_def)
  next
    case False
    then obtain i where b: "binary_search entry_node ?es n = Inr i"
      using assms(2) by (auto simp: eject_validator_def Let_def split: sum.splits)
    then have i: "i < length ?es" "entry_node (?es ! i) = n" using binary_search_found [OF inv(6)] by auto
    let ?f = "\<lambda>e. if entry_node e = n then e\<lparr>is_excluded := True, reputation := 0\<rparr> else e"
    have st': "st' = (with_entries st (map ?f ?es))\<lparr>excluded_keys := insort_insert n (excluded_keys st)\<rparr>"
      using assms(2) False b update_nth_by_node [OF inv(6) i, of "\<lambda>e. e\<lparr>is_excluded := True, reputation := 0\<rparr>"]
      by (auto simp: eject_validator_def Let_def)
    have n: "n \<in> nodes_of ?es" using i by (auto simp: image_iff intro!: bexI [of _ "?es ! i"])
    have nodes: "nodes_of (map ?f ?es) = nodes_of ?es" by (rule nodes_map) simp
    have "state_inv st'"
    proof (rule state_invI)
      show "set (excluded_keys st') \<subseteq> nodes_of (entries (st_list st'))"
        using inv(5) n nodes by (simp add: st' with_entries_def set_insort_insert)
      show "sorted_wrt (<) (excluded_keys st')" using inv(3) by (simp add: st' sorted_insort_insert_strict)
    qed (use inv in \<open>auto simp: st' with_entries_def valid_entries_def entry_valid_def comp_def set_insort_insert
        if_distrib [of entry_node] cong: if_cong\<close>)
    then show ?thesis by (simp add: st' set_insort_insert)
  qed
  then show "state_inv st'" "set (excluded_keys st') = insert n (set (excluded_keys st))" by simp_all
qed

lemma retained_of_eq: "ascending es \<Longrightarrow> retained_of es n = (case entry_of es n of None \<Rightarrow> 0 | Some e \<Rightarrow> retained_reputation e)"
  by (simp add: retained_of_def search_entry_eq)

lemma reapply_fields [simp]: "entry_node (reapply_ejection ks old e) = entry_node e"
  by (simp add: reapply_ejection_def)

abbreviation tombstone :: "reputation_entry list \<Rightarrow> node_id \<Rightarrow> reputation_entry" where
  "tombstone old n \<equiv> (ejected_entry n)\<lparr>retained_reputation := retained_of old n\<rparr>"

lemma dropWhile_above:
  assumes "ascending es" "n \<notin> nodes_of es" "e \<in> set (dropWhile (\<lambda>e. entry_node e < n) es)"
  shows "n < entry_node e"
  using assms
proof (induction es)
  case (Cons x xs)
  show ?case
  proof (cases "entry_node x < n")
    case True
    then show ?thesis using Cons by simp
  next
    case False
    then have "n < entry_node x" using Cons.prems(2) by (auto simp: not_less order_less_le)
    moreover have "entry_node x \<le> entry_node e" using Cons.prems(1,3) False by (auto simp: less_imp_le)
    ultimately show ?thesis by (rule less_le_trans)
  qed
qed simp

lemma insert_tombstone_spec:
  assumes "ascending es"
  shows "ascending (insert_tombstone old es n)"
    "set (insert_tombstone old es n) = (if n \<in> nodes_of es then set es else insert (tombstone old n) (set es))"
proof -
  have "ascending (insert_tombstone old es n) \<and>
    set (insert_tombstone old es n) = (if n \<in> nodes_of es then set es else insert (tombstone old n) (set es))"
  proof (cases "binary_search entry_node es n")
    case (Inr i)
    then have "n \<in> nodes_of es" using binary_search_found [OF assms] by (auto simp: image_iff intro!: bexI [of _ "es ! i"])
    then show ?thesis using Inr assms by (simp add: insert_tombstone_def)
  next
    case (Inl k)
    have n: "n \<notin> nodes_of es" using search_entry_eq [OF assms, of n] Inl by (simp add: search_entry_def entry_of_None [symmetric])
    let ?i = "partition_point (\<lambda>e. entry_node e < n) es"
    have t: "take ?i es = takeWhile (\<lambda>e. entry_node e < n) es" "drop ?i es = dropWhile (\<lambda>e. entry_node e < n) es"
      by (simp_all add: partition_point_def takeWhile_eq_take [symmetric] dropWhile_eq_drop [symmetric])
    have lo: "\<forall>e \<in> set (take ?i es). entry_node e < n" unfolding t by (auto dest: set_takeWhileD)
    have hi: "\<forall>e \<in> set (drop ?i es). n < entry_node e"
    proof -
      have "n < entry_node e" if "e \<in> set (dropWhile (\<lambda>e. entry_node e < n) es)" for e
        using dropWhile_above [OF assms n that] .
      then show ?thesis unfolding t by blast
    qed
    have eq: "insert_tombstone old es n = take ?i es @ tombstone old n # drop ?i es" using Inl by (simp add: insert_tombstone_def Let_def)
    have tn: "entry_node (tombstone old n) = n" by (simp add: ejected_entry_def)
    have "ascending (insert_tombstone old es n)" unfolding eq
    proof (rule ascending_insert [OF assms])
      show "\<forall>e \<in> set (take ?i es). entry_node e < entry_node (tombstone old n)" unfolding tn by (rule lo)
      show "\<forall>e \<in> set (drop ?i es). entry_node (tombstone old n) < entry_node e" unfolding tn by (rule hi)
    qed
    moreover have "set (insert_tombstone old es n) = insert (tombstone old n) (set es)" unfolding eq
      by (rule set_insert_at)
    ultimately show ?thesis using n by simp
  qed
  then show "ascending (insert_tombstone old es n)"
    "set (insert_tombstone old es n) = (if n \<in> nodes_of es then set es else insert (tombstone old n) (set es))" by simp_all
qed

lemma tombstones_spec:
  "ascending es \<Longrightarrow> distinct ks \<Longrightarrow> ascending (foldl (insert_tombstone old) es ks) \<and>
     set (foldl (insert_tombstone old) es ks) = set es \<union> tombstone old ` (set ks - nodes_of es)"
proof (induction ks arbitrary: es)
  case (Cons k ks)
  note t = insert_tombstone_spec [OF Cons.prems(1), of old k]
  have "set ks - nodes_of (insert_tombstone old es k) = set ks - nodes_of es"
    using Cons.prems(2) t(2) by (auto simp: ejected_entry_def)
  then show ?case using Cons.IH [OF t(1)] Cons.prems(2) t(2) by auto
qed simp

lemma apply_vector_ok:
  assumes "state_inv st" "apply_reputation_vector v st = Inr st'"
  shows "state_inv st'" "excluded_keys st' = excluded_keys st" "current_round st' = vec_round v" "latest_block st' = latest_block st"
proof -
  note inv = state_invD [OF assms(1)]
  let ?old = "entries (st_list st)" and ?ks = "excluded_keys st"
  let ?new = "map (reapply_ejection ?ks ?old) (vec_values v)"
  have v: "valid_entries (vec_values v)" and x: "\<forall>e \<in> set (vec_values v). is_excluded e \<longrightarrow> entry_node e \<in> set ?ks"
    and st': "st' = st\<lparr>current_round := vec_round v, st_list := \<lparr>list_round = vec_round v, entries = foldl (insert_tombstone ?old) ?new ?ks\<rparr>\<rparr>"
    using assms(2) by (auto simp: apply_reputation_vector_def validate_reputation_vector_def res_bind_ok validate_entries_ok list_ex_iff Let_def split: if_splits)
  have "map entry_node ?new = map entry_node (vec_values v)" by simp
  then have asc: "ascending ?new" using v by (simp only: valid_entries_def)
  have d: "distinct ?ks" using inv(3) by (simp add: strict_sorted_iff)
  note t = tombstones_spec [OF asc d, of ?old]
  have s: "set (entries (st_list st')) = reapply_ejection ?ks ?old ` set (vec_values v) \<union> tombstone ?old ` (set ?ks - nodes_of ?new)"
    using t by (simp add: st')
  have re: "entry_valid (reapply_ejection ?ks ?old e) \<and> (is_excluded (reapply_ejection ?ks ?old e) \<longleftrightarrow> entry_node e \<in> set ?ks)"
    if "e \<in> set (vec_values v)" for e
    using that v x by (auto simp: reapply_ejection_def entry_valid_def valid_entries_def)
  show "state_inv st'"
  proof (rule state_invI)
    show "valid_entries (entries (st_list st'))"
      unfolding valid_entries_def s using t re by (auto simp: st' entry_valid_def ejected_entry_def)
    show "is_excluded e \<longleftrightarrow> entry_node e \<in> set (excluded_keys st')" if "e \<in> set (entries (st_list st'))" for e
      using that re unfolding s by (auto simp: st' ejected_entry_def)
    have "nodes_of (entries (st_list st')) = nodes_of ?new \<union> (set ?ks - nodes_of ?new)"
      unfolding s by (simp add: image_Un image_image ejected_entry_def)
    then show "set (excluded_keys st') \<subseteq> nodes_of (entries (st_list st'))" by (auto simp: st')
  qed (use inv in \<open>simp_all add: st'\<close>)
  show "excluded_keys st' = excluded_keys st" "current_round st' = vec_round v" "latest_block st' = latest_block st" by (simp_all add: st')
qed

section \<open>Audited blocks\<close>

lemma collect_excluded:
  "sorted_wrt (<) ks \<Longrightarrow> sorted_wrt (<) (foldl (\<lambda>ks e. if is_excluded e then insort_insert (entry_node e) ks else ks) ks es) \<and>
   set (foldl (\<lambda>ks e. if is_excluded e then insort_insert (entry_node e) ks else ks) ks es) =
     set ks \<union> entry_node ` {e \<in> set es. is_excluded e}"
  by (induction es arbitrary: ks) (auto simp: set_insort_insert sorted_insort_insert_strict)

lemma commit_inv:
  assumes "state_inv st" "scale cfg < 2 ^ 64"
    and r: "replay_reputation_transition_with_penalties hash (state_vector st) rs (list_round (block_list b)) cfg penalties = Inr (block_list b)"
  shows "state_inv (commit_audited_block b st)"
    "set (excluded_keys (commit_audited_block b st)) = set (excluded_keys st) \<union> offenders penalties \<inter> nodes_of (entries (block_list b))"
    "current_round (commit_audited_block b st) = current_round st + 1"
proof -
  note inv = state_invD [OF assms(1)] and k = replay_keeps [OF r assms(2)]
  let ?es = "entries (block_list b)" and ?st = "commit_audited_block b st"
  have asc: "ascending (entries (st_list st))" by (rule inv(6))
  have prevex: "(\<exists>q. entry_of (vec_values (state_vector st)) n = Some q \<and> is_excluded q) \<longleftrightarrow> n \<in> set (excluded_keys st)" for n
  proof
    assume "n \<in> set (excluded_keys st)"
    then obtain q where "q \<in> set (entries (st_list st))" "entry_node q = n" "is_excluded q" using inv(4,5) by blast
    then show "\<exists>q. entry_of (vec_values (state_vector st)) n = Some q \<and> is_excluded q"
      by (auto simp: state_vector_def entry_of_Some [OF asc])
  qed (use inv(4) in \<open>auto simp: state_vector_def entry_of_Some [OF asc]\<close>)
  have ex: "is_excluded e \<longleftrightarrow> entry_node e \<in> set (excluded_keys st) \<or> entry_node e \<in> offenders penalties" if "e \<in> set ?es" for e
    using k(5) [OF that] prevex by simp
  have sub: "set (excluded_keys st) \<subseteq> nodes_of ?es" using inv(5) k(4) by (auto simp: state_vector_def)
  note c = collect_excluded [OF inv(3), of ?es]
  show keys: "set (excluded_keys ?st) = set (excluded_keys st) \<union> offenders penalties \<inter> nodes_of ?es"
    using c ex sub by (auto simp: commit_audited_block_def)
  show "state_inv ?st"
  proof (rule state_invI)
    show "sorted_wrt (<) (excluded_keys ?st)" using c by (simp add: commit_audited_block_def)
    show "is_excluded e \<longleftrightarrow> entry_node e \<in> set (excluded_keys ?st)" if "e \<in> set (entries (st_list ?st))" for e
      using that ex [of e] unfolding keys by (auto simp: commit_audited_block_def)
    show "set (excluded_keys ?st) \<subseteq> nodes_of (entries (st_list ?st))"
      unfolding keys using sub by (auto simp: commit_audited_block_def)
  qed (use k(3) in \<open>simp_all add: commit_audited_block_def\<close>)
  show "current_round ?st = current_round st + 1" using k(2) by (simp add: commit_audited_block_def state_vector_def)
qed

section \<open>Reachable states\<close>

inductive por_step :: "hasher \<Rightarrow> reputation_state \<Rightarrow> reputation_state \<Rightarrow> bool" for hash where
  rating: "por_step hash st (add_rating r st)"
| assign: "por_step hash st (set_reputation n r st)"
| eject: "eject_validator n st = Inr st' \<Longrightarrow> por_step hash st st'"
| vector: "apply_reputation_vector v st = Inr st' \<Longrightarrow> por_step hash st st'"
| block: "scale cfg < 2 ^ 64 \<Longrightarrow> apply_reputation_block_with_penalties hash shard wave rs b cfg penalties st = Inr st' \<Longrightarrow> por_step hash st st'"
| checkpoint: "scale cfg < 2 ^ 64 \<Longrightarrow>
    apply_checkpoint_reputation_block_with_penalties hash shard src rs b cfg penalties st = Inr st' \<Longrightarrow> por_step hash st st'"

inductive por_reachable :: "hasher \<Rightarrow> reputation_state \<Rightarrow> bool" for hash where
  start: "por_reachable hash (new_state rnd)"
| step: "por_reachable hash st \<Longrightarrow> por_step hash st st' \<Longrightarrow> por_reachable hash st'"

lemma apply_block_ok:
  assumes "state_inv st" "scale cfg < 2 ^ 64" "apply_reputation_block_with_penalties hash shard wave rs b cfg penalties st = Inr st'"
  shows "st' = commit_audited_block b st" "state_inv st'" "set (excluded_keys st) \<subseteq> set (excluded_keys st')" "current_round st' = current_round st + 1"
proof -
  have st': "st' = commit_audited_block b st" and v: "verify_reputation_transition_with_penalties hash (state_vector st) rs b
         \<lparr>ctx_shard = shard, ctx_wave = wave, ctx_previous = latest_block st\<rparr> cfg penalties = Inr ()"
    using assms(3) by (auto simp: apply_reputation_block_with_penalties_def res_bind_ok)
  note c = commit_inv [OF assms(1,2) verified_list [OF v assms(2)]]
  show "st' = commit_audited_block b st" by (rule st')
  show "state_inv st'" "set (excluded_keys st) \<subseteq> set (excluded_keys st')" "current_round st' = current_round st + 1" using c st' by auto
qed

lemma apply_checkpoint_block_ok:
  assumes "state_inv st" "scale cfg < 2 ^ 64" "apply_checkpoint_reputation_block_with_penalties hash shard src rs b cfg penalties st = Inr st'"
  shows "st' = commit_audited_block b st" "state_inv st'" "set (excluded_keys st) \<subseteq> set (excluded_keys st')" "current_round st' = current_round st + 1"
proof -
  have st': "st' = commit_audited_block b st" and v: "verify_checkpoint_reputation_transition_with_penalties hash (state_vector st) rs b
         \<lparr>cctx_shard = shard, cctx_source = src, cctx_previous = latest_block st\<rparr> cfg penalties = Inr ()"
    using assms(3) by (auto simp: apply_checkpoint_reputation_block_with_penalties_def res_bind_ok)
  note c = commit_inv [OF assms(1,2) verified_checkpoint_list [OF v assms(2)]]
  show "st' = commit_audited_block b st" by (rule st')
  show "state_inv st'" "set (excluded_keys st) \<subseteq> set (excluded_keys st')" "current_round st' = current_round st + 1" using c st' by auto
qed

lemma set_reputation_keys [simp]: "excluded_keys (set_reputation n r st) = excluded_keys st"
  by (simp add: set_reputation_def Let_def split: sum.splits)

lemma step_inv: "por_step hash st st' \<Longrightarrow> state_inv st \<Longrightarrow> state_inv st'"
  by (induction rule: por_step.induct)
    (blast intro: add_rating_inv set_reputation_inv eject_validator_inv(1) apply_vector_ok(1) apply_block_ok(2) apply_checkpoint_block_ok(2))+

lemma step_ejected: "por_step hash st st' \<Longrightarrow> state_inv st \<Longrightarrow> set (excluded_keys st) \<subseteq> set (excluded_keys st')"
proof (induction rule: por_step.induct)
  case (eject n st st')
  then show ?case using eject_validator_inv(2) by blast
next
  case (vector v st st')
  then show ?case using apply_vector_ok(2) [of st v st'] by simp
qed (auto simp: add_rating_def dest: apply_block_ok(3) apply_checkpoint_block_ok(3))

lemma por_reachable_inv: "por_reachable hash st \<Longrightarrow> state_inv st"
  by (induction rule: por_reachable.induct) (auto intro: new_state_inv step_inv)

section \<open>Exported weights\<close>

definition voting_weight :: "reputation_state \<Rightarrow> node_id \<Rightarrow> nat" where
  "voting_weight st v = (if is_ejected st v then 0 else weight_in (entries (st_list st)) v)"

lemma weight_step_ok:
  assumes "state_inv st"
  shows "weight_step st (ws, t) v = Inr (ws', t') \<longleftrightarrow>
    (if v \<in> dom (map_of ws) then ws' = ws \<and> t' = t
     else v \<in> nodes_of (entries (st_list st)) \<and> ws' = AList.update v (voting_weight st v) ws \<and> t' = t + voting_weight st v \<and> t' < 2 ^ 128)"
proof (cases "v \<in> dom (map_of ws)")
  case True
  then show ?thesis by (auto simp: weight_step_def)
next
  case False
  note inv = state_invD [OF assms]
  then have "map_of ws v = None" using False by auto
  show ?thesis
  proof (cases "entry_of (entries (st_list st)) v")
    case None
    then show ?thesis using \<open>map_of ws v = None\<close> False entry_of_None [of "entries (st_list st)" v]
      by (simp add: weight_step_def search_entry_eq [OF inv(6)])
  next
    case (Some e)
    then have e: "e \<in> set (entries (st_list st))" "entry_node e = v" using entry_of_Some [OF inv(6)] by auto
    then have v: "v \<in> nodes_of (entries (st_list st))" by auto
    have "(if is_excluded e \<or> is_ejected st v then 0 else reputation e) = voting_weight st v"
      using inv(4) [OF e(1)] e(2) Some by (simp add: voting_weight_def is_ejected_def weight_in_def)
    then show ?thesis using \<open>map_of ws v = None\<close> False Some v
      by (auto simp: weight_step_def search_entry_eq [OF inv(6)] Let_def checked_add_def res_bind_ok ok_or_ok split: if_splits)
  qed
qed

lemma weight_fold_ok:
  assumes "state_inv st"
  shows "t < 2 ^ 128 \<Longrightarrow> res_fold (weight_step st) (ws, t) vs = Inr (ws', t') \<longleftrightarrow>
    (set vs - dom (map_of ws) \<subseteq> nodes_of (entries (st_list st)) \<and> t' = t + (\<Sum>v \<in> set vs - dom (map_of ws). voting_weight st v) \<and> t' < 2 ^ 128 \<and>
     ws' = fold (\<lambda>v ws. if v \<in> dom (map_of ws) then ws else AList.update v (voting_weight st v) ws) vs ws)"
proof (induction vs arbitrary: ws t)
  case (Cons v vs)
  show ?case
  proof (cases "v \<in> dom (map_of ws)")
    case True
    then have "set (v # vs) - dom (map_of ws) = set vs - dom (map_of ws)" by auto
    then show ?thesis using Cons True weight_step_ok [OF assms, of ws t v] by (auto simp: res_bind_ok)
  next
    case False
    let ?w = "voting_weight st v" and ?ws = "AList.update v (voting_weight st v) ws"
    have dom: "dom (map_of ?ws) = insert v (dom (map_of ws))" by (simp add: update_conv')
    have split: "set (v # vs) - dom (map_of ws) = insert v (set vs - dom (map_of ?ws))" using False dom by auto
    have sum: "(\<Sum>u \<in> set (v # vs) - dom (map_of ws). voting_weight st u) = ?w + (\<Sum>u \<in> set vs - dom (map_of ?ws). voting_weight st u)"
      unfolding split using dom by (subst sum.insert) auto
    have step: "res_fold (weight_step st) (ws, t) (v # vs) = Inr (ws', t') \<longleftrightarrow>
        v \<in> nodes_of (entries (st_list st)) \<and> t + ?w < 2 ^ 128 \<and> res_fold (weight_step st) (?ws, t + ?w) vs = Inr (ws', t')"
      using weight_step_ok [OF assms, of ws t v] False by (auto simp: res_bind_ok)
    show ?thesis
    proof (cases "t + ?w < 2 ^ 128")
      case True
      show ?thesis unfolding step Cons.IH [OF True] sum unfolding split using True False by auto
    next
      case over: False
      then show ?thesis unfolding step sum by auto
    qed
  qed
qed auto

lemma weight_fold_map:
  "map_of (fold (\<lambda>v ws. if v \<in> dom (map_of ws) then ws else AList.update v (f v) ws) vs ws) =
     (\<lambda>v. if v \<in> dom (map_of ws) then map_of ws v else if v \<in> set vs then Some (f v) else None)"
proof (induction vs arbitrary: ws)
  case (Cons v vs)
  then show ?case by (auto simp: fun_eq_iff update_conv' domIff)
qed (auto simp: fun_eq_iff domIff)

lemma authorized_weights_ok:
  assumes "state_inv st"
  shows "(\<exists>ws. authorized_validator_weights st vs = Inr ws) \<longleftrightarrow> vs \<noteq> [] \<and> set vs \<subseteq> nodes_of (entries (st_list st)) \<and>
      0 < (\<Sum>v \<in> set vs. voting_weight st v) \<and> (\<Sum>v \<in> set vs. voting_weight st v) < 2 ^ 128"
    "authorized_validator_weights st vs = Inr ws \<Longrightarrow>
      map_of ws v = (if v \<in> set vs then Some (voting_weight st v) else None)"
proof -
  have fold: "res_fold (weight_step st) ([], 0) vs = Inr (ws', t') \<longleftrightarrow>
    set vs \<subseteq> nodes_of (entries (st_list st)) \<and> t' = (\<Sum>v \<in> set vs. voting_weight st v) \<and> t' < 2 ^ 128 \<and>
     ws' = fold (\<lambda>v ws. if v \<in> dom (map_of ws) then ws else AList.update v (voting_weight st v) ws) vs []" for ws' t'
    using weight_fold_ok [OF assms, of 0 "[]" vs] by simp
  show "(\<exists>ws. authorized_validator_weights st vs = Inr ws) \<longleftrightarrow> vs \<noteq> [] \<and> set vs \<subseteq> nodes_of (entries (st_list st)) \<and>
      0 < (\<Sum>v \<in> set vs. voting_weight st v) \<and> (\<Sum>v \<in> set vs. voting_weight st v) < 2 ^ 128"
    by (auto simp: authorized_validator_weights_def res_bind_ok fold simp del: sum_eq_0_iff sum_nonneg_eq_0_iff split: if_splits)
  show "map_of ws v = (if v \<in> set vs then Some (voting_weight st v) else None)" if "authorized_validator_weights st vs = Inr ws"
  proof -
    have "ws = fold (\<lambda>v ws. if v \<in> dom (map_of ws) then ws else AList.update v (voting_weight st v) ws) vs []"
      using that by (auto simp: authorized_validator_weights_def res_bind_ok fold split: if_splits)
    then show ?thesis by (simp add: weight_fold_map)
  qed
qed

end
