(* ===== verification/Por_Wire_Proofs.thy ===== *)
theory Por_Wire_Proofs
  imports Por_Wire Por_State_Proofs
begin

text \<open>
  The readers and encoders of \<open>Por_Wire\<close> are exact inverses: a decoder accepts a byte string if and only if it is
  what the encoder produces for the decoded value.
\<close>

section \<open>The contract of a reader\<close>

locale wire_codec =
  fixes enc :: "'a \<Rightarrow> byte list" and rd :: "('e, 'a) wire_reader" and ok :: "'a \<Rightarrow> bool"
  assumes rd_iff: "rd s = Inr (x, r) \<longleftrightarrow> ok x \<and> s = enc x @ r"
begin

lemma read_back: "ok x \<Longrightarrow> rd (enc x @ r) = Inr (x, r)"
  by (simp add: rd_iff)

lemma repeat_iff: "pr_repeat rd n s = Inr (xs, r) \<longleftrightarrow> length xs = n \<and> (\<forall>x \<in> set xs. ok x) \<and> s = concat (map enc xs) @ r"
proof (induction n arbitrary: s xs)
  case 0
  then show ?case by (auto simp: pr_return_def)
next
  case (Suc n)
  show ?case
  proof (cases xs)
    case Nil
    then show ?thesis by (auto simp: pr_bind_def pr_return_def res_bind_ok)
  next
    case (Cons x ys)
    have "pr_repeat rd (Suc n) s = Inr (xs, r) \<longleftrightarrow> (\<exists>s'. rd s = Inr (x, s') \<and> pr_repeat rd n s' = Inr (ys, r))"
      by (auto simp: pr_bind_def pr_return_def res_bind_ok Cons)
    then show ?thesis unfolding rd_iff Suc.IH by (auto simp: Cons)
  qed
qed

end

lemma pr_bind_ok: "pr_bind m f s = Inr y \<longleftrightarrow> (\<exists>x s'. m s = Inr (x, s') \<and> f x s' = Inr y)"
  by (auto simp: pr_bind_def res_bind_ok)

lemma pr_return_ok: "pr_return x s = Inr (y, s') \<longleftrightarrow> y = x \<and> s' = s"
  by (auto simp: pr_return_def)

lemma pr_fail_ok: "pr_fail e s \<noteq> Inr y"
  by (simp add: pr_fail_def)

lemma pr_take_ok: "pr_take e n s = Inr (bs, r) \<longleftrightarrow> length bs = n \<and> s = bs @ r"
  by (auto simp: pr_take_def)

lemma u64_from_be_less: "length bs = 8 \<Longrightarrow> u64_from_be bs < 2 ^ 64"
  using le_value_less [of "rev bs"] by (simp add: u64_from_be_def)

lemma u64_be_from_be: "length bs = 8 \<Longrightarrow> u64_be (u64_from_be bs) = bs"
  using le_bytes_le_value [of "rev bs"] by (simp add: u64_from_be_def u64_be_def)

lemma pr_number_ok: "pr_number e s = Inr (n, r) \<longleftrightarrow> n < 2 ^ 64 \<and> s = u64_be n @ r"
proof
  assume "pr_number e s = Inr (n, r)"
  then obtain bs where "length bs = 8" "s = bs @ r" "n = u64_from_be bs"
    by (auto simp: pr_number_def pr_bind_ok pr_return_ok pr_take_ok)
  then show "n < 2 ^ 64 \<and> s = u64_be n @ r" using u64_from_be_less u64_be_from_be by simp
next
  assume "n < 2 ^ 64 \<and> s = u64_be n @ r"
  then show "pr_number e s = Inr (n, r)"
    using be.dec_enc [of n] be.enc_length [of n] by (auto simp: pr_number_def pr_bind_ok pr_return_ok pr_take_ok)
qed

lemma u16_be_from: "length bs = 2 \<Longrightarrow> u16_be (le_value (rev bs)) = bs"
  using le_bytes_le_value [of "rev bs"] by (simp add: u16_be_def)

lemma pr_u16_ok: "pr_u16 e s = Inr (n, r) \<longleftrightarrow> n < 2 ^ 16 \<and> s = u16_be n @ r"
proof
  assume "pr_u16 e s = Inr (n, r)"
  then obtain bs where b: "length bs = 2" "s = bs @ r" "n = le_value (rev bs)"
    by (auto simp: pr_u16_def pr_bind_ok pr_return_ok pr_take_ok)
  have "le_value (rev bs) < 2 ^ 16" using le_value_less [of "rev bs"] b(1) by simp
  then show "n < 2 ^ 16 \<and> s = u16_be n @ r" using b u16_be_from by simp
next
  assume "n < 2 ^ 16 \<and> s = u16_be n @ r"
  moreover have "le_value (rev (u16_be n)) = n mod 2 ^ 16" using le_value_le_bytes [of 2 n] by (simp add: u16_be_def)
  ultimately show "pr_u16 e s = Inr (n, r)" by (auto simp: pr_u16_def pr_bind_ok pr_return_ok pr_take_ok)
qed

lemma bounded_ok: "(if (n::nat) > mx then pr_fail t else rd n) s = Inr y \<longleftrightarrow> n \<le> mx \<and> rd n s = Inr y"
  by (simp add: pr_fail_ok not_less)

lemma pr_field_ok:
  assumes "mx < 2 ^ 64"
  shows "pr_field m t mx s = Inr (bs, r) \<longleftrightarrow> length bs \<le> mx \<and> s = put_bytes bs @ r"
proof -
  have "pr_field m t mx s = Inr (bs, r) \<longleftrightarrow> (\<exists>n s'. (n < 2 ^ 64 \<and> s = u64_be n @ s') \<and> n \<le> mx \<and> length bs = n \<and> s' = bs @ r)"
    unfolding pr_field_def pr_bind_ok pr_number_ok bounded_ok pr_take_ok by (rule refl)
  then show ?thesis using le_less_trans [OF _ assms, of "length bs"] unfolding put_bytes_def append_assoc by blast
qed

lemma pr_count_ok: "pr_count m t s = Inr (n, r) \<longleftrightarrow> n \<le> MAX_REPUTATION_BLOCK_ENTRIES \<and> s = u64_be n @ r"
proof -
  have mx: "MAX_REPUTATION_BLOCK_ENTRIES < 2 ^ 64" by (simp add: MAX_REPUTATION_BLOCK_ENTRIES_def)
  have "pr_count m t s = Inr (n, r) \<longleftrightarrow>
      (\<exists>k s'. (k < 2 ^ 64 \<and> s = u64_be k @ s') \<and> k \<le> MAX_REPUTATION_BLOCK_ENTRIES \<and> n = k \<and> r = s')"
    unfolding pr_count_def pr_bind_ok pr_number_ok bounded_ok pr_return_ok by (rule refl)
  then show ?thesis using le_less_trans [OF _ mx, of n] by blast
qed

definition node_short :: "node_id \<Rightarrow> bool" where
  "node_short n \<longleftrightarrow> length (node_bytes n) \<le> MAX_REPUTATION_BLOCK_NODE_ID_LEN"

lemma pr_node_id_ok: "pr_node_id m t s = Inr (n, r) \<longleftrightarrow> node_short n \<and> s = put_bytes (node_bytes n) @ r"
proof -
  have "MAX_REPUTATION_BLOCK_NODE_ID_LEN < 2 ^ 64" by (simp add: MAX_REPUTATION_BLOCK_NODE_ID_LEN_def)
  note f = pr_field_ok [OF this]
  show ?thesis by (cases n) (auto simp: pr_node_id_def pr_bind_ok f pr_return_ok node_short_def)
qed

lemma pr_discriminant_ok: "pr_discriminant m s = Inr (x, r) \<longleftrightarrow> s = (if x then 1 else 0) # r"
proof
  assume "pr_discriminant m s = Inr (x, r)"
  then obtain bs s' where "length bs = 1" "s = bs @ s'" "(if hd bs = 0 then pr_return False else if hd bs = 1 then pr_return True else pr_fail m) s' = Inr (x, r)"
    by (auto simp: pr_discriminant_def pr_bind_ok pr_take_ok)
  then show "s = (if x then 1 else 0) # r" by (cases bs) (auto simp: pr_return_ok pr_fail_ok split: if_splits)
next
  assume "s = (if x then 1 else 0) # r"
  then show "pr_discriminant m s = Inr (x, r)" by (cases x) (auto simp: pr_discriminant_def pr_bind_def pr_take_def pr_return_def)
qed

interpretation number_codec: wire_codec u64_be "pr_number m" "\<lambda>n. n < 2 ^ 64" for m
  by unfold_locales (rule pr_number_ok)

interpretation node_codec: wire_codec "\<lambda>n. put_bytes (node_bytes n)" "pr_node_id m t" node_short for m t
  by unfold_locales (rule pr_node_id_ok)

interpretation flag_codec: wire_codec "\<lambda>x. [if x then 1 else 0]" "pr_discriminant m" "\<lambda>_. True" for m
  by unfold_locales (simp add: pr_discriminant_ok)

definition entry_wire_ok :: "reputation_entry \<Rightarrow> bool" where
  "entry_wire_ok e \<longleftrightarrow> node_short (entry_node e) \<and> reputation e < 2 ^ 64 \<and> retained_reputation e < 2 ^ 64"

interpretation entry_codec: wire_codec entry_bytes "pr_entry m t" entry_wire_ok for m t
proof unfold_locales
  fix s e r
  show "pr_entry m t s = Inr (e, r) \<longleftrightarrow> entry_wire_ok e \<and> s = entry_bytes e @ r"
    by (cases e) (auto simp: pr_entry_def pr_bind_ok pr_node_id_ok pr_number_ok pr_discriminant_ok pr_return_ok entry_wire_ok_def entry_bytes_def)
qed

definition list_bytes :: "reputation_list \<Rightarrow> byte list" where
  "list_bytes l = u64_be (list_round l) @ u64_be (length (entries l)) @ concat (map entry_bytes (entries l))"

definition list_wire_ok :: "reputation_list \<Rightarrow> bool" where
  "list_wire_ok l \<longleftrightarrow> list_round l < 2 ^ 64 \<and> length (entries l) \<le> MAX_REPUTATION_BLOCK_ENTRIES \<and> (\<forall>e \<in> set (entries l). entry_wire_ok e) \<and>
     valid_entries (entries l)"

interpretation list_codec: wire_codec list_bytes "decode_reputation_list m t" list_wire_ok for m t
proof unfold_locales
  fix s l r
  show "decode_reputation_list m t s = Inr (l, r) \<longleftrightarrow> list_wire_ok l \<and> s = list_bytes l @ r"
    by (cases l) (auto simp: decode_reputation_list_def pr_bind_ok pr_number_ok pr_count_ok entry_codec.repeat_iff res_bind_ok validate_entries_ok
        list_wire_ok_def list_bytes_def)
qed

definition checkpoint_bytes :: "source_checkpoint option \<Rightarrow> byte list" where
  "checkpoint_bytes cp = (case cp of None \<Rightarrow> [] | Some src \<Rightarrow> u64_be (finalized_prefix_len src) @ finalized_prefix_hash src)"

lemma pr_checkpoint_ok:
  "pr_checkpoint ver rnd s = Inr (cp, r) \<longleftrightarrow>
     (ver = 2 \<and> cp = None \<or>
      ver = 3 \<and> (\<exists>src. cp = Some src \<and> src_round src = rnd \<and> finalized_prefix_len src < 2 ^ 64 \<and> length (finalized_prefix_hash src) = 32)) \<and>
     s = checkpoint_bytes cp @ r"
proof (cases cp)
  case None
  then show ?thesis
    by (auto simp: pr_checkpoint_def pr_bind_ok pr_number_ok pr_take_ok pr_return_ok pr_fail_ok checkpoint_bytes_def
        REPUTATION_BLOCK_VERSION_def CHECKPOINT_REPUTATION_BLOCK_VERSION_def)
next
  case (Some src)
  then show ?thesis
    by (cases src) (auto simp: pr_checkpoint_def pr_bind_ok pr_number_ok pr_take_ok pr_return_ok pr_fail_ok checkpoint_bytes_def
        REPUTATION_BLOCK_VERSION_def CHECKPOINT_REPUTATION_BLOCK_VERSION_def)
qed

definition previous_bytes :: "byte list option \<Rightarrow> byte list" where
  "previous_bytes p = (case p of None \<Rightarrow> [0] | Some h \<Rightarrow> 1 # h)"

lemma pr_previous_ok: "pr_previous s = Inr (p, r) \<longleftrightarrow> (\<forall>h. p = Some h \<longrightarrow> length h = 32) \<and> s = previous_bytes p @ r"
proof (cases p)
  case None
  then show ?thesis
    by (auto simp: pr_previous_def pr_bind_ok pr_discriminant_ok pr_take_ok pr_return_ok previous_bytes_def split: if_splits)
next
  case (Some h)
  have "pr_previous s = Inr (p, r) \<longleftrightarrow> (\<exists>x s'. s = (if x then 1 else 0) # s' \<and>
      (if x then pr_bind (pr_take MalformedReputationBlockWire 32) (\<lambda>h. pr_return (Some h)) else pr_return None) s' = Inr (p, r))"
    by (simp add: pr_previous_def pr_bind_ok pr_discriminant_ok)
  also have "\<dots> \<longleftrightarrow> (\<exists>s'. s = 1 # s' \<and> length h = 32 \<and> s' = h @ r)"
    by (auto simp: Some pr_bind_ok pr_take_ok pr_return_ok split: if_splits)
  finally show ?thesis by (auto simp: Some previous_bytes_def)
qed

section \<open>Blocks\<close>

abbreviation PL_MAX :: nat where
  "PL_MAX \<equiv> MAX_REPUTATION_BLOCK_PAYLOAD_LEN"

lemma PL_MAX_less: "PL_MAX < 2 ^ 64"
  by (simp add: MAX_REPUTATION_BLOCK_PAYLOAD_LEN_def MAX_REPUTATION_BLOCK_WIRE_LEN_def)

lemma put_fixed_ok: "put_fixed out bs = Inr out' \<longleftrightarrow> out' = out @ bs \<and> length out' \<le> PL_MAX"
  using PL_MAX_less by (auto simp: put_fixed_def res_bind_ok ok_or_ok checked_add_def not_less split: if_splits)

lemma wire_put_u64_ok: "wire_put_u64 out n = Inr out' \<longleftrightarrow> out' = out @ u64_be n \<and> length out' \<le> PL_MAX"
  by (simp add: wire_put_u64_def put_fixed_ok)

lemma wire_put_bytes_ok: "wire_put_bytes out bs = Inr out' \<longleftrightarrow> out' = out @ put_bytes bs \<and> length out' \<le> PL_MAX"
  using PL_MAX_less by (auto simp: wire_put_bytes_def res_bind_ok ok_or_ok u64_try_def wire_put_u64_ok put_fixed_ok put_bytes_def split: if_splits)

lemma wire_put_count_ok:
  "wire_put_count out n = Inr out' \<longleftrightarrow> n \<le> MAX_REPUTATION_BLOCK_ENTRIES \<and> out' = out @ u64_be n \<and> length out' \<le> PL_MAX"
  by (auto simp: wire_put_count_def if_err_ok res_bind_ok ok_or_ok u64_try_def wire_put_u64_ok MAX_REPUTATION_BLOCK_ENTRIES_def split: if_splits)

lemma wire_put_entry_ok:
  "wire_put_entry out e = Inr out' \<longleftrightarrow> node_short (entry_node e) \<and> out' = out @ entry_bytes e \<and> length out' \<le> PL_MAX"
  by (auto simp: wire_put_entry_def wire_put_node_id_def if_err_ok res_bind_ok wire_put_bytes_ok wire_put_u64_ok put_fixed_ok node_short_def entry_bytes_def)

lemma wire_put_entries_ok:
  "length out \<le> PL_MAX \<Longrightarrow> res_fold wire_put_entry out es = Inr out' \<longleftrightarrow>
     (\<forall>e \<in> set es. node_short (entry_node e)) \<and> out' = out @ concat (map entry_bytes es) \<and> length out' \<le> PL_MAX"
proof (induction es arbitrary: out)
  case (Cons e es)
  have "res_fold wire_put_entry out (e # es) = Inr out' \<longleftrightarrow> node_short (entry_node e) \<and> length (out @ entry_bytes e) \<le> PL_MAX \<and>
      res_fold wire_put_entry (out @ entry_bytes e) es = Inr out'"
    by (auto simp: res_bind_ok wire_put_entry_ok)
  then show ?case using Cons.IH [of "out @ entry_bytes e"] by auto
qed auto

lemma wire_put_list_ok:
  "wire_put_list out l = Inr out' \<longleftrightarrow> valid_entries (entries l) \<and> length (entries l) \<le> MAX_REPUTATION_BLOCK_ENTRIES \<and>
     (\<forall>e \<in> set (entries l). node_short (entry_node e)) \<and> out' = out @ list_bytes l \<and> length out' \<le> PL_MAX"
proof -
  have "wire_put_list out l = Inr out' \<longleftrightarrow> valid_entries (entries l) \<and> length (entries l) \<le> MAX_REPUTATION_BLOCK_ENTRIES \<and>
      length (out @ u64_be (list_round l)) \<le> PL_MAX \<and> length (out @ u64_be (list_round l) @ u64_be (length (entries l))) \<le> PL_MAX \<and>
      res_fold wire_put_entry (out @ u64_be (list_round l) @ u64_be (length (entries l))) (entries l) = Inr out'"
    by (auto simp: wire_put_list_def res_bind_ok validate_entries_ok wire_put_u64_ok wire_put_count_ok)
  then show ?thesis
    using wire_put_entries_ok [of "out @ u64_be (list_round l) @ u64_be (length (entries l))" "entries l" out']
    by (auto simp: list_bytes_def)
qed

lemma wire_put_checkpoint_ok:
  "length out \<le> PL_MAX \<Longrightarrow> wire_put_checkpoint out cp = Inr out' \<longleftrightarrow> out' = out @ checkpoint_bytes cp \<and> length out' \<le> PL_MAX"
  by (auto simp: wire_put_checkpoint_def checkpoint_bytes_def res_bind_ok wire_put_u64_ok put_fixed_ok split: option.splits)

lemma wire_put_previous_ok:
  "wire_put_previous out p = Inr out' \<longleftrightarrow> out' = out @ previous_bytes p \<and> length out' \<le> PL_MAX"
  by (auto simp: wire_put_previous_def previous_bytes_def res_bind_ok put_fixed_ok split: option.splits)

definition block_bytes :: "reputation_block \<Rightarrow> byte list" where
  "block_bytes b =
     (let h = header b in
      u16_be (version h) @ put_bytes (shard_id h) @ u64_be (source_finalized_wave h) @ u64_be (header_round h) @
      checkpoint_bytes (header_checkpoint h) @ previous_bytes (previous_hash h) @ config_hash h @ ratings_hash h @ penalties_hash h @
      reputation_root h @ list_bytes (block_list b))"

lemma encode_payload_ok:
  "encode_reputation_block_payload hash b = Inr out \<longleftrightarrow> validate_reputation_block hash b = Inr () \<and>
     length (entries (block_list b)) \<le> MAX_REPUTATION_BLOCK_ENTRIES \<and> (\<forall>e \<in> set (entries (block_list b)). node_short (entry_node e)) \<and>
     out = block_bytes b \<and> length out \<le> PL_MAX"
proof -
  have v: "validate_reputation_block hash b = Inr () \<Longrightarrow> valid_entries (entries (block_list b))"
    by (simp add: validate_block_ok list_commitment_ok)
  show ?thesis
    unfolding encode_reputation_block_payload_def Let_def res_bind_ok put_fixed_ok wire_put_bytes_ok wire_put_u64_ok wire_put_previous_ok wire_put_list_ok
      block_bytes_def
    using v by (auto simp: wire_put_checkpoint_ok)
qed

definition header_wire_ok :: "reputation_header \<Rightarrow> bool" where
  "header_wire_ok h \<longleftrightarrow> header_fits h \<and> length (shard_id h) \<le> MAX_REPUTATION_BLOCK_SHARD_ID_LEN \<and>
     (version h = 2 \<and> header_checkpoint h = None \<or>
      version h = 3 \<and> (\<exists>src. header_checkpoint h = Some src \<and> src_round src = header_round h))"

definition block_wire_ok :: "reputation_block \<Rightarrow> bool" where
  "block_wire_ok b \<longleftrightarrow> header_wire_ok (header b) \<and> list_wire_ok (block_list b)"

lemma pr_block_ok: "pr_block s = Inr (b, r) \<longleftrightarrow> block_wire_ok b \<and> s = block_bytes b @ r"
proof -
  have mx: "MAX_REPUTATION_BLOCK_SHARD_ID_LEN < 2 ^ 64" by (simp add: MAX_REPUTATION_BLOCK_SHARD_ID_LEN_def)
  let ?h = "header b"
  have "pr_block s = Inr (b, r) \<longleftrightarrow>
      version ?h < 2 ^ 16 \<and> length (shard_id ?h) \<le> MAX_REPUTATION_BLOCK_SHARD_ID_LEN \<and>
      source_finalized_wave ?h < 2 ^ 64 \<and> header_round ?h < 2 ^ 64 \<and>
      (version ?h = 2 \<and> header_checkpoint ?h = None \<or> version ?h = 3 \<and> (\<exists>src. header_checkpoint ?h = Some src \<and>
         src_round src = header_round ?h \<and> finalized_prefix_len src < 2 ^ 64 \<and> length (finalized_prefix_hash src) = 32)) \<and>
      (\<forall>p. previous_hash ?h = Some p \<longrightarrow> length p = 32) \<and> length (config_hash ?h) = 32 \<and> length (ratings_hash ?h) = 32 \<and>
      length (penalties_hash ?h) = 32 \<and> length (reputation_root ?h) = 32 \<and> list_wire_ok (block_list b) \<and> s = block_bytes b @ r"
    (is "_ \<longleftrightarrow> ?R")
    unfolding pr_block_def pr_bind_ok pr_u16_ok pr_field_ok [OF mx] pr_number_ok pr_checkpoint_ok pr_previous_ok pr_take_ok
      list_codec.rd_iff pr_return_ok block_bytes_def Let_def
    by (cases b; cases ?h) (simp, blast)
  also have "\<dots> \<longleftrightarrow> block_wire_ok b \<and> s = block_bytes b @ r"
    unfolding block_wire_ok_def header_wire_ok_def header_fits_def by (auto simp: source_fits_def)
  finally show ?thesis .
qed

interpretation block_codec: wire_codec block_bytes pr_block block_wire_ok
  by unfold_locales (rule pr_block_ok)

text \<open>The values a Rust block can hold: every number fits its type and every digest is 32 bytes.\<close>

definition block_fits :: "reputation_block \<Rightarrow> bool" where
  "block_fits b \<longleftrightarrow> header_fits (header b) \<and> list_fits (block_list b)"

lemma short_fits: "node_short n \<Longrightarrow> node_fits n"
  by (simp add: node_short_def node_fits_def MAX_REPUTATION_BLOCK_NODE_ID_LEN_def)

lemma block_wire_ok_iff:
  assumes "validate_reputation_block hash b = Inr ()"
  shows "block_wire_ok b \<longleftrightarrow> block_fits b \<and> length (entries (block_list b)) \<le> MAX_REPUTATION_BLOCK_ENTRIES \<and>
    (\<forall>e \<in> set (entries (block_list b)). node_short (entry_node e))"
proof -
  have v: "valid_entries (entries (block_list b))" "length (shard_id (header b)) \<le> MAX_REPUTATION_BLOCK_SHARD_ID_LEN"
    "version (header b) = 2 \<and> header_checkpoint (header b) = None \<or>
      version (header b) = 3 \<and> (\<exists>src. header_checkpoint (header b) = Some src \<and> src_round src = header_round (header b))"
    using assms by (auto simp: validate_block_ok list_commitment_ok)
  then show ?thesis
    unfolding block_wire_ok_def header_wire_ok_def list_wire_ok_def block_fits_def list_fits_def entry_wire_ok_def entry_fits_def
    using short_fits by blast
qed

lemma decode_payload_ok:
  "decode_reputation_block_payload hash bytes = Inr b \<longleftrightarrow> block_fits b \<and> encode_reputation_block_payload hash b = Inr bytes"
proof -
  have "decode_reputation_block_payload hash bytes = Inr b \<longleftrightarrow>
      length bytes \<le> PL_MAX \<and> block_wire_ok b \<and> bytes = block_bytes b \<and> validate_reputation_block hash b = Inr ()"
    by (auto simp: decode_reputation_block_payload_def if_err_ok res_bind_ok pr_block_ok)
  then show ?thesis using block_wire_ok_iff [of hash b] by (auto simp: encode_payload_ok)
qed

lemma magic_length: "length POR_REPUTATION_BLOCK_MAGIC = 17" "length POR_STATE_SNAPSHOT_MAGIC = 17"
  by (simp_all add: POR_REPUTATION_BLOCK_MAGIC_def POR_STATE_SNAPSHOT_MAGIC_def ascii_def)

lemma read_ok: "res_bind m (\<lambda>(x, s'). f x s') = Inr y \<longleftrightarrow> (\<exists>x s'. m = Inr (x, s') \<and> f x s' = Inr y)"
  by (auto simp: res_bind_ok)

text \<open>An envelope is a magic prefix, a version, the payload length, the payload and its 32-byte checksum.\<close>

definition envelope :: "byte list \<Rightarrow> (nat \<Rightarrow> nat \<Rightarrow> byte list \<Rightarrow> byte list) \<Rightarrow> nat \<Rightarrow> byte list \<Rightarrow> byte list" where
  "envelope magic ck ver pl = magic @ u16_be ver @ u64_be (length pl) @ pl @ ck ver (length pl) pl"

lemma envelope_length:
  assumes "length magic = 17" "\<And>ver len pl. length (ck ver len pl) = 32"
  shows "length (envelope magic ck ver pl) = FIXED_ENVELOPE_LEN + length pl"
  using assms by (simp add: envelope_def be.enc_length FIXED_ENVELOPE_LEN_def)

lemma envelope_ok:
  assumes magic: "length magic = 17" and sum32: "\<And>ver len pl. length (ck ver len pl) = 32" and small: "mx < 2 ^ 64"
  shows "res_bind (pr_take e 17 bytes) (\<lambda>(m, s). if m \<noteq> magic then Inl e else
      res_bind (pr_u16 e s) (\<lambda>(ver, s). if ver \<noteq> 2 \<and> ver \<noteq> 3 then Inl (uv ver) else
      res_bind (pr_number e s) (\<lambda>(len, s). if len > mx then Inl big else if length s \<noteq> len + 32 then Inl e else
      res_bind (pr_take e len s) (\<lambda>(pl, s). res_bind (pr_take e 32 s) (\<lambda>(c, s).
        if c \<noteq> ck ver len pl then Inl cm else k ver pl))))) = Inr b \<longleftrightarrow>
    (\<exists>ver pl. (ver = 2 \<or> ver = 3) \<and> length pl \<le> mx \<and> k ver pl = Inr b \<and> bytes = envelope magic ck ver pl)" (is "?D \<longleftrightarrow> ?E")
proof
  assume ?D
  then obtain ver n pl c s1 s2 s3 s4 s5 m where d: "bytes = m @ s1" "m = magic" "s1 = u16_be ver @ s2" "ver = 2 \<or> ver = 3"
    "s2 = u64_be n @ s3" "n \<le> mx" "length s3 = n + 32" "length pl = n" "s3 = pl @ s4" "length c = 32" "s4 = c @ s5"
    "c = ck ver n pl" "k ver pl = Inr b"
    unfolding read_ok if_err_ok pr_take_ok pr_u16_ok pr_number_ok not_less by blast
  have "s5 = []" using d(7-11) by simp
  then show ?E using d by (auto simp: envelope_def)
next
  assume ?E
  then obtain ver pl where "ver = 2 \<or> ver = 3" "length pl \<le> mx" "k ver pl = Inr b"
    "bytes = magic @ u16_be ver @ u64_be (length pl) @ pl @ ck ver (length pl) pl @ []" by (auto simp: envelope_def)
  moreover from this have "ver < 2 ^ 16" "length pl < 2 ^ 64" using small by auto
  ultimately show ?D unfolding read_ok if_err_ok pr_take_ok pr_u16_ok pr_number_ok not_less
    using magic sum32 [of ver "length pl" pl] by (intro exI conjI) (assumption | simp)+
qed

abbreviation block_envelope :: "hasher \<Rightarrow> nat \<Rightarrow> byte list \<Rightarrow> byte list" where
  "block_envelope hash \<equiv> envelope POR_REPUTATION_BLOCK_MAGIC (reputation_block_checksum hash)"

lemma encode_block_ok:
  "encode_reputation_block hash b = Inr bytes \<longleftrightarrow>
     (\<exists>pl. encode_reputation_block_payload hash b = Inr pl \<and> bytes = block_envelope hash (version (header b)) pl)"
  using PL_MAX_less by (auto simp: encode_reputation_block_def res_bind_ok ok_or_ok u64_try_def encode_payload_ok envelope_def split: if_splits)

lemma decode_block_ok:
  assumes digest: "\<And>x. length (hash x) = 32"
  shows "decode_reputation_block hash bytes = Inr b \<longleftrightarrow> block_fits b \<and> encode_reputation_block hash b = Inr bytes"
proof -
  have ck: "length (reputation_block_checksum hash ver n pl) = 32" for ver n pl
    by (simp add: reputation_block_checksum_def digest)
  note len = envelope_length [where ck = "reputation_block_checksum hash", OF magic_length(1) ck]
  have fx: "PL_MAX + FIXED_ENVELOPE_LEN = MAX_REPUTATION_BLOCK_WIRE_LEN"
    by (simp add: MAX_REPUTATION_BLOCK_PAYLOAD_LEN_def MAX_REPUTATION_BLOCK_WIRE_LEN_def FIXED_ENVELOPE_LEN_def)
  have "decode_reputation_block hash bytes = Inr b \<longleftrightarrow>
      length bytes \<le> MAX_REPUTATION_BLOCK_WIRE_LEN \<and> FIXED_ENVELOPE_LEN \<le> length bytes \<and>
      (\<exists>ver pl. (ver = 2 \<or> ver = 3) \<and> length pl \<le> PL_MAX \<and>
        res_bind (decode_reputation_block_payload hash pl) (\<lambda>b. if version (header b) \<noteq> ver then Inl MalformedReputationBlockWire else Inr b) = Inr b \<and>
        bytes = block_envelope hash ver pl)"
    unfolding decode_reputation_block_def if_err_ok(1) [of "_ < _"] not_less
    by (subst envelope_ok [OF magic_length(1) ck PL_MAX_less]) (rule refl)
  also have "\<dots> \<longleftrightarrow> (\<exists>pl. (version (header b) = 2 \<or> version (header b) = 3) \<and> length pl \<le> PL_MAX \<and>
      decode_reputation_block_payload hash pl = Inr b \<and> bytes = block_envelope hash (version (header b)) pl)"
    using len fx by (auto simp: res_bind_ok if_err_ok)
  also have "\<dots> \<longleftrightarrow> block_fits b \<and> encode_reputation_block hash b = Inr bytes"
    unfolding encode_block_ok decode_payload_ok by (auto simp: encode_payload_ok validate_block_ok)
  finally show ?thesis .
qed

section \<open>Snapshots\<close>

lemma snap_put_node_id_ok:
  "snap_put_node_id out n = Inr out' \<longleftrightarrow> node_short n \<and> out' = out @ put_bytes (node_bytes n)"
  using short_fits [of n]
  by (auto simp: snap_put_node_id_def node_short_def node_fits_def if_err_ok res_bind_ok ok_or_ok u64_try_def put_bytes_def not_less split: if_splits)

lemma snap_put_keys_ok:
  "res_fold snap_put_node_id out ks = Inr out' \<longleftrightarrow>
     (\<forall>k \<in> set ks. node_short k) \<and> out' = out @ concat (map (\<lambda>k. put_bytes (node_bytes k)) ks)"
  by (induction ks arbitrary: out) (auto simp: res_bind_ok snap_put_node_id_ok)

lemma snap_put_count_ok: "snap_put_count out n = Inr out' \<longleftrightarrow> n \<le> MAX_REPUTATION_BLOCK_ENTRIES \<and> out' = out @ u64_be n"
  by (auto simp: snap_put_count_def if_err_ok res_bind_ok ok_or_ok u64_try_def MAX_REPUTATION_BLOCK_ENTRIES_def split: if_splits)

lemma snap_put_entry_ok: "snap_put_entry out e = Inr out' \<longleftrightarrow> node_short (entry_node e) \<and> out' = out @ entry_bytes e"
  by (auto simp: snap_put_entry_def res_bind_ok snap_put_node_id_ok entry_bytes_def)

lemma snap_put_entries_ok:
  "res_fold snap_put_entry out es = Inr out' \<longleftrightarrow> (\<forall>e \<in> set es. node_short (entry_node e)) \<and> out' = out @ concat (map entry_bytes es)"
  by (induction es arbitrary: out) (auto simp: res_bind_ok snap_put_entry_ok)

lemma snap_put_list_ok:
  "snap_put_list out l = Inr out' \<longleftrightarrow> valid_entries (entries l) \<and> length (entries l) \<le> MAX_REPUTATION_BLOCK_ENTRIES \<and>
     (\<forall>e \<in> set (entries l). node_short (entry_node e)) \<and> out' = out @ list_bytes l"
  by (auto simp: snap_put_list_def res_bind_ok validate_entries_ok snap_put_count_ok snap_put_entries_ok list_bytes_def)

lemma pr_excluded_ok:
  "sorted_wrt (<) acc \<Longrightarrow> pr_excluded n acc s = Inr (ks, r) \<longleftrightarrow>
     (\<exists>xs. ks = acc @ xs \<and> length xs = n \<and> (\<forall>k \<in> set xs. node_short k) \<and> sorted_wrt (<) ks \<and>
        s = concat (map (\<lambda>k. put_bytes (node_bytes k)) xs) @ r)"
proof (induction n arbitrary: acc s)
  case 0
  then show ?case by (auto simp: pr_return_ok)
next
  case (Suc n)
  have step: "(acc \<noteq> [] \<longrightarrow> last acc < k) \<longleftrightarrow> sorted_wrt (<) (acc @ [k])" for k
    using Suc.prems by (cases acc rule: rev_cases) (auto simp: sorted_wrt_append intro: less_trans)
  have "pr_excluded (Suc n) acc s = Inr (ks, r) \<longleftrightarrow>
      (\<exists>k s'. node_short k \<and> s = put_bytes (node_bytes k) @ s' \<and> sorted_wrt (<) (acc @ [k]) \<and> pr_excluded n (acc @ [k]) s' = Inr (ks, r))"
    by (auto simp: pr_bind_ok pr_node_id_ok pr_fail_ok step [symmetric] not_le)
  also have "\<dots> \<longleftrightarrow> (\<exists>k s' xs. node_short k \<and> s = put_bytes (node_bytes k) @ s' \<and> ks = acc @ k # xs \<and> length xs = n \<and>
      (\<forall>k \<in> set xs. node_short k) \<and> sorted_wrt (<) ks \<and> s' = concat (map (\<lambda>k. put_bytes (node_bytes k)) xs) @ r)"
    using Suc.IH [of "acc @ [_]"] by (auto simp: sorted_wrt_append)
  finally show ?case by (fastforce simp: length_Suc_conv)
qed

definition latest_bytes :: "reputation_block option \<Rightarrow> byte list" where
  "latest_bytes blk = (case blk of None \<Rightarrow> [0] | Some b \<Rightarrow> 1 # block_bytes b)"

lemma pr_latest_block_ok:
  "pr_latest_block hash s = Inr (blk, r) \<longleftrightarrow> s = latest_bytes blk @ r \<and>
     (\<forall>b. blk = Some b \<longrightarrow> r = [] \<and> decode_reputation_block_payload hash (block_bytes b) = Inr b)"
proof -
  have e: "decode_reputation_block_payload hash x = Inr b \<Longrightarrow> x = block_bytes b" for x b
    by (simp add: decode_payload_ok encode_payload_ok)
  have "pr_latest_block hash s = Inr (blk, r) \<longleftrightarrow> s = 0 # r \<and> blk = None \<or>
      (\<exists>x b. s = 1 # x \<and> r = [] \<and> decode_reputation_block_payload hash x = Inr b \<and> blk = Some b)"
    unfolding pr_latest_block_def pr_bind_ok pr_discriminant_ok
    by (auto simp: res_bind_ok pr_take_ok map_err_ok split: if_splits)
  then show ?thesis using e by (cases blk) (auto simp: latest_bytes_def)
qed

definition state_bytes :: "reputation_state \<Rightarrow> byte list" where
  "state_bytes st = u64_be (current_round st) @ list_bytes (st_list st) @ u64_be (length (excluded_keys st)) @
     concat (map (\<lambda>k. put_bytes (node_bytes k)) (excluded_keys st)) @ latest_bytes (latest_block st)"

text \<open>The values a Rust state can hold: numbers and digests fit, and the registry is an ordered set.\<close>

definition state_fits :: "reputation_state \<Rightarrow> bool" where
  "state_fits st \<longleftrightarrow> current_round st < 2 ^ 64 \<and> list_fits (st_list st) \<and> sorted_wrt (<) (excluded_keys st) \<and>
     (\<forall>b. latest_block st = Some b \<longrightarrow> block_fits b)"

lemma pr_snapshot_ok:
  "pr_snapshot hash s = Inr ((rnd, l, ks, blk), []) \<longleftrightarrow>
     rnd < 2 ^ 64 \<and> list_wire_ok l \<and> length ks \<le> MAX_REPUTATION_BLOCK_ENTRIES \<and> (\<forall>k \<in> set ks. node_short k) \<and> sorted_wrt (<) ks \<and>
     (\<forall>b. blk = Some b \<longrightarrow> decode_reputation_block_payload hash (block_bytes b) = Inr b) \<and>
     s = state_bytes \<lparr>current_round = rnd, st_list = l, excluded_keys = ks, pending_ratings = [], latest_block = blk\<rparr>"
  unfolding pr_snapshot_def pr_bind_ok pr_number_ok list_codec.rd_iff pr_count_ok pr_latest_block_ok pr_return_ok state_bytes_def
    pr_excluded_ok [OF sorted_wrt.simps(1) [THEN iffD2, OF TrueI]]
  by (simp, blast)

lemma snap_invariants_latest:
  "validate_snapshot_invariants hash st = Inr () \<Longrightarrow> latest_block st = Some b \<Longrightarrow> validate_reputation_block hash b = Inr ()"
  by (auto simp: validate_snapshot_invariants_def if_err_ok res_bind_ok)

lemma snap_invariants_parts:
  "validate_snapshot_invariants hash st = Inr () \<Longrightarrow> pending_ratings st = [] \<and> valid_entries (entries (st_list st))"
  by (auto simp: validate_snapshot_invariants_def if_err_ok res_bind_ok validate_entries_ok)

abbreviation SNAP_MAX :: nat where
  "SNAP_MAX \<equiv> MAX_REPUTATION_STATE_SNAPSHOT_LEN - FIXED_ENVELOPE_LEN"

lemma snap_put_block_ok:
  "snap_put_block hash out blk = Inr pl \<longleftrightarrow> pl = out @ latest_bytes blk \<and>
     (\<forall>b. blk = Some b \<longrightarrow> encode_reputation_block_payload hash b = Inr (block_bytes b) \<and> length pl \<le> SNAP_MAX)"
  by (cases blk) (auto simp: snap_put_block_def res_bind_ok ok_or_ok map_err_ok if_err_ok checked_add_def latest_bytes_def encode_payload_ok
      MAX_REPUTATION_STATE_SNAPSHOT_LEN_def FIXED_ENVELOPE_LEN_def split: if_splits)

lemma SNAP_MAX_less: "SNAP_MAX < 2 ^ 64" "FIXED_ENVELOPE_LEN + SNAP_MAX = MAX_REPUTATION_STATE_SNAPSHOT_LEN"
  by (simp_all add: MAX_REPUTATION_STATE_SNAPSHOT_LEN_def FIXED_ENVELOPE_LEN_def)

abbreviation snapshot_envelope :: "hasher \<Rightarrow> nat \<Rightarrow> byte list \<Rightarrow> byte list" where
  "snapshot_envelope hash \<equiv> envelope POR_STATE_SNAPSHOT_MAGIC (snapshot_checksum hash)"

lemma encode_snapshot_ok:
  "encode_reputation_state_snapshot hash st = Inr bytes \<longleftrightarrow>
     validate_snapshot_invariants hash st = Inr () \<and> length (entries (st_list st)) \<le> MAX_REPUTATION_BLOCK_ENTRIES \<and>
     (\<forall>e \<in> set (entries (st_list st)). node_short (entry_node e)) \<and>
     length (excluded_keys st) \<le> MAX_REPUTATION_BLOCK_ENTRIES \<and> (\<forall>k \<in> set (excluded_keys st). node_short k) \<and>
     (\<forall>b. latest_block st = Some b \<longrightarrow> encode_reputation_block_payload hash b = Inr (block_bytes b)) \<and>
     length (state_bytes st) \<le> SNAP_MAX \<and> bytes = snapshot_envelope hash (snapshot_version st) (state_bytes st)"
proof -
  have fin: "res_bind (ok_or (checked_add 64 FIXED_ENVELOPE_LEN (length pl)) ReputationStateSnapshotTooLarge) (\<lambda>total_len.
     if total_len > MAX_REPUTATION_STATE_SNAPSHOT_LEN then Inl ReputationStateSnapshotTooLarge else
     res_bind (ok_or (u64_try (length pl)) ReputationStateSnapshotTooLarge) (\<lambda>len.
     Inr (POR_STATE_SNAPSHOT_MAGIC @ u16_be (snapshot_version st) @ u64_be len @ pl @
       snapshot_checksum hash (snapshot_version st) len pl))) = Inr bytes \<longleftrightarrow>
     length pl \<le> SNAP_MAX \<and> bytes = snapshot_envelope hash (snapshot_version st) pl" for pl
    by (auto simp: res_bind_ok ok_or_ok u64_try_def checked_add_def envelope_def MAX_REPUTATION_STATE_SNAPSHOT_LEN_def FIXED_ENVELOPE_LEN_def
        split: if_splits)
  show ?thesis
    unfolding encode_reputation_state_snapshot_def res_bind_ok [of "validate_snapshot_invariants _ _"] res_bind_ok [of "snap_put_list _ _"]
      res_bind_ok [of "snap_put_count _ _"] res_bind_ok [of "res_fold _ _ _"] res_bind_ok [of "snap_put_block _ _ _"] fin
      snap_put_list_ok snap_put_count_ok snap_put_keys_ok snap_put_block_ok state_bytes_def
    using snap_invariants_parts [of hash st] by auto
qed

lemma snapshot_version_ok:
  assumes "validate_snapshot_invariants hash st = Inr ()" "ver = 2 \<or> ver = 3"
  shows "snapshot_version_matches ver (latest_block st) \<longleftrightarrow> ver = snapshot_version st"
proof (cases "latest_block st")
  case None
  then show ?thesis by (simp add: snapshot_version_matches_def snapshot_version_def)
next
  case (Some b)
  then have "version (header b) = 2 \<or> version (header b) = 3"
    using snap_invariants_latest [OF assms(1) Some] by (auto simp: validate_block_ok)
  then show ?thesis using assms(2)
    by (auto simp: Some snapshot_version_matches_def snapshot_version_def REPUTATION_BLOCK_VERSION_def CHECKPOINT_REPUTATION_BLOCK_VERSION_def)
qed

lemma from_parts_ok:
  "from_snapshot_parts hash rnd l ks blk = Inr st \<longleftrightarrow>
     st = \<lparr>current_round = rnd, st_list = l, excluded_keys = ks, pending_ratings = [], latest_block = blk\<rparr> \<and>
     validate_snapshot_invariants hash st = Inr ()"
  by (auto simp: from_snapshot_parts_def Let_def res_bind_ok)

lemma read_state_ok:
  "res_bind (pr_snapshot hash pl) (\<lambda>((rnd, l, ks, blk), rest).
      if rest \<noteq> [] then Inl MalformedReputationStateSnapshot
      else if \<not> snapshot_version_matches ver blk then Inl ReputationStateSnapshotBlockVersionMismatch
      else from_snapshot_parts hash rnd l ks blk) = Inr st \<longleftrightarrow>
   pl = state_bytes st \<and> snapshot_version_matches ver (latest_block st) \<and> validate_snapshot_invariants hash st = Inr () \<and>
   current_round st < 2 ^ 64 \<and> list_wire_ok (st_list st) \<and> length (excluded_keys st) \<le> MAX_REPUTATION_BLOCK_ENTRIES \<and>
   (\<forall>k \<in> set (excluded_keys st). node_short k) \<and> sorted_wrt (<) (excluded_keys st) \<and>
   (\<forall>b. latest_block st = Some b \<longrightarrow> decode_reputation_block_payload hash (block_bytes b) = Inr b)"
proof -
  have "res_bind (pr_snapshot hash pl) (\<lambda>((rnd, l, ks, blk), rest).
      if rest \<noteq> [] then Inl MalformedReputationStateSnapshot
      else if \<not> snapshot_version_matches ver blk then Inl ReputationStateSnapshotBlockVersionMismatch
      else from_snapshot_parts hash rnd l ks blk) = Inr st \<longleftrightarrow>
    (\<exists>rnd l ks blk. pr_snapshot hash pl = Inr ((rnd, l, ks, blk), []) \<and> snapshot_version_matches ver blk \<and>
      st = \<lparr>current_round = rnd, st_list = l, excluded_keys = ks, pending_ratings = [], latest_block = blk\<rparr> \<and>
      validate_snapshot_invariants hash st = Inr ())"
    by (auto simp: res_bind_ok if_err_ok from_parts_ok)
  moreover have "pending_ratings st = []" if "validate_snapshot_invariants hash st = Inr ()"
    using snap_invariants_parts [OF that] by simp
  ultimately show ?thesis unfolding pr_snapshot_ok by (cases st) auto
qed

definition state_reads :: "hasher \<Rightarrow> reputation_state \<Rightarrow> bool" where
  "state_reads hash st \<longleftrightarrow> validate_snapshot_invariants hash st = Inr () \<and>
     current_round st < 2 ^ 64 \<and> list_wire_ok (st_list st) \<and> length (excluded_keys st) \<le> MAX_REPUTATION_BLOCK_ENTRIES \<and>
     (\<forall>k \<in> set (excluded_keys st). node_short k) \<and> sorted_wrt (<) (excluded_keys st) \<and>
     (\<forall>b. latest_block st = Some b \<longrightarrow> decode_reputation_block_payload hash (block_bytes b) = Inr b)"

lemma state_reads_iff:
  "state_reads hash st \<longleftrightarrow> validate_snapshot_invariants hash st = Inr () \<and> state_fits st \<and>
     length (entries (st_list st)) \<le> MAX_REPUTATION_BLOCK_ENTRIES \<and> (\<forall>e \<in> set (entries (st_list st)). node_short (entry_node e)) \<and>
     length (excluded_keys st) \<le> MAX_REPUTATION_BLOCK_ENTRIES \<and> (\<forall>k \<in> set (excluded_keys st). node_short k) \<and>
     (\<forall>b. latest_block st = Some b \<longrightarrow> encode_reputation_block_payload hash b = Inr (block_bytes b))"
proof -
  have l: "list_wire_ok l \<longleftrightarrow> list_fits l \<and> length (entries l) \<le> MAX_REPUTATION_BLOCK_ENTRIES \<and> (\<forall>e \<in> set (entries l). node_short (entry_node e))"
    if "valid_entries (entries l)" for l
    using that short_fits unfolding list_wire_ok_def list_fits_def entry_wire_ok_def entry_fits_def by blast
  show ?thesis
    unfolding state_reads_def state_fits_def decode_payload_ok using l [of "st_list st"] snap_invariants_parts [of hash st] by blast
qed

lemma version_range: "snapshot_version st = 2 \<or> snapshot_version st = 3"
  by (auto simp: snapshot_version_def split: option.splits)

lemma decode_snapshot_ok:
  assumes digest: "\<And>x. length (hash x) = 32"
  shows "decode_reputation_state_snapshot hash bytes = Inr st \<longleftrightarrow> state_fits st \<and> encode_reputation_state_snapshot hash st = Inr bytes"
proof -
  have ck: "length (snapshot_checksum hash ver n pl) = 32" for ver n pl
    by (simp add: snapshot_checksum_def digest)
  note len = envelope_length [where ck = "snapshot_checksum hash", OF magic_length(2) ck]
  have split: "(if a \<or> b then x else y) = (if a then x else if b then x else y)" for a b and x y :: "'z" by simp
  have "decode_reputation_state_snapshot hash bytes = Inr st \<longleftrightarrow>
      length bytes \<le> MAX_REPUTATION_STATE_SNAPSHOT_LEN \<and> FIXED_ENVELOPE_LEN \<le> length bytes \<and>
      (\<exists>ver pl. (ver = 2 \<or> ver = 3) \<and> length pl \<le> SNAP_MAX \<and>
        res_bind (pr_snapshot hash pl) (\<lambda>((rnd, l, ks, blk), rest).
          if rest \<noteq> [] then Inl MalformedReputationStateSnapshot
          else if \<not> snapshot_version_matches ver blk then Inl ReputationStateSnapshotBlockVersionMismatch
          else from_snapshot_parts hash rnd l ks blk) = Inr st \<and>
        bytes = snapshot_envelope hash ver pl)"
    unfolding decode_reputation_state_snapshot_def if_err_ok(1) [of "_ < _"] not_less split
    by (subst envelope_ok [OF magic_length(2) ck SNAP_MAX_less(1)]) (rule refl)
  also have "\<dots> \<longleftrightarrow> (\<exists>ver. (ver = 2 \<or> ver = 3) \<and> length (state_bytes st) \<le> SNAP_MAX \<and> bytes = snapshot_envelope hash ver (state_bytes st) \<and>
      snapshot_version_matches ver (latest_block st) \<and> state_reads hash st)"
    unfolding read_state_ok state_reads_def using len SNAP_MAX_less(2) by auto
  also have "\<dots> \<longleftrightarrow> length (state_bytes st) \<le> SNAP_MAX \<and> bytes = snapshot_envelope hash (snapshot_version st) (state_bytes st) \<and> state_reads hash st"
    using snapshot_version_ok [of hash st] version_range [of st] by (auto simp: state_reads_def)
  also have "\<dots> \<longleftrightarrow> state_fits st \<and> encode_reputation_state_snapshot hash st = Inr bytes"
    unfolding encode_snapshot_ok state_reads_iff by blast
  finally show ?thesis .
qed

end
