(* ===== verification/Claims_Por.thy ===== *)
theory Claims_Por
  imports Por_Wire_Proofs
begin

text \<open>
  The properties of the Proof-of-Reputation crate, with a two-node round on which the witnesses evaluate.
\<close>

section \<open>A round of two nodes\<close>

definition pa :: node_id where "pa = NodeId (2 # replicate 32 1)"
definition pb :: node_id where "pb = NodeId (3 # replicate 32 1)"

definition sp_cfg :: por_config where
  "sp_cfg = \<lparr>scale = 4, initial_reputation = 1, liquid_rank_alpha = 2, minimum_rating = 1, maximum_rating = 5,
     missing_policy = CarryForward, correlation_threshold = 4, base_slash_penalty = 2, inactivity_decay_gamma = 2\<rparr>"

definition sp_rating :: rating_record where
  "sp_rating = \<lparr>rt_round = 2, rater = pa, recipient = pb, score = 5, rt_signature = [1], interaction_ref = None\<rparr>"

definition sp_state :: reputation_state where
  "sp_state = set_reputation pb 3 (set_reputation pa 4 (new_state 1))"

definition zero_hash :: hasher where
  "zero_hash bs = replicate 32 0"

definition sp_penalty :: equivocation_penalty where
  "sp_penalty = \<lparr>offender = pa, evidence_bytes = [9], authorization = Some \<lparr>authorized_context = Wave \<lparr>auth_shard = [7], auth_wave = 1, auth_round = 2\<rparr>,
     binding = replicate 32 0, authorized_proof_round = 1\<rparr>\<rparr>"

definition sp_events :: penalty_events where
  "sp_events = \<lparr>events_round = 2, equivocations = [sp_penalty], inactivity = []\<rparr>"

definition sp_ctx :: block_context where
  "sp_ctx = \<lparr>ctx_shard = [7], ctx_wave = 1, ctx_previous = None\<rparr>"

abbreviation sp_prev :: reputation_vector where
  "sp_prev \<equiv> state_vector sp_state"

lemma sp_order: "pa < pb" "pa \<noteq> pb" "pb \<noteq> pa" "\<not> pb < pa" "\<not> pa < pa" "\<not> pb < pb" "pa \<le> pb"
  by (simp_all add: pa_def pb_def less_node_id_def less_eq_node_id_def)

lemma sp_prev: "vec_values sp_prev = [new_entry pa 4, new_entry pb 3]" "vec_round sp_prev = 1"
  by code_simp+

lemma sp_asc: "ascending [new_entry pa 4, new_entry pb 3]"
  by (simp add: sp_order new_entry_def)

lemma sp_config: "valid_config sp_cfg" "scale sp_cfg < 2 ^ 64" "validate_config sp_cfg = Inr ()"
  by (simp_all add: validate_config_ok valid_config_def sp_cfg_def)

lemmas sp_search = search_entry_eq [OF sp_asc]

lemma sp_clamp: "clamp_reputation_value 3 4 = Inr 2"
proof -
  have "integer_sqrt_u128 25 = 5" by (rule isqrt_unique) simp_all
  then show ?thesis by (simp add: clamp_reputation_value_def checked_mul_def checked_add_def)
qed

lemma sp_batch: "build_rating_batch 2 [sp_rating] sp_cfg = Inr \<lparr>batch_round = 2, batch_ratings = [sp_rating]\<rparr>"
  by (simp add: build_rating_batch_def sp_rating_def validate_rating_def sp_order sp_cfg_def)

lemma sp_normalized:
  "normalize_rating_matrix \<lparr>matrix_round = 2, matrix_ratings = [sp_rating]\<rparr> sp_cfg =
     Inr \<lparr>normalized_round = 2, normalized_ratings = [\<lparr>n_rater = pa, n_recipient = pb, n_score = 5, normalized_score = 4\<rparr>]\<rparr>"
  by (simp add: normalize_rating_matrix_def sp_cfg_def sp_rating_def normalize_recipient_group_def score_bounds_def normalize_score_def)

lemma new_entry_fields [simp]:
  "entry_node (new_entry n r) = n" "reputation (new_entry n r) = r" "retained_reputation (new_entry n r) = 0" "is_excluded (new_entry n r) = False"
  by (simp_all add: new_entry_def)

lemma sp_contribution:
  "compute_liquid_rank_contribution \<lparr>normalized_round = 2, normalized_ratings = [\<lparr>n_rater = pa, n_recipient = pb, n_score = 5, normalized_score = 4\<rparr>]\<rparr>
     sp_prev sp_cfg = Inr \<lparr>vec_round = 2, vec_values = [new_entry pb 4]\<rparr>"
  by (simp add: compute_liquid_rank_contribution_def sp_cfg_def validate_previous_reputation_order_def sp_prev
      push_recipient_contribution_def weighted_score_step_def reputation_of_def sp_search sp_order checked_add_def u64_try_def)

lemma sp_blended:
  "blend_reputation_transition \<lparr>vec_round = 2, vec_values = [new_entry pb 4]\<rparr> sp_prev sp_cfg =
     Inr \<lparr>vec_round = 2, vec_values = [new_entry pa 4, new_entry pb 3]\<rparr>"
  by (simp add: blend_reputation_transition_def sp_cfg_def validate_config_def checked_add_def checked_mul_def sp_prev validate_reputation_order_def sp_order
      blend_node_def contribution_for_unrated_node_def blend_reputation_def u64_try_def)

lemma sp_clamped:
  "clamp_reputation_transition \<lparr>vec_round = 2, vec_values = [new_entry pa 4, new_entry pb 3]\<rparr> sp_prev \<lparr>vec_round = 2, vec_values = [new_entry pb 4]\<rparr> sp_cfg =
     Inr \<lparr>vec_round = 2, vec_values = [new_entry pa 4, new_entry pb 2]\<rparr>"
  by (simp add: clamp_reputation_transition_def sp_cfg_def sp_prev advance_to_def has_node_at_def sp_order sp_clamp Let_def)

lemma sp_base: "replay_base sp_prev [sp_rating] 2 sp_cfg = Inr \<lparr>list_round = 2, entries = [new_entry pa 4, new_entry pb 2]\<rparr>"
proof -
  have m: "build_rating_matrix \<lparr>batch_round = 2, batch_ratings = [sp_rating]\<rparr> = Inr \<lparr>matrix_round = 2, matrix_ratings = [sp_rating]\<rparr>"
    by (simp add: build_rating_matrix_def sp_rating_def)
  show ?thesis
    by (simp add: replay_base_def sp_batch m sp_normalized sp_contribution sp_blended sp_clamped restore_excluded_def sp_prev sp_search sp_order)
qed

lemmas sp_limits = MAX_REPUTATION_BLOCK_WIRE_LEN_def MAX_REPUTATION_BLOCK_NODE_ID_LEN_def MAX_REPUTATION_BLOCK_SHARD_ID_LEN_def
  MAX_PENALTY_EVIDENCE_LEN_def MAX_REPUTATION_BLOCK_ENTRIES_def

lemmas sp_put = cm_put_len_def cm_put_bytes_def u64_try_def be.enc_length

lemma sp_authorized: "validate_authorization zero_hash sp_penalty 2 = Inr ()"
  by (simp add: validate_authorization_def sp_penalty_def authorized_payload_def authorization_payload_def rating_round_from_finalized_wave_def
      checked_add_def sp_limits zero_hash_def)

lemma sp_commitment:
  "penalty_events_commitment zero_hash 2 None = Inr (replicate 32 0)"
  "penalty_events_commitment zero_hash 2 (Some sp_events) = Inr (replicate 32 0)"
proof -
  have d: "length POR_PENALTY_EVENTS_COMMITMENT_DOMAIN < 100" by (simp add: POR_PENALTY_EVENTS_COMMITMENT_DOMAIN_def ascii_def)
  then show "penalty_events_commitment zero_hash 2 None = Inr (replicate 32 0)"
    by (simp add: penalty_events_commitment_def sp_put sp_limits zero_hash_def)
  show "penalty_events_commitment zero_hash 2 (Some sp_events) = Inr (replicate 32 0)"
    using d by (simp add: penalty_events_commitment_def commit_equivocation_def sp_events_def sp_put sp_limits sp_authorized)
      (simp add: sp_penalty_def pa_def zero_hash_def)
qed

lemma sp_valid: "valid_entries (vec_values sp_prev)"
  by (simp add: sp_prev valid_entries_def sp_order entry_valid_def)

lemma sp_replay:
  "replay_reputation_transition_with_penalties zero_hash sp_prev [sp_rating] 2 sp_cfg None =
     Inr \<lparr>list_round = 2, entries = [new_entry pa 4, new_entry pb 2]\<rparr>"
  unfolding replay_split by (simp add: sp_config sp_base sp_valid sp_commitment)

lemma sp_penalized:
  "apply_reputation_penalties zero_hash \<lparr>list_round = 2, entries = [new_entry pa 4, new_entry pb 2]\<rparr> sp_prev [sp_rating] sp_events sp_cfg =
     Inr \<lparr>list_round = 2, entries = [\<lparr>entry_node = pa, reputation = 0, retained_reputation = 2, is_excluded = True\<rparr>, new_entry pb 2]\<rparr>"
proof -
  have asc: "ascending [new_entry pa 4, new_entry pb 2]" by (simp add: sp_order)
  have u: "update_entry [new_entry pa 4, new_entry pb 2] pa f = Inr [f (new_entry pa 4), new_entry pb 2]" for f
    by (simp add: update_entry_ok [OF asc] sp_order)
  have p: "offender sp_penalty = pa" "evidence_bytes sp_penalty = [9]" "proof_round sp_penalty = Inr 1"
    by (simp_all add: sp_penalty_def proof_round_def)
  have e: "prior_entry sp_prev pa = Inr (new_entry pa 4)" by (simp add: prior_entry_def sp_prev sp_search)
  have "equivocation_step zero_hash sp_prev 2 ([], []) sp_penalty = Inr ([pa], [(1, 4)])"
    by (simp add: equivocation_step_def sp_authorized p e weight_at_def checked_add_def)
  moreover have "slash_step sp_prev [(1, 4)] 7 sp_cfg [new_entry pa 4, new_entry pb 2] sp_penalty =
      Inr [\<lparr>entry_node = pa, reputation = 0, retained_reputation = 2, is_excluded = True\<rparr>, new_entry pb 2]"
    by (simp add: slash_step_def p e weight_at_def compute_slash_penalty_wide_def validate_config_def sp_cfg_def checked_mul_def checked_sub_def
        apply_slash_to_reputation_def u64_try_def u) 
  ultimately show ?thesis
    by (simp add: apply_reputation_penalties_def sp_config sp_events_def sp_prev checked_add_def)
qed

lemma sp_replay_penalized:
  "replay_reputation_transition_with_penalties zero_hash sp_prev [sp_rating] 2 sp_cfg (Some sp_events) =
     Inr \<lparr>list_round = 2, entries = [\<lparr>entry_node = pa, reputation = 0, retained_reputation = 2, is_excluded = True\<rparr>, new_entry pb 2]\<rparr>"
  unfolding replay_split by (simp add: sp_config sp_base sp_valid sp_commitment sp_penalized)

definition sp_list :: reputation_list where
  "sp_list = \<lparr>list_round = 2, entries = [new_entry pa 4, new_entry pb 2]\<rparr>"

definition sp_block :: reputation_block where
  "sp_block = \<lparr>header = \<lparr>version = 2, shard_id = [7], source_finalized_wave = 1, header_checkpoint = None, header_round = 2,
     previous_hash = None, config_hash = replicate 32 0, ratings_hash = replicate 32 0, penalties_hash = replicate 32 0,
     reputation_root = replicate 32 0\<rparr>, block_list = sp_list\<rparr>"

lemma sp_root: "reputation_list_commitment zero_hash sp_list = Inr (replicate 32 0)"
proof -
  have "node_fits pa" "node_fits pb" by (simp_all add: node_fits_def pa_def pb_def)
  then show ?thesis by (simp add: list_commitment_ok sp_list_def valid_entries_def sp_order entry_valid_def zero_hash_def)
qed

lemma sp_block_valid: "validate_reputation_block zero_hash sp_block = Inr ()"
  using sp_root unfolding validate_block_ok by (simp add: sp_block_def sp_limits) (simp add: sp_list_def)

lemma sp_built:
  "build_reputation_block_with_penalties zero_hash sp_ctx \<lparr>batch_round = 2, batch_ratings = [sp_rating]\<rparr> sp_list sp_cfg None = Inr sp_block"
proof -
  have payload_length: "length (canonical_rating_payload sp_rating) < 1000"
    by (simp add: canonical_rating_payload_def sp_rating_def put_bytes_def put_interaction_def pa_def pb_def be.enc_length
        RATING_SIGNING_DOMAIN_def ascii_def)
  have rh: "rating_batch_commitment zero_hash \<lparr>batch_round = 2, batch_ratings = [sp_rating]\<rparr> sp_cfg = Inr (replicate 32 0)"
    using payload_length by (simp add: rating_batch_commitment_def sp_batch sp_put zero_hash_def) (simp add: sp_rating_def)
  have r: "rating_round_from_finalized_wave 1 = Inr 2" by (simp add: rating_round_ok)
  show ?thesis
    using sp_block_valid sp_root rh r
    by (simp add: build_reputation_block_with_penalties_def sp_ctx_def sp_config validate_penalty_context_def
        validate_shard_id_def sp_limits r [simplified] previous_reputation_hash_def
        sp_commitment config_commitment_def zero_hash_def REPUTATION_BLOCK_VERSION_def sp_block_def)
      (simp add: sp_list_def)
qed

section \<open>One round\<close>

text \<open>
  The clamp.  A clamped reputation never exceeds the scale nor the value itself, is zero only for zero, and for a
  positive value is \<open>value * scale / d\<close> rounded to the nearest integer (and cut to 64 bits), where \<open>d\<close> is the integer
  square root of \<open>scale\<^sup>2 + value\<^sup>2\<close>: the binary search with its two correction loops returns the exact floor.
\<close>

theorem clamp_value_exact:
  assumes "clamp_reputation_value v s = Inr r"
  shows "r \<le> s \<and> r \<le> v \<and> (r = 0 \<longleftrightarrow> v = 0) \<and>
    (v \<noteq> 0 \<longrightarrow> (\<exists>d. d * d \<le> s * s + v * v \<and> s * s + v * v < (d + 1) * (d + 1) \<and> r = min (2 ^ 64 - 1) ((v * s + d div 2) div d)))"
proof -
  have "\<exists>d. d * d \<le> s * s + v * v \<and> s * s + v * v < (d + 1) * (d + 1) \<and> r = min (2 ^ 64 - 1) ((v * s + d div 2) div d)" if "v \<noteq> 0"
    using clamp_ok(2,3) [OF assms that] isqrt_bounds [of "s * s + v * v"] by (intro exI [of _ "integer_sqrt_u128 (s * s + v * v)"]) blast
  then show ?thesis using clamp_bounds [OF assms] by blast
qed



text \<open>
  C20.  The replayed list is well formed.  With or without penalties it is strictly sorted, its excluded entries have no
  reputation and its active ones nothing retained; it is excluded exactly where the previous list was or where an
  equivocation is penalised, every entry excluded before is kept unchanged, and reputations stay within the scale.
\<close>

theorem replayed_list_well_formed:
  assumes "replay_reputation_transition_with_penalties hash prev rs rnd cfg penalties = Inr l" "scale cfg < 2 ^ 64"
  shows "valid_entries (entries l) \<and> nodes_of (entries l) = nodes_of (vec_values prev) \<union> recipient ` set rs \<and>
    (\<forall>e \<in> set (entries l). is_excluded e \<longleftrightarrow>
       (\<exists>q. entry_of (vec_values prev) (entry_node e) = Some q \<and> is_excluded q) \<or> entry_node e \<in> offenders penalties) \<and>
    (\<forall>q \<in> set (vec_values prev). is_excluded q \<longrightarrow> q \<in> set (entries l)) \<and>
    ((\<forall>q \<in> set (vec_values prev). reputation q \<le> scale cfg) \<longrightarrow> (\<forall>e \<in> set (entries l). reputation e \<le> scale cfg))"
  using replay_keeps(3-7) [OF assms] by blast

theorem replayed_list_well_formed_witness:
  "\<exists>l. replay_reputation_transition_with_penalties zero_hash sp_prev [sp_rating] 2 sp_cfg (Some sp_events) = Inr l \<and>
     valid_entries (entries l) \<and> (\<forall>e \<in> set (entries l). reputation e \<le> 4)"
  using replayed_list_well_formed [OF sp_replay_penalized sp_config(2)] sp_replay_penalized by (auto simp: sp_prev sp_cfg_def)

text \<open>
  C24.  Penalties are exact.  Applying the penalty events of a round to the next list changes nothing but the entries of
  the named nodes: an equivocator is excluded with no reputation and retains its previous reputation less the slash,
  which is the base penalty while the weight of the equivocators of its proof round is within the correlation threshold
  and everything beyond; an inactive node gets its decayed previous reputation.  Each equivocation was authorised for
  this round, each named node was active before, and an inactive node took no part in the ratings.
\<close>

theorem penalties_exact:
  assumes "apply_reputation_penalties hash nxt prev rs events cfg = Inr nxt'"
    and "ascending (vec_values prev)" "ascending (entries nxt)"
  shows "nxt' = nxt\<lparr>entries := map (penalized prev events cfg) (entries nxt)\<rparr> \<and>
    (\<forall>p \<in> set (equivocations events). validate_authorization hash p (events_round events) = Inr () \<and>
       (\<exists>e. entry_of (vec_values prev) (offender p) = Some e \<and> \<not> is_excluded e)) \<and>
    (\<forall>p \<in> set (inactivity events). missed_rounds p = 1 \<and>
       (\<exists>e. entry_of (vec_values prev) (inactive_offender p) = Some e \<and> \<not> is_excluded e) \<and>
       (\<forall>r \<in> set rs. rater r \<noteq> inactive_offender p \<and> recipient r \<noteq> inactive_offender p)) \<and>
    distinct (map offender (equivocations events)) \<and> distinct (map inactive_offender (inactivity events)) \<and>
    offender ` set (equivocations events) \<inter> inactive_offender ` set (inactivity events) = {} \<and>
    events_round events = list_round nxt"
  using apply_penalties_ok [OF assms] by blast

theorem penalties_exact_witness:
  "\<exists>l. apply_reputation_penalties zero_hash \<lparr>list_round = 2, entries = [new_entry pa 4, new_entry pb 2]\<rparr> sp_prev [sp_rating] sp_events sp_cfg = Inr l \<and>
     entries l = map (penalized sp_prev sp_events sp_cfg) [new_entry pa 4, new_entry pb 2]"
proof -
  have "ascending [new_entry pa 4, new_entry pb 2]" by (simp add: sp_order)
  with penalties_exact [OF sp_penalized] sp_penalized sp_asc show ?thesis by (simp add: sp_prev)
qed

section \<open>Authorization and audit\<close>

text \<open>
  C25.  An authorization cannot be moved.  With a collision-free hash, two equivocation penalties that are valid for
  their rounds and carry the same binding name the same offender, the same evidence, the same round and the same
  authorization context.
\<close>

theorem authorization_cannot_be_moved:
  assumes "collision_free hash" "validate_authorization hash p rnd = Inr ()" "validate_authorization hash p' rnd' = Inr ()"
    and "map_option binding (authorization p) = map_option binding (authorization p')"
    and "node_fits (offender p)" "node_fits (offender p')"
  shows "offender p = offender p' \<and> evidence_bytes p = evidence_bytes p' \<and> rnd = rnd' \<and>
    map_option authorized_context (authorization p) = map_option authorized_context (authorization p')"
  by (rule authorization_binds [OF assms])

definition plain_hash :: hasher where
  "plain_hash bs = bs"

definition sp_bound_penalty :: equivocation_penalty where
  "sp_bound_penalty = sp_penalty\<lparr>authorization := Some \<lparr>authorized_context = Wave \<lparr>auth_shard = [7], auth_wave = 1, auth_round = 2\<rparr>,
     binding = POR_EQUIVOCATION_AUTHORIZATION_DOMAIN @ put_bytes [7] @ u64_be 1 @ u64_be 2 @ put_bytes (node_bytes pa) @ put_bytes [9],
     authorized_proof_round = 1\<rparr>\<rparr>"

theorem authorization_cannot_be_moved_witness:
  "validate_authorization plain_hash sp_bound_penalty 2 = Inr () \<and> validate_authorization plain_hash sp_bound_penalty 3 \<noteq> Inr ()"
proof -
  have cf: "collision_free plain_hash" by (simp add: collision_free_def plain_hash_def)
  have v: "validate_authorization plain_hash sp_bound_penalty 2 = Inr ()"
    by (simp add: validate_authorization_def sp_bound_penalty_def sp_penalty_def authorized_payload_def authorization_payload_def
        rating_round_from_finalized_wave_def checked_add_def sp_limits plain_hash_def pa_def)
  have f: "node_fits (offender sp_bound_penalty)" by (simp add: sp_bound_penalty_def sp_penalty_def node_fits_def pa_def)
  show ?thesis using authorization_cannot_be_moved [OF cf v _ refl f f, of 3] v by auto
qed

text \<open>
  C21.  The audit accepts exactly the replayed block.  An audit of a wave block succeeds if and only if the block is
  well formed, its penalties belong to the audited context, version, shard, wave and link to the previous block are
  the expected ones, its three input commitments are those of the auditor's configuration, ratings and penalties, and
  its list is the one the auditor replays.
\<close>

theorem audit_accepts_exactly_replay:
  assumes "scale cfg < 2 ^ 64"
  shows "verify_reputation_transition_with_penalties hash prev rs b ctx cfg penalties = Inr () \<longleftrightarrow>
     validate_reputation_block hash b = Inr () \<and> validate_penalty_context penalties ctx = Inr () \<and>
     version (header b) = REPUTATION_BLOCK_VERSION \<and> shard_id (header b) = ctx_shard ctx \<and>
     source_finalized_wave (header b) = ctx_wave ctx \<and>
     previous_reputation_hash hash (ctx_shard ctx) (header_round (header b)) (ctx_previous ctx) = Inr (previous_hash (header b)) \<and>
     config_hash (header b) = config_commitment hash cfg \<and>
     rating_batch_commitment hash \<lparr>batch_round = header_round (header b), batch_ratings = rs\<rparr> cfg = Inr (ratings_hash (header b)) \<and>
     penalty_events_commitment hash (header_round (header b)) penalties = Inr (penalties_hash (header b)) \<and>
     replay_reputation_transition_with_penalties hash prev rs (list_round (block_list b)) cfg penalties = Inr (block_list b)"
  (is "?v \<longleftrightarrow> ?r")
proof
  assume ?v
  then show ?r using verified_list [OF _ assms] unfolding verify_transition_ok by blast
next
  assume ?r
  then show ?v unfolding verify_transition_ok by blast
qed

theorem audit_accepts_exactly_replay_witness:
  "replay_reputation_transition_with_penalties zero_hash sp_prev [sp_rating] 2 sp_cfg None = Inr (block_list sp_block) \<and>
   config_hash (header sp_block) = config_commitment zero_hash sp_cfg"
proof -
  have "build_reputation_block_with_penalties zero_hash sp_ctx \<lparr>batch_round = 2, batch_ratings = [sp_rating]\<rparr>
      \<lparr>list_round = 2, entries = [new_entry pa 4, new_entry pb 2]\<rparr> sp_cfg None = Inr sp_block"
    using sp_built by (simp only: sp_list_def)
  from audit_accepts_exactly_replay [OF sp_config(2), THEN iffD1, OF built_block_verifies [OF sp_replay sp_config(2) this]]
  show ?thesis by (simp add: sp_block_def sp_list_def REPUTATION_BLOCK_VERSION_def)
qed

text \<open>
  C22.  Honest blocks pass.  A block built over the list a node replays, for a wave or for a checkpoint, passes the audit
  of every node that starts from the same previous list, ratings, configuration and penalties.
\<close>

theorem built_blocks_pass_audit:
  assumes "replay_reputation_transition_with_penalties hash prev rs rnd cfg penalties = Inr l" "scale cfg < 2 ^ 64"
  shows "(build_reputation_block_with_penalties hash ctx \<lparr>batch_round = rnd, batch_ratings = rs\<rparr> l cfg penalties = Inr b \<longrightarrow>
      verify_reputation_transition_with_penalties hash prev rs b ctx cfg penalties = Inr ()) \<and>
    (build_checkpoint_reputation_block_with_penalties hash cctx \<lparr>batch_round = rnd, batch_ratings = rs\<rparr> l cfg penalties = Inr b' \<longrightarrow>
      verify_checkpoint_reputation_transition_with_penalties hash prev rs b' cctx cfg penalties = Inr ())"
  using built_block_verifies [OF assms] built_checkpoint_block_verifies [OF assms] by blast

theorem built_blocks_pass_audit_witness:
  "verify_reputation_transition_with_penalties zero_hash sp_prev [sp_rating] sp_block sp_ctx sp_cfg None = Inr ()"
  using built_blocks_pass_audit [OF sp_replay sp_config(2)] sp_built unfolding sp_list_def by blast

text \<open>
  C26.  The hash of a reputation block commits to all of it.  Two valid blocks with the same hash are equal, header and
  list, when the hash function does not collide on the strings that are hashed for them.
\<close>

theorem block_hash_commits_to_block:
  assumes "inj_on hash (committed_bytes b \<union> committed_bytes b')"
    and "reputation_block_hash hash b = Inr x" "reputation_block_hash hash b' = Inr x" "block_fits b" "block_fits b'"
  shows "b = b'"
  using block_hash_inject [OF assms(1-3)] assms(4,5) by (simp add: block_fits_def)

definition root_hash :: hasher where
  "root_hash bs = replicate 32 (if bs = list_preimage sp_list then 0 else 1)"

lemma sp_block_fits: "block_fits sp_block"
  by (simp add: block_fits_def header_fits_def list_fits_def entry_fits_def node_fits_def sp_block_def sp_list_def pa_def pb_def)

theorem block_hash_commits_to_block_witness:
  "\<exists>x. reputation_block_hash root_hash sp_block = Inr x \<and>
     (\<forall>b. committed_bytes b \<subseteq> committed_bytes sp_block \<longrightarrow> block_fits b \<longrightarrow> reputation_block_hash root_hash b = Inr x \<longrightarrow> b = sp_block)"
proof -
  have "reputation_list_commitment root_hash sp_list = Inr (replicate 32 0)"
    using sp_root by (simp add: list_commitment_ok root_hash_def list_preimage_def)
  then have v: "validate_reputation_block root_hash sp_block = Inr ()"
    using sp_block_valid unfolding validate_block_ok by (simp add: sp_block_def)
  obtain bs where bs: "block_hash_bytes (header sp_block) = Inr bs"
    by (cases "block_hash_bytes (header sp_block)") (auto simp: block_hash_bytes_def cm_put_bytes_def cm_put_len_def sp_block_def u64_try_def)
  have h: "reputation_block_hash root_hash sp_block = Inr (root_hash bs)" by (simp add: reputation_block_hash_def v bs)
  have "committed_bytes sp_block = {bs, list_preimage sp_list}"
    using bs by (auto simp: committed_bytes_def) (simp_all add: sp_block_def)
  then have inj: "inj_on root_hash (committed_bytes sp_block)" by (auto simp: root_hash_def)
  have "b = sp_block" if b: "committed_bytes b \<subseteq> committed_bytes sp_block" "block_fits b" "reputation_block_hash root_hash b = Inr (root_hash bs)" for b
    using block_hash_commits_to_block [OF _ b(3) h b(2) sp_block_fits] inj_on_subset [OF inj] b(1) by simp
  then show ?thesis using h by blast
qed

section \<open>The local state\<close>

text \<open>
  C23.  Reputation state.  In every state reached from an empty one by ratings, assignments, ejections, vectors and audited
  blocks, the list belongs to the current round, is strictly sorted and well formed, and the registry of ejected keys is a
  sorted set that holds exactly the excluded entries.  Whatever happens afterwards, an ejected key stays in the registry
  and in the list, with no reputation.
\<close>

theorem reachable_reputation_state:
  assumes "por_reachable hash st" "(por_step hash)\<^sup>*\<^sup>* st st'"
  shows "state_inv st' \<and> set (excluded_keys st) \<subseteq> set (excluded_keys st') \<and>
    (\<forall>n \<in> set (excluded_keys st). \<exists>e \<in> set (entries (st_list st')). entry_node e = n \<and> is_excluded e \<and> reputation e = 0)"
proof -
  have "state_inv st' \<and> set (excluded_keys st) \<subseteq> set (excluded_keys st')"
    using assms(2)
  proof (induction rule: rtranclp_induct)
    case base
    then show ?case using por_reachable_inv [OF assms(1)] by simp
  next
    case (step y z)
    then show ?case using step_inv step_ejected by blast
  qed
  moreover from this have "\<exists>e \<in> set (entries (st_list st')). entry_node e = n \<and> is_excluded e \<and> reputation e = 0" if "n \<in> set (excluded_keys st)" for n
    using that state_invD(2,4,5) [of st'] by (fastforce simp: valid_entries_def entry_valid_def)
  ultimately show ?thesis by blast
qed

theorem reachable_reputation_state_witness:
  "\<exists>st st'. eject_validator pa sp_state = Inr st \<and> apply_reputation_vector \<lparr>vec_round = 2, vec_values = [new_entry pb 4]\<rparr> st = Inr st' \<and>
     state_inv st' \<and> pa \<in> set (excluded_keys st') \<and> pa \<in> nodes_of (entries (st_list st'))"
proof -
  have "por_reachable zero_hash (new_state 1)" by (rule por_reachable.start)
  then have "por_reachable zero_hash (set_reputation pa 4 (new_state 1))" by (rule por_reachable.step) (rule por_step.assign)
  then have r: "por_reachable zero_hash sp_state" unfolding sp_state_def by (rule por_reachable.step) (rule por_step.assign)
  have "\<not> isl (eject_validator pa sp_state)" by code_simp
  then obtain st where st: "eject_validator pa sp_state = Inr st" by (cases "eject_validator pa sp_state") auto
  have "map_sum id (\<lambda>st. pa \<in> set (excluded_keys st)) (eject_validator pa sp_state) = Inr True" by code_simp
  then have x: "pa \<in> set (excluded_keys st)" using st by simp
  have "\<not> isl (res_bind (eject_validator pa sp_state) (apply_reputation_vector \<lparr>vec_round = 2, vec_values = [new_entry pb 4]\<rparr>))" by code_simp
  then obtain st' where st': "apply_reputation_vector \<lparr>vec_round = 2, vec_values = [new_entry pb 4]\<rparr> st = Inr st'"
    using st by (cases "apply_reputation_vector \<lparr>vec_round = 2, vec_values = [new_entry pb 4]\<rparr> st") auto
  have "por_reachable zero_hash st" using r por_step.eject [OF st] by (rule por_reachable.step)
  moreover have "(por_step zero_hash)\<^sup>*\<^sup>* st st'" using por_step.vector [OF st'] by (rule r_into_rtranclp)
  ultimately have c: "state_inv st' \<and> set (excluded_keys st) \<subseteq> set (excluded_keys st') \<and>
      (\<forall>n \<in> set (excluded_keys st). \<exists>e \<in> set (entries (st_list st')). entry_node e = n \<and> is_excluded e \<and> reputation e = 0)"
    by (rule reachable_reputation_state)
  then have "pa \<in> nodes_of (entries (st_list st'))" using x by (metis imageI)
  then show ?thesis using st st' c x by blast
qed

text \<open>
  Weights for consensus.  In every reachable state \<open>authorized_validator_weights\<close> succeeds exactly when the
  authorized set is not empty, every member is listed, and the sum of the weights is positive and below \<open>2\<^sup>1\<^sup>2\<^sup>8\<close>; it then
  gives every authorized validator its reputation, zero for an ejected one, once, and no other node anything.
\<close>

theorem authorized_weights_exact:
  assumes "por_reachable hash st"
  shows "((\<exists>ws. authorized_validator_weights st vs = Inr ws) \<longleftrightarrow> vs \<noteq> [] \<and> set vs \<subseteq> nodes_of (entries (st_list st)) \<and>
      0 < (\<Sum>v \<in> set vs. voting_weight st v) \<and> (\<Sum>v \<in> set vs. voting_weight st v) < 2 ^ 128) \<and>
    (\<forall>ws. authorized_validator_weights st vs = Inr ws \<longrightarrow>
      map_of ws = (\<lambda>v. if v \<in> set vs then Some (voting_weight st v) else None))"
  using authorized_weights_ok [OF por_reachable_inv [OF assms], of vs] by (auto simp: fun_eq_iff)

section \<open>Wire formats\<close>

text \<open>
  C27.  Published blocks.  With a 32-byte hash, \<open>decode_reputation_block\<close> returns a block from a byte string if and only
  if \<open>encode_reputation_block\<close> produces exactly that string for it: every encodable block is read back, and no other bytes
  are accepted.
\<close>

theorem block_wire_bijective:
  assumes "\<And>x. length (hash x) = 32"
  shows "decode_reputation_block hash bytes = Inr b \<longleftrightarrow> block_fits b \<and> encode_reputation_block hash b = Inr bytes"
  by (rule decode_block_ok [OF assms])

lemma zero_hash_length: "length (zero_hash x) = 32"
  by (simp add: zero_hash_def)

lemma sp_encoded: "\<exists>bytes. encode_reputation_block zero_hash sp_block = Inr bytes \<and> length bytes \<le> MAX_REPUTATION_BLOCK_WIRE_LEN"
proof -
  have "length (block_bytes sp_block) \<le> PL_MAX"
    by (simp add: block_bytes_def sp_block_def sp_list_def list_bytes_def entry_bytes_def put_bytes_def checkpoint_bytes_def previous_bytes_def
        be.enc_length pa_def pb_def Let_def MAX_REPUTATION_BLOCK_PAYLOAD_LEN_def MAX_REPUTATION_BLOCK_WIRE_LEN_def FIXED_ENVELOPE_LEN_def)
  then have "encode_reputation_block_payload zero_hash sp_block = Inr (block_bytes sp_block)"
    by (simp add: encode_payload_ok sp_block_valid) (simp add: sp_block_def sp_list_def node_short_def sp_limits pa_def pb_def)
  then obtain bytes where "encode_reputation_block zero_hash sp_block = Inr bytes" unfolding encode_block_ok by blast
  moreover from this have "decode_reputation_block zero_hash bytes = Inr sp_block"
    using decode_block_ok [of zero_hash, OF zero_hash_length] sp_block_fits by blast
  ultimately show ?thesis by (auto simp: decode_reputation_block_def split: if_splits)
qed

theorem block_wire_bijective_witness:
  "\<exists>bytes. encode_reputation_block zero_hash sp_block = Inr bytes \<and> decode_reputation_block zero_hash bytes = Inr sp_block"
  using sp_encoded block_wire_bijective [of zero_hash, OF zero_hash_length] sp_block_fits by blast

text \<open>
  Snapshots.  With a 32-byte hash, a state is decoded from a byte string if and only if it is a state a node can hold
  and its snapshot encoding is exactly that string.
\<close>

theorem snapshot_wire_bijective:
  assumes "\<And>x. length (hash x) = 32"
  shows "decode_reputation_state_snapshot hash bytes = Inr st \<longleftrightarrow> state_fits st \<and> encode_reputation_state_snapshot hash st = Inr bytes"
  by (rule decode_snapshot_ok [OF assms])

end
