(* ===== verification/Rating_Source.thy ===== *)
theory Rating_Source
  imports Por_State Ordering "HOL-Library.Sublist"
begin

text \<open>
  \<open>ordered_output.rs\<close>, \<open>por/finality.rs\<close>, \<open>por/interactions.rs\<close> and \<open>por/epoch_policy.rs\<close> of the adapter: the exported
  finalized order, the checkpoints a rating round is bound to, the cursor over finalized waves, and the
  block-production evidence every rater derives from the finalized blocks.  The clock is an argument of
  \<open>new_output\<close> and the hash a parameter.  An index of a \<open>u64\<close> always fits \<open>usize\<close>, so those conversions
  cannot fail.
\<close>

section \<open>Exported order\<close>

record ordered_output =
  out_blocks :: "block_identity list"
  anchor :: "block_identity option"
  wavelength :: nat
  bond_count :: nat
  total_mirrored_blocks :: nat
  computed_at_ns :: nat

definition new_output ::
  "nat \<Rightarrow> block_identity list \<Rightarrow> block_identity option \<Rightarrow> nat \<Rightarrow> nat \<Rightarrow> nat \<Rightarrow> ordered_output" where
  "new_output now bs a wl bonds mirrored =
     \<lparr>out_blocks = map consensus_identity bs, anchor = map_option consensus_identity a, wavelength = wl,
      bond_count = bonds, total_mirrored_blocks = mirrored, computed_at_ns = now\<rparr>"

definition block_hashes :: "ordered_output \<Rightarrow> byte list list" where
  "block_hashes out = map content_hash (out_blocks out)"

definition anchor_hash :: "ordered_output \<Rightarrow> byte list option" where
  "anchor_hash out = map_option content_hash (anchor out)"

definition preserves_prefix :: "ordered_output \<Rightarrow> ordered_output \<Rightarrow> bool" where
  "preserves_prefix out previous \<longleftrightarrow> prefix (out_blocks previous) (out_blocks out)"

definition with_timestamp :: "ordered_output \<Rightarrow> nat \<Rightarrow> ordered_output" where
  "with_timestamp out ns = out\<lparr>computed_at_ns := ns\<rparr>"

section \<open>Checkpoints of the finalized prefix\<close>

datatype (plugins only: code) finality_error =
    InvalidWavelength | UnknownFinalLeader | UnanchoredFinalizedPrefix | InvalidPrefixCheckpointRound
  | PrefixCheckpointMismatch | ConflictingFinalLeader nat | MissingFinalLeaderForWave nat
  | HistoricalPrefixMismatch nat | Ordering ordering_error | RatingRound por_error

definition POR_FINALIZED_PREFIX_HASH_DOMAIN :: "byte list" where
  "POR_FINALIZED_PREFIX_HASH_DOMAIN = ascii ''cordial-por:finalized-prefix:v1''"

record prefix_checkpoint =
  por_round :: nat
  checkpoint_prefix_len :: nat
  prefix_hash :: "byte list"
  terminal_block :: block_identity

definition rating_source :: "prefix_checkpoint \<Rightarrow> source_checkpoint" where
  "rating_source cp = \<lparr>src_round = por_round cp, finalized_prefix_len = checkpoint_prefix_len cp,
     finalized_prefix_hash = prefix_hash cp\<rparr>"

definition finalized_wave_from_output :: "blocklace \<Rightarrow> ordered_output \<Rightarrow> finality_error + nat option" where
  "finalized_wave_from_output bl out =
     (case anchor out of None \<Rightarrow> Inr None
      | Some ldr \<Rightarrow>
          if wavelength out = 0 then Inl InvalidWavelength
          else res_bind (ok_or (depth bl ldr) UnknownFinalLeader) (\<lambda>leader_round.
            ok_or (map_option Some (wave_of_round leader_round (wavelength out))) InvalidWavelength))"

definition prefix_hash_input :: "byte list \<Rightarrow> nat \<Rightarrow> block_identity \<Rightarrow> byte list" where
  "prefix_hash_input h i b =
     POR_FINALIZED_PREFIX_HASH_DOMAIN @ h @ u64_be i @ content_hash b @ put_bytes (node_bytes (creator b)) @
     put_bytes (signature b)"

definition rolling_prefix_hash :: "hasher \<Rightarrow> block_identity list \<Rightarrow> byte list" where
  "rolling_prefix_hash hash bs =
     fold (\<lambda>(i, b) h. hash (prefix_hash_input h i b)) (enumerate 0 bs) (hash POR_FINALIZED_PREFIX_HASH_DOMAIN)"

definition finalized_prefix_checkpoint ::
  "hasher \<Rightarrow> ordered_output \<Rightarrow> nat \<Rightarrow> finality_error + prefix_checkpoint option" where
  "finalized_prefix_checkpoint hash out rnd =
     (if rnd = 0 then Inl InvalidPrefixCheckpointRound
      else res_bind (ok_or (checked_mul 64 rnd POR_FINALIZED_BLOCKS_PER_CHECKPOINT) InvalidPrefixCheckpointRound) (\<lambda>prefix_end.
        let index = prefix_end - 1 in
        if anchor out = None
        then (if out_blocks out = [] then Inr None else Inl UnanchoredFinalizedPrefix)
        else Inr (if index < length (out_blocks out)
          then Some \<lparr>por_round = rnd, checkpoint_prefix_len = prefix_end,
                     prefix_hash = rolling_prefix_hash hash (take (index + 1) (out_blocks out)),
                     terminal_block = out_blocks out ! index\<rparr>
          else None)))"

definition validate_finalized_prefix_checkpoint ::
  "hasher \<Rightarrow> ordered_output \<Rightarrow> prefix_checkpoint \<Rightarrow> finality_error + unit" where
  "validate_finalized_prefix_checkpoint hash out cp =
     res_bind (finalized_prefix_checkpoint hash out (por_round cp)) (\<lambda>expected_cp.
       if expected_cp = Some cp then Inr () else Inl PrefixCheckpointMismatch)"

section \<open>Replaying an earlier wave\<close>

text \<open>The leaders rotate over the bonded validators in the order of their identifiers.\<close>

definition rotating_leader :: "node_id list \<Rightarrow> leader_selection" where
  "rotating_leader validators selected_wave = Some (validators ! (selected_wave mod length validators))"

definition replayed_blocks ::
  "blocklace \<Rightarrow> block_identity \<Rightarrow> nat \<Rightarrow> (node_id \<times> nat) list \<Rightarrow> node_id list
     \<Rightarrow> (ordering_error + block_identity list) option" where
  "replayed_blocks bl ldr wl bonds validators =
     (if length validators = 1 \<and> checkpoint bl = None
      then Some (xsort (collect_blocks (List.map_filter (get_block bl) (observe bl ldr))))
      else weighted_tau_at_leader bl ldr wl bonds (rotating_leader validators))"

text \<open>\<open>None\<close> is the ordering walk out of fuel, which a store that was not pruned never runs out of (\<open>replayed_blocks_total\<close>).\<close>

definition finalized_output_for_wave ::
  "blocklace \<Rightarrow> ordered_output \<Rightarrow> (node_id \<times> nat) list \<Rightarrow> nat \<Rightarrow> nat \<Rightarrow> (finality_error + ordered_output option) option" where
  "finalized_output_for_wave bl latest bonds now wave =
     (case finalized_wave_from_output bl latest of
        Inl e \<Rightarrow> Some (Inl e)
      | Inr None \<Rightarrow> Some (Inr None)
      | Inr (Some latest_wave) \<Rightarrow>
          if wave > latest_wave then Some (Inr None)
          else if wave = latest_wave then Some (Inr (Some latest))
          else if bonds = [] then Some (Inl (MissingFinalLeaderForWave wave))
          else let validators = sort (map fst bonds) in
            case weighted_final_leader_for_wave bl wave (wavelength latest) bonds (rotating_leader validators) of
              None \<Rightarrow> Some (Inl (MissingFinalLeaderForWave wave))
            | Some ldr \<Rightarrow>
                map_option (\<lambda>r. res_bind (map_err Ordering r) (\<lambda>bs.
                  if \<not> prefix bs (out_blocks latest) \<or> consensus_identity ldr \<notin> set bs
                  then Inl (HistoricalPrefixMismatch wave)
                  else Inr (Some (with_timestamp
                    (new_output now bs (Some ldr) (wavelength latest) (bond_count latest) (total_mirrored_blocks latest))
                    (computed_at_ns latest)))))
                  (replayed_blocks bl ldr (wavelength latest) bonds validators))"

section \<open>The cursor over finalized waves\<close>

record finalized_round =
  finalized_wave :: nat
  rating_round :: nat

record finality_tracker =
  last_opened_wave :: "nat option"
  last_final_leader :: "block_identity option"

definition new_tracker :: finality_tracker where
  "new_tracker = \<lparr>last_opened_wave = None, last_final_leader = None\<rparr>"

definition open_round :: "nat \<Rightarrow> finality_error + finalized_round" where
  "open_round w = res_bind (map_err RatingRound (rating_round_from_finalized_wave w)) (\<lambda>r.
     Inr \<lparr>finalized_wave = w, rating_round = r\<rparr>)"

definition observe_finalized_output ::
  "blocklace \<Rightarrow> ordered_output \<Rightarrow> finality_tracker \<Rightarrow> finality_error + finalized_round list \<times> finality_tracker" where
  "observe_finalized_output bl out t =
     res_bind (finalized_wave_from_output bl out) (\<lambda>w.
       case w of None \<Rightarrow> Inr ([], t)
       | Some wave \<Rightarrow>
           let open_missing = (\<lambda>first_missing_wave.
             res_bind (res_map open_round [first_missing_wave..<wave + 1]) (\<lambda>rounds.
               Inr (rounds, \<lparr>last_opened_wave = Some wave, last_final_leader = anchor out\<rparr>))) in
           case last_opened_wave t of
             None \<Rightarrow> open_missing wave
           | Some last_opened \<Rightarrow>
               if wave < last_opened then Inr ([], t)
               else if wave = last_opened
               then (if last_final_leader t = anchor out then Inr ([], t) else Inl (ConflictingFinalLeader wave))
               else open_missing (last_opened + 1))"

section \<open>Block-production evidence\<close>

datatype (plugins only: code) interaction_error =
    MissingFinalLeader | InvalidWavelength | UnknownFinalLeader | UnknownFinalizedBlock | FinalizedRoundMismatch
  | Checkpoint finality_error | RatingRound por_error | Admission por_error

text \<open>One block per producer: the least identity, whatever the order of the blocks.\<close>

definition add_canonical :: "block_identity \<Rightarrow> (node_id \<times> block_identity) list \<Rightarrow> (node_id \<times> block_identity) list" where
  "add_canonical b m =
     (case map_of m (creator b) of
        None \<Rightarrow> bt_insert (creator b) b m
      | Some canonical \<Rightarrow> if b < canonical then bt_insert (creator b) b m else m)"

definition checkpoint_window :: "ordered_output \<Rightarrow> prefix_checkpoint \<Rightarrow> block_identity list" where
  "checkpoint_window out cp =
     take POR_FINALIZED_BLOCKS_PER_CHECKPOINT
       (drop (checkpoint_prefix_len cp - POR_FINALIZED_BLOCKS_PER_CHECKPOINT) (out_blocks out))"

definition validate_finalized_checkpoint_window ::
  "hasher \<Rightarrow> blocklace \<Rightarrow> ordered_output \<Rightarrow> prefix_checkpoint \<Rightarrow> interaction_error + unit" where
  "validate_finalized_checkpoint_window hash bl out cp =
     res_bind (map_err Checkpoint (validate_finalized_prefix_checkpoint hash out cp)) (\<lambda>_.
       res_bind (map_err Checkpoint (finalized_wave_from_output bl out)) (\<lambda>w.
         if w = None then Inl MissingFinalLeader
         else res_all (\<lambda>b. ensure (depth bl b \<noteq> None) UnknownFinalizedBlock) (checkpoint_window out cp)))"

definition extract_checkpoint_block_production_evidence ::
  "hasher \<Rightarrow> blocklace \<Rightarrow> ordered_output \<Rightarrow> prefix_checkpoint \<Rightarrow> node_id \<Rightarrow> interaction_error + checkpoint_interaction list" where
  "extract_checkpoint_block_production_evidence hash bl out cp who =
     res_bind (validate_finalized_checkpoint_window hash bl out cp) (\<lambda>_.
       let canonical_blocks = fold (\<lambda>b m. if creator b = who then m else add_canonical b m) (checkpoint_window out cp) [] in
       Inr (map (\<lambda>(whom, b). \<lparr>ci_source = rating_source cp, ci_kind = BlockProduction, ci_rater = who,
         ci_recipient = whom, ci_ref = content_hash b\<rparr>) canonical_blocks))"

definition is_active_recipient :: "reputation_state \<Rightarrow> node_id \<Rightarrow> bool" where
  "is_active_recipient st n \<longleftrightarrow>
     (case binary_search entry_node (entries (st_list st)) n of Inl _ \<Rightarrow> False | Inr _ \<Rightarrow> True) \<and> \<not> is_ejected st n"

definition admit_checkpoint_block_production_interactions ::
  "hasher \<Rightarrow> blocklace \<Rightarrow> ordered_output \<Rightarrow> prefix_checkpoint \<Rightarrow> node_id \<Rightarrow> reputation_state
     \<Rightarrow> interaction_error + admitted_checkpoint_interaction list" where
  "admit_checkpoint_block_production_interactions hash bl out cp who st =
     res_bind (extract_checkpoint_block_production_evidence hash bl out cp who) (\<lambda>evidence.
       res_map (\<lambda>ev. map_err Admission (admit_checkpoint_interaction_evidence ev st))
         (filter (\<lambda>ev. is_active_recipient st (ci_recipient ev)) evidence))"

definition validate_finalized_rating_round ::
  "blocklace \<Rightarrow> ordered_output \<Rightarrow> finalized_round \<Rightarrow> interaction_error + unit" where
  "validate_finalized_rating_round bl out opened =
     res_bind (ok_or (anchor out) MissingFinalLeader) (\<lambda>ldr.
       if wavelength out = 0 then Inl InvalidWavelength
       else res_bind (ok_or (depth bl ldr) UnknownFinalLeader) (\<lambda>leader_round.
         res_bind (ok_or (wave_of_round leader_round (wavelength out)) InvalidWavelength) (\<lambda>wave.
           res_bind (map_err RatingRound (rating_round_from_finalized_wave wave)) (\<lambda>expected_round.
             if wave \<noteq> finalized_wave opened \<or> expected_round \<noteq> rating_round opened
             then Inl FinalizedRoundMismatch else Inr ()))))"

definition canonical_step ::
  "blocklace \<Rightarrow> ordered_output \<Rightarrow> nat \<Rightarrow> node_id \<Rightarrow> (node_id \<times> block_identity) list \<Rightarrow> block_identity
     \<Rightarrow> interaction_error + (node_id \<times> block_identity) list" where
  "canonical_step bl out wave who m b =
     res_bind (ok_or (depth bl b) UnknownFinalizedBlock) (\<lambda>block_round.
       res_bind (ok_or (wave_of_round block_round (wavelength out)) InvalidWavelength) (\<lambda>block_wave.
         Inr (if block_wave \<noteq> wave \<or> creator b = who then m else add_canonical b m)))"

definition extract_block_production_evidence ::
  "blocklace \<Rightarrow> ordered_output \<Rightarrow> finalized_round \<Rightarrow> node_id \<Rightarrow> interaction_error + interaction_evidence list" where
  "extract_block_production_evidence bl out opened who =
     res_bind (validate_finalized_rating_round bl out opened) (\<lambda>_.
       res_bind (res_fold (canonical_step bl out (finalized_wave opened) who) [] (out_blocks out)) (\<lambda>canonical_blocks.
         Inr (map (\<lambda>(whom, b). \<lparr>ie_wave = finalized_wave opened, ie_round = rating_round opened, ie_kind = BlockProduction,
           ie_rater = who, ie_recipient = whom, ie_ref = content_hash b\<rparr>) canonical_blocks)))"

definition admit_finalized_block_production_interactions ::
  "blocklace \<Rightarrow> ordered_output \<Rightarrow> finalized_round \<Rightarrow> node_id \<Rightarrow> reputation_state \<Rightarrow> interaction_error + admitted_interaction list" where
  "admit_finalized_block_production_interactions bl out opened who st =
     res_bind (extract_block_production_evidence bl out opened who) (\<lambda>evidence.
       res_map (\<lambda>ev. map_err Admission (admit_interaction_evidence ev st))
         (filter (\<lambda>ev. is_active_recipient st (ie_recipient ev)) evidence))"

section \<open>The wave at which new weights take effect\<close>

datatype (plugins only: code) epoch_policy_error =
  ZeroDelay | Source finality_error | UnknownTerminalBlock | WaveOverflow

datatype epoch_policy = EpochPolicy (delay_waves: nat)

definition new_epoch_policy :: "nat \<Rightarrow> epoch_policy_error + epoch_policy" where
  "new_epoch_policy d = (if d = 0 then Inl ZeroDelay else Inr (EpochPolicy d))"

definition effective_wave ::
  "hasher \<Rightarrow> epoch_policy \<Rightarrow> blocklace \<Rightarrow> ordered_output \<Rightarrow> prefix_checkpoint \<Rightarrow> epoch_policy_error + nat" where
  "effective_wave hash policy bl out src =
     res_bind (map_err Source (validate_finalized_prefix_checkpoint hash out src)) (\<lambda>_.
       res_bind (ok_or (depth bl (terminal_block src)) UnknownTerminalBlock) (\<lambda>rnd.
         res_bind (ok_or (wave_of_round rnd (wavelength out)) (Source finality_error.InvalidWavelength)) (\<lambda>source_wave.
           ok_or (checked_add 64 source_wave (delay_waves policy)) WaveOverflow)))"

end
