(* ===== verification/Rating_Source_Proofs.thy ===== *)
theory Rating_Source_Proofs
  imports Rating_Source Ordering_Proofs Por_State_Proofs
begin

text \<open>
  Facts about \<open>Rating_Source\<close>: the checkpoint of a round depends on the finalized prefix alone, its hash commits to
  that prefix, the cursor opens consecutive waves, and the evidence of a rater is one least block per producer.
\<close>

section \<open>Checkpoints\<close>

lemma checkpoint_ok:
  "finalized_prefix_checkpoint hash out r = Inr (Some cp) \<longleftrightarrow>
     0 < r \<and> r * 16 < 2 ^ 64 \<and> anchor out \<noteq> None \<and> r * 16 \<le> length (out_blocks out) \<and>
     cp = \<lparr>por_round = r, checkpoint_prefix_len = r * 16,
           prefix_hash = rolling_prefix_hash hash (take (r * 16) (out_blocks out)), terminal_block = out_blocks out ! (r * 16 - 1)\<rparr>"
proof (cases "r = 0")
  case False
  then have "r * 16 - 1 < length (out_blocks out) \<longleftrightarrow> r * 16 \<le> length (out_blocks out)" "r * 16 - 1 + 1 = r * 16" by linarith+
  then show ?thesis using False
    by (auto simp: finalized_prefix_checkpoint_def res_ok checked_defs POR_FINALIZED_BLOCKS_PER_CHECKPOINT_def Let_def)
qed (simp add: finalized_prefix_checkpoint_def)

lemma validate_checkpoint_ok [res_ok]:
  "validate_finalized_prefix_checkpoint hash out cp = Inr u \<longleftrightarrow>
     finalized_prefix_checkpoint hash out (por_round cp) = Inr (Some cp)"
  by (auto simp: validate_finalized_prefix_checkpoint_def res_ok)

lemma prefix_take: "prefix xs ys \<Longrightarrow> n \<le> length xs \<Longrightarrow> take n ys = take n xs"
  by (auto simp: prefix_def)

lemma prefix_nth_eq: "prefix xs ys \<Longrightarrow> n < length xs \<Longrightarrow> ys ! n = xs ! n"
  by (auto simp: prefix_def nth_append)

lemma checkpoint_stable:
  assumes "preserves_prefix out' out" "anchor out' \<noteq> None" "finalized_prefix_checkpoint hash out r = Inr (Some cp)"
  shows "finalized_prefix_checkpoint hash out' r = Inr (Some cp)"
proof -
  note p = assms(1) [unfolded preserves_prefix_def]
  note c = assms(3) [unfolded checkpoint_ok]
  have "r * 16 \<le> length (out_blocks out')" using c prefix_length_le [OF p] by linarith
  moreover have "r * 16 - 1 < length (out_blocks out)" using c by linarith
  ultimately show ?thesis
    unfolding checkpoint_ok using c assms(2) prefix_take [OF p] prefix_nth_eq [OF p, of "r * 16 - 1"] by simp
qed

lemma source_of_checkpoint:
  assumes "finalized_prefix_checkpoint hash out r = Inr (Some cp)"
  shows "validate_source (rating_source cp) = Inr ()" "por_round cp = r"
  using assms by (simp_all add: checkpoint_ok validate_source_ok rating_source_def)

section \<open>The rolling hash\<close>

definition prefix_inputs :: "hasher \<Rightarrow> block_identity list \<Rightarrow> byte list set" where
  "prefix_inputs hash bs = (\<lambda>i. prefix_hash_input (rolling_prefix_hash hash (take i bs)) i (bs ! i)) ` {..<length bs}"

definition identity_fits :: "block_identity \<Rightarrow> bool" where
  "identity_fits b \<longleftrightarrow> length (content_hash b) = 32 \<and> node_fits (creator b) \<and> length (signature b) < 2 ^ 64"

lemma rolling_snoc:
  "rolling_prefix_hash hash (bs @ [b]) = hash (prefix_hash_input (rolling_prefix_hash hash bs) (length bs) b)"
  by (simp add: rolling_prefix_hash_def enumerate_append_eq)

lemma prefix_inputs_snoc:
  "prefix_inputs hash (bs @ [b]) = insert (prefix_hash_input (rolling_prefix_hash hash bs) (length bs) b) (prefix_inputs hash bs)"
proof -
  have "(\<lambda>i. prefix_hash_input (rolling_prefix_hash hash (take i (bs @ [b]))) i ((bs @ [b]) ! i)) ` {..<length bs} = prefix_inputs hash bs"
    unfolding prefix_inputs_def by (rule image_cong) (simp_all add: nth_append)
  then show ?thesis by (simp add: prefix_inputs_def lessThan_Suc)
qed

lemma prefix_hash_input_inject:
  assumes "identity_fits b" "identity_fits b'" "length h = length h'" "i < 2 ^ 64" "i' < 2 ^ 64"
    and "prefix_hash_input h i b = prefix_hash_input h' i' b'"
  shows "h = h' \<and> b = b'"
proof -
  note f = assms(1,2) [unfolded identity_fits_def]
  have 1: "h = h' \<and> u64_be i @ content_hash b @ put_bytes (node_bytes (creator b)) @ put_bytes (signature b) =
      u64_be i' @ content_hash b' @ put_bytes (node_bytes (creator b')) @ put_bytes (signature b')"
    using assms(3,6) by (simp add: prefix_hash_input_def)
  note 2 = be.number_inject [OF assms(4,5) conjunct2 [OF 1]]
  have 3: "content_hash b = content_hash b' \<and> put_bytes (node_bytes (creator b)) @ put_bytes (signature b) =
      put_bytes (node_bytes (creator b')) @ put_bytes (signature b')"
    using conjunct2 [OF 2] f by simp
  have 4: "creator b = creator b' \<and> put_bytes (signature b) = put_bytes (signature b')"
    by (rule put_node_inject [OF _ _ conjunct2 [OF 3]]) (use f in simp_all)
  have 5: "signature b = signature b'"
    using put_bytes_inject [of "signature b" "signature b'" "[]" "[]"] conjunct2 [OF 4] f by simp
  show ?thesis using 1 3 4 5 by (simp add: block_identity.expand)
qed

lemma rolling_commits:
  assumes len: "\<And>x. length (hash x) = 32"
  shows "length bs = length bs' \<Longrightarrow> length bs < 2 ^ 64 \<Longrightarrow> \<forall>b \<in> set bs \<union> set bs'. identity_fits b \<Longrightarrow>
    inj_on hash (prefix_inputs hash bs \<union> prefix_inputs hash bs') \<Longrightarrow>
    rolling_prefix_hash hash bs = rolling_prefix_hash hash bs' \<Longrightarrow> bs = bs'"
proof (induction bs arbitrary: bs' rule: rev_induct)
  case (snoc b bs)
  then obtain c cs where c: "bs' = cs @ [c]" "length cs = length bs" by (cases bs' rule: rev_cases) auto
  have hl: "length (rolling_prefix_hash hash xs) = 32" for xs
    by (cases xs rule: rev_cases) (simp_all add: rolling_snoc len, simp add: rolling_prefix_hash_def len)
  let ?x = "prefix_hash_input (rolling_prefix_hash hash bs) (length bs) b"
  let ?y = "prefix_hash_input (rolling_prefix_hash hash cs) (length cs) c"
  have mem: "?x \<in> prefix_inputs hash (bs @ [b])" "?y \<in> prefix_inputs hash bs'"
    and sub: "prefix_inputs hash bs \<union> prefix_inputs hash cs \<subseteq> prefix_inputs hash (bs @ [b]) \<union> prefix_inputs hash bs'"
    by (auto simp: prefix_inputs_snoc c(1))
  have "hash ?x = hash ?y" using snoc.prems(5) by (simp add: rolling_snoc c(1))
  then have "?x = ?y" using inj_onD [OF snoc.prems(4)] mem by blast
  then have "rolling_prefix_hash hash bs = rolling_prefix_hash hash cs \<and> b = c"
    by (rule prefix_hash_input_inject [rotated 5]) (use snoc.prems(2,3) c hl in simp_all)
  then show ?case using snoc.IH [of cs] snoc.prems(2,3) c inj_on_subset [OF snoc.prems(4) sub] by simp
qed simp

section \<open>The cursor\<close>

lemma open_round_ok: "open_round w = Inr x \<longleftrightarrow> x = \<lparr>finalized_wave = w, rating_round = w + 1\<rparr> \<and> w + 1 < 2 ^ 64"
  by (auto simp: open_round_def res_ok)

lemma open_rounds_ok:
  "res_map open_round ws = Inr rs \<longleftrightarrow> rs = map (\<lambda>w. \<lparr>finalized_wave = w, rating_round = w + 1\<rparr>) ws \<and> (\<forall>w \<in> set ws. w + 1 < 2 ^ 64)"
  by (induction ws arbitrary: rs) (auto simp: res_bind_ok open_round_ok)

text \<open>Every observation of a sequence, a failed one leaving the cursor as it was, with the rounds it opened.\<close>

fun observe_sequence :: "finality_tracker \<Rightarrow> (blocklace \<times> ordered_output) list \<Rightarrow> finalized_round list \<times> finality_tracker" where
  "observe_sequence t [] = ([], t)"
| "observe_sequence t ((bl, out) # evs) =
     (case observe_finalized_output bl out t of
        Inl e \<Rightarrow> observe_sequence t evs
      | Inr (rs, t') \<Rightarrow> let (rest, u) = observe_sequence t' evs in (rs @ rest, u))"

definition rounds_between :: "nat \<Rightarrow> nat \<Rightarrow> finalized_round list" where
  "rounds_between oldest newest = map (\<lambda>w. \<lparr>finalized_wave = w, rating_round = w + 1\<rparr>) [oldest..<newest + 1]"

lemma rounds_join: "f \<le> w + 1 \<Longrightarrow> w \<le> l \<Longrightarrow> rounds_between f w @ rounds_between (w + 1) l = rounds_between f l"
  unfolding rounds_between_def map_append [symmetric]
  using upt_add_eq_append [of f "w + 1" "l - w"] by simp

lemma rounds_none [simp]: "rounds_between (Suc w) w = []"
  by (simp add: rounds_between_def)

definition opened_up_to :: "nat option \<Rightarrow> nat option \<Rightarrow> finalized_round list \<Rightarrow> bool" where
  "opened_up_to a b rs \<longleftrightarrow>
     (case b of None \<Rightarrow> a = None \<and> rs = []
      | Some newest \<Rightarrow>
          (case a of None \<Rightarrow> \<exists>oldest \<le> newest. rs = rounds_between oldest newest
           | Some w \<Rightarrow> w \<le> newest \<and> rs = rounds_between (w + 1) newest))"

lemma opened_refl: "opened_up_to a a []"
  by (auto simp: opened_up_to_def split: option.splits)

lemma opened_trans:
  assumes "opened_up_to a b rs" "opened_up_to b c ss"
  shows "opened_up_to a c (rs @ ss)"
proof (cases b)
  case None
  then show ?thesis using assms by (auto simp: opened_up_to_def split: option.splits)
next
  case (Some w)
  then obtain l where c: "c = Some l" "w \<le> l" "ss = rounds_between (w + 1) l"
    using assms(2) by (auto simp: opened_up_to_def split: option.splits)
  show ?thesis
  proof (cases a)
    case None
    then obtain f where "f \<le> w" "rs = rounds_between f w" using assms(1) Some by (auto simp: opened_up_to_def)
    then show ?thesis
      using c rounds_join [of f w l] None by (auto simp: opened_up_to_def intro!: exI [of _ f])
  next
    case (Some v)
    then show ?thesis using assms(1) \<open>b = Some w\<close> c rounds_join [of "v + 1" w l] by (simp add: opened_up_to_def)
  qed
qed

lemma open_missing_ok:
  "res_bind (res_map open_round [f..<l + 1]) (\<lambda>rs. Inr (rs, t)) = Inr (rs, t') \<Longrightarrow> rs = rounds_between f l \<and> t' = t"
  by (auto simp: res_bind_ok open_rounds_ok rounds_between_def)

lemma observe_opens:
  assumes "observe_finalized_output bl out t = Inr (rs, t')"
  shows "opened_up_to (last_opened_wave t) (last_opened_wave t') rs"
proof -
  obtain w where w: "finalized_wave_from_output bl out = Inr w"
    using assms by (auto simp: observe_finalized_output_def res_bind_ok)
  note a = assms [unfolded observe_finalized_output_def w res_bind_simps Let_def]
  show ?thesis
  proof (cases w)
    case None
    then show ?thesis using a by (simp add: opened_refl)
  next
    case (Some wave)
    show ?thesis
    proof (cases "last_opened_wave t")
      case None
      then show ?thesis using open_missing_ok [OF a [unfolded Some None option.case]] by (auto simp: opened_up_to_def)
    next
      case old: (Some w0)
      note b = a [unfolded Some old option.case]
      consider "wave < w0" | "wave = w0" | "w0 < wave" by linarith
      then show ?thesis
      proof cases
        case 3
        then have "res_bind (res_map open_round [w0 + 1..<wave + 1]) (\<lambda>rs. Inr (rs, \<lparr>last_opened_wave = Some wave, last_final_leader = anchor out\<rparr>)) = Inr (rs, t')"
          using b by simp
        from open_missing_ok [OF this] 3 show ?thesis by (auto simp: opened_up_to_def old)
      qed (use b old in \<open>auto simp: opened_refl simp del: upt_Suc split: if_splits\<close>)
    qed
  qed
qed

lemma observe_sequence_opens:
  "observe_sequence t evs = (rs, t') \<Longrightarrow> opened_up_to (last_opened_wave t) (last_opened_wave t') rs"
proof (induction t evs arbitrary: rs t' rule: observe_sequence.induct)
  case (2 t bl out evs)
  show ?case
  proof (cases "observe_finalized_output bl out t")
    case (Inl e)
    then show ?thesis using 2 by simp
  next
    case (Inr x)
    obtain r1 t1 where x: "x = (r1, t1)" by (cases x)
    obtain r2 t2 where s: "observe_sequence t1 evs = (r2, t2)" by (cases "observe_sequence t1 evs")
    have "opened_up_to (last_opened_wave t1) (last_opened_wave t2) r2" using "2.IH"(2) [OF Inr x [symmetric] s] .
    then show ?thesis using "2.prems" opened_trans [OF observe_opens [OF Inr [unfolded x]]] by (auto simp: Inr x s)
  qed
qed (simp add: opened_refl)

section \<open>Evidence\<close>

definition least_of :: "'a::linorder set \<Rightarrow> 'a option" where
  "least_of S = (if S = {} then None else Some (Min S))"

lemma least_of_insert:
  "finite S \<Longrightarrow> least_of (insert b S) = (case least_of S of None \<Rightarrow> Some b | Some c \<Rightarrow> Some (if b < c then b else c))"
proof (cases "S = {}")
  case False
  have "min b c = (if b < c then b else c)" for c :: 'a by (auto simp: min_def)
  moreover assume "finite S"
  ultimately show ?thesis using False Min_insert [of S b] by (simp add: least_of_def del: Min_gr_iff Min_ge_iff)
qed (simp add: least_of_def)

definition canonical_of :: "(block_identity \<Rightarrow> bool) \<Rightarrow> block_identity list \<Rightarrow> (node_id \<times> block_identity) list \<Rightarrow> bool" where
  "canonical_of P bs m \<longleftrightarrow> sorted_wrt (<) (map fst m) \<and> (\<forall>n. map_of m n = least_of {b \<in> set bs. P b \<and> creator b = n})"

lemma canonical_Nil [simp]: "canonical_of P [] []"
  by (simp add: canonical_of_def least_of_def)

lemma canonical_snoc:
  assumes "canonical_of P bs m"
  shows "canonical_of P (bs @ [b]) (if P b then add_canonical b m else m)"
proof -
  have s: "sorted_wrt (<) (map fst m)" and m: "map_of m n = least_of {b \<in> set bs. P b \<and> creator b = n}" for n
    using assms by (simp_all add: canonical_of_def)
  have S: "{c \<in> set (bs @ [b]). P c \<and> creator c = n} =
      (if P b \<and> creator b = n then insert b {c \<in> set bs. P c \<and> creator c = n} else {c \<in> set bs. P c \<and> creator c = n})" for n
    by auto
  have l: "least_of (insert b {c \<in> set bs. P c \<and> creator c = n}) =
      (case map_of m n of None \<Rightarrow> Some b | Some c \<Rightarrow> Some (if b < c then b else c))" for n
    unfolding m by (rule least_of_insert) simp
  have "map_of (add_canonical b m) n = (if creator b = n
      then (case map_of m n of None \<Rightarrow> Some b | Some c \<Rightarrow> Some (if b < c then b else c)) else map_of m n)" for n
    by (simp add: add_canonical_def map_of_bt_insert [OF s] split: option.split)
  moreover have "sorted_wrt (<) (map fst (add_canonical b m))"
    using s sorted_bt_insert [OF s] by (simp add: add_canonical_def split: option.split)
  ultimately show ?thesis unfolding canonical_of_def S using s l m by simp
qed

lemma canonical_fold:
  "canonical_of P cs m \<Longrightarrow> canonical_of P (cs @ bs) (fold (\<lambda>b m. if P b then add_canonical b m else m) bs m)"
proof (induction bs arbitrary: cs m)
  case (Cons b bs)
  from Cons.IH [OF canonical_snoc [OF Cons.prems, of b]] show ?case by simp
qed simp

definition wave_of_identity :: "blocklace \<Rightarrow> ordered_output \<Rightarrow> block_identity \<Rightarrow> nat option" where
  "wave_of_identity bl out b = Option.bind (depth bl b) (\<lambda>d. wave_of_round d (wavelength out))"

lemma canonical_step_ok:
  "canonical_step bl out wave who m b = Inr m' \<longleftrightarrow> wave_of_identity bl out b \<noteq> None \<and>
     m' = (if wave_of_identity bl out b = Some wave \<and> creator b \<noteq> who then add_canonical b m else m)"
  by (cases "depth bl b"; cases "wave_of_round (the (depth bl b)) (wavelength out)")
    (auto simp: canonical_step_def wave_of_identity_def res_ok)

lemma canonical_res_fold:
  "res_fold (canonical_step bl out wave who) m bs = Inr m' \<longleftrightarrow> (\<forall>b \<in> set bs. wave_of_identity bl out b \<noteq> None) \<and>
     m' = fold (\<lambda>b m. if wave_of_identity bl out b = Some wave \<and> creator b \<noteq> who then add_canonical b m else m) bs m"
  by (induction bs arbitrary: m) (auto simp: res_bind_ok canonical_step_ok)

lemma is_active_iff: "is_active_recipient st n \<longleftrightarrow> state_contains st n \<and> \<not> is_ejected st n"
  by (auto simp: is_active_recipient_def state_contains_def search_entry_def split: sum.splits)

text \<open>The evidence of a wave: per producer other than the rater its least block of the wave, in order of the producers.\<close>

lemma extract_wave_ok:
  assumes "extract_block_production_evidence bl out opened who = Inr evs"
  obtains m where "canonical_of (\<lambda>b. wave_of_identity bl out b = Some (finalized_wave opened) \<and> creator b \<noteq> who) (out_blocks out) m"
    "evs = map (\<lambda>(whom, b). \<lparr>ie_wave = finalized_wave opened, ie_round = rating_round opened, ie_kind = BlockProduction,
       ie_rater = who, ie_recipient = whom, ie_ref = content_hash b\<rparr>) m"
  using assms canonical_fold [OF canonical_Nil, of _ "out_blocks out"]
  by (auto simp: extract_block_production_evidence_def res_bind_ok canonical_res_fold)

lemma extract_checkpoint_ok:
  assumes "extract_checkpoint_block_production_evidence hash bl out cp who = Inr evs"
  obtains m where "canonical_of (\<lambda>b. creator b \<noteq> who) (checkpoint_window out cp) m"
    "evs = map (\<lambda>(whom, b). \<lparr>ci_source = rating_source cp, ci_kind = BlockProduction, ci_rater = who,
       ci_recipient = whom, ci_ref = content_hash b\<rparr>) m"
proof
  have e: "(\<lambda>b m. if creator b = who then m else add_canonical b m) = (\<lambda>b m. if creator b \<noteq> who then add_canonical b m else m)"
    by (simp add: fun_eq_iff)
  show "canonical_of (\<lambda>b. creator b \<noteq> who) (checkpoint_window out cp)
      (fold (\<lambda>b m. if creator b \<noteq> who then add_canonical b m else m) (checkpoint_window out cp) [])"
    using canonical_fold [OF canonical_Nil, of _ "checkpoint_window out cp"] by simp
  show "evs = map (\<lambda>(whom, b). \<lparr>ci_source = rating_source cp, ci_kind = BlockProduction, ci_rater = who,
       ci_recipient = whom, ci_ref = content_hash b\<rparr>)
      (fold (\<lambda>b m. if creator b \<noteq> who then add_canonical b m else m) (checkpoint_window out cp) [])"
    using assms by (simp add: extract_checkpoint_block_production_evidence_def res_bind_ok Let_def e)
qed

section \<open>Replaying an earlier wave\<close>

lemma replayed_blocks_total:
  assumes "unpruned bl" "weighted_final_leader_for_wave bl wave wl bonds sel = Some ldr"
  shows "replayed_blocks bl ldr wl bonds validators \<noteq> None"
proof (cases "length validators = 1 \<and> checkpoint bl = None")
  case False
  have "leader_block_for_wave bl wave wl sel = Some ldr"
    using assms(2) by (auto simp: weighted_final_leader_for_wave_def split: option.splits if_splits)
  then obtain d where d: "depth bl ldr = Some d" using scan_leader_depth [OF assms(1)] by blast
  from stake_chain.walk_leaders_spec [OF assms(1) d leader_fuel_enough [OF d]]
  obtain st where "weighted_tau_from_leader bl ldr wl bonds (rotating_leader validators) empty_tau_state = Some (Inr st)"
    unfolding weighted_tau_from_leader_def by blast
  then show ?thesis using False by (auto simp: replayed_blocks_def weighted_tau_at_leader_def ordered_result_def)
qed (simp add: replayed_blocks_def)

lemma output_for_wave_total:
  assumes "unpruned bl"
  shows "finalized_output_for_wave bl latest bonds now wave \<noteq> None"
  using replayed_blocks_total [OF assms]
  by (auto simp: finalized_output_for_wave_def Let_def split: sum.split option.split)

definition unsigned_output :: "ordered_output \<Rightarrow> bool" where
  "unsigned_output out \<longleftrightarrow> (\<forall>b \<in> set (out_blocks out). signature b = [])"

lemma unsigned_new_output: "unsigned_output (new_output now bs a wl n m)"
  by (simp add: unsigned_output_def new_output_def)

lemma map_consensus_unsigned: "\<forall>b \<in> set bs. signature b = [] \<Longrightarrow> map consensus_identity bs = bs"
  by (induction bs) (simp_all add: consensus_identity_unsigned)

lemma output_for_wave_prefix:
  assumes "unsigned_output latest" "finalized_output_for_wave bl latest bonds now wave = Some (Inr (Some out))"
  shows "preserves_prefix latest out \<and> unsigned_output out \<and> anchor out \<noteq> None \<and> wavelength out = wavelength latest \<and>
    (out = latest \<or> (\<exists>ldr. weighted_final_leader_for_wave bl wave (wavelength latest) bonds (rotating_leader (sort (map fst bonds))) = Some ldr \<and>
       anchor out = Some (consensus_identity ldr) \<and> consensus_identity ldr \<in> set (out_blocks out)))"
proof -
  obtain w where w: "finalized_wave_from_output bl latest = Inr (Some w)"
    using assms(2) by (auto simp: finalized_output_for_wave_def split: sum.splits option.splits)
  then have an: "anchor latest \<noteq> None" by (auto simp: finalized_wave_from_output_def split: option.splits)
  note d = assms(2) [unfolded finalized_output_for_wave_def w sum.case option.case Let_def]
  show ?thesis
  proof (cases "out = latest")
    case True
    then show ?thesis using assms(1) an by (simp add: preserves_prefix_def)
  next
    case False
    let ?sel = "rotating_leader (sort (map fst bonds))"
    from d False obtain ldr where l: "weighted_final_leader_for_wave bl wave (wavelength latest) bonds ?sel = Some ldr"
      by (auto split: if_splits option.splits)
    from d False obtain bs where bs: "prefix bs (out_blocks latest)" "consensus_identity ldr \<in> set bs"
      and out: "out = with_timestamp (new_output now bs (Some ldr) (wavelength latest) (bond_count latest) (total_mirrored_blocks latest))
        (computed_at_ns latest)"
      by (auto simp: l res_ok split: if_splits)
    have "set bs \<subseteq> set (out_blocks latest)" using bs(1) by (rule set_mono_prefix)
    then have "map consensus_identity bs = bs" using assms(1) by (intro map_consensus_unsigned) (auto simp: unsigned_output_def)
    then show ?thesis using bs l assms(1) \<open>set bs \<subseteq> _\<close>
      by (auto simp: out with_timestamp_def new_output_def preserves_prefix_def unsigned_output_def)
  qed
qed

end
