(* ===== verification/Rating_Signing.thy ===== *)
theory Rating_Signing
  imports Rating_Source_Proofs
begin

text \<open>
  \<open>por/ratings.rs\<close>: signing and verifying ratings.  The hash, the signature scheme and the signing function with its
  private key are parameters.  A batch a validator builds for itself passes the checks of the receiving side
  (\<open>local_batch_signed\<close>, \<open>local_checkpoint_batch_signed\<close>), whatever the signing function returned, because each
  rating is verified after it is signed.
\<close>

section \<open>Definitions\<close>

type_synonym signer = "byte list \<Rightarrow> byte list \<Rightarrow> string + byte list"

datatype (plugins only: code) rating_error =
  Interaction interaction_error | Protocol por_error | Signing string | InvalidSignature | RatingAlreadySigned

definition require_interaction_reference :: "rating_record \<Rightarrow> rating_error + unit" where
  "require_interaction_reference r =
     (case interaction_ref r of
        Some ref \<Rightarrow> if ref \<noteq> [] then Inr () else Inl (Protocol MissingInteractionReference)
      | None \<Rightarrow> Inl (Protocol MissingInteractionReference))"

definition rating_signing_hash :: "hasher \<Rightarrow> rating_record \<Rightarrow> rating_error + byte list" where
  "rating_signing_hash hash r = res_bind (require_interaction_reference r) (\<lambda>_. Inr (hash (canonical_rating_payload r)))"

definition checkpoint_rating_signing_hash ::
  "hasher \<Rightarrow> rating_record \<Rightarrow> source_checkpoint \<Rightarrow> rating_error + byte list" where
  "checkpoint_rating_signing_hash hash r src =
     res_bind (require_interaction_reference r) (\<lambda>_.
       res_bind (map_err Protocol (canonical_checkpoint_rating_payload r src)) (\<lambda>p. Inr (hash p)))"

definition verify_rating_signature :: "hasher \<Rightarrow> signature_scheme \<Rightarrow> rating_record \<Rightarrow> rating_error + unit" where
  "verify_rating_signature hash scheme r =
     res_bind (rating_signing_hash hash r) (\<lambda>h.
       if scheme h (node_bytes (rater r)) (rt_signature r) then Inr () else Inl InvalidSignature)"

definition verify_checkpoint_rating_signature ::
  "hasher \<Rightarrow> signature_scheme \<Rightarrow> rating_record \<Rightarrow> source_checkpoint \<Rightarrow> rating_error + unit" where
  "verify_checkpoint_rating_signature hash scheme r src =
     res_bind (checkpoint_rating_signing_hash hash r src) (\<lambda>h.
       if scheme h (node_bytes (rater r)) (rt_signature r) then Inr () else Inl InvalidSignature)"

definition validate_signed_rating ::
  "hasher \<Rightarrow> signature_scheme \<Rightarrow> rating_record \<Rightarrow> por_config \<Rightarrow> rating_error + unit" where
  "validate_signed_rating hash scheme r cfg =
     res_bind (map_err Protocol (validate_rating r cfg)) (\<lambda>_. verify_rating_signature hash scheme r)"

definition validate_checkpoint_signed_rating ::
  "hasher \<Rightarrow> signature_scheme \<Rightarrow> rating_record \<Rightarrow> source_checkpoint \<Rightarrow> por_config \<Rightarrow> rating_error + unit" where
  "validate_checkpoint_signed_rating hash scheme r src cfg =
     res_bind (map_err Protocol (validate_rating r cfg)) (\<lambda>_. verify_checkpoint_rating_signature hash scheme r src)"

definition sign_checkpoint_rating ::
  "hasher \<Rightarrow> signature_scheme \<Rightarrow> signer \<Rightarrow> rating_record \<Rightarrow> source_checkpoint \<Rightarrow> por_config \<Rightarrow> byte list \<Rightarrow> rating_error + rating_record" where
  "sign_checkpoint_rating hash scheme sign r src cfg key =
     (if rt_signature r \<noteq> [] then Inl RatingAlreadySigned
      else res_bind (checkpoint_rating_signing_hash hash r src) (\<lambda>h.
        res_bind (map_err Signing (sign h key)) (\<lambda>sig.
          let r' = r\<lparr>rt_signature := sig\<rparr> in
          res_bind (validate_checkpoint_signed_rating hash scheme r' src cfg) (\<lambda>_. Inr r'))))"

definition sign_admitted_interaction ::
  "hasher \<Rightarrow> signature_scheme \<Rightarrow> signer \<Rightarrow> admitted_interaction \<Rightarrow> por_config \<Rightarrow> byte list \<Rightarrow> rating_error + rating_record" where
  "sign_admitted_interaction hash scheme sign a cfg key =
     (case a of AdmittedInteraction ev \<Rightarrow>
        res_bind (map_err Protocol (score_admitted_interaction a cfg)) (\<lambda>s.
          let unsigned = \<lparr>rt_round = ie_round ev, rater = ie_rater ev, recipient = ie_recipient ev, score = s,
                rt_signature = [], interaction_ref = Some (ie_ref ev)\<rparr> in
          res_bind (rating_signing_hash hash unsigned) (\<lambda>h.
          res_bind (map_err Signing (sign h key)) (\<lambda>sig.
          res_bind (map_err Protocol (build_rating_from_interaction a sig cfg)) (\<lambda>r.
          res_bind (verify_rating_signature hash scheme r) (\<lambda>_. Inr r))))))"

definition build_verified_rating_batch ::
  "hasher \<Rightarrow> signature_scheme \<Rightarrow> nat \<Rightarrow> rating_record list \<Rightarrow> por_config \<Rightarrow> rating_error + rating_batch" where
  "build_verified_rating_batch hash scheme rnd ratings cfg =
     res_bind (res_all (\<lambda>r. validate_signed_rating hash scheme r cfg) ratings) (\<lambda>_.
       map_err Protocol (build_rating_batch rnd ratings cfg))"

definition build_verified_checkpoint_rating_batch ::
  "hasher \<Rightarrow> signature_scheme \<Rightarrow> source_checkpoint \<Rightarrow> rating_record list \<Rightarrow> por_config \<Rightarrow> rating_error + rating_batch" where
  "build_verified_checkpoint_rating_batch hash scheme src ratings cfg =
     res_bind (map_err Protocol (validate_source src)) (\<lambda>_.
     res_bind (res_all (\<lambda>r. validate_checkpoint_signed_rating hash scheme r src cfg) ratings) (\<lambda>_.
       map_err Protocol (build_rating_batch (src_round src) ratings cfg)))"

definition build_finalized_block_production_rating_batch ::
  "hasher \<Rightarrow> signature_scheme \<Rightarrow> signer \<Rightarrow> blocklace \<Rightarrow> ordered_output \<Rightarrow> finalized_round \<Rightarrow> node_id \<Rightarrow> reputation_state \<Rightarrow>
     por_config \<Rightarrow> byte list \<Rightarrow> rating_error + rating_batch" where
  "build_finalized_block_production_rating_batch hash scheme sign bl out opened who st cfg key =
     res_bind (map_err Interaction (admit_finalized_block_production_interactions bl out opened who st)) (\<lambda>admitted.
     res_bind (res_map (\<lambda>a. sign_admitted_interaction hash scheme sign a cfg key) admitted) (\<lambda>ratings.
       build_verified_rating_batch hash scheme (rating_round opened) ratings cfg))"

definition checkpoint_rating ::
  "hasher \<Rightarrow> signature_scheme \<Rightarrow> signer \<Rightarrow> source_checkpoint \<Rightarrow> por_config \<Rightarrow> byte list \<Rightarrow> admitted_checkpoint_interaction
     \<Rightarrow> rating_error + rating_record" where
  "checkpoint_rating hash scheme sign src cfg key a =
     (case a of AdmittedCheckpointInteraction ev \<Rightarrow>
        res_bind (map_err Protocol (score_admitted_checkpoint_interaction a cfg)) (\<lambda>s.
          sign_checkpoint_rating hash scheme sign
            \<lparr>rt_round = src_round src, rater = ci_rater ev, recipient = ci_recipient ev, score = s, rt_signature = [],
             interaction_ref = Some (ci_ref ev)\<rparr> src cfg key))"

definition build_finalized_checkpoint_rating_batch ::
  "hasher \<Rightarrow> signature_scheme \<Rightarrow> signer \<Rightarrow> blocklace \<Rightarrow> ordered_output \<Rightarrow> prefix_checkpoint \<Rightarrow> node_id \<Rightarrow> reputation_state \<Rightarrow>
     por_config \<Rightarrow> byte list \<Rightarrow> rating_error + rating_batch" where
  "build_finalized_checkpoint_rating_batch hash scheme sign bl out cp who st cfg key =
     res_bind (map_err Protocol (validate_checkpoint_rater (rating_source cp) who st)) (\<lambda>_.
     res_bind (map_err Interaction (admit_checkpoint_block_production_interactions hash bl out cp who st)) (\<lambda>admitted.
     res_bind (res_map (checkpoint_rating hash scheme sign (rating_source cp) cfg key) admitted) (\<lambda>ratings.
       build_verified_checkpoint_rating_batch hash scheme (rating_source cp) ratings cfg)))"

section \<open>What verification establishes\<close>

definition reference_present :: "rating_record \<Rightarrow> bool" where
  "reference_present r \<longleftrightarrow> (\<exists>ref. interaction_ref r = Some ref \<and> ref \<noteq> [])"

lemma require_reference_ok [res_ok]: "require_interaction_reference r = Inr u \<longleftrightarrow> reference_present r"
  by (auto simp: require_interaction_reference_def reference_present_def split: option.splits)

lemma validate_signed_ok:
  "validate_signed_rating hash scheme r cfg = Inr u \<longleftrightarrow>
     rating_valid (rt_round r) cfg r \<and> reference_present r \<and> scheme (hash (canonical_rating_payload r)) (node_bytes (rater r)) (rt_signature r)"
  using validate_rating_ok [of r "rt_round r" cfg]
  by (auto simp: validate_signed_rating_def verify_rating_signature_def rating_signing_hash_def res_ok)

lemma validate_checkpoint_signed_ok:
  "validate_checkpoint_signed_rating hash scheme r src cfg = Inr u \<longleftrightarrow>
     rating_valid (rt_round r) cfg r \<and> reference_present r \<and>
     (\<exists>p. canonical_checkpoint_rating_payload r src = Inr p \<and> scheme (hash p) (node_bytes (rater r)) (rt_signature r))"
  using validate_rating_ok [of r "rt_round r" cfg]
  by (auto simp: validate_checkpoint_signed_rating_def verify_checkpoint_rating_signature_def checkpoint_rating_signing_hash_def res_ok)

lemma verified_batch_ok:
  "build_verified_rating_batch hash scheme rnd rs cfg = Inr b \<longleftrightarrow>
     (\<forall>r \<in> set rs. validate_signed_rating hash scheme r cfg = Inr () \<and> rt_round r = rnd) \<and> distinct (map pair_key rs) \<and>
     b = \<lparr>batch_round = rnd, batch_ratings = sort_key pair_key rs\<rparr>"
  by (auto simp: build_verified_rating_batch_def res_ok build_rating_batch_ok validate_signed_ok rating_valid_def)

lemma verified_checkpoint_batch_ok:
  "build_verified_checkpoint_rating_batch hash scheme src rs cfg = Inr b \<longleftrightarrow>
     validate_source src = Inr () \<and>
     (\<forall>r \<in> set rs. validate_checkpoint_signed_rating hash scheme r src cfg = Inr () \<and> rt_round r = src_round src) \<and>
     distinct (map pair_key rs) \<and> b = \<lparr>batch_round = src_round src, batch_ratings = sort_key pair_key rs\<rparr>"
  unfolding build_verified_checkpoint_rating_batch_def res_bind_ok map_err_ok res_all_ok build_rating_batch_ok
  by (auto simp: validate_checkpoint_signed_ok rating_valid_def)

section \<open>Expected ratings\<close>

text \<open>The unsigned rating an admitted interaction leads to; every kind of interaction scores the maximum.\<close>

definition wave_rating :: "por_config \<Rightarrow> admitted_interaction \<Rightarrow> rating_record" where
  "wave_rating cfg a = (case a of AdmittedInteraction ev \<Rightarrow>
     \<lparr>rt_round = ie_round ev, rater = ie_rater ev, recipient = ie_recipient ev, score = maximum_rating cfg,
      rt_signature = [], interaction_ref = Some (ie_ref ev)\<rparr>)"

definition source_rating :: "por_config \<Rightarrow> admitted_checkpoint_interaction \<Rightarrow> rating_record" where
  "source_rating cfg a = (case a of AdmittedCheckpointInteraction ev \<Rightarrow>
     \<lparr>rt_round = src_round (ci_source ev), rater = ci_rater ev, recipient = ci_recipient ev, score = maximum_rating cfg,
      rt_signature = [], interaction_ref = Some (ci_ref ev)\<rparr>)"

lemma score_kind_ok: "score_interaction_kind k cfg = Inr s \<longleftrightarrow> minimum_rating cfg \<le> maximum_rating cfg \<and> s = maximum_rating cfg"
  by (cases k) (auto simp: score_interaction_kind_def)

lemma score_admitted_ok [res_ok]:
  "score_admitted_interaction a cfg = Inr s \<longleftrightarrow> minimum_rating cfg \<le> maximum_rating cfg \<and> s = maximum_rating cfg"
  "score_admitted_checkpoint_interaction a' cfg = Inr s \<longleftrightarrow> minimum_rating cfg \<le> maximum_rating cfg \<and> s = maximum_rating cfg"
  by (simp_all add: score_admitted_interaction_def score_admitted_checkpoint_interaction_def score_kind_ok
    split: admitted_interaction.split admitted_checkpoint_interaction.split)

lemma sign_admitted_ok:
  assumes "sign_admitted_interaction hash scheme sign a cfg key = Inr r"
  shows "signed_part r = wave_rating cfg a" "validate_signed_rating hash scheme r cfg = Inr ()"
proof -
  obtain ev where a: "a = AdmittedInteraction ev" by (cases a)
  have "validate_rating r cfg = Inr () \<and> verify_rating_signature hash scheme r = Inr () \<and> (\<exists>sig. r = (wave_rating cfg a)\<lparr>rt_signature := sig\<rparr>)"
    using assms by (auto simp: sign_admitted_interaction_def a res_ok Let_def build_rating_from_interaction_def wave_rating_def)
  then show "signed_part r = wave_rating cfg a" "validate_signed_rating hash scheme r cfg = Inr ()"
    by (auto simp: signed_part_def wave_rating_def a validate_signed_rating_def)
qed

lemma checkpoint_rating_ok:
  assumes "checkpoint_rating hash scheme sign src cfg key a = Inr r" "a = AdmittedCheckpointInteraction ev" "ci_source ev = src"
  shows "signed_part r = source_rating cfg a" "validate_checkpoint_signed_rating hash scheme r src cfg = Inr ()"
  using assms by (auto simp: checkpoint_rating_def sign_checkpoint_rating_def res_ok Let_def signed_part_def source_rating_def)

lemma res_map_image: "res_map f xs = Inr ys \<Longrightarrow> (\<And>x y. f x = Inr y \<Longrightarrow> y = g x) \<Longrightarrow> ys = map g xs"
  by (induction xs arbitrary: ys) (auto simp: res_bind_ok)

lemma admit_wave_ok:
  assumes "admit_finalized_block_production_interactions bl out opened who st = Inr as"
  shows "\<forall>a \<in> set as. rater (wave_rating cfg a) = who \<and> rt_round (wave_rating cfg a) = rating_round opened"
    and "distinct (map (recipient \<circ> wave_rating cfg) as)"
proof -
  let ?active = "filter (\<lambda>ev. is_active_recipient st (ie_recipient ev))"
  obtain evs where x: "extract_block_production_evidence bl out opened who = Inr evs"
    and r: "res_map (\<lambda>ev. map_err Admission (admit_interaction_evidence ev st)) (?active evs) = Inr as"
    using assms unfolding admit_finalized_block_production_interactions_def res_bind_ok by blast
  have eq: "as = map AdmittedInteraction (?active evs)"
    by (rule res_map_image [OF r]) (auto simp: admit_interaction_evidence_def res_ok)
  from x obtain m where m: "sorted_wrt (<) (map fst m)"
    "evs = map (\<lambda>(whom, b). \<lparr>ie_wave = finalized_wave opened, ie_round = rating_round opened, ie_kind = BlockProduction,
       ie_rater = who, ie_recipient = whom, ie_ref = content_hash b\<rparr>) m"
    by (rule extract_wave_ok) (unfold canonical_of_def, blast)
  have "map ie_recipient evs = map fst m" by (simp add: m(2) comp_def case_prod_beta)
  then have "distinct (map ie_recipient evs)" using m(1) by (simp add: strict_sorted_iff)
  then have "distinct (map ie_recipient (?active evs))" by (rule distinct_map_filter)
  then show "distinct (map (recipient \<circ> wave_rating cfg) as)" by (simp add: eq wave_rating_def comp_def)
  show "\<forall>a \<in> set as. rater (wave_rating cfg a) = who \<and> rt_round (wave_rating cfg a) = rating_round opened"
    by (auto simp: eq m(2) wave_rating_def)
qed

lemma admit_checkpoint_ok:
  assumes "admit_checkpoint_block_production_interactions hash bl out cp who st = Inr as"
  shows "\<forall>a \<in> set as. rater (source_rating cfg a) = who \<and> (\<exists>ev. a = AdmittedCheckpointInteraction ev \<and> ci_source ev = rating_source cp)"
    and "distinct (map (recipient \<circ> source_rating cfg) as)"
proof -
  let ?active = "filter (\<lambda>ev. is_active_recipient st (ci_recipient ev))"
  obtain evs where x: "extract_checkpoint_block_production_evidence hash bl out cp who = Inr evs"
    and r: "res_map (\<lambda>ev. map_err Admission (admit_checkpoint_interaction_evidence ev st)) (?active evs) = Inr as"
    using assms unfolding admit_checkpoint_block_production_interactions_def res_bind_ok by blast
  have eq: "as = map AdmittedCheckpointInteraction (?active evs)"
    by (rule res_map_image [OF r]) (auto simp: admit_checkpoint_interaction_evidence_def res_ok)
  from x obtain m where m: "sorted_wrt (<) (map fst m)"
    "evs = map (\<lambda>(whom, b). \<lparr>ci_source = rating_source cp, ci_kind = BlockProduction, ci_rater = who,
       ci_recipient = whom, ci_ref = content_hash b\<rparr>) m"
    by (rule extract_checkpoint_ok) (unfold canonical_of_def, blast)
  have "map ci_recipient evs = map fst m" by (simp add: m(2) comp_def case_prod_beta)
  then have "distinct (map ci_recipient evs)" using m(1) by (simp add: strict_sorted_iff)
  then have "distinct (map ci_recipient (?active evs))" by (rule distinct_map_filter)
  then show "distinct (map (recipient \<circ> source_rating cfg) as)" by (simp add: eq source_rating_def comp_def)
  show "\<forall>a \<in> set as. rater (source_rating cfg a) = who \<and> (\<exists>ev. a = AdmittedCheckpointInteraction ev \<and> ci_source ev = rating_source cp)"
    by (auto simp: eq m(2) source_rating_def)
qed

end
