(* ===== verification/Rating_Wire.thy ===== *)
theory Rating_Wire
  imports Por_Wire_Proofs
begin

text \<open>
  \<open>por/transport/wire.rs\<close>: the envelopes that carry one signed rating, version 1 for a finalized wave and version 2
  for a checkpoint of the finalized prefix.  Each decoder accepts a byte string if and only if it is the encoding of
  a valid envelope (\<open>decode_v1_iff\<close>, \<open>decode_v2_iff\<close>), so an envelope has one encoding, and no string is read
  under both versions.
\<close>

section \<open>Envelopes\<close>

definition BLOCK_PRODUCTION_RATING_ENVELOPE_DOMAIN :: "byte list" where
  "BLOCK_PRODUCTION_RATING_ENVELOPE_DOMAIN = ascii ''cordial-por:block-production-rating-envelope''"

definition BLOCK_PRODUCTION_RATING_ENVELOPE_VERSION :: nat where
  "BLOCK_PRODUCTION_RATING_ENVELOPE_VERSION = 1"

definition CHECKPOINT_RATING_ENVELOPE_VERSION :: nat where
  "CHECKPOINT_RATING_ENVELOPE_VERSION = 2"

definition COMPRESSED_SECP256K1_PUBLIC_KEY_LEN :: nat where
  "COMPRESSED_SECP256K1_PUBLIC_KEY_LEN = 33"

definition UNCOMPRESSED_SECP256K1_PUBLIC_KEY_LEN :: nat where
  "UNCOMPRESSED_SECP256K1_PUBLIC_KEY_LEN = 65"

definition BLOCK_HASH_LEN :: nat where
  "BLOCK_HASH_LEN = 32"

definition MAX_SECP256K1_DER_SIGNATURE_LEN :: nat where
  "MAX_SECP256K1_DER_SIGNATURE_LEN = 72"

definition MAX_BLOCK_PRODUCTION_RATING_ENVELOPE_LEN :: nat where
  "MAX_BLOCK_PRODUCTION_RATING_ENVELOPE_LEN =
     length BLOCK_PRODUCTION_RATING_ENVELOPE_DOMAIN + 2 + 8 + 8 + 2 + UNCOMPRESSED_SECP256K1_PUBLIC_KEY_LEN +
     2 + UNCOMPRESSED_SECP256K1_PUBLIC_KEY_LEN + 8 + BLOCK_HASH_LEN + 2 + MAX_SECP256K1_DER_SIGNATURE_LEN"

definition MAX_CHECKPOINT_RATING_ENVELOPE_LEN :: nat where
  "MAX_CHECKPOINT_RATING_ENVELOPE_LEN = MAX_BLOCK_PRODUCTION_RATING_ENVELOPE_LEN + 32"

datatype (plugins only: code) rating_wire_error =
    EnvelopeTooLong nat nat | UnexpectedEnd | TrailingBytes | InvalidDomain | UnsupportedVersion nat
  | InvalidRaterKeyLength nat | InvalidRecipientKeyLength nat | MissingInteractionReference
  | InvalidInteractionReferenceLength nat | MissingSignature | SignatureTooLong nat nat
  | FinalizedWaveRoundMismatch | InvalidSourceCheckpoint | SourceCheckpointRoundMismatch

record envelope_v1 =
  v1_wave :: nat
  v1_rating :: rating_record

record envelope_v2 =
  v2_source :: source_checkpoint
  v2_rating :: rating_record

section \<open>Validation\<close>

definition validate_public_key_length :: "byte list \<Rightarrow> nat + unit" where
  "validate_public_key_length bs =
     (if length bs = COMPRESSED_SECP256K1_PUBLIC_KEY_LEN \<or> length bs = UNCOMPRESSED_SECP256K1_PUBLIC_KEY_LEN
      then Inr () else Inl (length bs))"

definition validate_rating_fields :: "rating_record \<Rightarrow> rating_wire_error + unit" where
  "validate_rating_fields r =
     res_bind (map_err InvalidRaterKeyLength (validate_public_key_length (node_bytes (rater r)))) (\<lambda>_.
     res_bind (map_err InvalidRecipientKeyLength (validate_public_key_length (node_bytes (recipient r)))) (\<lambda>_.
     res_bind (ok_or (interaction_ref r) MissingInteractionReference) (\<lambda>ref.
       if length ref \<noteq> BLOCK_HASH_LEN then Inl (InvalidInteractionReferenceLength (length ref))
       else if rt_signature r = [] then Inl MissingSignature
       else if length (rt_signature r) > MAX_SECP256K1_DER_SIGNATURE_LEN
       then Inl (SignatureTooLong (length (rt_signature r)) MAX_SECP256K1_DER_SIGNATURE_LEN)
       else Inr ())))"

definition validate_rating_shape :: "nat \<Rightarrow> rating_record \<Rightarrow> rating_wire_error + unit" where
  "validate_rating_shape wave r =
     (if checked_add 64 wave 1 \<noteq> Some (rt_round r) then Inl FinalizedWaveRoundMismatch else validate_rating_fields r)"

definition new_v1 :: "nat \<Rightarrow> rating_record \<Rightarrow> rating_wire_error + envelope_v1" where
  "new_v1 wave r = res_bind (validate_rating_shape wave r) (\<lambda>_. Inr \<lparr>v1_wave = wave, v1_rating = r\<rparr>)"

definition new_v2 :: "source_checkpoint \<Rightarrow> rating_record \<Rightarrow> rating_wire_error + envelope_v2" where
  "new_v2 src r =
     res_bind (map_err (\<lambda>_. InvalidSourceCheckpoint) (validate_source src)) (\<lambda>_.
       if rt_round r \<noteq> src_round src then Inl SourceCheckpointRoundMismatch
       else res_bind (validate_rating_fields r) (\<lambda>_. Inr \<lparr>v2_source = src, v2_rating = r\<rparr>))"

section \<open>Encoding\<close>

definition put_u16_bytes :: "byte list \<Rightarrow> byte list" where
  "put_u16_bytes bs = u16_be (length bs) @ bs"

text \<open>The fields from the rater on, which both versions share; a valid envelope has a reference.\<close>

definition rating_field_bytes :: "rating_record \<Rightarrow> byte list" where
  "rating_field_bytes r =
     put_u16_bytes (node_bytes (rater r)) @ put_u16_bytes (node_bytes (recipient r)) @ u64_be (score r) @
     (case interaction_ref r of None \<Rightarrow> [] | Some ref \<Rightarrow> ref) @ put_u16_bytes (rt_signature r)"

definition encode_v1 :: "envelope_v1 \<Rightarrow> byte list" where
  "encode_v1 e =
     BLOCK_PRODUCTION_RATING_ENVELOPE_DOMAIN @ u16_be BLOCK_PRODUCTION_RATING_ENVELOPE_VERSION @
     u64_be (v1_wave e) @ u64_be (rt_round (v1_rating e)) @ rating_field_bytes (v1_rating e)"

definition encode_v2 :: "envelope_v2 \<Rightarrow> byte list" where
  "encode_v2 e =
     BLOCK_PRODUCTION_RATING_ENVELOPE_DOMAIN @ u16_be CHECKPOINT_RATING_ENVELOPE_VERSION @
     u64_be (src_round (v2_source e)) @ u64_be (finalized_prefix_len (v2_source e)) @
     finalized_prefix_hash (v2_source e) @ rating_field_bytes (v2_rating e)"

section \<open>Decoding\<close>

definition read_u16_bytes :: "(rating_wire_error, byte list) wire_reader" where
  "read_u16_bytes = pr_bind (pr_u16 UnexpectedEnd) (pr_take UnexpectedEnd)"

definition read_header :: "nat \<Rightarrow> (rating_wire_error, unit) wire_reader" where
  "read_header expected_version =
     pr_bind (pr_take UnexpectedEnd (length BLOCK_PRODUCTION_RATING_ENVELOPE_DOMAIN)) (\<lambda>d.
       if d \<noteq> BLOCK_PRODUCTION_RATING_ENVELOPE_DOMAIN then pr_fail InvalidDomain
       else pr_bind (pr_u16 UnexpectedEnd) (\<lambda>v.
         if v \<noteq> expected_version then pr_fail (UnsupportedVersion v) else pr_return ()))"

definition read_rating :: "nat \<Rightarrow> (rating_wire_error, rating_record) wire_reader" where
  "read_rating rnd =
     pr_bind read_u16_bytes (\<lambda>who.
     pr_bind read_u16_bytes (\<lambda>whom.
     pr_bind (pr_number UnexpectedEnd) (\<lambda>s.
     pr_bind (pr_take UnexpectedEnd BLOCK_HASH_LEN) (\<lambda>ref.
     pr_bind read_u16_bytes (\<lambda>sig.
     pr_return \<lparr>rt_round = rnd, rater = NodeId who, recipient = NodeId whom, score = s, rt_signature = sig,
       interaction_ref = Some ref\<rparr>)))))"

definition read_v1 :: "(rating_wire_error, nat \<times> rating_record) wire_reader" where
  "read_v1 =
     pr_bind (read_header BLOCK_PRODUCTION_RATING_ENVELOPE_VERSION) (\<lambda>_.
     pr_bind (pr_number UnexpectedEnd) (\<lambda>wave.
     pr_bind (pr_number UnexpectedEnd) (\<lambda>rnd.
     pr_bind (read_rating rnd) (\<lambda>r. pr_return (wave, r)))))"

definition read_v2 :: "(rating_wire_error, source_checkpoint \<times> rating_record) wire_reader" where
  "read_v2 =
     pr_bind (read_header CHECKPOINT_RATING_ENVELOPE_VERSION) (\<lambda>_.
     pr_bind (pr_number UnexpectedEnd) (\<lambda>rnd.
     pr_bind (pr_number UnexpectedEnd) (\<lambda>len.
     pr_bind (pr_take UnexpectedEnd 32) (\<lambda>h.
     pr_bind (read_rating rnd) (\<lambda>r.
       pr_return (\<lparr>src_round = rnd, finalized_prefix_len = len, finalized_prefix_hash = h\<rparr>, r))))))"

definition decode_v1 :: "byte list \<Rightarrow> rating_wire_error + envelope_v1" where
  "decode_v1 input =
     (if length input > MAX_BLOCK_PRODUCTION_RATING_ENVELOPE_LEN
      then Inl (EnvelopeTooLong (length input) MAX_BLOCK_PRODUCTION_RATING_ENVELOPE_LEN)
      else res_bind (read_v1 input) (\<lambda>((wave, r), rest).
        if rest \<noteq> [] then Inl TrailingBytes else new_v1 wave r))"

definition decode_v2 :: "byte list \<Rightarrow> rating_wire_error + envelope_v2" where
  "decode_v2 input =
     (if length input > MAX_CHECKPOINT_RATING_ENVELOPE_LEN
      then Inl (EnvelopeTooLong (length input) MAX_CHECKPOINT_RATING_ENVELOPE_LEN)
      else res_bind (read_v2 input) (\<lambda>((src, r), rest).
        if rest \<noteq> [] then Inl TrailingBytes else new_v2 src r))"

section \<open>Exactness\<close>

definition wire_rating :: "rating_record \<Rightarrow> bool" where
  "wire_rating r \<longleftrightarrow> length (node_bytes (rater r)) \<in> {33, 65} \<and> length (node_bytes (recipient r)) \<in> {33, 65} \<and>
     (\<exists>ref. interaction_ref r = Some ref \<and> length ref = 32) \<and> rt_signature r \<noteq> [] \<and> length (rt_signature r) \<le> 72"

lemma key_length_ok [res_ok]: "validate_public_key_length bs = Inr u \<longleftrightarrow> length bs \<in> {33, 65}"
  by (simp add: validate_public_key_length_def COMPRESSED_SECP256K1_PUBLIC_KEY_LEN_def UNCOMPRESSED_SECP256K1_PUBLIC_KEY_LEN_def)

lemma rating_fields_ok [res_ok]: "validate_rating_fields r = Inr u \<longleftrightarrow> wire_rating r"
  unfolding validate_rating_fields_def res_bind_ok map_err_ok key_length_ok ok_or_ok if_err_ok
  by (auto simp: wire_rating_def BLOCK_HASH_LEN_def MAX_SECP256K1_DER_SIGNATURE_LEN_def)

lemma new_v1_ok: "new_v1 w r = Inr e \<longleftrightarrow> e = \<lparr>v1_wave = w, v1_rating = r\<rparr> \<and> rt_round r = w + 1 \<and> w + 1 < 2 ^ 64 \<and> wire_rating r"
  by (auto simp: new_v1_def validate_rating_shape_def res_ok checked_defs)

lemma new_v2_ok:
  "new_v2 src r = Inr e \<longleftrightarrow> e = \<lparr>v2_source = src, v2_rating = r\<rparr> \<and> validate_source src = Inr () \<and> rt_round r = src_round src \<and> wire_rating r"
  unfolding new_v2_def res_bind_ok map_err_ok if_err_ok rating_fields_ok by auto

definition field_shape :: "nat \<Rightarrow> rating_record \<Rightarrow> bool" where
  "field_shape rnd r \<longleftrightarrow> rt_round r = rnd \<and> length (node_bytes (rater r)) < 2 ^ 16 \<and> length (node_bytes (recipient r)) < 2 ^ 16 \<and>
     length (rt_signature r) < 2 ^ 16 \<and> score r < 2 ^ 64 \<and> (\<exists>ref. interaction_ref r = Some ref \<and> length ref = 32)"

lemma read_u16_bytes_ok: "read_u16_bytes s = Inr (bs, r) \<longleftrightarrow> length bs < 2 ^ 16 \<and> s = put_u16_bytes bs @ r"
  unfolding read_u16_bytes_def pr_bind_ok pr_u16_ok pr_take_ok put_u16_bytes_def append_assoc by blast

interpretation short_field: wire_codec put_u16_bytes read_u16_bytes "\<lambda>bs. length bs < 2 ^ 16"
  by unfold_locales (rule read_u16_bytes_ok)

lemma read_rating_ok: "read_rating rnd s = Inr (r, rest) \<longleftrightarrow> field_shape rnd r \<and> s = rating_field_bytes r @ rest"
proof
  assume "read_rating rnd s = Inr (r, rest)"
  then obtain who whom sc ref sig where
    "length who < 2 ^ 16" "length whom < 2 ^ 16" "sc < 2 ^ 64" "length ref = 32" "length sig < 2 ^ 16"
    "s = put_u16_bytes who @ put_u16_bytes whom @ u64_be sc @ ref @ put_u16_bytes sig @ rest"
    "r = \<lparr>rt_round = rnd, rater = NodeId who, recipient = NodeId whom, score = sc, rt_signature = sig, interaction_ref = Some ref\<rparr>"
    unfolding read_rating_def pr_bind_ok short_field.rd_iff pr_number_ok pr_take_ok pr_return_ok BLOCK_HASH_LEN_def by blast
  then show "field_shape rnd r \<and> s = rating_field_bytes r @ rest" by (simp add: field_shape_def rating_field_bytes_def)
next
  assume a: "field_shape rnd r \<and> s = rating_field_bytes r @ rest"
  then obtain ref where ref: "interaction_ref r = Some ref" "length ref = 32" by (auto simp: field_shape_def)
  have s: "s = put_u16_bytes (node_bytes (rater r)) @ put_u16_bytes (node_bytes (recipient r)) @ u64_be (score r) @ ref @
      put_u16_bytes (rt_signature r) @ rest"
    using a by (simp add: rating_field_bytes_def ref)
  have r: "r = \<lparr>rt_round = rnd, rater = NodeId (node_bytes (rater r)), recipient = NodeId (node_bytes (recipient r)),
      score = score r, rt_signature = rt_signature r, interaction_ref = Some ref\<rparr>"
    using a ref by (simp add: field_shape_def)
  show "read_rating rnd s = Inr (r, rest)"
    unfolding read_rating_def pr_bind_ok short_field.rd_iff pr_number_ok pr_take_ok pr_return_ok BLOCK_HASH_LEN_def
    using a [unfolded field_shape_def] ref s r by metis
qed

interpretation rating_codec: wire_codec rating_field_bytes "read_rating rnd" "field_shape rnd" for rnd
  by unfold_locales (rule read_rating_ok)

lemma read_header_ok:
  "v < 2 ^ 16 \<Longrightarrow> read_header v s = Inr (u, rest) \<longleftrightarrow> s = BLOCK_PRODUCTION_RATING_ENVELOPE_DOMAIN @ u16_be v @ rest"
  by (auto simp: read_header_def pr_bind_ok pr_take_ok pr_u16_ok pr_return_ok pr_fail_ok split: if_splits)

lemma wire_shape: "wire_rating r \<Longrightarrow> score r < 2 ^ 64 \<Longrightarrow> field_shape (rt_round r) r"
  by (auto simp: wire_rating_def field_shape_def)

lemma envelope_domain_length: "length BLOCK_PRODUCTION_RATING_ENVELOPE_DOMAIN = 44"
  by code_simp

lemma rating_field_length: "wire_rating r \<Longrightarrow> length (rating_field_bytes r) \<le> 248"
  using be.enc_length [of "score r"] by (auto simp: wire_rating_def rating_field_bytes_def put_u16_bytes_def)

definition v1_fits :: "envelope_v1 \<Rightarrow> bool" where
  "v1_fits e \<longleftrightarrow> new_v1 (v1_wave e) (v1_rating e) = Inr e \<and> score (v1_rating e) < 2 ^ 64"

definition v2_fits :: "envelope_v2 \<Rightarrow> bool" where
  "v2_fits e \<longleftrightarrow> new_v2 (v2_source e) (v2_rating e) = Inr e \<and> source_fits (v2_source e) \<and> score (v2_rating e) < 2 ^ 64"

lemma encode_v1_length: "v1_fits e \<Longrightarrow> length (encode_v1 e) \<le> MAX_BLOCK_PRODUCTION_RATING_ENVELOPE_LEN"
  using rating_field_length [of "v1_rating e"]
  by (simp add: v1_fits_def new_v1_ok encode_v1_def MAX_BLOCK_PRODUCTION_RATING_ENVELOPE_LEN_def be.enc_length
    UNCOMPRESSED_SECP256K1_PUBLIC_KEY_LEN_def BLOCK_HASH_LEN_def MAX_SECP256K1_DER_SIGNATURE_LEN_def)

lemma encode_v2_length: "v2_fits e \<Longrightarrow> length (encode_v2 e) \<le> MAX_CHECKPOINT_RATING_ENVELOPE_LEN"
  using rating_field_length [of "v2_rating e"]
  by (simp add: v2_fits_def new_v2_ok source_fits_def encode_v2_def MAX_CHECKPOINT_RATING_ENVELOPE_LEN_def
    MAX_BLOCK_PRODUCTION_RATING_ENVELOPE_LEN_def be.enc_length
    UNCOMPRESSED_SECP256K1_PUBLIC_KEY_LEN_def BLOCK_HASH_LEN_def MAX_SECP256K1_DER_SIGNATURE_LEN_def)

lemma read_v1_ok:
  "read_v1 s = Inr ((w, r), rest) \<longleftrightarrow> w < 2 ^ 64 \<and> rt_round r < 2 ^ 64 \<and> field_shape (rt_round r) r \<and>
     s = encode_v1 \<lparr>v1_wave = w, v1_rating = r\<rparr> @ rest"
proof -
  have v: "BLOCK_PRODUCTION_RATING_ENVELOPE_VERSION < 2 ^ 16" by (simp add: BLOCK_PRODUCTION_RATING_ENVELOPE_VERSION_def)
  show ?thesis
    unfolding read_v1_def pr_bind_ok read_header_ok [OF v] pr_number_ok rating_codec.rd_iff pr_return_ok encode_v1_def
    by (auto simp: field_shape_def)
qed

lemma read_v2_ok:
  "read_v2 s = Inr ((src, r), rest) \<longleftrightarrow> source_fits src \<and> field_shape (src_round src) r \<and>
     s = encode_v2 \<lparr>v2_source = src, v2_rating = r\<rparr> @ rest"
proof -
  have v: "CHECKPOINT_RATING_ENVELOPE_VERSION < 2 ^ 16" by (simp add: CHECKPOINT_RATING_ENVELOPE_VERSION_def)
  have "read_v2 s = Inr ((src, r), rest) \<longleftrightarrow> (\<exists>rnd len h. rnd < 2 ^ 64 \<and> len < 2 ^ 64 \<and> length h = 32 \<and> field_shape rnd r \<and>
      src = \<lparr>src_round = rnd, finalized_prefix_len = len, finalized_prefix_hash = h\<rparr> \<and>
      s = BLOCK_PRODUCTION_RATING_ENVELOPE_DOMAIN @ u16_be CHECKPOINT_RATING_ENVELOPE_VERSION @ u64_be rnd @ u64_be len @ h @
        rating_field_bytes r @ rest)"
    unfolding read_v2_def pr_bind_ok read_header_ok [OF v] pr_number_ok pr_take_ok rating_codec.rd_iff pr_return_ok by auto
  also have "\<dots> \<longleftrightarrow> source_fits src \<and> field_shape (src_round src) r \<and> s = encode_v2 \<lparr>v2_source = src, v2_rating = r\<rparr> @ rest"
    by (cases src) (simp add: source_fits_def encode_v2_def)
  finally show ?thesis .
qed

lemma decode_v1_iff: "decode_v1 bs = Inr e \<longleftrightarrow> v1_fits e \<and> bs = encode_v1 e"
proof
  assume "decode_v1 bs = Inr e"
  then obtain w r where "read_v1 bs = Inr ((w, r), [])" and n: "new_v1 w r = Inr e"
    by (auto simp: decode_v1_def res_ok split: prod.splits)
  then show "v1_fits e \<and> bs = encode_v1 e" unfolding read_v1_ok by (auto simp: v1_fits_def new_v1_ok field_shape_def)
next
  assume a: "v1_fits e \<and> bs = encode_v1 e"
  then have n: "new_v1 (v1_wave e) (v1_rating e) = Inr e" "score (v1_rating e) < 2 ^ 64" by (simp_all add: v1_fits_def)
  then have "read_v1 bs = Inr ((v1_wave e, v1_rating e), [])"
    unfolding read_v1_ok using a wire_shape [of "v1_rating e"] by (cases e) (simp add: new_v1_ok)
  then show "decode_v1 bs = Inr e" using encode_v1_length a n by (simp add: decode_v1_def not_less)
qed

lemma decode_v2_iff: "decode_v2 bs = Inr e \<longleftrightarrow> v2_fits e \<and> bs = encode_v2 e"
proof
  assume "decode_v2 bs = Inr e"
  then obtain src r where "read_v2 bs = Inr ((src, r), [])" and n: "new_v2 src r = Inr e"
    by (auto simp: decode_v2_def res_ok split: prod.splits)
  then show "v2_fits e \<and> bs = encode_v2 e" unfolding read_v2_ok by (auto simp: v2_fits_def new_v2_ok field_shape_def)
next
  assume a: "v2_fits e \<and> bs = encode_v2 e"
  then have n: "new_v2 (v2_source e) (v2_rating e) = Inr e" "score (v2_rating e) < 2 ^ 64" "source_fits (v2_source e)"
    by (simp_all add: v2_fits_def)
  then have "read_v2 bs = Inr ((v2_source e, v2_rating e), [])"
    unfolding read_v2_ok using a wire_shape [of "v2_rating e"] by (cases e) (simp add: new_v2_ok)
  then show "decode_v2 bs = Inr e" using encode_v2_length a n by (simp add: decode_v2_def not_less)
qed

lemma versions_disjoint: "encode_v1 e \<noteq> encode_v2 f"
proof -
  have "u16_be BLOCK_PRODUCTION_RATING_ENVELOPE_VERSION \<noteq> u16_be CHECKPOINT_RATING_ENVELOPE_VERSION" by code_simp
  then show ?thesis by (simp add: encode_v1_def encode_v2_def)
qed

end
