(* ===== verification/Rating_Collector.thy ===== *)
theory Rating_Collector
  imports Rating_Signing Rating_Wire
begin

text \<open>
  \<open>por/collector.rs\<close>: the collectors of one rating round, for a finalized wave and for a checkpoint of the finalized
  prefix.  A collector holds the ratings it accepted in a map ordered by (rater, recipient).  The locale
  \<open>rating_admission\<close> is the contract both keep: an accepted rating is, up to its signature, one that the finalized
  evidence prescribes for its rater.  It follows that counting is enough to know that a rater is complete, and that two
  collectors of one round hold the same ratings of a complete rater up to signatures.
\<close>

section \<open>State\<close>

datatype (plugins only: code) collector_error =
    Interaction interaction_error | Rating rating_error | InvalidStateRound | InvalidFinalizedWave
  | InvalidCheckpointSource | NoAuthorizedRaters | UnauthorizedRater node_id | InvalidRatingRound | InvalidBatchRound
  | MissingFinalizedInteraction | InteractionReferenceMismatch | ScoreMismatch | DuplicateRating | ConflictingRating

type_synonym rating_map = "((node_id \<times> node_id) \<times> rating_record) list"

record wave_collector =
  wc_lace :: blocklace
  wc_output :: ordered_output
  wc_opened :: finalized_round
  wc_state :: reputation_state
  wc_config :: por_config
  wc_ratings :: rating_map

record checkpoint_collector =
  cc_lace :: blocklace
  cc_output :: ordered_output
  cc_checkpoint :: prefix_checkpoint
  authorized_raters :: "node_id list"
  cc_state :: reputation_state
  cc_config :: por_config
  cc_ratings :: rating_map

definition rating_key :: "rating_record \<Rightarrow> node_id \<times> node_id" where
  "rating_key r = (rater r, recipient r)"

definition btree_set :: "'a::linorder list \<Rightarrow> 'a list" where
  "btree_set xs = fold insort_insert xs []"

text \<open>The answer to a second rating for the same pair.\<close>

definition check_existing :: "rating_map \<Rightarrow> rating_record \<Rightarrow> collector_error + unit" where
  "check_existing accepted r =
     (case map_of accepted (rating_key r) of
        None \<Rightarrow> Inr ()
      | Some existing \<Rightarrow>
          if canonical_rating_payload existing = canonical_rating_payload r then Inl DuplicateRating else Inl ConflictingRating)"

definition count_rater :: "rating_map \<Rightarrow> node_id \<Rightarrow> nat" where
  "count_rater m who = length (filter (\<lambda>r. rater r = who) (map snd m))"

definition stage_ratings ::
  "(rating_map \<Rightarrow> rating_record \<Rightarrow> collector_error + unit) \<Rightarrow> rating_map \<Rightarrow> rating_record list \<Rightarrow> collector_error + rating_map" where
  "stage_ratings validate m rs =
     res_fold (\<lambda>staged r. res_bind (validate staged r) (\<lambda>_. Inr (bt_insert (rating_key r) r staged))) m rs"

definition collect_complete :: "(node_id \<Rightarrow> collector_error + bool) \<Rightarrow> rating_map \<Rightarrow> collector_error + node_id list" where
  "collect_complete is_complete m =
     res_fold (\<lambda>cs who. res_bind (is_complete who) (\<lambda>b. Inr (if b then insort_insert who cs else cs))) []
       (btree_set (map (\<lambda>e. rater (snd e)) m))"

section \<open>The collector of a wave\<close>

definition new_wave_collector ::
  "blocklace \<Rightarrow> ordered_output \<Rightarrow> finalized_round \<Rightarrow> reputation_state \<Rightarrow> por_config \<Rightarrow> collector_error + wave_collector" where
  "new_wave_collector bl out opened st cfg =
     res_bind (map_err Interaction (validate_finalized_rating_round bl out opened)) (\<lambda>_.
       if checked_add 64 (current_round st) 1 \<noteq> Some (rating_round opened) then Inl InvalidStateRound
       else Inr \<lparr>wc_lace = bl, wc_output = out, wc_opened = opened, wc_state = st, wc_config = cfg, wc_ratings = []\<rparr>)"

definition wave_admitted :: "wave_collector \<Rightarrow> node_id \<Rightarrow> collector_error + admitted_interaction list" where
  "wave_admitted c who =
     map_err Interaction (admit_finalized_block_production_interactions (wc_lace c) (wc_output c) (wc_opened c) who (wc_state c))"

definition wave_rater_complete :: "wave_collector \<Rightarrow> node_id \<Rightarrow> collector_error + bool" where
  "wave_rater_complete c who =
     res_bind (wave_admitted c who) (\<lambda>admitted. Inr (count_rater (wc_ratings c) who = length admitted))"

definition wave_validate_submission ::
  "hasher \<Rightarrow> signature_scheme \<Rightarrow> wave_collector \<Rightarrow> rating_map \<Rightarrow> rating_record \<Rightarrow> collector_error + unit" where
  "wave_validate_submission hash scheme c accepted r =
     (if rt_round r \<noteq> rating_round (wc_opened c) then Inl InvalidRatingRound
      else res_bind (map_err Rating (validate_signed_rating hash scheme r (wc_config c))) (\<lambda>_.
        res_bind (check_existing accepted r) (\<lambda>_.
        res_bind (wave_admitted c (rater r)) (\<lambda>admitted.
        res_bind (ok_or (find (\<lambda>a. case a of AdmittedInteraction ev \<Rightarrow> ie_recipient ev = recipient r) admitted)
            MissingFinalizedInteraction) (\<lambda>a.
          case a of AdmittedInteraction ev \<Rightarrow>
            if interaction_ref r \<noteq> Some (ie_ref ev) then Inl InteractionReferenceMismatch
            else res_bind (map_err (\<lambda>e. Rating (Protocol e)) (score_admitted_interaction a (wc_config c))) (\<lambda>s.
              if score r \<noteq> s then Inl ScoreMismatch else Inr ()))))))"

definition wave_insert ::
  "hasher \<Rightarrow> signature_scheme \<Rightarrow> wave_collector \<Rightarrow> rating_record \<Rightarrow> collector_error + wave_collector" where
  "wave_insert hash scheme c r =
     res_bind (wave_validate_submission hash scheme c (wc_ratings c) r) (\<lambda>_.
       Inr (c\<lparr>wc_ratings := bt_insert (rating_key r) r (wc_ratings c)\<rparr>))"

definition wave_insert_envelope ::
  "hasher \<Rightarrow> signature_scheme \<Rightarrow> wave_collector \<Rightarrow> envelope_v1 \<Rightarrow> collector_error + wave_collector" where
  "wave_insert_envelope hash scheme c e =
     (if v1_wave e \<noteq> finalized_wave (wc_opened c) then Inl InvalidFinalizedWave else wave_insert hash scheme c (v1_rating e))"

definition wave_insert_batch ::
  "hasher \<Rightarrow> signature_scheme \<Rightarrow> wave_collector \<Rightarrow> rating_batch \<Rightarrow> collector_error + wave_collector" where
  "wave_insert_batch hash scheme c b =
     (if batch_round b \<noteq> rating_round (wc_opened c) then Inl InvalidBatchRound
      else res_bind (stage_ratings (wave_validate_submission hash scheme c) (wc_ratings c) (batch_ratings b)) (\<lambda>staged.
        Inr (c\<lparr>wc_ratings := staged\<rparr>)))"

definition wave_build_batch :: "hasher \<Rightarrow> signature_scheme \<Rightarrow> wave_collector \<Rightarrow> collector_error + rating_batch" where
  "wave_build_batch hash scheme c =
     map_err Rating (build_verified_rating_batch hash scheme (rating_round (wc_opened c)) (map snd (wc_ratings c)) (wc_config c))"

definition wave_build_complete_batch :: "hasher \<Rightarrow> signature_scheme \<Rightarrow> wave_collector \<Rightarrow> collector_error + rating_batch" where
  "wave_build_complete_batch hash scheme c =
     res_bind (collect_complete (wave_rater_complete c) (wc_ratings c)) (\<lambda>complete_raters.
       map_err Rating (build_verified_rating_batch hash scheme (rating_round (wc_opened c))
         (filter (\<lambda>r. rater r \<in> set complete_raters) (map snd (wc_ratings c))) (wc_config c)))"

section \<open>The collector of a checkpoint\<close>

definition new_checkpoint_collector ::
  "hasher \<Rightarrow> blocklace \<Rightarrow> ordered_output \<Rightarrow> prefix_checkpoint \<Rightarrow> node_id list \<Rightarrow> reputation_state \<Rightarrow> por_config
     \<Rightarrow> collector_error + checkpoint_collector" where
  "new_checkpoint_collector hash bl out cp authorized st cfg =
     res_bind (map_err Interaction (validate_finalized_checkpoint_window hash bl out cp)) (\<lambda>_.
       if checked_add 64 (current_round st) 1 \<noteq> Some (por_round cp) then Inl InvalidStateRound
       else Inr \<lparr>cc_lace = bl, cc_output = out, cc_checkpoint = cp,
         authorized_raters = btree_set (filter (\<lambda>who. \<not> is_ejected st who) authorized),
         cc_state = st, cc_config = cfg, cc_ratings = []\<rparr>)"

definition cc_source :: "checkpoint_collector \<Rightarrow> source_checkpoint" where
  "cc_source c = rating_source (cc_checkpoint c)"

definition checkpoint_admitted :: "hasher \<Rightarrow> checkpoint_collector \<Rightarrow> node_id \<Rightarrow> collector_error + admitted_checkpoint_interaction list" where
  "checkpoint_admitted hash c who =
     map_err Interaction (admit_checkpoint_block_production_interactions hash (cc_lace c) (cc_output c) (cc_checkpoint c) who (cc_state c))"

definition checkpoint_rater_complete :: "hasher \<Rightarrow> checkpoint_collector \<Rightarrow> node_id \<Rightarrow> collector_error + bool" where
  "checkpoint_rater_complete hash c who =
     (if who \<notin> set (authorized_raters c) then Inl (UnauthorizedRater who)
      else res_bind (map_err (\<lambda>e. Interaction (Admission e)) (validate_checkpoint_rater (cc_source c) who (cc_state c))) (\<lambda>_.
        res_bind (checkpoint_admitted hash c who) (\<lambda>admitted. Inr (count_rater (cc_ratings c) who = length admitted))))"

fun all_complete :: "(node_id \<Rightarrow> collector_error + bool) \<Rightarrow> node_id list \<Rightarrow> collector_error + bool" where
  "all_complete is_complete [] = Inr True"
| "all_complete is_complete (who # ws) =
     res_bind (is_complete who) (\<lambda>b. if \<not> b then Inr False else all_complete is_complete ws)"

definition all_authorized_raters_complete :: "hasher \<Rightarrow> checkpoint_collector \<Rightarrow> collector_error + bool" where
  "all_authorized_raters_complete hash c =
     (if authorized_raters c = [] then Inl NoAuthorizedRaters
      else all_complete (checkpoint_rater_complete hash c) (authorized_raters c))"

definition checkpoint_validate_submission ::
  "hasher \<Rightarrow> signature_scheme \<Rightarrow> checkpoint_collector \<Rightarrow> rating_map \<Rightarrow> rating_record \<Rightarrow> collector_error + unit" where
  "checkpoint_validate_submission hash scheme c accepted r =
     (if rt_round r \<noteq> por_round (cc_checkpoint c) then Inl InvalidRatingRound
      else if rater r \<notin> set (authorized_raters c) then Inl (UnauthorizedRater (rater r))
      else res_bind (map_err Rating (validate_checkpoint_signed_rating hash scheme r (cc_source c) (cc_config c))) (\<lambda>_.
        res_bind (check_existing accepted r) (\<lambda>_.
        res_bind (checkpoint_admitted hash c (rater r)) (\<lambda>admitted.
        res_bind (ok_or (find (\<lambda>a. case a of AdmittedCheckpointInteraction ev \<Rightarrow> ci_recipient ev = recipient r) admitted)
            MissingFinalizedInteraction) (\<lambda>a.
          case a of AdmittedCheckpointInteraction ev \<Rightarrow>
            if interaction_ref r \<noteq> Some (ci_ref ev) then Inl InteractionReferenceMismatch
            else res_bind (map_err (\<lambda>e. Rating (Protocol e)) (score_admitted_checkpoint_interaction a (cc_config c))) (\<lambda>s.
              if score r \<noteq> s then Inl ScoreMismatch else Inr ()))))))"

definition checkpoint_insert ::
  "hasher \<Rightarrow> signature_scheme \<Rightarrow> checkpoint_collector \<Rightarrow> rating_record \<Rightarrow> collector_error + checkpoint_collector" where
  "checkpoint_insert hash scheme c r =
     res_bind (checkpoint_validate_submission hash scheme c (cc_ratings c) r) (\<lambda>_.
       Inr (c\<lparr>cc_ratings := bt_insert (rating_key r) r (cc_ratings c)\<rparr>))"

definition checkpoint_insert_envelope ::
  "hasher \<Rightarrow> signature_scheme \<Rightarrow> checkpoint_collector \<Rightarrow> envelope_v2 \<Rightarrow> collector_error + checkpoint_collector" where
  "checkpoint_insert_envelope hash scheme c e =
     (if v2_source e \<noteq> cc_source c then Inl InvalidCheckpointSource else checkpoint_insert hash scheme c (v2_rating e))"

definition checkpoint_insert_batch ::
  "hasher \<Rightarrow> signature_scheme \<Rightarrow> checkpoint_collector \<Rightarrow> rating_batch \<Rightarrow> collector_error + checkpoint_collector" where
  "checkpoint_insert_batch hash scheme c b =
     (if batch_round b \<noteq> por_round (cc_checkpoint c) then Inl InvalidBatchRound
      else res_bind (stage_ratings (checkpoint_validate_submission hash scheme c) (cc_ratings c) (batch_ratings b)) (\<lambda>staged.
        Inr (c\<lparr>cc_ratings := staged\<rparr>)))"

definition checkpoint_build_batch :: "hasher \<Rightarrow> signature_scheme \<Rightarrow> checkpoint_collector \<Rightarrow> collector_error + rating_batch" where
  "checkpoint_build_batch hash scheme c =
     map_err Rating (build_verified_checkpoint_rating_batch hash scheme (cc_source c) (map snd (cc_ratings c)) (cc_config c))"

definition checkpoint_build_complete_batch ::
  "hasher \<Rightarrow> signature_scheme \<Rightarrow> checkpoint_collector \<Rightarrow> collector_error + rating_batch" where
  "checkpoint_build_complete_batch hash scheme c =
     res_bind (collect_complete (checkpoint_rater_complete hash c) (cc_ratings c)) (\<lambda>complete_raters.
       map_err Rating (build_verified_checkpoint_rating_batch hash scheme (cc_source c)
         (filter (\<lambda>r. rater r \<in> set complete_raters) (map snd (cc_ratings c))) (cc_config c)))"

end
