(* ===== verification/Rating_Collector_Proofs.thy ===== *)
theory Rating_Collector_Proofs
  imports Rating_Collector
begin

text \<open>
  The contract of a collector and its consequences, proved once in the locale \<open>rating_admission\<close> and used by both
  collectors.
\<close>

section \<open>Ordered sets and sorted batches\<close>

lemma set_btree_set: "set (btree_set xs) = set xs"
proof -
  have "set (fold insort_insert xs ys) = set xs \<union> set ys" for ys :: "'a list"
    by (induction xs arbitrary: ys) (auto simp: set_insort_insert)
  then show ?thesis by (simp add: btree_set_def)
qed

lemma map_insort_key: "map f (insort_key (\<lambda>x. k (f x)) x xs) = insort_key k (f x) (map f xs)"
  by (induction xs) simp_all

lemma map_sort_key: "map f (sort_key (\<lambda>x. k (f x)) xs) = sort_key k (map f xs)"
  by (induction xs) (simp_all add: map_insort_key)

lemma distinct_of_map: "distinct (map f xs) \<Longrightarrow> distinct xs"
  by (simp add: distinct_map)

lemma signed_part_keys [simp]:
  "rater (signed_part r) = rater r" "recipient (signed_part r) = recipient r" "rt_round (signed_part r) = rt_round r"
  "rt_signature (signed_part r) = []"
  by (simp_all add: signed_part_def)

lemma map_signed_part_sort: "map signed_part (sort_key pair_key rs) = sort_key pair_key (map signed_part rs)"
  using map_sort_key [of signed_part pair_key rs] by simp

lemma collect_complete_ok:
  assumes "\<And>e. e \<in> set m \<Longrightarrow> \<exists>b. is_complete (rater (snd e)) = Inr b"
  shows "\<exists>cs. collect_complete is_complete m = Inr cs \<and>
    set cs = {who \<in> (\<lambda>e. rater (snd e)) ` set m. is_complete who = Inr True}"
proof -
  have "\<forall>who \<in> set ws. \<exists>b. is_complete who = Inr b \<Longrightarrow>
      \<exists>cs. res_fold (\<lambda>cs who. res_bind (is_complete who) (\<lambda>b. Inr (if b then insort_insert who cs else cs))) acc ws = Inr cs \<and>
        set cs = set acc \<union> {who \<in> set ws. is_complete who = Inr True}" for ws acc
  proof (induction ws arbitrary: acc)
    case (Cons w ws)
    then obtain b where b: "is_complete w = Inr b" by auto
    from Cons.IH [of "if b then insort_insert w acc else acc"] Cons.prems show ?case
      by (auto simp: b set_insort_insert)
  qed simp
  from this [of "btree_set (map (\<lambda>e. rater (snd e)) m)" "[]"] assms show ?thesis
    by (auto simp: collect_complete_def set_btree_set)
qed

section \<open>The contract\<close>

definition map_inv :: "(rating_record \<Rightarrow> bool) \<Rightarrow> rating_map \<Rightarrow> bool" where
  "map_inv valid m \<longleftrightarrow> sorted_wrt (<) (map fst m) \<and> (\<forall>e \<in> set m. fst e = rating_key (snd e) \<and> valid (snd e))"

definition of_rater :: "rating_map \<Rightarrow> node_id \<Rightarrow> rating_record list" where
  "of_rater m who = filter (\<lambda>r. rater r = who) (map snd m)"

lemma map_inv_Nil [simp]: "map_inv valid []"
  by (simp add: map_inv_def)

lemma map_inv_insert:
  assumes "map_inv valid m" "valid r"
  shows "map_inv valid (bt_insert (rating_key r) r m)"
  using assms sorted_bt_insert [of m] set_bt_insert [of m] by (auto simp: map_inv_def)

lemma map_inv_distinct:
  assumes "map_inv valid m"
  shows "distinct (map rating_key (map snd m))"
proof -
  have "map rating_key (map snd m) = map fst m" using assms by (auto simp: map_inv_def)
  moreover have "distinct (map fst m)" using assms by (simp add: map_inv_def strict_sorted_iff)
  ultimately show ?thesis by (simp only:)
qed

lemma rating_key_distinct: "distinct (map rating_key rs) \<longleftrightarrow> distinct (map pair_key rs)"
  by (induction rs) (auto simp: rating_key_def)

locale rating_admission =
  fixes valid :: "rating_record \<Rightarrow> bool" and expected_of :: "node_id \<Rightarrow> rating_record list option"
  assumes expected_rater: "expected_of who = Some rs \<Longrightarrow> r \<in> set rs \<Longrightarrow> rater r = who"
    and expected_distinct: "expected_of who = Some rs \<Longrightarrow> distinct (map recipient rs)"
    and valid_expected: "valid r \<Longrightarrow> \<exists>rs. expected_of (rater r) = Some rs \<and> signed_part r \<in> set rs"
begin

lemma of_rater_subset:
  assumes "map_inv valid m" "expected_of who = Some rs"
  shows "signed_part ` set (of_rater m who) \<subseteq> set rs" "distinct (map signed_part (of_rater m who))"
proof -
  show "signed_part ` set (of_rater m who) \<subseteq> set rs"
  proof
    fix x assume "x \<in> signed_part ` set (of_rater m who)"
    then obtain r where "r \<in> snd ` set m" "rater r = who" "x = signed_part r" by (auto simp: of_rater_def)
    moreover from this(1) have "valid r" using assms(1) by (auto simp: map_inv_def)
    ultimately show "x \<in> set rs" using valid_expected [of r] assms(2) by auto
  qed
  have "distinct (map rating_key (of_rater m who))"
    unfolding of_rater_def by (rule distinct_map_filter [OF map_inv_distinct [OF assms(1)]])
  moreover have "map rating_key (of_rater m who) = map rating_key (map signed_part (of_rater m who))"
    by (simp add: rating_key_def comp_def)
  ultimately show "distinct (map signed_part (of_rater m who))" using distinct_of_map by metis
qed

text \<open>Counting the ratings of a rater is comparing them with the evidence.\<close>

lemma count_complete:
  assumes "map_inv valid m" "expected_of who = Some rs"
  shows "count_rater m who = length rs \<longleftrightarrow> signed_part ` set (of_rater m who) = set rs"
proof -
  have d: "distinct rs" using expected_distinct [OF assms(2)] by (rule distinct_of_map)
  note s = of_rater_subset [OF assms]
  have "count_rater m who = card (signed_part ` set (of_rater m who))"
    using distinct_card [OF s(2)] by (simp add: count_rater_def of_rater_def)
  moreover have "length rs = card (set rs)" using distinct_card [OF d] by simp
  ultimately show ?thesis using card_subset_eq [OF _ s(1)] by auto
qed

lemma complete_same:
  assumes "map_inv valid m" "map_inv valid m'" "expected_of who = Some rs"
    and "count_rater m who = length rs" "count_rater m' who = length rs"
  shows "signed_part ` set (of_rater m who) = signed_part ` set (of_rater m' who)"
  using assms count_complete by simp

lemma complete_batches_agree:
  assumes m: "map_inv valid m" and m': "map_inv valid m'"
    and C: "\<And>who. who \<in> C \<Longrightarrow> \<exists>rs. expected_of who = Some rs \<and> count_rater m who = length rs \<and> count_rater m' who = length rs"
  shows "map signed_part (sort_key pair_key (filter (\<lambda>r. rater r \<in> C) (map snd m))) =
    map signed_part (sort_key pair_key (filter (\<lambda>r. rater r \<in> C) (map snd m')))"
proof -
  have sets: "signed_part ` set (filter (\<lambda>r. rater r \<in> C) (map snd n)) = (\<Union>who \<in> C. signed_part ` set (of_rater n who))" for n
    by (auto simp: of_rater_def)
  have eq: "signed_part ` set (filter (\<lambda>r. rater r \<in> C) (map snd m)) = signed_part ` set (filter (\<lambda>r. rater r \<in> C) (map snd m'))"
    unfolding sets using C complete_same [OF m m'] by (intro SUP_cong refl) blast
  have d: "distinct (map pair_key (map signed_part (filter (\<lambda>r. rater r \<in> C) (map snd n))))" if "map_inv valid n" for n
    using distinct_map_filter [OF map_inv_distinct [OF that], of "\<lambda>r. rater r \<in> C"]
    by (simp add: rating_key_distinct comp_def)
  have "mset (map signed_part (filter (\<lambda>r. rater r \<in> C) (map snd m))) = mset (map signed_part (filter (\<lambda>r. rater r \<in> C) (map snd m')))"
    using d [OF m] d [OF m'] eq by (intro iffD1 [OF set_eq_iff_mset_eq_distinct]) (auto intro: distinct_of_map)
  then show ?thesis unfolding map_signed_part_sort by (rule sort_key_perm [OF _ d [OF m]])
qed

end

section \<open>Submissions\<close>

lemma check_existing_ok [res_ok]: "check_existing m r = Inr u \<longleftrightarrow> map_of m (rating_key r) = None"
  by (simp add: check_existing_def split: option.split)

lemma stage_inv:
  assumes "stage_ratings validate m rs = Inr m'" "map_inv valid m"
    and "\<And>staged r. validate staged r = Inr () \<Longrightarrow> valid r"
  shows "map_inv valid m'"
  using assms(1) unfolding stage_ratings_def
proof (rule res_fold_induct)
  show "map_inv valid m" by (rule assms(2))
  fix s r s' assume "map_inv valid s" "res_bind (validate s r) (\<lambda>_. Inr (bt_insert (rating_key r) r s)) = Inr s'"
  then show "map_inv valid s'" using assms(3) by (auto simp: res_bind_ok intro: map_inv_insert)
qed

lemma stage_accepts:
  assumes "\<And>r staged. r \<in> set rs \<Longrightarrow> map_of staged (rating_key r) = None \<Longrightarrow> validate staged r = Inr ()"
    and "sorted_wrt (<) (map fst m)" "distinct (map rating_key rs)" "\<And>r. r \<in> set rs \<Longrightarrow> map_of m (rating_key r) = None"
  shows "\<exists>m'. stage_ratings validate m rs = Inr m' \<and> sorted_wrt (<) (map fst m') \<and> snd ` set m' = snd ` set m \<union> set rs"
  using assms
proof (induction rs arbitrary: m)
  case (Cons r rs)
  let ?m = "bt_insert (rating_key r) r m"
  have v: "validate m r = Inr ()" using Cons.prems(1,4) by simp
  have "\<exists>m'. stage_ratings validate ?m rs = Inr m' \<and> sorted_wrt (<) (map fst m') \<and> snd ` set m' = snd ` set ?m \<union> set rs"
  proof (rule Cons.IH)
    show "sorted_wrt (<) (map fst ?m)" by (rule sorted_bt_insert [OF Cons.prems(2)])
    show "map_of ?m (rating_key x) = None" if x: "x \<in> set rs" for x
    proof -
      have "rating_key r \<notin> rating_key ` set rs" using Cons.prems(3) by simp
      then have "rating_key x \<noteq> rating_key r" using x by (metis imageI)
      then show ?thesis using x Cons.prems(4) [of x] by (simp add: map_of_bt_insert [OF Cons.prems(2)])
    qed
  qed (use Cons.prems in auto)
  moreover have "rating_key r \<notin> fst ` set m" using Cons.prems(4) [of r] by (simp add: map_of_eq_None_iff)
  then have "fst e \<noteq> rating_key r" if "e \<in> set m" for e using that by (metis imageI)
  then have "{e \<in> set m. fst e \<noteq> rating_key r} = set m" by blast
  then have "snd ` set ?m = insert r (snd ` set m)" by (simp add: set_bt_insert [OF Cons.prems(2)])
  ultimately show ?case by (auto simp: stage_ratings_def v)
qed (simp add: stage_ratings_def)

definition wave_valid :: "hasher \<Rightarrow> signature_scheme \<Rightarrow> wave_collector \<Rightarrow> rating_record \<Rightarrow> bool" where
  "wave_valid hash scheme c r \<longleftrightarrow> wave_validate_submission hash scheme c [] r = Inr ()"

definition wave_expected :: "wave_collector \<Rightarrow> node_id \<Rightarrow> rating_record list option" where
  "wave_expected c who = (case wave_admitted c who of Inl e \<Rightarrow> None | Inr as \<Rightarrow> Some (map (wave_rating (wc_config c)) as))"

lemma find_recipient_iff:
  "distinct (map (recipient \<circ> f) as) \<Longrightarrow> (\<And>a. P a \<longleftrightarrow> recipient (f a) = n) \<Longrightarrow>
     find P as = Some a \<longleftrightarrow> a \<in> set as \<and> recipient (f a) = n"
  by (induction as) (auto simp: rev_image_eqI)

lemma case_admitted_ok:
  "(case a of AdmittedInteraction ev \<Rightarrow> G ev) = Inr u \<longleftrightarrow> (\<exists>ev. a = AdmittedInteraction ev \<and> G ev = Inr u)"
  "(case a' of AdmittedCheckpointInteraction ev \<Rightarrow> H ev) = Inr u \<longleftrightarrow> (\<exists>ev. a' = AdmittedCheckpointInteraction ev \<and> H ev = Inr u)"
  by (cases a; simp) (cases a'; simp)

lemma wave_validate_ok:
  "wave_validate_submission hash scheme c m r = Inr u \<longleftrightarrow>
     rt_round r = rating_round (wc_opened c) \<and> validate_signed_rating hash scheme r (wc_config c) = Inr () \<and>
     map_of m (rating_key r) = None \<and> minimum_rating (wc_config c) \<le> maximum_rating (wc_config c) \<and>
     (\<exists>rs. wave_expected c (rater r) = Some rs \<and> signed_part r \<in> set rs)"
proof (cases "wave_admitted c (rater r)")
  case (Inl e)
  then show ?thesis by (auto simp: wave_validate_submission_def res_ok wave_expected_def)
next
  case (Inr as)
  let ?f = "wave_rating (wc_config c)"
  have adm: "admit_finalized_block_production_interactions (wc_lace c) (wc_output c) (wc_opened c) (rater r) (wc_state c) = Inr as"
    using Inr by (simp add: wave_admitted_def res_ok)
  note a = admit_wave_ok [OF adm, of "wc_config c"]
  have f: "find (\<lambda>a. case a of AdmittedInteraction ev \<Rightarrow> ie_recipient ev = recipient r) as = Some x \<longleftrightarrow> x \<in> set as \<and> recipient (?f x) = recipient r" for x
    by (rule find_recipient_iff [OF a(2)]) (simp add: wave_rating_def split: admitted_interaction.split)
  have sp: "signed_part r \<in> ?f ` set as \<longleftrightarrow> (\<exists>ev. AdmittedInteraction ev \<in> set as \<and> ie_recipient ev = recipient r \<and> interaction_ref r = Some (ie_ref ev) \<and>
      score r = maximum_rating (wc_config c) \<and> rt_round r = rating_round (wc_opened c))"
  proof -
    have "signed_part r = ?f (AdmittedInteraction ev) \<longleftrightarrow> ie_recipient ev = recipient r \<and> interaction_ref r = Some (ie_ref ev) \<and>
        score r = maximum_rating (wc_config c) \<and> rt_round r = rating_round (wc_opened c)" if "AdmittedInteraction ev \<in> set as" for ev
      using bspec [OF a(1) that] by (cases r) (auto simp: signed_part_def wave_rating_def)
    then show ?thesis by (metis (no_types, lifting) admitted_interaction.exhaust image_iff)
  qed
  have rec: "recipient (?f (AdmittedInteraction ev)) = ie_recipient ev" for ev by (simp add: wave_rating_def)
  have "wave_validate_submission hash scheme c m r = Inr u \<longleftrightarrow>
     rt_round r = rating_round (wc_opened c) \<and> validate_signed_rating hash scheme r (wc_config c) = Inr () \<and>
     map_of m (rating_key r) = None \<and> (\<exists>ev. (AdmittedInteraction ev \<in> set as \<and> ie_recipient ev = recipient r) \<and> interaction_ref r = Some (ie_ref ev) \<and>
       minimum_rating (wc_config c) \<le> maximum_rating (wc_config c) \<and> score r = maximum_rating (wc_config c))"
    unfolding wave_validate_submission_def res_bind_ok map_err_ok if_err_ok check_existing_ok ok_or_ok Inr sum.inject case_admitted_ok
    by (auto simp: f rec res_ok)
  then show ?thesis by (auto simp: wave_expected_def Inr sp)
qed

lemma wave_validate_valid:
  "wave_validate_submission hash scheme c m r = Inr u \<longleftrightarrow> wave_valid hash scheme c r \<and> map_of m (rating_key r) = None"
  by (auto simp: wave_valid_def wave_validate_ok)

interpretation wave_rounds: rating_admission "wave_valid hash scheme c" "wave_expected c" for hash scheme c
proof
  fix who rs r assume "wave_expected c who = Some rs"
  then obtain as where rs: "rs = map (wave_rating (wc_config c)) as"
    and "admit_finalized_block_production_interactions (wc_lace c) (wc_output c) (wc_opened c) who (wc_state c) = Inr as"
    by (auto simp: wave_expected_def wave_admitted_def res_ok split: sum.splits)
  note a = admit_wave_ok [OF this(2), of "wc_config c"]
  show "r \<in> set rs \<Longrightarrow> rater r = who" using a(1) by (auto simp: rs)
  show "distinct (map recipient rs)" using a(2) by (simp add: rs)
next
  fix r assume "wave_valid hash scheme c r"
  then show "\<exists>rs. wave_expected c (rater r) = Some rs \<and> signed_part r \<in> set rs" by (auto simp: wave_valid_def wave_validate_ok)
qed

definition source_valid :: "hasher \<Rightarrow> signature_scheme \<Rightarrow> checkpoint_collector \<Rightarrow> rating_record \<Rightarrow> bool" where
  "source_valid hash scheme c r \<longleftrightarrow> checkpoint_validate_submission hash scheme c [] r = Inr ()"

definition source_expected :: "hasher \<Rightarrow> checkpoint_collector \<Rightarrow> node_id \<Rightarrow> rating_record list option" where
  "source_expected hash c who =
     (case checkpoint_admitted hash c who of Inl e \<Rightarrow> None | Inr as \<Rightarrow> Some (map (source_rating (cc_config c)) as))"

lemma source_validate_ok:
  "checkpoint_validate_submission hash scheme c m r = Inr u \<longleftrightarrow>
     rt_round r = por_round (cc_checkpoint c) \<and> rater r \<in> set (authorized_raters c) \<and>
     validate_checkpoint_signed_rating hash scheme r (cc_source c) (cc_config c) = Inr () \<and>
     map_of m (rating_key r) = None \<and> minimum_rating (cc_config c) \<le> maximum_rating (cc_config c) \<and>
     (\<exists>rs. source_expected hash c (rater r) = Some rs \<and> signed_part r \<in> set rs)"
proof (cases "checkpoint_admitted hash c (rater r)")
  case (Inl e)
  then show ?thesis by (auto simp: checkpoint_validate_submission_def res_ok source_expected_def)
next
  case (Inr as)
  let ?f = "source_rating (cc_config c)"
  have adm: "admit_checkpoint_block_production_interactions hash (cc_lace c) (cc_output c) (cc_checkpoint c) (rater r) (cc_state c) = Inr as"
    using Inr by (simp add: checkpoint_admitted_def res_ok)
  note a = admit_checkpoint_ok [OF adm, of "cc_config c"]
  have f: "find (\<lambda>a. case a of AdmittedCheckpointInteraction ev \<Rightarrow> ci_recipient ev = recipient r) as = Some x \<longleftrightarrow> x \<in> set as \<and> recipient (?f x) = recipient r" for x
    by (rule find_recipient_iff [OF a(2)]) (simp add: source_rating_def split: admitted_checkpoint_interaction.split)
  have sp: "signed_part r \<in> ?f ` set as \<longleftrightarrow> (\<exists>ev. AdmittedCheckpointInteraction ev \<in> set as \<and> ci_recipient ev = recipient r \<and> interaction_ref r = Some (ci_ref ev) \<and>
      score r = maximum_rating (cc_config c) \<and> rt_round r = por_round (cc_checkpoint c))"
  proof -
    have "signed_part r = ?f (AdmittedCheckpointInteraction ev) \<longleftrightarrow> ci_recipient ev = recipient r \<and> interaction_ref r = Some (ci_ref ev) \<and>
        score r = maximum_rating (cc_config c) \<and> rt_round r = por_round (cc_checkpoint c)" if "AdmittedCheckpointInteraction ev \<in> set as" for ev
      using bspec [OF a(1) that] by (cases r) (auto simp: signed_part_def source_rating_def rating_source_def)
    then show ?thesis by (metis (no_types, lifting) admitted_checkpoint_interaction.exhaust image_iff)
  qed
  have rec: "recipient (?f (AdmittedCheckpointInteraction ev)) = ci_recipient ev" for ev by (simp add: source_rating_def)
  have "checkpoint_validate_submission hash scheme c m r = Inr u \<longleftrightarrow>
     rt_round r = por_round (cc_checkpoint c) \<and> rater r \<in> set (authorized_raters c) \<and>
     validate_checkpoint_signed_rating hash scheme r (cc_source c) (cc_config c) = Inr () \<and>
     map_of m (rating_key r) = None \<and> (\<exists>ev. (AdmittedCheckpointInteraction ev \<in> set as \<and> ci_recipient ev = recipient r) \<and> interaction_ref r = Some (ci_ref ev) \<and>
       minimum_rating (cc_config c) \<le> maximum_rating (cc_config c) \<and> score r = maximum_rating (cc_config c))"
    unfolding checkpoint_validate_submission_def res_bind_ok map_err_ok if_err_ok check_existing_ok ok_or_ok Inr sum.inject case_admitted_ok
    by (auto simp: f rec res_ok)
  then show ?thesis by (auto simp: source_expected_def Inr sp)
qed

lemma source_validate_valid:
  "checkpoint_validate_submission hash scheme c m r = Inr u \<longleftrightarrow> source_valid hash scheme c r \<and> map_of m (rating_key r) = None"
  by (auto simp: source_valid_def source_validate_ok)

interpretation source_rounds: rating_admission "source_valid hash scheme c" "source_expected hash c" for hash scheme c
proof
  fix who rs r assume "source_expected hash c who = Some rs"
  then obtain as where rs: "rs = map (source_rating (cc_config c)) as"
    and "admit_checkpoint_block_production_interactions hash (cc_lace c) (cc_output c) (cc_checkpoint c) who (cc_state c) = Inr as"
    by (auto simp: source_expected_def checkpoint_admitted_def res_ok split: sum.splits)
  note a = admit_checkpoint_ok [OF this(2), of "cc_config c"]
  show "r \<in> set rs \<Longrightarrow> rater r = who" using a(1) by (auto simp: rs)
  show "distinct (map recipient rs)" using a(2) by (simp add: rs)
next
  fix r assume "source_valid hash scheme c r"
  then show "\<exists>rs. source_expected hash c (rater r) = Some rs \<and> signed_part r \<in> set rs" by (auto simp: source_valid_def source_validate_ok)
qed

section \<open>Reachable collectors\<close>

inductive wave_collector_reachable :: "hasher \<Rightarrow> signature_scheme \<Rightarrow> wave_collector \<Rightarrow> bool"
  for hash scheme where
  wave_open: "new_wave_collector bl out opened st cfg = Inr c \<Longrightarrow> wave_collector_reachable hash scheme c"
| wave_rating_in: "wave_collector_reachable hash scheme c \<Longrightarrow> wave_insert hash scheme c r = Inr c' \<Longrightarrow> wave_collector_reachable hash scheme c'"
| wave_envelope_in: "wave_collector_reachable hash scheme c \<Longrightarrow> wave_insert_envelope hash scheme c e = Inr c' \<Longrightarrow> wave_collector_reachable hash scheme c'"
| wave_batch_in: "wave_collector_reachable hash scheme c \<Longrightarrow> wave_insert_batch hash scheme c b = Inr c' \<Longrightarrow> wave_collector_reachable hash scheme c'"

inductive source_collector_reachable :: "hasher \<Rightarrow> signature_scheme \<Rightarrow> checkpoint_collector \<Rightarrow> bool"
  for hash scheme where
  source_open: "new_checkpoint_collector hash bl out cp authorized st cfg = Inr c \<Longrightarrow> source_collector_reachable hash scheme c"
| source_rating_in: "source_collector_reachable hash scheme c \<Longrightarrow> checkpoint_insert hash scheme c r = Inr c' \<Longrightarrow> source_collector_reachable hash scheme c'"
| source_envelope_in: "source_collector_reachable hash scheme c \<Longrightarrow> checkpoint_insert_envelope hash scheme c e = Inr c' \<Longrightarrow> source_collector_reachable hash scheme c'"
| source_batch_in: "source_collector_reachable hash scheme c \<Longrightarrow> checkpoint_insert_batch hash scheme c b = Inr c' \<Longrightarrow> source_collector_reachable hash scheme c'"

definition wave_inv :: "hasher \<Rightarrow> signature_scheme \<Rightarrow> wave_collector \<Rightarrow> bool" where
  "wave_inv hash scheme c \<longleftrightarrow> map_inv (wave_valid hash scheme c) (wc_ratings c)"

definition source_inv :: "hasher \<Rightarrow> signature_scheme \<Rightarrow> checkpoint_collector \<Rightarrow> bool" where
  "source_inv hash scheme c \<longleftrightarrow> map_inv (source_valid hash scheme c) (cc_ratings c) \<and>
     validate_source (cc_source c) = Inr () \<and> checked_add 64 (current_round (cc_state c)) 1 = Some (por_round (cc_checkpoint c)) \<and>
     (\<forall>who \<in> set (authorized_raters c). \<not> is_ejected (cc_state c) who)"

lemma wave_context [simp]:
  "wave_admitted (c\<lparr>wc_ratings := m\<rparr>) = wave_admitted c" "wave_expected (c\<lparr>wc_ratings := m\<rparr>) = wave_expected c"
  "wave_valid hash scheme (c\<lparr>wc_ratings := m\<rparr>) = wave_valid hash scheme c"
proof -
  show a: "wave_admitted (c\<lparr>wc_ratings := m\<rparr>) = wave_admitted c" by (simp add: wave_admitted_def fun_eq_iff)
  show b: "wave_expected (c\<lparr>wc_ratings := m\<rparr>) = wave_expected c" by (simp add: wave_expected_def fun_eq_iff a split: sum.split)
  show "wave_valid hash scheme (c\<lparr>wc_ratings := m\<rparr>) = wave_valid hash scheme c"
    by (simp add: wave_valid_def wave_validate_ok fun_eq_iff b)
qed

lemma source_context [simp]:
  "checkpoint_admitted hash (c\<lparr>cc_ratings := m\<rparr>) = checkpoint_admitted hash c"
  "source_expected hash (c\<lparr>cc_ratings := m\<rparr>) = source_expected hash c" "cc_source (c\<lparr>cc_ratings := m\<rparr>) = cc_source c"
  "source_valid hash scheme (c\<lparr>cc_ratings := m\<rparr>) = source_valid hash scheme c"
proof -
  show a: "checkpoint_admitted hash (c\<lparr>cc_ratings := m\<rparr>) = checkpoint_admitted hash c" by (simp add: checkpoint_admitted_def fun_eq_iff)
  show b: "source_expected hash (c\<lparr>cc_ratings := m\<rparr>) = source_expected hash c" by (simp add: source_expected_def fun_eq_iff a split: sum.split)
  show s: "cc_source (c\<lparr>cc_ratings := m\<rparr>) = cc_source c" by (simp add: cc_source_def)
  show "source_valid hash scheme (c\<lparr>cc_ratings := m\<rparr>) = source_valid hash scheme c"
    by (simp add: source_valid_def source_validate_ok fun_eq_iff b s)
qed

lemma wave_insert_inv: "wave_inv hash scheme c \<Longrightarrow> wave_insert hash scheme c r = Inr c' \<Longrightarrow> wave_inv hash scheme c'"
  by (auto simp: wave_insert_def wave_inv_def res_bind_ok wave_validate_valid intro: map_inv_insert)

lemma wave_batch_inv: "wave_inv hash scheme c \<Longrightarrow> wave_insert_batch hash scheme c b = Inr c' \<Longrightarrow> wave_inv hash scheme c'"
  using stage_inv [of "wave_validate_submission hash scheme c" "wc_ratings c" "batch_ratings b" _ "wave_valid hash scheme c"]
  by (auto simp: wave_insert_batch_def wave_inv_def res_bind_ok if_err_ok wave_validate_valid)

lemma wave_reachable_inv: "wave_collector_reachable hash scheme c \<Longrightarrow> wave_inv hash scheme c"
proof (induction rule: wave_collector_reachable.induct)
  case (wave_open bl out opened st cfg c)
  then show ?case by (auto simp: new_wave_collector_def wave_inv_def res_bind_ok if_err_ok)
qed (auto intro: wave_insert_inv wave_batch_inv simp: wave_insert_envelope_def split: if_splits)

lemma source_insert_inv: "source_inv hash scheme c \<Longrightarrow> checkpoint_insert hash scheme c r = Inr c' \<Longrightarrow> source_inv hash scheme c'"
  by (auto simp: checkpoint_insert_def source_inv_def res_bind_ok source_validate_valid intro: map_inv_insert)

lemma source_batch_inv: "source_inv hash scheme c \<Longrightarrow> checkpoint_insert_batch hash scheme c b = Inr c' \<Longrightarrow> source_inv hash scheme c'"
  using stage_inv [of "checkpoint_validate_submission hash scheme c" "cc_ratings c" "batch_ratings b" _ "source_valid hash scheme c"]
  by (auto simp: checkpoint_insert_batch_def source_inv_def res_bind_ok if_err_ok source_validate_valid)

lemma source_reachable_inv: "source_collector_reachable hash scheme c \<Longrightarrow> source_inv hash scheme c"
proof (induction rule: source_collector_reachable.induct)
  case (source_open bl out cp authorized st cfg c)
  then have v: "finalized_prefix_checkpoint hash out (por_round cp) = Inr (Some cp)"
    and c: "c = \<lparr>cc_lace = bl, cc_output = out, cc_checkpoint = cp, authorized_raters = btree_set (filter (\<lambda>who. \<not> is_ejected st who) authorized),
      cc_state = st, cc_config = cfg, cc_ratings = []\<rparr>" "checked_add 64 (current_round st) 1 = Some (por_round cp)"
    unfolding new_checkpoint_collector_def validate_finalized_checkpoint_window_def res_bind_ok map_err_ok if_err_ok validate_checkpoint_ok by auto
  show ?case using source_of_checkpoint [OF v] c by (auto simp: source_inv_def cc_source_def set_btree_set)
qed (auto intro: source_insert_inv source_batch_inv simp: checkpoint_insert_envelope_def split: if_splits)

section \<open>The batch of the complete raters\<close>

lemma wave_rater_complete_ok:
  "wave_rater_complete c who = Inr b \<longleftrightarrow> (\<exists>rs. wave_expected c who = Some rs \<and> b = (count_rater (wc_ratings c) who = length rs))"
  by (cases "wave_admitted c who") (auto simp: wave_rater_complete_def wave_expected_def)

lemma wave_complete_batch:
  assumes "wave_inv hash scheme c"
  shows "wave_build_complete_batch hash scheme c = Inr \<lparr>batch_round = rating_round (wc_opened c),
    batch_ratings = sort_key pair_key (filter (\<lambda>r. rater r \<in> {who. wave_rater_complete c who = Inr True}) (map snd (wc_ratings c)))\<rparr>"
proof -
  note inv = assms [unfolded wave_inv_def]
  have v: "wave_valid hash scheme c (snd e)" if "e \<in> set (wc_ratings c)" for e using inv that by (simp add: map_inv_def)
  have "\<exists>b. wave_rater_complete c (rater (snd e)) = Inr b" if "e \<in> set (wc_ratings c)" for e
    using wave_rounds.valid_expected [OF v [OF that]] by (auto simp: wave_rater_complete_ok)
  from collect_complete_ok [of "wc_ratings c" "wave_rater_complete c", OF this] obtain cs where
    cs: "collect_complete (wave_rater_complete c) (wc_ratings c) = Inr cs"
      "set cs = {who \<in> (\<lambda>e. rater (snd e)) ` set (wc_ratings c). wave_rater_complete c who = Inr True}" by blast
  have f: "filter (\<lambda>r. rater r \<in> set cs) (map snd (wc_ratings c)) =
      filter (\<lambda>r. rater r \<in> {who. wave_rater_complete c who = Inr True}) (map snd (wc_ratings c))"
    by (rule filter_cong) (auto simp: cs(2))
  let ?L = "filter (\<lambda>r. rater r \<in> {who. wave_rater_complete c who = Inr True}) (map snd (wc_ratings c))"
  have "validate_signed_rating hash scheme r (wc_config c) = Inr () \<and> rt_round r = rating_round (wc_opened c)" if "r \<in> set ?L" for r
    using that v by (auto simp: wave_valid_def wave_validate_ok)
  moreover have "distinct (map pair_key ?L)"
    using distinct_map_filter [OF map_inv_distinct [OF inv], of "\<lambda>r. rater r \<in> {who. wave_rater_complete c who = Inr True}"]
    by (simp add: rating_key_distinct)
  ultimately have "build_verified_rating_batch hash scheme (rating_round (wc_opened c)) ?L (wc_config c) =
      Inr \<lparr>batch_round = rating_round (wc_opened c), batch_ratings = sort_key pair_key ?L\<rparr>"
    unfolding verified_batch_ok by blast
  then show ?thesis by (simp only: wave_build_complete_batch_def cs(1) res_bind_simps f map_err_simps)
qed

lemma complete_content:
  assumes "rating_admission valid expected_of" "map_inv valid m"
    and "\<And>who. who \<in> C \<longleftrightarrow> (\<exists>rs. expected_of who = Some rs \<and> count_rater m who = length rs)"
  shows "signed_part ` set (filter (\<lambda>r. rater r \<in> C) (map snd m)) = {e. \<exists>who \<in> C. \<exists>rs. expected_of who = Some rs \<and> e \<in> set rs}"
proof -
  have "signed_part ` set (filter (\<lambda>r. rater r \<in> C) (map snd m)) = (\<Union>who \<in> C. signed_part ` set (of_rater m who))"
    by (auto simp: of_rater_def)
  also have "\<dots> = (\<Union>who \<in> C. {e. \<exists>rs. expected_of who = Some rs \<and> e \<in> set rs})"
  proof (rule SUP_cong [OF refl])
    fix who assume "who \<in> C"
    then obtain rs where "expected_of who = Some rs" "count_rater m who = length rs" using assms(3) by blast
    then show "signed_part ` set (of_rater m who) = {e. \<exists>rs. expected_of who = Some rs \<and> e \<in> set rs}"
      using rating_admission.count_complete [OF assms(1,2), of who rs] by simp
  qed
  finally show ?thesis by blast
qed

lemma wave_complete_content:
  assumes "wave_inv hash scheme c" "wave_build_complete_batch hash scheme c = Inr b"
  shows "signed_part ` set (batch_ratings b) =
    {e. \<exists>who rs. wave_rater_complete c who = Inr True \<and> wave_expected c who = Some rs \<and> e \<in> set rs}"
proof -
  have A: "signed_part ` set (filter (\<lambda>r. rater r \<in> {who. wave_rater_complete c who = Inr True}) (map snd (wc_ratings c))) =
      {e. \<exists>who \<in> {who. wave_rater_complete c who = Inr True}. \<exists>rs. wave_expected c who = Some rs \<and> e \<in> set rs}"
    using assms(1) by (intro complete_content [OF wave_rounds.rating_admission_axioms]) (auto simp: wave_inv_def wave_rater_complete_ok)
  have B: "batch_ratings b = sort_key pair_key (filter (\<lambda>r. rater r \<in> {who. wave_rater_complete c who = Inr True}) (map snd (wc_ratings c)))"
    using assms(2) unfolding wave_complete_batch [OF assms(1)] sum.inject by (metis rating_batch.select_convs(2))
  show ?thesis unfolding B set_sort A by blast
qed

lemma wave_complete_agree:
  assumes "wave_inv hash scheme c" "wave_inv hash scheme (c\<lparr>wc_ratings := m\<rparr>)"
    and "\<And>who. wave_rater_complete c who = wave_rater_complete (c\<lparr>wc_ratings := m\<rparr>) who"
    and "wave_build_complete_batch hash scheme c = Inr b" "wave_build_complete_batch hash scheme (c\<lparr>wc_ratings := m\<rparr>) = Inr b'"
  shows "map signed_part (batch_ratings b) = map signed_part (batch_ratings b')"
proof -
  let ?C = "{who. wave_rater_complete c who = Inr True}"
  have C: "{who. wave_rater_complete (c\<lparr>wc_ratings := m\<rparr>) who = Inr True} = ?C" using assms(3) by simp
  have "map signed_part (sort_key pair_key (filter (\<lambda>r. rater r \<in> ?C) (map snd (wc_ratings c)))) =
      map signed_part (sort_key pair_key (filter (\<lambda>r. rater r \<in> ?C) (map snd m)))"
  proof (rule wave_rounds.complete_batches_agree)
    show "map_inv (wave_valid hash scheme c) (wc_ratings c)" "map_inv (wave_valid hash scheme c) m"
      using assms(1,2) by (simp_all add: wave_inv_def)
    fix who assume "who \<in> ?C"
    then have "wave_rater_complete c who = Inr True" "wave_rater_complete (c\<lparr>wc_ratings := m\<rparr>) who = Inr True"
      using assms(3) [of who] by simp_all
    then show "\<exists>rs. wave_expected c who = Some rs \<and> count_rater (wc_ratings c) who = length rs \<and> count_rater m who = length rs"
      by (auto simp: wave_rater_complete_ok)
  qed
  then show ?thesis
    using assms(4,5) unfolding wave_complete_batch [OF assms(1)] wave_complete_batch [OF assms(2)] C by auto
qed

text \<open>The batch a rater builds for itself is accepted and makes it complete.\<close>

lemma local_batch_signed:
  assumes "build_finalized_block_production_rating_batch hash scheme sign bl out opened who st cfg key = Inr b"
  obtains as where "admit_finalized_block_production_interactions bl out opened who st = Inr as"
    "mset (map signed_part (batch_ratings b)) = mset (map (wave_rating cfg) as)" "batch_round b = rating_round opened"
    "\<forall>r \<in> set (batch_ratings b). validate_signed_rating hash scheme r cfg = Inr () \<and> rt_round r = rating_round opened"
    "distinct (map rating_key (batch_ratings b))"
proof -
  from assms obtain as rs where as: "admit_finalized_block_production_interactions bl out opened who st = Inr as"
    and rs: "res_map (\<lambda>a. sign_admitted_interaction hash scheme sign a cfg key) as = Inr rs"
    and b: "build_verified_rating_batch hash scheme (rating_round opened) rs cfg = Inr b"
    unfolding build_finalized_block_production_rating_batch_def res_bind_ok map_err_ok by blast
  note v = b [unfolded verified_batch_ok]
  have "map signed_part rs = map (wave_rating cfg) as"
    using rs by (induction as arbitrary: rs) (auto simp: res_bind_ok dest: sign_admitted_ok(1))
  then have "mset (map signed_part (batch_ratings b)) = mset (map (wave_rating cfg) as)" using v by (metis mset_map mset_sort rating_batch.select_convs(2))
  moreover have "distinct (map rating_key (batch_ratings b))"
  proof -
    have "mset (map pair_key (batch_ratings b)) = mset (map pair_key rs)" using v by simp
    then show ?thesis unfolding rating_key_distinct using v mset_eq_imp_distinct_iff by blast
  qed
  ultimately show ?thesis using that [OF as] v by simp
qed

lemma wave_local_valid:
  assumes "build_finalized_block_production_rating_batch hash scheme sign (wc_lace c) (wc_output c) (wc_opened c) who (wc_state c) (wc_config c) key = Inr b"
  obtains rs where "wave_expected c who = Some rs" "mset (map signed_part (batch_ratings b)) = mset rs"
    "batch_round b = rating_round (wc_opened c)" "distinct (map rating_key (batch_ratings b))"
    "\<forall>r \<in> set (batch_ratings b). wave_valid hash scheme c r \<and> rater r = who"
proof -
  obtain as where as: "admit_finalized_block_production_interactions (wc_lace c) (wc_output c) (wc_opened c) who (wc_state c) = Inr as"
    and m: "mset (map signed_part (batch_ratings b)) = mset (map (wave_rating (wc_config c)) as)"
    and rest: "batch_round b = rating_round (wc_opened c)" "distinct (map rating_key (batch_ratings b))"
    and v: "\<forall>r \<in> set (batch_ratings b). validate_signed_rating hash scheme r (wc_config c) = Inr () \<and> rt_round r = rating_round (wc_opened c)"
    using local_batch_signed [OF assms] by metis
  let ?rs = "map (wave_rating (wc_config c)) as"
  have e: "wave_expected c who = Some ?rs" by (simp add: wave_expected_def wave_admitted_def as)
  have "wave_valid hash scheme c r \<and> rater r = who" if r: "r \<in> set (batch_ratings b)" for r
  proof -
    have "signed_part r \<in> set (map signed_part (batch_ratings b))" using r by simp
    then have sp: "signed_part r \<in> set ?rs" unfolding mset_eq_setD [OF m] .
    then have who: "rater r = who" using wave_rounds.expected_rater [OF e sp] by simp
    have "minimum_rating (wc_config c) \<le> maximum_rating (wc_config c)"
      using bspec [OF v r] by (auto simp: validate_signed_ok rating_valid_def)
    then show ?thesis using bspec [OF v r] e sp who by (auto simp: wave_valid_def wave_validate_ok)
  qed
  then show ?thesis using that [OF e m rest] by blast
qed

lemma mset_signed_rater:
  "mset (map signed_part xs) = mset rs \<Longrightarrow> length xs = length rs"
  by (metis length_map size_mset)

lemma wave_local_batch_accepted:
  assumes "wave_inv hash scheme c" "count_rater (wc_ratings c) who = 0"
    and b: "build_finalized_block_production_rating_batch hash scheme sign (wc_lace c) (wc_output c) (wc_opened c) who (wc_state c) (wc_config c) key = Inr b"
  shows "\<exists>c'. wave_insert_batch hash scheme c b = Inr c' \<and> wave_rater_complete c' who = Inr True"
proof -
  from wave_local_valid [OF b] obtain rs where rs: "wave_expected c who = Some rs" "mset (map signed_part (batch_ratings b)) = mset rs"
    "batch_round b = rating_round (wc_opened c)" "distinct (map rating_key (batch_ratings b))"
    and v: "\<forall>r \<in> set (batch_ratings b). wave_valid hash scheme c r \<and> rater r = who" by metis
  have s: "sorted_wrt (<) (map fst (wc_ratings c))" using assms(1) by (simp add: wave_inv_def map_inv_def)
  have "map_of (wc_ratings c) (rating_key r) = None" if "r \<in> set (batch_ratings b)" for r
  proof (rule ccontr)
    assume "map_of (wc_ratings c) (rating_key r) \<noteq> None"
    then obtain x where x: "(rating_key r, x) \<in> set (wc_ratings c)" by (auto dest: map_of_SomeD)
    then have "rating_key r = rating_key x" using assms(1) by (fastforce simp: wave_inv_def map_inv_def)
    then have "rater x = who" using v that by (simp add: rating_key_def)
    then have "x \<in> set (filter (\<lambda>r. rater r = who) (map snd (wc_ratings c)))" using x by force
    then show False using assms(2) by (metis count_rater_def empty_iff length_0_conv list.set(1))
  qed
  from stage_accepts [OF _ s rs(4) this, of "wave_validate_submission hash scheme c"] v
  obtain m' where m': "stage_ratings (wave_validate_submission hash scheme c) (wc_ratings c) (batch_ratings b) = Inr m'"
    "snd ` set m' = snd ` set (wc_ratings c) \<union> set (batch_ratings b)" by (auto simp: wave_validate_valid)
  have ins: "wave_insert_batch hash scheme c b = Inr (c\<lparr>wc_ratings := m'\<rparr>)" by (simp add: wave_insert_batch_def rs(3) m'(1))
  then have inv: "map_inv (wave_valid hash scheme c) m'" using wave_batch_inv [OF assms(1) ins] by (simp add: wave_inv_def)
  have "set (of_rater m' who) = set (batch_ratings b)"
  proof -
    have "set (of_rater (wc_ratings c) who) = {}" using assms(2) by (simp only: count_rater_def of_rater_def length_0_conv list.set)
    then show ?thesis using m'(2) v by (auto simp: of_rater_def image_iff)
  qed
  then have "signed_part ` set (of_rater m' who) = set rs" using mset_eq_setD [OF rs(2)] by simp
  then have "count_rater m' who = length rs" using wave_rounds.count_complete [OF inv rs(1)] by blast
  then have "wave_rater_complete (c\<lparr>wc_ratings := m'\<rparr>) who = Inr True" by (simp add: wave_rater_complete_ok rs(1))
  then show ?thesis using ins by blast
qed

section \<open>Closing a checkpoint round\<close>

lemma source_rater_complete_ok:
  "checkpoint_rater_complete hash c who = Inr b \<longleftrightarrow>
     who \<in> set (authorized_raters c) \<and> validate_checkpoint_rater (cc_source c) who (cc_state c) = Inr () \<and>
     (\<exists>rs. source_expected hash c who = Some rs \<and> b = (count_rater (cc_ratings c) who = length rs))"
  by (cases "checkpoint_admitted hash c who") (auto simp: checkpoint_rater_complete_def source_expected_def res_ok)

lemma admitted_rater:
  assumes "admit_checkpoint_block_production_interactions hash bl out cp who st = Inr as" "as \<noteq> []"
  shows "validate_checkpoint_rater (rating_source cp) who st = Inr ()"
proof -
  let ?active = "filter (\<lambda>ev. is_active_recipient st (ci_recipient ev))"
  obtain evs where x: "extract_checkpoint_block_production_evidence hash bl out cp who = Inr evs"
    and r: "map (\<lambda>ev. map_err Admission (admit_checkpoint_interaction_evidence ev st)) (?active evs) = map Inr as"
    using assms(1) unfolding admit_checkpoint_block_production_interactions_def res_bind_ok res_map_ok by blast
  from r assms(2) obtain ev rest a where fs: "?active evs = ev # rest" and a: "map_err Admission (admit_checkpoint_interaction_evidence ev st) = Inr a"
    by (cases as; cases "?active evs") auto
  have h: "ev \<in> set evs" using arg_cong [OF fs, of set] by auto
  have "ci_source ev = rating_source cp \<and> ci_rater ev = who" if "ev \<in> set evs" for ev
    using x that by (rule_tac extract_checkpoint_ok) auto
  with h a show ?thesis
    by (auto simp: res_ok admit_checkpoint_interaction_evidence_def validate_interaction_participants_def validate_checkpoint_rater_def)
qed

lemma source_complete_batch:
  assumes "source_inv hash scheme c"
  shows "checkpoint_build_complete_batch hash scheme c = Inr \<lparr>batch_round = por_round (cc_checkpoint c),
    batch_ratings = sort_key pair_key (filter (\<lambda>r. rater r \<in> {who. checkpoint_rater_complete hash c who = Inr True}) (map snd (cc_ratings c)))\<rparr>"
proof -
  have inv: "map_inv (source_valid hash scheme c) (cc_ratings c)" and src: "validate_source (cc_source c) = Inr ()"
    using assms by (simp_all add: source_inv_def)
  have v: "source_valid hash scheme c (snd e)" if "e \<in> set (cc_ratings c)" for e using inv that by (simp add: map_inv_def)
  have "\<exists>b. checkpoint_rater_complete hash c (rater (snd e)) = Inr b" if "e \<in> set (cc_ratings c)" for e
  proof -
    from source_rounds.valid_expected [OF v [OF that]] obtain rs where
      rs: "source_expected hash c (rater (snd e)) = Some rs" "signed_part (snd e) \<in> set rs" by blast
    then have "rs \<noteq> []" by auto
    with rs(1) obtain as where "admit_checkpoint_block_production_interactions hash (cc_lace c) (cc_output c) (cc_checkpoint c) (rater (snd e)) (cc_state c) = Inr as" "as \<noteq> []"
      by (cases "checkpoint_admitted hash c (rater (snd e))") (auto simp: source_expected_def checkpoint_admitted_def res_ok)
    from admitted_rater [OF this] have "validate_checkpoint_rater (cc_source c) (rater (snd e)) (cc_state c) = Inr ()" by (simp add: cc_source_def)
    then show ?thesis using v [OF that] rs(1) by (auto simp: source_rater_complete_ok source_valid_def source_validate_ok)
  qed
  from collect_complete_ok [of "cc_ratings c" "checkpoint_rater_complete hash c", OF this] obtain cs where
    cs: "collect_complete (checkpoint_rater_complete hash c) (cc_ratings c) = Inr cs"
      "set cs = {who \<in> (\<lambda>e. rater (snd e)) ` set (cc_ratings c). checkpoint_rater_complete hash c who = Inr True}" by blast
  have f: "filter (\<lambda>r. rater r \<in> set cs) (map snd (cc_ratings c)) =
      filter (\<lambda>r. rater r \<in> {who. checkpoint_rater_complete hash c who = Inr True}) (map snd (cc_ratings c))"
    by (rule filter_cong) (auto simp: cs(2))
  let ?L = "filter (\<lambda>r. rater r \<in> {who. checkpoint_rater_complete hash c who = Inr True}) (map snd (cc_ratings c))"
  have rnd: "src_round (cc_source c) = por_round (cc_checkpoint c)" by (simp add: cc_source_def rating_source_def)
  have "validate_checkpoint_signed_rating hash scheme r (cc_source c) (cc_config c) = Inr () \<and> rt_round r = src_round (cc_source c)" if "r \<in> set ?L" for r
    using that v by (auto simp: source_valid_def source_validate_ok rnd)
  moreover have "distinct (map pair_key ?L)"
    using distinct_map_filter [OF map_inv_distinct [OF inv], of "\<lambda>r. rater r \<in> {who. checkpoint_rater_complete hash c who = Inr True}"]
    by (simp add: rating_key_distinct)
  ultimately have "build_verified_checkpoint_rating_batch hash scheme (cc_source c) ?L (cc_config c) =
      Inr \<lparr>batch_round = src_round (cc_source c), batch_ratings = sort_key pair_key ?L\<rparr>"
    unfolding verified_checkpoint_batch_ok using src by blast
  then show ?thesis by (simp only: checkpoint_build_complete_batch_def cs(1) res_bind_simps f map_err_simps rnd)
qed

lemma all_complete_ok: "all_complete f ws = Inr True \<longleftrightarrow> (\<forall>who \<in> set ws. f who = Inr True)"
  by (induction ws) (auto simp: res_bind_ok split: if_splits)

text \<open>Once every authorized rater is complete, the batch is determined by the evidence, whoever collected it.\<close>

lemma closed_checkpoint_agree:
  assumes "source_inv hash scheme c" "source_inv hash scheme (c\<lparr>cc_ratings := m\<rparr>)"
    and "all_authorized_raters_complete hash c = Inr True" "all_authorized_raters_complete hash (c\<lparr>cc_ratings := m\<rparr>) = Inr True"
    and "checkpoint_build_complete_batch hash scheme c = Inr b" "checkpoint_build_complete_batch hash scheme (c\<lparr>cc_ratings := m\<rparr>) = Inr b'"
  shows "map signed_part (batch_ratings b) = map signed_part (batch_ratings b')"
proof -
  let ?C = "set (authorized_raters c)"
  have all: "\<forall>who \<in> ?C. checkpoint_rater_complete hash c who = Inr True \<and> checkpoint_rater_complete hash (c\<lparr>cc_ratings := m\<rparr>) who = Inr True"
    using assms(3,4) by (auto simp: all_authorized_raters_complete_def all_complete_ok split: if_splits)
  have C: "{who. checkpoint_rater_complete hash c who = Inr True} = ?C"
    "{who. checkpoint_rater_complete hash (c\<lparr>cc_ratings := m\<rparr>) who = Inr True} = ?C"
    using all by (auto simp: source_rater_complete_ok)
  have "map signed_part (sort_key pair_key (filter (\<lambda>r. rater r \<in> ?C) (map snd (cc_ratings c)))) =
      map signed_part (sort_key pair_key (filter (\<lambda>r. rater r \<in> ?C) (map snd m)))"
  proof (rule source_rounds.complete_batches_agree)
    show "map_inv (source_valid hash scheme c) (cc_ratings c)" "map_inv (source_valid hash scheme c) m"
      using assms(1,2) by (simp_all add: source_inv_def)
    fix who assume "who \<in> ?C"
    then show "\<exists>rs. source_expected hash c who = Some rs \<and> count_rater (cc_ratings c) who = length rs \<and> count_rater m who = length rs"
      using all by (auto simp: source_rater_complete_ok)
  qed
  then show ?thesis
    using assms(5,6) unfolding source_complete_batch [OF assms(1)] source_complete_batch [OF assms(2)] C sum.inject by auto
qed

end
