(* ===== verification/Rating_Round.thy ===== *)
theory Rating_Round
  imports Rating_Collector_Proofs Payload
begin

text \<open>
  \<open>por/transport/mod.rs\<close> and \<open>por/lifecycle\<close>: the delivery of rating envelopes and the coordinator of one rating round,
  with its two ways to close, a weighted quorum of complete raters and a finalized-wave cutoff.  A broadcaster is a
  parameter that may change the world it acts on.  The \<open>expect\<close> of the source is the error \<open>Panicked\<close>; no reachable
  coordinator returns it (\<open>coordinator_inv\<close>).
\<close>

section \<open>Transport\<close>

datatype (plugins only: code) transport_error =
    InvalidBatchRound | InvalidCheckpointBatchRound | Wire rating_wire_error | Collector collector_error
  | Broadcast nat string

type_synonym 'w broadcaster = "byte list \<Rightarrow> 'w \<Rightarrow> (string + unit) \<times> 'w"

definition encode_rating_batch :: "nat \<Rightarrow> rating_batch \<Rightarrow> transport_error + byte list list" where
  "encode_rating_batch wave b =
     (if checked_add 64 wave 1 \<noteq> Some (batch_round b) then Inl InvalidBatchRound
      else res_map (\<lambda>r. res_bind (map_err Wire (new_v1 wave r)) (\<lambda>e. Inr (encode_v1 e))) (batch_ratings b))"

definition encode_checkpoint_rating_batch :: "source_checkpoint \<Rightarrow> rating_batch \<Rightarrow> transport_error + byte list list" where
  "encode_checkpoint_rating_batch src b =
     res_bind (map_err (\<lambda>_. Wire InvalidSourceCheckpoint) (validate_source src)) (\<lambda>_.
       if batch_round b \<noteq> src_round src then Inl InvalidCheckpointBatchRound
       else res_map (\<lambda>r. res_bind (map_err Wire (new_v2 src r)) (\<lambda>e. Inr (encode_v2 e))) (batch_ratings b))"

text \<open>Sends in order and stops at the first failure; the number is that of the envelopes sent before.\<close>

fun send_all :: "'w broadcaster \<Rightarrow> nat \<Rightarrow> byte list list \<Rightarrow> 'w \<Rightarrow> (nat \<times> string option) \<times> 'w" where
  "send_all send n [] w = ((n, None), w)"
| "send_all send n (e # es) w =
     (case send e w of (Inl message, w') \<Rightarrow> ((n, Some message), w') | (Inr _, w') \<Rightarrow> send_all send (n + 1) es w')"

definition broadcast_rating_batch ::
  "'w broadcaster \<Rightarrow> nat \<Rightarrow> rating_batch \<Rightarrow> 'w \<Rightarrow> (transport_error + nat) \<times> 'w" where
  "broadcast_rating_batch send wave b w =
     (case encode_rating_batch wave b of
        Inl e \<Rightarrow> (Inl e, w)
      | Inr envelopes \<Rightarrow>
          (case send_all send 0 envelopes w of
             ((delivered, Some message), w') \<Rightarrow> (Inl (Broadcast delivered message), w')
           | ((delivered, None), w') \<Rightarrow> (Inr (length envelopes), w')))"

definition receive_rating_envelope ::
  "hasher \<Rightarrow> signature_scheme \<Rightarrow> wave_collector \<Rightarrow> byte list \<Rightarrow> transport_error + wave_collector" where
  "receive_rating_envelope hash scheme c encoded =
     res_bind (map_err Wire (decode_v1 encoded)) (\<lambda>e. map_err Collector (wave_insert_envelope hash scheme c e))"

definition receive_checkpoint_rating_envelope ::
  "hasher \<Rightarrow> signature_scheme \<Rightarrow> checkpoint_collector \<Rightarrow> byte list \<Rightarrow> transport_error + checkpoint_collector" where
  "receive_checkpoint_rating_envelope hash scheme c encoded =
     res_bind (map_err Wire (decode_v2 encoded)) (\<lambda>e. map_err Collector (checkpoint_insert_envelope hash scheme c e))"

section \<open>Quorum\<close>

datatype (plugins only: code) quorum_error =
  InvalidThreshold nat nat | ZeroActiveWeight | WeightOverflow | Collector collector_error

record closure_policy =
  numerator :: nat
  denominator :: nat

record quorum_progress =
  eligible_raters :: nat
  completed_raters :: "node_id list"
  total_active_weight :: nat
  completed_weight :: nat
  required_weight :: nat

definition new_closure_policy :: "nat \<Rightarrow> nat \<Rightarrow> quorum_error + closure_policy" where
  "new_closure_policy num den =
     (if num = 0 \<or> den = 0 \<or> num \<ge> den then Inl (InvalidThreshold num den) else Inr \<lparr>numerator = num, denominator = den\<rparr>)"

definition default_closure_policy :: closure_policy where
  "default_closure_policy = \<lparr>numerator = 2, denominator = 3\<rparr>"

definition is_reached :: "quorum_progress \<Rightarrow> bool" where
  "is_reached p \<longleftrightarrow> completed_weight p \<ge> required_weight p"

definition strict_required_weight :: "nat \<Rightarrow> nat \<Rightarrow> nat \<Rightarrow> quorum_error + nat" where
  "strict_required_weight total_w num den =
     res_bind (ok_or (checked_mul 128 (total_w div den) num) WeightOverflow) (\<lambda>whole.
     res_bind (ok_or (checked_mul 128 (total_w mod den) num) WeightOverflow) (\<lambda>part.
       ok_or (Option.bind (checked_add 128 whole (part div den)) (\<lambda>floor_w. checked_add 128 floor_w 1)) WeightOverflow))"

definition quorum_step ::
  "wave_collector \<Rightarrow> nat \<times> node_id list \<times> nat \<times> nat \<Rightarrow> reputation_entry \<Rightarrow> quorum_error + nat \<times> node_id list \<times> nat \<times> nat" where
  "quorum_step c acc e =
     (let (eligible, completed, total_w, completed_w) = acc in
      if is_excluded e \<or> is_ejected (wc_state c) (entry_node e) then Inr acc
      else res_bind (ok_or (checked_add 64 eligible 1) WeightOverflow) (\<lambda>eligible.
        res_bind (ok_or (checked_add 128 total_w (reputation e)) WeightOverflow) (\<lambda>total_w.
        res_bind (map_err Collector (wave_rater_complete c (entry_node e))) (\<lambda>complete.
          if complete
          then res_bind (ok_or (checked_add 128 completed_w (reputation e)) WeightOverflow) (\<lambda>completed_w.
            Inr (eligible, completed @ [entry_node e], total_w, completed_w))
          else Inr (eligible, completed, total_w, completed_w)))))"

definition evaluate :: "closure_policy \<Rightarrow> wave_collector \<Rightarrow> quorum_error + quorum_progress" where
  "evaluate policy c =
     res_bind (res_fold (quorum_step c) (0, [], 0, 0) (entries (st_list (wc_state c)))) (\<lambda>(eligible, completed, total_w, completed_w).
       if total_w = 0 then Inl ZeroActiveWeight
       else res_bind (strict_required_weight total_w (numerator policy) (denominator policy)) (\<lambda>required.
         Inr \<lparr>eligible_raters = eligible, completed_raters = completed, total_active_weight = total_w,
              completed_weight = completed_w, required_weight = required\<rparr>))"

section \<open>Cutoff\<close>

datatype (plugins only: code) cutoff_error = ZeroWaveLag | RequiredWaveOverflow nat nat | CutoffNotReached nat nat

datatype cutoff_policy = CutoffPolicy (wave_lag: nat)

definition new_cutoff_policy :: "nat \<Rightarrow> cutoff_error + cutoff_policy" where
  "new_cutoff_policy lag = (if lag = 0 then Inl ZeroWaveLag else Inr (CutoffPolicy lag))"

definition required_finalized_wave :: "cutoff_policy \<Rightarrow> finalized_round \<Rightarrow> cutoff_error + nat" where
  "required_finalized_wave policy opened =
     ok_or (checked_add 64 (finalized_wave opened) (wave_lag policy)) (RequiredWaveOverflow (finalized_wave opened) (wave_lag policy))"

definition ensure_reached :: "cutoff_policy \<Rightarrow> finalized_round \<Rightarrow> nat \<Rightarrow> cutoff_error + nat" where
  "ensure_reached policy opened observed =
     res_bind (required_finalized_wave policy opened) (\<lambda>required.
       if observed < required then Inl (CutoffNotReached observed required) else Inr required)"

section \<open>The coordinator\<close>

datatype (plugins only: code) round_error =
    Rating rating_error | Penalty por_error | Collector collector_error | Transport transport_error | Quorum quorum_error
  | Cutoff cutoff_error | LocalBatchAlreadyProduced | LocalBatchNotProduced | PendingOutboundRatings nat | RoundNotClosed
  | RoundClosed | QuorumNotReached nat nat | BroadcastFailed nat nat string | Panicked

datatype close_reason = AllAuthorizedRaters | QuorumReached nat nat | FinalizedWaveCutoff nat nat

record coordinator =
  co_lace :: blocklace
  co_output :: ordered_output
  co_opened :: finalized_round
  co_state :: reputation_state
  co_config :: por_config
  co_collector :: "wave_collector option"
  local_batch :: "rating_batch option"
  outbound_envelopes :: "byte list list"
  next_outbound :: nat
  completed_batch :: "rating_batch option"
  co_close_reason :: "close_reason option"

definition new_coordinator ::
  "blocklace \<Rightarrow> ordered_output \<Rightarrow> finalized_round \<Rightarrow> reputation_state \<Rightarrow> por_config \<Rightarrow> round_error + coordinator" where
  "new_coordinator bl out opened st cfg =
     res_bind (map_err Collector (new_wave_collector bl out opened st cfg)) (\<lambda>c.
       Inr \<lparr>co_lace = bl, co_output = out, co_opened = opened, co_state = st, co_config = cfg, co_collector = Some c,
            local_batch = None, outbound_envelopes = [], next_outbound = 0, completed_batch = None, co_close_reason = None\<rparr>)"

definition require_open :: "coordinator \<Rightarrow> round_error + unit" where
  "require_open co = (if completed_batch co \<noteq> None then Inl RoundClosed else Inr ())"

definition pending_outbound :: "coordinator \<Rightarrow> nat" where
  "pending_outbound co = length (outbound_envelopes co) - next_outbound co"

definition collected_len :: "coordinator \<Rightarrow> nat" where
  "collected_len co =
     (case co_collector co of Some c \<Rightarrow> length (wc_ratings c)
      | None \<Rightarrow> (case completed_batch co of Some b \<Rightarrow> length (batch_ratings b) | None \<Rightarrow> 0))"

definition the_collector :: "coordinator \<Rightarrow> round_error + wave_collector" where
  "the_collector co = ok_or (co_collector co) Panicked"

definition quorum_progress_of :: "coordinator \<Rightarrow> closure_policy \<Rightarrow> round_error + quorum_progress" where
  "quorum_progress_of co policy =
     res_bind (require_open co) (\<lambda>_.
     res_bind (the_collector co) (\<lambda>c. map_err Quorum (evaluate policy c)))"

definition produce_local_batch ::
  "hasher \<Rightarrow> signature_scheme \<Rightarrow> signer \<Rightarrow> coordinator \<Rightarrow> node_id \<Rightarrow> byte list \<Rightarrow> round_error + coordinator" where
  "produce_local_batch hash scheme sign co who key =
     res_bind (require_open co) (\<lambda>_.
       if local_batch co \<noteq> None then Inl LocalBatchAlreadyProduced
       else res_bind (map_err Rating (build_finalized_block_production_rating_batch hash scheme sign
           (co_lace co) (co_output co) (co_opened co) who (co_state co) (co_config co) key)) (\<lambda>b.
         res_bind (map_err Transport (encode_rating_batch (finalized_wave (co_opened co)) b)) (\<lambda>outbound.
         res_bind (the_collector co) (\<lambda>c.
         res_bind (map_err Collector (wave_insert_batch hash scheme c b)) (\<lambda>c'.
           Inr (co\<lparr>co_collector := Some c', outbound_envelopes := outbound, next_outbound := 0, local_batch := Some b\<rparr>))))))"

definition broadcast_pending ::
  "'w broadcaster \<Rightarrow> coordinator \<Rightarrow> 'w \<Rightarrow> (round_error + nat) \<times> coordinator \<times> 'w" where
  "broadcast_pending send co w =
     (case require_open co of Inl e \<Rightarrow> (Inl e, co, w)
      | Inr _ \<Rightarrow>
          if local_batch co = None then (Inl LocalBatchNotProduced, co, w)
          else let starting_index = next_outbound co in
            case send_all send starting_index (drop starting_index (outbound_envelopes co)) w of
              ((n, failure), w') \<Rightarrow>
                let co' = co\<lparr>next_outbound := n\<rparr> in
                (case failure of
                   Some message \<Rightarrow> Inl (BroadcastFailed (n - starting_index) (pending_outbound co') message)
                 | None \<Rightarrow> Inr (n - starting_index), co', w'))"

definition receive_envelope :: "hasher \<Rightarrow> signature_scheme \<Rightarrow> coordinator \<Rightarrow> byte list \<Rightarrow> round_error + coordinator" where
  "receive_envelope hash scheme co encoded =
     res_bind (require_open co) (\<lambda>_.
     res_bind (the_collector co) (\<lambda>c.
     res_bind (map_err Transport (receive_rating_envelope hash scheme c encoded)) (\<lambda>c'.
       Inr (co\<lparr>co_collector := Some c'\<rparr>))))"

definition require_close_prerequisites :: "coordinator \<Rightarrow> round_error + unit" where
  "require_close_prerequisites co =
     res_bind (require_open co) (\<lambda>_.
       if local_batch co = None then Inl LocalBatchNotProduced
       else if pending_outbound co \<noteq> 0 then Inl (PendingOutboundRatings (pending_outbound co))
       else Inr ())"

definition finalize :: "hasher \<Rightarrow> signature_scheme \<Rightarrow> coordinator \<Rightarrow> close_reason \<Rightarrow> round_error + coordinator" where
  "finalize hash scheme co reason =
     res_bind (the_collector co) (\<lambda>c.
     res_bind (map_err Collector (wave_build_complete_batch hash scheme c)) (\<lambda>b.
       Inr (co\<lparr>co_collector := None, co_close_reason := Some reason, completed_batch := Some b\<rparr>)))"

definition close_if_quorum :: "hasher \<Rightarrow> signature_scheme \<Rightarrow> coordinator \<Rightarrow> closure_policy \<Rightarrow> round_error + coordinator" where
  "close_if_quorum hash scheme co policy =
     res_bind (require_close_prerequisites co) (\<lambda>_.
     res_bind (quorum_progress_of co policy) (\<lambda>p.
       if \<not> is_reached p then Inl (QuorumNotReached (completed_weight p) (required_weight p))
       else finalize hash scheme co (QuorumReached (completed_weight p) (required_weight p))))"

definition close_at_finalized_wave ::
  "hasher \<Rightarrow> signature_scheme \<Rightarrow> coordinator \<Rightarrow> cutoff_policy \<Rightarrow> nat \<Rightarrow> round_error + coordinator" where
  "close_at_finalized_wave hash scheme co policy observed =
     res_bind (require_close_prerequisites co) (\<lambda>_.
     res_bind (map_err Cutoff (ensure_reached policy (co_opened co) observed)) (\<lambda>required.
       finalize hash scheme co (FinalizedWaveCutoff observed required)))"

section \<open>The completed round\<close>

record completed_round =
  cr_opened :: finalized_round
  cr_batch :: rating_batch
  cr_close_reason :: close_reason
  cr_penalties :: "penalty_events option"
  finalized_authorizations :: "por_equivocation_authorization set"
  admitted_authorizations :: "por_equivocation_authorization set"

text \<open>
  The authorizations carried by the finalized blocks of the wave (\<open>por/evidence.rs\<close>).  The serializer of payloads is a
  parameter, and so is the text of its errors.
\<close>

definition carrier_step ::
  "serializer \<Rightarrow> (byte list \<Rightarrow> string) \<Rightarrow> blocklace \<Rightarrow> ordered_output \<Rightarrow> finalized_round \<Rightarrow> por_equivocation_authorization set
     \<Rightarrow> block_identity \<Rightarrow> por_error + por_equivocation_authorization set" where
  "carrier_step ser bad bl out opened messages reference =
     res_bind (ok_or (get_block bl reference) (InvalidPenaltyEvents ''finalized block is unavailable'')) (\<lambda>b.
     res_bind (ok_or (por_authorizations_from_bytes ser (payload (content b))) (InvalidPenaltyEvents (bad (payload (content b))))) (\<lambda>carriers.
       if carriers = [] then Inr messages
       else res_bind (ok_or (depth bl (identity b)) (InvalidPenaltyEvents ''authorization ancestry is unavailable'')) (\<lambda>rnd.
         Inr (if wave_of_round rnd (wavelength out) = Some (finalized_wave opened)
              then messages \<union> set (filter (\<lambda>a. \<not> prefix POR_CHECKPOINT_EQUIVOCATION_AUTHORIZATION_DOMAIN (auth_message a) \<and>
                auth_source_finalized_wave a = finalized_wave opened \<and> por_equivocation_authorization.auth_round a = rating_round opened) carriers)
              else messages))))"

definition finalized_authorizations_of ::
  "serializer \<Rightarrow> (byte list \<Rightarrow> string) \<Rightarrow> blocklace \<Rightarrow> ordered_output \<Rightarrow> finalized_round \<Rightarrow> por_error + por_equivocation_authorization set" where
  "finalized_authorizations_of ser bad bl out opened = res_fold (carrier_step ser bad bl out opened) {} (out_blocks out)"

definition into_completed ::
  "serializer \<Rightarrow> (byte list \<Rightarrow> string) \<Rightarrow> coordinator \<Rightarrow> round_error + completed_round" where
  "into_completed ser bad co =
     res_bind (ok_or (completed_batch co) RoundNotClosed) (\<lambda>b.
     res_bind (ok_or (co_close_reason co) Panicked) (\<lambda>reason.
     res_bind (map_err Penalty (finalized_authorizations_of ser bad (co_lace co) (co_output co) (co_opened co))) (\<lambda>auths.
       Inr \<lparr>cr_opened = co_opened co, cr_batch = b, cr_close_reason = reason, cr_penalties = None,
            finalized_authorizations = auths, admitted_authorizations = {}\<rparr>)))"

definition set_authorized_penalties ::
  "completed_round \<Rightarrow> penalty_events \<Rightarrow> por_equivocation_authorization set \<Rightarrow> completed_round" where
  "set_authorized_penalties cr events admitted = cr\<lparr>cr_penalties := Some events, admitted_authorizations := admitted\<rparr>"

definition validate_complete_authorizations :: "completed_round \<Rightarrow> byte list \<Rightarrow> por_error + unit" where
  "validate_complete_authorizations cr shard =
     (if {a \<in> finalized_authorizations cr. auth_shard_id a = shard} \<noteq> admitted_authorizations cr
      then Inl (InvalidPenaltyEvents ''admitted proofs do not match the complete finalized authorization set'') else Inr ())"

end
