(* ===== verification/Rating_Round_Proofs.thy ===== *)
theory Rating_Round_Proofs
  imports Rating_Round
begin

text \<open>
  Facts about a rating round: the quorum is strict and its arithmetic exact, envelopes that a validator sends are accepted
  by every collector of the round, and in every reachable coordinator the round is closed at most once, after the local
  ratings were delivered, on the batch of the complete raters.
\<close>

section \<open>Quorum arithmetic\<close>

lemma strict_floor:
  assumes "0 < den" "num < den" "den < 2 ^ 64" "0 < t" "t < 2 ^ 128"
  shows "strict_required_weight t num den = Inr (t * num div den + 1)"
proof -
  have fl: "(t div den) * num + (t mod den) * num div den = t * num div den"
  proof -
    define q r where "q = t div den" and "r = t mod den"
    have t: "t = den * q + r" by (simp add: q_def r_def)
    have "t * num = r * num + (q * num) * den" by (subst t) (simp add: algebra_simps)
    then have "t * num div den = q * num + r * num div den" using assms(1) by simp
    then show ?thesis by (simp add: q_def r_def)
  qed
  have lt: "t * num div den < t" using assms by (simp add: div_less_iff_less_mult)
  have w: "(t div den) * num \<le> t * num div den" using fl by linarith
  have "(t mod den) * num < den * den" using assms by (intro mult_strict_mono) auto
  also have "\<dots> < 2 ^ 64 * 2 ^ 64" using assms(1,3) by (intro mult_strict_mono) auto
  finally have p: "(t mod den) * num < 2 ^ 128" by simp
  show ?thesis
    unfolding strict_required_weight_def checked_defs
    using w lt p assms(5) fl by (simp add: res_bind_def ok_or_def)
qed

lemma strict_threshold:
  assumes "0 < den"
  shows "t * num div den + 1 \<le> w \<longleftrightarrow> t * num < w * (den :: nat)"
  using div_less_iff_less_mult [OF assms, of "t * num" w] by (simp add: Suc_le_eq)

definition active_entries :: "wave_collector \<Rightarrow> reputation_entry list" where
  "active_entries c = filter (\<lambda>e. \<not> is_excluded e \<and> \<not> is_ejected (wc_state c) (entry_node e)) (entries (st_list (wc_state c)))"

definition complete_entries :: "wave_collector \<Rightarrow> reputation_entry list" where
  "complete_entries c = filter (\<lambda>e. wave_rater_complete c (entry_node e) = Inr True) (active_entries c)"

lemma quorum_step_ok:
  "quorum_step c (n, cs, t, w) e = Inr (n', cs', t', w') \<Longrightarrow>
     if is_excluded e \<or> is_ejected (wc_state c) (entry_node e) then (n', cs', t', w') = (n, cs, t, w)
     else n' = n + 1 \<and> t' = t + reputation e \<and> t' < 2 ^ 128 \<and>
       (if wave_rater_complete c (entry_node e) = Inr True then cs' = cs @ [entry_node e] \<and> w' = w + reputation e
        else cs' = cs \<and> w' = w)"
  unfolding quorum_step_def Let_def prod.case
  by (cases "wave_rater_complete c (entry_node e)") (auto simp: res_ok checked_defs split: if_splits)

lemma quorum_fold:
  assumes "res_fold (quorum_step c) (n, cs, t, w) es = Inr (n', cs', t', w')"
  shows "let act = filter (\<lambda>e. \<not> is_excluded e \<and> \<not> is_ejected (wc_state c) (entry_node e)) es;
       fin = filter (\<lambda>e. wave_rater_complete c (entry_node e) = Inr True) act in
     n' = n + length act \<and> cs' = cs @ map entry_node fin \<and> t' = t + sum_list (map reputation act) \<and>
     w' = w + sum_list (map reputation fin) \<and> (t < 2 ^ 128 \<longrightarrow> t' < 2 ^ 128)"
  using assms
proof (induction es arbitrary: n cs t w)
  case (Cons e es)
  from Cons.prems obtain n1 cs1 t1 w1 where s: "quorum_step c (n, cs, t, w) e = Inr (n1, cs1, t1, w1)"
    and r: "res_fold (quorum_step c) (n1, cs1, t1, w1) es = Inr (n', cs', t', w')"
    by (auto simp: res_bind_ok)
  show ?case using Cons.IH [OF r] quorum_step_ok [OF s] by (auto simp: Let_def split: if_splits)
qed simp

lemma evaluate_ok:
  assumes "evaluate policy c = Inr p" "0 < denominator policy" "numerator policy < denominator policy" "denominator policy < 2 ^ 64"
  shows "completed_raters p = map entry_node (complete_entries c)"
    "total_active_weight p = sum_list (map reputation (active_entries c))"
    "completed_weight p = sum_list (map reputation (complete_entries c))"
    "is_reached p \<longleftrightarrow> total_active_weight p * numerator policy < completed_weight p * denominator policy"
proof -
  from assms(1) obtain n cs t w rq where f: "res_fold (quorum_step c) (0, [], 0, 0) (entries (st_list (wc_state c))) = Inr (n, cs, t, w)"
    and t: "t \<noteq> 0" "strict_required_weight t (numerator policy) (denominator policy) = Inr rq"
    and p: "p = \<lparr>eligible_raters = n, completed_raters = cs, total_active_weight = t, completed_weight = w, required_weight = rq\<rparr>"
    by (auto simp: evaluate_def res_ok split: prod.splits)
  note q = quorum_fold [OF f, unfolded Let_def, folded active_entries_def, folded complete_entries_def]
  show "completed_raters p = map entry_node (complete_entries c)" "total_active_weight p = sum_list (map reputation (active_entries c))"
    "completed_weight p = sum_list (map reputation (complete_entries c))"
    using q by (simp_all add: p)
  have "rq = t * numerator policy div denominator policy + 1"
    using strict_floor [OF assms(2-4), of t] t q by simp
  then show "is_reached p \<longleftrightarrow> total_active_weight p * numerator policy < completed_weight p * denominator policy"
    using strict_threshold [OF assms(2), of t "numerator policy" w] by (simp add: is_reached_def p)
qed

section \<open>Delivery\<close>

lemma encode_batch_ok:
  assumes "encode_rating_batch wave b = Inr es"
  shows "es = map (\<lambda>r. encode_v1 \<lparr>v1_wave = wave, v1_rating = r\<rparr>) (batch_ratings b)"
    "\<forall>r \<in> set (batch_ratings b). new_v1 wave r = Inr \<lparr>v1_wave = wave, v1_rating = r\<rparr>"
proof -
  let ?f = "\<lambda>r. res_bind (map_err Wire (new_v1 wave r)) (\<lambda>e. Inr (encode_v1 e))"
  have m: "res_map ?f (batch_ratings b) = Inr es" using assms by (auto simp: encode_rating_batch_def if_err_ok)
  show "es = map (\<lambda>r. encode_v1 \<lparr>v1_wave = wave, v1_rating = r\<rparr>) (batch_ratings b)"
    by (rule res_map_image [OF m]) (auto simp: res_ok new_v1_ok)
  have "\<exists>y. ?f r = Inr y" if "r \<in> set (batch_ratings b)" for r
  proof -
    have "?f r \<in> set (map Inr es)" unfolding m [unfolded res_map_ok, symmetric] using that by simp
    then show ?thesis by auto
  qed
  then show "\<forall>r \<in> set (batch_ratings b). new_v1 wave r = Inr \<lparr>v1_wave = wave, v1_rating = r\<rparr>"
    by (auto simp: res_ok new_v1_ok)
qed

lemma receive_encoded:
  assumes "new_v1 wave r = Inr \<lparr>v1_wave = wave, v1_rating = r\<rparr>" "score r < 2 ^ 64" "wave = finalized_wave (wc_opened c)"
  shows "receive_rating_envelope hash scheme c (encode_v1 \<lparr>v1_wave = wave, v1_rating = r\<rparr>) = map_err transport_error.Collector (wave_insert hash scheme c r)"
proof -
  have "decode_v1 (encode_v1 \<lparr>v1_wave = wave, v1_rating = r\<rparr>) = Inr \<lparr>v1_wave = wave, v1_rating = r\<rparr>"
    unfolding decode_v1_iff using assms(1,2) by (simp add: v1_fits_def)
  then show ?thesis by (simp add: receive_rating_envelope_def wave_insert_envelope_def assms(3))
qed

fun receive_each :: "hasher \<Rightarrow> signature_scheme \<Rightarrow> wave_collector \<Rightarrow> byte list list \<Rightarrow> transport_error + wave_collector" where
  "receive_each hash scheme c [] = Inr c"
| "receive_each hash scheme c (e # es) = res_bind (receive_rating_envelope hash scheme c e) (\<lambda>c'. receive_each hash scheme c' es)"

text \<open>Receiving the envelopes of a batch one by one is receiving the batch.\<close>

lemma receive_each_stage:
  assumes "\<forall>r \<in> set rs. new_v1 (finalized_wave (wc_opened c)) r = Inr \<lparr>v1_wave = finalized_wave (wc_opened c), v1_rating = r\<rparr> \<and> score r < 2 ^ 64"
    and "stage_ratings (wave_validate_submission hash scheme c) (wc_ratings c) rs = Inr m"
  shows "receive_each hash scheme c (map (\<lambda>r. encode_v1 \<lparr>v1_wave = finalized_wave (wc_opened c), v1_rating = r\<rparr>) rs) = Inr (c\<lparr>wc_ratings := m\<rparr>)"
  using assms
proof (induction rs arbitrary: c)
  case (Cons r rs)
  let ?c = "c\<lparr>wc_ratings := bt_insert (rating_key r) r (wc_ratings c)\<rparr>"
  have v: "wave_validate_submission hash scheme c (wc_ratings c) r = Inr ()"
    and st: "stage_ratings (wave_validate_submission hash scheme c) (wc_ratings ?c) rs = Inr m"
    using Cons.prems(2) by (auto simp: stage_ratings_def res_bind_ok)
  have i: "wave_insert hash scheme c r = Inr ?c" by (simp add: wave_insert_def v)
  have same: "wave_validate_submission hash scheme ?c = wave_validate_submission hash scheme c"
    by (simp add: fun_eq_iff wave_validate_submission_def cong: if_cong admitted_interaction.case_cong)
  have "receive_each hash scheme ?c (map (\<lambda>r. encode_v1 \<lparr>v1_wave = finalized_wave (wc_opened ?c), v1_rating = r\<rparr>) rs) = Inr (?c\<lparr>wc_ratings := m\<rparr>)"
    by (rule Cons.IH) (use Cons.prems(1) st same in simp_all)
  then show ?case using receive_encoded [of "finalized_wave (wc_opened c)" r c hash scheme] Cons.prems(1) by (simp add: i)
qed (simp add: stage_ratings_def)

lemma delivered_batch_completes:
  assumes inv: "wave_inv hash scheme c" "count_rater (wc_ratings c) who = 0"
    and b: "build_finalized_block_production_rating_batch hash scheme sign (wc_lace c) (wc_output c) (wc_opened c) who (wc_state c) (wc_config c) key = Inr b"
    and es: "encode_rating_batch (finalized_wave (wc_opened c)) b = Inr es" and cfg: "maximum_rating (wc_config c) < 2 ^ 64"
  shows "\<exists>c'. receive_each hash scheme c es = Inr c' \<and> wave_rater_complete c' who = Inr True"
proof -
  from wave_local_batch_accepted [OF inv b] obtain c' where c': "wave_insert_batch hash scheme c b = Inr c'" "wave_rater_complete c' who = Inr True" by blast
  then obtain m where m: "stage_ratings (wave_validate_submission hash scheme c) (wc_ratings c) (batch_ratings b) = Inr m" "c' = c\<lparr>wc_ratings := m\<rparr>"
    by (auto simp: wave_insert_batch_def res_bind_ok if_err_ok)
  from wave_local_valid [OF b] have v: "\<forall>r \<in> set (batch_ratings b). wave_valid hash scheme c r" by metis
  have "score r < 2 ^ 64" if "r \<in> set (batch_ratings b)" for r
  proof -
    have "validate_signed_rating hash scheme r (wc_config c) = Inr ()" using v that by (simp add: wave_valid_def wave_validate_ok)
    then have "score r \<le> maximum_rating (wc_config c)" by (simp add: validate_signed_ok rating_valid_def)
    then show ?thesis using cfg by simp
  qed
  then have "receive_each hash scheme c es = Inr c'"
    unfolding encode_batch_ok(1) [OF es] m(2) using encode_batch_ok(2) [OF es] m(1) by (intro receive_each_stage) auto
  then show ?thesis using c'(2) by blast
qed

section \<open>The coordinator\<close>

definition same_context :: "coordinator \<Rightarrow> wave_collector \<Rightarrow> bool" where
  "same_context co c \<longleftrightarrow> wc_lace c = co_lace co \<and> wc_output c = co_output co \<and> wc_opened c = co_opened co \<and>
     wc_state c = co_state co \<and> wc_config c = co_config co"

definition closed_for :: "finalized_round \<Rightarrow> wave_collector \<Rightarrow> close_reason \<Rightarrow> bool" where
  "closed_for opened c reason \<longleftrightarrow>
     (case reason of
        AllAuthorizedRaters \<Rightarrow> False
      | QuorumReached done required \<Rightarrow> \<exists>policy p. evaluate policy c = Inr p \<and> is_reached p \<and> done = completed_weight p \<and> required = required_weight p
      | FinalizedWaveCutoff observed required \<Rightarrow> \<exists>lag. required = finalized_wave opened + lag \<and> required \<le> observed)"

definition open_inv :: "hasher \<Rightarrow> signature_scheme \<Rightarrow> coordinator \<Rightarrow> bool" where
  "open_inv hash scheme co \<longleftrightarrow> completed_batch co = None \<and> co_close_reason co = None \<and>
     (\<exists>c. co_collector co = Some c \<and> wave_inv hash scheme c \<and> same_context co c)"

definition closed_inv :: "hasher \<Rightarrow> signature_scheme \<Rightarrow> coordinator \<Rightarrow> bool" where
  "closed_inv hash scheme co \<longleftrightarrow> co_collector co = None \<and> local_batch co \<noteq> None \<and> next_outbound co = length (outbound_envelopes co) \<and>
     (\<exists>c b reason. completed_batch co = Some b \<and> co_close_reason co = Some reason \<and> wave_inv hash scheme c \<and> same_context co c \<and>
        wave_build_complete_batch hash scheme c = Inr b \<and> closed_for (co_opened co) c reason)"

definition coordinator_inv :: "hasher \<Rightarrow> signature_scheme \<Rightarrow> coordinator \<Rightarrow> bool" where
  "coordinator_inv hash scheme co \<longleftrightarrow> next_outbound co \<le> length (outbound_envelopes co) \<and>
     (local_batch co = None \<longrightarrow> outbound_envelopes co = []) \<and> (open_inv hash scheme co \<or> closed_inv hash scheme co)"

inductive co_step :: "hasher \<Rightarrow> signature_scheme \<Rightarrow> signer \<Rightarrow> coordinator \<times> 'w \<Rightarrow> coordinator \<times> 'w \<Rightarrow> bool"
  for hash scheme sign where
  co_produce: "produce_local_batch hash scheme sign co who key = Inr co' \<Longrightarrow> co_step hash scheme sign (co, w) (co', w)"
| co_broadcast: "broadcast_pending send co w = (res, co', w') \<Longrightarrow> co_step hash scheme sign (co, w) (co', w')"
| co_receive: "receive_envelope hash scheme co encoded = Inr co' \<Longrightarrow> co_step hash scheme sign (co, w) (co', w)"
| co_quorum: "close_if_quorum hash scheme co policy = Inr co' \<Longrightarrow> co_step hash scheme sign (co, w) (co', w)"
| co_cutoff: "close_at_finalized_wave hash scheme co lag observed = Inr co' \<Longrightarrow> co_step hash scheme sign (co, w) (co', w)"

inductive_cases co_stepE: "co_step hash scheme sign (co, w) (co', w')"

lemma new_coordinator_inv: "new_coordinator bl out opened st cfg = Inr co \<Longrightarrow> coordinator_inv hash scheme co"
  by (auto simp: new_coordinator_def res_ok coordinator_inv_def open_inv_def same_context_def new_wave_collector_def wave_inv_def)

lemma send_all_bounds: "send_all send n es w = ((n', failure), w') \<Longrightarrow> n \<le> n' \<and> n' \<le> n + length es \<and> (failure = None \<longrightarrow> n' = n + length es)"
  by (induction send n es w rule: send_all.induct) (fastforce split: prod.splits sum.splits)+

lemma require_open_ok [res_ok]: "require_open co = Inr u \<longleftrightarrow> completed_batch co = None"
  by (auto simp: require_open_def)

lemma the_collector_ok [res_ok]: "the_collector co = Inr c \<longleftrightarrow> co_collector co = Some c"
  by (auto simp: the_collector_def res_ok)

lemma open_case:
  assumes "coordinator_inv hash scheme co" "completed_batch co = None"
  obtains c where "co_collector co = Some c" "wave_inv hash scheme c" "same_context co c" "co_close_reason co = None"
  using assms by (auto simp: coordinator_inv_def open_inv_def closed_inv_def)

lemma insert_context:
  "wave_insert_batch hash scheme c b = Inr c' \<Longrightarrow> same_context co c \<Longrightarrow> same_context co c'"
  "wave_insert hash scheme c r = Inr c' \<Longrightarrow> same_context co c \<Longrightarrow> same_context co c'"
  by (auto simp: wave_insert_batch_def wave_insert_def res_bind_ok if_err_ok same_context_def)

lemma produce_inv:
  assumes "coordinator_inv hash scheme co" "produce_local_batch hash scheme sign co who key = Inr co'"
  shows "coordinator_inv hash scheme co'"
proof -
  from assms(2) obtain b outbound c c' where o: "completed_batch co = None" "co_collector co = Some c"
    and i: "wave_insert_batch hash scheme c b = Inr c'"
    and co': "co' = co\<lparr>co_collector := Some c', outbound_envelopes := outbound, next_outbound := 0, local_batch := Some b\<rparr>"
    unfolding produce_local_batch_def res_bind_ok map_err_ok if_err_ok require_open_ok the_collector_ok by auto
  obtain d where d: "co_collector co = Some d" "wave_inv hash scheme d" "same_context co d" "co_close_reason co = None"
    using open_case [OF assms(1) o(1)] by metis
  have "wave_inv hash scheme c'" "same_context co c'" using wave_batch_inv [OF _ i] insert_context(1) [OF i] d o(2) by auto
  then show ?thesis using o(1) d(4) by (auto simp: coordinator_inv_def open_inv_def co' same_context_def)
qed

lemma broadcast_inv:
  assumes "coordinator_inv hash scheme co" "broadcast_pending send co w = (res, co', w')"
  shows "coordinator_inv hash scheme co'"
proof (cases "completed_batch co = None \<and> local_batch co \<noteq> None")
  case False
  then show ?thesis using assms by (auto simp: broadcast_pending_def require_open_def split: if_splits)
next
  case True
  obtain n failure v where s: "send_all send (next_outbound co) (drop (next_outbound co) (outbound_envelopes co)) w = ((n, failure), v)"
    by (metis prod.collapse)
  have co': "co' = co\<lparr>next_outbound := n\<rparr>" using assms(2) True by (auto simp: broadcast_pending_def require_open_def s Let_def)
  have "n \<le> length (outbound_envelopes co)" using send_all_bounds [OF s] assms(1) by (simp add: coordinator_inv_def)
  moreover obtain c where "co_collector co = Some c" "wave_inv hash scheme c" "same_context co c" "co_close_reason co = None"
    using open_case [OF assms(1) conjunct1 [OF True]] by metis
  ultimately show ?thesis using True by (auto simp: coordinator_inv_def open_inv_def co' same_context_def)
qed

lemma receive_inv:
  assumes "coordinator_inv hash scheme co" "receive_envelope hash scheme co encoded = Inr co'"
  shows "coordinator_inv hash scheme co'"
proof -
  from assms(2) obtain c c' e where o: "completed_batch co = None" "co_collector co = Some c"
    and i: "wave_insert_envelope hash scheme c e = Inr c'" and co': "co' = co\<lparr>co_collector := Some c'\<rparr>"
    unfolding receive_envelope_def receive_rating_envelope_def res_bind_ok map_err_ok require_open_ok the_collector_ok by auto
  obtain d where d: "co_collector co = Some d" "wave_inv hash scheme d" "same_context co d" "co_close_reason co = None"
    using open_case [OF assms(1) o(1)] by metis
  have r: "wave_insert hash scheme c (v1_rating e) = Inr c'" using i by (simp add: wave_insert_envelope_def split: if_splits)
  have "wave_inv hash scheme c'" "same_context co c'" using wave_insert_inv [OF _ r] insert_context(2) [OF r] d o(2) by auto
  then show ?thesis using assms(1) o(1) d(4) by (auto simp: coordinator_inv_def open_inv_def co' same_context_def)
qed

lemma prerequisites_ok [res_ok]:
  "require_close_prerequisites co = Inr u \<longleftrightarrow> completed_batch co = None \<and> local_batch co \<noteq> None \<and> pending_outbound co = 0"
  by (auto simp: require_close_prerequisites_def res_ok)

lemma finalize_ok:
  assumes "coordinator_inv hash scheme co" "require_close_prerequisites co = Inr ()"
    and "\<And>c. co_collector co = Some c \<Longrightarrow> closed_for (co_opened co) c reason"
  shows "\<exists>co'. finalize hash scheme co reason = Inr co' \<and> coordinator_inv hash scheme co'"
proof -
  from assms(2) have p: "completed_batch co = None" "local_batch co \<noteq> None" "pending_outbound co = 0" by (simp_all add: prerequisites_ok)
  obtain c where c: "co_collector co = Some c" "wave_inv hash scheme c" "same_context co c" using open_case [OF assms(1) p(1)] by metis
  from wave_complete_batch [OF c(2)] obtain b where b: "wave_build_complete_batch hash scheme c = Inr b" by blast
  let ?co = "co\<lparr>co_collector := None, co_close_reason := Some reason, completed_batch := Some b\<rparr>"
  have "finalize hash scheme co reason = Inr ?co" by (simp add: finalize_def the_collector_def c(1) b)
  moreover have "next_outbound co = length (outbound_envelopes co)" using p(3) assms(1) by (simp add: pending_outbound_def coordinator_inv_def)
  then have "closed_inv hash scheme ?co"
    using p(2) c b assms(3) [OF c(1)] unfolding closed_inv_def by (auto simp: same_context_def)
  then have "coordinator_inv hash scheme ?co" using assms(1) p(2) by (auto simp: coordinator_inv_def)
  ultimately show ?thesis by blast
qed

lemma quorum_inv:
  assumes "coordinator_inv hash scheme co" "close_if_quorum hash scheme co policy = Inr co'"
  shows "coordinator_inv hash scheme co'"
proof -
  from assms(2) obtain p where pre: "require_close_prerequisites co = Inr ()" and q: "quorum_progress_of co policy = Inr p" "is_reached p"
    and f: "finalize hash scheme co (QuorumReached (completed_weight p) (required_weight p)) = Inr co'"
    unfolding close_if_quorum_def res_bind_ok if_err_ok by auto
  have "closed_for (co_opened co) c (QuorumReached (completed_weight p) (required_weight p))" if "co_collector co = Some c" for c
    using q that by (auto simp: closed_for_def quorum_progress_of_def res_ok)
  from finalize_ok [OF assms(1) pre this] f show ?thesis by auto
qed

lemma cutoff_closes:
  assumes "coordinator_inv hash scheme co" "require_close_prerequisites co = Inr ()" "ensure_reached lag (co_opened co) observed = Inr required"
  shows "\<exists>co'. close_at_finalized_wave hash scheme co lag observed = Inr co' \<and> coordinator_inv hash scheme co'"
proof -
  have "closed_for (co_opened co) c (FinalizedWaveCutoff observed required)" for c
    using assms(3) by (auto simp: closed_for_def ensure_reached_def required_finalized_wave_def res_ok checked_defs not_less split: if_splits)
  from finalize_ok [OF assms(1,2) this] show ?thesis using assms(2,3) by (simp add: close_at_finalized_wave_def)
qed

lemma cutoff_inv:
  assumes "coordinator_inv hash scheme co" "close_at_finalized_wave hash scheme co lag observed = Inr co'"
  shows "coordinator_inv hash scheme co'"
proof -
  from assms(2) obtain required where "require_close_prerequisites co = Inr ()" "ensure_reached lag (co_opened co) observed = Inr required"
    by (auto simp: close_at_finalized_wave_def res_bind_ok map_err_ok)
  from cutoff_closes [OF assms(1) this] assms(2) show ?thesis by auto
qed

lemma co_step_inv: "co_step hash scheme sign s s' \<Longrightarrow> coordinator_inv hash scheme (fst s) \<Longrightarrow> coordinator_inv hash scheme (fst s')"
  by (induction rule: co_step.induct) (auto intro: produce_inv broadcast_inv receive_inv quorum_inv cutoff_inv)

lemma co_steps_inv: "(co_step hash scheme sign)\<^sup>*\<^sup>* s s' \<Longrightarrow> coordinator_inv hash scheme (fst s) \<Longrightarrow> coordinator_inv hash scheme (fst s')"
  by (induction rule: rtranclp_induct) (auto intro: co_step_inv)

lemma closed_step: "co_step hash scheme sign s s' \<Longrightarrow> completed_batch (fst s) \<noteq> None \<Longrightarrow> s' = s"
  by (induction rule: co_step.induct)
    (auto simp: produce_local_batch_def broadcast_pending_def receive_envelope_def close_if_quorum_def close_at_finalized_wave_def
      require_close_prerequisites_def require_open_def)

lemma closed_steps: "(co_step hash scheme sign)\<^sup>*\<^sup>* s s' \<Longrightarrow> completed_batch (fst s) \<noteq> None \<Longrightarrow> s' = s"
  by (induction rule: rtranclp_induct) (auto dest: closed_step)

end
