(* ===== verification/Rating_Publication.thy ===== *)
theory Rating_Publication
  imports Rating_Wire Rating_Signing
begin

text \<open>
  \<open>por/transport/reputation_block.rs\<close>: a reputation block published under the signature of a validator.  A publication
  that was constructed or decoded carries the encoding of its block and a signature that verifies over publisher and
  encoding; decoding accepts exactly the encodings of such publications (\<open>decode_publication_iff\<close>).
\<close>

section \<open>Definitions\<close>

definition REPUTATION_BLOCK_PUBLICATION_DOMAIN :: "byte list" where
  "REPUTATION_BLOCK_PUBLICATION_DOMAIN = ascii ''cordial-por:reputation-block-publication''"

definition REPUTATION_BLOCK_PUBLICATION_VERSION :: nat where
  "REPUTATION_BLOCK_PUBLICATION_VERSION = 1"

definition PUBLICATION_FIXED_LEN :: nat where
  "PUBLICATION_FIXED_LEN = length REPUTATION_BLOCK_PUBLICATION_DOMAIN + 2 + 2 + 8 + 2"

definition MAX_REPUTATION_BLOCK_PUBLICATION_LEN :: nat where
  "MAX_REPUTATION_BLOCK_PUBLICATION_LEN =
     PUBLICATION_FIXED_LEN + UNCOMPRESSED_SECP256K1_PUBLIC_KEY_LEN + MAX_REPUTATION_BLOCK_WIRE_LEN + MAX_SECP256K1_DER_SIGNATURE_LEN"

datatype (plugins only: code) publication_error =
    PublicationTooLong nat nat | UnexpectedEnd | TrailingBytes | InvalidDomain | UnsupportedVersion nat
  | InvalidPublisherKeyLength nat | BlockEnvelopeTooLong nat nat | MissingSignature | SignatureTooLong nat nat
  | Signing string | InvalidSignature | Block por_error

record publication =
  publisher :: node_id
  pub_block :: reputation_block
  block_envelope :: "byte list"
  pub_signature :: "byte list"

definition validate_publisher :: "node_id \<Rightarrow> publication_error + unit" where
  "validate_publisher who =
     (if length (node_bytes who) = COMPRESSED_SECP256K1_PUBLIC_KEY_LEN \<or> length (node_bytes who) = UNCOMPRESSED_SECP256K1_PUBLIC_KEY_LEN
      then Inr () else Inl (InvalidPublisherKeyLength (length (node_bytes who))))"

definition validate_signature :: "byte list \<Rightarrow> publication_error + unit" where
  "validate_signature sig =
     (if sig = [] then Inl MissingSignature
      else if length sig > MAX_SECP256K1_DER_SIGNATURE_LEN then Inl (SignatureTooLong (length sig) MAX_SECP256K1_DER_SIGNATURE_LEN)
      else Inr ())"

definition publication_signing_bytes :: "node_id \<Rightarrow> byte list \<Rightarrow> byte list" where
  "publication_signing_bytes who env =
     REPUTATION_BLOCK_PUBLICATION_DOMAIN @ u16_be REPUTATION_BLOCK_PUBLICATION_VERSION @ put_u16_bytes (node_bytes who) @ put_bytes env"

definition publication_signing_hash :: "hasher \<Rightarrow> node_id \<Rightarrow> byte list \<Rightarrow> byte list" where
  "publication_signing_hash hash who env = hash (publication_signing_bytes who env)"

definition from_encoded_parts ::
  "hasher \<Rightarrow> signature_scheme \<Rightarrow> node_id \<Rightarrow> reputation_block \<Rightarrow> byte list \<Rightarrow> byte list \<Rightarrow> publication_error + publication" where
  "from_encoded_parts hash scheme who b env sig =
     res_bind (validate_publisher who) (\<lambda>_.
     res_bind (validate_signature sig) (\<lambda>_.
       if length env > MAX_REPUTATION_BLOCK_WIRE_LEN then Inl (BlockEnvelopeTooLong (length env) MAX_REPUTATION_BLOCK_WIRE_LEN)
       else if \<not> scheme (publication_signing_hash hash who env) (node_bytes who) sig then Inl InvalidSignature
       else Inr \<lparr>publisher = who, pub_block = b, block_envelope = env, pub_signature = sig\<rparr>))"

definition new_publication ::
  "hasher \<Rightarrow> signature_scheme \<Rightarrow> node_id \<Rightarrow> reputation_block \<Rightarrow> byte list \<Rightarrow> publication_error + publication" where
  "new_publication hash scheme who b sig =
     res_bind (map_err Block (encode_reputation_block hash b)) (\<lambda>env. from_encoded_parts hash scheme who b env sig)"

definition sign_publication ::
  "hasher \<Rightarrow> signature_scheme \<Rightarrow> signer \<Rightarrow> node_id \<Rightarrow> reputation_block \<Rightarrow> byte list \<Rightarrow> publication_error + publication" where
  "sign_publication hash scheme sign who b key =
     res_bind (validate_publisher who) (\<lambda>_.
     res_bind (map_err Block (encode_reputation_block hash b)) (\<lambda>env.
     res_bind (map_err Signing (sign (publication_signing_hash hash who env) key)) (\<lambda>sig.
       from_encoded_parts hash scheme who b env sig)))"

definition reputation_block_publication_signing_hash :: "hasher \<Rightarrow> node_id \<Rightarrow> reputation_block \<Rightarrow> publication_error + byte list" where
  "reputation_block_publication_signing_hash hash who b =
     res_bind (validate_publisher who) (\<lambda>_.
     res_bind (map_err Block (encode_reputation_block hash b)) (\<lambda>env. Inr (publication_signing_hash hash who env)))"

definition encode_publication :: "publication \<Rightarrow> byte list" where
  "encode_publication p =
     REPUTATION_BLOCK_PUBLICATION_DOMAIN @ u16_be REPUTATION_BLOCK_PUBLICATION_VERSION @ put_u16_bytes (node_bytes (publisher p)) @
     put_bytes (block_envelope p) @ put_u16_bytes (pub_signature p)"

definition pub_lift :: "'e + 'a \<Rightarrow> ('e, 'a) wire_reader" where
  "pub_lift m s = res_bind m (\<lambda>x. Inr (x, s))"

definition pub_u16_bytes :: "(publication_error, byte list) wire_reader" where
  "pub_u16_bytes = pr_bind (pr_u16 UnexpectedEnd) (pr_take UnexpectedEnd)"

definition pub_envelope :: "(publication_error, byte list) wire_reader" where
  "pub_envelope =
     pr_bind (pr_number UnexpectedEnd) (\<lambda>len.
       if len > MAX_REPUTATION_BLOCK_WIRE_LEN then pr_fail (BlockEnvelopeTooLong len MAX_REPUTATION_BLOCK_WIRE_LEN)
       else pr_take UnexpectedEnd len)"

definition read_publication :: "hasher \<Rightarrow> (publication_error, node_id \<times> reputation_block \<times> byte list \<times> byte list) wire_reader" where
  "read_publication hash =
     pr_bind (pr_take UnexpectedEnd (length REPUTATION_BLOCK_PUBLICATION_DOMAIN)) (\<lambda>d.
       if d \<noteq> REPUTATION_BLOCK_PUBLICATION_DOMAIN then pr_fail InvalidDomain
       else pr_bind (pr_u16 UnexpectedEnd) (\<lambda>v.
         if v \<noteq> REPUTATION_BLOCK_PUBLICATION_VERSION then pr_fail (UnsupportedVersion v)
         else pr_bind pub_u16_bytes (\<lambda>who.
           pr_bind (pub_lift (validate_publisher (NodeId who))) (\<lambda>_.
           pr_bind pub_envelope (\<lambda>env.
           pr_bind (pub_lift (map_err Block (decode_reputation_block hash env))) (\<lambda>b.
           pr_bind pub_u16_bytes (\<lambda>sig.
           pr_bind (pub_lift (validate_signature sig)) (\<lambda>_. pr_return (NodeId who, b, env, sig)))))))))"

definition decode_publication :: "hasher \<Rightarrow> signature_scheme \<Rightarrow> byte list \<Rightarrow> publication_error + publication" where
  "decode_publication hash scheme input =
     (if length input > MAX_REPUTATION_BLOCK_PUBLICATION_LEN
      then Inl (PublicationTooLong (length input) MAX_REPUTATION_BLOCK_PUBLICATION_LEN)
      else res_bind (read_publication hash input) (\<lambda>((who, b, env, sig), rest).
        if rest \<noteq> [] then Inl TrailingBytes else from_encoded_parts hash scheme who b env sig))"

section \<open>Exactness\<close>

definition publication_ok :: "hasher \<Rightarrow> signature_scheme \<Rightarrow> publication \<Rightarrow> bool" where
  "publication_ok hash scheme p \<longleftrightarrow> length (node_bytes (publisher p)) \<in> {33, 65} \<and> pub_signature p \<noteq> [] \<and> length (pub_signature p) \<le> 72 \<and>
     length (block_envelope p) \<le> MAX_REPUTATION_BLOCK_WIRE_LEN \<and>
     scheme (publication_signing_hash hash (publisher p) (block_envelope p)) (node_bytes (publisher p)) (pub_signature p)"

lemma publisher_ok [res_ok]: "validate_publisher who = Inr u \<longleftrightarrow> length (node_bytes who) \<in> {33, 65}"
  by (simp add: validate_publisher_def COMPRESSED_SECP256K1_PUBLIC_KEY_LEN_def UNCOMPRESSED_SECP256K1_PUBLIC_KEY_LEN_def)

lemma signature_ok [res_ok]: "validate_signature sig = Inr u \<longleftrightarrow> sig \<noteq> [] \<and> length sig \<le> 72"
  by (auto simp: validate_signature_def MAX_SECP256K1_DER_SIGNATURE_LEN_def)

lemma encoded_parts_ok:
  "from_encoded_parts hash scheme who b env sig = Inr p \<longleftrightarrow>
     p = \<lparr>publisher = who, pub_block = b, block_envelope = env, pub_signature = sig\<rparr> \<and> publication_ok hash scheme p"
  unfolding from_encoded_parts_def res_bind_ok publisher_ok signature_ok if_err_ok by (auto simp: publication_ok_def)

lemma pub_lift_ok: "pub_lift m s = Inr (x, r) \<longleftrightarrow> m = Inr x \<and> r = s"
  by (auto simp: pub_lift_def res_bind_ok)

lemma pub_u16_bytes_ok: "pub_u16_bytes s = Inr (bs, r) \<longleftrightarrow> length bs < 2 ^ 16 \<and> s = put_u16_bytes bs @ r"
  unfolding pub_u16_bytes_def pr_bind_ok pr_u16_ok pr_take_ok put_u16_bytes_def append_assoc by blast

lemma pub_envelope_ok: "pub_envelope s = Inr (env, r) \<longleftrightarrow> length env \<le> MAX_REPUTATION_BLOCK_WIRE_LEN \<and> s = put_bytes env @ r"
proof -
  have mx: "MAX_REPUTATION_BLOCK_WIRE_LEN < 2 ^ 64" by (simp add: MAX_REPUTATION_BLOCK_WIRE_LEN_def)
  have "pub_envelope s = Inr (env, r) \<longleftrightarrow> (\<exists>n s'. (n < 2 ^ 64 \<and> s = u64_be n @ s') \<and> n \<le> MAX_REPUTATION_BLOCK_WIRE_LEN \<and> length env = n \<and> s' = env @ r)"
    unfolding pub_envelope_def pr_bind_ok pr_number_ok by (auto simp: pr_fail_ok pr_take_ok not_less split: if_splits)
  then show ?thesis using le_less_trans [OF _ mx, of "length env"] unfolding put_bytes_def append_assoc by blast
qed

interpretation pub_field: wire_codec put_u16_bytes pub_u16_bytes "\<lambda>bs. length bs < 2 ^ 16"
  by unfold_locales (rule pub_u16_bytes_ok)

interpretation envelope_field: wire_codec put_bytes pub_envelope "\<lambda>bs. length bs \<le> MAX_REPUTATION_BLOCK_WIRE_LEN"
  by unfold_locales (rule pub_envelope_ok)

lemma read_publication_ok:
  assumes "\<And>x. length (hash x) = 32"
  shows "read_publication hash s = Inr ((who, b, env, sig), rest) \<longleftrightarrow>
     length (node_bytes who) \<in> {33, 65} \<and> length env \<le> MAX_REPUTATION_BLOCK_WIRE_LEN \<and> block_fits b \<and> encode_reputation_block hash b = Inr env \<and>
     sig \<noteq> [] \<and> length sig \<le> 72 \<and>
     s = encode_publication \<lparr>publisher = who, pub_block = b, block_envelope = env, pub_signature = sig\<rparr> @ rest"
proof -
  have v: "REPUTATION_BLOCK_PUBLICATION_VERSION < 2 ^ 16" by (simp add: REPUTATION_BLOCK_PUBLICATION_VERSION_def)
  have if_fail: "(if x \<noteq> y then pr_fail e else f) t = Inr z \<longleftrightarrow> x = y \<and> f t = Inr z" for x y :: 'q and e f t and z :: "'r \<times> byte list"
    by (simp add: pr_fail_ok)
  have "read_publication hash s = Inr ((who, b, env, sig), rest) \<longleftrightarrow> (\<exists>bs. who = NodeId bs \<and> length bs < 2 ^ 16 \<and> length bs \<in> {33, 65} \<and>
      length env \<le> MAX_REPUTATION_BLOCK_WIRE_LEN \<and> block_fits b \<and> encode_reputation_block hash b = Inr env \<and> length sig < 2 ^ 16 \<and> sig \<noteq> [] \<and> length sig \<le> 72 \<and>
      s = REPUTATION_BLOCK_PUBLICATION_DOMAIN @ u16_be REPUTATION_BLOCK_PUBLICATION_VERSION @ put_u16_bytes bs @ put_bytes env @ put_u16_bytes sig @ rest)"
    unfolding read_publication_def pr_bind_ok pr_take_ok if_fail pr_u16_ok pub_field.rd_iff pub_lift_ok envelope_field.rd_iff map_err_ok
      decode_block_ok [OF assms] publisher_ok signature_ok pr_return_ok
    using v by auto
  also have "\<dots> \<longleftrightarrow> length (node_bytes who) \<in> {33, 65} \<and> length env \<le> MAX_REPUTATION_BLOCK_WIRE_LEN \<and> block_fits b \<and> encode_reputation_block hash b = Inr env \<and>
     sig \<noteq> [] \<and> length sig \<le> 72 \<and>
     s = encode_publication \<lparr>publisher = who, pub_block = b, block_envelope = env, pub_signature = sig\<rparr> @ rest"
    by (cases who) (auto simp: encode_publication_def)
  finally show ?thesis .
qed

lemma encode_publication_length:
  "publication_ok hash scheme p \<Longrightarrow> length (encode_publication p) \<le> MAX_REPUTATION_BLOCK_PUBLICATION_LEN"
  using be.enc_length [of "length (block_envelope p)"]
  by (auto simp: publication_ok_def encode_publication_def put_u16_bytes_def put_bytes_def MAX_REPUTATION_BLOCK_PUBLICATION_LEN_def
    PUBLICATION_FIXED_LEN_def UNCOMPRESSED_SECP256K1_PUBLIC_KEY_LEN_def MAX_SECP256K1_DER_SIGNATURE_LEN_def)

lemma decode_publication_iff:
  assumes "\<And>x. length (hash x) = 32"
  shows "decode_publication hash scheme bs = Inr p \<longleftrightarrow> publication_ok hash scheme p \<and> block_fits (pub_block p) \<and>
    encode_reputation_block hash (pub_block p) = Inr (block_envelope p) \<and> bs = encode_publication p"
proof
  assume "decode_publication hash scheme bs = Inr p"
  then obtain who b env sig where "read_publication hash bs = Inr ((who, b, env, sig), [])" "from_encoded_parts hash scheme who b env sig = Inr p"
    by (auto simp: decode_publication_def if_err_ok res_bind_ok split: prod.splits)
  then show "publication_ok hash scheme p \<and> block_fits (pub_block p) \<and> encode_reputation_block hash (pub_block p) = Inr (block_envelope p) \<and> bs = encode_publication p"
    unfolding read_publication_ok [OF assms] encoded_parts_ok by auto
next
  assume a: "publication_ok hash scheme p \<and> block_fits (pub_block p) \<and> encode_reputation_block hash (pub_block p) = Inr (block_envelope p) \<and> bs = encode_publication p"
  have "read_publication hash bs = Inr ((publisher p, pub_block p, block_envelope p, pub_signature p), [])"
    unfolding read_publication_ok [OF assms] using a by (cases p) (auto simp: publication_ok_def)
  moreover have "from_encoded_parts hash scheme (publisher p) (pub_block p) (block_envelope p) (pub_signature p) = Inr p"
    unfolding encoded_parts_ok using a by (cases p) simp
  ultimately show "decode_publication hash scheme bs = Inr p"
    using encode_publication_length [of hash scheme p] a by (simp add: decode_publication_def not_less)
qed

section \<open>Publications a node can hold\<close>

text \<open>
  The fields of the Rust type are private: a publication only comes from \<open>new\<close>, \<open>sign\<close> or \<open>decode\<close>.
  The record itself is open, so the places that take a publication say that it was constructed.
\<close>

inductive constructed :: "hasher \<Rightarrow> signature_scheme \<Rightarrow> signer \<Rightarrow> publication \<Rightarrow> bool" for hash scheme sign where
  made: "new_publication hash scheme who b sig = Inr p \<Longrightarrow> constructed hash scheme sign p"
| signed: "sign_publication hash scheme sign who b key = Inr p \<Longrightarrow> constructed hash scheme sign p"
| received: "decode_publication hash scheme bs = Inr p \<Longrightarrow> constructed hash scheme sign p"

definition attested_by :: "hasher \<Rightarrow> signature_scheme \<Rightarrow> reputation_block \<Rightarrow> node_id \<Rightarrow> byte list \<Rightarrow> bool" where
  "attested_by hash scheme b who sig \<longleftrightarrow>
     (case encode_reputation_block hash b of Inl _ \<Rightarrow> False
      | Inr env \<Rightarrow> scheme (publication_signing_hash hash who env) (node_bytes who) sig)"

lemma constructed_attested:
  assumes "\<And>x. length (hash x) = 32" "constructed hash scheme sign p"
  shows "publication_ok hash scheme p" "encode_reputation_block hash (pub_block p) = Inr (block_envelope p)"
    "attested_by hash scheme (pub_block p) (publisher p) (pub_signature p)"
proof -
  have "publication_ok hash scheme p \<and> encode_reputation_block hash (pub_block p) = Inr (block_envelope p)"
    using assms(2)
  proof cases
    case (made who b sig)
    then show ?thesis by (auto simp: new_publication_def res_bind_ok map_err_ok encoded_parts_ok)
  next
    case (signed who b key)
    then show ?thesis by (auto simp: sign_publication_def res_bind_ok map_err_ok encoded_parts_ok)
  next
    case (received bs)
    then show ?thesis unfolding decode_publication_iff [OF assms(1)] by simp
  qed
  then show "publication_ok hash scheme p" "encode_reputation_block hash (pub_block p) = Inr (block_envelope p)"
    "attested_by hash scheme (pub_block p) (publisher p) (pub_signature p)"
    by (simp_all add: attested_by_def publication_ok_def)
qed

end
