(* ===== verification/Rating_Transition.thy ===== *)
theory Rating_Transition
  imports Rating_Round_Proofs Rating_Publication
begin

text \<open>
  \<open>por/evidence.rs\<close>, \<open>por/transition.rs\<close>, \<open>por/lifecycle/checkpoint.rs\<close> and \<open>por/checkpoint.rs\<close>: the penalties of a completed
  round, the staging of its reputation block, and the collection of signed confirmations of that block.  The signature
  scheme, the hash, the payload serializer and the texts of foreign errors are parameters.
\<close>

section \<open>Finalized equivocation authorizations\<close>

record error_texts =
  text_payload :: "byte list \<Rightarrow> string"
  text_interaction :: "interaction_error \<Rightarrow> string"
  text_evidence :: "evidence_error \<Rightarrow> string"

record authorization_policy =
  ap_lace :: blocklace
  ap_output :: ordered_output
  ap_opened :: finalized_round
  authorized_validators :: "(node_id \<times> nat) list"

definition new_policy ::
  "error_texts \<Rightarrow> blocklace \<Rightarrow> ordered_output \<Rightarrow> finalized_round \<Rightarrow> (node_id \<times> nat) list \<Rightarrow> por_error + authorization_policy" where
  "new_policy texts bl out opened validators =
     res_bind (map_err (\<lambda>e. InvalidPenaltyEvents (text_interaction texts e)) (validate_finalized_rating_round bl out opened)) (\<lambda>_.
       Inr \<lparr>ap_lace = bl, ap_output = out, ap_opened = opened, authorized_validators = validators\<rparr>)"

definition stake_of :: "authorization_policy \<Rightarrow> node_id \<Rightarrow> nat" where
  "stake_of ap n = (case map_of (authorized_validators ap) n of None \<Rightarrow> 0 | Some w \<Rightarrow> w)"

definition carries :: "authorization_context \<Rightarrow> byte list \<Rightarrow> por_equivocation_authorization \<Rightarrow> bool" where
  "carries ctx message a \<longleftrightarrow> auth_shard_id a = auth_shard ctx \<and> auth_source_finalized_wave a = auth_wave ctx \<and>
     por_equivocation_authorization.auth_round a = authorization_context.auth_round ctx \<and> auth_message a = message"

definition genuine_carrier :: "hasher \<Rightarrow> signature_scheme \<Rightarrow> authorization_policy \<Rightarrow> block \<Rightarrow> nat \<Rightarrow> bool" where
  "genuine_carrier hash scheme ap b rnd \<longleftrightarrow>
     wave_of_round rnd (wavelength (ap_output ap)) = Some (finalized_wave (ap_opened ap)) \<and> stake_of ap (node b) \<noteq> 0 \<and>
     block_hash_ext hash (node b) (content b) = content_hash (identity b) \<and>
     scheme (content_hash (identity b)) (node_bytes (node b)) (signature (identity b))"

fun find_carrier ::
  "hasher \<Rightarrow> signature_scheme \<Rightarrow> serializer \<Rightarrow> error_texts \<Rightarrow> authorization_policy \<Rightarrow> authorization_context \<Rightarrow> byte list
     \<Rightarrow> block_identity list \<Rightarrow> por_error + unit" where
  "find_carrier hash scheme ser texts ap ctx message [] =
     Inl (InvalidPenaltyEvents ''verified equivocation has no finalized authorization payload'')"
| "find_carrier hash scheme ser texts ap ctx message (reference # refs) =
     res_bind (ok_or (get_block (ap_lace ap) reference) (InvalidPenaltyEvents ''finalized authorization block is unavailable'')) (\<lambda>b.
     res_bind (ok_or (por_authorizations_from_bytes ser (payload (content b)))
         (InvalidPenaltyEvents (text_payload texts (payload (content b))))) (\<lambda>authorizations.
       if \<not> list_ex (carries ctx message) authorizations then find_carrier hash scheme ser texts ap ctx message refs
       else res_bind (ok_or (depth (ap_lace ap) (identity b)) (InvalidPenaltyEvents ''authorization block ancestry is unavailable'')) (\<lambda>rnd.
         if \<not> genuine_carrier hash scheme ap b rnd
         then Inl (InvalidPenaltyEvents ''invalid finalized equivocation authorization block'') else Inr ())))"

definition check_age :: "authorization_policy \<Rightarrow> block \<Rightarrow> por_error + unit" where
  "check_age ap b =
     res_bind (ok_or (candidate_depth (ap_lace ap) (content b)) (InvalidPenaltyEvents ''equivocation ancestry is unavailable'')) (\<lambda>rnd.
       case wave_of_round rnd (wavelength (ap_output ap)) of
         None \<Rightarrow> Inl (InvalidPenaltyEvents ''equivocation is newer than the finalized source wave'')
       | Some wave \<Rightarrow>
           if wave > finalized_wave (ap_opened ap)
           then Inl (InvalidPenaltyEvents ''equivocation is newer than the finalized source wave'') else Inr ())"

definition policy_authorize ::
  "hasher \<Rightarrow> signature_scheme \<Rightarrow> serializer \<Rightarrow> error_texts \<Rightarrow> authorization_policy \<Rightarrow> authorization_context \<Rightarrow> verified_evidence
     \<Rightarrow> por_error + unit" where
  "policy_authorize hash scheme ser texts ap ctx proof =
     (if authorization_context.auth_round ctx \<noteq> rating_round (ap_opened ap) \<or> auth_wave ctx \<noteq> finalized_wave (ap_opened ap) \<or>
         stake_of ap (ver_validator proof) = 0
      then Inl (InvalidPenaltyEvents ''equivocation is outside the authorized validator/round context'')
      else res_bind (res_all (check_age ap) (ver_blocks proof)) (\<lambda>_.
        res_bind (equivocation_authorization_payload ctx proof) (\<lambda>message.
          find_carrier hash scheme ser texts ap ctx message (out_blocks (ap_output ap)))))"

definition claim_step ::
  "hasher \<Rightarrow> signature_scheme \<Rightarrow> serializer \<Rightarrow> error_texts \<Rightarrow> authorization_policy \<Rightarrow> authorization_context
     \<Rightarrow> (byte list \<times> equivocation_penalty) list \<times> por_equivocation_authorization set \<Rightarrow> equivocation_evidence
     \<Rightarrow> por_error + (byte list \<times> equivocation_penalty) list \<times> por_equivocation_authorization set" where
  "claim_step hash scheme ser texts ap ctx acc claim =
     (let (selected, admitted) = acc in
      res_bind (map_err (\<lambda>e. InvalidPenaltyEvents (text_evidence texts e)) (verify_equivocation_evidence hash scheme claim (ap_lace ap))) (\<lambda>proof.
      res_bind (equivocation_authorization_payload ctx proof) (\<lambda>message.
      res_bind (authorize hash proof ctx (policy_authorize hash scheme ser texts ap)) (\<lambda>event.
        Inr (bt_insert message event selected,
          insert \<lparr>auth_shard_id = auth_shard ctx, auth_source_finalized_wave = auth_wave ctx,
            auth_round = authorization_context.auth_round ctx, auth_message = message\<rparr> admitted)))))"

definition first_per_offender :: "equivocation_penalty list \<Rightarrow> (node_id \<times> equivocation_penalty) list" where
  "first_per_offender events =
     fold (\<lambda>ev m. if map_of m (offender ev) = None then bt_insert (offender ev) ev m else m) events []"

definition with_authorized_equivocations ::
  "hasher \<Rightarrow> signature_scheme \<Rightarrow> serializer \<Rightarrow> error_texts \<Rightarrow> completed_round \<Rightarrow> equivocation_evidence list \<Rightarrow> blocklace \<Rightarrow> ordered_output
     \<Rightarrow> (node_id \<times> nat) list \<Rightarrow> byte list \<Rightarrow> por_error + completed_round" where
  "with_authorized_equivocations hash scheme ser texts cr raw bl out validators shard =
     res_bind (new_policy texts bl out (cr_opened cr) validators) (\<lambda>ap.
       let ctx = \<lparr>auth_shard = shard, auth_wave = finalized_wave (cr_opened cr), auth_round = batch_round (cr_batch cr)\<rparr> in
       res_bind (res_fold (claim_step hash scheme ser texts ap ctx) ([], {}) raw) (\<lambda>(selected, admitted).
         let events = \<lparr>events_round = batch_round (cr_batch cr),
               equivocations = map snd (first_per_offender (map snd selected)), inactivity = []\<rparr> in
         res_bind (penalty_events_commitment hash (events_round events) (Some events)) (\<lambda>_.
           let cr' = set_authorized_penalties cr events admitted in
           res_bind (validate_complete_authorizations cr' shard) (\<lambda>_. Inr cr'))))"

section \<open>Staging a wave round\<close>

record applied_round =
  ar_close_reason :: close_reason
  ar_block :: reputation_block
  ar_weights :: "(node_id \<times> nat) list"

definition stage_reputation_block ::
  "hasher \<Rightarrow> completed_round \<Rightarrow> reputation_state \<Rightarrow> por_config \<Rightarrow> byte list \<Rightarrow> reputation_block \<Rightarrow> por_error + reputation_state \<times> applied_round" where
  "stage_reputation_block hash cr st cfg shard b =
     res_bind (validate_complete_authorizations cr shard) (\<lambda>_.
     res_bind (apply_reputation_block_with_penalties hash shard (finalized_wave (cr_opened cr)) (batch_ratings (cr_batch cr)) b cfg
         (cr_penalties cr) st) (\<lambda>staged.
       Inr (staged, \<lparr>ar_close_reason = cr_close_reason cr, ar_block = b, ar_weights = reputation_weights staged\<rparr>)))"

definition stage_completed_reputation_round ::
  "hasher \<Rightarrow> completed_round \<Rightarrow> reputation_state \<Rightarrow> por_config \<Rightarrow> byte list \<Rightarrow> por_error + reputation_state \<times> applied_round" where
  "stage_completed_reputation_round hash cr st cfg shard =
     res_bind (validate_complete_authorizations cr shard) (\<lambda>_.
     res_bind (replay_reputation_transition_with_penalties hash (state_vector st) (batch_ratings (cr_batch cr)) (batch_round (cr_batch cr))
         cfg (cr_penalties cr)) (\<lambda>l.
     res_bind (build_reputation_block_with_penalties hash
         \<lparr>ctx_shard = shard, ctx_wave = finalized_wave (cr_opened cr), ctx_previous = latest_block st\<rparr> (cr_batch cr) l cfg (cr_penalties cr)) (\<lambda>b.
       stage_reputation_block hash cr st cfg shard b)))"

definition stage_attested_checkpoint ::
  "hasher \<Rightarrow> completed_round \<Rightarrow> reputation_state \<Rightarrow> por_config \<Rightarrow> byte list \<Rightarrow> reputation_block \<Rightarrow> por_error + reputation_state \<times> applied_round" where
  "stage_attested_checkpoint hash cr st cfg shard b = stage_reputation_block hash cr st cfg shard b"

text \<open>The state is replaced only on success.\<close>

definition apply_completed_reputation_round ::
  "hasher \<Rightarrow> completed_round \<Rightarrow> reputation_state \<Rightarrow> por_config \<Rightarrow> byte list \<Rightarrow> (por_error + applied_round) \<times> reputation_state" where
  "apply_completed_reputation_round hash cr st cfg shard =
     (case stage_completed_reputation_round hash cr st cfg shard of
        Inl e \<Rightarrow> (Inl e, st) | Inr (staged, applied) \<Rightarrow> (Inr applied, staged))"

section \<open>Staging a checkpoint round\<close>

record completed_checkpoint_round =
  ck_checkpoint :: prefix_checkpoint
  ck_batch :: rating_batch
  ck_finalized :: "por_equivocation_authorization set"
  ck_admitted :: "por_equivocation_authorization set"
  ck_ignored :: "por_equivocation_authorization set"
  preceding_reputation :: reputation_list
  ck_penalties :: "penalty_events option"

definition new_completed_checkpoint ::
  "prefix_checkpoint \<Rightarrow> rating_batch \<Rightarrow> por_equivocation_authorization set \<Rightarrow> reputation_state \<Rightarrow> completed_checkpoint_round" where
  "new_completed_checkpoint cp b auths st =
     \<lparr>ck_checkpoint = cp, ck_batch = b, ck_finalized = auths, ck_admitted = {}, ck_ignored = {},
      preceding_reputation = st_list st, ck_penalties = None\<rparr>"

definition validate_preceding_state :: "completed_checkpoint_round \<Rightarrow> reputation_state \<Rightarrow> por_error + unit" where
  "validate_preceding_state ck st =
     (if preceding_reputation ck \<noteq> st_list st
      then Inl (InvalidPenaltyEvents ''checkpoint authorization used a different preceding state'') else Inr ())"

definition validate_checkpoint_authorizations :: "completed_checkpoint_round \<Rightarrow> byte list \<Rightarrow> por_error + unit" where
  "validate_checkpoint_authorizations ck shard =
     (if ck_admitted ck \<inter> ck_ignored ck \<noteq> {} \<or> {a \<in> ck_finalized ck. auth_shard_id a = shard} \<noteq> ck_admitted ck \<union> ck_ignored ck
      then Inl (InvalidPenaltyEvents ''checkpoint penalties omit or add finalized authorizations'') else Inr ())"

definition stage_completed_checkpoint_round ::
  "hasher \<Rightarrow> completed_checkpoint_round \<Rightarrow> reputation_state \<Rightarrow> por_config \<Rightarrow> byte list \<Rightarrow> por_error + reputation_state \<times> applied_round" where
  "stage_completed_checkpoint_round hash ck st cfg shard =
     res_bind (validate_preceding_state ck st) (\<lambda>_.
     res_bind (validate_checkpoint_authorizations ck shard) (\<lambda>_.
       let src = rating_source (ck_checkpoint ck) in
       res_bind (replay_reputation_transition_with_penalties hash (state_vector st) (batch_ratings (ck_batch ck)) (batch_round (ck_batch ck))
           cfg (ck_penalties ck)) (\<lambda>l.
       res_bind (build_checkpoint_reputation_block_with_penalties hash
           \<lparr>cctx_shard = shard, cctx_source = src, cctx_previous = latest_block st\<rparr> (ck_batch ck) l cfg (ck_penalties ck)) (\<lambda>b.
       res_bind (apply_checkpoint_reputation_block_with_penalties hash shard src (batch_ratings (ck_batch ck)) b cfg (ck_penalties ck) st) (\<lambda>staged.
         Inr (staged, \<lparr>ar_close_reason = AllAuthorizedRaters, ar_block = b, ar_weights = reputation_weights staged\<rparr>))))))"

section \<open>Confirmations\<close>

record conflict_evidence =
  conflict_attester :: node_id
  first_hash :: "byte list"
  conflicting_hash :: "byte list"
  first_publication :: publication
  conflicting_publication :: publication

datatype (plugins only: code) attestation_error =
    InvalidThreshold nat nat | EmptyAttesterSet | UnknownAttester node_id | ExcludedAttester node_id | ZeroAttesterWeight
  | WeightOverflow | UnauthorizedAttester node_id | ConflictingPublication conflict_evidence
  | CompetingAuditedBlock "byte list" "byte list" | Audit por_error | ThresholdAlreadyReached | ThresholdNotReached nat nat
  | Panicked

record checkpoint_policy =
  cp_numerator :: nat
  cp_denominator :: nat

datatype observation = Counted | Duplicate

record attestation_progress =
  authorized_attesters :: nat
  attesters :: "node_id list"
  progress_hash :: "byte list option"
  progress_total :: nat
  progress_signed :: nat
  progress_required :: nat

record attested_checkpoint =
  att_block :: reputation_block
  att_hash :: "byte list"
  att_publications :: "publication list"
  att_progress :: attestation_progress

record attestation_collector =
  at_state :: reputation_state
  at_completed :: completed_round
  at_config :: por_config
  at_shard :: "byte list"
  attester_weights :: "(node_id \<times> nat) list"
  total_attester_weight :: nat
  at_required :: nat
  signed_weight :: nat
  candidate_hash :: "byte list option"
  candidate_block :: "reputation_block option"
  publications :: "(node_id \<times> publication) list"

definition new_checkpoint_policy :: "nat \<Rightarrow> nat \<Rightarrow> attestation_error + checkpoint_policy" where
  "new_checkpoint_policy num den =
     (if num = 0 \<or> den = 0 \<or> num \<ge> den then Inl (InvalidThreshold num den) else Inr \<lparr>cp_numerator = num, cp_denominator = den\<rparr>)"

definition attester_threshold :: "nat \<Rightarrow> nat \<Rightarrow> nat \<Rightarrow> nat option" where
  "attester_threshold total_w num den =
     Option.bind (checked_mul 128 (total_w div den) num) (\<lambda>whole.
     Option.bind (map_option (\<lambda>part. part div den) (checked_mul 128 (total_w mod den) num)) (\<lambda>remainder.
     Option.bind (checked_add 128 whole remainder) (\<lambda>s. checked_add 128 s 1)))"

definition attester_step ::
  "reputation_state \<Rightarrow> (node_id \<times> nat) list \<times> nat \<Rightarrow> node_id \<Rightarrow> attestation_error + (node_id \<times> nat) list \<times> nat" where
  "attester_step st acc who =
     (let (weights, total_w) = acc in
      res_bind (ok_or (search_entry (entries (st_list st)) who) (UnknownAttester who)) (\<lambda>e.
        if is_excluded e \<or> is_ejected st who then Inl (ExcludedAttester who)
        else if map_of weights who \<noteq> None then Inr (weights, total_w)
        else res_bind (ok_or (checked_add 128 total_w (reputation e)) WeightOverflow) (\<lambda>total_w.
          Inr (bt_insert who (reputation e) weights, total_w))))"

definition new_attestation_collector ::
  "reputation_state \<Rightarrow> completed_round \<Rightarrow> por_config \<Rightarrow> byte list \<Rightarrow> node_id list \<Rightarrow> checkpoint_policy \<Rightarrow> attestation_error + attestation_collector" where
  "new_attestation_collector st cr cfg shard authorized policy =
     res_bind (res_fold (attester_step st) ([], 0) authorized) (\<lambda>(weights, total_w).
       if weights = [] then Inl EmptyAttesterSet
       else if total_w = 0 then Inl ZeroAttesterWeight
       else res_bind (ok_or (attester_threshold total_w (cp_numerator policy) (cp_denominator policy)) WeightOverflow) (\<lambda>required.
         Inr \<lparr>at_state = st, at_completed = cr, at_config = cfg, at_shard = shard, attester_weights = weights,
              total_attester_weight = total_w, at_required = required, signed_weight = 0, candidate_hash = None,
              candidate_block = None, publications = []\<rparr>))"

definition attestation_progress_of :: "attestation_collector \<Rightarrow> attestation_progress" where
  "attestation_progress_of c =
     \<lparr>authorized_attesters = length (attester_weights c), attesters = map fst (publications c), progress_hash = candidate_hash c,
      progress_total = total_attester_weight c, progress_signed = signed_weight c, progress_required = at_required c\<rparr>"

definition attestation_reached :: "attestation_progress \<Rightarrow> bool" where
  "attestation_reached p \<longleftrightarrow> progress_signed p \<ge> progress_required p"

definition audit_candidate :: "hasher \<Rightarrow> attestation_collector \<Rightarrow> reputation_block \<Rightarrow> por_error + unit" where
  "audit_candidate hash c b =
     res_bind (validate_complete_authorizations (at_completed c) (at_shard c)) (\<lambda>_.
       verify_reputation_transition_with_penalties hash (state_vector (at_state c)) (batch_ratings (cr_batch (at_completed c))) b
         \<lparr>ctx_shard = at_shard c, ctx_wave = finalized_wave (cr_opened (at_completed c)), ctx_previous = latest_block (at_state c)\<rparr>
         (at_config c) (cr_penalties (at_completed c)))"

definition observe_publication ::
  "hasher \<Rightarrow> attestation_collector \<Rightarrow> publication \<Rightarrow> attestation_error + observation \<times> attestation_collector" where
  "observe_publication hash c p =
     (if attestation_reached (attestation_progress_of c) then Inl ThresholdAlreadyReached
      else let attester = publisher p in
        res_bind (ok_or (map_of (attester_weights c) attester) (UnauthorizedAttester attester)) (\<lambda>weight.
        res_bind (map_err Audit (reputation_block_hash hash (pub_block p))) (\<lambda>h.
          case map_of (publications c) attester of
            Some previous \<Rightarrow>
              res_bind (map_err Audit (reputation_block_hash hash (pub_block previous))) (\<lambda>previous_hash.
                if previous_hash = h then Inr (Duplicate, c)
                else Inl (ConflictingPublication \<lparr>conflict_attester = attester, first_hash = previous_hash, conflicting_hash = h,
                  first_publication = previous, conflicting_publication = p\<rparr>))
          | None \<Rightarrow>
              res_bind (map_err Audit (audit_candidate hash c (pub_block p))) (\<lambda>_.
                case candidate_hash c of
                  Some first \<Rightarrow>
                    if first \<noteq> h then Inl (CompetingAuditedBlock first h)
                    else res_bind (ok_or (checked_add 128 (signed_weight c) weight) WeightOverflow) (\<lambda>w.
                      Inr (Counted, c\<lparr>publications := bt_insert attester p (publications c), signed_weight := w\<rparr>))
                | None \<Rightarrow>
                    res_bind (ok_or (checked_add 128 (signed_weight c) weight) WeightOverflow) (\<lambda>w.
                      Inr (Counted, c\<lparr>candidate_hash := Some h, candidate_block := Some (pub_block p),
                        publications := bt_insert attester p (publications c), signed_weight := w\<rparr>))))))"

definition into_attested :: "attestation_collector \<Rightarrow> attestation_error + attested_checkpoint" where
  "into_attested c =
     (let p = attestation_progress_of c in
      if \<not> attestation_reached p then Inl (ThresholdNotReached (progress_signed p) (progress_required p))
      else res_bind (ok_or (candidate_block c) Panicked) (\<lambda>b.
        res_bind (ok_or (candidate_hash c) Panicked) (\<lambda>h.
          Inr \<lparr>att_block = b, att_hash = h, att_publications = map snd (publications c), att_progress = p\<rparr>)))"

end
