(* ===== verification/Rating_Transition_Proofs.thy ===== *)
theory Rating_Transition_Proofs
  imports Rating_Transition
begin

text \<open>
  Facts about \<open>Rating_Transition\<close>: staging a round succeeds exactly when its replay and block do, every audited block of a
  round is the same block, and a confirmed checkpoint carries distinct authorized attesters with more than the required
  weight.
\<close>

section \<open>The audited block is unique\<close>

lemma audited_unique:
  assumes "verify_reputation_transition_with_penalties hash prev rs b ctx cfg penalties = Inr ()"
    and "verify_reputation_transition_with_penalties hash prev rs b' ctx cfg penalties = Inr ()" "scale cfg < 2 ^ 64"
  shows "b = b'"
proof -
  have w: "version (header x) = 2 \<and> header_checkpoint (header x) = None \<and> header_round (header x) = ctx_wave ctx + 1 \<and>
      list_round (block_list x) = ctx_wave ctx + 1 \<and> reputation_list_commitment hash (block_list x) = Inr (reputation_root (header x))"
    if "verify_reputation_transition_with_penalties hash prev rs x ctx cfg penalties = Inr ()" for x
    using that unfolding verify_transition_ok validate_block_ok REPUTATION_BLOCK_VERSION_def by (elim conjE disjE) simp_all
  note b = w [OF assms(1)] and b' = w [OF assms(2)]
  note v = assms(1) [unfolded verify_transition_ok] and v' = assms(2) [unfolded verify_transition_ok]
  have l: "block_list b = block_list b'"
    using verified_list [OF assms(1,3)] verified_list [OF assms(2,3)] b b' by simp
  have root: "reputation_root (header b) = reputation_root (header b')" using b b' by (simp add: l)
  have "header b = header b'"
  proof (rule reputation_header.equality)
    show "version (header b) = version (header b')" "header_checkpoint (header b) = header_checkpoint (header b')"
      "header_round (header b) = header_round (header b')" using b b' by simp_all
    show "shard_id (header b) = shard_id (header b')" "source_finalized_wave (header b) = source_finalized_wave (header b')"
      "config_hash (header b) = config_hash (header b')" using v v' by simp_all
    show "previous_hash (header b) = previous_hash (header b')" using v v' b b' by (metis sum.inject(2))
    show "ratings_hash (header b) = ratings_hash (header b')" using v v' b b' by (metis sum.inject(2))
    show "penalties_hash (header b) = penalties_hash (header b')" using v v' b b' by (metis sum.inject(2))
  qed (use root in simp_all)
  then show ?thesis using l by simp
qed

section \<open>Staging\<close>

lemma complete_ok [res_ok]:
  "validate_complete_authorizations cr shard = Inr u \<longleftrightarrow> {a \<in> finalized_authorizations cr. auth_shard_id a = shard} = admitted_authorizations cr"
  by (auto simp: validate_complete_authorizations_def)

text \<open>The audit of the block a round was staged with cannot fail.\<close>

lemma stage_completed_ok:
  assumes "scale cfg < 2 ^ 64"
  shows "stage_completed_reputation_round hash cr st cfg shard = Inr (st', applied) \<longleftrightarrow>
    validate_complete_authorizations cr shard = Inr () \<and>
    (\<exists>l b. replay_reputation_transition_with_penalties hash (state_vector st) (batch_ratings (cr_batch cr)) (batch_round (cr_batch cr)) cfg (cr_penalties cr) = Inr l \<and>
      build_reputation_block_with_penalties hash \<lparr>ctx_shard = shard, ctx_wave = finalized_wave (cr_opened cr), ctx_previous = latest_block st\<rparr>
        (cr_batch cr) l cfg (cr_penalties cr) = Inr b \<and>
      st' = commit_audited_block b st \<and> applied = \<lparr>ar_close_reason = cr_close_reason cr, ar_block = b, ar_weights = reputation_weights st'\<rparr>)"
proof -
  let ?ctx = "\<lparr>ctx_shard = shard, ctx_wave = finalized_wave (cr_opened cr), ctx_previous = latest_block st\<rparr>"
  have batch: "cr_batch cr = \<lparr>batch_round = batch_round (cr_batch cr), batch_ratings = batch_ratings (cr_batch cr)\<rparr>" by simp
  have v: "verify_reputation_transition_with_penalties hash (state_vector st) (batch_ratings (cr_batch cr)) b ?ctx cfg (cr_penalties cr) = Inr ()"
    if "replay_reputation_transition_with_penalties hash (state_vector st) (batch_ratings (cr_batch cr)) (batch_round (cr_batch cr)) cfg (cr_penalties cr) = Inr l"
      "build_reputation_block_with_penalties hash ?ctx (cr_batch cr) l cfg (cr_penalties cr) = Inr b" for l b
    by (rule built_block_verifies [OF that(1) assms]) (use that(2) batch in metis)
  show ?thesis
    unfolding stage_completed_reputation_round_def stage_reputation_block_def apply_reputation_block_with_penalties_def
    by (auto simp: v res_bind_ok)
qed

lemma stage_checkpoint_ok:
  assumes "stage_completed_checkpoint_round hash ck st cfg shard = Inr (st', applied)"
  shows "preceding_reputation ck = st_list st" "ck_admitted ck \<inter> ck_ignored ck = {}"
    "{a \<in> ck_finalized ck. auth_shard_id a = shard} = ck_admitted ck \<union> ck_ignored ck"
    "st' = commit_audited_block (ar_block applied) st" "header_checkpoint (header (ar_block applied)) = Some (rating_source (ck_checkpoint ck))"
  using assms unfolding stage_completed_checkpoint_round_def validate_preceding_state_def validate_checkpoint_authorizations_def Let_def
    apply_checkpoint_reputation_block_with_penalties_def res_bind_ok if_err_ok verify_checkpoint_ok
  by auto

section \<open>Confirmations\<close>

lemma attester_threshold_eq: "strict_required_weight t num den = ok_or (attester_threshold t num den) quorum_error.WeightOverflow"
  by (cases "checked_mul 128 (t div den) num"; cases "checked_mul 128 (t mod den) num")
    (simp_all add: strict_required_weight_def attester_threshold_def)

definition weights_inv :: "reputation_state \<Rightarrow> (node_id \<times> nat) list \<times> nat \<Rightarrow> bool" where
  "weights_inv st acc \<longleftrightarrow> sorted_wrt (<) (map fst (fst acc)) \<and> snd acc = sum_list (map snd (fst acc)) \<and> snd acc < 2 ^ 128 \<and>
     (\<forall>(n, w) \<in> set (fst acc). \<exists>e. search_entry (entries (st_list st)) n = Some e \<and> reputation e = w \<and> \<not> is_excluded e \<and> \<not> is_ejected st n)"

lemma sum_bt_insert: "map_of m k = None \<Longrightarrow> sum_list (map snd (bt_insert k v m)) = sum_list (map snd m) + (v :: nat)"
  by (induction k v m rule: bt_insert.induct) (auto split: if_splits)

lemma attester_step_inv:
  assumes "weights_inv st acc" "attester_step st acc who = Inr acc'"
  shows "weights_inv st acc'"
proof -
  obtain ws t where acc: "acc = (ws, t)" by (cases acc)
  have s: "sorted_wrt (<) (map fst ws)" using assms(1) by (simp add: weights_inv_def acc)
  from assms(2) obtain e where e: "search_entry (entries (st_list st)) who = Some e" "\<not> is_excluded e" "\<not> is_ejected st who"
    and r: "map_of ws who \<noteq> None \<and> acc' = acc \<or>
      map_of ws who = None \<and> t + reputation e < 2 ^ 128 \<and> acc' = (bt_insert who (reputation e) ws, t + reputation e)"
    unfolding attester_step_def acc Let_def prod.case res_bind_ok ok_or_ok if_err_ok
    by (cases "map_of ws who = None") (fastforce simp: checked_defs res_bind_ok ok_or_ok split: if_splits)+
  from r show ?thesis
  proof
    assume "map_of ws who = None \<and> t + reputation e < 2 ^ 128 \<and> acc' = (bt_insert who (reputation e) ws, t + reputation e)"
    then show ?thesis
      using assms(1) e sorted_bt_insert [OF s] sum_bt_insert [of ws who "reputation e"]
      by (auto simp: weights_inv_def acc set_bt_insert [OF s])
  qed (use assms(1) in simp)
qed

definition counted_publication :: "hasher \<Rightarrow> attestation_collector \<Rightarrow> node_id \<times> publication \<Rightarrow> bool" where
  "counted_publication hash c e \<longleftrightarrow> fst e = publisher (snd e) \<and> map_of (attester_weights c) (fst e) \<noteq> None \<and>
     audit_candidate hash c (pub_block (snd e)) = Inr () \<and> candidate_block c = Some (pub_block (snd e)) \<and>
     (\<exists>h. candidate_hash c = Some h \<and> reputation_block_hash hash (pub_block (snd e)) = Inr h)"

definition attest_inv :: "hasher \<Rightarrow> attestation_collector \<Rightarrow> bool" where
  "attest_inv hash c \<longleftrightarrow> weights_inv (at_state c) (attester_weights c, total_attester_weight c) \<and> 0 < at_required c \<and>
     sorted_wrt (<) (map fst (publications c)) \<and>
     (\<forall>e \<in> set (publications c). counted_publication hash c e) \<and>
     (publications c = [] \<longrightarrow> candidate_hash c = None \<and> candidate_block c = None) \<and>
     signed_weight c = sum_list (map (\<lambda>e. the (map_of (attester_weights c) (fst e))) (publications c))"

lemma new_attestation_inv:
  assumes "new_attestation_collector st cr cfg shard authorized policy = Inr c"
  shows "attest_inv hash c" "attester_threshold (total_attester_weight c) (cp_numerator policy) (cp_denominator policy) = Some (at_required c)"
    "total_attester_weight c \<noteq> 0"
proof -
  from assms obtain ws t rq where f: "res_fold (attester_step st) ([], 0) authorized = Inr (ws, t)" and t: "t \<noteq> 0"
    and rq: "attester_threshold t (cp_numerator policy) (cp_denominator policy) = Some rq"
    and c: "c = \<lparr>at_state = st, at_completed = cr, at_config = cfg, at_shard = shard, attester_weights = ws,
              total_attester_weight = t, at_required = rq, signed_weight = 0, candidate_hash = None, candidate_block = None, publications = []\<rparr>"
    by (auto simp: new_attestation_collector_def res_ok split: prod.splits)
  have "weights_inv st (ws, t)"
  proof (rule res_fold_induct [OF f])
    show "weights_inv st ([], 0)" by (simp add: weights_inv_def)
  qed (rule attester_step_inv)
  moreover have "0 < rq" using rq by (auto simp: attester_threshold_def checked_defs bind_eq_Some_conv split: if_splits)
  ultimately show "attest_inv hash c" by (simp add: attest_inv_def c)
  show "attester_threshold (total_attester_weight c) (cp_numerator policy) (cp_denominator policy) = Some (at_required c)"
    "total_attester_weight c \<noteq> 0" using rq t by (simp_all add: c)
qed

lemma audit_candidate_unique:
  assumes "audit_candidate hash c b = Inr ()" "audit_candidate hash c b' = Inr ()" "scale (at_config c) < 2 ^ 64"
  shows "b = b'"
  using assms audited_unique by (auto simp: audit_candidate_def res_bind_ok)

lemma attest_candidate:
  assumes "attest_inv hash c" "candidate_hash c = Some first"
  obtains q :: publication where "audit_candidate hash c (pub_block q) = Inr ()"
    "candidate_block c = Some (pub_block q)" "reputation_block_hash hash (pub_block q) = Inr first"
proof -
  have "publications c \<noteq> []" using assms by (auto simp: attest_inv_def)
  then have "hd (publications c) \<in> set (publications c)" by simp
  then have "counted_publication hash c (hd (publications c))" using assms(1) unfolding attest_inv_def by blast
  then show ?thesis using that [of "snd (hd (publications c))"] assms(2) by (simp add: counted_publication_def)
qed

text \<open>A second audited candidate is the first one, so the error for competing candidates cannot arise.\<close>

lemma no_competing_candidate:
  assumes inv: "attest_inv hash c" and cfg: "scale (at_config c) < 2 ^ 64"
    and p: "audit_candidate hash c (pub_block p) = Inr ()" "candidate_hash c = Some first"
  shows "candidate_block c = Some (pub_block p)" "reputation_block_hash hash (pub_block p) = Inr first"
proof -
  obtain q :: publication where q: "audit_candidate hash c (pub_block q) = Inr ()" "candidate_block c = Some (pub_block q)"
    "reputation_block_hash hash (pub_block q) = Inr first" by (rule attest_candidate [OF inv p(2)])
  have "pub_block p = pub_block q" by (rule audit_candidate_unique [OF p(1) q(1) cfg])
  then show "candidate_block c = Some (pub_block p)" "reputation_block_hash hash (pub_block p) = Inr first" using q by simp_all
qed

lemma observe_not_competing:
  assumes "attest_inv hash c" "scale (at_config c) < 2 ^ 64"
  shows "observe_publication hash c p \<noteq> Inl (CompetingAuditedBlock x y)"
proof
  assume o: "observe_publication hash c p = Inl (CompetingAuditedBlock x y)"
  then obtain h first where "reputation_block_hash hash (pub_block p) = Inr h" "audit_candidate hash c (pub_block p) = Inr ()"
    "candidate_hash c = Some first" "first \<noteq> h"
    by (auto simp: observe_publication_def Let_def res_bind_def map_err_def ok_or_def split: if_splits sum.splits option.splits)
  then show False using no_competing_candidate(2) [OF assms, of p first] by simp
qed

lemma observe_counted:
  assumes "observe_publication hash c p = Inr (o', c')"
  shows "c' = c \<or> (\<exists>w h. map_of (attester_weights c) (publisher p) = Some w \<and> map_of (publications c) (publisher p) = None \<and>
    reputation_block_hash hash (pub_block p) = Inr h \<and> audit_candidate hash c (pub_block p) = Inr () \<and>
    signed_weight c + w < 2 ^ 128 \<and> (candidate_hash c = None \<or> candidate_hash c = Some h) \<and>
    c' = c\<lparr>candidate_hash := Some h, candidate_block := (if candidate_hash c = None then Some (pub_block p) else candidate_block c),
       publications := bt_insert (publisher p) p (publications c), signed_weight := signed_weight c + w\<rparr>)"
  using assms
  by (auto simp: observe_publication_def Let_def res_ok checked_defs split: if_splits option.splits)

lemma audit_context: "audit_candidate hash (c\<lparr>candidate_hash := h, candidate_block := b, publications := ps, signed_weight := w\<rparr>) = audit_candidate hash c"
  by (simp add: audit_candidate_def fun_eq_iff)

lemma sum_bt_insert_map: "map_of m k = None \<Longrightarrow> sum_list (map (\<lambda>e. f (fst e)) (bt_insert k v m)) = sum_list (map (\<lambda>e. f (fst e)) m) + (f k :: nat)"
  by (induction k v m rule: bt_insert.induct) (auto split: if_splits)

lemma observe_inv:
  assumes inv: "attest_inv hash c" and cfg: "scale (at_config c) < 2 ^ 64" and ob: "observe_publication hash c p = Inr (o', c')"
  shows "attest_inv hash c'"
  using observe_counted [OF ob]
proof
  assume "\<exists>w h. map_of (attester_weights c) (publisher p) = Some w \<and> map_of (publications c) (publisher p) = None \<and>
    reputation_block_hash hash (pub_block p) = Inr h \<and> audit_candidate hash c (pub_block p) = Inr () \<and>
    signed_weight c + w < 2 ^ 128 \<and> (candidate_hash c = None \<or> candidate_hash c = Some h) \<and>
    c' = c\<lparr>candidate_hash := Some h, candidate_block := (if candidate_hash c = None then Some (pub_block p) else candidate_block c),
       publications := bt_insert (publisher p) p (publications c), signed_weight := signed_weight c + w\<rparr>"
  then obtain w h where w: "map_of (attester_weights c) (publisher p) = Some w" "map_of (publications c) (publisher p) = None"
    and h: "reputation_block_hash hash (pub_block p) = Inr h" "audit_candidate hash c (pub_block p) = Inr ()"
      "candidate_hash c = None \<or> candidate_hash c = Some h"
    and c': "c' = c\<lparr>candidate_hash := Some h, candidate_block := (if candidate_hash c = None then Some (pub_block p) else candidate_block c),
       publications := bt_insert (publisher p) p (publications c), signed_weight := signed_weight c + w\<rparr>" by blast
  have s: "sorted_wrt (<) (map fst (publications c))" using inv by (simp add: attest_inv_def)
  have cb: "candidate_block c' = Some (pub_block p)"
    using no_competing_candidate(1) [OF inv cfg h(2)] h(3) by (auto simp: c')
  have old: "counted_publication hash c e" if "e \<in> set (publications c)" for e using inv that by (simp add: attest_inv_def)
  have new: "counted_publication hash c' e" if "e \<in> set (bt_insert (publisher p) p (publications c))" for e
  proof -
    from that consider "e = (publisher p, p)" | "e \<in> set (publications c)" by (auto simp: set_bt_insert [OF s])
    then show ?thesis
    proof cases
      case 1
      then show ?thesis using w(1) h(1,2) cb by (simp add: counted_publication_def c' audit_context)
    next
      case 2
      have "pub_block (snd e) = pub_block p" using audit_candidate_unique [OF _ h(2) cfg] old [OF 2] by (simp add: counted_publication_def)
      then show ?thesis using old [OF 2] h(1,2) cb by (auto simp: counted_publication_def c' audit_context)
    qed
  qed
  have sum: "signed_weight c + w = sum_list (map (\<lambda>e. the (map_of (attester_weights c) (fst e))) (bt_insert (publisher p) p (publications c)))"
    using sum_bt_insert_map [OF w(2), of "\<lambda>n. the (map_of (attester_weights c) n)" p] inv w(1) by (simp add: attest_inv_def)
  have ne: "bt_insert (publisher p) p (publications c) \<noteq> []" by (cases "publications c") (auto split: if_splits)
  have f: "publications c' = bt_insert (publisher p) p (publications c)" "attester_weights c' = attester_weights c"
    "signed_weight c' = signed_weight c + w" "at_state c' = at_state c" "total_attester_weight c' = total_attester_weight c"
    "at_required c' = at_required c" by (simp_all add: c')
  show ?thesis
    unfolding attest_inv_def f using inv sorted_bt_insert [OF s] new sum ne by (simp add: attest_inv_def)
qed (use inv in simp)

text \<open>What a confirmed checkpoint is.\<close>

lemma attested_ok:
  assumes inv: "attest_inv hash c" and a: "into_attested c = Inr a"
  shows "audit_candidate hash c (att_block a) = Inr ()" "reputation_block_hash hash (att_block a) = Inr (att_hash a)"
    "\<forall>p \<in> set (att_publications a). pub_block p = att_block a \<and> map_of (attester_weights c) (publisher p) \<noteq> None"
    "distinct (map publisher (att_publications a))"
    "at_required c \<le> sum_list (map (\<lambda>p. the (map_of (attester_weights c) (publisher p))) (att_publications a))"
proof -
  have r: "at_required c \<le> signed_weight c" and b: "candidate_block c = Some (att_block a)" "candidate_hash c = Some (att_hash a)"
    and p: "att_publications a = map snd (publications c)"
    using a by (auto simp: into_attested_def Let_def attestation_reached_def attestation_progress_of_def res_ok)
  obtain q :: publication where "audit_candidate hash c (pub_block q) = Inr ()" "candidate_block c = Some (pub_block q)"
    "reputation_block_hash hash (pub_block q) = Inr (att_hash a)" by (rule attest_candidate [OF inv b(2)])
  then show "audit_candidate hash c (att_block a) = Inr ()" "reputation_block_hash hash (att_block a) = Inr (att_hash a)"
    using b(1) by simp_all
  have all: "counted_publication hash c e" if "e \<in> set (publications c)" for e using inv that by (simp add: attest_inv_def)
  then show "\<forall>p \<in> set (att_publications a). pub_block p = att_block a \<and> map_of (attester_weights c) (publisher p) \<noteq> None"
    using b(1) by (fastforce simp: counted_publication_def p)
  have k: "map (\<lambda>e. publisher (snd e)) (publications c) = map fst (publications c)" using all by (simp add: counted_publication_def)
  have "distinct (map fst (publications c))" using inv by (simp add: attest_inv_def strict_sorted_iff)
  then show "distinct (map publisher (att_publications a))" unfolding p map_map comp_def k .
  have "map (\<lambda>e. the (map_of (attester_weights c) (publisher (snd e)))) (publications c) = map (\<lambda>e. the (map_of (attester_weights c) (fst e))) (publications c)"
    using all by (simp add: counted_publication_def)
  moreover have "at_required c \<le> sum_list (map (\<lambda>e. the (map_of (attester_weights c) (fst e))) (publications c))"
    using inv r by (simp add: attest_inv_def)
  ultimately show "at_required c \<le> sum_list (map (\<lambda>p. the (map_of (attester_weights c) (publisher p))) (att_publications a))"
    unfolding p map_map comp_def by (simp only:)
qed

lemma attested_no_panic: "attest_inv hash c \<Longrightarrow> into_attested c \<noteq> Inl Panicked"
proof
  assume inv: "attest_inv hash c" and i: "into_attested c = Inl Panicked"
  then have r: "at_required c \<le> signed_weight c" and n: "candidate_block c = None \<or> candidate_hash c = None"
    by (auto simp: into_attested_def Let_def attestation_reached_def attestation_progress_of_def res_bind_def ok_or_def split: if_splits option.splits)
  have "publications c \<noteq> []" using inv r by (auto simp: attest_inv_def)
  then have "hd (publications c) \<in> set (publications c)" by simp
  then have "counted_publication hash c (hd (publications c))" using inv unfolding attest_inv_def by blast
  then show False using n by (auto simp: counted_publication_def)
qed

section \<open>Reachable collectors of confirmations\<close>

text \<open>A node observes publications it constructed or decoded, in any order.\<close>

inductive attest_step :: "hasher \<Rightarrow> signature_scheme \<Rightarrow> signer \<Rightarrow> attestation_collector \<Rightarrow> attestation_collector \<Rightarrow> bool"
  for hash scheme sign where
  attest: "constructed hash scheme sign p \<Longrightarrow> observe_publication hash c p = Inr (o', c') \<Longrightarrow> attest_step hash scheme sign c c'"

definition all_constructed :: "hasher \<Rightarrow> signature_scheme \<Rightarrow> signer \<Rightarrow> attestation_collector \<Rightarrow> bool" where
  "all_constructed hash scheme sign c \<longleftrightarrow> (\<forall>e \<in> set (publications c). constructed hash scheme sign (snd e))"

lemma observe_constructed:
  assumes "observe_publication hash c p = Inr (o', c')" "attest_inv hash c" "constructed hash scheme sign p" "all_constructed hash scheme sign c"
  shows "all_constructed hash scheme sign c'"
  using observe_counted [OF assms(1)] assms(2-4) by (auto simp: all_constructed_def attest_inv_def set_bt_insert)

lemma new_collector_constructed: "new_attestation_collector st cr cfg shard authorized policy = Inr c \<Longrightarrow> all_constructed hash scheme sign c"
  by (auto simp: new_attestation_collector_def all_constructed_def res_ok split: prod.splits)

lemma attested_constructed:
  "all_constructed hash scheme sign c \<Longrightarrow> into_attested c = Inr a \<Longrightarrow> \<forall>p \<in> set (att_publications a). constructed hash scheme sign p"
  by (auto simp: all_constructed_def into_attested_def Let_def res_ok)

definition same_round :: "attestation_collector \<Rightarrow> attestation_collector \<Rightarrow> bool" where
  "same_round c d \<longleftrightarrow> at_state c = at_state d \<and> at_completed c = at_completed d \<and> at_config c = at_config d \<and> at_shard c = at_shard d \<and>
     attester_weights c = attester_weights d \<and> total_attester_weight c = total_attester_weight d \<and> at_required c = at_required d"

lemma attest_steps_inv:
  assumes "(attest_step hash scheme sign)\<^sup>*\<^sup>* c d" "attest_inv hash c" "scale (at_config c) < 2 ^ 64" "all_constructed hash scheme sign c"
  shows "attest_inv hash d \<and> same_round c d \<and> all_constructed hash scheme sign d"
  using assms(1)
proof (induction rule: rtranclp_induct)
  case (step d e)
  from step.hyps(2) obtain p o' where p: "constructed hash scheme sign p" and ob: "observe_publication hash d p = Inr (o', e)" by cases
  have "all_constructed hash scheme sign e" using observe_constructed [OF ob _ p] step.IH by blast
  moreover have "same_round d e" using observe_counted [OF ob] by (auto simp: same_round_def)
  moreover have "attest_inv hash e" by (rule observe_inv [OF _ _ ob]) (use step.IH assms(3) in \<open>simp_all add: same_round_def\<close>)
  ultimately show ?case using step.IH by (simp add: same_round_def)
qed (use assms(2,4) in \<open>simp add: same_round_def\<close>)

definition attester_reputation :: "reputation_state \<Rightarrow> node_id \<Rightarrow> nat" where
  "attester_reputation st n = (case search_entry (entries (st_list st)) n of None \<Rightarrow> 0 | Some e \<Rightarrow> reputation e)"

lemma attester_fold_keys:
  "res_fold (attester_step st) (ws, t) authorized = Inr (ws', t') \<Longrightarrow> sorted_wrt (<) (map fst ws) \<Longrightarrow> fst ` set ws' = fst ` set ws \<union> set authorized"
proof (induction authorized arbitrary: ws t)
  case (Cons who rest)
  from Cons.prems obtain v u where s: "attester_step st (ws, t) who = Inr (v, u)" and r: "res_fold (attester_step st) (v, u) rest = Inr (ws', t')"
    by (auto simp: res_bind_ok)
  have "v = ws" if "map_of ws who \<noteq> None" using s that by (auto simp: attester_step_def res_ok split: if_splits)
  moreover have "\<exists>w. v = bt_insert who w ws" if "map_of ws who = None" using s that by (auto simp: attester_step_def res_ok)
  ultimately have "(map_of ws who \<noteq> None \<and> v = ws) \<or> (\<exists>w. v = bt_insert who w ws)" by blast
  then have "sorted_wrt (<) (map fst v) \<and> fst ` set v = insert who (fst ` set ws)"
    using Cons.prems(2) by (auto simp: sorted_bt_insert set_bt_insert map_of_eq_None_iff image_iff)
  then show ?case using Cons.IH [OF r] by auto
qed simp

lemma attester_weights_exact:
  assumes "new_attestation_collector st cr cfg shard authorized policy = Inr c"
  shows "map_of (attester_weights c) n = (if n \<in> set authorized then Some (attester_reputation st n) else None)"
    "total_attester_weight c = (\<Sum>n \<in> set authorized. attester_reputation st n)" "n \<in> set authorized \<Longrightarrow> \<not> is_ejected st n"
proof -
  from assms obtain ws t rq where f: "res_fold (attester_step st) ([], 0) authorized = Inr (ws, t)"
    and c: "attester_weights c = ws" "total_attester_weight c = t" "at_state c = st"
    by (auto simp: new_attestation_collector_def res_ok split: prod.splits)
  have i: "weights_inv st (ws, t)" using new_attestation_inv(1) [OF assms, of "\<lambda>_. []"] by (simp add: attest_inv_def c)
  have k: "fst ` set ws = set authorized" using attester_fold_keys [OF f] by simp
  have d: "distinct (map fst ws)" using i by (simp add: weights_inv_def strict_sorted_iff)
  have e: "attester_reputation st (fst x) = snd x \<and> \<not> is_ejected st (fst x)" if "x \<in> set ws" for x
    using i that by (cases x) (auto simp: weights_inv_def attester_reputation_def)
  show "map_of (attester_weights c) n = (if n \<in> set authorized then Some (attester_reputation st n) else None)"
  proof (cases "n \<in> set authorized")
    case True
    then obtain x where "x \<in> set ws" "fst x = n" using k by (metis imageE)
    then show ?thesis using True e [of x] map_of_eq_Some_iff [OF d, of n "snd x"] by (cases x) (auto simp: c(1))
  next
    case False
    then show ?thesis using k by (simp add: c(1) map_of_eq_None_iff)
  qed
  have "map snd ws = map (attester_reputation st) (map fst ws)" using e by simp
  then have "t = sum_list (map (attester_reputation st) (map fst ws))" using i by (simp only: weights_inv_def fst_conv snd_conv)
  also have "\<dots> = sum (attester_reputation st) (set (map fst ws))" by (rule sum_list_distinct_conv_sum_set [OF d])
  finally show "total_attester_weight c = (\<Sum>n \<in> set authorized. attester_reputation st n)" using k by (simp add: c(2))
  show "n \<in> set authorized \<Longrightarrow> \<not> is_ejected st n" using k e by (metis imageE)
qed

end
