(* ===== verification/Claims_Rating.thy ===== *)
theory Claims_Rating
  imports Rating_Transition_Proofs Claims_Por
begin

text \<open>
  The properties of the rating rounds of the adapter, with a round of two validators on which the witnesses evaluate.
\<close>

section \<open>A round of two validators\<close>

definition ra :: node_id where "ra = NodeId (replicate 33 1)"
definition rb :: node_id where "rb = NodeId (replicate 33 2)"

definition ba :: block_identity where "ba = BlockIdentity (replicate 32 1) ra []"
definition bb :: block_identity where "bb = BlockIdentity (replicate 32 2) rb []"

definition rr_lace :: blocklace where
  "rr_lace = (new_blocklace 0)\<lparr>blocks := [(ba, \<lparr>payload = [], predecessors = []\<rparr>), (bb, \<lparr>payload = [], predecessors = []\<rparr>)], generation := 2\<rparr>"

definition rr_out :: ordered_output where
  "rr_out = \<lparr>out_blocks = [ba, bb], anchor = Some ba, wavelength = 3, bond_count = 2, total_mirrored_blocks = 2, computed_at_ns = 0\<rparr>"

definition rr_opened :: finalized_round where
  "rr_opened = \<lparr>finalized_wave = 0, rating_round = 1\<rparr>"

definition rr_state :: reputation_state where
  "rr_state = set_reputation rb 1 (set_reputation ra 4 (new_state 0))"

definition rr_cfg :: por_config where
  "rr_cfg = \<lparr>scale = 4, initial_reputation = 1, liquid_rank_alpha = 2, minimum_rating = 1, maximum_rating = 5,
     missing_policy = CarryForward, correlation_threshold = 4, base_slash_penalty = 2, inactivity_decay_gamma = 2\<rparr>"

definition rr_hash :: hasher where
  "rr_hash bs = replicate 32 0"

definition rr_scheme :: signature_scheme where
  "rr_scheme h key sig \<longleftrightarrow> sig = [7]"

definition rr_sign :: signer where
  "rr_sign h key = Inr [7]"

definition rr_rating :: rating_record where
  "rr_rating = \<lparr>rt_round = 1, rater = ra, recipient = rb, score = 5, rt_signature = [7], interaction_ref = Some (replicate 32 2)\<rparr>"

definition rr_batch :: rating_batch where
  "rr_batch = \<lparr>batch_round = 1, batch_ratings = [rr_rating]\<rparr>"

definition rr_collector :: "rating_map \<Rightarrow> wave_collector" where
  "rr_collector m = \<lparr>wc_lace = rr_lace, wc_output = rr_out, wc_opened = rr_opened, wc_state = rr_state, wc_config = rr_cfg, wc_ratings = m\<rparr>"

lemma rr_order: "ra < rb" "ra \<noteq> rb" "rb \<noteq> ra" "\<not> rb < ra"
  by code_simp+

lemma rr_depth: "depth rr_lace ba = Some 0" "depth rr_lace bb = Some 0"
  by code_simp+

lemma rr_wave: "wave_of_round 0 3 = Some 0"
  by code_simp

lemma rr_round_valid: "validate_finalized_rating_round rr_lace rr_out rr_opened = Inr ()"
  by (simp add: validate_finalized_rating_round_def rr_out_def rr_opened_def rr_depth rr_wave rating_round_from_finalized_wave_def checked_add_def)

lemma rr_entries: "entries (st_list rr_state) = [new_entry ra 4, new_entry rb 1]" "excluded_keys rr_state = []" "current_round rr_state = 0"
  by code_simp+

lemma rr_rater: "validate_interaction_rater 1 ra rr_state = Inr ()"
  by code_simp

lemma rr_participants: "validate_interaction_participants 1 ra rb (replicate 32 2) rr_state = Inr ()"
proof -
  have "state_contains rr_state rb" "\<not> is_ejected rr_state rb" by code_simp+
  then show ?thesis by (simp add: validate_interaction_participants_def rr_entries checked_add_def rr_order rr_rater [unfolded One_nat_def])
qed

lemma rr_evidence: "extract_block_production_evidence rr_lace rr_out rr_opened ra =
     Inr [\<lparr>ie_wave = 0, ie_round = 1, ie_kind = BlockProduction, ie_rater = ra, ie_recipient = rb, ie_ref = replicate 32 2\<rparr>]"
proof -
  have c: "creator ba = ra" "creator bb = rb" "content_hash bb = replicate 32 2" by (simp_all add: ba_def bb_def)
  show ?thesis
    by (simp add: extract_block_production_evidence_def rr_round_valid canonical_step_def rr_depth rr_wave)
      (simp add: rr_out_def canonical_step_def rr_depth rr_wave rr_opened_def c add_canonical_def rr_order)
qed

lemma rr_admitted: "admit_finalized_block_production_interactions rr_lace rr_out rr_opened ra rr_state =
    Inr [AdmittedInteraction \<lparr>ie_wave = 0, ie_round = 1, ie_kind = BlockProduction, ie_rater = ra, ie_recipient = rb, ie_ref = replicate 32 2\<rparr>]"
proof -
  have "is_active_recipient rr_state rb" by code_simp
  moreover have "rating_round_from_finalized_wave 0 = Inr 1" by (simp add: rating_round_ok)
  ultimately show ?thesis
    by (simp add: admit_finalized_block_production_interactions_def admit_interaction_evidence_def rr_evidence
        rr_participants [unfolded One_nat_def])
qed

lemma rr_signed: "validate_signed_rating rr_hash rr_scheme rr_rating rr_cfg = Inr ()"
  by (simp add: validate_signed_ok rating_valid_def rr_rating_def reference_present_def rr_order rr_cfg_def rr_scheme_def)

lemma rr_local:
  "build_finalized_block_production_rating_batch rr_hash rr_scheme rr_sign rr_lace rr_out rr_opened ra rr_state rr_cfg key = Inr rr_batch"
proof -
  have v: "validate_rating rr_rating rr_cfg = Inr ()" "verify_rating_signature rr_hash rr_scheme rr_rating = Inr ()"
    using rr_signed by (auto simp: validate_signed_rating_def res_bind_ok map_err_ok)
  have "sign_admitted_interaction rr_hash rr_scheme rr_sign (AdmittedInteraction \<lparr>ie_wave = 0, ie_round = 1, ie_kind = BlockProduction,
      ie_rater = ra, ie_recipient = rb, ie_ref = replicate 32 2\<rparr>) rr_cfg key = Inr rr_rating"
    using v unfolding rr_rating_def
    by (simp add: sign_admitted_interaction_def score_admitted_interaction_def score_interaction_kind_def rr_cfg_def rating_signing_hash_def
        require_interaction_reference_def rr_sign_def build_rating_from_interaction_def)
  moreover have "build_verified_rating_batch rr_hash rr_scheme 1 [rr_rating] rr_cfg = Inr rr_batch"
    unfolding verified_batch_ok using rr_signed by (simp add: rr_batch_def) (simp add: rr_rating_def)
  ultimately show ?thesis
    by (simp add: build_finalized_block_production_rating_batch_def rr_admitted) (simp add: rr_opened_def)
qed

lemma rr_new: "new_wave_collector rr_lace rr_out rr_opened rr_state rr_cfg = Inr (rr_collector [])"
  by (simp add: new_wave_collector_def rr_round_valid rr_entries checked_add_def rr_collector_def) (simp add: rr_opened_def)

lemma rr_reachable: "wave_collector_reachable rr_hash rr_scheme (rr_collector [])"
  by (rule wave_open [OF rr_new])

abbreviation rr_full :: wave_collector where
  "rr_full \<equiv> rr_collector [((ra, rb), rr_rating)]"

lemma rr_expected: "wave_admitted (rr_collector m) ra = Inr [AdmittedInteraction \<lparr>ie_wave = 0, ie_round = 1, ie_kind = BlockProduction,
    ie_rater = ra, ie_recipient = rb, ie_ref = replicate 32 2\<rparr>]"
  by (simp add: wave_admitted_def rr_collector_def rr_admitted)

lemma rr_insert: "wave_insert rr_hash rr_scheme (rr_collector []) rr_rating = Inr rr_full"
proof -
  have "wave_validate_submission rr_hash rr_scheme (rr_collector []) [] rr_rating = Inr ()"
    using rr_signed rr_expected [of "[]"]
    by (simp add: wave_validate_submission_def check_existing_def rr_collector_def)
      (simp add: rr_rating_def rr_opened_def score_admitted_interaction_def score_interaction_kind_def rr_cfg_def)
  then show ?thesis by (simp add: wave_insert_def) (simp add: rr_collector_def rr_rating_def rating_key_def)
qed

lemma rr_full_reachable: "wave_collector_reachable rr_hash rr_scheme rr_full"
  by (rule wave_rating_in [OF rr_reachable rr_insert])

lemma rr_complete: "wave_rater_complete rr_full ra = Inr True" "wave_rater_complete (rr_collector []) ra = Inr False"
  unfolding wave_rater_complete_def rr_expected by (simp_all add: rr_collector_def count_rater_def rr_rating_def)

section \<open>Sources\<close>

text \<open>
  C37.  A checkpoint does not depend on when it is polled.  A checkpoint derived from one exported order is accepted by every
  node whose order extends it, is a valid rating source, and both nodes read the same sixteen blocks from it.
\<close>

theorem checkpoint_survives_growth:
  assumes "preserves_prefix later out" "anchor later \<noteq> None" "finalized_prefix_checkpoint hash out r = Inr (Some cp)"
  shows "validate_finalized_prefix_checkpoint hash later cp = Inr () \<and> validate_source (rating_source cp) = Inr () \<and>
    checkpoint_window later cp = checkpoint_window out cp \<and> length (checkpoint_window out cp) = 16 \<and>
    terminal_block cp = List.last (checkpoint_window out cp)"
proof -
  note cp = assms(3) [unfolded checkpoint_ok]
  have w: "checkpoint_window x cp = drop (r * 16 - 16) (take (r * 16) (out_blocks x))" for x
    using cp by (simp add: checkpoint_window_def POR_FINALIZED_BLOCKS_PER_CHECKPOINT_def take_drop)
  have "checkpoint_window later cp = checkpoint_window out cp"
    using prefix_take [OF assms(1) [unfolded preserves_prefix_def], of "r * 16"] cp unfolding w by simp
  moreover have l: "length (checkpoint_window out cp) = 16" using cp unfolding w by simp
  moreover have "take (r * 16) (out_blocks out) \<noteq> []" using cp by auto
  then have "terminal_block cp = List.last (checkpoint_window out cp)"
    using cp unfolding w by (simp add: last_drop last_conv_nth)
  ultimately show ?thesis
    using checkpoint_stable [OF assms] source_of_checkpoint [OF assms(3)] by (simp add: validate_checkpoint_ok)
qed

definition rr_long :: "nat \<Rightarrow> ordered_output" where
  "rr_long n = rr_out\<lparr>out_blocks := replicate 15 ba @ [bb] @ replicate n ba\<rparr>"

theorem checkpoint_survives_growth_witness:
  "\<exists>cp. finalized_prefix_checkpoint rr_hash (rr_long 0) 1 = Inr (Some cp) \<and> validate_finalized_prefix_checkpoint rr_hash (rr_long 2) cp = Inr () \<and>
     terminal_block cp = bb"
proof -
  obtain cp where cp: "finalized_prefix_checkpoint rr_hash (rr_long 0) 1 = Inr (Some cp)" "terminal_block cp = bb"
    by (simp add: checkpoint_ok rr_long_def rr_out_def nth_append)
  have "preserves_prefix (rr_long 2) (rr_long 0)" "anchor (rr_long 2) \<noteq> None" by (simp_all add: preserves_prefix_def rr_long_def rr_out_def)
  from checkpoint_survives_growth [OF this cp(1)] show ?thesis using cp by blast
qed

text \<open>
  C38.  The prefix hash commits to the blocks.  With a 32-byte hash that does not collide on the strings hashed for two
  prefixes of one length, the rolling hashes agree if and only if the prefixes do, signatures of the identities included.
\<close>

theorem prefix_hash_commits:
  assumes "\<And>x. length (hash x) = 32" "inj_on hash (prefix_inputs hash bs \<union> prefix_inputs hash bs')"
    and "length bs = length bs'" "length bs < 2 ^ 64" "\<forall>b \<in> set bs \<union> set bs'. identity_fits b"
  shows "rolling_prefix_hash hash bs = rolling_prefix_hash hash bs' \<longleftrightarrow> bs = bs'"
  using rolling_commits [OF assms(1,3,4,5,2)] by blast

definition split_hash :: hasher where
  "split_hash x = (if x = prefix_hash_input (replicate 32 0) 0 ba then replicate 32 1 else replicate 32 0)"

theorem prefix_hash_commits_witness: "rolling_prefix_hash split_hash [ba] \<noteq> rolling_prefix_hash split_hash [bb]"
proof -
  have "length POR_FINALIZED_PREFIX_HASH_DOMAIN \<noteq> length (prefix_hash_input (replicate 32 0) 0 ba)"
    by (simp add: prefix_hash_input_def)
  then have "POR_FINALIZED_PREFIX_HASH_DOMAIN \<noteq> prefix_hash_input (replicate 32 0) 0 ba" by metis
  then have "rolling_prefix_hash split_hash [] = replicate 32 0" by (simp add: rolling_prefix_hash_def split_hash_def)
  then have i: "prefix_inputs split_hash [x] = {prefix_hash_input (replicate 32 0) 0 x}" for x by (simp add: prefix_inputs_def lessThan_Suc)
  have "content_hash ba \<noteq> content_hash bb" by code_simp
  then have "inj_on split_hash (prefix_inputs split_hash [ba] \<union> prefix_inputs split_hash [bb])"
    unfolding i by (simp add: inj_on_def split_hash_def)
  moreover have "\<forall>b \<in> set [ba] \<union> set [bb]. identity_fits b" by (simp add: identity_fits_def ba_def bb_def node_fits_def ra_def rb_def)
  ultimately have "rolling_prefix_hash split_hash [ba] = rolling_prefix_hash split_hash [bb] \<longleftrightarrow> [ba] = [bb]"
    by (intro prefix_hash_commits) (simp_all add: split_hash_def)
  then show ?thesis using \<open>content_hash ba \<noteq> content_hash bb\<close> by auto
qed

text \<open>
  C35.  Every finalized wave opens one round.  From a fresh cursor, whatever outputs are observed and however often they are
  observed or rejected, the rounds opened are one for each wave of an interval that ends at the last opened wave, in order,
  and the round of a wave is its number plus one.
\<close>

theorem waves_open_once:
  assumes "observe_sequence new_tracker evs = (rounds, t)"
  shows "case last_opened_wave t of
      None \<Rightarrow> rounds = []
    | Some newest \<Rightarrow> \<exists>oldest \<le> newest. rounds = map (\<lambda>w. \<lparr>finalized_wave = w, rating_round = w + 1\<rparr>) [oldest..<newest + 1]"
  using observe_sequence_opens [OF assms]
  by (cases "last_opened_wave t") (simp_all add: opened_up_to_def new_tracker_def rounds_between_def del: upt_Suc)

theorem waves_open_once_witness:
  "\<exists>rounds t. observe_sequence new_tracker [(rr_lace, rr_out), (rr_lace, rr_out)] = (rounds, t) \<and> last_opened_wave t = Some 0 \<and>
     rounds = [\<lparr>finalized_wave = 0, rating_round = 1\<rparr>]"
proof -
  have w: "finalized_wave_from_output rr_lace rr_out = Inr (Some 0)"
    by (simp add: finalized_wave_from_output_def rr_out_def rr_depth rr_wave)
  have "observe_sequence new_tracker [(rr_lace, rr_out), (rr_lace, rr_out)] =
      ([\<lparr>finalized_wave = 0, rating_round = 1\<rparr>], \<lparr>last_opened_wave = Some 0, last_final_leader = anchor rr_out\<rparr>)"
    by (simp add: observe_finalized_output_def w new_tracker_def open_round_def rating_round_from_finalized_wave_def checked_add_def)
  from waves_open_once [OF this] this show ?thesis by simp
qed

text \<open>
  C36.  Evidence depends on the finalized set only.  Whatever order the finalized blocks come in, a rater derives the same
  evidence: one item, in the order of the producers, for each other producer of a finalized block of the wave, which names
  that producer's least block.
\<close>

lemma sorted_maps_eq:
  assumes "sorted_wrt (<) (map fst m)" "sorted_wrt (<) (map fst m')" "map_of m = map_of m'"
  shows "m = (m' :: ('a::linorder \<times> 'b) list)"
proof -
  have d: "distinct (map fst m)" "distinct (map fst m')" using assms(1,2) by (simp_all add: strict_sorted_iff)
  then have "set m = set m'" using map_of_inject_set assms(3) by blast
  moreover have "inj_on fst (set m)" using d(1) by (simp add: distinct_map)
  ultimately show ?thesis
    using assms(1,2) d by (intro map_sorted_distinct_set_unique [of fst]) (simp_all add: strict_sorted_iff)
qed

theorem evidence_independent_of_order:
  assumes "set (out_blocks out) = set (out_blocks out')" "anchor out = anchor out'" "wavelength out = wavelength out'"
    and "extract_block_production_evidence bl out opened who = Inr evs"
  shows "extract_block_production_evidence bl out' opened who = Inr evs \<and> sorted_wrt (<) (map ie_recipient evs) \<and>
    (\<forall>n. map_of (map (\<lambda>ev. (ie_recipient ev, ie_ref ev)) evs) n = map_option content_hash
       (least_of {b \<in> set (out_blocks out). wave_of_identity bl out b = Some (finalized_wave opened) \<and> creator b \<noteq> who \<and> creator b = n}))"
proof -
  let ?P = "\<lambda>b. wave_of_identity bl out b = Some (finalized_wave opened) \<and> creator b \<noteq> who"
  let ?ev = "\<lambda>(whom, b). \<lparr>ie_wave = finalized_wave opened, ie_round = rating_round opened, ie_kind = BlockProduction,
       ie_rater = who, ie_recipient = whom, ie_ref = content_hash b\<rparr>"
  let ?fold = "\<lambda>bs. fold (\<lambda>b m. if ?P b then add_canonical b m else m) bs []"
  have w: "wave_of_identity bl out' = wave_of_identity bl out" by (simp add: wave_of_identity_def fun_eq_iff assms(3))
  have v: "validate_finalized_rating_round bl out' opened = validate_finalized_rating_round bl out opened"
    by (simp only: validate_finalized_rating_round_def assms(2,3))
  have ok: "validate_finalized_rating_round bl out opened = Inr ()" "\<forall>b \<in> set (out_blocks out). wave_of_identity bl out b \<noteq> None"
    and evs: "evs = map ?ev (?fold (out_blocks out))"
    using assms(4) by (auto simp: extract_block_production_evidence_def res_bind_ok canonical_res_fold)
  have c: "canonical_of ?P (out_blocks out) (?fold (out_blocks out))" "canonical_of ?P (out_blocks out') (?fold (out_blocks out'))"
    using canonical_fold [OF canonical_Nil, of ?P] by simp_all
  have "?fold (out_blocks out) = ?fold (out_blocks out')"
    by (rule sorted_maps_eq) (use c assms(1) in \<open>simp_all add: canonical_of_def fun_eq_iff\<close>)
  then have "extract_block_production_evidence bl out' opened who = Inr evs"
    using ok evs assms(1) unfolding extract_block_production_evidence_def res_bind_ok v canonical_res_fold w by simp
  moreover have "map ie_recipient evs = map fst (?fold (out_blocks out))" by (simp add: evs case_prod_beta comp_def)
  moreover have "map_of (map (\<lambda>ev. (ie_recipient ev, ie_ref ev)) evs) n = map_option content_hash (map_of (?fold (out_blocks out)) n)" for n
    using map_of_map [of content_hash "?fold (out_blocks out)"] by (simp add: evs comp_def case_prod_unfold)
  ultimately show ?thesis using c(1) by (simp add: canonical_of_def conj_assoc)
qed

theorem evidence_independent_of_order_witness:
  "extract_block_production_evidence rr_lace (rr_out\<lparr>out_blocks := [bb, ba, bb]\<rparr>) rr_opened ra =
     Inr [\<lparr>ie_wave = 0, ie_round = 1, ie_kind = BlockProduction, ie_rater = ra, ie_recipient = rb, ie_ref = replicate 32 2\<rparr>]"
proof -
  let ?out = "rr_out\<lparr>out_blocks := [bb, ba, bb]\<rparr>"
  have "set (out_blocks rr_out) = set (out_blocks ?out)" "anchor rr_out = anchor ?out" "wavelength rr_out = wavelength ?out"
    by (auto simp: rr_out_def)
  from evidence_independent_of_order [OF this rr_evidence] show ?thesis by simp
qed

section \<open>Ratings in transit\<close>

text \<open>
  C39.  Rating envelopes.  A byte string is read as an envelope of a version if and only if it is the encoding of a valid
  envelope of that version, so every valid envelope is read back, no other string is accepted, and no string is read under
  both versions.
\<close>

theorem rating_envelopes_bijective:
  "(decode_v1 bytes = Inr e \<longleftrightarrow> v1_fits e \<and> bytes = encode_v1 e) \<and> (decode_v2 bytes = Inr f \<longleftrightarrow> v2_fits f \<and> bytes = encode_v2 f) \<and>
   \<not> (decode_v1 bytes = Inr e \<and> decode_v2 bytes = Inr f)"
  using decode_v1_iff [of bytes e] decode_v2_iff [of bytes f] versions_disjoint [of e f] by blast

text \<open>
  C28.  What a round collects.  In every reachable collector the ratings held are keyed by rater and recipient, signed and
  prescribed by the finalized evidence, and the complete batch can always be built: it is sorted, names each pair once, and
  up to signatures holds exactly the prescribed ratings of the complete raters.  Two collectors of one round with the same
  complete raters therefore agree on every rating up to its signature.
\<close>

theorem complete_batch_exact:
  assumes "wave_collector_reachable hash scheme c"
  shows "\<exists>b. wave_build_complete_batch hash scheme c = Inr b \<and> batch_round b = rating_round (wc_opened c) \<and>
    sorted (map pair_key (batch_ratings b)) \<and> distinct (map pair_key (batch_ratings b)) \<and>
    (\<forall>r \<in> set (batch_ratings b). validate_signed_rating hash scheme r (wc_config c) = Inr ()) \<and>
    signed_part ` set (batch_ratings b) =
      {e. \<exists>who rs. wave_rater_complete c who = Inr True \<and> wave_expected c who = Some rs \<and> e \<in> set rs}"
proof -
  note inv = wave_reachable_inv [OF assms]
  let ?rs = "filter (\<lambda>r. rater r \<in> {who. wave_rater_complete c who = Inr True}) (map snd (wc_ratings c))"
  let ?b = "\<lparr>batch_round = rating_round (wc_opened c), batch_ratings = sort_key pair_key ?rs\<rparr>"
  note b = wave_complete_batch [OF inv]
  have m: "map_inv (wave_valid hash scheme c) (wc_ratings c)" using inv by (simp add: wave_inv_def)
  have "distinct (map pair_key ?rs)"
    using map_inv_distinct [OF m] unfolding rating_key_distinct by (rule distinct_map_filter)
  then have d: "distinct (map pair_key (sort_key pair_key ?rs))"
    by (simp add: distinct_map)
  have v: "\<forall>r \<in> set ?rs. validate_signed_rating hash scheme r (wc_config c) = Inr ()"
    using m by (auto simp: map_inv_def wave_valid_def wave_validate_ok)
  show ?thesis
  proof (intro exI conjI)
    show "wave_build_complete_batch hash scheme c = Inr ?b" by (rule b)
    show "\<forall>r \<in> set (batch_ratings ?b). validate_signed_rating hash scheme r (wc_config c) = Inr ()" using v by simp
    show "distinct (map pair_key (batch_ratings ?b))" using d by (simp only: rating_batch.simps)
    show "signed_part ` set (batch_ratings ?b) =
        {e. \<exists>who rs. wave_rater_complete c who = Inr True \<and> wave_expected c who = Some rs \<and> e \<in> set rs}"
      by (rule wave_complete_content [OF inv b])
  qed (simp_all only: rating_batch.simps sorted_sort_key)
qed

theorem complete_batch_exact_witness:
  "\<exists>b. wave_build_complete_batch rr_hash rr_scheme rr_full = Inr b \<and> batch_round b = 1 \<and>
     signed_part ` set (batch_ratings b) = {signed_part rr_rating}"
proof -
  obtain b where b: "wave_build_complete_batch rr_hash rr_scheme rr_full = Inr b" "batch_round b = rating_round (wc_opened rr_full)"
    "signed_part ` set (batch_ratings b) =
      {e. \<exists>who rs. wave_rater_complete rr_full who = Inr True \<and> wave_expected rr_full who = Some rs \<and> e \<in> set rs}"
    using complete_batch_exact [OF rr_full_reachable] by blast
  have "wave_expected rr_full ra = Some [signed_part rr_rating]"
    by (simp add: wave_expected_def rr_expected wave_rating_def signed_part_def rr_rating_def) (simp add: rr_collector_def rr_cfg_def)
  then have "signed_part rr_rating \<in> signed_part ` set (batch_ratings b)" unfolding b(3) using rr_complete(1) by force
  moreover have "set (batch_ratings b) \<subseteq> {rr_rating}"
    using b(1) wave_complete_batch [OF wave_reachable_inv [OF rr_full_reachable]] by (auto simp: rr_collector_def)
  ultimately show ?thesis using b(1,2) by (auto simp: rr_collector_def rr_opened_def)
qed

text \<open>
  C34.  Closed checkpoint rounds agree.  When two nodes hold collectors of one checkpoint round and in both every authorized
  rater is complete, both build a batch, and the batches are the same list of ratings up to signatures.
\<close>

theorem closed_checkpoint_rounds_agree:
  assumes "source_collector_reachable hash scheme c" "source_collector_reachable hash scheme (c\<lparr>cc_ratings := m\<rparr>)"
    and "all_authorized_raters_complete hash c = Inr True" "all_authorized_raters_complete hash (c\<lparr>cc_ratings := m\<rparr>) = Inr True"
  shows "\<exists>b b'. checkpoint_build_complete_batch hash scheme c = Inr b \<and>
    checkpoint_build_complete_batch hash scheme (c\<lparr>cc_ratings := m\<rparr>) = Inr b' \<and>
    batch_round b = por_round (cc_checkpoint c) \<and> batch_round b' = batch_round b \<and>
    map signed_part (batch_ratings b) = map signed_part (batch_ratings b')"
proof -
  note i = source_reachable_inv [OF assms(1)] and j = source_reachable_inv [OF assms(2)]
  obtain b b' where b: "checkpoint_build_complete_batch hash scheme c = Inr b" "batch_round b = por_round (cc_checkpoint c)"
    and b': "checkpoint_build_complete_batch hash scheme (c\<lparr>cc_ratings := m\<rparr>) = Inr b'" "batch_round b' = por_round (cc_checkpoint c)"
    using source_complete_batch [OF i] source_complete_batch [OF j] by simp
  then show ?thesis using closed_checkpoint_agree [OF i j assms(3,4) b(1) b'(1)] by simp
qed

definition rr_checkpoint :: prefix_checkpoint where
  "rr_checkpoint = \<lparr>por_round = 1, checkpoint_prefix_len = 16, prefix_hash = replicate 32 0, terminal_block = bb\<rparr>"

definition rr_source_collector :: "rating_map \<Rightarrow> checkpoint_collector" where
  "rr_source_collector m = \<lparr>cc_lace = rr_lace, cc_output = rr_long 0, cc_checkpoint = rr_checkpoint, authorized_raters = [ra],
     cc_state = rr_state, cc_config = rr_cfg, cc_ratings = m\<rparr>"

lemma rr_rolling: "length xs < 100 \<Longrightarrow> rolling_prefix_hash rr_hash xs = replicate 32 0"
  by (cases xs rule: rev_cases) (simp_all add: rolling_snoc rr_hash_def, simp add: rolling_prefix_hash_def rr_hash_def)

lemma rr_window: "validate_finalized_checkpoint_window rr_hash rr_lace (rr_long 0) rr_checkpoint = Inr ()"
proof -
  have "finalized_prefix_checkpoint rr_hash (rr_long 0) 1 = Inr (Some rr_checkpoint)"
    by (simp add: checkpoint_ok rr_long_def rr_out_def nth_append rr_checkpoint_def rr_rolling)
  then have "validate_finalized_prefix_checkpoint rr_hash (rr_long 0) rr_checkpoint = Inr ()"
    by (simp add: validate_checkpoint_ok rr_checkpoint_def)
  moreover have "finalized_wave_from_output rr_lace (rr_long 0) = Inr (Some 0)"
    by (simp add: finalized_wave_from_output_def rr_long_def rr_out_def rr_depth rr_wave)
  moreover have "set (checkpoint_window (rr_long 0) rr_checkpoint) \<subseteq> {ba, bb}"
    by (auto simp: checkpoint_window_def rr_long_def dest!: in_set_takeD in_set_dropD)
  ultimately show ?thesis
    using rr_depth by (simp add: validate_finalized_checkpoint_window_def res_all_ok) (auto simp: ensure_def)
qed

lemma rr_new_source: "new_checkpoint_collector rr_hash rr_lace (rr_long 0) rr_checkpoint [ra] rr_state rr_cfg = Inr (rr_source_collector [])"
proof -
  have "\<not> is_ejected rr_state ra" by code_simp
  then show ?thesis
    by (simp add: new_checkpoint_collector_def rr_window rr_entries checked_add_def rr_source_collector_def btree_set_def insort_insert_key_def)
      (simp add: rr_checkpoint_def)
qed

lemma rr_source_admitted: "checkpoint_admitted rr_hash (rr_source_collector m) ra = Inr [AdmittedCheckpointInteraction
    \<lparr>ci_source = rating_source rr_checkpoint, ci_kind = BlockProduction, ci_rater = ra, ci_recipient = rb, ci_ref = replicate 32 2\<rparr>]"
proof -
  have w: "checkpoint_window (rr_long 0) rr_checkpoint = replicate 15 ba @ [bb]"
    by (simp add: checkpoint_window_def rr_long_def rr_checkpoint_def POR_FINALIZED_BLOCKS_PER_CHECKPOINT_def)
  have c: "creator ba = ra" "creator bb = rb" "content_hash bb = replicate 32 2" by (simp_all add: ba_def bb_def)
  have skip: "fold (\<lambda>b m. if creator b = ra then m else add_canonical b m) (replicate n ba) m = m" for n m
    by (induction n) (simp_all add: c)
  have "extract_checkpoint_block_production_evidence rr_hash rr_lace (rr_long 0) rr_checkpoint ra =
      Inr [\<lparr>ci_source = rating_source rr_checkpoint, ci_kind = BlockProduction, ci_rater = ra, ci_recipient = rb, ci_ref = replicate 32 2\<rparr>]"
    unfolding extract_checkpoint_block_production_evidence_def rr_window w
    by (simp add: skip c rr_order add_canonical_def del: fold_replicate)
  moreover have "is_active_recipient rr_state rb" by code_simp
  moreover have "validate_source (rating_source rr_checkpoint) = Inr ()"
    by (simp add: validate_source_ok rating_source_def rr_checkpoint_def)
  moreover have "src_round (rating_source rr_checkpoint) = 1" by (simp add: rating_source_def rr_checkpoint_def)
  ultimately show ?thesis
    by (simp add: checkpoint_admitted_def rr_source_collector_def admit_checkpoint_block_production_interactions_def
        admit_checkpoint_interaction_evidence_def rr_participants [unfolded One_nat_def])
qed

lemma rr_source_insert: "checkpoint_insert rr_hash rr_scheme (rr_source_collector []) rr_rating = Inr (rr_source_collector [((ra, rb), rr_rating)])"
proof -
  have src: "validate_source (cc_source (rr_source_collector [])) = Inr ()" "src_round (cc_source (rr_source_collector [])) = 1"
    by (simp_all add: cc_source_def validate_source_ok rating_source_def rr_source_collector_def rr_checkpoint_def)
  have r: "rt_round rr_rating = 1" "rater rr_rating = ra" by (simp_all add: rr_rating_def)
  have "validate_checkpoint_signed_rating rr_hash rr_scheme rr_rating (cc_source (rr_source_collector [])) rr_cfg = Inr ()"
    unfolding validate_checkpoint_signed_ok
    by (simp add: canonical_checkpoint_rating_payload_def src r)
      (simp add: rating_valid_def rr_rating_def reference_present_def rr_order rr_cfg_def rr_scheme_def)
  moreover have "por_round (cc_checkpoint (rr_source_collector [])) = 1" "authorized_raters (rr_source_collector []) = [ra]"
    "cc_config (rr_source_collector []) = rr_cfg" by (simp_all add: rr_source_collector_def rr_checkpoint_def)
  ultimately have "checkpoint_validate_submission rr_hash rr_scheme (rr_source_collector []) [] rr_rating = Inr ()"
    by (simp add: checkpoint_validate_submission_def check_existing_def rr_source_admitted r)
      (simp add: rr_rating_def score_admitted_checkpoint_interaction_def score_interaction_kind_def rr_cfg_def)
  then show ?thesis by (simp add: checkpoint_insert_def rr_source_collector_def) (simp add: rr_rating_def rating_key_def)
qed

theorem closed_checkpoint_rounds_agree_witness:
  "\<exists>b. checkpoint_build_complete_batch rr_hash rr_scheme (rr_source_collector [((ra, rb), rr_rating)]) = Inr b \<and> batch_round b = 1"
proof -
  let ?c = "rr_source_collector [((ra, rb), rr_rating)]"
  have r: "source_collector_reachable rr_hash rr_scheme ?c"
    by (rule source_rating_in [OF source_open [OF rr_new_source] rr_source_insert])
  have same: "?c\<lparr>cc_ratings := [((ra, rb), rr_rating)]\<rparr> = ?c" by (simp add: rr_source_collector_def)
  have "validate_checkpoint_rater (cc_source ?c) ra rr_state = Inr ()"
    using rr_rater by (auto simp: validate_checkpoint_rater_def res_bind_ok cc_source_def validate_source_ok rating_source_def rr_source_collector_def rr_checkpoint_def)
  then have "checkpoint_rater_complete rr_hash ?c ra = Inr True"
    unfolding checkpoint_rater_complete_def rr_source_admitted
    by (simp add: rr_source_collector_def count_rater_def) (simp add: rr_rating_def)
  then have "all_authorized_raters_complete rr_hash ?c = Inr True"
    by (simp add: all_authorized_raters_complete_def) (simp add: rr_source_collector_def)
  from closed_checkpoint_rounds_agree [of rr_hash rr_scheme ?c "[((ra, rb), rr_rating)]", unfolded same, OF r r this this]
  show ?thesis by (auto simp: rr_source_collector_def rr_checkpoint_def)
qed

text \<open>
  C32.  What a validator sends completes it everywhere.  The envelopes of the batch a validator builds for itself are accepted
  one by one by every reachable collector of the round that holds nothing from it yet, and afterwards that collector counts
  the validator as complete.
\<close>

theorem delivered_ratings_complete:
  assumes "wave_collector_reachable hash scheme c" "count_rater (wc_ratings c) who = 0"
    and "build_finalized_block_production_rating_batch hash scheme sign (wc_lace c) (wc_output c) (wc_opened c) who (wc_state c) (wc_config c) key = Inr b"
    and "encode_rating_batch (finalized_wave (wc_opened c)) b = Inr envelopes" "maximum_rating (wc_config c) < 2 ^ 64"
  shows "\<exists>c'. receive_each hash scheme c envelopes = Inr c' \<and> wave_rater_complete c' who = Inr True"
  by (rule delivered_batch_completes [OF wave_reachable_inv [OF assms(1)] assms(2-5)])

lemma rr_encoded: "\<exists>es. encode_rating_batch 0 rr_batch = Inr es"
  by (simp add: encode_rating_batch_def rr_batch_def checked_add_def new_v1_def validate_rating_shape_def validate_rating_fields_def
      validate_public_key_length_def)
    (simp add: rr_rating_def ra_def rb_def COMPRESSED_SECP256K1_PUBLIC_KEY_LEN_def BLOCK_HASH_LEN_def MAX_SECP256K1_DER_SIGNATURE_LEN_def)

theorem delivered_ratings_complete_witness:
  "\<exists>es c. encode_rating_batch 0 rr_batch = Inr es \<and> receive_each rr_hash rr_scheme (rr_collector []) es = Inr c \<and> wave_rater_complete c ra = Inr True"
proof -
  obtain es where es: "encode_rating_batch 0 rr_batch = Inr es" using rr_encoded by blast
  have c: "wc_lace (rr_collector []) = rr_lace" "wc_output (rr_collector []) = rr_out" "wc_opened (rr_collector []) = rr_opened"
    "wc_state (rr_collector []) = rr_state" "wc_config (rr_collector []) = rr_cfg" "wc_ratings (rr_collector []) = []" by (simp_all add: rr_collector_def)
  have "\<exists>c'. receive_each rr_hash rr_scheme (rr_collector []) es = Inr c' \<and> wave_rater_complete c' ra = Inr True"
  proof (rule delivered_ratings_complete [OF rr_reachable])
    show "build_finalized_block_production_rating_batch rr_hash rr_scheme rr_sign (wc_lace (rr_collector [])) (wc_output (rr_collector []))
        (wc_opened (rr_collector [])) ra (wc_state (rr_collector [])) (wc_config (rr_collector [])) [] = Inr rr_batch" unfolding c by (rule rr_local)
    show "encode_rating_batch (finalized_wave (wc_opened (rr_collector []))) rr_batch = Inr es" using es by (simp add: c rr_opened_def)
  qed (simp_all add: c count_rater_def rr_cfg_def)
  then show ?thesis using es by blast
qed

section \<open>Closing a round\<close>

text \<open>
  C31.  The quorum.  The progress of a round lists the complete raters among the active ones, with their weight and the weight
  of all active raters, and the quorum is reached if and only if the completed share is strictly greater than the configured
  fraction, with no rounding and no overflow.
\<close>

theorem quorum_is_strict:
  assumes "new_closure_policy num den = Inr policy" "den < 2 ^ 64" "evaluate policy c = Inr p"
  shows "completed_raters p = map entry_node (complete_entries c) \<and>
    total_active_weight p = sum_list (map reputation (active_entries c)) \<and>
    completed_weight p = sum_list (map reputation (complete_entries c)) \<and>
    (is_reached p \<longleftrightarrow> total_active_weight p * num < completed_weight p * den)"
proof -
  have "numerator policy = num" "denominator policy = den" "0 < den" "num < den"
    using assms(1) by (auto simp: new_closure_policy_def not_le split: if_splits)
  then show ?thesis using evaluate_ok [OF assms(3)] assms(2) by simp
qed

lemma rr_evidence_b: "extract_block_production_evidence rr_lace rr_out rr_opened rb =
     Inr [\<lparr>ie_wave = 0, ie_round = 1, ie_kind = BlockProduction, ie_rater = rb, ie_recipient = ra, ie_ref = replicate 32 1\<rparr>]"
proof -
  have c: "creator ba = ra" "creator bb = rb" "content_hash ba = replicate 32 1" by (simp_all add: ba_def bb_def)
  show ?thesis
    by (simp add: extract_block_production_evidence_def rr_round_valid canonical_step_def rr_depth rr_wave)
      (simp add: rr_out_def canonical_step_def rr_depth rr_wave rr_opened_def c add_canonical_def rr_order)
qed

lemma rr_incomplete: "wave_rater_complete rr_full rb = Inr False"
proof -
  have p: "validate_interaction_participants 1 rb ra (replicate 32 1) rr_state = Inr ()"
  proof -
    have "state_contains rr_state ra" "\<not> is_ejected rr_state ra" "validate_interaction_rater 1 rb rr_state = Inr ()" by code_simp+
    then show ?thesis by (simp add: validate_interaction_participants_def rr_entries checked_add_def rr_order)
  qed
  have "is_active_recipient rr_state ra" by code_simp
  moreover have "rating_round_from_finalized_wave 0 = Inr 1" by (simp add: rating_round_ok)
  ultimately have "admit_finalized_block_production_interactions rr_lace rr_out rr_opened rb rr_state = Inr [AdmittedInteraction
      \<lparr>ie_wave = 0, ie_round = 1, ie_kind = BlockProduction, ie_rater = rb, ie_recipient = ra, ie_ref = replicate 32 1\<rparr>]"
    by (simp add: admit_finalized_block_production_interactions_def admit_interaction_evidence_def rr_evidence_b p [unfolded One_nat_def])
  then show ?thesis
    by (simp add: wave_rater_complete_def wave_admitted_def rr_collector_def count_rater_def) (simp add: rr_rating_def rr_order)
qed

theorem quorum_is_strict_witness:
  "\<exists>p. evaluate default_closure_policy rr_full = Inr p \<and> total_active_weight p = 5 \<and> completed_weight p = 4 \<and> is_reached p"
proof -
  have e: "\<not> is_ejected rr_state ra" "\<not> is_ejected rr_state rb" by code_simp+
  have n: "entry_node (new_entry m r) = m" "reputation (new_entry m r) = r" "\<not> is_excluded (new_entry m r)" for m r
    by (simp_all add: new_entry_def)
  have c: "wc_state rr_full = rr_state" by (simp add: rr_collector_def)
  have "strict_required_weight 5 2 3 = Inr 4" by (simp add: strict_floor)
  then have ev: "evaluate default_closure_policy rr_full = Inr \<lparr>eligible_raters = 2, completed_raters = [ra], total_active_weight = 5,
      completed_weight = 4, required_weight = 4\<rparr>" (is "_ = Inr ?p")
    by (simp add: evaluate_def c rr_entries quorum_step_def n e rr_complete(1) rr_incomplete checked_add_def default_closure_policy_def)
  have "new_closure_policy 2 3 = Inr default_closure_policy" by (simp add: new_closure_policy_def default_closure_policy_def)
  note q = quorum_is_strict [OF this _ ev, THEN conjunct2, THEN conjunct2, THEN conjunct2]
  have "is_reached ?p" by (subst q) simp_all
  then show ?thesis using ev by (intro exI [of _ ?p]) simp
qed

text \<open>
  C29.  A round closes once.  In every state a coordinator reaches by producing, broadcasting, receiving and closing, in any
  order and with any answers of the network, either the round is open and its collector holds only prescribed ratings, or it
  is closed: the local ratings were produced and all delivered, the batch is the complete batch of a collector of this round,
  the reason is a reached quorum or cutoff, and no later operation changes anything.
\<close>

theorem rating_round_closes_once:
  assumes "new_coordinator bl out opened st cfg = Inr co0" "(co_step hash scheme sign)\<^sup>*\<^sup>* (co0, w0) (co, w)"
  shows "(open_inv hash scheme co \<or> closed_inv hash scheme co) \<and> next_outbound co \<le> length (outbound_envelopes co) \<and>
    (completed_batch co \<noteq> None \<longrightarrow> (\<forall>s. (co_step hash scheme sign)\<^sup>*\<^sup>* (co, w) s \<longrightarrow> s = (co, w)))"
proof -
  have "coordinator_inv hash scheme (fst (co, w))"
    by (rule co_steps_inv [OF assms(2)]) (simp add: new_coordinator_inv [OF assms(1)])
  then show ?thesis using closed_steps [of hash scheme sign "(co, w)"] by (auto simp: coordinator_inv_def)
qed

definition rr_deliver :: "byte list list broadcaster" where
  "rr_deliver e w = (Inr (), w @ [e])"

definition rr_co :: coordinator where
  "rr_co = \<lparr>co_lace = rr_lace, co_output = rr_out, co_opened = rr_opened, co_state = rr_state, co_config = rr_cfg,
     co_collector = Some (rr_collector []), local_batch = None, outbound_envelopes = [], next_outbound = 0, completed_batch = None,
     co_close_reason = None\<rparr>"

definition rr_sent :: "byte list \<Rightarrow> coordinator" where
  "rr_sent e = rr_co\<lparr>co_collector := Some rr_full, local_batch := Some rr_batch, outbound_envelopes := [e], next_outbound := 1\<rparr>"

lemma rr_new_co: "new_coordinator rr_lace rr_out rr_opened rr_state rr_cfg = Inr rr_co"
  by (simp add: new_coordinator_def rr_new rr_co_def)

lemma rr_steps: "\<exists>e. (co_step rr_hash rr_scheme rr_sign)\<^sup>*\<^sup>* (rr_co, []) (rr_sent e, [e])"
proof -
  obtain es where es: "encode_rating_batch 0 rr_batch = Inr es" using rr_encoded by blast
  define e where "e = encode_v1 \<lparr>v1_wave = 0, v1_rating = rr_rating\<rparr>"
  have e: "es = [e]" using encode_batch_ok(1) [OF es] by (simp add: rr_batch_def e_def)
  have v: "wave_validate_submission rr_hash rr_scheme (rr_collector []) [] rr_rating = Inr ()"
    using rr_insert by (auto simp: wave_insert_def res_bind_ok rr_collector_def)
  have k: "rating_key rr_rating = (ra, rb)" by (simp add: rating_key_def rr_rating_def)
  have i: "wave_insert_batch rr_hash rr_scheme (rr_collector []) rr_batch = Inr rr_full"
    using v by (simp add: wave_insert_batch_def rr_batch_def stage_ratings_def rr_collector_def rr_opened_def k)
  have "produce_local_batch rr_hash rr_scheme rr_sign rr_co ra [] =
      Inr (rr_co\<lparr>co_collector := Some rr_full, outbound_envelopes := [e], next_outbound := 0, local_batch := Some rr_batch\<rparr>)" (is "_ = Inr ?co1")
    using es e i by (simp add: produce_local_batch_def rr_co_def require_open_def rr_local the_collector_def rr_opened_def [THEN arg_cong, of finalized_wave])
  then have "co_step rr_hash rr_scheme rr_sign (rr_co, []) (?co1, [])" by (rule co_produce)
  moreover have "broadcast_pending rr_deliver ?co1 [] = (Inr 1, rr_sent e, [e])"
    by (simp add: broadcast_pending_def rr_co_def require_open_def rr_deliver_def rr_sent_def)
  then have "co_step rr_hash rr_scheme rr_sign (?co1, []) (rr_sent e, [e])" by (rule co_broadcast)
  ultimately have "(co_step rr_hash rr_scheme rr_sign)\<^sup>*\<^sup>* (rr_co, []) (rr_sent e, [e])"
    by (rule converse_rtranclp_into_rtranclp [OF _ r_into_rtranclp])
  then show ?thesis by blast
qed

theorem rating_round_closes_once_witness:
  "\<exists>e. new_coordinator rr_lace rr_out rr_opened rr_state rr_cfg = Inr rr_co \<and>
     (co_step rr_hash rr_scheme rr_sign)\<^sup>*\<^sup>* (rr_co, []) (rr_sent e, [e]) \<and> open_inv rr_hash rr_scheme (rr_sent e)"
proof -
  obtain e where s: "(co_step rr_hash rr_scheme rr_sign)\<^sup>*\<^sup>* (rr_co, []) (rr_sent e, [e])" using rr_steps by blast
  have "\<not> closed_inv rr_hash rr_scheme (rr_sent e)" by (simp add: closed_inv_def rr_sent_def)
  then show ?thesis using rating_round_closes_once [OF rr_new_co s] rr_new_co s by blast
qed

text \<open>
  C33.  The cutoff always closes.  Once the local ratings of an open round are delivered and the observed finalized wave has
  advanced by the configured lag, closing at the cutoff succeeds, whatever was received, and records the waves it compared.
\<close>

theorem cutoff_always_closes:
  assumes "new_coordinator bl out opened st cfg = Inr co0" "(co_step hash scheme sign)\<^sup>*\<^sup>* (co0, w0) (co, w)"
    and "completed_batch co = None" "local_batch co \<noteq> None" "pending_outbound co = 0"
    and "finalized_wave (co_opened co) + lag \<le> observed" "observed < 2 ^ 64"
  shows "\<exists>co'. close_at_finalized_wave hash scheme co (CutoffPolicy lag) observed = Inr co' \<and> completed_batch co' \<noteq> None \<and>
    co_close_reason co' = Some (FinalizedWaveCutoff observed (finalized_wave (co_opened co) + lag))"
proof -
  have inv: "coordinator_inv hash scheme (fst (co, w))"
    by (rule co_steps_inv [OF assms(2)]) (simp add: new_coordinator_inv [OF assms(1)])
  have pre: "require_close_prerequisites co = Inr ()" using assms(3-5) by (simp add: prerequisites_ok)
  have er: "ensure_reached (CutoffPolicy lag) (co_opened co) observed = Inr (finalized_wave (co_opened co) + lag)"
    using assms(6,7) by (simp add: ensure_reached_def required_finalized_wave_def checked_add_def ok_or_def)
  from cutoff_closes [OF _ pre er] inv obtain co' where c: "close_at_finalized_wave hash scheme co (CutoffPolicy lag) observed = Inr co'" by auto
  then have "finalize hash scheme co (FinalizedWaveCutoff observed (finalized_wave (co_opened co) + lag)) = Inr co'"
    by (simp add: close_at_finalized_wave_def pre er)
  then show ?thesis using c by (auto simp: finalize_def res_ok)
qed

theorem cutoff_always_closes_witness:
  "\<exists>e co. close_at_finalized_wave rr_hash rr_scheme (rr_sent e) (CutoffPolicy 2) 3 = Inr co \<and> co_close_reason co = Some (FinalizedWaveCutoff 3 2)"
proof -
  obtain e where s: "(co_step rr_hash rr_scheme rr_sign)\<^sup>*\<^sup>* (rr_co, []) (rr_sent e, [e])" using rr_steps by blast
  have f: "completed_batch (rr_sent e) = None" "local_batch (rr_sent e) \<noteq> None" "pending_outbound (rr_sent e) = 0"
    "finalized_wave (co_opened (rr_sent e)) = 0"
    by (simp_all add: rr_sent_def rr_co_def pending_outbound_def rr_opened_def)
  have "\<exists>co. close_at_finalized_wave rr_hash rr_scheme (rr_sent e) (CutoffPolicy 2) 3 = Inr co \<and> completed_batch co \<noteq> None \<and>
      co_close_reason co = Some (FinalizedWaveCutoff 3 (finalized_wave (co_opened (rr_sent e)) + 2))"
    by (rule cutoff_always_closes [OF rr_new_co s f(1-3)]) (simp_all add: f(4))
  then show ?thesis unfolding f(4) add_0 by blast
qed

section \<open>Confirming the next reputation block\<close>

text \<open>
  C30.  What a confirmed checkpoint is.  When a collector of confirmations, fed with publications in any order, yields a
  confirmed block, that block passes the local audit of the round and is the only block that does, its hash is the recorded
  one, its publishers are distinct authorized validators that are not ejected, each has a signature that the signature
  scheme verifies over its identity and the encoding of that very block, their reputation is strictly more than the
  configured fraction of all authorized reputation, and staging it succeeds.  The publications are those a node can hold:
  constructed, signed or decoded by the functions of the crate, with a 32-byte hash.
\<close>

theorem confirmed_block_is_audited:
  assumes "new_attestation_collector st cr cfg shard authorized policy = Inr c0" "new_checkpoint_policy num den = Inr policy"
    and "den < 2 ^ 64" "scale cfg < 2 ^ 64" "(attest_step hash scheme sign)\<^sup>*\<^sup>* c0 c" "into_attested c = Inr a"
    and digest: "\<And>x. length (hash x) = 32"
  shows "(\<forall>b. verify_reputation_transition_with_penalties hash (state_vector st) (batch_ratings (cr_batch cr)) b
        \<lparr>ctx_shard = shard, ctx_wave = finalized_wave (cr_opened cr), ctx_previous = latest_block st\<rparr> cfg (cr_penalties cr) = Inr ()
      \<longleftrightarrow> b = att_block a) \<and>
    reputation_block_hash hash (att_block a) = Inr (att_hash a) \<and> distinct (map publisher (att_publications a)) \<and>
    (\<forall>p \<in> set (att_publications a). pub_block p = att_block a \<and> publisher p \<in> set authorized \<and> \<not> is_ejected st (publisher p) \<and>
       attested_by hash scheme (att_block a) (publisher p) (pub_signature p)) \<and>
    (\<Sum>n \<in> set authorized. attester_reputation st n) * num <
      sum_list (map (\<lambda>p. attester_reputation st (publisher p)) (att_publications a)) * den \<and>
    (\<exists>applied. stage_attested_checkpoint hash cr st cfg shard (att_block a) = Inr (commit_audited_block (att_block a) st, applied) \<and>
       ar_block applied = att_block a)"
proof -
  have c0: "at_state c0 = st" "at_completed c0 = cr" "at_config c0 = cfg" "at_shard c0 = shard"
    using assms(1) by (auto simp: new_attestation_collector_def res_ok split: prod.splits)
  have p: "cp_numerator policy = num" "cp_denominator policy = den" "0 < den" "num < den"
    using assms(2) by (auto simp: new_checkpoint_policy_def not_le split: if_splits)
  have inv: "attest_inv hash c" and same: "same_round c0 c" and con: "all_constructed hash scheme sign c"
    using attest_steps_inv [OF assms(5) new_attestation_inv(1) [OF assms(1)] _ new_collector_constructed [OF assms(1)]] assms(4)
    by (simp_all add: c0)
  have c: "at_state c = st" "at_completed c = cr" "at_config c = cfg" "at_shard c = shard" "attester_weights c = attester_weights c0"
    using same by (simp_all add: same_round_def c0)
  note at = attested_ok [OF inv assms(6)] and w = attester_weights_exact [OF assms(1)]
  let ?verify = "\<lambda>b. verify_reputation_transition_with_penalties hash (state_vector st) (batch_ratings (cr_batch cr)) b
        \<lparr>ctx_shard = shard, ctx_wave = finalized_wave (cr_opened cr), ctx_previous = latest_block st\<rparr> cfg (cr_penalties cr)"
  have v: "?verify (att_block a) = Inr ()" "validate_complete_authorizations cr shard = Inr ()"
    using at(1) by (simp_all add: audit_candidate_def c res_bind_ok)
  have auth: "\<forall>p \<in> set (att_publications a). pub_block p = att_block a \<and> publisher p \<in> set authorized \<and> \<not> is_ejected st (publisher p)"
    using at(3) w(3) unfolding c(5) w(1) by (auto split: if_splits)
  then have sigs: "\<forall>p \<in> set (att_publications a). attested_by hash scheme (att_block a) (publisher p) (pub_signature p)"
    using attested_constructed [OF con assms(6)] constructed_attested(3) [of hash scheme sign, OF digest] by fastforce
  have "map (\<lambda>p. the (map_of (attester_weights c) (publisher p))) (att_publications a) =
      map (\<lambda>p. attester_reputation st (publisher p)) (att_publications a)" using auth by (simp add: c(5) w(1))
  then have le: "at_required c \<le> sum_list (map (\<lambda>p. attester_reputation st (publisher p)) (att_publications a))" using at(5) by (simp only:)
  have t: "0 < total_attester_weight c0" "total_attester_weight c0 < 2 ^ 128"
    using new_attestation_inv(3) [OF assms(1)] new_attestation_inv(1) [OF assms(1), of hash] unfolding attest_inv_def weights_inv_def
    by (blast, simp)
  have "attester_threshold (total_attester_weight c0) num den = Some (at_required c0)"
    using new_attestation_inv(2) [OF assms(1)] by (simp add: p)
  then have "strict_required_weight (total_attester_weight c0) num den = Inr (at_required c0)"
    by (simp add: attester_threshold_eq ok_or_def)
  then have "at_required c = total_attester_weight c0 * num div den + 1"
    using strict_floor [OF p(3,4) assms(3) t] same by (simp add: same_round_def)
  then have strict: "total_attester_weight c0 * num < sum_list (map (\<lambda>p. attester_reputation st (publisher p)) (att_publications a)) * den"
    using le unfolding strict_threshold [OF p(3), symmetric] by simp
  have "stage_attested_checkpoint hash cr st cfg shard (att_block a) = Inr (commit_audited_block (att_block a) st,
      \<lparr>ar_close_reason = cr_close_reason cr, ar_block = att_block a, ar_weights = reputation_weights (commit_audited_block (att_block a) st)\<rparr>)"
    by (simp add: stage_attested_checkpoint_def stage_reputation_block_def v apply_reputation_block_with_penalties_def)
  moreover have "?verify b = Inr () \<longleftrightarrow> b = att_block a" for b using v(1) audited_unique [OF _ v(1) assms(4), of b] by blast
  ultimately show ?thesis using at(2,4) auth sigs strict by (simp add: w(2))
qed

definition rr_completed :: completed_round where
  "rr_completed = \<lparr>cr_opened = \<lparr>finalized_wave = 1, rating_round = 2\<rparr>, cr_batch = \<lparr>batch_round = 2, batch_ratings = [sp_rating]\<rparr>,
     cr_close_reason = QuorumReached 4 4, cr_penalties = None, finalized_authorizations = {}, admitted_authorizations = {}\<rparr>"

definition key_scheme :: signature_scheme where
  "key_scheme h key sig \<longleftrightarrow> sig = key"

definition key_sign :: signer where
  "key_sign h key = Inr key"

definition rr_envelope :: "byte list" where
  "rr_envelope = (case encode_reputation_block zero_hash sp_block of Inl _ \<Rightarrow> [] | Inr env \<Rightarrow> env)"

definition rr_publication :: "node_id \<Rightarrow> publication" where
  "rr_publication who = \<lparr>publisher = who, pub_block = sp_block, block_envelope = rr_envelope, pub_signature = node_bytes who\<rparr>"

text \<open>One publication is signed locally, the other one arrives as bytes.\<close>

lemma rr_constructed:
  "sign_publication zero_hash key_scheme key_sign pa sp_block (node_bytes pa) = Inr (rr_publication pa)"
  "decode_publication zero_hash key_scheme (encode_publication (rr_publication pb)) = Inr (rr_publication pb)"
proof -
  have env: "encode_reputation_block zero_hash sp_block = Inr rr_envelope" "length rr_envelope \<le> MAX_REPUTATION_BLOCK_WIRE_LEN"
    using sp_encoded by (auto simp: rr_envelope_def)
  have k: "length (node_bytes pa) = 33" "length (node_bytes pb) = 33" "node_bytes pa \<noteq> []" "node_bytes pb \<noteq> []"
    by (simp_all add: pa_def pb_def)
  then have ok: "publication_ok zero_hash key_scheme (rr_publication pa)" "publication_ok zero_hash key_scheme (rr_publication pb)"
    using env(2) by (simp_all add: publication_ok_def rr_publication_def key_scheme_def)
  have "from_encoded_parts zero_hash key_scheme pa sp_block rr_envelope (node_bytes pa) = Inr (rr_publication pa)"
    unfolding encoded_parts_ok using ok(1) by (simp add: rr_publication_def)
  then show "sign_publication zero_hash key_scheme key_sign pa sp_block (node_bytes pa) = Inr (rr_publication pa)"
    by (simp add: sign_publication_def env key_sign_def validate_publisher_def k COMPRESSED_SECP256K1_PUBLIC_KEY_LEN_def)
  show "decode_publication zero_hash key_scheme (encode_publication (rr_publication pb)) = Inr (rr_publication pb)"
    unfolding decode_publication_iff [of zero_hash, OF zero_hash_length] using ok(2) env(1) sp_block_fits by (simp add: rr_publication_def)
qed

definition rr_attesters :: attestation_collector where
  "rr_attesters = \<lparr>at_state = sp_state, at_completed = rr_completed, at_config = sp_cfg, at_shard = [7], attester_weights = [(pa, 4), (pb, 3)],
     total_attester_weight = 7, at_required = 5, signed_weight = 0, candidate_hash = None, candidate_block = None, publications = []\<rparr>"

definition rr_half_attested :: "byte list \<Rightarrow> attestation_collector" where
  "rr_half_attested h = rr_attesters\<lparr>candidate_hash := Some h, candidate_block := Some sp_block,
     publications := [(pa, rr_publication pa)], signed_weight := 4\<rparr>"

definition rr_attested :: "byte list \<Rightarrow> attestation_collector" where
  "rr_attested h = (rr_half_attested h)\<lparr>publications := [(pa, rr_publication pa), (pb, rr_publication pb)], signed_weight := 7\<rparr>"

lemma rr_new_attesters: "new_attestation_collector sp_state rr_completed sp_cfg [7] [pb, pa, pb] \<lparr>cp_numerator = 2, cp_denominator = 3\<rparr> = Inr rr_attesters"
proof -
  have e: "entries (st_list sp_state) = [new_entry pa 4, new_entry pb 3]" "\<not> is_ejected sp_state pa" "\<not> is_ejected sp_state pb" by code_simp+
  have "search_entry (entries (st_list sp_state)) pa = Some (new_entry pa 4)" "search_entry (entries (st_list sp_state)) pb = Some (new_entry pb 3)"
    unfolding e(1) sp_search by (simp_all add: sp_order)
  then show ?thesis
    by (simp add: new_attestation_collector_def attester_step_def e(2,3) checked_add_def sp_order attester_threshold_def checked_mul_def rr_attesters_def)
qed

lemma rr_audited: "audit_candidate zero_hash rr_attesters sp_block = Inr ()"
proof -
  have ctx: "\<lparr>ctx_shard = [7], ctx_wave = 1, ctx_previous = latest_block sp_state\<rparr> = sp_ctx" by (simp add: sp_ctx_def) code_simp
  have "verify_reputation_transition_with_penalties zero_hash sp_prev [sp_rating] sp_block sp_ctx sp_cfg None = Inr ()"
    using built_block_verifies [OF sp_replay sp_config(2)] sp_built by (simp add: sp_list_def)
  then show ?thesis
    by (simp add: audit_candidate_def rr_attesters_def rr_completed_def validate_complete_authorizations_def ctx [unfolded One_nat_def])
qed

lemma rr_observed:
  assumes "reputation_block_hash zero_hash sp_block = Inr h"
  shows "observe_publication zero_hash rr_attesters (rr_publication pa) = Inr (Counted, rr_half_attested h)"
    "observe_publication zero_hash (rr_half_attested h) (rr_publication pb) = Inr (Counted, rr_attested h)"
proof -
  have "audit_candidate zero_hash (rr_half_attested h) sp_block = Inr ()"
    using rr_audited by (simp add: rr_half_attested_def audit_context)
  then show "observe_publication zero_hash (rr_half_attested h) (rr_publication pb) = Inr (Counted, rr_attested h)"
    using assms
    by (simp add: observe_publication_def rr_publication_def rr_attested_def attestation_reached_def attestation_progress_of_def)
      (simp add: rr_half_attested_def rr_attesters_def checked_add_def sp_order rr_publication_def)
  show "observe_publication zero_hash rr_attesters (rr_publication pa) = Inr (Counted, rr_half_attested h)"
    using rr_audited assms
    by (simp add: observe_publication_def rr_publication_def rr_half_attested_def attestation_reached_def attestation_progress_of_def)
      (simp add: rr_attesters_def checked_add_def)
qed

theorem confirmed_block_is_audited_witness:
  "\<exists>h a. (attest_step zero_hash key_scheme key_sign)\<^sup>*\<^sup>* rr_attesters (rr_attested h) \<and> into_attested (rr_attested h) = Inr a \<and>
     att_block a = sp_block \<and> att_publications a = [rr_publication pa, rr_publication pb] \<and> reputation_block_hash zero_hash sp_block = Inr (att_hash a) \<and>
     attested_by zero_hash key_scheme sp_block pa (node_bytes pa) \<and> attested_by zero_hash key_scheme sp_block pb (node_bytes pb) \<and>
     (\<exists>applied. stage_attested_checkpoint zero_hash rr_completed sp_state sp_cfg [7] sp_block = Inr (commit_audited_block sp_block sp_state, applied))"
proof -
  obtain h where h: "reputation_block_hash zero_hash sp_block = Inr h" using sp_block_valid
    by (simp add: reputation_block_hash_def block_hash_bytes_def cm_put_bytes_def cm_put_len_def u64_try_def) (simp add: sp_block_def)
  define a where "a = \<lparr>att_block = sp_block, att_hash = h, att_publications = [rr_publication pa, rr_publication pb],
    att_progress = attestation_progress_of (rr_attested h)\<rparr>"
  have i: "into_attested (rr_attested h) = Inr a"
    by (simp add: into_attested_def a_def attestation_reached_def)
      (simp add: rr_attested_def rr_half_attested_def rr_attesters_def attestation_progress_of_def)
  have s: "(attest_step zero_hash key_scheme key_sign)\<^sup>*\<^sup>* rr_attesters (rr_attested h)"
    using attest [OF constructed.signed [OF rr_constructed(1)] rr_observed(1) [OF h]]
      attest [OF constructed.received [OF rr_constructed(2)] rr_observed(2) [OF h]]
    by (rule converse_rtranclp_into_rtranclp [OF _ r_into_rtranclp])
  have np: "new_checkpoint_policy 2 3 = Inr \<lparr>cp_numerator = 2, cp_denominator = 3\<rparr>" by (simp add: new_checkpoint_policy_def)
  note c = confirmed_block_is_audited [OF rr_new_attesters np _ sp_config(2) s i zero_hash_length]
  have "reputation_block_hash zero_hash (att_block a) = Inr (att_hash a) \<and>
      (\<exists>applied. stage_attested_checkpoint zero_hash rr_completed sp_state sp_cfg [7] (att_block a) = Inr (commit_audited_block (att_block a) sp_state, applied))"
    using c by auto
  moreover have "attested_by zero_hash key_scheme (att_block a) (publisher p) (pub_signature p)" if "p \<in> set (att_publications a)" for p
    using c that by auto
  moreover have a: "att_block a = sp_block" "att_publications a = [rr_publication pa, rr_publication pb]" by (simp_all add: a_def)
  ultimately show ?thesis using s i by (fastforce simp: rr_publication_def)
qed

end
