(* ===== verification/Block_Translation.thy ===== *)
theory Block_Translation
  imports Payload Crypto Results
begin

text \<open>
  \<open>block_translation.rs\<close>: blocks as messages of the host node and back.  The host's types are mirrored in this file and
  modelled as such; \<open>i64\<close> is an integer.  A Rust string is the list of its UTF-8 bytes where its content matters.  The
  conversion from the host's own crate (\<open>message_from_f1r3node\<close>) is left out with the types it reads.
\<close>

section \<open>Messages\<close>

record msg_header =
  parents_hash_list :: "byte list list"
  msg_timestamp :: int
  msg_version :: int
  header_extra :: "byte list"

record wire_bond =
  wb_validator :: "byte list"
  wb_stake :: int

record f1r3fly_state =
  fs_pre_state_hash :: "byte list"
  fs_post_state_hash :: "byte list"
  fs_bonds :: "wire_bond list"
  fs_block_number :: int

record justification =
  just_validator :: "byte list"
  latest_block_hash :: "byte list"

record deploy_data =
  dd_term :: "byte list"
  dd_time_stamp :: int
  dd_phlo_price :: int
  dd_phlo_limit :: int
  dd_valid_after_block_number :: int
  dd_shard_id :: string
  dd_expiration_timestamp :: "int option"

record signed_deploy_data =
  sd_data :: deploy_data
  sd_pk :: "byte list"
  sd_sig :: "byte list"
  sd_sig_algorithm :: string

record wire_processed_deploy =
  wp_deploy :: signed_deploy_data
  wp_cost :: int
  wp_log :: "byte list"
  wp_is_failed :: bool
  wp_error :: "string option"

datatype wire_rejected_deploy = WireRejected (wr_sig: "byte list")

datatype wire_system_deploy = WireSlash "byte list" bool | WireCloseBlock bool

record msg_body =
  mb_state :: f1r3fly_state
  mb_deploys :: "wire_processed_deploy list"
  mb_rejected :: "wire_rejected_deploy list"
  mb_system :: "wire_system_deploy list"
  mb_extra :: "byte list"

record block_message =
  msg_block_hash :: "byte list"
  msg_header :: msg_header
  msg_body :: msg_body
  justifications :: "justification list"
  sender :: "byte list"
  seq_num :: int
  msg_sig :: "byte list"
  msg_sig_algorithm :: string
  msg_shard_id :: string
  msg_extra :: "byte list"

datatype (plugins only: code) translation_error =
    PayloadDecodeFailed "byte list" | NumericOverflow string | InvalidPredecessorHash nat nat | InvalidDeployTermUtf8 "byte list"

section \<open>Numbers and text\<close>

definition u64_to_i64 :: "nat \<Rightarrow> string \<Rightarrow> translation_error + int" where
  "u64_to_i64 v field = (if v < 2 ^ 63 then Inr (int v) else Inl (NumericOverflow field))"

definition i64_to_u64 :: "int \<Rightarrow> string \<Rightarrow> translation_error + nat" where
  "i64_to_u64 v field = (if 0 \<le> v then Inr (nat v) else Inl (NumericOverflow field))"

text \<open>The cast \<open>as i64\<close>, which wraps.\<close>

definition as_i64 :: "nat \<Rightarrow> int" where
  "as_i64 n = (let m = n mod 2 ^ 64 in if m < 2 ^ 63 then int m else int m - 2 ^ 64)"

definition byte_in :: "nat \<Rightarrow> nat \<Rightarrow> byte \<Rightarrow> bool" where
  "byte_in lo hi b \<longleftrightarrow> lo \<le> unat b \<and> unat b \<le> hi"

abbreviation utf8_tail :: "byte \<Rightarrow> bool" where
  "utf8_tail \<equiv> byte_in 128 191"

text \<open>\<open>String::from_utf8\<close> accepts exactly the well-formed sequences of the Unicode standard.\<close>

fun utf8_valid :: "byte list \<Rightarrow> bool" where
  "utf8_valid [] = True"
| "utf8_valid (b # bs) =
     (if byte_in 0 127 b then utf8_valid bs
      else case bs of
        [] \<Rightarrow> False
      | c # cs \<Rightarrow>
          if byte_in 194 223 b then utf8_tail c \<and> utf8_valid cs
          else case cs of
            [] \<Rightarrow> False
          | d # ds \<Rightarrow>
              if byte_in 224 239 b
              then (if unat b = 224 then byte_in 160 191 c else if unat b = 237 then byte_in 128 159 c else utf8_tail c) \<and>
                   utf8_tail d \<and> utf8_valid ds
              else case ds of
                [] \<Rightarrow> False
              | e # es \<Rightarrow> byte_in 240 244 b \<and>
                  (if unat b = 240 then byte_in 144 191 c else if unat b = 244 then byte_in 128 143 c else utf8_tail c) \<and>
                  utf8_tail d \<and> utf8_tail e \<and> utf8_valid es)"

section \<open>To messages\<close>

definition opt_res :: "('a \<Rightarrow> 'e + 'b) \<Rightarrow> 'a option \<Rightarrow> 'e + 'b option" where
  "opt_res f x = (case x of None \<Rightarrow> Inr None | Some v \<Rightarrow> map_sum id Some (f v))"

definition bond_to_f1r3node :: "bond \<Rightarrow> wire_bond" where
  "bond_to_f1r3node b = \<lparr>wb_validator = node_bytes (bond_validator b), wb_stake = as_i64 (bond_stake b)\<rparr>"

definition deploy_to_f1r3node :: "deploy \<Rightarrow> translation_error + deploy_data" where
  "deploy_to_f1r3node d =
     (if \<not> utf8_valid (deploy_term d) then Inl (InvalidDeployTermUtf8 (deploy_term d))
      else res_bind (u64_to_i64 (deploy_timestamp d) ''deploy.timestamp'') (\<lambda>t.
        res_bind (u64_to_i64 (phlo_price d) ''deploy.phlo_price'') (\<lambda>p.
        res_bind (u64_to_i64 (phlo_limit d) ''deploy.phlo_limit'') (\<lambda>l.
        res_bind (u64_to_i64 (valid_after_block_number d) ''deploy.valid_after_block_number'') (\<lambda>v.
        res_bind (opt_res (\<lambda>x. u64_to_i64 x ''deploy.expiration_timestamp'') (expiration_timestamp d)) (\<lambda>e.
          Inr \<lparr>dd_term = deploy_term d, dd_time_stamp = t, dd_phlo_price = p, dd_phlo_limit = l, dd_valid_after_block_number = v,
               dd_shard_id = deploy_shard_id d, dd_expiration_timestamp = e\<rparr>))))))"

definition signed_deploy_to_f1r3node :: "signed_deploy \<Rightarrow> translation_error + signed_deploy_data" where
  "signed_deploy_to_f1r3node sd =
     res_bind (deploy_to_f1r3node (the_deploy sd)) (\<lambda>d.
       Inr \<lparr>sd_data = d, sd_pk = deployer sd, sd_sig = deploy_signature sd, sd_sig_algorithm = algorithm_as_name (signature_algorithm sd)\<rparr>)"

definition processed_deploy_to_f1r3node :: "processed_deploy \<Rightarrow> translation_error + wire_processed_deploy" where
  "processed_deploy_to_f1r3node pd =
     res_bind (signed_deploy_to_f1r3node (processed_of pd)) (\<lambda>d.
     res_bind (u64_to_i64 (deploy_cost pd) ''processed_deploy.cost'') (\<lambda>c.
       Inr \<lparr>wp_deploy = d, wp_cost = c, wp_log = [], wp_is_failed = is_failed pd, wp_error = None\<rparr>))"

definition rejected_deploy_to_f1r3node :: "rejected_deploy \<Rightarrow> wire_rejected_deploy" where
  "rejected_deploy_to_f1r3node rd = WireRejected (deploy_signature (rejected_of rd))"

fun system_deploy_to_f1r3node :: "processed_system_deploy \<Rightarrow> wire_system_deploy" where
  "system_deploy_to_f1r3node (Slash v ok) = WireSlash (node_bytes v) ok"
| "system_deploy_to_f1r3node (CloseBlock ok) = WireCloseBlock ok"

definition block_to_message :: "serializer \<Rightarrow> block \<Rightarrow> string \<Rightarrow> translation_error + block_message" where
  "block_to_message s b shard =
     res_bind (ok_or (from_bytes s (payload (content b))) (PayloadDecodeFailed (payload (content b)))) (\<lambda>p.
       let parents = sort (map content_hash (predecessors (content b)));
           justs = sort_key (\<lambda>j. (just_validator j, latest_block_hash j))
             (map (\<lambda>i. \<lparr>just_validator = node_bytes (creator i), latest_block_hash = content_hash i\<rparr>) (predecessors (content b))) in
       res_bind (u64_to_i64 (block_number (payload_state p)) ''block_number'') (\<lambda>n.
       res_bind (res_map processed_deploy_to_f1r3node (payload_deploys p)) (\<lambda>ds.
         Inr \<lparr>msg_block_hash = content_hash (identity b),
              msg_header = \<lparr>parents_hash_list = parents, msg_timestamp = 0, msg_version = 1, header_extra = []\<rparr>,
              msg_body = \<lparr>mb_state = \<lparr>fs_pre_state_hash = pre_state_hash (payload_state p), fs_post_state_hash = post_state_hash (payload_state p),
                  fs_bonds = map bond_to_f1r3node (state_bonds (payload_state p)), fs_block_number = n\<rparr>,
                mb_deploys = ds, mb_rejected = map rejected_deploy_to_f1r3node (payload_rejected p),
                mb_system = map system_deploy_to_f1r3node (payload_system p), mb_extra = encode_por_extra s (por_authorizations p)\<rparr>,
              justifications = justs, sender = node_bytes (node b), seq_num = 0, msg_sig = signature (identity b),
              msg_sig_algorithm = ''ed25519'', msg_shard_id = shard, msg_extra = []\<rparr>)))"

section \<open>From messages\<close>

definition bond_from_f1r3node :: "wire_bond \<Rightarrow> translation_error + bond" where
  "bond_from_f1r3node b =
     res_bind (i64_to_u64 (wb_stake b) ''bond.stake'') (\<lambda>w. Inr \<lparr>bond_validator = NodeId (wb_validator b), bond_stake = w\<rparr>)"

definition deploy_from_f1r3node :: "deploy_data \<Rightarrow> translation_error + deploy" where
  "deploy_from_f1r3node d =
     res_bind (i64_to_u64 (dd_time_stamp d) ''deploy.time_stamp'') (\<lambda>t.
     res_bind (i64_to_u64 (dd_phlo_price d) ''deploy.phlo_price'') (\<lambda>p.
     res_bind (i64_to_u64 (dd_phlo_limit d) ''deploy.phlo_limit'') (\<lambda>l.
     res_bind (i64_to_u64 (dd_valid_after_block_number d) ''deploy.valid_after_block_number'') (\<lambda>v.
     res_bind (opt_res (\<lambda>x. i64_to_u64 x ''deploy.expiration_timestamp'') (dd_expiration_timestamp d)) (\<lambda>e.
       Inr \<lparr>deploy_term = dd_term d, deploy_timestamp = t, phlo_price = p, phlo_limit = l, valid_after_block_number = v,
            deploy_shard_id = dd_shard_id d, expiration_timestamp = e\<rparr>)))))"

definition signed_deploy_from_f1r3node :: "signed_deploy_data \<Rightarrow> translation_error + signed_deploy" where
  "signed_deploy_from_f1r3node sd =
     res_bind (deploy_from_f1r3node (sd_data sd)) (\<lambda>d.
       Inr \<lparr>the_deploy = d, deployer = sd_pk sd, deploy_signature = sd_sig sd, signature_algorithm = algorithm_from_name (sd_sig_algorithm sd)\<rparr>)"

definition processed_deploy_from_f1r3node :: "wire_processed_deploy \<Rightarrow> translation_error + processed_deploy" where
  "processed_deploy_from_f1r3node pd =
     res_bind (signed_deploy_from_f1r3node (wp_deploy pd)) (\<lambda>d.
     res_bind (i64_to_u64 (wp_cost pd) ''processed_deploy.cost'') (\<lambda>c.
       Inr \<lparr>processed_of = d, deploy_cost = c, is_failed = wp_is_failed pd\<rparr>))"

definition rejected_deploy_from_f1r3node :: "wire_rejected_deploy \<Rightarrow> rejected_deploy" where
  "rejected_deploy_from_f1r3node rd =
     \<lparr>rejected_of = \<lparr>the_deploy = \<lparr>deploy_term = [], deploy_timestamp = 0, phlo_price = 0, phlo_limit = 0, valid_after_block_number = 0,
        deploy_shard_id = [], expiration_timestamp = None\<rparr>, deployer = [], deploy_signature = wr_sig rd, signature_algorithm = Unspecified\<rparr>,
      reject_reason = BadSignature\<rparr>"

fun system_deploy_from_f1r3node :: "wire_system_deploy \<Rightarrow> processed_system_deploy" where
  "system_deploy_from_f1r3node (WireSlash v ok) = Slash (NodeId v) ok"
| "system_deploy_from_f1r3node (WireCloseBlock ok) = CloseBlock ok"

text \<open>The hashes in the order the set is iterated are any order; the list is one.\<close>

definition hash_to_creator :: "block_message \<Rightarrow> (byte list \<times> byte list) list" where
  "hash_to_creator msg = fold (\<lambda>j m. AList.update (latest_block_hash j) (just_validator j) m) (justifications msg) []"

definition pred_hashes :: "block_message \<Rightarrow> byte list list" where
  "pred_hashes msg = remdups (parents_hash_list (msg_header msg) @ map latest_block_hash (justifications msg))"

definition predecessor_of_hash :: "block_message \<Rightarrow> byte list \<Rightarrow> translation_error + block_identity" where
  "predecessor_of_hash msg h =
     (if length h \<noteq> 32 then Inl (InvalidPredecessorHash 32 (length h))
      else Inr (BlockIdentity h (NodeId (case map_of (hash_to_creator msg) h of None \<Rightarrow> sender msg | Some c \<Rightarrow> c)) []))"

definition message_to_block :: "hasher \<Rightarrow> serializer \<Rightarrow> block_message \<Rightarrow> translation_error + block" where
  "message_to_block hash s msg =
     res_bind (res_map (predecessor_of_hash msg) (pred_hashes msg)) (\<lambda>preds.
     res_bind (ok_or (decode_por_extra s (mb_extra (msg_body msg))) (PayloadDecodeFailed (mb_extra (msg_body msg)))) (\<lambda>auths.
     res_bind (res_map bond_from_f1r3node (fs_bonds (mb_state (msg_body msg)))) (\<lambda>bonds.
     res_bind (i64_to_u64 (fs_block_number (mb_state (msg_body msg))) ''block_number'') (\<lambda>n.
     res_bind (res_map processed_deploy_from_f1r3node (mb_deploys (msg_body msg))) (\<lambda>ds.
       let p = \<lparr>por_authorizations = auths,
             payload_state = \<lparr>pre_state_hash = fs_pre_state_hash (mb_state (msg_body msg)), post_state_hash = fs_post_state_hash (mb_state (msg_body msg)),
               state_bonds = bonds, block_number = n\<rparr>,
             payload_deploys = ds, payload_rejected = map rejected_deploy_from_f1r3node (mb_rejected (msg_body msg)),
             payload_system = map system_deploy_from_f1r3node (mb_system (msg_body msg))\<rparr>;
           c = \<lparr>payload = to_bytes s p, predecessors = preds\<rparr>;
           who = NodeId (sender msg) in
       Inr \<lparr>identity = BlockIdentity (block_hash_ext hash who c) who (msg_sig msg), content = c\<rparr>)))))"

end
