(* ===== verification/Block_Translation_Proofs.thy ===== *)
theory Block_Translation_Proofs
  imports Block_Translation
begin

text \<open>
  The translation to a message and back returns the block without the signatures of its predecessors, when the message
  format can carry its payload: no rejected deploys, stakes below \<open>2\<^sup>6\<^sup>3\<close> and canonical algorithm names.
\<close>

section \<open>Fields\<close>

lemma u64_i64_round [res_ok]: "u64_to_i64 v field = Inr w \<longleftrightarrow> v < 2 ^ 63 \<and> w = int v"
  by (auto simp: u64_to_i64_def)

lemma i64_int [simp]: "i64_to_u64 (int v) field = Inr v"
  by (simp add: i64_to_u64_def)

lemma as_i64_exact: "v < 2 ^ 63 \<Longrightarrow> as_i64 v = int v"
  by (simp add: as_i64_def)

lemma as_i64_negative: "2 ^ 63 \<le> v \<Longrightarrow> v < 2 ^ 64 \<Longrightarrow> as_i64 v < 0"
  by (simp add: as_i64_def)

lemma opt_res_ok [res_ok]: "opt_res f x = Inr y \<longleftrightarrow> (case x of None \<Rightarrow> y = None | Some v \<Rightarrow> \<exists>w. f v = Inr w \<and> y = Some w)"
  by (cases x; cases "f (the x)") (auto simp: opt_res_def)

lemma res_map_inverse:
  "res_map f xs = Inr ys \<Longrightarrow> (\<And>x y. x \<in> set xs \<Longrightarrow> f x = Inr y \<Longrightarrow> g y = Inr x) \<Longrightarrow> res_map g ys = Inr xs"
  by (induction xs arbitrary: ys) (auto simp: res_bind_ok)

lemma deploy_round_trip: "deploy_to_f1r3node d = Inr w \<Longrightarrow> deploy_from_f1r3node w = Inr d"
  by (auto simp: deploy_to_f1r3node_def deploy_from_f1r3node_def res_ok opt_res_def split: option.splits)

definition canonical_algorithm :: "processed_deploy \<Rightarrow> bool" where
  "canonical_algorithm pd \<longleftrightarrow> algorithm_from_name (algorithm_as_name (signature_algorithm (processed_of pd))) = signature_algorithm (processed_of pd)"

lemma processed_round_trip:
  "processed_deploy_to_f1r3node pd = Inr w \<Longrightarrow> canonical_algorithm pd \<Longrightarrow> processed_deploy_from_f1r3node w = Inr pd"
  by (auto simp: processed_deploy_to_f1r3node_def processed_deploy_from_f1r3node_def signed_deploy_to_f1r3node_def
      signed_deploy_from_f1r3node_def res_ok canonical_algorithm_def dest!: deploy_round_trip)

lemma bond_round_trip: "bond_stake b < 2 ^ 63 \<Longrightarrow> bond_from_f1r3node (bond_to_f1r3node b) = Inr b"
  by (cases b) (simp add: bond_from_f1r3node_def bond_to_f1r3node_def as_i64_exact)

lemma bonds_round_trip: "\<forall>b \<in> set bs. bond_stake b < 2 ^ 63 \<Longrightarrow> res_map bond_from_f1r3node (map bond_to_f1r3node bs) = Inr bs"
  by (induction bs) (simp_all add: bond_round_trip)

text \<open>A stake from \<open>2\<^sup>6\<^sup>3\<close> on becomes negative and is refused by the receiver.\<close>

lemma large_stake_refused: "2 ^ 63 \<le> bond_stake b \<Longrightarrow> bond_stake b < 2 ^ 64 \<Longrightarrow> bond_from_f1r3node (bond_to_f1r3node b) = Inl (NumericOverflow ''bond.stake'')"
  using as_i64_negative [of "bond_stake b"] by (simp add: bond_from_f1r3node_def bond_to_f1r3node_def i64_to_u64_def)

lemma system_round_trip: "system_deploy_from_f1r3node (system_deploy_to_f1r3node sd) = sd"
  by (cases sd) simp_all

section \<open>Predecessors\<close>

lemma map_of_fold_updates:
  assumes "\<forall>j \<in> set js. k j = x \<longrightarrow> v j = c" "(\<exists>j \<in> set js. k j = x) \<or> map_of m x = Some c"
  shows "map_of (fold (\<lambda>j m. AList.update (k j) (v j) m) js m) x = Some c"
  using assms
proof (induction js arbitrary: m)
  case (Cons j js)
  show ?case using Cons.IH [of "AList.update (k j) (v j) m"] Cons.prems by (auto simp: update_conv)
qed simp

lemma predecessors_round_trip:
  assumes msg: "parents_hash_list (msg_header msg) = sort (map content_hash ps)"
    "justifications msg = sort_key key (map (\<lambda>i. \<lparr>just_validator = node_bytes (creator i), latest_block_hash = content_hash i\<rparr>) ps)"
    and ps: "\<forall>i \<in> set ps. length (content_hash i) = 32" "inj_on content_hash (set ps)"
  shows "\<exists>qs. res_map (predecessor_of_hash msg) (pred_hashes msg) = Inr qs \<and> distinct qs \<and> set qs = consensus_identity ` set ps"
proof -
  have one: "predecessor_of_hash msg (content_hash i) = Inr (consensus_identity i)" if i: "i \<in> set ps" for i
  proof -
    have "map_of (hash_to_creator msg) (content_hash i) = Some (node_bytes (creator i))"
      unfolding hash_to_creator_def msg(2)
      by (rule map_of_fold_updates) (use i ps(2) in \<open>auto simp: inj_on_def\<close>)
    then show ?thesis using ps(1) i by (simp add: predecessor_of_hash_def consensus_identity_def)
  qed
  let ?undo_hash = "\<lambda>h. consensus_identity (the_inv_into (set ps) content_hash h)"
  have hs: "set (pred_hashes msg) = content_hash ` set ps" by (auto simp: pred_hashes_def msg)
  have undo: "?undo_hash (content_hash i) = consensus_identity i" if "i \<in> set ps" for i using the_inv_into_f_f [OF ps(2) that] by simp
  have "map (predecessor_of_hash msg) (pred_hashes msg) = map Inr (map ?undo_hash (pred_hashes msg))"
    using one undo hs by (auto simp: image_iff)
  then have "res_map (predecessor_of_hash msg) (pred_hashes msg) = Inr (map ?undo_hash (pred_hashes msg))" unfolding res_map_ok .
  moreover have "set (map ?undo_hash (pred_hashes msg)) = consensus_identity ` set ps"
    unfolding set_map hs image_image by (rule image_cong [OF refl undo])
  moreover have "distinct (map ?undo_hash (pred_hashes msg))"
  proof -
    have "inj_on ?undo_hash (content_hash ` set ps)" by (rule inj_onI) (use undo in \<open>auto simp: consensus_identity_def\<close>)
    then show ?thesis using hs by (simp add: distinct_map pred_hashes_def)
  qed
  ultimately show ?thesis by blast
qed

text \<open>The hash of a block reads its predecessors as a set, without their signatures.\<close>

lemma hash_ignores_signatures:
  assumes "payload c' = payload c" "set (predecessors c') = consensus_identity ` set (predecessors c)" "distinct (predecessors c')"
    and "distinct (predecessors c)" "inj_on content_hash (set (predecessors c))"
  shows "block_hash_ext hash who c' = block_hash_ext hash who c"
proof -
  let ?k = "\<lambda>p. (content_hash p, creator p)"
  have i: "inj_on consensus_identity (set (predecessors c))"
    by (rule inj_onI) (metis assms(5) consensus_identity_sel(1) inj_onD)
  have s: "map consensus_identity (sorted_preds c) = sorted_preds c'"
  proof (rule map_sorted_distinct_set_unique [of ?k])
    show "inj_on ?k (set (map consensus_identity (sorted_preds c)) \<union> set (sorted_preds c'))"
      by (rule inj_onI) (auto simp: assms(2) consensus_identity_def)
    have m: "map ?k (map consensus_identity (sorted_preds c)) = map ?k (sorted_preds c)" by simp
    show "sorted (map ?k (map consensus_identity (sorted_preds c)))" unfolding m by (simp add: sorted_preds_def)
    show "sorted (map ?k (sorted_preds c'))" by (simp add: sorted_preds_def)
    have "inj_on ?k (set (predecessors c))" "inj_on ?k (set (predecessors c'))"
      using assms(5) by (auto simp: inj_on_def assms(2) consensus_identity_def)
    then show "distinct (map ?k (map consensus_identity (sorted_preds c)))" "distinct (map ?k (sorted_preds c'))"
      using assms(3,4) unfolding m by (simp_all add: distinct_map sorted_preds_def)
  qed (simp add: assms(2))
  have "map pred_bytes (sorted_preds c') = map pred_bytes (sorted_preds c)" unfolding s [symmetric] by (simp add: pred_bytes_def)
  moreover have "length (sorted_preds c') = length (sorted_preds c)" unfolding s [symmetric] by simp
  ultimately show ?thesis unfolding block_hash_ext_def hash_input_def assms(1) by metis
qed

section \<open>Blocks\<close>

definition carries_payload :: "cordial_block_payload \<Rightarrow> bool" where
  "carries_payload p \<longleftrightarrow> payload_rejected p = [] \<and> (\<forall>b \<in> set (state_bonds (payload_state p)). bond_stake b < 2 ^ 63) \<and>
     (\<forall>d \<in> set (payload_deploys p). canonical_algorithm d)"

definition clean_predecessors :: "block \<Rightarrow> bool" where
  "clean_predecessors b \<longleftrightarrow> distinct (predecessors (content b)) \<and> inj_on content_hash (set (predecessors (content b))) \<and>
     (\<forall>i \<in> set (predecessors (content b)). length (content_hash i) = 32)"

lemma block_round_trip:
  assumes p: "from_bytes s (payload (content b)) = Some p" "to_bytes s p = payload (content b)" "carries_payload p"
    and a: "decode_por_extra s (encode_por_extra s (por_authorizations p)) = Some (por_authorizations p)"
    and b: "clean_predecessors b" and m: "block_to_message s b shard = Inr msg"
  shows "\<exists>b'. message_to_block hash s msg = Inr b' \<and> payload (content b') = payload (content b) \<and>
    set (predecessors (content b')) = consensus_identity ` set (predecessors (content b)) \<and> distinct (predecessors (content b')) \<and>
    identity b' = BlockIdentity (block_hash_ext hash (node b) (content b)) (node b) (signature (identity b))"
proof -
  from m p(1) obtain n ds where n: "u64_to_i64 (block_number (payload_state p)) ''block_number'' = Inr n"
    and ds: "res_map processed_deploy_to_f1r3node (payload_deploys p) = Inr ds"
    and msg: "parents_hash_list (msg_header msg) = sort (map content_hash (predecessors (content b)))"
      "justifications msg = sort_key (\<lambda>j. (just_validator j, latest_block_hash j))
         (map (\<lambda>i. \<lparr>just_validator = node_bytes (creator i), latest_block_hash = content_hash i\<rparr>) (predecessors (content b)))"
      "sender msg = node_bytes (node b)" "msg_sig msg = signature (identity b)"
      "msg_body msg = \<lparr>mb_state = \<lparr>fs_pre_state_hash = pre_state_hash (payload_state p), fs_post_state_hash = post_state_hash (payload_state p),
                  fs_bonds = map bond_to_f1r3node (state_bonds (payload_state p)), fs_block_number = n\<rparr>,
                mb_deploys = ds, mb_rejected = map rejected_deploy_to_f1r3node (payload_rejected p),
                mb_system = map system_deploy_to_f1r3node (payload_system p), mb_extra = encode_por_extra s (por_authorizations p)\<rparr>"
    by (auto simp: block_to_message_def Let_def res_bind_ok)
  note c = b [unfolded clean_predecessors_def]
  obtain qs where qs: "res_map (predecessor_of_hash msg) (pred_hashes msg) = Inr qs" "distinct qs"
      "set qs = consensus_identity ` set (predecessors (content b))"
    using predecessors_round_trip [OF msg(1,2)] c by blast
  have undo: "res_map processed_deploy_from_f1r3node ds = Inr (payload_deploys p)"
    by (rule res_map_inverse [OF ds]) (use p(3) in \<open>auto simp: carries_payload_def intro: processed_round_trip\<close>)
  have bonds: "res_map bond_from_f1r3node (map bond_to_f1r3node (state_bonds (payload_state p))) = Inr (state_bonds (payload_state p))"
    by (rule bonds_round_trip) (use p(3) in \<open>simp add: carries_payload_def\<close>)
  have sys: "map (system_deploy_from_f1r3node \<circ> system_deploy_to_f1r3node) xs = xs" for xs by (simp add: system_round_trip map_idI)
  have rej: "payload_rejected p = []" using p(3) by (simp add: carries_payload_def)
  let ?c = "\<lparr>payload = payload (content b), predecessors = qs\<rparr>"
  have pp: "\<lparr>por_authorizations = por_authorizations p, payload_state = \<lparr>pre_state_hash = pre_state_hash (payload_state p),
      post_state_hash = post_state_hash (payload_state p), state_bonds = state_bonds (payload_state p), block_number = block_number (payload_state p)\<rparr>,
      payload_deploys = payload_deploys p, payload_rejected = [], payload_system = payload_system p\<rparr> = p" using rej by (cases p) simp
  have "message_to_block hash s msg = Inr \<lparr>identity = BlockIdentity (block_hash_ext hash (node b) ?c) (node b) (signature (identity b)), content = ?c\<rparr>"
    using n by (simp add: message_to_block_def qs(1) msg a bonds undo res_ok sys rej pp p(2) Let_def)
  moreover have "block_hash_ext hash (node b) ?c = block_hash_ext hash (node b) (content b)"
    by (rule hash_ignores_signatures) (use qs c in simp_all)
  ultimately show ?thesis using qs by auto
qed

section \<open>Which blocks have a message\<close>

definition deploy_translatable :: "processed_deploy \<Rightarrow> bool" where
  "deploy_translatable pd \<longleftrightarrow> (let d = the_deploy (processed_of pd) in
     utf8_valid (deploy_term d) \<and> deploy_timestamp d < 2 ^ 63 \<and> phlo_price d < 2 ^ 63 \<and> phlo_limit d < 2 ^ 63 \<and>
     valid_after_block_number d < 2 ^ 63 \<and> (case expiration_timestamp d of None \<Rightarrow> True | Some e \<Rightarrow> e < 2 ^ 63) \<and> deploy_cost pd < 2 ^ 63)"

definition translatable :: "cordial_block_payload \<Rightarrow> bool" where
  "translatable p \<longleftrightarrow> block_number (payload_state p) < 2 ^ 63 \<and> (\<forall>pd \<in> set (payload_deploys p). deploy_translatable pd)"

lemma processed_translatable: "(\<exists>w. processed_deploy_to_f1r3node pd = Inr w) \<longleftrightarrow> deploy_translatable pd"
  by (cases "expiration_timestamp (the_deploy (processed_of pd))")
    (auto simp: processed_deploy_to_f1r3node_def signed_deploy_to_f1r3node_def deploy_to_f1r3node_def res_bind_ok u64_i64_round opt_res_ok
      deploy_translatable_def Let_def)

lemma res_map_total: "(\<exists>ys. res_map f xs = Inr ys) \<longleftrightarrow> (\<forall>x \<in> set xs. \<exists>y. f x = Inr y)"
  by (induction xs) (auto simp: res_bind_ok)

lemma message_exists:
  assumes "from_bytes s (payload (content b)) = Some p"
  shows "(\<exists>msg. block_to_message s b shard = Inr msg) \<longleftrightarrow> translatable p"
proof -
  have "(\<exists>msg. block_to_message s b shard = Inr msg) \<longleftrightarrow>
      block_number (payload_state p) < 2 ^ 63 \<and> (\<exists>ds. res_map processed_deploy_to_f1r3node (payload_deploys p) = Inr ds)"
    by (auto simp: block_to_message_def assms Let_def res_bind_ok u64_i64_round)
  then show ?thesis by (simp add: res_map_total processed_translatable translatable_def)
qed

end
