(* ===== verification/Claims_Adapter.thy ===== *)
theory Claims_Adapter
  imports Block_Translation_Proofs Claims_Node
begin

text \<open>
  The properties of the translation between blocks and the messages of the host node.
\<close>






end
