(* ===== verification/App_Runtime.thy ===== *)
theory App_Runtime
  imports Results Xsort "HOL-Library.Char_ord"
begin

text \<open>
  \<open>cordial-app-runtime\<close>: events, receipts and the in-memory runtime that delivers finalized events to applications.
  The applications are trait objects written elsewhere: the record \<open>app_ops\<close> holds their methods, over one type of
  application state, and is a parameter of the runtime, as is the text of errors.
\<close>

section \<open>Events, receipts, errors\<close>

type_synonym app_id = string
type_synonym app_event_id = string

record app_event =
  event_id :: app_event_id
  event_app :: app_id
  event_type :: string
  event_payload :: "byte list"
  submitter :: "byte list"
  ordered_index :: nat
  event_block_hash :: "byte list"
  event_deploy_signature :: "byte list option"
  finalized_anchor :: "byte list"

record app_cursor =
  cursor_anchor :: "byte list"
  cursor_index :: nat

record app_snapshot =
  snapshot_app :: app_id
  snapshot_cursor :: "app_cursor option"
  snapshot_root :: "byte list option"
  snapshot_payload :: "byte list"

datatype receipt_status = Applied | Rejected

record app_receipt =
  receipt_app :: app_id
  receipt_event :: app_event_id
  receipt_index :: nat
  receipt_status :: receipt_status
  receipt_root :: "byte list option"
  receipt_message :: "string option"

datatype (plugins only: code) app_error =
  UnknownApp app_id | DuplicateEvent app_event_id | ValidationRejected string | ApplyFailed string

section \<open>The runtime\<close>

text \<open>The methods of \<open>CordialApp\<close>; \<open>apply\<close> may change the application even when it fails.\<close>

record 's app_ops =
  ops_app_id :: "'s \<Rightarrow> app_id"
  ops_validate :: "'s \<Rightarrow> app_event \<Rightarrow> app_error + unit"
  ops_apply :: "'s \<Rightarrow> app_event \<Rightarrow> (app_error + app_receipt) \<times> 's"
  ops_snapshot :: "'s \<Rightarrow> app_snapshot"
  ops_error_text :: "app_error \<Rightarrow> string"

record 's app_runtime =
  apps :: "(app_id \<times> 's) list"
  processed_event_ids :: "app_event_id list"
  runtime_receipts :: "(app_event_id \<times> app_receipt) list"
  receipt_order :: "app_event_id list"
  runtime_cursor :: "app_cursor option"

definition new_app_runtime :: "'s app_runtime" where
  "new_app_runtime = \<lparr>apps = [], processed_event_ids = [], runtime_receipts = [], receipt_order = [], runtime_cursor = None\<rparr>"

definition register_app :: "'s app_ops \<Rightarrow> 's app_runtime \<Rightarrow> 's \<Rightarrow> 's option \<times> 's app_runtime" where
  "register_app ops rt app = (map_of (apps rt) (ops_app_id ops app), rt\<lparr>apps := bt_insert (ops_app_id ops app) app (apps rt)\<rparr>)"

definition validation_rejection_message :: "'s app_ops \<Rightarrow> app_error \<Rightarrow> string" where
  "validation_rejection_message ops e = (case e of ValidationRejected message \<Rightarrow> message | _ \<Rightarrow> ops_error_text ops e)"

definition record_processed_event :: "app_event \<Rightarrow> app_receipt \<Rightarrow> 's app_runtime \<Rightarrow> 's app_runtime" where
  "record_processed_event ev r rt =
     rt\<lparr>processed_event_ids := insort_insert (event_id ev) (processed_event_ids rt),
        receipt_order := receipt_order rt @ [event_id ev],
        runtime_receipts := bt_insert (event_id ev) r (runtime_receipts rt),
        runtime_cursor := Some \<lparr>cursor_anchor = finalized_anchor ev, cursor_index = ordered_index ev\<rparr>\<rparr>"

definition receipt_for :: "app_event \<Rightarrow> receipt_status \<Rightarrow> byte list option \<Rightarrow> string option \<Rightarrow> app_receipt" where
  "receipt_for ev status root message =
     \<lparr>receipt_app = event_app ev, receipt_event = event_id ev, receipt_index = ordered_index ev, receipt_status = status,
      receipt_root = root, receipt_message = message\<rparr>"

definition process_event :: "'s app_ops \<Rightarrow> 's app_runtime \<Rightarrow> app_event \<Rightarrow> (app_error + app_receipt) \<times> 's app_runtime" where
  "process_event ops rt ev =
     (if event_id ev \<in> set (processed_event_ids rt) then (Inl (DuplicateEvent (event_id ev)), rt)
      else case map_of (apps rt) (event_app ev) of
        None \<Rightarrow> (Inl (UnknownApp (event_app ev)), rt)
      | Some app \<Rightarrow>
          (case ops_validate ops app ev of
             Inr _ \<Rightarrow>
               (case ops_apply ops app ev of (result, app') \<Rightarrow>
                  let rt' = rt\<lparr>apps := bt_insert (event_app ev) app' (apps rt)\<rparr> in
                  (case result of
                     Inl e \<Rightarrow> (Inl e, rt')
                   | Inr r \<Rightarrow> let receipt = receipt_for ev Applied (receipt_root r) (receipt_message r) in
                       (Inr receipt, record_processed_event ev receipt rt')))
           | Inl e \<Rightarrow> let receipt = receipt_for ev Rejected (snapshot_root (ops_snapshot ops app)) (Some (validation_rejection_message ops e)) in
               (Inr receipt, record_processed_event ev receipt rt)))"

fun process_events :: "'s app_ops \<Rightarrow> 's app_runtime \<Rightarrow> app_event list \<Rightarrow> (app_error + app_receipt) list \<times> 's app_runtime" where
  "process_events ops rt [] = ([], rt)"
| "process_events ops rt (ev # evs) =
     (case process_event ops rt ev of (r, rt') \<Rightarrow> case process_events ops rt' evs of (rs, rt'') \<Rightarrow> (r # rs, rt''))"

definition runtime_receipt :: "'s app_runtime \<Rightarrow> app_event_id \<Rightarrow> app_receipt option" where
  "runtime_receipt rt i = map_of (runtime_receipts rt) i"

definition receipts_in_order :: "'s app_runtime \<Rightarrow> app_receipt list" where
  "receipts_in_order rt = List.map_filter (map_of (runtime_receipts rt)) (receipt_order rt)"

definition runtime_snapshot :: "'s app_ops \<Rightarrow> 's app_runtime \<Rightarrow> app_id \<Rightarrow> app_error + app_snapshot" where
  "runtime_snapshot ops rt i = ok_or (map_option (ops_snapshot ops) (map_of (apps rt) i)) (UnknownApp i)"

definition runtime_snapshots :: "'s app_ops \<Rightarrow> 's app_runtime \<Rightarrow> app_snapshot list" where
  "runtime_snapshots ops rt = map (\<lambda>e. ops_snapshot ops (snd e)) (apps rt)"

section \<open>Invariant\<close>

text \<open>The three tables describe the same events, each once, in the order they were decided.\<close>

definition runtime_inv :: "'s app_runtime \<Rightarrow> bool" where
  "runtime_inv rt \<longleftrightarrow> sorted_wrt (<) (map fst (apps rt)) \<and> sorted_wrt (<) (map fst (runtime_receipts rt)) \<and>
     distinct (receipt_order rt) \<and> set (receipt_order rt) = set (processed_event_ids rt) \<and>
     fst ` set (runtime_receipts rt) = set (receipt_order rt) \<and>
     (\<forall>(i, r) \<in> set (runtime_receipts rt). receipt_event r = i) \<and> (runtime_cursor rt = None \<longleftrightarrow> receipt_order rt = [])"

lemma new_runtime_inv: "runtime_inv new_app_runtime"
  by (simp add: runtime_inv_def new_app_runtime_def)

lemma register_inv: "runtime_inv rt \<Longrightarrow> runtime_inv (snd (register_app ops rt app))"
  by (simp add: runtime_inv_def register_app_def sorted_bt_insert)

lemma record_inv:
  assumes "runtime_inv rt" "event_id ev \<notin> set (processed_event_ids rt)" "receipt_event r = event_id ev"
  shows "runtime_inv (record_processed_event ev r rt)"
proof -
  have s: "sorted_wrt (<) (map fst (runtime_receipts rt))" and k: "fst ` set (runtime_receipts rt) = set (receipt_order rt)"
    and p: "set (receipt_order rt) = set (processed_event_ids rt)" using assms(1) by (simp_all add: runtime_inv_def)
  have n: "event_id ev \<notin> fst ` set (runtime_receipts rt)" using assms(2) k p by simp
  then have i: "set (bt_insert (event_id ev) r (runtime_receipts rt)) = insert (event_id ev, r) (set (runtime_receipts rt))"
    by (force simp: set_bt_insert [OF s])
  show ?thesis
    using assms i k p sorted_bt_insert [OF s]
    by (simp add: runtime_inv_def record_processed_event_def set_insort_insert)
qed

lemma process_inv:
  assumes "runtime_inv rt"
  shows "runtime_inv (snd (process_event ops rt ev))"
proof (cases "event_id ev \<in> set (processed_event_ids rt)")
  case False
  show ?thesis
  proof (cases "map_of (apps rt) (event_app ev)")
    case (Some app)
    have a: "runtime_inv (rt\<lparr>apps := bt_insert (event_app ev) app' (apps rt)\<rparr>)" for app'
      using assms by (simp add: runtime_inv_def sorted_bt_insert)
    show ?thesis
      using False Some record_inv [OF a, of ev] record_inv [OF assms False] a
      by (auto simp: process_event_def Let_def receipt_for_def split: sum.splits prod.splits)
  qed (use assms False in \<open>simp add: process_event_def\<close>)
qed (use assms in \<open>simp add: process_event_def\<close>)

lemma process_events_inv: "runtime_inv rt \<Longrightarrow> runtime_inv (snd (process_events ops rt evs))"
proof (induction evs arbitrary: rt)
  case (Cons ev evs)
  show ?case using Cons.IH [OF process_inv [OF Cons.prems, of ops ev]] by (simp add: case_prod_beta)
qed simp

section \<open>Delivery\<close>

lemma process_decides:
  assumes "process_event ops rt ev = (res, rt')"
  shows "receipt_order rt' = receipt_order rt @ (case res of Inl _ \<Rightarrow> [] | Inr _ \<Rightarrow> [event_id ev])"
    "set (processed_event_ids rt') = set (processed_event_ids rt) \<union> (case res of Inl _ \<Rightarrow> {} | Inr _ \<Rightarrow> {event_id ev})"
    "res = Inr r \<Longrightarrow> receipt_event r = event_id ev \<and> receipt_app r = event_app ev \<and> receipt_index r = ordered_index ev"
    "runtime_cursor rt' = (case res of Inl _ \<Rightarrow> runtime_cursor rt | Inr _ \<Rightarrow> Some \<lparr>cursor_anchor = finalized_anchor ev, cursor_index = ordered_index ev\<rparr>)"
  using assms
  by (auto simp: process_event_def record_processed_event_def receipt_for_def Let_def set_insort_insert
      split: if_splits option.splits sum.splits prod.splits)

text \<open>An event that was decided is not delivered again.\<close>

lemma redelivery:
  "set (map event_id evs) \<subseteq> set (processed_event_ids rt) \<Longrightarrow>
     process_events ops rt evs = (map (\<lambda>ev. Inl (DuplicateEvent (event_id ev))) evs, rt)"
  by (induction evs) (simp_all add: process_event_def)

lemma processed_grows: "set (processed_event_ids rt) \<subseteq> set (processed_event_ids (snd (process_events ops rt evs)))"
proof (induction evs arbitrary: rt)
  case (Cons ev evs)
  obtain r rt1 where p: "process_event ops rt ev = (r, rt1)" by (cases "process_event ops rt ev")
  show ?case using Cons.IH [of rt1] process_decides(2) [OF p] by (auto simp: p case_prod_beta)
qed simp

lemma events_decide:
  "process_events ops rt evs = (rs, rt') \<Longrightarrow> length rs = length evs \<and>
     receipt_order rt' = receipt_order rt @ map (\<lambda>(ev, r). event_id ev) (filter (\<lambda>(ev, r). \<not> isl r) (zip evs rs)) \<and>
     set (processed_event_ids rt') = set (processed_event_ids rt) \<union>
       set (map (\<lambda>(ev, r). event_id ev) (filter (\<lambda>(ev, r). \<not> isl r) (zip evs rs)))"
proof (induction evs arbitrary: rt rs)
  case (Cons ev evs)
  obtain r rt1 where p: "process_event ops rt ev = (r, rt1)" by (cases "process_event ops rt ev")
  obtain rs1 where q: "process_events ops rt1 evs = (rs1, rt')" "rs = r # rs1" using Cons.prems by (auto simp: p split: prod.splits)
  note d = process_decides(1,2) [OF p]
  show ?case using Cons.IH [OF q(1)] d unfolding q(2) by (cases r) auto
qed simp

text \<open>The receipts come out in the order of the decisions.\<close>

lemma receipts_events:
  assumes "runtime_inv rt"
  shows "map receipt_event (receipts_in_order rt) = receipt_order rt"
proof -
  have d: "distinct (map fst (runtime_receipts rt))" using assms by (simp add: runtime_inv_def strict_sorted_iff)
  have "\<exists>r. map_of (runtime_receipts rt) i = Some r \<and> receipt_event r = i" if "i \<in> set (receipt_order rt)" for i
  proof -
    have "i \<in> fst ` set (runtime_receipts rt)" using assms that by (simp add: runtime_inv_def)
    then obtain r where r: "(i, r) \<in> set (runtime_receipts rt)" by auto
    then show ?thesis using d assms by (auto simp: runtime_inv_def)
  qed
  then have "map receipt_event (List.map_filter (map_of (runtime_receipts rt)) is) = is" if "set is \<subseteq> set (receipt_order rt)" for "is"
    using that by (induction "is") (force simp: List.map_filter_simps)+
  then show ?thesis by (simp add: receipts_in_order_def)
qed

end
