(* ===== verification/Spec2Isabelle.thy ===== *)
theory Spec2Isabelle
  imports Claims_Consensus Claims_Node Claims_Evidence Claims_Execution Claims_Por Claims_Rating Claims_Adapter App_Runtime
begin

text \<open>
  A verification library for the Cordial Miners consensus node (\<open>src/crates\<close>).

  \<^bold>\<open>The program.\<close>  A node keeps a \<^emph>\<open>blocklace\<close>: a set of signed blocks, each pointing to the
  blocks its author had seen.  From that set alone every node derives, without further messages, which
  blocks approve and ratify which, which leader of which wave of rounds is final, and one total order
  of all blocks below the final leaders.  Around this core the crate \<open>cordial-miners-core\<close> has
  validation of received blocks, a buffer for blocks whose predecessors are missing, the construction of
  proposals, fork choice, evidence of equivocation, pruning below a final checkpoint, and the
  execution layer (payloads, deploy pool, deterministic runtime).  The crate \<open>cordial-por\<close> adds Proof of
  Reputation: nodes rate each other for finalized rounds, every node replays the same integer arithmetic to
  the next reputation list, audits the block that publishes it, and exports the reputations as the weights
  of the consensus rules.  The adapter runs the rating rounds: it derives from the finalized order whom each
  validator must rate, exchanges and collects signed ratings, closes the round, and confirms the next
  reputation block.

  The parts depend on each other in one direction, which is also the import order of the theories:
  block types, store, ancestor index, rounds, weights, approval and ratification, finality, order;
  then hashing, validation, dissemination with the pending buffer, fork choice; then evidence and
  pruning, which read the store, its depths and the order; then execution; then
  Proof of Reputation, which reads verified evidence; then the rating rounds, which read the order, the payloads and the reputation
  state.

  \<^bold>\<open>How code is modelled.\<close>
  Structs are records, enums are datatypes, a function is one HOL function with the same name, a
  method that mutates its receiver returns the new record beside its result, and \<open>Result\<close> is a sum with
  the error on the left.  Machine integers are natural numbers with every operation that can leave its
  width written out (\<open>checked_add 64\<close>, \<open>wrapping_add 64\<close>, \<open>mod 2 ^ 64\<close>; \<open>Prelude\<close>); bits of the closure
  matrix are 64-bit words.  Counters that start at zero and grow by one per stored block (the generation of
  a store, depths) cannot reach their width and are plain natural numbers.  Hash maps and sets are lists in an arbitrary iteration order, so each theorem holds
  for every order; ordered maps and sets are sorted lists.  Memo tables and cache slots are
  threaded through the calls as in the source and shown to be transparent.  The model is the build
  without the optional \<open>trace\<close> feature and without overflow checks.

  Third-party code is a parameter of the definitions that call it: the hash functions (\<open>hasher\<close>,
  \<open>digest\<close>), the signature scheme (\<open>scheme\<close>), the block verifier of the store, the \<open>bincode\<close> serializer
  of payloads and the caller's leader selection.  What a theorem needs of one of them is a named
  hypothesis (for instance \<open>collision_free\<close>), and its witness instantiates the
  parameter by a concrete function that satisfies it.

  \<^bold>\<open>Consensus\<close> (\<open>blocklace.rs\<close>, \<open>ancestor_index.rs\<close>, \<open>consensus/\<close>).
  \<^item> \<open>Prelude\<close>: integers, ordered insertion, the worklist loop behind every graph walk (locale
    \<open>search_space\<close>) and the contract of a memoised function (locale \<open>memo_fn\<close>).
  \<^item> \<open>Block_Types\<close>: \<open>block.rs\<close>, \<open>types/\<close>, with the derived orders as class instances.
  \<^item> \<open>Closure_Matrix\<close>, \<open>Ancestor_Index\<close>: the bit matrix filled by an iterative depth-first search, the
    conflict table, the cached index with its generation stamp.  Lemmas: the matrix is the transitive
    closure, a slot with the current stamp is the index of the current store.
  \<^item> \<open>Blocklace\<close>, \<open>Walks\<close>: insertion, trusted boundary, queries and walks.  Lemmas: the store invariant is
    kept by every operation, the walks compute reachability.
  \<^item> \<open>Rounds\<close>: \<open>consensus/round.rs\<close>, \<open>consensus/wave.rs\<close>; the recursive depth with its memo table.  Its fuel
    \<open>depth_fuel\<close> is the number of stored blocks plus two: the recursion follows distinct stored blocks.
  \<^item> \<open>Weights\<close>, \<open>Cordiality\<close>, \<open>Finality\<close>: quorums with checked arithmetic, certificates, approval,
    ratification and final leaders by count and by stake.  The quorum intersection argument is made once in a
    locale and interpreted for both rules.
  \<^item> \<open>Xsort\<close>, \<open>Ordering\<close>, \<open>Ordering_Proofs\<close>: \<open>consensus/ordering.rs\<close>; the deterministic topological sort and
    the walk over the chain of final leaders, whose fuel \<open>leader_fuel\<close> is enough because the leader's depth
    decreases.
  \<^item> \<open>Scenario\<close>, \<open>Claims_Consensus\<close>: a concrete run for the examples, and the properties.

  \<^bold>\<open>Node\<close> (\<open>crypto.rs\<close>, \<open>consensus/validation.rs\<close>, \<open>consensus/dissemination.rs\<close>,
  \<open>consensus/fork_choice.rs\<close>).  \<open>Codec\<close> has the byte encodings and the argument that length-prefixed
  sequences are uniquely readable; \<open>Crypto\<close>, \<open>Validation\<close>, \<open>Dissemination\<close>, \<open>Pending_Buffer\<close> and
  \<open>Fork_Choice\<close> are one theory per component; \<open>Claims_Node\<close> has the properties.  The replay loop of the
  buffer runs with the fuel \<open>retry_fuel\<close>, one more than the number of buffered blocks: every round but the
  last removes a block.

  \<^bold>\<open>Evidence\<close> (\<open>consensus/evidence.rs\<close>, \<open>consensus/verified_evidence.rs\<close>).  \<open>Evidence\<close> is the pool, whose
  contract is the locale \<open>evidence_store\<close>; \<open>Verified_Evidence\<close> the strict check with its history walk, a
  total function; \<open>Evidence_History\<close> shows the walk sound and complete; \<open>Evidence_Codec\<close> is the canonical encoding;
  \<open>Claims_Evidence\<close> has the properties.

  \<^bold>\<open>Pruning and execution\<close> (\<open>consensus/pruning.rs\<close>, \<open>execution/\<close>).  \<open>Pruning\<close>, \<open>Payload\<close>, \<open>Deploy_Pool\<close>
  and \<open>Runtime\<close> are one theory per component; \<open>Claims_Execution\<close> has the properties.

  \<^bold>\<open>Proof of Reputation\<close> (\<open>cordial-por\<close>).
  \<^item> \<open>Results\<close>: early return on \<open>Result\<close> as a monad on sums, with the collection \<open>res_ok\<close> of facts saying when a
    computation succeeds.
  \<^item> \<open>Por_Types\<close>: \<open>types.rs\<close>, \<open>config.rs\<close>, \<open>error.rs\<close>, and the standard library's binary search as its loop.
  \<^item> \<open>Por_Rating\<close>: \<open>ratings.rs\<close>, \<open>matrix.rs\<close>.  Lemmas: signed payloads are unambiguous, batches do not depend on
    arrival order.
  \<^item> \<open>Por_Rank\<close>, \<open>Por_Rank_Proofs\<close>: \<open>normalization.rs\<close>, \<open>liquid_rank.rs\<close>, \<open>transition.rs\<close>, \<open>clamp.rs\<close>.  Lemmas: the
    integer square root is the floor, the merge loops over sorted vectors are node-wise maps, the checked
    operations succeed below \<open>2\<^sup>6\<^sup>3\<close>.
  \<^item> \<open>Por_Penalty\<close>, \<open>Por_Penalty_Proofs\<close>: \<open>penalties.rs\<close>, \<open>evidence.rs\<close> and the application of penalty events.
  \<^item> \<open>Por_Block\<close>: \<open>commitments.rs\<close> and the construction and validation of \<open>block.rs\<close>.  Lemmas: each commitment
    determines what it commits to.
  \<^item> \<open>Por_Audit\<close>: \<open>audit.rs\<close>; the closed form of a replayed round and what an audit accepts.
  \<^item> \<open>Por_State\<close>, \<open>Por_State_Proofs\<close>: \<open>state.rs\<close>, \<open>weights.rs\<close>, \<open>interactions.rs\<close>; the steps of the state as an
    inductive relation, its invariant by rule induction.
  \<^item> \<open>Por_Wire\<close>, \<open>Por_Wire_Proofs\<close>: the envelope of a block and \<open>snapshot.rs\<close>.  The locale \<open>wire_codec\<close> is the
    contract of a reader and an encoding that are exact inverses; it is interpreted for numbers, node names, flags,
    entries, lists and whole blocks.
  \<^item> \<open>Claims_Por\<close>: a two-node round for the examples, and the properties.

  \<^bold>\<open>Rating rounds\<close> (\<open>cordial-f1r3node-adapter\<close>).
  \<^item> \<open>Rating_Source\<close>, \<open>Rating_Source_Proofs\<close>: \<open>ordered_output.rs\<close>, \<open>por/finality.rs\<close>, \<open>por/interactions.rs\<close>,
    \<open>por/epoch_policy.rs\<close>.  Lemmas: a checkpoint depends on the prefix only and commits to it, each wave opens one
    round, evidence is the least block of each producer, replaying an earlier wave terminates on unpruned stores.
  \<^item> \<open>Rating_Wire\<close>: \<open>por/transport/wire.rs\<close> over the readers of \<open>Por_Wire\<close>; \<open>Rating_Signing\<close>: \<open>por/ratings.rs\<close>.
  \<^item> \<open>Rating_Collector\<close>, \<open>Rating_Collector_Proofs\<close>: \<open>por/collector.rs\<close>.  The locale \<open>rating_admission\<close> is what both
    collectors promise, that an accepted rating is a prescribed one; that counting detects completeness and that
    batches agree is proved in it once.
  \<^item> \<open>Rating_Round\<close>, \<open>Rating_Round_Proofs\<close>: \<open>por/transport/mod.rs\<close> and \<open>por/lifecycle\<close>; the coordinator as a step
    relation with its invariant.  An \<open>expect\<close> of the source is the error \<open>Panicked\<close>, which the invariant excludes.
  \<^item> \<open>Rating_Publication\<close>: \<open>por/transport/reputation_block.rs\<close>; a publication comes from the constructors of the file
    only, and the predicate \<open>constructed\<close> keeps that of the private fields; \<open>Rating_Transition\<close>, \<open>Rating_Transition_Proofs\<close>:
    \<open>por/evidence.rs\<close>, \<open>por/transition.rs\<close>, \<open>por/checkpoint.rs\<close> and \<open>por/lifecycle/checkpoint.rs\<close>.
  \<^item> \<open>Claims_Rating\<close>: a round of two validators for the examples, and the properties.

  \<^bold>\<open>Host and applications.\<close>
  \<^item> \<open>Block_Translation\<close>, \<open>Block_Translation_Proofs\<close>, \<open>Claims_Adapter\<close>: \<open>block_translation.rs\<close>, blocks as messages of the
    host node and back, over the message types that file mirrors.
  \<^item> \<open>App_Runtime\<close>: \<open>cordial-app-runtime\<close>, delivery of finalized events to applications (a parameter).  Lemmas: the tables
    agree, an event is decided once, redelivery changes nothing, receipts come in the order of the decisions.

  \<^bold>\<open>Not modelled.\<close>  The TCP transport over \<open>tokio\<close> (\<open>network/\<close>), the LMDB persistence
  (\<open>cordial-f1r3space-adapter\<close>), the rest of \<open>cordial-f1r3node-adapter\<close> (network ingress, proxies, the conversion from the host's
  own types, and the service that polls, persists and exchanges files around the rating
  rounds), the test harness
  (\<open>simulation/\<close>), the trace recorder and the entry points: they are effects of external systems or drive
  the modelled code without deciding anything in it.  Formatting of error messages, debug output and
  capacity hints are left out everywhere.
\<close>

end
